(* ===== verification/Prelude.thy ===== *)
theory Prelude
  imports Main "HOL-Library.Word" "HOL-Library.List_Lexorder"
begin

text \<open>
  Shared vocabulary of the development: Rust's fixed-width integers and their checked and
  saturating operations, results as sums (\<open>Inl\<close> the error, \<open>Inr\<close> the value), and the generic
  facts on words, lists and options that the component theories share. Nothing here models a
  particular component.
\<close>

named_theorems arith_defs "definitions of the checked and saturating machine operations"

type_synonym u8 = "8 word"
type_synonym u16 = "16 word"
type_synonym u32 = "32 word"
type_synonym u64 = "64 word"

text \<open>
  \<open>usize\<close> values are lengths and counts. They are kept as natural numbers, with the 64-bit
  ceiling written out wherever the code checks for overflow or saturates.
\<close>

type_synonym usize = nat

definition usize_max :: usize where
  "usize_max = 18446744073709551615"

definition u64_max :: u64 where
  "u64_max = 18446744073709551615"

subsection \<open>Checked and saturating arithmetic\<close>

definition checked_add_u64 :: "u64 \<Rightarrow> u64 \<Rightarrow> u64 option" where
  [arith_defs]: "checked_add_u64 a b = (if unat a + unat b < 2 ^ 64 then Some (a + b) else None)"

definition checked_sub_u64 :: "u64 \<Rightarrow> u64 \<Rightarrow> u64 option" where
  [arith_defs]: "checked_sub_u64 a b = (if b \<le> a then Some (a - b) else None)"

definition saturating_add_u64 :: "u64 \<Rightarrow> u64 \<Rightarrow> u64" where
  [arith_defs]: "saturating_add_u64 a b = (if unat a + unat b < 2 ^ 64 then a + b else u64_max)"

definition saturating_sub_u64 :: "u64 \<Rightarrow> u64 \<Rightarrow> u64" where
  [arith_defs]: "saturating_sub_u64 a b = (if b \<le> a then a - b else 0)"

definition checked_add_usize :: "usize \<Rightarrow> usize \<Rightarrow> usize option" where
  [arith_defs]: "checked_add_usize a b = (if a + b \<le> usize_max then Some (a + b) else None)"

definition checked_sub_usize :: "usize \<Rightarrow> usize \<Rightarrow> usize option" where
  [arith_defs]: "checked_sub_usize a b = (if b \<le> a then Some (a - b) else None)"

definition saturating_add_usize :: "usize \<Rightarrow> usize \<Rightarrow> usize" where
  [arith_defs]: "saturating_add_usize a b = min usize_max (a + b)"

definition saturating_sub_usize :: "usize \<Rightarrow> usize \<Rightarrow> usize" where
  [arith_defs]: "saturating_sub_usize a b = a - b"

lemma unat_u64_less: "unat (a :: u64) < 18446744073709551616"
proof -
  have "unat a < 2 ^ LENGTH(64)" by (rule unsigned_less)
  then show ?thesis by simp
qed

lemma unat_u64_max [simp]: "unat u64_max = 18446744073709551615"
  by (simp add: u64_max_def)

lemma u64_le_max [simp]: "a \<le> u64_max"
proof -
  have "unat a < 2 ^ 64" using unsigned_less [of a] by simp
  then show ?thesis by (simp add: word_le_nat_alt)
qed

lemma unat_add_u64:
  "unat (a :: u64) + unat b < 2 ^ 64 \<Longrightarrow> unat (a + b) = unat a + unat b"
  by (simp add: unat_word_ariths)

lemma checked_add_u64_unat:
  "checked_add_u64 a b = Some c \<Longrightarrow> unat c = unat a + unat b"
  by (auto simp: checked_add_u64_def unat_add_u64 split: if_splits)

lemma checked_add_u64_eq_Some:
  "checked_add_u64 a b = Some c \<longleftrightarrow> unat c = unat a + unat b"
proof
  assume "unat c = unat a + unat b"
  moreover have "unat c < 2 ^ 64" using unsigned_less [of c] by simp
  ultimately show "checked_add_u64 a b = Some c"
    by (simp add: checked_add_u64_def unat_add_u64 word_unat_eq_iff)
qed (rule checked_add_u64_unat)

lemma checked_add_u64_less:
  "checked_add_u64 a b = Some c \<Longrightarrow> b \<noteq> 0 \<Longrightarrow> a < c"
  by (auto dest!: checked_add_u64_unat simp: word_less_nat_alt unat_eq_0 [symmetric])

lemma checked_add_u64_None_iff:
  "checked_add_u64 a 1 = None \<longleftrightarrow> a = u64_max"
proof -
  have b: "unat a < 2 ^ 64" using unsigned_less [of a] by simp
  show ?thesis
    using b by (auto simp: checked_add_u64_def word_unat_eq_iff)
qed

lemma checked_add_u64_1:
  "checked_add_u64 a 1 = Some c \<Longrightarrow> unat c = Suc (unat a)"
  by (auto dest: checked_add_u64_unat)

lemma unat_saturating_add_u64:
  "unat (saturating_add_u64 a b) = min 18446744073709551615 (unat a + unat b)"
  by (auto simp: saturating_add_u64_def unat_add_u64)

lemma saturating_add_u64_ge1 [simp]: "a \<le> saturating_add_u64 a b"
proof -
  have "unat a < 2 ^ 64" using unsigned_less [of a] by simp
  then show ?thesis by (simp add: word_le_nat_alt unat_saturating_add_u64)
qed

lemma unat_saturating_sub_u64: "unat (saturating_sub_u64 a b) = unat a - unat b"
  by (auto simp: saturating_sub_u64_def word_le_nat_alt unat_sub)

lemma checked_sub_u64_unat:
  "checked_sub_u64 a b = Some c \<longleftrightarrow> b \<le> a \<and> unat c = unat a - unat b"
  by (auto simp: checked_sub_u64_def unat_sub word_unat_eq_iff split: if_splits)

subsection \<open>Results\<close>

text \<open>\<open>and_then\<close> is the \<open>?\<close> operator: it stops at the first error.\<close>

fun and_then :: "'e + 'a \<Rightarrow> ('a \<Rightarrow> 'e + 'b) \<Rightarrow> 'e + 'b" where
  "and_then (Inl e) f = Inl e"
| "and_then (Inr x) f = f x"

fun map_err :: "('e \<Rightarrow> 'f) \<Rightarrow> 'e + 'a \<Rightarrow> 'f + 'a" where
  "map_err f (Inl e) = Inl (f e)"
| "map_err f (Inr x) = Inr x"

fun ok_or :: "'e \<Rightarrow> 'a option \<Rightarrow> 'e + 'a" where
  "ok_or e None = Inl e"
| "ok_or e (Some x) = Inr x"

fun is_ok :: "'e + 'a \<Rightarrow> bool" where
  "is_ok (Inl e) = False"
| "is_ok (Inr x) = True"

lemma and_then_eq_Inr [simp]: "and_then m f = Inr y \<longleftrightarrow> (\<exists>x. m = Inr x \<and> f x = Inr y)"
  by (cases m) auto

lemma and_then_eq_Inl: "and_then m f = Inl e \<longleftrightarrow> m = Inl e \<or> (\<exists>x. m = Inr x \<and> f x = Inl e)"
  by (cases m) auto

lemma map_err_eq_Inr [simp]: "map_err f m = Inr y \<longleftrightarrow> m = Inr y"
  by (cases m) auto

lemma map_err_eq_Inl: "map_err f m = Inl e \<longleftrightarrow> (\<exists>e'. m = Inl e' \<and> e = f e')"
  by (cases m) auto

lemma ok_or_eq_Inr [simp]: "ok_or e m = Inr y \<longleftrightarrow> m = Some y"
  by (cases m) auto

lemma ok_or_eq_Inl: "ok_or e m = Inl e' \<longleftrightarrow> m = None \<and> e' = e"
  by (cases m) auto

lemma is_ok_iff: "is_ok m \<longleftrightarrow> (\<exists>x. m = Inr x)"
  by (cases m) auto

text \<open>Rust's \<open>collect::<Result<Vec<_>, _>>()\<close>: the first error in list order wins.\<close>

fun collect_ok :: "('a \<Rightarrow> 'e + 'b) \<Rightarrow> 'a list \<Rightarrow> 'e + 'b list" where
  "collect_ok f [] = Inr []"
| "collect_ok f (x # xs) =
     and_then (f x) (\<lambda>y. and_then (collect_ok f xs) (\<lambda>ys. Inr (y # ys)))"

lemma collect_ok_map:
  "(\<And>x. x \<in> set xs \<Longrightarrow> f (g x) = Inr x) \<Longrightarrow> collect_ok f (map g xs) = Inr xs"
  by (induction xs) auto

lemma collect_ok_list_all2:
  "collect_ok f xs = Inr ys \<Longrightarrow> list_all2 (\<lambda>x y. f x = Inr y) xs ys"
  by (induction xs arbitrary: ys) auto

lemma collect_ok_length: "collect_ok f xs = Inr ys \<Longrightarrow> length ys = length xs"
  by (drule collect_ok_list_all2) (simp add: list_all2_lengthD)

subsection \<open>Lists\<close>

lemma sum_list_append_le: "(xs :: nat list) = ys @ zs \<Longrightarrow> sum_list ys \<le> sum_list xs"
  by simp

lemma find_Some_split:
  "find P xs = Some x \<Longrightarrow> P x \<and> x \<in> set xs"
  by (induction xs) (auto split: if_splits)

lemma sorted_wrt_snoc:
  "sorted_wrt P (xs @ [x]) \<longleftrightarrow> sorted_wrt P xs \<and> (\<forall>y \<in> set xs. P y x)"
  by (simp add: sorted_wrt_append)

lemma sorted_wrt_drop: "sorted_wrt P xs \<Longrightarrow> sorted_wrt P (drop n xs)"
  by (metis append_take_drop_id sorted_wrt_append)

end
