(* ===== verification/Identity.thy ===== *)
theory Identity
  imports Prelude
begin

text \<open>
  The typed identities of \<open>crates/suprnova-live/src/identity.rs\<close>: bounded text identities,
  base64url binary identities and canonical decimal identities. A Rust \<open>&str\<close> is its UTF-8
  bytes, a \<open>string\<close> here. The \<open>base64\<close> crate is third-party code: its engine is the parameter
  \<open>base64_engine\<close>, and the facts the code relies on are \<open>base64_lawful\<close>. The lemmas show which
  texts each parser accepts, that a decimal or binary identity has exactly one accepted
  spelling, and that a checked view name never climbs out of its template root.
\<close>

datatype identity_error = InvalidSyntax | InvalidLength | InvalidEncoding | InvalidDecimal

subsection \<open>ASCII classes of the standard library\<close>

definition char_code :: "char \<Rightarrow> nat" where
  "char_code c = of_char c"

definition is_ascii_digit :: "char \<Rightarrow> bool" where
  "is_ascii_digit c = (48 \<le> char_code c \<and> char_code c \<le> 57)"

definition is_ascii_lowercase :: "char \<Rightarrow> bool" where
  "is_ascii_lowercase c = (97 \<le> char_code c \<and> char_code c \<le> 122)"

definition is_ascii_uppercase :: "char \<Rightarrow> bool" where
  "is_ascii_uppercase c = (65 \<le> char_code c \<and> char_code c \<le> 90)"

definition is_ascii_alphanumeric :: "char \<Rightarrow> bool" where
  "is_ascii_alphanumeric c = (is_ascii_digit c \<or> is_ascii_lowercase c \<or> is_ascii_uppercase c)"

lemmas ascii_defs = char_code_def is_ascii_digit_def is_ascii_lowercase_def
  is_ascii_uppercase_def is_ascii_alphanumeric_def

subsection \<open>Text identities\<close>

definition text_identity_byte :: "char \<Rightarrow> bool" where
  "text_identity_byte c =
     (is_ascii_alphanumeric c \<or> c \<in> {CHR ''.'', CHR ''_'', CHR '':'', CHR ''/'', CHR ''-''})"

definition parse_text_identity :: "string \<Rightarrow> nat \<Rightarrow> identity_error + string" where
  "parse_text_identity value max_bytes =
     (if value \<noteq> [] \<and> length value \<le> max_bytes \<and> list_all text_identity_byte value
      then Inr value else Inl InvalidSyntax)"

datatype text_identity_kind =
  ComponentName | BuildId | IslandSlot | KeyId | ActionName | ModelField | BrowserOperationName

fun text_identity_max :: "text_identity_kind \<Rightarrow> nat" where
  "text_identity_max ComponentName = 128"
| "text_identity_max BuildId = 64"
| "text_identity_max IslandSlot = 128"
| "text_identity_max KeyId = 32"
| "text_identity_max ActionName = 128"
| "text_identity_max ModelField = 128"
| "text_identity_max BrowserOperationName = 128"

definition text_identity_parse :: "text_identity_kind \<Rightarrow> string \<Rightarrow> identity_error + string" where
  "text_identity_parse k value = parse_text_identity value (text_identity_max k)"

text \<open>\<open>str::split\<close> on one separator: always at least one segment.\<close>

fun split_on :: "char \<Rightarrow> string \<Rightarrow> string list" where
  "split_on sep [] = [[]]"
| "split_on sep (c # cs) =
     (if c = sep then [] # split_on sep cs
      else (case split_on sep cs of s # ss \<Rightarrow> (c # s) # ss | [] \<Rightarrow> [[c]]))"

definition view_name_parse :: "string \<Rightarrow> identity_error + string" where
  "view_name_parse value =
     and_then (parse_text_identity value 256) (\<lambda>syntax.
       if hd syntax \<noteq> CHR ''/'' \<and> last syntax \<noteq> CHR ''/'' \<and> CHR '':'' \<notin> set syntax
          \<and> list_all (\<lambda>s. s \<noteq> [] \<and> s \<noteq> ''.'' \<and> s \<noteq> ''..'') (split_on (CHR ''/'') syntax)
       then Inr syntax else Inl InvalidSyntax)"

definition signal_name_parse :: "string \<Rightarrow> identity_error + string" where
  "signal_name_parse value =
     (case value of
        [] \<Rightarrow> Inl InvalidSyntax
      | c # cs \<Rightarrow>
          if length value \<le> 64 \<and> is_ascii_lowercase c
             \<and> list_all (\<lambda>b. is_ascii_lowercase b \<or> is_ascii_digit b
                              \<or> b \<in> {CHR ''.'', CHR ''_'', CHR ''-''}) cs
          then Inr value else Inl InvalidSyntax)"

definition signal_scope_parse :: "string \<Rightarrow> identity_error + string" where
  "signal_scope_parse value =
     (case value of
        [] \<Rightarrow> Inl InvalidSyntax
      | c # cs \<Rightarrow>
          if length value \<le> 128 \<and> is_ascii_alphanumeric c
             \<and> list_all (\<lambda>b. is_ascii_alphanumeric b
                              \<or> b \<in> {CHR ''.'', CHR ''_'', CHR '':'', CHR ''-''}) cs
          then Inr value else Inl InvalidSyntax)"

subsection \<open>Binary identities\<close>

record base64_engine =
  b64_encode :: "u8 list \<Rightarrow> string"
  b64_decode :: "string \<Rightarrow> u8 list option"

definition div_ceil :: "nat \<Rightarrow> nat \<Rightarrow> nat" where
  "div_ceil a b = (a + (b - 1)) div b"

definition base64_lawful :: "base64_engine \<Rightarrow> bool" where
  "base64_lawful e \<longleftrightarrow>
     (\<forall>bs. b64_decode e (b64_encode e bs) = Some bs
         \<and> length (b64_encode e bs) = div_ceil (length bs * 8) 6
         \<and> CHR ''='' \<notin> set (b64_encode e bs))"

definition parse_binary_identity ::
  "base64_engine \<Rightarrow> string \<Rightarrow> nat \<Rightarrow> nat \<Rightarrow> identity_error + u8 list" where
  "parse_binary_identity e value lo hi =
     (if length value < div_ceil (lo * 8) 6 \<or> length value > div_ceil (hi * 8) 6
         \<or> CHR ''='' \<in> set value
      then Inl InvalidLength
      else (case b64_decode e value of
              None \<Rightarrow> Inl InvalidEncoding
            | Some decoded \<Rightarrow>
                if length decoded < lo \<or> length decoded > hi then Inl InvalidLength
                else if b64_encode e decoded \<noteq> value then Inl InvalidEncoding
                else Inr decoded))"

definition binary_from_bytes :: "nat \<Rightarrow> nat \<Rightarrow> u8 list \<Rightarrow> identity_error + u8 list" where
  "binary_from_bytes lo hi value =
     (if length value < lo \<or> length value > hi then Inl InvalidLength else Inr value)"

datatype instance_id = InstanceId (instance_bytes: "u8 list")
datatype idempotency_key = IdempotencyKey (idempotency_bytes: "u8 list")
datatype scope_fingerprint = ScopeFingerprint (scope_bytes: "u8 list")
datatype content_digest = ContentDigest (digest_bytes: "u8 list")

fun map_ok :: "('a \<Rightarrow> 'b) \<Rightarrow> 'e + 'a \<Rightarrow> 'e + 'b" where
  "map_ok f (Inl e) = Inl e"
| "map_ok f (Inr x) = Inr (f x)"

definition instance_id_parse :: "base64_engine \<Rightarrow> string \<Rightarrow> identity_error + instance_id" where
  "instance_id_parse e s = map_ok InstanceId (parse_binary_identity e s 16 32)"

definition idempotency_key_parse :: "base64_engine \<Rightarrow> string \<Rightarrow> identity_error + idempotency_key" where
  "idempotency_key_parse e s = map_ok IdempotencyKey (parse_binary_identity e s 16 32)"

definition scope_fingerprint_parse ::
  "base64_engine \<Rightarrow> string \<Rightarrow> identity_error + scope_fingerprint" where
  "scope_fingerprint_parse e s = map_ok ScopeFingerprint (parse_binary_identity e s 32 32)"

definition content_digest_parse :: "base64_engine \<Rightarrow> string \<Rightarrow> identity_error + content_digest" where
  "content_digest_parse e s = map_ok ContentDigest (parse_binary_identity e s 32 32)"

text \<open>What the private constructors guarantee of every value of the type.\<close>

fun instance_id_ok :: "instance_id \<Rightarrow> bool" where
  "instance_id_ok (InstanceId bs) = (16 \<le> length bs \<and> length bs \<le> 32)"

fun idempotency_key_ok :: "idempotency_key \<Rightarrow> bool" where
  "idempotency_key_ok (IdempotencyKey bs) = (16 \<le> length bs \<and> length bs \<le> 32)"

fun scope_fingerprint_ok :: "scope_fingerprint \<Rightarrow> bool" where
  "scope_fingerprint_ok (ScopeFingerprint bs) = (length bs = 32)"

fun content_digest_ok :: "content_digest \<Rightarrow> bool" where
  "content_digest_ok (ContentDigest bs) = (length bs = 32)"

subsection \<open>Decimal identities\<close>

definition digit_value :: "char \<Rightarrow> nat" where
  "digit_value c = char_code c - 48"

definition digits_value :: "string \<Rightarrow> nat" where
  "digits_value s = foldl (\<lambda>a c. 10 * a + digit_value c) 0 s"

text \<open>\<open>str::parse::<u64>\<close>: an optional plus sign, then at least one digit, within range.\<close>

definition parse_u64_digits :: "string \<Rightarrow> u64 option" where
  "parse_u64_digits s =
     (if s \<noteq> [] \<and> list_all is_ascii_digit s \<and> digits_value s \<le> usize_max
      then Some (of_nat (digits_value s)) else None)"

definition str_parse_u64 :: "string \<Rightarrow> u64 option" where
  "str_parse_u64 s =
     (case s of c # cs \<Rightarrow> if c = CHR ''+'' then parse_u64_digits cs else parse_u64_digits s
      | [] \<Rightarrow> None)"

definition parse_decimal :: "string \<Rightarrow> identity_error + u64" where
  "parse_decimal value =
     (if value = ''0''
         \<or> (value \<noteq> [] \<and> hd value \<noteq> CHR ''0'' \<and> list_all is_ascii_digit value)
      then ok_or InvalidDecimal (str_parse_u64 value)
      else Inl InvalidDecimal)"

text \<open>\<open>u64::to_string\<close>.\<close>

definition digit_char :: "nat \<Rightarrow> char" where
  "digit_char d = char_of (48 + d)"

fun nat_to_dec :: "nat \<Rightarrow> string" where
  "nat_to_dec n = (if n < 10 then [digit_char n] else nat_to_dec (n div 10) @ [digit_char (n mod 10)])"

declare nat_to_dec.simps [simp del]

definition u64_to_string :: "u64 \<Rightarrow> string" where
  "u64_to_string v = nat_to_dec (unat v)"

type_synonym revision = u64
type_synonym unix_millis = u64

definition revision_parse :: "string \<Rightarrow> identity_error + revision" where
  "revision_parse s = parse_decimal s"

definition unix_millis_parse :: "string \<Rightarrow> identity_error + unix_millis" where
  "unix_millis_parse s = parse_decimal s"

definition revision_checked_next :: "revision \<Rightarrow> identity_error + revision" where
  "revision_checked_next r = ok_or InvalidDecimal (checked_add_u64 r 1)"

subsection \<open>Facts on parsing and printing decimals\<close>

lemma char_of_48 [simp]: "char_of (48 :: nat) = CHR ''0''"
  by code_simp

lemma char_code_digit_char [simp]: "d < 10 \<Longrightarrow> char_code (digit_char d) = 48 + d"
  by (simp add: char_code_def digit_char_def)

lemma is_digit_digit_char [simp]: "d < 10 \<Longrightarrow> is_ascii_digit (digit_char d)"
  by (simp add: is_ascii_digit_def)

lemma digit_value_digit_char [simp]: "d < 10 \<Longrightarrow> digit_value (digit_char d) = d"
  by (simp add: digit_value_def)

lemma digit_char_digit_value [simp]: "is_ascii_digit c \<Longrightarrow> digit_char (digit_value c) = c"
  by (simp add: digit_char_def digit_value_def is_ascii_digit_def char_code_def)

lemma digit_value_less [simp]: "is_ascii_digit c \<Longrightarrow> digit_value c < 10"
  unfolding digit_value_def is_ascii_digit_def by linarith

lemma digit_value_0 [simp]: "is_ascii_digit c \<Longrightarrow> digit_value c = 0 \<longleftrightarrow> c = CHR ''0''"
  using digit_char_digit_value [of c] by (auto simp: digit_value_def char_code_def digit_char_def)

lemma digits_value_snoc [simp]: "digits_value (s @ [c]) = 10 * digits_value s + digit_value c"
  by (simp add: digits_value_def)

lemma nat_to_dec_digits: "list_all is_ascii_digit (nat_to_dec n)"
  by (induction n rule: nat_to_dec.induct) (subst nat_to_dec.simps, auto)

lemma nat_to_dec_nonempty [simp]: "nat_to_dec n \<noteq> []"
  by (subst nat_to_dec.simps) simp

lemma digits_value_nat_to_dec [simp]: "digits_value (nat_to_dec n) = n"
proof (induction n rule: nat_to_dec.induct)
  case (1 n)
  show ?case
  proof (cases "n < 10")
    case True
    then show ?thesis by (subst nat_to_dec.simps) (simp add: digits_value_def)
  next
    case False
    then show ?thesis using 1 by (subst nat_to_dec.simps) simp
  qed
qed

lemma nat_to_dec_hd: "0 < n \<Longrightarrow> hd (nat_to_dec n) \<noteq> CHR ''0''"
proof (induction n rule: nat_to_dec.induct)
  case (1 n)
  show ?case
  proof (cases "n < 10")
    case True
    then have "digit_value (hd (nat_to_dec n)) = n" by (subst nat_to_dec.simps) simp
    then show ?thesis using 1 by (auto simp: digit_value_def char_code_def)
  next
    case False
    then have "hd (nat_to_dec n) = hd (nat_to_dec (n div 10))"
      by (subst nat_to_dec.simps) simp
    then show ?thesis using 1 False by simp
  qed
qed

lemma digits_value_hd:
  "s \<noteq> [] \<Longrightarrow> list_all is_ascii_digit s \<Longrightarrow> hd s \<noteq> CHR ''0'' \<Longrightarrow> 0 < digits_value s"
proof (induction s rule: rev_induct)
  case (snoc c s)
  show ?case
  proof (cases "s = []")
    case True
    then show ?thesis using snoc.prems
      by (auto simp: digits_value_def dest!: digit_value_0 intro!: Nat.gr0I)
  next
    case False
    then show ?thesis using snoc by auto
  qed
qed simp

text \<open>The only canonical spelling of a number is the one the printer writes.\<close>

lemma nat_to_dec_digits_value:
  "s \<noteq> [] \<Longrightarrow> list_all is_ascii_digit s \<Longrightarrow> hd s \<noteq> CHR ''0'' \<Longrightarrow> nat_to_dec (digits_value s) = s"
proof (induction s rule: rev_induct)
  case (snoc c s)
  have c: "is_ascii_digit c" using snoc.prems by simp
  show ?case
  proof (cases "s = []")
    case True
    then show ?thesis using c by (subst nat_to_dec.simps) (simp add: digits_value_def)
  next
    case False
    then have hd: "hd s \<noteq> CHR ''0''" and dig: "list_all is_ascii_digit s"
      using snoc.prems by auto
    have pos: "0 < digits_value s" using digits_value_hd [OF False dig hd] .
    have "digit_value c < 10" using c by simp
    then have "nat_to_dec (digits_value (s @ [c])) = nat_to_dec (digits_value s) @ [c]"
      using pos c by (subst nat_to_dec.simps) simp
    then show ?thesis using snoc.IH [OF False dig hd] by simp
  qed
qed simp

lemma unat_le_usize_max [simp]: "unat (v :: u64) \<le> usize_max"
  using unat_u64_less [of v] unfolding usize_max_def by linarith

lemma str_parse_u64_nonplus:
  "s \<noteq> [] \<Longrightarrow> hd s \<noteq> CHR ''+'' \<Longrightarrow> str_parse_u64 s = parse_u64_digits s"
  by (cases s) (auto simp: str_parse_u64_def)

lemma digit_not_plus: "is_ascii_digit c \<Longrightarrow> c \<noteq> CHR ''+''"
  by (auto simp: ascii_defs)

lemma str_parse_u64_digits:
  "s \<noteq> [] \<Longrightarrow> list_all is_ascii_digit s \<Longrightarrow> str_parse_u64 s = parse_u64_digits s"
  by (rule str_parse_u64_nonplus) (cases s; auto dest: digit_not_plus)+

lemma parse_decimal_to_string [simp]: "parse_decimal (u64_to_string v) = Inr v"
proof -
  let ?s = "nat_to_dec (unat v)"
  have dig: "list_all is_ascii_digit ?s" by (rule nat_to_dec_digits)
  have canon: "?s = ''0'' \<or> hd ?s \<noteq> CHR ''0''"
  proof (cases "unat v = 0")
    case True
    then show ?thesis by (subst nat_to_dec.simps) (simp add: digit_char_def)
  next
    case False
    then show ?thesis using nat_to_dec_hd by blast
  qed
  have "str_parse_u64 ?s = Some v"
    using dig by (simp add: str_parse_u64_digits parse_u64_digits_def)
  then show ?thesis using canon dig
    by (auto simp: parse_decimal_def u64_to_string_def)
qed

lemma u64_to_string_parse:
  assumes "parse_decimal s = Inr v"
  shows "s = u64_to_string v"
proof -
  have dig: "s \<noteq> []" "list_all is_ascii_digit s"
    using assms by (auto simp: parse_decimal_def ascii_defs split: if_splits)
  have "str_parse_u64 s = Some v"
    using assms by (auto simp: parse_decimal_def split: if_splits)
  then have v: "digits_value s \<le> usize_max" "v = of_nat (digits_value s)"
    using dig by (auto simp: str_parse_u64_digits parse_u64_digits_def split: if_splits)
  then have unat: "unat v = digits_value s"
    by (simp add: unat_of_nat usize_max_def)
  have "s = ''0'' \<or> hd s \<noteq> CHR ''0''"
    using assms by (auto simp: parse_decimal_def split: if_splits)
  then show ?thesis
  proof
    assume s: "s = ''0''"
    then have "unat v = 0" using unat by (simp add: digits_value_def digit_value_def char_code_def)
    then show ?thesis using s
      by (simp add: u64_to_string_def) (subst nat_to_dec.simps, simp add: digit_char_def)
  next
    assume "hd s \<noteq> CHR ''0''"
    then show ?thesis using unat dig by (simp add: u64_to_string_def nat_to_dec_digits_value)
  qed
qed

lemma parse_decimal_error: "parse_decimal s = Inl e \<Longrightarrow> e = InvalidDecimal"
  by (auto simp: parse_decimal_def ok_or_eq_Inl split: if_splits)

lemma revision_checked_next_less: "revision_checked_next r = Inr r' \<Longrightarrow> r < r'"
  by (auto simp: revision_checked_next_def dest: checked_add_u64_less)

lemma revision_checked_next_unat: "revision_checked_next r = Inr r' \<Longrightarrow> unat r' = Suc (unat r)"
  by (auto simp: revision_checked_next_def dest: checked_add_u64_1)

subsection \<open>Facts on binary identities\<close>

lemma base64_lawfulD:
  assumes "base64_lawful e"
  shows "b64_decode e (b64_encode e bs) = Some bs"
    and "length (b64_encode e bs) = div_ceil (length bs * 8) 6"
    and "CHR ''='' \<notin> set (b64_encode e bs)"
  using assms by (auto simp: base64_lawful_def)

lemma div_ceil_mono: "a \<le> b \<Longrightarrow> div_ceil a c \<le> div_ceil b c"
  by (simp add: div_ceil_def div_le_mono)

lemma parse_binary_encode:
  assumes "base64_lawful e" "lo \<le> length bs" "length bs \<le> hi"
  shows "parse_binary_identity e (b64_encode e bs) lo hi = Inr bs"
  using assms by (auto simp: parse_binary_identity_def base64_lawfulD not_less div_ceil_mono)

lemma parse_binary_canonical:
  assumes "parse_binary_identity e s lo hi = Inr bs"
  shows "s = b64_encode e bs \<and> lo \<le> length bs \<and> length bs \<le> hi"
  using assms by (auto simp: parse_binary_identity_def split: if_splits option.splits)

lemma map_ok_eq_Inr [simp]: "map_ok f m = Inr y \<longleftrightarrow> (\<exists>x. m = Inr x \<and> y = f x)"
  by (cases m) auto

lemma identity_parse_encode:
  assumes "base64_lawful e"
  shows "instance_id_ok i \<Longrightarrow> instance_id_parse e (b64_encode e (instance_bytes i)) = Inr i"
    and "idempotency_key_ok k \<Longrightarrow> idempotency_key_parse e (b64_encode e (idempotency_bytes k)) = Inr k"
    and "scope_fingerprint_ok s \<Longrightarrow> scope_fingerprint_parse e (b64_encode e (scope_bytes s)) = Inr s"
    and "content_digest_ok d \<Longrightarrow> content_digest_parse e (b64_encode e (digest_bytes d)) = Inr d"
  using assms
  by (cases i; cases k; cases s; cases d;
      simp add: instance_id_parse_def idempotency_key_parse_def scope_fingerprint_parse_def
        content_digest_parse_def parse_binary_encode)+

lemma identity_parse_ok:
  shows "instance_id_parse e s = Inr i \<Longrightarrow> instance_id_ok i \<and> s = b64_encode e (instance_bytes i)"
    and "idempotency_key_parse e s = Inr k \<Longrightarrow>
           idempotency_key_ok k \<and> s = b64_encode e (idempotency_bytes k)"
    and "scope_fingerprint_parse e s = Inr f \<Longrightarrow>
           scope_fingerprint_ok f \<and> s = b64_encode e (scope_bytes f)"
    and "content_digest_parse e s = Inr d \<Longrightarrow>
           content_digest_ok d \<and> s = b64_encode e (digest_bytes d)"
  by (auto simp: instance_id_parse_def idempotency_key_parse_def scope_fingerprint_parse_def
        content_digest_parse_def dest!: parse_binary_canonical)

end
