(* ===== verification/Ledger_Contract.thy ===== *)
theory Ledger_Contract
  imports Identity
begin

text \<open>
  The provider-neutral inputs, outcomes, errors and limits of the instance ledger:
  \<open>crates/suprnova-live/src/ledger/contract.rs\<close>. A \<open>LedgerError\<close> carries its kind and nothing
  else, so the model's error values are the kinds. A token's provider identity, a shared
  allocation compared by address in the code, is a number here.
\<close>

datatype ledger_error =
  InvalidConfiguration | InvalidExpiry | InstanceConflict | CapacityExceeded | ClockUnavailable
| CounterExhausted | ClaimMismatch | ClaimExpired | InstanceExpired | ProviderUnavailable

fun ledger_error_as_str :: "ledger_error \<Rightarrow> string" where
  "ledger_error_as_str InvalidConfiguration = ''invalid_ledger_configuration''"
| "ledger_error_as_str InvalidExpiry = ''invalid_instance_expiry''"
| "ledger_error_as_str InstanceConflict = ''instance_conflict''"
| "ledger_error_as_str CapacityExceeded = ''ledger_capacity_exceeded''"
| "ledger_error_as_str ClockUnavailable = ''clock_unavailable''"
| "ledger_error_as_str CounterExhausted = ''counter_exhausted''"
| "ledger_error_as_str ClaimMismatch = ''claim_mismatch''"
| "ledger_error_as_str ClaimExpired = ''claim_expired''"
| "ledger_error_as_str InstanceExpired = ''instance_expired''"
| "ledger_error_as_str ProviderUnavailable = ''provider_unavailable''"

subsection \<open>Limits\<close>

definition max_claim_lease_ms :: u64 where "max_claim_lease_ms = 300000"
definition max_instance_lifetime_ms :: u64 where "max_instance_lifetime_ms = 604800000"
definition max_accepted_outcomes :: usize where "max_accepted_outcomes = 64"
definition max_instances :: usize where "max_instances = 1000000"

record ledger_limits =
  ll_claim_lease_ms :: u64
  ll_max_instance_lifetime_ms :: u64
  ll_max_accepted_outcomes :: usize
  ll_max_instances :: usize

definition ledger_limits_valid :: "ledger_limits \<Rightarrow> bool" where
  "ledger_limits_valid l =
     (ll_claim_lease_ms l > 0 \<and> ll_claim_lease_ms l \<le> max_claim_lease_ms
      \<and> ll_max_instance_lifetime_ms l > 0
      \<and> ll_max_instance_lifetime_ms l \<le> max_instance_lifetime_ms
      \<and> ll_max_accepted_outcomes l > 0 \<and> ll_max_accepted_outcomes l \<le> max_accepted_outcomes
      \<and> ll_max_instances l > 0 \<and> ll_max_instances l \<le> max_instances)"

definition ledger_limits_new ::
  "u64 \<Rightarrow> u64 \<Rightarrow> usize \<Rightarrow> usize \<Rightarrow> ledger_error + ledger_limits" where
  "ledger_limits_new claim_lease lifetime outcomes instances =
     (let l = \<lparr>ll_claim_lease_ms = claim_lease, ll_max_instance_lifetime_ms = lifetime,
               ll_max_accepted_outcomes = outcomes, ll_max_instances = instances\<rparr>
      in if ledger_limits_valid l then Inr l else Inl InvalidConfiguration)"

lemma ledger_limits_new_valid:
  "ledger_limits_new a b c d = Inr l \<Longrightarrow> ledger_limits_valid l"
  by (auto simp: ledger_limits_new_def Let_def split: if_splits)

lemma ledger_limits_validD:
  "ledger_limits_valid l \<Longrightarrow> 0 < ll_max_accepted_outcomes l \<and> ll_max_accepted_outcomes l \<le> 64"
  by (simp add: ledger_limits_valid_def max_accepted_outcomes_def)

subsection \<open>Requests\<close>

record promotion_record =
  pr_scope :: scope_fingerprint
  pr_instance_id :: instance_id
  pr_idempotency_key :: idempotency_key
  pr_request_digest :: content_digest
  pr_initial_revision :: revision
  pr_expires_at :: unix_millis

record mount_instance_record =
  mi_scope :: scope_fingerprint
  mi_instance_id :: instance_id
  mi_component_contract :: content_digest
  mi_initial_revision :: revision
  mi_expires_at :: unix_millis

record claim_request =
  cr_scope :: scope_fingerprint
  cr_instance_id :: instance_id
  cr_base_revision :: revision
  cr_idempotency_key :: idempotency_key
  cr_request_digest :: content_digest

subsection \<open>Outcomes\<close>

record instance_authority =
  ia_instance_id :: instance_id
  ia_revision :: revision
  ia_expires_at :: unix_millis

datatype promotion_outcome =
  PromotionCreated instance_authority
| PromotionExisting instance_authority
| PromotionConflict

record claim_token =
  ct_provider :: nat
  ct_scope :: scope_fingerprint
  ct_instance_id :: instance_id
  ct_claim_id :: u64

record claim_grant =
  cg_token :: claim_token
  cg_successor_revision :: revision

datatype accepted_outcome_kind = Rendered | Validation | NoRender | Redirect | Recovery

record accepted_outcome =
  ao_kind :: accepted_outcome_kind
  ao_digest :: content_digest

record accepted_outcome_metadata =
  am_scope :: scope_fingerprint
  am_instance_id :: instance_id
  am_base_revision :: revision
  am_successor_revision :: revision
  am_idempotency_key :: idempotency_key
  am_request_digest :: content_digest
  am_outcome :: accepted_outcome

datatype refresh_reason =
  ReasonMissing | ReasonInstanceExpired | ReasonConsumed | ReasonClaimExpired
| ReasonRevisionExhausted

datatype claim_outcome =
  Granted claim_grant
| InProgress revision
| Accepted accepted_outcome_metadata
| Stale revision
| IdempotencyConflict
| RefreshRequired refresh_reason

datatype ledger_phase = PhaseReady | PhasePending | PhaseConsumed

record ledger_inspection =
  li_current_revision :: revision
  li_accepted_outcome_count :: usize
  li_phase :: ledger_phase

end
