(* ===== verification/Ledger_State.thy ===== *)
theory Ledger_State
  imports Ledger_Contract
begin

text \<open>
  The instance-ledger state machine over one record:
  \<open>crates/suprnova-live/src/ledger/state.rs\<close>. Each operation takes the record a caller read, the
  instant it read it at and the limits, and returns the record to write back, if any, with what
  the caller observes. The second half states the record's invariant, that every transition
  keeps it, and what each operation does on each branch.
\<close>

record promotion_reservation =
  rs_request_digest :: content_digest
  rs_instance_id :: instance_id
  rs_initial_revision :: revision
  rs_expires_at :: unix_millis

record pending_claim =
  pc_claim_id :: u64
  pc_base_revision :: revision
  pc_successor_revision :: revision
  pc_idempotency_key :: idempotency_key
  pc_request_digest :: content_digest
  pc_lease_expires_at :: unix_millis

datatype instance_phase =
  Ready
| Pending pending_claim
| Consumed refresh_reason "u64 option"

fun public_phase :: "instance_phase \<Rightarrow> ledger_phase" where
  "public_phase Ready = PhaseReady"
| "public_phase (Pending p) = PhasePending"
| "public_phase (Consumed reason claim_id) = PhaseConsumed"

record instance_record =
  ir_component_contract :: "content_digest option"
  ir_current_revision :: revision
  ir_expires_at :: unix_millis
  ir_phase :: instance_phase
  ir_accepted :: "accepted_outcome_metadata list"

record 'a transition =
  tr_stored :: "instance_record option"
  tr_outcome :: 'a

definition tr_unchanged :: "'a \<Rightarrow> 'a transition" where
  "tr_unchanged outcome = \<lparr>tr_stored = None, tr_outcome = outcome\<rparr>"

definition tr_write :: "instance_record \<Rightarrow> 'a \<Rightarrow> 'a transition" where
  "tr_write r outcome = \<lparr>tr_stored = Some r, tr_outcome = outcome\<rparr>"

datatype claim_decision =
  DecisionGranted revision
| Classified claim_outcome

definition validate_expiry ::
  "unix_millis \<Rightarrow> unix_millis \<Rightarrow> ledger_limits \<Rightarrow> ledger_error + unit" where
  "validate_expiry now expires_at limits =
     (case checked_sub_u64 expires_at now of
        None \<Rightarrow> Inl InvalidExpiry
      | Some lifetime \<Rightarrow>
          if \<not> lifetime > 0 then Inl InvalidExpiry
          else if lifetime > ll_max_instance_lifetime_ms limits then Inl InvalidExpiry
          else Inr ())"

definition created_record ::
  "content_digest option \<Rightarrow> revision \<Rightarrow> unix_millis \<Rightarrow> instance_record" where
  "created_record component_contract initial_revision expires_at =
     \<lparr>ir_component_contract = component_contract, ir_current_revision = initial_revision,
      ir_expires_at = expires_at, ir_phase = Ready, ir_accepted = []\<rparr>"

definition lease_elapsed :: "instance_record \<Rightarrow> unix_millis \<Rightarrow> bool" where
  "lease_elapsed r now =
     (case ir_phase r of Pending p \<Rightarrow> pc_lease_expires_at p \<le> now | _ \<Rightarrow> False)"

definition claim_in_flight :: "instance_record \<Rightarrow> unix_millis \<Rightarrow> bool" where
  "claim_in_flight r now =
     (ir_expires_at r > now \<and>
      (case ir_phase r of Pending p \<Rightarrow> pc_lease_expires_at p > now | _ \<Rightarrow> False))"

text \<open>\<open>expire_pending\<close> returns whether it expired the claim, with the record.\<close>

definition expire_pending :: "instance_record \<Rightarrow> unix_millis \<Rightarrow> bool \<times> instance_record" where
  "expire_pending r now =
     (if \<not> lease_elapsed r now then (False, r)
      else let claim_id = (case ir_phase r of Pending p \<Rightarrow> Some (pc_claim_id p) | _ \<Rightarrow> None)
           in (True, r\<lparr>ir_phase := Consumed ReasonClaimExpired claim_id\<rparr>))"

definition projected_phase :: "instance_record \<Rightarrow> unix_millis \<Rightarrow> ledger_phase" where
  "projected_phase r now =
     (if lease_elapsed r now then PhaseConsumed else public_phase (ir_phase r))"

definition inspection :: "instance_record \<Rightarrow> unix_millis \<Rightarrow> ledger_inspection" where
  "inspection r now =
     \<lparr>li_current_revision = ir_current_revision r,
      li_accepted_outcome_count = length (ir_accepted r),
      li_phase = projected_phase r now\<rparr>"

definition accepted_revision :: "instance_record \<Rightarrow> unix_millis \<Rightarrow> revision option" where
  "accepted_revision r now =
     (if lease_elapsed r now then None
      else case ir_phase r of
             Ready \<Rightarrow> Some (ir_current_revision r)
           | Pending p \<Rightarrow> Some (pc_base_revision p)
           | Consumed _ _ \<Rightarrow> None)"

definition monotonic :: "pending_claim \<Rightarrow> ledger_error + unit" where
  "monotonic p =
     (if pc_successor_revision p \<le> pc_base_revision p then Inl InvalidConfiguration else Inr ())"

text \<open>The record a grant leaves behind: the successor is current, the claim pending.\<close>

definition granted_record ::
  "instance_record \<Rightarrow> claim_request \<Rightarrow> u64 \<Rightarrow> revision \<Rightarrow> unix_millis \<Rightarrow> instance_record" where
  "granted_record r request claim_id successor lease_expires_at =
     r\<lparr>ir_current_revision := successor,
       ir_phase := Pending
         \<lparr>pc_claim_id = claim_id,
          pc_base_revision = cr_base_revision request,
          pc_successor_revision = successor,
          pc_idempotency_key = cr_idempotency_key request,
          pc_request_digest = cr_request_digest request,
          pc_lease_expires_at = lease_expires_at\<rparr>\<rparr>"

text \<open>
  The tail of \<open>claim\<close> after the replay and pending checks: the base must be current, the
  successor and the lease must not overflow.
\<close>

definition claim_fresh ::
  "instance_record \<Rightarrow> claim_request \<Rightarrow> unix_millis \<Rightarrow> ledger_limits \<Rightarrow> u64 \<Rightarrow>
   ledger_error + claim_decision transition" where
  "claim_fresh r request now limits claim_id =
     (if ir_current_revision r \<noteq> cr_base_revision request
      then Inr (tr_unchanged (Classified (Stale (ir_current_revision r))))
      else case revision_checked_next (cr_base_revision request) of
        Inl _ \<Rightarrow>
          Inr (tr_write (r\<lparr>ir_phase := Consumed ReasonRevisionExhausted None\<rparr>)
                 (Classified (RefreshRequired ReasonRevisionExhausted)))
      | Inr successor \<Rightarrow>
          (case checked_add_u64 now (ll_claim_lease_ms limits) of
             None \<Rightarrow> Inl CounterExhausted
           | Some lease_expires_at \<Rightarrow>
               Inr (tr_write (granted_record r request claim_id successor lease_expires_at)
                 (DecisionGranted successor))))"

definition claim_pending ::
  "instance_record \<Rightarrow> pending_claim \<Rightarrow> claim_request \<Rightarrow>
   ledger_error + claim_decision transition" where
  "claim_pending r p request =
     (if pc_base_revision p = cr_base_revision request
      then if pc_idempotency_key p = cr_idempotency_key request
              \<and> pc_request_digest p = cr_request_digest request
           then and_then (monotonic p) (\<lambda>_.
                  Inr (tr_unchanged (Classified (InProgress (pc_successor_revision p)))))
           else Inr (tr_unchanged (Classified IdempotencyConflict))
      else Inr (tr_unchanged (Classified (Stale (ir_current_revision r)))))"

text \<open>
  A retained outcome answers only when the entry found first for the base revision also carries
  the request's idempotency key, as the code's \<open>find\<close> followed by the \<open>&&\<close> does.
\<close>

definition claim_replay ::
  "instance_record \<Rightarrow> claim_request \<Rightarrow> claim_outcome option" where
  "claim_replay r request =
     (case find (\<lambda>a. am_base_revision a = cr_base_revision request) (ir_accepted r) of
        Some accepted \<Rightarrow>
          if am_idempotency_key accepted = cr_idempotency_key request
          then Some (if am_request_digest accepted = cr_request_digest request
                     then Accepted accepted else IdempotencyConflict)
          else None
      | None \<Rightarrow> None)"

definition ledger_claim ::
  "instance_record \<Rightarrow> claim_request \<Rightarrow> unix_millis \<Rightarrow> ledger_limits \<Rightarrow> u64 \<Rightarrow>
   ledger_error + claim_decision transition" where
  "ledger_claim r0 request now limits claim_id =
     (let (expired, r) = expire_pending r0 now in
      if expired
      then Inr (tr_write r (Classified (RefreshRequired ReasonClaimExpired)))
      else case ir_phase r of
        Consumed reason _ \<Rightarrow> Inr (tr_unchanged (Classified (RefreshRequired reason)))
      | phase \<Rightarrow>
          (case claim_replay r request of
             Some outcome \<Rightarrow> Inr (tr_unchanged (Classified outcome))
           | None \<Rightarrow>
               (case phase of
                  Pending p \<Rightarrow> claim_pending r p request
                | _ \<Rightarrow> claim_fresh r request now limits claim_id)))"

datatype instance_record_key =
  InstanceRecordKey (ik_scope: scope_fingerprint) (ik_instance_id: instance_id)

text \<open>The loop that drops the oldest retained outcomes while more than the limit are held.\<close>

fun retain_newest :: "usize \<Rightarrow> 'a list \<Rightarrow> 'a list" where
  "retain_newest limit [] = []"
| "retain_newest limit (x # xs) =
     (if length (x # xs) > limit then retain_newest limit xs else x # xs)"

definition outcome_metadata ::
  "instance_record_key \<Rightarrow> pending_claim \<Rightarrow> accepted_outcome \<Rightarrow> accepted_outcome_metadata" where
  "outcome_metadata key p outcome =
     \<lparr>am_scope = ik_scope key, am_instance_id = ik_instance_id key,
      am_base_revision = pc_base_revision p, am_successor_revision = pc_successor_revision p,
      am_idempotency_key = pc_idempotency_key p, am_request_digest = pc_request_digest p,
      am_outcome = outcome\<rparr>"

definition expired_by :: "u64 \<Rightarrow> instance_phase \<Rightarrow> bool" where
  "expired_by claim_id phase = (phase = Consumed ReasonClaimExpired (Some claim_id))"

definition ledger_commit ::
  "instance_record \<Rightarrow> instance_record_key \<Rightarrow> u64 \<Rightarrow> accepted_outcome \<Rightarrow> unix_millis \<Rightarrow>
   ledger_limits \<Rightarrow> (ledger_error + unit) transition" where
  "ledger_commit r key claim_id outcome now limits =
     (let otherwise =
        (if expired_by claim_id (ir_phase r) then tr_unchanged (Inl ClaimExpired)
         else tr_unchanged (Inl ClaimMismatch)) in
      case ir_phase r of
        Pending p \<Rightarrow>
          if pc_claim_id p = claim_id
          then if pc_lease_expires_at p \<le> now
               then tr_write (r\<lparr>ir_phase := Consumed ReasonClaimExpired (Some claim_id)\<rparr>)
                      (Inl ClaimExpired)
               else (case monotonic p of
                       Inl e \<Rightarrow> tr_unchanged (Inl e)
                     | Inr _ \<Rightarrow>
                         tr_write
                           (r\<lparr>ir_phase := Ready,
                              ir_accepted := retain_newest (ll_max_accepted_outcomes limits)
                                (ir_accepted r @
                                 [outcome_metadata key p outcome])\<rparr>)
                           (Inr ()))
          else otherwise
      | _ \<Rightarrow> otherwise)"

definition ledger_release ::
  "instance_record \<Rightarrow> u64 \<Rightarrow> unix_millis \<Rightarrow> (ledger_error + unit) transition" where
  "ledger_release r claim_id now =
     (let otherwise =
        (if expired_by claim_id (ir_phase r) then tr_unchanged (Inl ClaimExpired)
         else tr_unchanged (Inl ClaimMismatch)) in
      case ir_phase r of
        Pending p \<Rightarrow>
          if pc_claim_id p = claim_id
          then if pc_lease_expires_at p \<le> now
               then tr_write (r\<lparr>ir_phase := Consumed ReasonClaimExpired (Some claim_id)\<rparr>)
                      (Inl ClaimExpired)
               else tr_write (r\<lparr>ir_current_revision := pc_base_revision p, ir_phase := Ready\<rparr>)
                      (Inr ())
          else otherwise
      | _ \<Rightarrow> otherwise)"

definition ledger_abandon ::
  "instance_record \<Rightarrow> u64 \<Rightarrow> unix_millis \<Rightarrow> (ledger_error + unit) transition" where
  "ledger_abandon r claim_id now =
     (let otherwise =
        (if expired_by claim_id (ir_phase r) then tr_unchanged (Inl ClaimExpired)
         else tr_unchanged (Inl ClaimMismatch)) in
      case ir_phase r of
        Pending p \<Rightarrow>
          if pc_claim_id p = claim_id
          then let elapsed = (pc_lease_expires_at p \<le> now) in
               tr_write
                 (r\<lparr>ir_phase := Consumed (if elapsed then ReasonClaimExpired else ReasonConsumed)
                                  (Some claim_id)\<rparr>)
                 (if elapsed then Inl ClaimExpired else Inr ())
          else otherwise
      | _ \<Rightarrow> otherwise)"

definition ledger_fence :: "instance_record \<Rightarrow> u64 \<Rightarrow> (ledger_error + unit) transition" where
  "ledger_fence r claim_id =
     (case ir_phase r of
        Pending p \<Rightarrow>
          if pc_claim_id p = claim_id
          then tr_write (r\<lparr>ir_phase := Consumed ReasonConsumed (Some claim_id)\<rparr>) (Inr ())
          else tr_unchanged (Inl ClaimMismatch)
      | Ready \<Rightarrow>
          if ir_accepted r \<noteq> []
             \<and> am_successor_revision (last (ir_accepted r)) = ir_current_revision r
          then tr_unchanged (Inr ()) else tr_unchanged (Inl ClaimMismatch)
      | Consumed _ held \<Rightarrow>
          if held = None \<or> held = Some claim_id
          then tr_unchanged (Inr ()) else tr_unchanged (Inl ClaimMismatch))"

end
