(* ===== verification/Ledger_Invariant.thy ===== *)
theory Ledger_Invariant
  imports Ledger_State
begin

text \<open>
  The invariant of one instance record and what each transition of \<open>Ledger_State\<close> does to it.
  \<open>record_inv\<close> says that retained outcomes are bounded, advance by exactly one revision each,
  are ordered, and end at or below the revision the phase rests on; a pending claim's successor
  is its base plus one and is the record's current revision.
\<close>

definition phase_floor :: "instance_record \<Rightarrow> revision" where
  "phase_floor r =
     (case ir_phase r of Pending p \<Rightarrow> pc_base_revision p | _ \<Rightarrow> ir_current_revision r)"

definition metadata_step :: "accepted_outcome_metadata \<Rightarrow> bool" where
  "metadata_step a = (unat (am_successor_revision a) = Suc (unat (am_base_revision a)))"

definition pending_ok :: "instance_record \<Rightarrow> bool" where
  "pending_ok r =
     (case ir_phase r of
        Pending p \<Rightarrow> unat (pc_successor_revision p) = Suc (unat (pc_base_revision p))
                     \<and> pc_successor_revision p = ir_current_revision r
      | _ \<Rightarrow> True)"

definition record_inv :: "ledger_limits \<Rightarrow> instance_record \<Rightarrow> bool" where
  "record_inv limits r =
     (length (ir_accepted r) \<le> ll_max_accepted_outcomes limits
      \<and> list_all metadata_step (ir_accepted r)
      \<and> sorted_wrt (\<lambda>a b. am_successor_revision a \<le> am_base_revision b) (ir_accepted r)
      \<and> list_all (\<lambda>a. am_successor_revision a \<le> phase_floor r) (ir_accepted r)
      \<and> pending_ok r)"

lemmas ledger_op_defs = ledger_claim_def claim_replay_def claim_pending_def claim_fresh_def
  ledger_commit_def ledger_release_def ledger_abandon_def ledger_fence_def expired_by_def
  expire_pending_def lease_elapsed_def tr_write_def tr_unchanged_def monotonic_def

lemmas ledger_splits = if_splits option.splits instance_phase.splits sum.splits prod.splits

lemma retain_newest_drop: "retain_newest n xs = drop (length xs - n) xs"
proof (induction xs)
  case (Cons x xs)
  then show ?case
    by (cases "length (x # xs) > n") (auto simp: Suc_diff_le)
qed simp

lemma retain_newest_length: "length (retain_newest n xs) = min n (length xs)"
  by (simp add: retain_newest_drop)

lemma retain_newest_set: "x \<in> set (retain_newest n xs) \<Longrightarrow> x \<in> set xs"
  by (auto simp: retain_newest_drop dest: in_set_dropD)

lemma retain_newest_last: "0 < n \<Longrightarrow> xs \<noteq> [] \<Longrightarrow> last (retain_newest n xs) = last xs"
  by (cases xs) (auto simp: retain_newest_drop last_drop)

lemma retain_newest_nonempty: "0 < n \<Longrightarrow> xs \<noteq> [] \<Longrightarrow> retain_newest n xs \<noteq> []"
  by (cases xs) (auto simp: retain_newest_drop)

lemma retain_newest_sorted_wrt: "sorted_wrt P xs \<Longrightarrow> sorted_wrt P (retain_newest n xs)"
  by (simp add: retain_newest_drop sorted_wrt_drop)

lemma retain_newest_list_all: "list_all P xs \<Longrightarrow> list_all P (retain_newest n xs)"
  by (auto simp: list_all_iff dest: retain_newest_set)

lemma record_inv_created: "record_inv limits (created_record c v e)"
  by (simp add: record_inv_def created_record_def pending_ok_def)

lemma expire_pending_inv:
  assumes "record_inv limits r" and "expire_pending r now = (b, r')"
  shows "record_inv limits r'"
proof (cases "ir_phase r")
  case (Pending p)
  then show ?thesis using assms
    by (fastforce simp: record_inv_def expire_pending_def lease_elapsed_def phase_floor_def
        pending_ok_def Let_def list_all_iff word_le_nat_alt split: if_splits)
qed (use assms in \<open>auto simp: expire_pending_def lease_elapsed_def\<close>)

lemma consumed_inv:
  assumes "record_inv limits r"
  shows "record_inv limits (r\<lparr>ir_phase := Consumed reason c\<rparr>)"
proof (cases "ir_phase r")
  case (Pending p)
  then show ?thesis using assms
    by (fastforce simp: record_inv_def phase_floor_def pending_ok_def list_all_iff word_le_nat_alt)
qed (use assms in \<open>auto simp: record_inv_def phase_floor_def pending_ok_def\<close>)

lemma claim_fresh_stored:
  assumes "claim_fresh r request now limits claim_id = Inr t" and "tr_stored t = Some r'"
  shows "r' = r\<lparr>ir_phase := Consumed ReasonRevisionExhausted None\<rparr>
    \<or> (\<exists>successor lease. unat successor = Suc (unat (ir_current_revision r))
         \<and> ir_current_revision r = cr_base_revision request
         \<and> r' = granted_record r request claim_id successor lease)"
proof (cases "ir_current_revision r = cr_base_revision request")
  case False
  then show ?thesis using assms by (auto simp: claim_fresh_def tr_unchanged_def)
next
  case True
  show ?thesis
  proof (cases "revision_checked_next (cr_base_revision request)")
    case (Inl e)
    then show ?thesis using assms True by (auto simp: claim_fresh_def tr_write_def)
  next
    case (Inr successor)
    have suc: "unat successor = Suc (unat (ir_current_revision r))"
      using revision_checked_next_unat [OF Inr] True by simp
    obtain lease where lease: "checked_add_u64 now (ll_claim_lease_ms limits) = Some lease"
      using assms True Inr
      by (cases "checked_add_u64 now (ll_claim_lease_ms limits)") (auto simp: claim_fresh_def)
    have "r' = granted_record r request claim_id successor lease"
      using assms True Inr lease by (auto simp: claim_fresh_def tr_write_def)
    then show ?thesis using True suc by blast
  qed
qed

lemma claim_fresh_inv:
  assumes inv: "record_inv limits r" and ready: "ir_phase r = Ready"
    and t: "claim_fresh r request now limits claim_id = Inr t" and w: "tr_stored t = Some r'"
  shows "record_inv limits r'"
  using claim_fresh_stored [OF t w]
proof
  assume "r' = r\<lparr>ir_phase := Consumed ReasonRevisionExhausted None\<rparr>"
  then show ?thesis using consumed_inv [OF inv] by simp
qed (use inv ready in \<open>auto simp: record_inv_def phase_floor_def pending_ok_def granted_record_def\<close>)

lemma ledger_claim_live:
  assumes live: "\<not> lease_elapsed r now"
    and t: "ledger_claim r request now limits claim_id = Inr t" and w: "tr_stored t = Some r'"
  shows "ir_phase r = Ready \<and> claim_fresh r request now limits claim_id = Inr t"
proof (cases "ir_phase r")
  case Ready
  then show ?thesis using live t w
    by (cases "claim_replay r request")
      (auto simp: ledger_claim_def expire_pending_def tr_unchanged_def)
next
  case (Pending p)
  then show ?thesis using live t w
    by (cases "claim_replay r request")
      (auto simp: ledger_claim_def expire_pending_def tr_unchanged_def claim_pending_def
        split: if_splits)
next
  case (Consumed reason c)
  then show ?thesis using live t w
    by (auto simp: ledger_claim_def expire_pending_def tr_unchanged_def)
qed

lemma ledger_claim_elapsed:
  assumes "lease_elapsed r now"
  shows "\<exists>p. ir_phase r = Pending p \<and> ledger_claim r request now limits claim_id =
    Inr (tr_write (r\<lparr>ir_phase := Consumed ReasonClaimExpired (Some (pc_claim_id p))\<rparr>)
      (Classified (RefreshRequired ReasonClaimExpired)))"
  using assms
  by (cases "ir_phase r") (auto simp: ledger_claim_def expire_pending_def lease_elapsed_def)

lemma ledger_claim_inv:
  assumes inv: "record_inv limits r" and t: "ledger_claim r request now limits claim_id = Inr t"
    and w: "tr_stored t = Some r'"
  shows "record_inv limits r'"
proof (cases "lease_elapsed r now")
  case True
  then show ?thesis
    using ledger_claim_elapsed [OF True, of request limits claim_id] t w consumed_inv [OF inv]
    by (auto simp: tr_write_def)
next
  case False
  then show ?thesis
    using claim_fresh_inv [OF inv] ledger_claim_live [OF False t w] w by blast
qed

lemma ledger_commit_inv:
  assumes inv: "record_inv limits r" and lim: "ledger_limits_valid limits"
    and w: "tr_stored (ledger_commit r key claim_id outcome now limits) = Some r'"
  shows "record_inv limits r'"
proof (cases "ir_phase r")
  case (Pending p)
  let ?n = "ll_max_accepted_outcomes limits"
  show ?thesis
  proof (cases "pc_lease_expires_at p \<le> now")
    case True
    then show ?thesis using Pending inv w
      by (auto simp: ledger_commit_def Let_def tr_write_def tr_unchanged_def expired_by_def
          intro: consumed_inv split: if_splits)
  next
    case False
    define m where "m = outcome_metadata key p outcome"
    have m: "am_base_revision m = pc_base_revision p"
        "am_successor_revision m = pc_successor_revision p"
      by (simp_all add: m_def outcome_metadata_def)
    have r': "r' = r\<lparr>ir_phase := Ready, ir_accepted := retain_newest ?n (ir_accepted r @ [m])\<rparr>"
      using Pending w False
      by (auto simp: ledger_commit_def Let_def tr_write_def tr_unchanged_def expired_by_def
          monotonic_def m_def split: if_splits)
    have "sorted_wrt (\<lambda>a b. am_successor_revision a \<le> am_base_revision b) (ir_accepted r @ [m])"
      using inv Pending m by (auto simp: record_inv_def phase_floor_def list_all_iff sorted_wrt_snoc)
    moreover have "list_all metadata_step (ir_accepted r @ [m])"
      using inv Pending m by (auto simp: record_inv_def pending_ok_def metadata_step_def)
    moreover have "list_all (\<lambda>a. am_successor_revision a \<le> ir_current_revision r) (ir_accepted r @ [m])"
      using inv Pending m
      by (fastforce simp: record_inv_def phase_floor_def pending_ok_def list_all_iff word_le_nat_alt)
    ultimately show ?thesis
      unfolding record_inv_def r'
      by (simp add: retain_newest_length retain_newest_sorted_wrt retain_newest_list_all
          phase_floor_def pending_ok_def)
  qed
qed (use w in \<open>auto simp: ledger_commit_def tr_unchanged_def Let_def split: if_splits\<close>)

lemma ledger_release_inv:
  assumes inv: "record_inv limits r" and w: "tr_stored (ledger_release r claim_id now) = Some r'"
  shows "record_inv limits r'"
proof (cases "ir_phase r")
  case (Pending p)
  then show ?thesis using assms consumed_inv [OF inv]
    by (auto simp: ledger_release_def Let_def tr_write_def tr_unchanged_def expired_by_def
        record_inv_def phase_floor_def pending_ok_def split: if_splits)
qed (use w in \<open>auto simp: ledger_release_def tr_unchanged_def Let_def split: if_splits\<close>)

lemma ledger_abandon_inv:
  assumes inv: "record_inv limits r" and w: "tr_stored (ledger_abandon r claim_id now) = Some r'"
  shows "record_inv limits r'"
  using w consumed_inv [OF inv]
  by (auto simp: ledger_abandon_def Let_def tr_write_def tr_unchanged_def split: ledger_splits)

lemma ledger_fence_inv:
  assumes inv: "record_inv limits r" and w: "tr_stored (ledger_fence r claim_id) = Some r'"
  shows "record_inv limits r'"
  using w consumed_inv [OF inv]
  by (auto simp: ledger_fence_def tr_write_def tr_unchanged_def split: ledger_splits)

lemmas ledger_inv_intros = ledger_claim_inv ledger_commit_inv ledger_release_inv
  ledger_abandon_inv ledger_fence_inv

subsection \<open>Shape of what each operation writes\<close>

lemma claim_fresh_granted:
  assumes t: "claim_fresh r request now limits claim_id = Inr t"
    and g: "tr_outcome t = DecisionGranted successor"
  shows "ir_current_revision r = cr_base_revision request
    \<and> unat successor = Suc (unat (cr_base_revision request))
    \<and> (\<exists>lease. checked_add_u64 now (ll_claim_lease_ms limits) = Some lease
        \<and> tr_stored t = Some (granted_record r request claim_id successor lease))"
proof -
  have cur: "ir_current_revision r = cr_base_revision request"
    using t g by (auto simp: claim_fresh_def tr_unchanged_def split: if_splits)
  obtain s where s: "revision_checked_next (cr_base_revision request) = Inr s"
    using t g cur
    by (cases "revision_checked_next (cr_base_revision request)")
      (auto simp: claim_fresh_def tr_write_def)
  obtain lease where lease: "checked_add_u64 now (ll_claim_lease_ms limits) = Some lease"
    using t g cur s
    by (cases "checked_add_u64 now (ll_claim_lease_ms limits)") (auto simp: claim_fresh_def)
  have "s = successor" using t g cur s lease by (auto simp: claim_fresh_def tr_write_def)
  then show ?thesis
    using t cur s lease revision_checked_next_unat [OF s] by (auto simp: claim_fresh_def tr_write_def)
qed

lemma ledger_claim_granted:
  assumes t: "ledger_claim r request now limits claim_id = Inr t"
    and g: "tr_outcome t = DecisionGranted successor"
  shows "ir_phase r = Ready \<and> claim_fresh r request now limits claim_id = Inr t"
proof (cases "lease_elapsed r now")
  case True
  then show ?thesis
    using ledger_claim_elapsed [OF True, of request limits claim_id] t g by (auto simp: tr_write_def)
next
  case live: False
  show ?thesis
  proof (cases "ir_phase r")
    case Ready
    then show ?thesis using live t g
      by (cases "claim_replay r request")
        (auto simp: ledger_claim_def expire_pending_def tr_unchanged_def)
  next
    case (Pending p)
    then show ?thesis using live t g
      by (cases "claim_replay r request")
        (auto simp: ledger_claim_def expire_pending_def tr_unchanged_def claim_pending_def
          split: if_splits)
  next
    case (Consumed reason c)
    then show ?thesis using live t g
      by (auto simp: ledger_claim_def expire_pending_def tr_unchanged_def)
  qed
qed

lemma ledger_claim_stored_cases:
  assumes t: "ledger_claim r request now limits claim_id = Inr t" and w: "tr_stored t = Some r'"
  shows "(\<exists>successor lease. ir_phase r = Ready
         \<and> unat successor = Suc (unat (ir_current_revision r))
         \<and> ir_current_revision r = cr_base_revision request
         \<and> r' = granted_record r request claim_id successor lease)
    \<or> (\<exists>c. r' = r\<lparr>ir_phase := Consumed ReasonClaimExpired c\<rparr> \<and> lease_elapsed r now)
    \<or> r' = r\<lparr>ir_phase := Consumed ReasonRevisionExhausted None\<rparr> \<and> ir_phase r = Ready"
proof (cases "lease_elapsed r now")
  case True
  then show ?thesis
    using ledger_claim_elapsed [OF True, of request limits claim_id] t w by (auto simp: tr_write_def)
next
  case False
  then show ?thesis
    using ledger_claim_live [OF False t w] claim_fresh_stored [of r request now limits claim_id t r'] w
    by blast
qed

lemma ledger_commit_ok:
  assumes "tr_outcome (ledger_commit r key claim_id outcome now limits) = Inr ()"
  shows "\<exists>p. ir_phase r = Pending p \<and> pc_claim_id p = claim_id \<and> now < pc_lease_expires_at p
    \<and> pc_base_revision p < pc_successor_revision p
    \<and> tr_stored (ledger_commit r key claim_id outcome now limits) =
        Some (r\<lparr>ir_phase := Ready, ir_accepted := retain_newest (ll_max_accepted_outcomes limits)
          (ir_accepted r @ [outcome_metadata key p outcome])\<rparr>)"
  using assms
  by (auto simp: ledger_commit_def tr_write_def tr_unchanged_def Let_def monotonic_def not_le
      split: ledger_splits)

lemma ledger_commit_error_stored:
  assumes "tr_outcome (ledger_commit r key claim_id outcome now limits) = Inl e"
    and "tr_stored (ledger_commit r key claim_id outcome now limits) = Some r'"
  shows "e = ClaimExpired \<and> r' = r\<lparr>ir_phase := Consumed ReasonClaimExpired (Some claim_id)\<rparr>"
  using assms
  by (auto simp: ledger_commit_def tr_write_def tr_unchanged_def Let_def split: ledger_splits)

lemma ledger_release_stored_cases:
  assumes "tr_stored (ledger_release r claim_id now) = Some r'"
  shows "r' = r\<lparr>ir_phase := Consumed ReasonClaimExpired (Some claim_id)\<rparr>
    \<or> (\<exists>p. ir_phase r = Pending p \<and> pc_claim_id p = claim_id
         \<and> r' = r\<lparr>ir_current_revision := pc_base_revision p, ir_phase := Ready\<rparr>)"
  using assms
  by (auto simp: ledger_release_def tr_write_def tr_unchanged_def Let_def split: ledger_splits)

lemma ledger_abandon_stored_cases:
  assumes "tr_stored (ledger_abandon r claim_id now) = Some r'"
  shows "\<exists>reason. r' = r\<lparr>ir_phase := Consumed reason (Some claim_id)\<rparr>"
  using assms
  by (auto simp: ledger_abandon_def tr_write_def tr_unchanged_def Let_def split: ledger_splits)

lemma ledger_fence_stored_cases:
  assumes "tr_stored (ledger_fence r claim_id) = Some r'"
  shows "\<exists>reason. r' = r\<lparr>ir_phase := Consumed reason (Some claim_id)\<rparr>"
  using assms
  by (auto simp: ledger_fence_def tr_write_def tr_unchanged_def Let_def split: ledger_splits)

lemma classified_not_granted:
  assumes "ledger_claim r request now limits claim_id = Inr t"
  shows "tr_outcome t \<noteq> Classified (Granted g)"
proof (cases "lease_elapsed r now")
  case True
  then show ?thesis
    using ledger_claim_elapsed [OF True, of request limits claim_id] assms by (auto simp: tr_write_def)
next
  case False
  have fresh: "claim_fresh r request now limits claim_id = Inr t \<Longrightarrow> ?thesis"
    by (auto simp: claim_fresh_def tr_write_def tr_unchanged_def
        split: if_splits sum.splits option.splits)
  have replay: "claim_replay r request \<noteq> Some (Granted g)"
    by (auto simp: claim_replay_def split: option.splits)
  show ?thesis
    using assms False fresh replay
    by (cases "ir_phase r"; cases "claim_replay r request")
      (auto simp: ledger_claim_def expire_pending_def tr_unchanged_def claim_pending_def
        split: if_splits)
qed

text \<open>A consumed record is terminal: no operation writes it again.\<close>

definition consumed :: "instance_record \<Rightarrow> bool" where
  "consumed r = (case ir_phase r of Consumed _ _ \<Rightarrow> True | _ \<Rightarrow> False)"

lemma consumed_terminal:
  assumes "consumed r"
  shows "ledger_claim r request now limits claim_id = Inr t \<Longrightarrow> tr_stored t = None"
    and "tr_stored (ledger_commit r key claim_id outcome now limits) = None"
    and "tr_stored (ledger_release r claim_id now) = None"
    and "tr_stored (ledger_abandon r claim_id now) = None"
    and "tr_stored (ledger_fence r claim_id) = None"
  using assms by (auto simp: consumed_def ledger_op_defs Let_def split: ledger_splits)

end
