(* ===== verification/Ledger_Life.thy ===== *)
theory Ledger_Life
  imports Ledger_Invariant
begin

text \<open>
  The life of one instance record under any interleaving of ledger operations. A step is one
  operation whose write landed at the version it was read at, which is all a compare-and-store
  lets through; the claim it grants is named by that version. The ghost fields record every
  grant and every commit of the record's life. The lemmas show that a base revision is committed
  at most once, that claim names never repeat, and that the record implements the three-state
  authority \<open>authority_step\<close>.
\<close>

record life =
  lf_record :: instance_record
  lf_version :: u64
  lf_granted :: "(u64 \<times> revision) list"
  lf_committed :: "(u64 \<times> revision) list"

text \<open>An operation on the record, with the instant and the limits it ran under.\<close>

datatype ledger_event =
  EvClaim claim_request unix_millis ledger_limits
| EvCommit instance_record_key u64 accepted_outcome unix_millis ledger_limits
| EvRelease u64 unix_millis
| EvAbandon u64 unix_millis
| EvFence u64

text \<open>What the operation writes, when it writes, and the ghost entries the write adds.\<close>

fun event_write :: "instance_record \<Rightarrow> u64 \<Rightarrow> ledger_event \<Rightarrow> instance_record option" where
  "event_write r v (EvClaim request now limits) =
     (case ledger_claim r request now limits v of Inl _ \<Rightarrow> None | Inr t \<Rightarrow> tr_stored t)"
| "event_write r v (EvCommit key claim_id outcome now limits) =
     tr_stored (ledger_commit r key claim_id outcome now limits)"
| "event_write r v (EvRelease claim_id now) = tr_stored (ledger_release r claim_id now)"
| "event_write r v (EvAbandon claim_id now) = tr_stored (ledger_abandon r claim_id now)"
| "event_write r v (EvFence claim_id) = tr_stored (ledger_fence r claim_id)"

fun event_grants :: "instance_record \<Rightarrow> u64 \<Rightarrow> ledger_event \<Rightarrow> (u64 \<times> revision) list" where
  "event_grants r v (EvClaim request now limits) =
     (case ledger_claim r request now limits v of
        Inr t \<Rightarrow> (case tr_outcome t of DecisionGranted _ \<Rightarrow> [(v, cr_base_revision request)] | _ \<Rightarrow> [])
      | Inl _ \<Rightarrow> [])"
| "event_grants r v _ = []"

fun event_commits :: "instance_record \<Rightarrow> ledger_event \<Rightarrow> (u64 \<times> revision) list" where
  "event_commits r (EvCommit key claim_id outcome now limits) =
     (if tr_outcome (ledger_commit r key claim_id outcome now limits) = Inr ()
      then (case ir_phase r of Pending p \<Rightarrow> [(claim_id, pc_base_revision p)] | _ \<Rightarrow> []) else [])"
| "event_commits r _ = []"

inductive life_step :: "life \<Rightarrow> ledger_event \<Rightarrow> life \<Rightarrow> bool" where
  landed: "event_write (lf_record s) (lf_version s) ev = Some r' \<Longrightarrow>
    checked_add_u64 (lf_version s) 1 = Some v' \<Longrightarrow>
    life_step s ev \<lparr>lf_record = r', lf_version = v',
      lf_granted = lf_granted s @ event_grants (lf_record s) (lf_version s) ev,
      lf_committed = lf_committed s @ event_commits (lf_record s) ev\<rparr>"

inductive_cases life_stepE: "life_step s ev s'"

inductive life_reach :: "life \<Rightarrow> life \<Rightarrow> bool" for s0 where
  start: "life_reach s0 s0"
| step: "life_reach s0 s \<Longrightarrow> life_step s ev s' \<Longrightarrow> life_reach s0 s'"

text \<open>A record starts at the store's first version, just created.\<close>

definition life_start :: "content_digest option \<Rightarrow> revision \<Rightarrow> unix_millis \<Rightarrow> life" where
  "life_start contract initial_revision expires_at =
     \<lparr>lf_record = created_record contract initial_revision expires_at, lf_version = 1,
      lf_granted = [], lf_committed = []\<rparr>"

subsection \<open>What one write can do\<close>

datatype write_kind =
  WGrant revision u64 | WCommit revision u64 | WRelease revision | WConsume

definition write_as :: "instance_record \<Rightarrow> instance_record \<Rightarrow> write_kind \<Rightarrow> bool" where
  "write_as r r' k =
     (case k of
        WGrant base claim_id \<Rightarrow>
          ir_phase r = Ready \<and> ir_current_revision r = base
          \<and> (\<exists>p. ir_phase r' = Pending p \<and> pc_claim_id p = claim_id \<and> pc_base_revision p = base
               \<and> unat (ir_current_revision r') = Suc (unat base)
               \<and> pc_successor_revision p = ir_current_revision r')
      | WCommit base claim_id \<Rightarrow>
          ir_phase r' = Ready \<and> ir_current_revision r' = ir_current_revision r
          \<and> (\<exists>p. ir_phase r = Pending p \<and> pc_claim_id p = claim_id \<and> pc_base_revision p = base)
      | WRelease base \<Rightarrow>
          ir_phase r' = Ready \<and> ir_current_revision r' = base
          \<and> (\<exists>p. ir_phase r = Pending p \<and> pc_base_revision p = base)
      | WConsume \<Rightarrow> consumed r' \<and> ir_current_revision r' = ir_current_revision r)"

lemma consumed_update [simp]: "consumed (r\<lparr>ir_phase := Consumed reason c\<rparr>)"
  by (simp add: consumed_def)

lemma claim_write_as:
  assumes t: "ledger_claim r request now limits v = Inr t" and w: "tr_stored t = Some r'"
  shows "write_as r r' (WGrant (cr_base_revision request) v)
      \<and> (\<exists>s. tr_outcome t = DecisionGranted s)
    \<or> write_as r r' WConsume \<and> (\<exists>o'. tr_outcome t = Classified o')"
proof (cases "tr_outcome t")
  case (DecisionGranted s)
  note g = ledger_claim_granted [OF t DecisionGranted]
  then have f: "claim_fresh r request now limits v = Inr t" by blast
  show ?thesis
    using g claim_fresh_granted [OF f DecisionGranted] w DecisionGranted
    by (auto simp: write_as_def granted_record_def)
next
  case (Classified o')
  have "\<exists>reason c. r' = r\<lparr>ir_phase := Consumed reason c\<rparr>"
  proof (cases "lease_elapsed r now")
    case True
    obtain p where "ir_phase r = Pending p" and p: "ledger_claim r request now limits v =
        Inr (tr_write (r\<lparr>ir_phase := Consumed ReasonClaimExpired (Some (pc_claim_id p))\<rparr>)
          (Classified (RefreshRequired ReasonClaimExpired)))"
      using ledger_claim_elapsed [OF True, of request limits v] by blast
    have "r' = r\<lparr>ir_phase := Consumed ReasonClaimExpired (Some (pc_claim_id p))\<rparr>"
      using p t w by (simp add: tr_write_def)
    then show ?thesis by blast
  next
    case False
    then have "claim_fresh r request now limits v = Inr t" using ledger_claim_live [OF False t w] by blast
    then have "r' = r\<lparr>ir_phase := Consumed ReasonRevisionExhausted None\<rparr>"
      using Classified w
      by (auto simp: claim_fresh_def tr_write_def tr_unchanged_def
          split: if_splits sum.splits option.splits)
    then show ?thesis by blast
  qed
  then show ?thesis using Classified by (auto simp: write_as_def)
qed

lemma commit_write_as:
  assumes w: "tr_stored (ledger_commit r key c oc now limits) = Some r'"
  shows "(\<exists>b. write_as r r' (WCommit b c) \<and> event_commits r (EvCommit key c oc now limits) = [(c, b)])
    \<or> write_as r r' WConsume \<and> event_commits r (EvCommit key c oc now limits) = []"
proof (cases "tr_outcome (ledger_commit r key c oc now limits)")
  case (Inl e)
  then show ?thesis
    using ledger_commit_error_stored [OF Inl w] by (auto simp: write_as_def)
next
  case (Inr u)
  then have ok: "tr_outcome (ledger_commit r key c oc now limits) = Inr ()" by simp
  obtain p where "ir_phase r = Pending p" "pc_claim_id p = c"
    "r' = r\<lparr>ir_phase := Ready, ir_accepted := retain_newest (ll_max_accepted_outcomes limits)
          (ir_accepted r @ [outcome_metadata key p oc])\<rparr>"
    using ledger_commit_ok [OF ok] w by auto
  then show ?thesis using ok by (auto simp: write_as_def)
qed

lemma release_write_as:
  assumes w: "tr_stored (ledger_release r c now) = Some r'"
  shows "(\<exists>b. write_as r r' (WRelease b)) \<or> write_as r r' WConsume"
  using ledger_release_stored_cases [OF w] by (auto simp: write_as_def)

lemma abandon_write_as:
  assumes w: "tr_stored (ledger_abandon r c now) = Some r'"
  shows "write_as r r' WConsume"
  using ledger_abandon_stored_cases [OF w] by (auto simp: write_as_def)

lemma fence_write_as:
  assumes w: "tr_stored (ledger_fence r c) = Some r'"
  shows "write_as r r' WConsume"
  using ledger_fence_stored_cases [OF w] by (auto simp: write_as_def)

lemma event_write_as:
  assumes "event_write r v ev = Some r'"
  obtains b where "write_as r r' (WGrant b v)" "event_grants r v ev = [(v, b)]"
      "event_commits r ev = []"
    | b c where "write_as r r' (WCommit b c)" "event_grants r v ev = []" "event_commits r ev = [(c, b)]"
    | b where "write_as r r' (WRelease b)" "event_grants r v ev = []" "event_commits r ev = []"
    | "write_as r r' WConsume" "event_grants r v ev = []" "event_commits r ev = []"
proof (cases ev)
  case (EvClaim request now limits)
  then obtain t where t: "ledger_claim r request now limits v = Inr t" and w: "tr_stored t = Some r'"
    using assms by (auto split: sum.splits)
  show ?thesis using claim_write_as [OF t w] EvClaim t that(1,4) by auto
next
  case (EvCommit key c oc now limits)
  have w: "tr_stored (ledger_commit r key c oc now limits) = Some r'" using assms EvCommit by simp
  show ?thesis using commit_write_as [OF w] EvCommit that(2,4) by auto
next
  case (EvRelease c now)
  then show ?thesis using assms release_write_as [of r c now r'] that(3,4) by auto
next
  case (EvAbandon c now)
  then show ?thesis using assms abandon_write_as [of r c now r'] that(4) by auto
next
  case (EvFence c)
  then show ?thesis using assms fence_write_as [of r c r'] that(4) by auto
qed

subsection \<open>The invariant of a life\<close>

definition life_inv :: "life \<Rightarrow> bool" where
  "life_inv s =
     (sorted_wrt (<) (map fst (lf_granted s))
      \<and> (\<forall>g \<in> set (lf_granted s). fst g < lf_version s)
      \<and> sorted_wrt (<) (map snd (lf_committed s))
      \<and> set (lf_committed s) \<subseteq> set (lf_granted s)
      \<and> (\<forall>c \<in> set (lf_committed s). snd c < phase_floor (lf_record s))
      \<and> pending_ok (lf_record s)
      \<and> (case ir_phase (lf_record s) of
           Pending p \<Rightarrow> (pc_claim_id p, pc_base_revision p) \<in> set (lf_granted s)
         | _ \<Rightarrow> True))"

lemma life_inv_start: "life_inv (life_start c v e)"
  by (simp add: life_inv_def life_start_def created_record_def pending_ok_def)

lemma word_less_Suc: "unat (b :: u64) = Suc (unat a) \<Longrightarrow> x < a \<or> x = a \<Longrightarrow> x < b"
  by (auto simp: word_less_nat_alt)

lemma life_step_inv:
  assumes inv: "life_inv s" and step: "life_step s ev s'"
  shows "life_inv s'"
  using step
proof (cases rule: life_step.cases)
  case (landed r' v')
  have v': "lf_version s < v'" using landed checked_add_u64_less [of "lf_version s" 1] by simp
  have gv: "\<forall>g \<in> set (lf_granted s). fst g < v'" using inv v' by (auto simp: life_inv_def)
  from landed(2) show ?thesis
  proof (cases rule: event_write_as)
    case (1 b)
    have "phase_floor (lf_record s) = b" "phase_floor r' = b" "pending_ok r'"
      using 1 by (auto simp: write_as_def phase_floor_def pending_ok_def)
    then show ?thesis
      using inv 1 gv v' landed(1)
      by (auto simp: life_inv_def sorted_wrt_append write_as_def)
  next
    case (2 b c)
    then obtain p where p: "ir_phase (lf_record s) = Pending p" "pc_claim_id p = c"
      "pc_base_revision p = b" and ready: "ir_phase r' = Ready"
      and cur: "ir_current_revision r' = ir_current_revision (lf_record s)"
      by (auto simp: write_as_def)
    have suc: "unat (ir_current_revision r') = Suc (unat b)"
      using inv p cur by (auto simp: life_inv_def pending_ok_def)
    have floors: "phase_floor (lf_record s) = b" "phase_floor r' = ir_current_revision r'"
      using p ready by (auto simp: phase_floor_def)
    have "\<forall>x \<in> set (lf_committed s). snd x < b" using inv floors by (auto simp: life_inv_def)
    then show ?thesis
      using inv 2 gv v' landed(1) p ready floors word_less_Suc [OF suc]
      by (auto simp: life_inv_def sorted_wrt_append pending_ok_def)
  next
    case (3 b)
    then have "phase_floor (lf_record s) = b" "phase_floor r' = b" "pending_ok r'" "ir_phase r' = Ready"
      by (auto simp: write_as_def phase_floor_def pending_ok_def)
    then show ?thesis using inv 3 gv landed(1) by (auto simp: life_inv_def)
  next
    case 4
    have "pending_ok r'" and floor: "phase_floor r' = ir_current_revision (lf_record s)"
      and np: "\<And>p. ir_phase r' \<noteq> Pending p"
      using 4 by (auto simp: write_as_def consumed_def phase_floor_def pending_ok_def
          split: instance_phase.splits)
    have "phase_floor (lf_record s) \<le> ir_current_revision (lf_record s)"
      using inv by (auto simp: life_inv_def pending_ok_def phase_floor_def word_le_nat_alt
          split: instance_phase.splits)
    then have "\<forall>x \<in> set (lf_committed s). snd x < phase_floor r'"
      using inv floor by (auto simp: life_inv_def intro: less_le_trans)
    then show ?thesis using inv 4 gv landed(1) np \<open>pending_ok r'\<close>
      by (auto simp: life_inv_def split: instance_phase.splits)
  qed
qed

lemma life_reach_inv: "life_reach s0 s \<Longrightarrow> life_inv s0 \<Longrightarrow> life_inv s"
  by (induction rule: life_reach.induct) (auto intro: life_step_inv)

lemma sorted_wrt_less_distinct: "sorted_wrt (<) (xs :: u64 list) \<Longrightarrow> distinct xs"
  by (induction xs) auto

subsection \<open>The authority a record implements\<close>

text \<open>
  The contract in three states: a base revision is open to a claim, claimed, or closed for good.
  A claim is accepted, which opens the next revision, restored, which opens the same one again,
  or closed.
\<close>

datatype authority = AuthorityOpen revision | AuthorityClaimed revision | AuthorityClosed

definition abs_authority :: "instance_record \<Rightarrow> authority" where
  "abs_authority r =
     (case ir_phase r of
        Ready \<Rightarrow> AuthorityOpen (ir_current_revision r)
      | Pending p \<Rightarrow> AuthorityClaimed (pc_base_revision p)
      | Consumed _ _ \<Rightarrow> AuthorityClosed)"

inductive authority_step :: "authority \<Rightarrow> authority \<Rightarrow> bool" where
  grant: "authority_step (AuthorityOpen b) (AuthorityClaimed b)"
| accept: "unat b' = Suc (unat b) \<Longrightarrow> authority_step (AuthorityClaimed b) (AuthorityOpen b')"
| restore: "authority_step (AuthorityClaimed b) (AuthorityOpen b)"
| close_open: "authority_step (AuthorityOpen b) AuthorityClosed"
| close_claimed: "authority_step (AuthorityClaimed b) AuthorityClosed"

inductive_simps authority_step_simps [simp]:
  "authority_step (AuthorityOpen b) a"
  "authority_step (AuthorityClaimed b) a"
  "authority_step AuthorityClosed a"

lemma event_write_not_consumed: "event_write r v ev = Some r' \<Longrightarrow> \<not> consumed r"
  by (cases ev) (auto simp: consumed_terminal dest: consumed_terminal(1) split: sum.splits)

lemma life_step_authority:
  assumes inv: "life_inv s" and step: "life_step s ev s'"
  shows "authority_step (abs_authority (lf_record s)) (abs_authority (lf_record s'))"
  using step
proof (cases rule: life_step.cases)
  case (landed r' v')
  have nc: "\<not> consumed (lf_record s)" using event_write_not_consumed [OF landed(2)] .
  have suc: "\<And>p. ir_phase (lf_record s) = Pending p \<Longrightarrow>
      unat (ir_current_revision (lf_record s)) = Suc (unat (pc_base_revision p))"
    using inv by (auto simp: life_inv_def pending_ok_def)
  from landed(2) show ?thesis
    by (cases rule: event_write_as)
      (use nc suc landed(1) in \<open>auto simp: write_as_def abs_authority_def consumed_def
          split: instance_phase.splits\<close>)
qed

lemma life_step_version: "life_step s ev s' \<Longrightarrow> lf_version s < lf_version s'"
  by (auto elim!: life_stepE dest: checked_add_u64_less)

definition pending_named :: "u64 \<Rightarrow> instance_record \<Rightarrow> bool" where
  "pending_named c r = (case ir_phase r of Pending p \<Rightarrow> pc_claim_id p = c | _ \<Rightarrow> False)"

lemma life_step_unpends:
  assumes inv: "life_inv s" and step: "life_step s ev s'" and p: "pending_named c (lf_record s)"
  shows "\<not> pending_named c (lf_record s') \<and> c < lf_version s'"
  using step
proof (cases rule: life_step.cases)
  case (landed r' v')
  have "c < lf_version s" using inv p
    by (auto simp: life_inv_def pending_named_def split: instance_phase.splits)
  then have "c < lf_version s'" using life_step_version [OF step] by simp
  moreover from landed(2) have "\<not> pending_named c r'"
    by (cases rule: event_write_as)
      (use p in \<open>auto simp: write_as_def pending_named_def consumed_def split: instance_phase.splits\<close>)
  ultimately show ?thesis using landed(1) by simp
qed

lemma life_step_stays_unpended:
  assumes step: "life_step s ev s'" and c: "\<not> pending_named c (lf_record s)" "c < lf_version s"
  shows "\<not> pending_named c (lf_record s') \<and> c < lf_version s'"
  using step
proof (cases rule: life_step.cases)
  case (landed r' v')
  from landed(2) have "\<not> pending_named c r'"
    by (cases rule: event_write_as)
      (use c in \<open>auto simp: write_as_def pending_named_def consumed_def split: instance_phase.splits\<close>)
  then show ?thesis using landed(1) c(2) life_step_version [OF step] by simp
qed

lemma life_reach_stays_unpended:
  "life_reach s s' \<Longrightarrow> \<not> pending_named c (lf_record s) \<Longrightarrow> c < lf_version s \<Longrightarrow>
     \<not> pending_named c (lf_record s')"
proof -
  assume "life_reach s s'" "\<not> pending_named c (lf_record s)" "c < lf_version s"
  then have "\<not> pending_named c (lf_record s') \<and> c < lf_version s'"
    by (induction rule: life_reach.induct) (auto dest: life_step_stays_unpended)
  then show ?thesis ..
qed

lemma unpended_refused:
  assumes "\<not> pending_named c r"
  shows "tr_stored (ledger_commit r key c oc now limits) = None"
    and "tr_outcome (ledger_commit r key c oc now limits) \<in> {Inl ClaimExpired, Inl ClaimMismatch}"
    and "tr_stored (ledger_release r c now) = None"
    and "tr_stored (ledger_abandon r c now) = None"
  using assms
  by (auto simp: pending_named_def ledger_commit_def ledger_release_def ledger_abandon_def Let_def
      tr_unchanged_def split: instance_phase.splits)

end
