(* ===== verification/Ledger_Props.thy ===== *)
theory Ledger_Props
  imports Ledger_Life
begin

text \<open>
  What the instance ledger promises its callers, over the state machine of \<open>Ledger_State\<close> and
  the lives of \<open>Ledger_Life\<close>, with a concrete instance of each promise.
\<close>

subsection \<open>Concrete records the instances below run on\<close>

definition ex_limits :: ledger_limits where
  "ex_limits = \<lparr>ll_claim_lease_ms = 1000, ll_max_instance_lifetime_ms = 60000,
     ll_max_accepted_outcomes = 2, ll_max_instances = 10\<rparr>"

definition ex_scope :: scope_fingerprint where "ex_scope = ScopeFingerprint (replicate 32 7)"
definition ex_instance :: instance_id where "ex_instance = InstanceId (replicate 16 9)"
definition ex_digest :: content_digest where "ex_digest = ContentDigest (replicate 32 1)"
definition ex_other_digest :: content_digest where "ex_other_digest = ContentDigest (replicate 32 2)"
definition ex_idem :: idempotency_key where "ex_idem = IdempotencyKey (replicate 16 3)"
definition ex_key :: instance_record_key where
  "ex_key = InstanceRecordKey ex_scope ex_instance"
definition ex_outcome :: accepted_outcome where
  "ex_outcome = \<lparr>ao_kind = Rendered, ao_digest = ex_digest\<rparr>"

definition ex_request :: "revision \<Rightarrow> claim_request" where
  "ex_request b = \<lparr>cr_scope = ex_scope, cr_instance_id = ex_instance, cr_base_revision = b,
     cr_idempotency_key = ex_idem, cr_request_digest = ex_digest\<rparr>"

definition ex_record :: instance_record where
  "ex_record = created_record (Some ex_digest) 5 50000"

lemmas ex_defs = ex_limits_def ex_scope_def ex_instance_def ex_digest_def ex_other_digest_def
  ex_idem_def ex_key_def ex_outcome_def ex_request_def ex_record_def created_record_def

definition ex_pending :: instance_record where
  "ex_pending = granted_record ex_record (ex_request 5) 1 6 2000"

definition ex_committed :: instance_record where
  "ex_committed = ex_record\<lparr>ir_current_revision := 6, ir_accepted :=
     [\<lparr>am_scope = ex_scope, am_instance_id = ex_instance, am_base_revision = 5,
       am_successor_revision = 6, am_idempotency_key = ex_idem, am_request_digest = ex_digest,
       am_outcome = ex_outcome\<rparr>]\<rparr>"

lemma ex_claim:
  "ledger_claim ex_record (ex_request 5) 1000 ex_limits 1 =
     Inr (tr_write ex_pending (DecisionGranted 6))"
  by (simp add: ledger_claim_def expire_pending_def lease_elapsed_def claim_replay_def claim_fresh_def
      ex_pending_def ex_defs revision_checked_next_def checked_add_u64_def)

lemma ex_commit:
  "ledger_commit ex_pending ex_key 1 ex_outcome 1500 ex_limits = tr_write ex_committed (Inr ())"
  by (simp add: ledger_commit_def ex_pending_def granted_record_def ex_committed_def monotonic_def
      outcome_metadata_def ex_defs Let_def word_le_nat_alt)

lemma ex_request_base [simp]: "cr_base_revision (ex_request b) = b"
  by (simp add: ex_request_def)

definition ex_start :: life where
  "ex_start = life_start (Some ex_digest) 5 50000"

definition ex_life1 :: life where
  "ex_life1 = \<lparr>lf_record = ex_pending, lf_version = 2, lf_granted = [(1, 5)], lf_committed = []\<rparr>"

definition ex_life2 :: life where
  "ex_life2 = \<lparr>lf_record = ex_committed, lf_version = 3, lf_granted = [(1, 5)],
     lf_committed = [(1, 5)]\<rparr>"

lemma ex_start_record [simp]: "lf_record ex_start = ex_record" "lf_version ex_start = 1"
  "lf_granted ex_start = []" "lf_committed ex_start = []"
  by (simp_all add: ex_start_def life_start_def ex_record_def)

lemma ex_step1: "life_step ex_start (EvClaim (ex_request 5) 1000 ex_limits) ex_life1"
  using landed [of ex_start "EvClaim (ex_request 5) 1000 ex_limits" ex_pending 2]
  by (simp add: ex_claim tr_write_def ex_life1_def checked_add_u64_def)

lemma ex_step2: "life_step ex_life1 (EvCommit ex_key 1 ex_outcome 1500 ex_limits) ex_life2"
  using landed [of ex_life1 "EvCommit ex_key 1 ex_outcome 1500 ex_limits" ex_committed 3]
  by (simp add: ex_commit tr_write_def ex_life1_def ex_life2_def checked_add_u64_def)
    (simp add: ex_pending_def granted_record_def)

lemma ex_reach1: "life_reach ex_start ex_life1"
  by (rule life_reach.step [OF life_reach.start ex_step1])

lemma ex_reach2: "life_reach ex_start ex_life2"
  by (rule life_reach.step [OF ex_reach1 ex_step2])

lemma ex_life_inv [simp]: "life_inv ex_start"
  by (simp add: ex_start_def life_inv_start)

lemma ex_limits_valid [simp]: "ledger_limits_valid ex_limits"
  by (simp add: ledger_limits_valid_def ex_limits_def max_claim_lease_ms_def
      max_instance_lifetime_ms_def max_accepted_outcomes_def max_instances_def word_le_nat_alt
      word_less_nat_alt)

lemma ex_record_inv [simp]: "record_inv limits ex_record"
  by (simp add: ex_record_def record_inv_created)

subsection \<open>Lives\<close>

text \<open>
  C1: over the whole life of an instance record, under any interleaving of claims, commits,
  releases, abandonments and fences, each base revision is committed at most once, in increasing
  order, only under a claim that was granted for that base, and no two grants share a claim name.
\<close>

theorem base_committed_at_most_once:
  assumes "life_reach (life_start contract initial expires_at) s"
  shows "sorted_wrt (<) (map snd (lf_committed s)) \<and> set (lf_committed s) \<subseteq> set (lf_granted s)
    \<and> sorted_wrt (<) (map fst (lf_granted s))"
  using life_reach_inv [OF assms life_inv_start] by (simp add: life_inv_def)

theorem base_committed_at_most_once_witness:
  "sorted_wrt (<) (map snd (lf_committed ex_life2)) \<and> lf_committed ex_life2 = [(1, 5)]"
  using base_committed_at_most_once [OF ex_reach2 [unfolded ex_start_def]]
  by (simp add: ex_life2_def)

text \<open>
  Once any write resolves a pending claim, its token is dead for the rest of the record's
  life: a commit presenting it is refused with ClaimExpired or ClaimMismatch and writes nothing,
  whatever was claimed since.
\<close>

theorem resolved_claim_is_refused:
  assumes "life_reach (life_start contract initial expires_at) s"
    and "pending_named c (lf_record s)" and "life_step s ev s'" and "life_reach s' s''"
  shows "tr_stored (ledger_commit (lf_record s'') key c outcome now limits) = None
    \<and> tr_outcome (ledger_commit (lf_record s'') key c outcome now limits)
        \<in> {Inl ClaimExpired, Inl ClaimMismatch}"
proof -
  have "life_inv s" using life_reach_inv [OF assms(1) life_inv_start] .
  then have "\<not> pending_named c (lf_record s')" "c < lf_version s'"
    using life_step_unpends [OF _ assms(3,2)] by auto
  then have "\<not> pending_named c (lf_record s'')" using life_reach_stays_unpended [OF assms(4)] by blast
  then show ?thesis using unpended_refused(1,2) [of c "lf_record s''"] by blast
qed

theorem resolved_claim_is_refused_witness:
  "tr_stored (ledger_commit ex_committed ex_key 1 ex_outcome 1600 ex_limits) = None"
proof -
  have "pending_named 1 (lf_record ex_life1)"
    by (simp add: pending_named_def ex_life1_def ex_pending_def granted_record_def)
  then show ?thesis
    using resolved_claim_is_refused [OF ex_reach1 [unfolded ex_start_def] _ ex_step2 life_reach.start,
        of 1 ex_key ex_outcome 1600 ex_limits]
    by (simp add: ex_life2_def)
qed

text \<open>
  C40: every write to an instance record is a step of the three-state authority: an open base is
  claimed or closed, a claimed base is accepted (opening exactly the next revision), restored or
  closed, and a closed record is never written again.
\<close>

theorem record_refines_authority:
  assumes "life_reach (life_start contract initial expires_at) s" and "life_step s ev s'"
  shows "authority_step (abs_authority (lf_record s)) (abs_authority (lf_record s'))"
  using life_step_authority [OF life_reach_inv [OF assms(1) life_inv_start] assms(2)] .

theorem record_refines_authority_witness:
  "authority_step (abs_authority ex_pending) (abs_authority ex_committed)"
  using record_refines_authority [OF ex_reach1 [unfolded ex_start_def] ex_step2]
  by (simp add: ex_life1_def ex_life2_def)

subsection \<open>Claims\<close>

lemma replay_none_at_current:
  assumes inv: "record_inv limits r" and ready: "ir_phase r = Ready"
    and base: "cr_base_revision request = ir_current_revision r"
  shows "claim_replay r request = None"
proof -
  have "am_base_revision a \<noteq> ir_current_revision r" if "a \<in> set (ir_accepted r)" for a
  proof -
    have "am_successor_revision a \<le> ir_current_revision r" "metadata_step a"
      using inv that ready by (auto simp: record_inv_def list_all_iff phase_floor_def)
    then show ?thesis by (auto simp: metadata_step_def word_le_nat_alt)
  qed
  then have "find (\<lambda>a. am_base_revision a = cr_base_revision request) (ir_accepted r) = None"
    using base by (auto simp: find_None_iff)
  then show ?thesis by (simp add: claim_replay_def)
qed

lemma revision_checked_next_ok: "is_ok (revision_checked_next v) \<longleftrightarrow> v \<noteq> u64_max"
  using checked_add_u64_None_iff [of v]
  by (cases "checked_add_u64 v 1") (auto simp: revision_checked_next_def)

text \<open>
  A claim is granted exactly when the record is ready, the request's base is the current
  revision, a successor revision exists and the lease deadline does not overflow.
\<close>

theorem claim_granted_iff:
  assumes "record_inv limits r"
  shows "(\<exists>t s. ledger_claim r request now limits c = Inr t \<and> tr_outcome t = DecisionGranted s)
    \<longleftrightarrow> ir_phase r = Ready \<and> ir_current_revision r = cr_base_revision request
        \<and> cr_base_revision request \<noteq> u64_max
        \<and> unat now + unat (ll_claim_lease_ms limits) < 2 ^ 64"  (is "?g \<longleftrightarrow> ?c")
proof
  assume ?g
  then obtain t s where t: "ledger_claim r request now limits c = Inr t"
    and g: "tr_outcome t = DecisionGranted s" by blast
  note cg = ledger_claim_granted [OF t g]
  have f: "claim_fresh r request now limits c = Inr t" using cg by blast
  note fg = claim_fresh_granted [OF f g]
  have "unat s < 2 ^ 64" using unsigned_less [of s] by simp
  then have "cr_base_revision request \<noteq> u64_max" using fg by auto
  then show ?c using cg fg by (auto simp: checked_add_u64_def split: if_splits)
next
  assume c: ?c
  obtain s where "revision_checked_next (cr_base_revision request) = Inr s"
    using c revision_checked_next_ok [of "cr_base_revision request"] by (auto simp: is_ok_iff)
  then show ?g
    using c replay_none_at_current [OF assms, of request]
    by (simp add: ledger_claim_def expire_pending_def lease_elapsed_def claim_fresh_def
        checked_add_u64_def tr_write_def)
qed

theorem claim_granted_iff_witness:
  "\<exists>t s. ledger_claim ex_record (ex_request 5) 1000 ex_limits 1 = Inr t
     \<and> tr_outcome t = DecisionGranted s"
  using claim_granted_iff [where limits = ex_limits and r = ex_record and request = "ex_request 5" and
      now = 1000 and c = 1, OF ex_record_inv]
  by (simp add: ex_defs u64_max_def)

text \<open>
  Dropping a granted claim before its lease runs out gives back exactly the record the claim
  was taken from, so the same base revision can be claimed again.
\<close>

theorem release_restores_record:
  assumes "ledger_claim r request now limits c = Inr t" and "tr_outcome t = DecisionGranted s"
    and "tr_stored t = Some r'" and "unat later < unat now + unat (ll_claim_lease_ms limits)"
  shows "ledger_release r' c later = tr_write r (Inr ())"
proof -
  have f: "claim_fresh r request now limits c = Inr t" and ready: "ir_phase r = Ready"
    using ledger_claim_granted [OF assms(1,2)] by auto
  from claim_fresh_granted [OF f assms(2)] obtain lease where
    cur: "ir_current_revision r = cr_base_revision request"
    and lease: "checked_add_u64 now (ll_claim_lease_ms limits) = Some lease"
    and r': "r' = granted_record r request c s lease"
    using assms(3) by auto
  have "later < lease" using assms(4) checked_add_u64_unat [OF lease] by (simp add: word_less_nat_alt)
  moreover have "r\<lparr>ir_current_revision := cr_base_revision request, ir_phase := Ready\<rparr> = r"
    using cur ready by simp
  ultimately show ?thesis
    by (simp add: r' granted_record_def ledger_release_def)
qed

theorem release_restores_record_witness:
  "ledger_release ex_pending 1 1500 = tr_write ex_record (Inr ())"
  using release_restores_record [OF ex_claim, of 6 ex_pending 1500]
  by (simp add: tr_write_def ex_limits_def)

lemma find_retained:
  assumes "\<forall>a \<in> set xs. \<not> P a" and "P x" and "0 < n"
  shows "find P (retain_newest n (xs @ [x])) = Some x"
proof -
  have "length (xs @ [x]) - n \<le> length xs" using assms(3) by simp
  then have "retain_newest n (xs @ [x]) = drop (length (xs @ [x]) - n) xs @ [x]"
    by (simp add: retain_newest_drop)
  moreover have "\<forall>a \<in> set ys. \<not> P a \<Longrightarrow> find P (ys @ [x]) = Some x" for ys
    using assms(2) by (induction ys) auto
  then have "find P (drop k xs @ [x]) = Some x" for k
    using assms(1) by (meson in_set_dropD)
  ultimately show ?thesis by simp
qed

text \<open>
  After a claim was granted and committed, repeating it with the same base revision and
  idempotency key answers from the retained outcome and writes nothing: the accepted outcome when
  the request digest is the same, IdempotencyConflict when it is not. The host effects are never
  run twice for one retry identity while its outcome is retained.
\<close>

theorem committed_retry_answers_accepted:
  assumes inv: "record_inv limits r" and lim: "ledger_limits_valid limits"
    and claim: "ledger_claim r request now limits c = Inr t"
      "tr_outcome t = DecisionGranted s" "tr_stored t = Some r1"
    and commit: "tr_outcome (ledger_commit r1 key c oc now1 limits) = Inr ()"
      "tr_stored (ledger_commit r1 key c oc now1 limits) = Some r2"
    and same: "cr_base_revision retry = cr_base_revision request"
      "cr_idempotency_key retry = cr_idempotency_key request"
  shows "ledger_claim r2 retry now2 limits c2 = Inr (tr_unchanged (Classified
    (if cr_request_digest retry = cr_request_digest request
     then Accepted \<lparr>am_scope = ik_scope key, am_instance_id = ik_instance_id key,
       am_base_revision = cr_base_revision request, am_successor_revision = s,
       am_idempotency_key = cr_idempotency_key request,
       am_request_digest = cr_request_digest request, am_outcome = oc\<rparr>
     else IdempotencyConflict)))"
proof -
  have f: "claim_fresh r request now limits c = Inr t" and ready: "ir_phase r = Ready"
    using ledger_claim_granted [OF claim(1,2)] by auto
  from claim_fresh_granted [OF f claim(2)] obtain lease where
    cur: "ir_current_revision r = cr_base_revision request"
    and r1: "r1 = granted_record r request c s lease" using claim(3) by auto
  obtain p where p: "ir_phase r1 = Pending p" and r2: "r2 = r1\<lparr>ir_phase := Ready, ir_accepted :=
      retain_newest (ll_max_accepted_outcomes limits) (ir_accepted r1 @ [outcome_metadata key p oc])\<rparr>"
    using ledger_commit_ok [OF commit(1)] commit(2) by auto
  define m where "m = outcome_metadata key p oc"
  have m: "m = \<lparr>am_scope = ik_scope key, am_instance_id = ik_instance_id key,
       am_base_revision = cr_base_revision request, am_successor_revision = s,
       am_idempotency_key = cr_idempotency_key request,
       am_request_digest = cr_request_digest request, am_outcome = oc\<rparr>"
    using p by (auto simp: m_def outcome_metadata_def r1 granted_record_def)
  have "find (\<lambda>a. am_base_revision a = cr_base_revision request) (ir_accepted r) = None"
    using replay_none_at_current [OF inv ready, of request] cur inv ready
    by (auto simp: find_None_iff record_inv_def list_all_iff phase_floor_def metadata_step_def
        word_le_nat_alt)
  then have old: "\<forall>a \<in> set (ir_accepted r). am_base_revision a \<noteq> cr_base_revision request"
    by (auto simp: find_None_iff)
  have "find (\<lambda>a. am_base_revision a = cr_base_revision retry) (ir_accepted r2) = Some m"
    using find_retained [OF old, of m "ll_max_accepted_outcomes limits"] m ledger_limits_validD [OF lim]
      same(1) by (simp add: r2 r1 granted_record_def m_def)
  then have "claim_replay r2 retry = Some (if cr_request_digest retry = cr_request_digest request
      then Accepted m else IdempotencyConflict)"
    using same(2) m by (auto simp: claim_replay_def)
  then show ?thesis
    unfolding m [symmetric]
    by (simp add: ledger_claim_def expire_pending_def lease_elapsed_def r2)
qed

theorem committed_retry_answers_accepted_witness:
  "ledger_claim ex_committed (ex_request 5) 1700 ex_limits 3 =
     Inr (tr_unchanged (Classified (Accepted \<lparr>am_scope = ex_scope, am_instance_id = ex_instance,
       am_base_revision = 5, am_successor_revision = 6, am_idempotency_key = ex_idem,
       am_request_digest = ex_digest, am_outcome = ex_outcome\<rparr>)))"
  using committed_retry_answers_accepted [OF ex_record_inv ex_limits_valid ex_claim, of 6 ex_pending
      ex_key ex_outcome 1500 ex_committed "ex_request 5" 1700 3]
  by (simp add: ex_commit tr_write_def) (simp add: ex_defs)

fun event_limits :: "ledger_event \<Rightarrow> ledger_limits option" where
  "event_limits (EvClaim request now limits) = Some limits"
| "event_limits (EvCommit key c oc now limits) = Some limits"
| "event_limits _ = None"

text \<open>
  Every write keeps the record well formed: at most the configured number of outcomes is
  retained, retained outcomes advance by exactly one revision each and never overlap, and a
  pending claim's successor is its base plus one and the record's current revision.
\<close>

theorem event_write_keeps_record_inv:
  assumes inv: "record_inv limits r" and lim: "ledger_limits_valid limits"
    and ev: "event_limits ev \<in> {None, Some limits}" and w: "event_write r v ev = Some r'"
  shows "record_inv limits r'"
  using assms by (cases ev) (auto intro: ledger_inv_intros split: sum.splits)

theorem event_write_keeps_record_inv_witness: "record_inv ex_limits ex_pending"
  using event_write_keeps_record_inv [OF ex_record_inv ex_limits_valid,
      of "EvClaim (ex_request 5) 1000 ex_limits" 1 ex_pending]
  by (simp add: ex_claim tr_write_def)

text \<open>
  The revision an authorization read may rely on is never a pending successor: it is the
  record's current revision when ready, the base of a live claim, and absent exactly when the
  projected phase is consumed, so an elapsed lease reads as terminal before any write says so.
\<close>

theorem accepted_revision_projection:
  "(accepted_revision r now = None \<longleftrightarrow> projected_phase r now = PhaseConsumed)
   \<and> (projected_phase r now \<noteq> PhaseConsumed \<longrightarrow> accepted_revision r now = Some (phase_floor r))
   \<and> (pending_ok r \<longrightarrow> projected_phase r now = PhasePending \<longrightarrow>
        accepted_revision r now \<noteq> Some (ir_current_revision r))"
  by (cases "ir_phase r")
    (auto simp: accepted_revision_def projected_phase_def lease_elapsed_def phase_floor_def
      pending_ok_def dest: arg_cong [where f = unat])

theorem accepted_revision_projection_witness:
  "accepted_revision ex_pending 1500 = Some 5"
  using accepted_revision_projection [of ex_pending 1500]
  by (simp add: ex_pending_def granted_record_def phase_floor_def projected_phase_def
      lease_elapsed_def word_le_nat_alt)

end
