(* ===== verification/BTree_Map.thy ===== *)
theory BTree_Map
  imports Main "HOL-Library.List_Lexorder"
begin

text \<open>
  Rust's \<open>BTreeMap\<close> and \<open>BTreeSet\<close> as lists sorted by key, with the operations the modelled code
  uses. Lookup is \<open>map_of\<close>, iteration order is list order, and \<open>bt_sorted\<close> is the invariant that
  every operation keeps.
\<close>

definition bt_sorted :: "('k :: linorder \<times> 'a) list \<Rightarrow> bool" where
  "bt_sorted m = sorted_wrt (<) (map fst m)"

text \<open>\<open>BTreeMap::insert\<close>.\<close>

fun bt_insert :: "'k :: linorder \<Rightarrow> 'a \<Rightarrow> ('k \<times> 'a) list \<Rightarrow> ('k \<times> 'a) list" where
  "bt_insert k v [] = [(k, v)]"
| "bt_insert k v ((k', v') # m) =
     (if k < k' then (k, v) # (k', v') # m
      else if k = k' then (k, v) # m
      else (k', v') # bt_insert k v m)"

text \<open>\<open>BTreeMap::remove\<close>, the map half.\<close>

definition bt_remove :: "'k :: linorder \<Rightarrow> ('k \<times> 'a) list \<Rightarrow> ('k \<times> 'a) list" where
  "bt_remove k m = filter (\<lambda>(k', v). k' \<noteq> k) m"

text \<open>\<open>collect::<BTreeMap<_, _>>()\<close>: later entries replace earlier ones.\<close>

definition bt_collect :: "('k :: linorder \<times> 'a) list \<Rightarrow> ('k \<times> 'a) list" where
  "bt_collect ms = foldl (\<lambda>m (k, v). bt_insert k v m) [] ms"

text \<open>\<open>BTreeSet::insert\<close> and \<open>BTreeSet::remove\<close>.\<close>

fun bs_insert :: "'k :: linorder \<Rightarrow> 'k list \<Rightarrow> 'k list" where
  "bs_insert k [] = [k]"
| "bs_insert k (x # xs) =
     (if k < x then k # x # xs else if k = x then x # xs else x # bs_insert k xs)"

definition bs_remove :: "'k :: linorder \<Rightarrow> 'k list \<Rightarrow> 'k list" where
  "bs_remove k xs = filter (\<lambda>x. x \<noteq> k) xs"

lemma bt_sorted_Nil [simp]: "bt_sorted []"
  by (simp add: bt_sorted_def)

lemma bt_sorted_Cons [simp]:
  "bt_sorted ((k, v) # m) \<longleftrightarrow> (\<forall>k' \<in> fst ` set m. k < k') \<and> bt_sorted m"
  by (simp add: bt_sorted_def)

lemma bt_sorted_distinct: "bt_sorted m \<Longrightarrow> distinct (map fst m)"
  by (simp add: bt_sorted_def strict_sorted_iff)

lemma bt_insert_keys: "fst ` set (bt_insert k v m) = insert k (fst ` set m)"
  by (induction k v m rule: bt_insert.induct) auto

lemma bt_insert_sorted [simp]: "bt_sorted m \<Longrightarrow> bt_sorted (bt_insert k v m)"
proof (induction k v m rule: bt_insert.induct)
  case (2 k v k' v' m)
  then show ?case using bt_insert_keys [of k v m] by auto
qed simp

lemma map_of_bt_insert [simp]: "bt_sorted m \<Longrightarrow> map_of (bt_insert k v m) = (map_of m)(k \<mapsto> v)"
  by (induction k v m rule: bt_insert.induct) (auto simp: fun_eq_iff)

lemma bt_insert_snoc: "\<forall>k' \<in> fst ` set m. k' < k \<Longrightarrow> bt_insert k v m = m @ [(k, v)]"
  by (induction k v m rule: bt_insert.induct) (auto dest: order_less_asym)

lemma bt_sorted_append:
  "bt_sorted (m @ m') \<longleftrightarrow> bt_sorted m \<and> bt_sorted m' \<and> (\<forall>k \<in> fst ` set m. \<forall>k' \<in> fst ` set m'. k < k')"
  by (auto simp: bt_sorted_def sorted_wrt_append)

lemma bt_collect_sorted: "bt_sorted m \<Longrightarrow> bt_collect m = m"
proof (induction m rule: rev_induct)
  case (snoc x m)
  then show ?case
    by (cases x) (auto simp: bt_collect_def bt_sorted_append bt_insert_snoc)
qed (simp add: bt_collect_def)

lemma map_of_bt_remove [simp]: "map_of (bt_remove k m) = (map_of m)(k := None)"
  by (induction m) (auto simp: bt_remove_def fun_eq_iff)

lemma bt_remove_sorted [simp]: "bt_sorted m \<Longrightarrow> bt_sorted (bt_remove k m)"
  by (induction m) (auto simp: bt_remove_def)

lemma length_bt_insert:
  "bt_sorted m \<Longrightarrow> length (bt_insert k v m) = (if map_of m k = None then Suc (length m) else length m)"
proof (induction k v m rule: bt_insert.induct)
  case (2 k v k' v' m)
  have "k < k' \<Longrightarrow> map_of m k = None" using 2(2) by (force simp: map_of_eq_None_iff)
  then show ?case using 2 by auto
qed simp

lemma length_bt_remove:
  "bt_sorted m \<Longrightarrow> length (bt_remove k m) = (if map_of m k = None then length m else length m - 1)"
proof (induction m)
  case (Cons x m)
  obtain k' v where x: "x = (k', v)" by (cases x)
  show ?case
  proof (cases "k' = k")
    case True
    then have "map_of m k = None" using Cons.prems x by (force simp: map_of_eq_None_iff)
    then have "bt_remove k m = m"
      by (auto simp: bt_remove_def map_of_eq_None_iff filter_id_conv split_beta image_iff)
    then show ?thesis using True x by (simp add: bt_remove_def)
  next
    case False
    then have "bt_remove k (x # m) = x # bt_remove k m" using x by (simp add: bt_remove_def)
    then show ?thesis
      using Cons False x by (cases m) (auto simp: map_of_eq_None_iff)
  qed
qed (simp add: bt_remove_def)

lemma map_of_bt_iff: "bt_sorted m \<Longrightarrow> map_of m k = Some v \<longleftrightarrow> (k, v) \<in> set m"
  by (simp add: bt_sorted_distinct)

lemma bs_insert_set [simp]: "set (bs_insert k xs) = insert k (set xs)"
  by (induction k xs rule: bs_insert.induct) auto

lemma bs_insert_sorted [simp]: "sorted_wrt (<) xs \<Longrightarrow> sorted_wrt (<) (bs_insert k xs)"
  by (induction k xs rule: bs_insert.induct) auto

lemma bs_insert_nonempty [simp]: "bs_insert k xs \<noteq> []"
  by (cases xs) auto

lemma bs_remove_set [simp]: "set (bs_remove k xs) = set xs - {k}"
  by (auto simp: bs_remove_def)

lemma bs_remove_sorted [simp]: "sorted_wrt (<) xs \<Longrightarrow> sorted_wrt (<) (bs_remove k xs)"
  by (induction xs) (auto simp: bs_remove_def)

end
