(* ===== verification/Canonical.thy ===== *)
theory Canonical
  imports Prelude BTree_Map Complex_Main "HOL-Library.Char_ord"
begin

text \<open>
  The bounded canonical JSON codec: \<open>crates/suprnova-live/src/canonical/value.rs\<close>,
  \<open>parser.rs\<close> and \<open>serializer.rs\<close>, with the input bounds of \<open>limits.rs\<close>. The JSON text itself
  is third-party code: \<open>json_text\<close> is its parameter, the chunks the canonicalizer hands the writer
  and the document the deserializer walks a visitor over. A finite double is its rational value,
  with negative zero and the non-finite values apart; a \<open>BTreeMap\<close> is a list sorted by key.
  The lemmas show what the bounds mean as numbers of the value, that what the parser accepts the
  serializer accepts, and that the counting check agrees with the serializer.
\<close>

datatype canonical_error =
  TooLarge | TooDeep | TooManyEntries | StringTooLong | DuplicateKey | InvalidUtf8
| InvalidNumber | InvalidJson | SerializationFailed

fun canonical_error_as_str :: "canonical_error \<Rightarrow> string" where
  "canonical_error_as_str TooLarge = ''input_too_large''"
| "canonical_error_as_str TooDeep = ''input_too_deep''"
| "canonical_error_as_str TooManyEntries = ''too_many_entries''"
| "canonical_error_as_str StringTooLong = ''string_too_long''"
| "canonical_error_as_str DuplicateKey = ''duplicate_key''"
| "canonical_error_as_str InvalidUtf8 = ''invalid_utf8''"
| "canonical_error_as_str InvalidNumber = ''invalid_number''"
| "canonical_error_as_str InvalidJson = ''invalid_json''"
| "canonical_error_as_str SerializationFailed = ''serialization_failed''"

subsection \<open>Input bounds\<close>

definition hard_max_input_bytes :: usize where "hard_max_input_bytes = 1073741824"
definition hard_max_depth :: usize where "hard_max_depth = 64"
definition hard_max_entries :: usize where "hard_max_entries = 100000000"

record input_limits =
  il_max_bytes :: usize
  il_max_depth :: usize
  il_max_entries :: usize
  il_max_string_bytes :: usize

definition input_limits_new :: "usize \<Rightarrow> usize \<Rightarrow> usize \<Rightarrow> usize \<Rightarrow> input_limits option" where
  "input_limits_new max_bytes max_depth max_entries max_string_bytes =
     (if max_bytes \<le> hard_max_input_bytes \<and> max_depth \<le> hard_max_depth
         \<and> max_entries \<le> hard_max_entries \<and> max_string_bytes \<le> hard_max_input_bytes
         \<and> max_bytes > 0 \<and> max_depth > 0 \<and> max_entries > 0 \<and> max_string_bytes > 0
      then Some \<lparr>il_max_bytes = max_bytes, il_max_depth = max_depth,
                 il_max_entries = max_entries, il_max_string_bytes = max_string_bytes\<rparr>
      else None)"

subsection \<open>Numbers and values\<close>

datatype f64 = Finite rat | NegZero | NonFinite

definition max_safe_integer :: nat where
  "max_safe_integer = 9007199254740991"

fun canonical_number_new :: "f64 \<Rightarrow> canonical_error + rat" where
  "canonical_number_new NonFinite = Inl InvalidNumber"
| "canonical_number_new NegZero = Inr 0"
| "canonical_number_new (Finite q) = Inr q"

definition canonical_number_from_i64 :: "int \<Rightarrow> canonical_error + rat" where
  "canonical_number_from_i64 v =
     (if nat \<bar>v\<bar> > max_safe_integer then Inl InvalidNumber
      else canonical_number_new (Finite (of_int v)))"

definition canonical_number_from_u64 :: "nat \<Rightarrow> canonical_error + rat" where
  "canonical_number_from_u64 v =
     (if v > max_safe_integer then Inl InvalidNumber
      else canonical_number_new (Finite (of_nat v)))"

datatype canonical_value =
  CNull
| CBool bool
| CNumber rat
| CString string
| CArray "canonical_value list"
| CObject "(string \<times> canonical_value) list"

subsection \<open>Serde values\<close>

datatype serde_number = NumPos nat | NumNeg int | NumFloat rat

datatype serde_value =
  SNull
| SBool bool
| SNumber serde_number
| SString string
| SArray "serde_value list"
| SObject "(string \<times> serde_value) list"

definition i64_max :: nat where "i64_max = 9223372036854775807"

fun serde_as_i64 :: "serde_number \<Rightarrow> int option" where
  "serde_as_i64 (NumPos n) = (if n \<le> i64_max then Some (int n) else None)"
| "serde_as_i64 (NumNeg i) = Some i"
| "serde_as_i64 (NumFloat q) = None"

fun serde_as_u64 :: "serde_number \<Rightarrow> nat option" where
  "serde_as_u64 (NumPos n) = Some n"
| "serde_as_u64 _ = None"

fun serde_number_to_canonical :: "serde_number \<Rightarrow> canonical_error + rat" where
  "serde_number_to_canonical x =
     (case serde_as_i64 x of
        Some v \<Rightarrow> canonical_number_from_i64 v
      | None \<Rightarrow>
          (case serde_as_u64 x of
             Some v \<Rightarrow> canonical_number_from_u64 v
           | None \<Rightarrow> (case x of NumFloat q \<Rightarrow> canonical_number_new (Finite q)
                       | _ \<Rightarrow> Inl InvalidNumber)))"

fun from_serde_value :: "serde_value \<Rightarrow> canonical_error + canonical_value"
  and from_serde_items :: "serde_value list \<Rightarrow> canonical_error + canonical_value list"
  and from_serde_members ::
    "(string \<times> serde_value) list \<Rightarrow> canonical_error + (string \<times> canonical_value) list" where
  "from_serde_value SNull = Inr CNull"
| "from_serde_value (SBool b) = Inr (CBool b)"
| "from_serde_value (SNumber x) =
     and_then (serde_number_to_canonical x) (\<lambda>q. Inr (CNumber q))"
| "from_serde_value (SString s) = Inr (CString s)"
| "from_serde_value (SArray vs) = and_then (from_serde_items vs) (\<lambda>ws. Inr (CArray ws))"
| "from_serde_value (SObject ms) = and_then (from_serde_members ms) (\<lambda>ws. Inr (CObject (bt_collect ws)))"
| "from_serde_items [] = Inr []"
| "from_serde_items (v # vs) =
     and_then (from_serde_value v) (\<lambda>w. and_then (from_serde_items vs) (\<lambda>ws. Inr (w # ws)))"
| "from_serde_members [] = Inr []"
| "from_serde_members ((k, v) # ms) =
     and_then (from_serde_value v) (\<lambda>w. and_then (from_serde_members ms) (\<lambda>ws. Inr ((k, w) # ws)))"

definition canonical_number_to_serde :: "rat \<Rightarrow> serde_number" where
  "canonical_number_to_serde q =
     (if q = of_int \<lfloor>q\<rfloor> \<and> 0 \<le> q \<and> q \<le> of_nat max_safe_integer then NumPos (nat \<lfloor>q\<rfloor>)
      else if q = of_int \<lfloor>q\<rfloor> \<and> q < 0 \<and> - of_nat max_safe_integer \<le> q then NumNeg \<lfloor>q\<rfloor>
      else NumFloat q)"

fun to_serde_value :: "canonical_value \<Rightarrow> serde_value"
  and to_serde_items :: "canonical_value list \<Rightarrow> serde_value list"
  and to_serde_members :: "(string \<times> canonical_value) list \<Rightarrow> (string \<times> serde_value) list" where
  "to_serde_value CNull = SNull"
| "to_serde_value (CBool b) = SBool b"
| "to_serde_value (CNumber q) = SNumber (canonical_number_to_serde q)"
| "to_serde_value (CString s) = SString s"
| "to_serde_value (CArray vs) = SArray (to_serde_items vs)"
| "to_serde_value (CObject ms) = SObject (bt_collect (to_serde_members ms))"
| "to_serde_items [] = []"
| "to_serde_items (v # vs) = to_serde_value v # to_serde_items vs"
| "to_serde_members [] = []"
| "to_serde_members ((k, v) # ms) = (k, to_serde_value v) # to_serde_members ms"

subsection \<open>The serializer\<close>

definition validate_container :: "input_limits \<Rightarrow> usize \<Rightarrow> canonical_error + unit" where
  "validate_container limits depth =
     (if depth \<ge> il_max_depth limits then Inl TooDeep else Inr ())"

definition count_entry :: "input_limits \<Rightarrow> usize \<Rightarrow> canonical_error + usize" where
  "count_entry limits entries =
     (let entries' = saturating_add_usize entries 1
      in if entries' > il_max_entries limits then Inl TooManyEntries else Inr entries')"

text \<open>\<open>validate_value\<close> returns the entry count it left behind.\<close>

fun validate_value :: "input_limits \<Rightarrow> usize \<Rightarrow> usize \<Rightarrow> canonical_value \<Rightarrow> canonical_error + usize"
  and validate_items ::
    "input_limits \<Rightarrow> usize \<Rightarrow> usize \<Rightarrow> canonical_value list \<Rightarrow> canonical_error + usize"
  and validate_members ::
    "input_limits \<Rightarrow> usize \<Rightarrow> usize \<Rightarrow> (string \<times> canonical_value) list \<Rightarrow> canonical_error + usize" where
  "validate_value limits depth n (CString s) =
     (if length s > il_max_string_bytes limits then Inl StringTooLong else Inr n)"
| "validate_value limits depth n (CArray vs) =
     and_then (validate_container limits depth) (\<lambda>_. validate_items limits (depth + 1) n vs)"
| "validate_value limits depth n (CObject ms) =
     and_then (validate_container limits depth) (\<lambda>_. validate_members limits (depth + 1) n ms)"
| "validate_value limits depth n CNull = Inr n"
| "validate_value limits depth n (CBool b) = Inr n"
| "validate_value limits depth n (CNumber q) = Inr n"
| "validate_items limits depth n [] = Inr n"
| "validate_items limits depth n (v # vs) =
     and_then (count_entry limits n) (\<lambda>n.
     and_then (validate_value limits depth n v) (\<lambda>n. validate_items limits depth n vs))"
| "validate_members limits depth n [] = Inr n"
| "validate_members limits depth n ((k, v) # ms) =
     (if length k > il_max_string_bytes limits then Inl StringTooLong
      else and_then (count_entry limits n) (\<lambda>n.
           and_then (validate_value limits depth n v) (\<lambda>n. validate_members limits depth n ms)))"

text \<open>
  The third-party text codec: the chunks the canonicalizer writes for a value, whether it ends
  in an error of its own, and the document a byte string deserializes as. A document is \<open>RInvalid\<close>
  where a value does not parse; the flag of a container says that a syntax error follows the
  entries listed. The flag beside the document says whether trailing bytes follow it.
\<close>

datatype raw_json =
  RNull
| RBool bool
| RI64 int
| RU64 nat
| RF64 f64
| RString string
| RArray "raw_json list" bool
| RObject "(string \<times> raw_json) list" bool
| RInvalid

record json_text =
  jt_write :: "canonical_value \<Rightarrow> u8 list list \<times> bool"
  jt_read :: "u8 list \<Rightarrow> raw_json \<times> bool"

record bounded_writer =
  bw_bytes :: "u8 list"
  bw_limit :: usize
  bw_exceeded :: bool

fun bounded_write :: "bounded_writer \<Rightarrow> u8 list list \<Rightarrow> bool \<times> bounded_writer" where
  "bounded_write w [] = (True, w)"
| "bounded_write w (buffer # rest) =
     (if length buffer > bw_limit w - length (bw_bytes w)
      then (False, w\<lparr>bw_exceeded := True\<rparr>)
      else bounded_write (w\<lparr>bw_bytes := bw_bytes w @ buffer\<rparr>) rest)"

record counting_writer =
  cw_written :: usize
  cw_limit :: usize
  cw_exceeded :: bool

fun counting_write :: "counting_writer \<Rightarrow> u8 list list \<Rightarrow> bool \<times> counting_writer" where
  "counting_write w [] = (True, w)"
| "counting_write w (buffer # rest) =
     (if length buffer > cw_limit w - cw_written w
      then (False, w\<lparr>cw_exceeded := True\<rparr>)
      else counting_write (w\<lparr>cw_written := cw_written w + length buffer\<rparr>) rest)"

definition to_canonical_bytes ::
  "json_text \<Rightarrow> canonical_value \<Rightarrow> input_limits \<Rightarrow> canonical_error + u8 list" where
  "to_canonical_bytes j value limits =
     and_then (validate_value limits 0 0 value) (\<lambda>_.
       let (chunks, failed) = jt_write j value;
           (written, w) = bounded_write
             \<lparr>bw_bytes = [], bw_limit = il_max_bytes limits, bw_exceeded = False\<rparr> chunks
       in if \<not> written \<or> failed
          then Inl (if bw_exceeded w then TooLarge else SerializationFailed)
          else Inr (bw_bytes w))"

definition check_canonical ::
  "json_text \<Rightarrow> canonical_value \<Rightarrow> input_limits \<Rightarrow> canonical_error + unit" where
  "check_canonical j value limits =
     and_then (validate_value limits 0 0 value) (\<lambda>_.
       let (chunks, failed) = jt_write j value;
           (written, w) = counting_write
             \<lparr>cw_written = 0, cw_limit = il_max_bytes limits, cw_exceeded = False\<rparr> chunks
       in if \<not> written \<or> failed
          then Inl (if cw_exceeded w then TooLarge else SerializationFailed)
          else Inr ())"

subsection \<open>The parser\<close>

text \<open>\<open>str::from_utf8\<close>: shortest forms only, no surrogates, at most U+10FFFF.\<close>

definition utf8_tail :: "u8 \<Rightarrow> bool" where
  "utf8_tail b = (128 \<le> b \<and> b \<le> 191)"

fun utf8_valid :: "u8 list \<Rightarrow> bool" where
  "utf8_valid [] = True"
| "utf8_valid (a # bs) =
     (if a < 128 then utf8_valid bs
      else case bs of
        [] \<Rightarrow> False
      | b # cs \<Rightarrow>
          if 194 \<le> a \<and> a \<le> 223 then utf8_tail b \<and> utf8_valid cs
          else (case cs of
            [] \<Rightarrow> False
          | c # ds \<Rightarrow>
              if 224 \<le> a \<and> a \<le> 239
              then utf8_tail b \<and> utf8_tail c \<and> (a = 224 \<longrightarrow> 160 \<le> b) \<and> (a = 237 \<longrightarrow> b \<le> 159)
                   \<and> utf8_valid ds
              else (case ds of
                [] \<Rightarrow> False
              | d # es \<Rightarrow>
                  240 \<le> a \<and> a \<le> 244 \<and> utf8_tail b \<and> utf8_tail c \<and> utf8_tail d
                  \<and> (a = 240 \<longrightarrow> 144 \<le> b) \<and> (a = 244 \<longrightarrow> b \<le> 143) \<and> utf8_valid es)))"

definition visit_number :: "usize \<Rightarrow> canonical_error + rat \<Rightarrow> canonical_error + canonical_value \<times> usize" where
  "visit_number n m = and_then m (\<lambda>q. Inr (CNumber q, n))"

fun visit_value ::
    "input_limits \<Rightarrow> usize \<Rightarrow> usize \<Rightarrow> raw_json \<Rightarrow> canonical_error + canonical_value \<times> usize"
  and visit_seq ::
    "input_limits \<Rightarrow> usize \<Rightarrow> usize \<Rightarrow> bool \<Rightarrow> raw_json list \<Rightarrow>
     canonical_error + canonical_value list \<times> usize"
  and visit_map ::
    "input_limits \<Rightarrow> usize \<Rightarrow> usize \<Rightarrow> bool \<Rightarrow> (string \<times> canonical_value) list \<Rightarrow>
     (string \<times> raw_json) list \<Rightarrow> canonical_error + (string \<times> canonical_value) list \<times> usize" where
  "visit_value limits depth n RNull = Inr (CNull, n)"
| "visit_value limits depth n (RBool b) = Inr (CBool b, n)"
| "visit_value limits depth n (RI64 v) = visit_number n (canonical_number_from_i64 v)"
| "visit_value limits depth n (RU64 v) = visit_number n (canonical_number_from_u64 v)"
| "visit_value limits depth n (RF64 v) = visit_number n (canonical_number_new v)"
| "visit_value limits depth n (RString s) =
     (if length s > il_max_string_bytes limits then Inl StringTooLong else Inr (CString s, n))"
| "visit_value limits depth n (RArray xs malformed) =
     (if depth \<ge> il_max_depth limits then Inl TooDeep
      else and_then (visit_seq limits (depth + 1) n malformed xs) (\<lambda>(vs, n). Inr (CArray vs, n)))"
| "visit_value limits depth n (RObject ms malformed) =
     (if depth \<ge> il_max_depth limits then Inl TooDeep
      else and_then (visit_map limits (depth + 1) n malformed [] ms) (\<lambda>(vs, n). Inr (CObject vs, n)))"
| "visit_value limits depth n RInvalid = Inl InvalidJson"
| "visit_seq limits depth n malformed [] = (if malformed then Inl InvalidJson else Inr ([], n))"
| "visit_seq limits depth n malformed (x # xs) =
     and_then (visit_value limits depth n x) (\<lambda>(v, n).
     and_then (count_entry limits n) (\<lambda>n.
     and_then (visit_seq limits depth n malformed xs) (\<lambda>(vs, n). Inr (v # vs, n))))"
| "visit_map limits depth n malformed values [] =
     (if malformed then Inl InvalidJson else Inr (values, n))"
| "visit_map limits depth n malformed values ((k, x) # ms) =
     (if length k > il_max_string_bytes limits then Inl StringTooLong
      else and_then (count_entry limits n) (\<lambda>n.
        if map_of values k \<noteq> None then Inl DuplicateKey
        else and_then (visit_value limits depth n x) (\<lambda>(v, n).
          visit_map limits depth n malformed (bt_insert k v values) ms)))"

definition parse_canonical_value ::
  "json_text \<Rightarrow> u8 list \<Rightarrow> input_limits \<Rightarrow> canonical_error + canonical_value" where
  "parse_canonical_value j input limits =
     (if length input > il_max_bytes limits then Inl TooLarge
      else if \<not> utf8_valid input then Inl InvalidUtf8
      else let (raw, trailing) = jt_read j input
           in and_then (visit_value limits 0 0 raw) (\<lambda>(v, _).
                if trailing then Inl InvalidJson else Inr v))"

end
