(* ===== verification/Canonical_Props.thy ===== *)
theory Canonical_Props
  imports Canonical
begin

text \<open>
  What the canonical codec's bounds mean: a value validates exactly when its entry count, its
  nesting and its strings are within the limits, whatever order the checks run in; a parsed value
  validates under the same limits; the counting check and the serializer agree.
\<close>

fun entry_count :: "canonical_value \<Rightarrow> nat"
  and item_count :: "canonical_value list \<Rightarrow> nat"
  and member_count :: "(string \<times> canonical_value) list \<Rightarrow> nat" where
  "entry_count (CArray vs) = item_count vs"
| "entry_count (CObject ms) = member_count ms"
| "entry_count CNull = 0"
| "entry_count (CBool b) = 0"
| "entry_count (CNumber q) = 0"
| "entry_count (CString s) = 0"
| "item_count [] = 0"
| "item_count (v # vs) = Suc (entry_count v + item_count vs)"
| "member_count [] = 0"
| "member_count ((k, v) # ms) = Suc (entry_count v + member_count ms)"

text \<open>The value fits below a container at nesting \<open>depth\<close> when none of its own containers sits at
  or beyond the limit.\<close>

fun depth_ok :: "nat \<Rightarrow> nat \<Rightarrow> canonical_value \<Rightarrow> bool"
  and items_depth_ok :: "nat \<Rightarrow> nat \<Rightarrow> canonical_value list \<Rightarrow> bool"
  and members_depth_ok :: "nat \<Rightarrow> nat \<Rightarrow> (string \<times> canonical_value) list \<Rightarrow> bool" where
  "depth_ok limit depth (CArray vs) = (depth < limit \<and> items_depth_ok limit (depth + 1) vs)"
| "depth_ok limit depth (CObject ms) = (depth < limit \<and> members_depth_ok limit (depth + 1) ms)"
| "depth_ok limit depth CNull = True"
| "depth_ok limit depth (CBool b) = True"
| "depth_ok limit depth (CNumber q) = True"
| "depth_ok limit depth (CString s) = True"
| "items_depth_ok limit depth [] = True"
| "items_depth_ok limit depth (v # vs) = (depth_ok limit depth v \<and> items_depth_ok limit depth vs)"
| "members_depth_ok limit depth [] = True"
| "members_depth_ok limit depth ((k, v) # ms) =
     (depth_ok limit depth v \<and> members_depth_ok limit depth ms)"

fun strings_ok :: "nat \<Rightarrow> canonical_value \<Rightarrow> bool"
  and items_strings_ok :: "nat \<Rightarrow> canonical_value list \<Rightarrow> bool"
  and members_strings_ok :: "nat \<Rightarrow> (string \<times> canonical_value) list \<Rightarrow> bool" where
  "strings_ok limit (CString s) = (length s \<le> limit)"
| "strings_ok limit (CArray vs) = items_strings_ok limit vs"
| "strings_ok limit (CObject ms) = members_strings_ok limit ms"
| "strings_ok limit CNull = True"
| "strings_ok limit (CBool b) = True"
| "strings_ok limit (CNumber q) = True"
| "items_strings_ok limit [] = True"
| "items_strings_ok limit (v # vs) = (strings_ok limit v \<and> items_strings_ok limit vs)"
| "members_strings_ok limit [] = True"
| "members_strings_ok limit ((k, v) # ms) =
     (length k \<le> limit \<and> strings_ok limit v \<and> members_strings_ok limit ms)"

definition input_limits_ok :: "input_limits \<Rightarrow> bool" where
  "input_limits_ok limits = (il_max_entries limits < usize_max)"

lemma input_limits_new_ok: "input_limits_new a b c d = Some limits \<Longrightarrow> input_limits_ok limits"
  by (auto simp: input_limits_new_def input_limits_ok_def hard_max_entries_def usize_max_def
      split: if_splits)

lemma count_entry_ok:
  assumes "input_limits_ok limits"
  shows "count_entry limits n = Inr n' \<longleftrightarrow> n' = Suc n \<and> Suc n \<le> il_max_entries limits"
  using assms
  by (auto simp: count_entry_def Let_def saturating_add_usize_def input_limits_ok_def min_def)

lemma validate_exact:
  assumes ok: "input_limits_ok limits"
  shows "n \<le> il_max_entries limits \<Longrightarrow> (validate_value limits depth n v = Inr n' \<longleftrightarrow>
      n' = n + entry_count v \<and> n' \<le> il_max_entries limits
      \<and> depth_ok (il_max_depth limits) depth v \<and> strings_ok (il_max_string_bytes limits) v)"
    and "n \<le> il_max_entries limits \<Longrightarrow> (validate_items limits depth n vs = Inr n' \<longleftrightarrow>
      n' = n + item_count vs \<and> n' \<le> il_max_entries limits
      \<and> items_depth_ok (il_max_depth limits) depth vs
      \<and> items_strings_ok (il_max_string_bytes limits) vs)"
    and "n \<le> il_max_entries limits \<Longrightarrow> (validate_members limits depth n ms = Inr n' \<longleftrightarrow>
      n' = n + member_count ms \<and> n' \<le> il_max_entries limits
      \<and> members_depth_ok (il_max_depth limits) depth ms
      \<and> members_strings_ok (il_max_string_bytes limits) ms)"
proof (induction v and vs and ms arbitrary: depth n n' and depth n n' and depth n n'
    rule: entry_count_item_count_member_count.induct)
qed (use ok in \<open>auto simp: validate_container_def count_entry_ok\<close>)

subsection \<open>Parsed values\<close>

lemma bt_insert_fresh:
  assumes "map_of m k = None"
  shows "member_count (bt_insert k v m) = Suc (entry_count v + member_count m)"
    and "members_depth_ok limit depth (bt_insert k v m)
           \<longleftrightarrow> depth_ok limit depth v \<and> members_depth_ok limit depth m"
    and "members_strings_ok limit (bt_insert k v m)
           \<longleftrightarrow> length k \<le> limit \<and> strings_ok limit v \<and> members_strings_ok limit m"
  using assms by (induction k v m rule: bt_insert.induct) (auto split: if_splits)

lemma visit_exact:
  shows "input_limits_ok limits \<Longrightarrow> visit_value limits depth n r = Inr (v, n') \<Longrightarrow> n \<le> il_max_entries limits \<Longrightarrow>
      n' = n + entry_count v \<and> n' \<le> il_max_entries limits
      \<and> depth_ok (il_max_depth limits) depth v \<and> strings_ok (il_max_string_bytes limits) v"
    and "input_limits_ok limits \<Longrightarrow> visit_seq limits depth n malformed rs = Inr (vs, n') \<Longrightarrow> n \<le> il_max_entries limits \<Longrightarrow>
      n' = n + item_count vs \<and> n' \<le> il_max_entries limits
      \<and> items_depth_ok (il_max_depth limits) depth vs
      \<and> items_strings_ok (il_max_string_bytes limits) vs"
    and "input_limits_ok limits \<Longrightarrow> visit_map limits depth n malformed acc rms = Inr (ms, n') \<Longrightarrow> n \<le> il_max_entries limits \<Longrightarrow>
      members_depth_ok (il_max_depth limits) depth acc \<Longrightarrow>
      members_strings_ok (il_max_string_bytes limits) acc \<Longrightarrow>
      n' + member_count acc = n + member_count ms \<and> n' \<le> il_max_entries limits
      \<and> members_depth_ok (il_max_depth limits) depth ms
      \<and> members_strings_ok (il_max_string_bytes limits) ms"
proof (induction limits depth n r and limits depth n malformed rs and
    limits depth n malformed acc rms
    arbitrary: v n' and vs n' and ms n' rule: visit_value_visit_seq_visit_map.induct)
  case (11 limits depth n malformed x xs)
  obtain w n1 n2 ws where w: "visit_value limits depth n x = Inr (w, n1)"
    and c: "count_entry limits n1 = Inr n2"
    and ws: "visit_seq limits depth n2 malformed xs = Inr (ws, n')" and vs: "vs = w # ws"
    using 11(4) by auto
  note x = 11(1) [OF 11(3) w 11(5)]
  have n2: "n2 = Suc n1" "n2 \<le> il_max_entries limits" using c count_entry_ok [OF 11(3)] by auto
  show ?case using x n2 11(2) [OF 11(3) ws n2(2)] vs by auto
next
  case (13 limits depth n malformed acc k x rest)
  obtain n1 w n2 where c: "count_entry limits n = Inr n1" and k: "length k \<le> il_max_string_bytes limits"
    and fresh: "map_of acc k = None" and w: "visit_value limits depth n1 x = Inr (w, n2)"
    and r: "visit_map limits depth n2 malformed (bt_insert k w acc) rest = Inr (ms, n')"
    using 13(4) by (auto split: if_splits)
  have n1: "n1 = Suc n" "n1 \<le> il_max_entries limits" using c count_entry_ok [OF 13(3)] by auto
  have g: "\<not> il_max_string_bytes limits < length k" "\<not> map_of acc k \<noteq> None" using k fresh by auto
  note v = 13(1) [OF g 13(3) w n1(2)]
  have n2: "n2 \<le> il_max_entries limits" using v by blast
  show ?case using v n1 k 13(2) [OF g 13(3) r n2] 13(6,7) by (auto simp: bt_insert_fresh [OF fresh])
qed (auto simp: visit_number_def split: if_splits)

lemma visit_value_validates:
  assumes "input_limits_ok limits" and "visit_value limits 0 0 r = Inr (v, n')"
  shows "validate_value limits 0 0 v = Inr n'"
  using visit_exact(1) [OF assms] validate_exact(1) [OF assms(1)] by simp

text \<open>
  A value validates exactly when the entries of all its containers together, the nesting of
  every container and the length of every string and key are within the limits; the count
  returned is the value's own entry count. The order in which the code checks cannot change the
  verdict.
\<close>

theorem validate_value_iff_bounds:
  assumes "input_limits_ok limits"
  shows "validate_value limits 0 0 v = Inr n \<longleftrightarrow>
    n = entry_count v \<and> entry_count v \<le> il_max_entries limits
    \<and> depth_ok (il_max_depth limits) 0 v \<and> strings_ok (il_max_string_bytes limits) v"
  using validate_exact(1) [OF assms, of 0 0 v n] by auto

definition ex_input_limits :: input_limits where
  "ex_input_limits = \<lparr>il_max_bytes = 100, il_max_depth = 2, il_max_entries = 3,
     il_max_string_bytes = 4\<rparr>"

lemma ex_input_limits_ok [simp]: "input_limits_ok ex_input_limits"
  by (simp add: input_limits_ok_def ex_input_limits_def usize_max_def)

theorem validate_value_iff_bounds_witness:
  "validate_value ex_input_limits 0 0 (CArray [CNull, CObject [(''k'', CBool True)]]) = Inr 3"
  by (subst validate_value_iff_bounds [OF ex_input_limits_ok]) (simp add: ex_input_limits_def)

text \<open>
  Whatever document the JSON reader produces, a value the bounded parser accepts passes the
  serializer's validation under the same limits, with every object's keys distinct: parsing never
  lets in a value that could not be written back within the structural bounds.
\<close>

theorem parsed_value_validates:
  assumes "input_limits_ok limits" and "parse_canonical_value j input limits = Inr v"
  shows "\<exists>n. validate_value limits 0 0 v = Inr n \<and> n \<le> il_max_entries limits"
proof -
  obtain n where "visit_value limits 0 0 (fst (jt_read j input)) = Inr (v, n)"
    using assms(2) by (auto simp: parse_canonical_value_def Let_def split: if_splits prod.splits)
  then show ?thesis using visit_value_validates [OF assms(1)] visit_exact(1) [OF assms(1)] by fastforce
qed

definition ex_json :: json_text where
  "ex_json = \<lparr>jt_write = (\<lambda>v. ([[91], [93]], False)), jt_read = (\<lambda>bs. (RArray [RNull] False, False))\<rparr>"

theorem parsed_value_validates_witness:
  "\<exists>n. validate_value ex_input_limits 0 0 (CArray [CNull]) = Inr n \<and> n \<le> 3"
proof -
  have "parse_canonical_value ex_json [91, 93] ex_input_limits = Inr (CArray [CNull])"
    by (simp add: parse_canonical_value_def ex_json_def ex_input_limits_def count_entry_def
        saturating_add_usize_def usize_max_def word_less_nat_alt)
  from parsed_value_validates [OF ex_input_limits_ok this] show ?thesis
    by (simp add: ex_input_limits_def)
qed

lemma writers_agree:
  "cw_written c = length (bw_bytes b) \<Longrightarrow> cw_limit c = bw_limit b \<Longrightarrow> cw_exceeded c = bw_exceeded b \<Longrightarrow>
     fst (counting_write c chunks) = fst (bounded_write b chunks)
     \<and> cw_exceeded (snd (counting_write c chunks)) = bw_exceeded (snd (bounded_write b chunks))"
  by (induction chunks arbitrary: b c) auto

lemma bounded_write_bytes:
  "length (bw_bytes b) \<le> bw_limit b \<Longrightarrow>
     length (bw_bytes (snd (bounded_write b chunks))) \<le> bw_limit b
     \<and> (fst (bounded_write b chunks) \<longrightarrow> bw_bytes (snd (bounded_write b chunks)) = bw_bytes b @ concat chunks)"
proof (induction chunks arbitrary: b)
  case (Cons a chunks)
  then show ?case using Cons.IH [of "b\<lparr>bw_bytes := bw_bytes b @ a\<rparr>"] by auto
qed simp

lemma bounded_write_fits:
  "\<not> bw_exceeded b \<Longrightarrow> length (bw_bytes b) \<le> bw_limit b \<Longrightarrow>
     fst (bounded_write b chunks) \<longleftrightarrow> length (bw_bytes b) + length (concat chunks) \<le> bw_limit b"
proof (induction chunks arbitrary: b)
  case (Cons a chunks)
  then show ?case using Cons.IH [of "b\<lparr>bw_bytes := bw_bytes b @ a\<rparr>"] by auto
qed simp

text \<open>
  The counting check answers exactly as the serializer does, the same error for the same
  value, without keeping the bytes.
\<close>

theorem check_canonical_agrees:
  "check_canonical j v limits = (case to_canonical_bytes j v limits of Inl e \<Rightarrow> Inl e | Inr _ \<Rightarrow> Inr ())"
proof -
  have "fst (counting_write \<lparr>cw_written = 0, cw_limit = l, cw_exceeded = False\<rparr> chunks)
      = fst (bounded_write \<lparr>bw_bytes = [], bw_limit = l, bw_exceeded = False\<rparr> chunks)
    \<and> cw_exceeded (snd (counting_write \<lparr>cw_written = 0, cw_limit = l, cw_exceeded = False\<rparr> chunks))
      = bw_exceeded (snd (bounded_write \<lparr>bw_bytes = [], bw_limit = l, bw_exceeded = False\<rparr> chunks))"
    for l chunks by (rule writers_agree) simp_all
  then show ?thesis
    by (cases "validate_value limits 0 0 v")
      (auto simp: check_canonical_def to_canonical_bytes_def Let_def case_prod_beta)
qed

text \<open>
  Serialization writes within the byte limit: it succeeds exactly when the value validates,
  the canonicalizer does not fail and its chunks together fit the limit, and then the bytes are
  those chunks; a value that does not fit is reported as too large and never truncated.
\<close>

theorem to_canonical_bytes_iff:
  "to_canonical_bytes j v limits = Inr bs \<longleftrightarrow>
     is_ok (validate_value limits 0 0 v) \<and> \<not> snd (jt_write j v)
     \<and> bs = concat (fst (jt_write j v)) \<and> length bs \<le> il_max_bytes limits"
proof -
  let ?w = "\<lparr>bw_bytes = [], bw_limit = il_max_bytes limits, bw_exceeded = False\<rparr>"
  have "fst (bounded_write ?w chunks) \<longleftrightarrow> length (concat chunks) \<le> il_max_bytes limits" for chunks
    using bounded_write_fits [of ?w chunks] by simp
  moreover have "fst (bounded_write ?w chunks) \<Longrightarrow> bw_bytes (snd (bounded_write ?w chunks)) = concat chunks"
    for chunks using bounded_write_bytes [of ?w chunks] by simp
  ultimately show ?thesis
    by (cases "validate_value limits 0 0 v")
      (auto simp: to_canonical_bytes_def Let_def case_prod_beta)
qed

subsection \<open>Round trips\<close>

fun wf_value :: "canonical_value \<Rightarrow> bool"
  and wf_items :: "canonical_value list \<Rightarrow> bool"
  and wf_members :: "(string \<times> canonical_value) list \<Rightarrow> bool" where
  "wf_value (CArray vs) = wf_items vs"
| "wf_value (CObject ms) = (bt_sorted ms \<and> wf_members ms)"
| "wf_value CNull = True"
| "wf_value (CBool b) = True"
| "wf_value (CNumber q) = True"
| "wf_value (CString s) = True"
| "wf_items [] = True"
| "wf_items (v # vs) = (wf_value v \<and> wf_items vs)"
| "wf_members [] = True"
| "wf_members ((k, v) # ms) = (wf_value v \<and> wf_members ms)"

lemma canonical_number_serde: "serde_number_to_canonical (canonical_number_to_serde q) = Inr q"
proof -
  have m: "max_safe_integer \<le> i64_max" by (simp add: max_safe_integer_def i64_max_def)
  consider "q = of_int \<lfloor>q\<rfloor> \<and> 0 \<le> q \<and> q \<le> of_nat max_safe_integer"
    | "\<not> (q = of_int \<lfloor>q\<rfloor> \<and> 0 \<le> q \<and> q \<le> of_nat max_safe_integer)"
      "q = of_int \<lfloor>q\<rfloor> \<and> q < 0 \<and> - of_nat max_safe_integer \<le> q"
    | "\<not> (q = of_int \<lfloor>q\<rfloor> \<and> 0 \<le> q \<and> q \<le> of_nat max_safe_integer)"
      "\<not> (q = of_int \<lfloor>q\<rfloor> \<and> q < 0 \<and> - of_nat max_safe_integer \<le> q)"
    by blast
  then show ?thesis
  proof cases
    case 1
    define i where "i = \<lfloor>q\<rfloor>"
    have q: "q = of_int i" and i: "0 \<le> i" using 1 by (auto simp: i_def)
    have "(of_int i :: rat) \<le> of_int (int max_safe_integer)" using 1 q by simp
    then have le: "nat i \<le> max_safe_integer" by (simp only: of_int_le_iff nat_le_iff)
    have "canonical_number_to_serde q = NumPos (nat i)"
      using 1 by (auto simp: canonical_number_to_serde_def i_def)
    then show ?thesis using le m i by (simp add: q canonical_number_from_i64_def)
  next
    case 2
    define i where "i = \<lfloor>q\<rfloor>"
    have q: "q = of_int i" using 2 by (auto simp: i_def)
    have "(of_int (- int max_safe_integer) :: rat) \<le> of_int i" using 2 q by simp
    then have "- int max_safe_integer \<le> i" by (simp only: of_int_le_iff)
    moreover have "i < 0" using 2 q by simp
    ultimately have le: "nat \<bar>i\<bar> \<le> max_safe_integer" by simp
    have "canonical_number_to_serde q = NumNeg i"
      using 2 by (auto simp: canonical_number_to_serde_def i_def)
    then show ?thesis using le by (simp add: q canonical_number_from_i64_def)
  next
    case 3
    have "canonical_number_to_serde q = NumFloat q"
      by (simp only: canonical_number_to_serde_def if_not_P [OF 3(1)] if_not_P [OF 3(2)])
    then show ?thesis by simp
  qed
qed

lemma to_serde_members_keys: "map fst (to_serde_members ms) = map fst ms"
  by (induction ms) auto

lemma bt_sorted_serde [simp]: "bt_sorted (to_serde_members ms) = bt_sorted ms"
  by (simp add: bt_sorted_def to_serde_members_keys)

lemma serde_round_trip_all:
  shows "wf_value v \<Longrightarrow> from_serde_value (to_serde_value v) = Inr v"
    and "wf_items vs \<Longrightarrow> from_serde_items (to_serde_items vs) = Inr vs"
    and "wf_members ms \<Longrightarrow> from_serde_members (to_serde_members ms) = Inr ms"
  by (induction v and vs and ms rule: entry_count_item_count_member_count.induct)
    (auto simp: canonical_number_serde bt_collect_sorted simp del: serde_number_to_canonical.simps)

lemma visit_bt_sorted:
  shows "visit_value limits depth n r = Inr (v, n') \<Longrightarrow> wf_value v"
    and "visit_seq limits depth n malformed rs = Inr (vs, n') \<Longrightarrow> wf_items vs"
    and "visit_map limits depth n malformed acc rms = Inr (ms, n') \<Longrightarrow>
      bt_sorted acc \<Longrightarrow> wf_members acc \<Longrightarrow> bt_sorted ms \<and> wf_members ms"
proof (induction limits depth n r and limits depth n malformed rs and
    limits depth n malformed acc rms
    arbitrary: v n' and vs n' and ms n' rule: visit_value_visit_seq_visit_map.induct)
  case (13 limits depth n malformed acc k x rest)
  have ins: "wf_value w \<Longrightarrow> wf_members acc \<Longrightarrow> wf_members (bt_insert k w acc)" for w
    by (induction k w acc rule: bt_insert.induct) auto
  obtain w n1 n2 where w: "visit_value limits depth n1 x = Inr (w, n2)"
    and rest: "visit_map limits depth n2 malformed (bt_insert k w acc) rest = Inr (ms, n')"
    and g: "\<not> il_max_string_bytes limits < length k" "\<not> map_of acc k \<noteq> None"
    using 13(3) by (auto split: if_splits)
  show ?case
    by (rule 13(2) [OF g rest bt_insert_sorted [OF 13(4)] ins [OF 13(1) [OF g w] 13(5)]])
qed (auto simp: visit_number_def bt_sorted_def split: if_splits)

text \<open>
  A parsed value survives the conversion to the JSON library's value type and back unchanged,
  integers, fractions and object members included.
\<close>

theorem parsed_value_serde_round_trip:
  assumes "parse_canonical_value j input limits = Inr v"
  shows "from_serde_value (to_serde_value v) = Inr v"
proof -
  obtain n where "visit_value limits 0 0 (fst (jt_read j input)) = Inr (v, n)"
    using assms by (auto simp: parse_canonical_value_def Let_def split: if_splits prod.splits)
  then show ?thesis using visit_bt_sorted(1) serde_round_trip_all(1) by blast
qed

theorem parsed_value_serde_round_trip_witness:
  "from_serde_value (to_serde_value (CArray [CNull])) = Inr (CArray [CNull])"
proof -
  have "parse_canonical_value ex_json [91, 93] ex_input_limits = Inr (CArray [CNull])"
    by (simp add: parse_canonical_value_def ex_json_def ex_input_limits_def count_entry_def
        saturating_add_usize_def usize_max_def word_less_nat_alt)
  then show ?thesis by (rule parsed_value_serde_round_trip)
qed

text \<open>The document a written value reads back as, and the law of a faithful text codec on values
  without numbers and with ASCII strings, which is all the ledger's records hold.\<close>

definition ascii :: "string \<Rightarrow> bool" where
  "ascii s = list_all (\<lambda>c. (of_char c :: nat) < 128) s"

fun plain_value :: "canonical_value \<Rightarrow> bool"
  and plain_items :: "canonical_value list \<Rightarrow> bool"
  and plain_members :: "(string \<times> canonical_value) list \<Rightarrow> bool" where
  "plain_value (CArray vs) = plain_items vs"
| "plain_value (CObject ms) = (bt_sorted ms \<and> plain_members ms)"
| "plain_value CNull = True"
| "plain_value (CBool b) = True"
| "plain_value (CNumber q) = False"
| "plain_value (CString s) = ascii s"
| "plain_items [] = True"
| "plain_items (v # vs) = (plain_value v \<and> plain_items vs)"
| "plain_members [] = True"
| "plain_members ((k, v) # ms) = (ascii k \<and> plain_value v \<and> plain_members ms)"

fun raw_of :: "canonical_value \<Rightarrow> raw_json"
  and raw_items :: "canonical_value list \<Rightarrow> raw_json list"
  and raw_members :: "(string \<times> canonical_value) list \<Rightarrow> (string \<times> raw_json) list" where
  "raw_of CNull = RNull"
| "raw_of (CBool b) = RBool b"
| "raw_of (CNumber q) = RF64 (Finite q)"
| "raw_of (CString s) = RString s"
| "raw_of (CArray vs) = RArray (raw_items vs) False"
| "raw_of (CObject ms) = RObject (raw_members ms) False"
| "raw_items [] = []"
| "raw_items (v # vs) = raw_of v # raw_items vs"
| "raw_members [] = []"
| "raw_members ((k, v) # ms) = (k, raw_of v) # raw_members ms"

definition json_lawful :: "json_text \<Rightarrow> bool" where
  "json_lawful j \<longleftrightarrow> (\<forall>v. plain_value v \<longrightarrow>
     \<not> snd (jt_write j v) \<and> utf8_valid (concat (fst (jt_write j v)))
     \<and> jt_read j (concat (fst (jt_write j v))) = (raw_of v, False))"

lemma visit_raw_of:
  assumes ok: "input_limits_ok limits"
  shows "validate_value limits depth n v = Inr n' \<Longrightarrow> n \<le> il_max_entries limits \<Longrightarrow> wf_value v \<Longrightarrow>
      visit_value limits depth n (raw_of v) = Inr (v, n')"
    and "validate_items limits depth n vs = Inr n' \<Longrightarrow> n \<le> il_max_entries limits \<Longrightarrow> wf_items vs \<Longrightarrow>
      visit_seq limits depth n False (raw_items vs) = Inr (vs, n')"
    and "validate_members limits depth n ms = Inr n' \<Longrightarrow> n \<le> il_max_entries limits \<Longrightarrow>
      wf_members ms \<Longrightarrow> bt_sorted (acc @ ms) \<Longrightarrow>
      visit_map limits depth n False acc (raw_members ms) = Inr (acc @ ms, n')"
proof (induction v and vs and ms arbitrary: depth n n' and depth n n' and depth n n' acc
    rule: entry_count_item_count_member_count.induct)
  case (8 v vs)
  have e: "n' = Suc (n + (entry_count v + item_count vs)) \<and> n' \<le> il_max_entries limits
      \<and> depth_ok (il_max_depth limits) depth v \<and> strings_ok (il_max_string_bytes limits) v
      \<and> items_depth_ok (il_max_depth limits) depth vs
      \<and> items_strings_ok (il_max_string_bytes limits) vs"
    using validate_exact(2) [OF ok 8(4), of depth "v # vs" n'] 8(3) by auto
  have "validate_value limits depth n v = Inr (n + entry_count v)"
    using e validate_exact(1) [OF ok 8(4)] by simp
  moreover have "validate_items limits depth (Suc (n + entry_count v)) vs = Inr n'"
    using e validate_exact(2) [OF ok, of "Suc (n + entry_count v)"] by simp
  ultimately show ?case using 8 e by (simp add: count_entry_ok [OF ok])
next
  case (10 k v ms)
  have fresh: "map_of acc k = None" and ins: "bt_insert k w acc = acc @ [(k, w)]" for w
    using 10(6) by (auto simp: bt_sorted_def sorted_wrt_append map_of_eq_None_iff intro!: bt_insert_snoc)
  have "validate_members limits depth n ((k, v) # ms) = Inr n'" by fact
  then obtain n1 n2 where s: "length k \<le> il_max_string_bytes limits"
      "count_entry limits n = Inr n1" "validate_value limits depth n1 v = Inr n2"
      "validate_members limits depth n2 ms = Inr n'"
    by (auto split: if_splits)
  have "n1 = Suc n" "n1 \<le> il_max_entries limits" using s(2) count_entry_ok [OF ok] by auto
  moreover from this have "n2 \<le> il_max_entries limits" using validate_exact(1) [OF ok] s(3) by blast
  ultimately show ?case using 10 s fresh ins by simp
qed (auto simp: validate_container_def visit_number_def split: if_splits)

end
