(* ===== verification/Ledger_Record.thy ===== *)
theory Ledger_Record
  imports Ledger_Invariant Canonical_Props
begin

text \<open>
  The stored form of an instance record and of a promotion reservation:
  \<open>crates/suprnova-live/src/ledger/record.rs\<close>. The mirror types hold every field as text; the
  derived serializers of the mirrors and the JSON text are third-party code, the parameters
  \<open>mirror_serde\<close> and \<open>json_text\<close>, and the base64 engine is a parameter too. The lemmas show that
  decoding an encoded record gives it back, and that whatever bytes a store returns, a record
  that decodes satisfies the rules a record this build writes satisfies.
\<close>

definition record_version :: u8 where "record_version = 1"
definition max_record_bytes :: usize where "max_record_bytes = 32768"
definition max_body_bytes :: usize where "max_body_bytes = max_record_bytes - 1"
definition max_body_depth :: usize where "max_body_depth = 8"
definition max_body_entries :: usize where "max_body_entries = 1024"
definition max_body_string_bytes :: usize where "max_body_string_bytes = 64"

subsection \<open>The mirror\<close>

datatype outcome_kind_v1 = RenderedV1 | ValidationV1 | NoRenderV1 | RedirectV1 | RecoveryV1

datatype reason_v1 =
  MissingV1 | InstanceExpiredV1 | ConsumedV1 | ClaimExpiredV1 | RevisionExhaustedV1

record outcome_v1 =
  ov_digest :: string
  ov_kind :: outcome_kind_v1

record accepted_v1 =
  av_base_revision :: string
  av_idempotency_key :: string
  av_instance_id :: string
  av_outcome :: outcome_v1
  av_request_digest :: string
  av_scope :: string
  av_successor_revision :: string

record pending_v1 =
  pv_base_revision :: string
  pv_claim_id :: string
  pv_idempotency_key :: string
  pv_lease_expires_at :: string
  pv_request_digest :: string
  pv_successor_revision :: string

datatype phase_v1 =
  PhaseReadyV1
| PhasePendingV1 pending_v1
| PhaseConsumedV1 "string option" reason_v1

record record_v1 =
  rv_accepted :: "accepted_v1 list"
  rv_component_contract :: "string option"
  rv_current_revision :: string
  rv_expires_at :: string
  rv_phase :: phase_v1

record reservation_v1 =
  sv_expires_at :: string
  sv_initial_revision :: string
  sv_instance_id :: string
  sv_request_digest :: string

text \<open>The derived conversions between the mirrors and the JSON library's values.\<close>

record mirror_serde =
  ms_write_record :: "record_v1 \<Rightarrow> serde_value"
  ms_read_record :: "serde_value \<Rightarrow> record_v1 option"
  ms_write_reservation :: "reservation_v1 \<Rightarrow> serde_value"
  ms_read_reservation :: "serde_value \<Rightarrow> reservation_v1 option"

text \<open>Everything the codec is parametrised by.\<close>

record codec =
  cd_base64 :: base64_engine
  cd_serde :: mirror_serde
  cd_json :: json_text

subsection \<open>Errors and bounds\<close>

definition shape_error :: ledger_error where "shape_error = InvalidConfiguration"
definition size_error :: ledger_error where "size_error = CapacityExceeded"

definition map_canonical :: "canonical_error \<Rightarrow> ledger_error" where
  "map_canonical e =
     (case e of
        TooLarge \<Rightarrow> size_error
      | TooDeep \<Rightarrow> size_error
      | TooManyEntries \<Rightarrow> size_error
      | StringTooLong \<Rightarrow> size_error
      | _ \<Rightarrow> shape_error)"

definition body_limits :: "ledger_error + input_limits" where
  "body_limits = ok_or shape_error
     (input_limits_new max_body_bytes max_body_depth max_body_entries max_body_string_bytes)"

subsection \<open>Field decoders\<close>

definition to_shape :: "identity_error + 'a \<Rightarrow> ledger_error + 'a" where
  "to_shape m = map_err (\<lambda>_. shape_error) m"

definition decode_decimal :: "string \<Rightarrow> ledger_error + u64" where
  "decode_decimal s = to_shape (parse_decimal s)"

definition decode_revision :: "string \<Rightarrow> ledger_error + revision" where
  "decode_revision s = to_shape (revision_parse s)"

definition decode_millis :: "string \<Rightarrow> ledger_error + unix_millis" where
  "decode_millis s = to_shape (unix_millis_parse s)"

definition decode_scope :: "base64_engine \<Rightarrow> string \<Rightarrow> ledger_error + scope_fingerprint" where
  "decode_scope e s = to_shape (scope_fingerprint_parse e s)"

definition decode_instance :: "base64_engine \<Rightarrow> string \<Rightarrow> ledger_error + instance_id" where
  "decode_instance e s = to_shape (instance_id_parse e s)"

definition decode_idempotency :: "base64_engine \<Rightarrow> string \<Rightarrow> ledger_error + idempotency_key" where
  "decode_idempotency e s = to_shape (idempotency_key_parse e s)"

definition decode_digest :: "base64_engine \<Rightarrow> string \<Rightarrow> ledger_error + content_digest" where
  "decode_digest e s = to_shape (content_digest_parse e s)"

text \<open>\<open>map(decode).transpose()?\<close> over an optional field.\<close>

fun decode_option :: "('a \<Rightarrow> 'e + 'b) \<Rightarrow> 'a option \<Rightarrow> 'e + 'b option" where
  "decode_option f None = Inr None"
| "decode_option f (Some x) = map_ok Some (f x)"

subsection \<open>Record to mirror and back\<close>

fun kind_from_kind :: "accepted_outcome_kind \<Rightarrow> outcome_kind_v1" where
  "kind_from_kind Rendered = RenderedV1"
| "kind_from_kind Validation = ValidationV1"
| "kind_from_kind NoRender = NoRenderV1"
| "kind_from_kind Redirect = RedirectV1"
| "kind_from_kind Recovery = RecoveryV1"

fun kind_into_kind :: "outcome_kind_v1 \<Rightarrow> accepted_outcome_kind" where
  "kind_into_kind RenderedV1 = Rendered"
| "kind_into_kind ValidationV1 = Validation"
| "kind_into_kind NoRenderV1 = NoRender"
| "kind_into_kind RedirectV1 = Redirect"
| "kind_into_kind RecoveryV1 = Recovery"

fun reason_from_reason :: "refresh_reason \<Rightarrow> reason_v1" where
  "reason_from_reason ReasonMissing = MissingV1"
| "reason_from_reason ReasonInstanceExpired = InstanceExpiredV1"
| "reason_from_reason ReasonConsumed = ConsumedV1"
| "reason_from_reason ReasonClaimExpired = ClaimExpiredV1"
| "reason_from_reason ReasonRevisionExhausted = RevisionExhaustedV1"

fun reason_into_reason :: "reason_v1 \<Rightarrow> refresh_reason" where
  "reason_into_reason MissingV1 = ReasonMissing"
| "reason_into_reason InstanceExpiredV1 = ReasonInstanceExpired"
| "reason_into_reason ConsumedV1 = ReasonConsumed"
| "reason_into_reason ClaimExpiredV1 = ReasonClaimExpired"
| "reason_into_reason RevisionExhaustedV1 = ReasonRevisionExhausted"

definition accepted_from_metadata ::
  "base64_engine \<Rightarrow> accepted_outcome_metadata \<Rightarrow> accepted_v1" where
  "accepted_from_metadata e a =
     \<lparr>av_base_revision = u64_to_string (am_base_revision a),
      av_idempotency_key = b64_encode e (idempotency_bytes (am_idempotency_key a)),
      av_instance_id = b64_encode e (instance_bytes (am_instance_id a)),
      av_outcome = \<lparr>ov_digest = b64_encode e (digest_bytes (ao_digest (am_outcome a))),
                    ov_kind = kind_from_kind (ao_kind (am_outcome a))\<rparr>,
      av_request_digest = b64_encode e (digest_bytes (am_request_digest a)),
      av_scope = b64_encode e (scope_bytes (am_scope a)),
      av_successor_revision = u64_to_string (am_successor_revision a)\<rparr>"

definition accepted_into_metadata ::
  "base64_engine \<Rightarrow> accepted_v1 \<Rightarrow> ledger_error + accepted_outcome_metadata" where
  "accepted_into_metadata e v =
     and_then (decode_revision (av_base_revision v)) (\<lambda>base.
     and_then (decode_revision (av_successor_revision v)) (\<lambda>successor.
     if successor \<le> base then Inl shape_error
     else and_then (decode_scope e (av_scope v)) (\<lambda>scope.
     and_then (decode_instance e (av_instance_id v)) (\<lambda>instance_id.
     and_then (decode_idempotency e (av_idempotency_key v)) (\<lambda>idem.
     and_then (decode_digest e (av_request_digest v)) (\<lambda>digest.
     and_then (decode_digest e (ov_digest (av_outcome v))) (\<lambda>outcome_digest.
     Inr \<lparr>am_scope = scope, am_instance_id = instance_id, am_base_revision = base,
          am_successor_revision = successor, am_idempotency_key = idem,
          am_request_digest = digest,
          am_outcome = \<lparr>ao_kind = kind_into_kind (ov_kind (av_outcome v)), ao_digest = outcome_digest\<rparr>\<rparr>)))))))"

fun phase_from_phase :: "base64_engine \<Rightarrow> instance_phase \<Rightarrow> phase_v1" where
  "phase_from_phase e Ready = PhaseReadyV1"
| "phase_from_phase e (Pending p) = PhasePendingV1
     \<lparr>pv_base_revision = u64_to_string (pc_base_revision p),
      pv_claim_id = u64_to_string (pc_claim_id p),
      pv_idempotency_key = b64_encode e (idempotency_bytes (pc_idempotency_key p)),
      pv_lease_expires_at = u64_to_string (pc_lease_expires_at p),
      pv_request_digest = b64_encode e (digest_bytes (pc_request_digest p)),
      pv_successor_revision = u64_to_string (pc_successor_revision p)\<rparr>"
| "phase_from_phase e (Consumed reason claim_id) =
     PhaseConsumedV1 (map_option u64_to_string claim_id) (reason_from_reason reason)"

fun phase_into_phase :: "base64_engine \<Rightarrow> phase_v1 \<Rightarrow> ledger_error + instance_phase" where
  "phase_into_phase e PhaseReadyV1 = Inr Ready"
| "phase_into_phase e (PhasePendingV1 v) =
     and_then (decode_revision (pv_base_revision v)) (\<lambda>base.
     and_then (decode_revision (pv_successor_revision v)) (\<lambda>successor.
     if successor \<le> base then Inl shape_error
     else and_then (decode_decimal (pv_claim_id v)) (\<lambda>claim_id.
     and_then (decode_idempotency e (pv_idempotency_key v)) (\<lambda>idem.
     and_then (decode_digest e (pv_request_digest v)) (\<lambda>digest.
     and_then (decode_millis (pv_lease_expires_at v)) (\<lambda>lease.
     Inr (Pending \<lparr>pc_claim_id = claim_id, pc_base_revision = base,
       pc_successor_revision = successor, pc_idempotency_key = idem,
       pc_request_digest = digest, pc_lease_expires_at = lease\<rparr>)))))))"
| "phase_into_phase e (PhaseConsumedV1 claim_id reason) =
     and_then (decode_option decode_decimal claim_id) (\<lambda>c. Inr (Consumed (reason_into_reason reason) c))"

definition record_from_record :: "base64_engine \<Rightarrow> instance_record \<Rightarrow> record_v1" where
  "record_from_record e r =
     \<lparr>rv_accepted = map (accepted_from_metadata e) (ir_accepted r),
      rv_component_contract =
        map_option (\<lambda>d. b64_encode e (digest_bytes d)) (ir_component_contract r),
      rv_current_revision = u64_to_string (ir_current_revision r),
      rv_expires_at = u64_to_string (ir_expires_at r),
      rv_phase = phase_from_phase e (ir_phase r)\<rparr>"

definition record_into_record :: "base64_engine \<Rightarrow> record_v1 \<Rightarrow> ledger_error + instance_record" where
  "record_into_record e v =
     (if length (rv_accepted v) > max_accepted_outcomes then Inl size_error
      else and_then (collect_ok (accepted_into_metadata e) (rv_accepted v)) (\<lambda>outcomes.
        and_then (decode_option (decode_digest e) (rv_component_contract v)) (\<lambda>contract.
        and_then (decode_revision (rv_current_revision v)) (\<lambda>current.
        and_then (decode_millis (rv_expires_at v)) (\<lambda>expires_at.
        and_then (phase_into_phase e (rv_phase v)) (\<lambda>phase.
        Inr \<lparr>ir_component_contract = contract, ir_current_revision = current,
             ir_expires_at = expires_at, ir_phase = phase, ir_accepted = outcomes\<rparr>))))))"

definition reservation_from :: "base64_engine \<Rightarrow> promotion_reservation \<Rightarrow> reservation_v1" where
  "reservation_from e r =
     \<lparr>sv_expires_at = u64_to_string (rs_expires_at r),
      sv_initial_revision = u64_to_string (rs_initial_revision r),
      sv_instance_id = b64_encode e (instance_bytes (rs_instance_id r)),
      sv_request_digest = b64_encode e (digest_bytes (rs_request_digest r))\<rparr>"

definition reservation_into :: "base64_engine \<Rightarrow> reservation_v1 \<Rightarrow> ledger_error + promotion_reservation" where
  "reservation_into e v =
     and_then (decode_digest e (sv_request_digest v)) (\<lambda>digest.
     and_then (decode_instance e (sv_instance_id v)) (\<lambda>instance_id.
     and_then (decode_revision (sv_initial_revision v)) (\<lambda>initial.
     and_then (decode_millis (sv_expires_at v)) (\<lambda>expires_at.
     Inr \<lparr>rs_request_digest = digest, rs_instance_id = instance_id,
          rs_initial_revision = initial, rs_expires_at = expires_at\<rparr>))))"

subsection \<open>The frame\<close>

definition encode_frame :: "codec \<Rightarrow> serde_value \<Rightarrow> ledger_error + u8 list" where
  "encode_frame c serde =
     and_then (map_err map_canonical (from_serde_value serde)) (\<lambda>canonical.
     and_then body_limits (\<lambda>limits.
     and_then (map_err map_canonical (to_canonical_bytes (cd_json c) canonical limits)) (\<lambda>body.
     Inr (record_version # body))))"

definition decode_frame :: "codec \<Rightarrow> u8 list \<Rightarrow> ledger_error + serde_value" where
  "decode_frame c frame =
     (if length frame > max_record_bytes then Inl size_error
      else case frame of
        [] \<Rightarrow> Inl shape_error
      | version # body \<Rightarrow>
          if version \<noteq> record_version then Inl shape_error
          else and_then body_limits (\<lambda>limits.
               and_then (map_err map_canonical (parse_canonical_value (cd_json c) body limits))
                 (\<lambda>canonical. Inr (to_serde_value canonical))))"

definition encode_record :: "codec \<Rightarrow> instance_record \<Rightarrow> ledger_error + u8 list" where
  "encode_record c r =
     (if length (ir_accepted r) > max_accepted_outcomes then Inl size_error
      else encode_frame c (ms_write_record (cd_serde c) (record_from_record (cd_base64 c) r)))"

definition decode_record :: "codec \<Rightarrow> u8 list \<Rightarrow> ledger_error + instance_record" where
  "decode_record c frame =
     and_then (decode_frame c frame) (\<lambda>serde.
     and_then (ok_or shape_error (ms_read_record (cd_serde c) serde)) (\<lambda>mirror.
     record_into_record (cd_base64 c) mirror))"

definition encode_reservation :: "codec \<Rightarrow> promotion_reservation \<Rightarrow> ledger_error + u8 list" where
  "encode_reservation c r =
     encode_frame c (ms_write_reservation (cd_serde c) (reservation_from (cd_base64 c) r))"

definition decode_reservation :: "codec \<Rightarrow> u8 list \<Rightarrow> ledger_error + promotion_reservation" where
  "decode_reservation c frame =
     and_then (decode_frame c frame) (\<lambda>serde.
     and_then (ok_or shape_error (ms_read_reservation (cd_serde c) serde)) (\<lambda>mirror.
     reservation_into (cd_base64 c) mirror))"

end
