(* ===== verification/Json_Instance.thy ===== *)
theory Json_Instance
  imports Canonical_Props
begin

text \<open>
  A concrete text codec satisfying \<open>json_lawful\<close>: a tagged, terminated encoding of values as
  bytes below 128. It stands in for the JSON library only where a statement about any lawful
  codec is instantiated.
\<close>

fun tag_string :: "string \<Rightarrow> u8 list" where
  "tag_string [] = [0]"
| "tag_string (c # cs) = 1 # of_char c # tag_string cs"

fun tag_value :: "canonical_value \<Rightarrow> u8 list"
  and tag_items :: "canonical_value list \<Rightarrow> u8 list"
  and tag_members :: "(string \<times> canonical_value) list \<Rightarrow> u8 list" where
  "tag_value CNull = [0]"
| "tag_value (CBool b) = [1, if b then 1 else 0]"
| "tag_value (CNumber q) = [2]"
| "tag_value (CString s) = 3 # tag_string s"
| "tag_value (CArray vs) = 4 # tag_items vs"
| "tag_value (CObject ms) = 5 # tag_members ms"
| "tag_items [] = [0]"
| "tag_items (v # vs) = 1 # tag_value v @ tag_items vs"
| "tag_members [] = [0]"
| "tag_members ((k, v) # ms) = 1 # tag_string k @ tag_value v @ tag_members ms"

fun untag_string :: "u8 list \<Rightarrow> (string \<times> u8 list) option" where
  "untag_string [] = None"
| "untag_string (a # bs) =
     (if a = 0 then Some ([], bs)
      else case bs of [] \<Rightarrow> None
           | b # cs \<Rightarrow> (case untag_string cs of None \<Rightarrow> None
                      | Some (s, rest) \<Rightarrow> Some (char_of (unat b) # s, rest)))"

fun untag_value :: "nat \<Rightarrow> u8 list \<Rightarrow> (raw_json \<times> u8 list) option"
  and untag_items :: "nat \<Rightarrow> u8 list \<Rightarrow> (raw_json list \<times> u8 list) option"
  and untag_members :: "nat \<Rightarrow> u8 list \<Rightarrow> ((string \<times> raw_json) list \<times> u8 list) option" where
  "untag_value 0 bs = None"
| "untag_value (Suc f) [] = None"
| "untag_value (Suc f) (a # bs) =
     (if a = 0 then Some (RNull, bs)
      else if a = 1 then (case bs of [] \<Rightarrow> None | b # cs \<Rightarrow> Some (RBool (b = 1), cs))
      else if a = 3 then map_option (\<lambda>(s, rest). (RString s, rest)) (untag_string bs)
      else if a = 4 then map_option (\<lambda>(vs, rest). (RArray vs False, rest)) (untag_items f bs)
      else if a = 5 then map_option (\<lambda>(ms, rest). (RObject ms False, rest)) (untag_members f bs)
      else None)"
| "untag_items 0 bs = None"
| "untag_items (Suc f) [] = None"
| "untag_items (Suc f) (a # bs) =
     (if a = 0 then Some ([], bs)
      else case untag_value f bs of None \<Rightarrow> None
           | Some (v, cs) \<Rightarrow> map_option (\<lambda>(vs, rest). (v # vs, rest)) (untag_items f cs))"
| "untag_members 0 bs = None"
| "untag_members (Suc f) [] = None"
| "untag_members (Suc f) (a # bs) =
     (if a = 0 then Some ([], bs)
      else case untag_string bs of None \<Rightarrow> None
           | Some (k, cs) \<Rightarrow>
               (case untag_value f cs of None \<Rightarrow> None
                | Some (v, ds) \<Rightarrow> map_option (\<lambda>(ms, rest). ((k, v) # ms, rest)) (untag_members f ds)))"

lemma unat_of_char [simp]: "unat (of_char c :: u8) = of_char c"
proof -
  have "(of_char c :: nat) mod 256 < 256" by (rule mod_less_divisor) simp
  then have lt: "(of_char c :: nat) < 256" by simp
  have "(of_char c :: u8) = of_nat (of_char c)" by (simp only: of_nat_of_char)
  then have "unat (of_char c :: u8) = take_bit 8 (of_char c :: nat)"
    by (simp only: unsigned_of_nat) simp
  then show ?thesis using lt by (simp add: take_bit_eq_mod)
qed

lemma untag_string [simp]: "untag_string (tag_string s @ rest) = Some (s, rest)"
  by (induction s) simp_all

lemma untag_exact:
  shows "plain_value v \<Longrightarrow> length (tag_value v) \<le> f \<Longrightarrow>
      untag_value f (tag_value v @ rest) = Some (raw_of v, rest)"
    and "plain_items vs \<Longrightarrow> length (tag_items vs) \<le> f \<Longrightarrow>
      untag_items f (tag_items vs @ rest) = Some (raw_items vs, rest)"
    and "plain_members ms \<Longrightarrow> length (tag_members ms) \<le> f \<Longrightarrow>
      untag_members f (tag_members ms @ rest) = Some (raw_members ms, rest)"
proof (induction v and vs and ms arbitrary: f rest and f rest and f rest
    rule: entry_count_item_count_member_count.induct)
  case (8 v vs)
  then show ?case by (cases f) simp_all
next
  case (10 k v ms)
  then show ?case by (cases f) simp_all
qed (simp_all, (case_tac f, simp_all)+)

lemma utf8_valid_ascii: "list_all (\<lambda>b. b < 128) bs \<Longrightarrow> utf8_valid bs"
  by (induction bs) auto

lemma of_char_ascii: "(of_char c :: nat) < 128 \<Longrightarrow> (of_char c :: u8) < 128"
  by (simp add: word_less_nat_alt)

lemma tag_string_ascii: "ascii s \<Longrightarrow> list_all (\<lambda>b. b < 128) (tag_string s)"
  by (induction s) (auto simp: ascii_def of_char_ascii)

lemma tag_ascii:
  shows "plain_value v \<Longrightarrow> list_all (\<lambda>b. b < 128) (tag_value v)"
    and "plain_items vs \<Longrightarrow> list_all (\<lambda>b. b < 128) (tag_items vs)"
    and "plain_members ms \<Longrightarrow> list_all (\<lambda>b. b < 128) (tag_members ms)"
  by (induction v and vs and ms rule: entry_count_item_count_member_count.induct)
    (auto simp: tag_string_ascii)

definition tagged_json :: json_text where
  "tagged_json =
     \<lparr>jt_write = (\<lambda>v. ([tag_value v], False)),
      jt_read = (\<lambda>bs. case untag_value (length bs) bs of
                        None \<Rightarrow> (RInvalid, False)
                      | Some (r, rest) \<Rightarrow> (r, rest \<noteq> []))\<rparr>"

lemma tagged_json_lawful: "json_lawful tagged_json"
proof (unfold json_lawful_def, intro allI impI)
  fix v
  assume v: "plain_value v"
  have "untag_value (length (tag_value v)) (tag_value v) = Some (raw_of v, [])"
    using untag_exact(1) [OF v, of "length (tag_value v)" "[]"] by simp
  then show "\<not> snd (jt_write tagged_json v)
    \<and> utf8_valid (concat (fst (jt_write tagged_json v)))
    \<and> jt_read tagged_json (concat (fst (jt_write tagged_json v))) = (raw_of v, False)"
    using tag_ascii(1) [OF v] by (simp add: tagged_json_def utf8_valid_ascii)
qed

end
