(* ===== verification/Identity_Props.thy ===== *)
theory Identity_Props
  imports Identity
begin

text \<open>
  A concrete unpadded base64url engine (the alphabet of RFC 4648, section 5), proved to satisfy
  \<open>base64_lawful\<close>. The crate the repository uses is not part of it, so the model takes the engine
  as a parameter; this instance shows that the hypothesis on it can hold and lets witnesses
  compute with a real encoding. It models no code of the repository.
\<close>

subsection \<open>Fixed-width bit lists\<close>

fun nat_bits :: "nat \<Rightarrow> nat \<Rightarrow> bool list" where
  "nat_bits 0 n = []"
| "nat_bits (Suc k) n = nat_bits k (n div 2) @ [odd n]"

definition bits_nat :: "bool list \<Rightarrow> nat" where
  "bits_nat bs = foldl (\<lambda>a b. 2 * a + of_bool b) 0 bs"

lemma length_nat_bits [simp]: "length (nat_bits k n) = k"
  by (induction k arbitrary: n) auto

lemma bits_nat_snoc [simp]: "bits_nat (bs @ [b]) = 2 * bits_nat bs + of_bool b"
  by (simp add: bits_nat_def)

lemma bits_nat_nil [simp]: "bits_nat [] = 0"
  by (simp add: bits_nat_def)

lemma bits_nat_nat_bits [simp]: "n < 2 ^ k \<Longrightarrow> bits_nat (nat_bits k n) = n"
proof (induction k arbitrary: n)
  case (Suc k)
  then have "bits_nat (nat_bits k (n div 2)) = n div 2" by simp
  then show ?case by (cases "odd n") (auto elim!: oddE evenE)
qed simp

lemma nat_bits_bits_nat [simp]: "nat_bits (length bs) (bits_nat bs) = bs"
  by (induction bs rule: rev_induct) auto

lemma bits_nat_less: "bits_nat bs < 2 ^ length bs"
  by (induction bs rule: rev_induct) auto

subsection \<open>Cutting a bit list into groups\<close>

fun groups :: "nat \<Rightarrow> nat \<Rightarrow> bool list \<Rightarrow> bool list list" where
  "groups k 0 bs = []"
| "groups k (Suc m) bs = take k (bs @ replicate k False) # groups k m (drop k bs)"

lemma groups_length [simp]: "length (groups k m bs) = m"
  by (induction m arbitrary: bs) auto

lemma groups_concat:
  "length bs \<le> k * m \<Longrightarrow>
   concat (groups k m bs) = bs @ replicate (k * m - length bs) False"
proof (induction m arbitrary: bs)
  case (Suc m)
  show ?case
  proof (cases "length bs \<le> k")
    case True
    then have "concat (groups k m (drop k bs)) = replicate (k * m) False"
      using Suc.IH [of "[]"] by simp
    moreover have "take k (bs @ replicate k False) = bs @ replicate (k - length bs) False"
      using True by simp
    ultimately show ?thesis using True by (simp flip: replicate_add)
  next
    case False
    then have "length (drop k bs) \<le> k * m" using Suc.prems by simp
    then have "concat (groups k m (drop k bs))
        = drop k bs @ replicate (k * m - length (drop k bs)) False" by (rule Suc.IH)
    then show ?thesis using False by (simp add: diff_add_eq_diff_diff_swap [symmetric] flip: append_assoc)
  qed
qed simp

lemma groups_all_length: "list_all (\<lambda>g. length g = k) (groups k m bs)"
  by (induction m arbitrary: bs) auto

lemma groups_of_concat:
  "list_all (\<lambda>g. length g = k) gs \<Longrightarrow> groups k (length gs) (concat gs) = gs"
  by (induction gs) auto

subsection \<open>The engine\<close>

definition b64_alphabet :: string where
  "b64_alphabet = ''ABCDEFGHIJKLMNOPQRSTUVWXYZabcdefghijklmnopqrstuvwxyz0123456789-_''"

definition b64_index :: "char \<Rightarrow> nat option" where
  "b64_index c = map_of (zip b64_alphabet [0..<64]) c"

definition byte_bits :: "u8 \<Rightarrow> bool list" where
  "byte_bits w = nat_bits 8 (unat w)"

definition bits_byte :: "bool list \<Rightarrow> u8" where
  "bits_byte bs = of_nat (bits_nat bs)"

definition url_safe_encode :: "u8 list \<Rightarrow> string" where
  "url_safe_encode bs =
     map (\<lambda>g. b64_alphabet ! bits_nat g)
       (groups 6 (div_ceil (length bs * 8) 6) (concat (map byte_bits bs)))"

fun all_some :: "'a option list \<Rightarrow> 'a list option" where
  "all_some [] = Some []"
| "all_some (None # xs) = None"
| "all_some (Some x # xs) = map_option ((#) x) (all_some xs)"

definition url_safe_decode :: "string \<Rightarrow> u8 list option" where
  "url_safe_decode s =
     map_option (\<lambda>ns. let bits = concat (map (nat_bits 6) ns)
                      in map bits_byte (groups 8 (length bits div 8) bits))
       (all_some (map b64_index s))"

definition url_safe_no_pad :: base64_engine where
  "url_safe_no_pad = \<lparr>b64_encode = url_safe_encode, b64_decode = url_safe_decode\<rparr>"

lemma b64_index_nth: "n < 64 \<Longrightarrow> b64_index (b64_alphabet ! n) = Some n"
proof -
  have "list_all (\<lambda>n. b64_index (b64_alphabet ! n) = Some n) [0..<64]"
    unfolding b64_index_def by code_simp
  then show "n < 64 \<Longrightarrow> ?thesis" by (simp add: list_all_iff)
qed

lemma b64_no_pad: "n < 64 \<Longrightarrow> b64_alphabet ! n \<noteq> CHR ''=''"
  using b64_index_nth [of n] by (auto simp: b64_index_def b64_alphabet_def upt_conv_Cons)

lemma all_some_map: "(\<And>x. x \<in> set xs \<Longrightarrow> f x = Some (g x)) \<Longrightarrow> all_some (map f xs) = Some (map g xs)"
  by (induction xs) auto

lemma bits_byte_bits [simp]: "bits_byte (byte_bits w) = w"
proof -
  have "unat w < 2 ^ LENGTH(8)" by (rule unsigned_less)
  then have "unat w < 2 ^ 8" by simp
  then show ?thesis by (simp add: bits_byte_def byte_bits_def)
qed

lemma length_byte_bits [simp]: "length (byte_bits w) = 8"
  by (simp add: byte_bits_def)

lemma length_concat_byte_bits [simp]: "length (concat (map byte_bits bs)) = 8 * length bs"
  by (induction bs) auto

lemma url_safe_groups: "g \<in> set (groups 6 m bs) \<Longrightarrow> bits_nat g < 64"
  using groups_all_length [of 6 m bs] bits_nat_less [of g] by (auto simp: list_all_iff)

lemma url_safe_decode_encode: "url_safe_decode (url_safe_encode bs) = Some bs"
proof -
  let ?m = "div_ceil (length bs * 8) 6"
  let ?bits = "concat (map byte_bits bs)"
  let ?gs = "groups 6 ?m ?bits"
  have idx: "all_some (map b64_index (url_safe_encode bs)) = Some (map bits_nat ?gs)"
    unfolding url_safe_encode_def map_map
    by (rule all_some_map) (auto dest: url_safe_groups simp: b64_index_nth)
  have inv6: "map (nat_bits 6) (map bits_nat ?gs) = ?gs"
    unfolding map_map
  proof (rule map_idI)
    fix g
    assume "g \<in> set ?gs"
    then have "length g = 6" using groups_all_length [of 6 ?m ?bits] by (auto simp: list_all_iff)
    then show "(nat_bits 6 \<circ> bits_nat) g = g" using nat_bits_bits_nat [of g] by simp
  qed
  have len: "length ?bits \<le> 6 * ?m" by (simp add: div_ceil_def)
  have cat: "concat ?gs = ?bits @ replicate (6 * ?m - 8 * length bs) False"
    using groups_concat [OF len] by simp
  have "length (concat ?gs) div 8 = length bs"
    using len unfolding cat by (simp add: div_ceil_def)
  moreover have "groups 8 (length bs) (?bits @ xs) = map byte_bits bs" for xs
    by (induction bs) auto
  moreover have "map bits_byte (map byte_bits bs) = bs" by (induction bs) auto
  ultimately show ?thesis
    by (simp add: url_safe_decode_def idx inv6 Let_def cat comp_def del: map_map)
qed

lemma url_safe_no_pad_lawful: "base64_lawful url_safe_no_pad"
  by (auto simp: base64_lawful_def url_safe_no_pad_def url_safe_decode_encode)
     (auto simp: url_safe_encode_def dest!: url_safe_groups b64_no_pad)

text \<open>
  What the identity parsers guarantee their callers: one accepted spelling per number and per byte
  string, and view names that stay inside the template root.
\<close>

text \<open>How a template loader walks a relative path: a stack of names, never below the root.\<close>

fun walk :: "string list \<Rightarrow> string list \<Rightarrow> string list option" where
  "walk stack [] = Some (rev stack)"
| "walk stack (s # rest) =
     (if s = [] then walk [] rest
      else if s = ''.'' then walk stack rest
      else if s = ''..'' then (case stack of [] \<Rightarrow> None | _ # up \<Rightarrow> walk up rest)
      else walk (s # stack) rest)"

lemma walk_plain:
  "list_all (\<lambda>s. s \<noteq> [] \<and> s \<noteq> ''.'' \<and> s \<noteq> ''..'') ss \<Longrightarrow> walk stack ss = Some (rev stack @ ss)"
  by (induction ss arbitrary: stack) auto

text \<open>
  A decimal identity has exactly one accepted spelling, the one the server prints: no sign, no
  leading zero, nothing out of range, so a revision can be compared as text or as a number.
\<close>

theorem decimal_spelling_unique: "parse_decimal s = Inr v \<longleftrightarrow> s = u64_to_string v"
  using u64_to_string_parse by auto

text \<open>
  A binary identity is accepted exactly in the canonical encoding of its bytes, within its
  length bounds, under any base64 engine that reads back what it writes: two texts never name the
  same identity.
\<close>

theorem binary_spelling_unique:
  assumes "base64_lawful e"
  shows "parse_binary_identity e s lo hi = Inr bs \<longleftrightarrow>
    s = b64_encode e bs \<and> lo \<le> length bs \<and> length bs \<le> hi"
  using parse_binary_canonical parse_binary_encode [OF assms] by blast

theorem binary_spelling_unique_witness:
  "parse_binary_identity url_safe_no_pad (b64_encode url_safe_no_pad (replicate 16 9)) 16 32
     = Inr (replicate 16 9)"
  using binary_spelling_unique [OF url_safe_no_pad_lawful] by simp

text \<open>
  Walking an accepted view name from the template root visits exactly its own segments: it is
  relative, holds no empty, dot or dot-dot segment, and so never leaves the root; the parser hands
  the text on unchanged and never accepts more than 256 bytes.
\<close>

theorem view_name_stays_inside_root:
  assumes "view_name_parse value = Inr name"
  shows "name = value \<and> walk [] (split_on (CHR ''/'') name) = Some (split_on (CHR ''/'') name)
    \<and> hd name \<noteq> CHR ''/'' \<and> length name \<le> 256 \<and> list_all text_identity_byte name"
  using assms
  by (auto simp: view_name_parse_def parse_text_identity_def walk_plain split: if_splits)

theorem view_name_stays_inside_root_witness:
  "walk [] (split_on (CHR ''/'') ''a/b'') = Some [''a'', ''b'']"
proof -
  have "view_name_parse ''a/b'' = Inr ''a/b''" by code_simp
  from view_name_stays_inside_root [OF this] show ?thesis by simp
qed

end
