(* ===== verification/Ledger_Record_Props.thy ===== *)
theory Ledger_Record_Props
  imports Ledger_Record Json_Instance Identity_Props
begin

text \<open>
  Round trips and validation of the record codec. \<open>codec_lawful\<close> collects what the third-party
  parts are relied on for: base64 and the derived serializers read back what they write, and the
  JSON text of a value without numbers reads back as that value. \<open>plain_codec\<close> is a concrete
  codec satisfying it.
\<close>

fun metadata_ok :: "accepted_outcome_metadata \<Rightarrow> bool" where
  "metadata_ok a =
     (scope_fingerprint_ok (am_scope a) \<and> instance_id_ok (am_instance_id a)
      \<and> idempotency_key_ok (am_idempotency_key a) \<and> content_digest_ok (am_request_digest a)
      \<and> content_digest_ok (ao_digest (am_outcome a))
      \<and> am_base_revision a < am_successor_revision a)"

fun phase_ok :: "instance_phase \<Rightarrow> bool" where
  "phase_ok (Pending p) =
     (idempotency_key_ok (pc_idempotency_key p) \<and> content_digest_ok (pc_request_digest p)
      \<and> pc_base_revision p < pc_successor_revision p)"
| "phase_ok _ = True"

definition record_ok :: "instance_record \<Rightarrow> bool" where
  "record_ok r =
     (length (ir_accepted r) \<le> max_accepted_outcomes
      \<and> list_all metadata_ok (ir_accepted r)
      \<and> (case ir_component_contract r of None \<Rightarrow> True | Some d \<Rightarrow> content_digest_ok d)
      \<and> phase_ok (ir_phase r))"

definition reservation_ok :: "promotion_reservation \<Rightarrow> bool" where
  "reservation_ok r = (content_digest_ok (rs_request_digest r) \<and> instance_id_ok (rs_instance_id r))"

definition mirror_ascii :: "record_v1 \<Rightarrow> bool" where
  "mirror_ascii m =
     (list_all (\<lambda>a. ascii (av_base_revision a) \<and> ascii (av_idempotency_key a)
         \<and> ascii (av_instance_id a) \<and> ascii (ov_digest (av_outcome a))
         \<and> ascii (av_request_digest a) \<and> ascii (av_scope a) \<and> ascii (av_successor_revision a))
       (rv_accepted m)
      \<and> pred_option ascii (rv_component_contract m)
      \<and> ascii (rv_current_revision m) \<and> ascii (rv_expires_at m)
      \<and> (case rv_phase m of
           PhaseReadyV1 \<Rightarrow> True
         | PhasePendingV1 p \<Rightarrow> ascii (pv_base_revision p) \<and> ascii (pv_claim_id p)
             \<and> ascii (pv_idempotency_key p) \<and> ascii (pv_lease_expires_at p)
             \<and> ascii (pv_request_digest p) \<and> ascii (pv_successor_revision p)
         | PhaseConsumedV1 c _ \<Rightarrow> pred_option ascii c))"

definition reservation_ascii :: "reservation_v1 \<Rightarrow> bool" where
  "reservation_ascii m =
     (ascii (sv_expires_at m) \<and> ascii (sv_initial_revision m) \<and> ascii (sv_instance_id m)
      \<and> ascii (sv_request_digest m))"

text \<open>A serde value that is the image of a plain canonical value.\<close>

definition serde_plain :: "serde_value \<Rightarrow> bool" where
  "serde_plain s = (\<exists>v. plain_value v \<and> from_serde_value s = Inr v \<and> to_serde_value v = s)"

definition mirror_lawful :: "mirror_serde \<Rightarrow> bool" where
  "mirror_lawful ms \<longleftrightarrow>
     (\<forall>m. ms_read_record ms (ms_write_record ms m) = Some m
        \<and> (mirror_ascii m \<longrightarrow> serde_plain (ms_write_record ms m)))
     \<and> (\<forall>m. ms_read_reservation ms (ms_write_reservation ms m) = Some m
        \<and> (reservation_ascii m \<longrightarrow> serde_plain (ms_write_reservation ms m)))"

definition codec_lawful :: "codec \<Rightarrow> bool" where
  "codec_lawful c \<longleftrightarrow> base64_lawful (cd_base64 c) \<and> (\<forall>bs. ascii (b64_encode (cd_base64 c) bs))
     \<and> mirror_lawful (cd_serde c) \<and> json_lawful (cd_json c)"

subsection \<open>The mirror\<close>

lemma u64_to_string_ascii [simp]: "ascii (u64_to_string v)"
proof -
  have "list_all is_ascii_digit (u64_to_string v)"
    by (simp add: u64_to_string_def nat_to_dec_digits)
  then show ?thesis
    by (auto simp: ascii_def list_all_iff is_ascii_digit_def char_code_def)
qed

lemma mirror_ascii_from_record:
  "\<forall>bs. ascii (b64_encode e bs) \<Longrightarrow> mirror_ascii (record_from_record e r)"
  by (cases "ir_phase r"; cases "ir_component_contract r")
    (auto simp: mirror_ascii_def record_from_record_def accepted_from_metadata_def list_all_iff
      option.pred_map comp_def pred_option_def)

lemma decode_encoded_decimals [simp]:
  "decode_revision (u64_to_string v) = Inr v"
  "decode_millis (u64_to_string v) = Inr v"
  "decode_decimal (u64_to_string v) = Inr v"
  by (simp_all add: decode_revision_def decode_millis_def decode_decimal_def to_shape_def
      revision_parse_def unix_millis_parse_def)

lemma decode_encoded_ids:
  assumes "base64_lawful e"
  shows "scope_fingerprint_ok s \<Longrightarrow> decode_scope e (b64_encode e (scope_bytes s)) = Inr s"
    and "instance_id_ok i \<Longrightarrow> decode_instance e (b64_encode e (instance_bytes i)) = Inr i"
    and "idempotency_key_ok k \<Longrightarrow> decode_idempotency e (b64_encode e (idempotency_bytes k)) = Inr k"
    and "content_digest_ok d \<Longrightarrow> decode_digest e (b64_encode e (digest_bytes d)) = Inr d"
  using identity_parse_encode [OF assms]
  by (simp_all add: decode_scope_def decode_instance_def decode_idempotency_def decode_digest_def
      to_shape_def)

lemma decoded_ids_ok:
  shows "decode_scope e t = Inr s \<Longrightarrow> scope_fingerprint_ok s"
    and "decode_instance e t = Inr i \<Longrightarrow> instance_id_ok i"
    and "decode_idempotency e t = Inr k \<Longrightarrow> idempotency_key_ok k"
    and "decode_digest e t = Inr d \<Longrightarrow> content_digest_ok d"
  by (auto simp: decode_scope_def decode_instance_def decode_idempotency_def decode_digest_def
      to_shape_def dest: identity_parse_ok)

text \<open>The hand-written conversions of the closed categories lose nothing.\<close>

lemma kind_round_trip [simp]: "kind_into_kind (kind_from_kind k) = k"
  by (cases k) simp_all

lemma reason_round_trip [simp]: "reason_into_reason (reason_from_reason r) = r"
  by (cases r) simp_all

lemma metadata_mirror_round_trip:
  assumes "base64_lawful e" and "metadata_ok a"
  shows "accepted_into_metadata e (accepted_from_metadata e a) = Inr a"
  using assms(2)
  by (simp add: accepted_into_metadata_def accepted_from_metadata_def decode_encoded_ids [OF assms(1)]
      not_le)

lemma phase_mirror_round_trip:
  assumes "base64_lawful e" and "phase_ok ph"
  shows "phase_into_phase e (phase_from_phase e ph) = Inr ph"
proof (cases ph)
  case (Pending p)
  then show ?thesis using assms(2) by (simp add: decode_encoded_ids [OF assms(1)] not_le)
next
  case (Consumed reason c)
  then show ?thesis by (cases c) simp_all
qed simp

lemma record_mirror_round_trip:
  assumes e: "base64_lawful e" and r: "record_ok r"
  shows "record_into_record e (record_from_record e r) = Inr r"
proof -
  have "collect_ok (accepted_into_metadata e) (map (accepted_from_metadata e) (ir_accepted r))
      = Inr (ir_accepted r)"
    by (rule collect_ok_map) (use r in \<open>auto simp: record_ok_def list_all_iff
        simp del: metadata_ok.simps intro: metadata_mirror_round_trip [OF e]\<close>)
  moreover have "decode_option (decode_digest e)
      (map_option (\<lambda>d. b64_encode e (digest_bytes d)) (ir_component_contract r))
      = Inr (ir_component_contract r)"
    using r by (cases "ir_component_contract r") (auto simp: record_ok_def decode_encoded_ids [OF e])
  ultimately show ?thesis
    using r phase_mirror_round_trip [OF e, of "ir_phase r"]
    by (simp add: record_into_record_def record_from_record_def record_ok_def)
qed

lemma decoded_metadata_ok: "accepted_into_metadata e v = Inr a \<Longrightarrow> metadata_ok a"
  by (auto simp: accepted_into_metadata_def not_le dest: decoded_ids_ok split: if_splits)

lemma decoded_phase_ok: "phase_into_phase e v = Inr ph \<Longrightarrow> phase_ok ph"
  by (cases v) (auto simp: not_le dest: decoded_ids_ok split: if_splits)

lemma decoded_mirror_ok:
  assumes "record_into_record e v = Inr r"
  shows "record_ok r"
proof -
  obtain contract current expires_at where len: "length (rv_accepted v) \<le> max_accepted_outcomes"
    and acc: "collect_ok (accepted_into_metadata e) (rv_accepted v) = Inr (ir_accepted r)"
    and con: "decode_option (decode_digest e) (rv_component_contract v) = Inr (ir_component_contract r)"
    and ph: "phase_into_phase e (rv_phase v) = Inr (ir_phase r)"
    using assms by (auto simp: record_into_record_def split: if_splits)
  have "list_all metadata_ok (ir_accepted r)"
    using collect_ok_list_all2 [OF acc] decoded_metadata_ok
    by (auto simp: list_all_length list_all2_conv_all_nth simp del: metadata_ok.simps)
  moreover have "case ir_component_contract r of None \<Rightarrow> True | Some d \<Rightarrow> content_digest_ok d"
    using con by (cases "rv_component_contract v") (auto dest: decoded_ids_ok)
  ultimately show ?thesis
    using len collect_ok_length [OF acc] decoded_phase_ok [OF ph] by (simp add: record_ok_def)
qed

subsection \<open>The frame\<close>

lemma body_limits_eq:
  "body_limits = Inr \<lparr>il_max_bytes = 32767, il_max_depth = 8, il_max_entries = 1024,
     il_max_string_bytes = 64\<rparr>"
  by (simp add: body_limits_def input_limits_new_def max_body_bytes_def max_record_bytes_def
      max_body_depth_def max_body_entries_def max_body_string_bytes_def hard_max_input_bytes_def
      hard_max_depth_def hard_max_entries_def)

lemma plain_wf:
  shows "plain_value v \<Longrightarrow> wf_value v"
    and "plain_items vs \<Longrightarrow> wf_items vs"
    and "plain_members ms \<Longrightarrow> wf_members ms"
  by (induction v and vs and ms rule: entry_count_item_count_member_count.induct) auto

lemma parse_canonical_bytes:
  assumes j: "json_lawful j" and ok: "input_limits_ok limits" and v: "plain_value v"
    and b: "to_canonical_bytes j v limits = Inr bs"
  shows "parse_canonical_value j bs limits = Inr v"
proof -
  obtain n where n: "validate_value limits 0 0 v = Inr n" and len: "length bs \<le> il_max_bytes limits"
    and bs: "bs = concat (fst (jt_write j v))"
    using b by (auto simp: to_canonical_bytes_iff is_ok_iff)
  have "visit_value limits 0 0 (raw_of v) = Inr (v, n)"
    using visit_raw_of(1) [OF ok n _ plain_wf(1) [OF v]] by simp
  then show ?thesis
    using j v len bs by (simp add: parse_canonical_value_def json_lawful_def)
qed

lemma frame_round_trip:
  assumes j: "json_lawful (cd_json c)" and s: "serde_plain s" and f: "encode_frame c s = Inr bs"
  shows "decode_frame c bs = Inr s \<and> length bs \<le> max_record_bytes"
proof -
  obtain v where v: "plain_value v" "from_serde_value s = Inr v" "to_serde_value v = s"
    using s by (auto simp: serde_plain_def)
  define l where "l = \<lparr>il_max_bytes = 32767, il_max_depth = 8, il_max_entries = 1024,
     il_max_string_bytes = (64 :: nat)\<rparr>"
  obtain body where body: "to_canonical_bytes (cd_json c) v l = Inr body" and bs: "bs = record_version # body"
    using f v by (auto simp: encode_frame_def body_limits_eq l_def)
  have ok: "input_limits_ok l" by (simp add: l_def input_limits_ok_def usize_max_def)
  have "length body \<le> il_max_bytes l" using iffD1 [OF to_canonical_bytes_iff body] by blast
  then have "length body \<le> 32767" by (simp add: l_def)
  then show ?thesis
    using parse_canonical_bytes [OF j ok v(1) body] v bs
    by (simp add: decode_frame_def body_limits_eq l_def max_record_bytes_def)
qed

subsection \<open>A concrete codec\<close>

definition s_string :: "string \<Rightarrow> serde_value" where "s_string s = SString s"

fun s_option :: "string option \<Rightarrow> serde_value" where
  "s_option None = SNull"
| "s_option (Some s) = SString s"

fun s_kind :: "outcome_kind_v1 \<Rightarrow> serde_value" where
  "s_kind RenderedV1 = SString ''rendered''"
| "s_kind ValidationV1 = SString ''validation''"
| "s_kind NoRenderV1 = SString ''no_render''"
| "s_kind RedirectV1 = SString ''redirect''"
| "s_kind RecoveryV1 = SString ''recovery''"

fun s_reason :: "reason_v1 \<Rightarrow> serde_value" where
  "s_reason MissingV1 = SString ''missing''"
| "s_reason InstanceExpiredV1 = SString ''instance_expired''"
| "s_reason ConsumedV1 = SString ''consumed''"
| "s_reason ClaimExpiredV1 = SString ''claim_expired''"
| "s_reason RevisionExhaustedV1 = SString ''revision_exhausted''"

definition s_accepted :: "accepted_v1 \<Rightarrow> serde_value" where
  "s_accepted a = SObject
     [(''base_revision'', SString (av_base_revision a)),
      (''idempotency_key'', SString (av_idempotency_key a)),
      (''instance_id'', SString (av_instance_id a)),
      (''outcome'', SObject [(''digest'', SString (ov_digest (av_outcome a))),
                             (''kind'', s_kind (ov_kind (av_outcome a)))]),
      (''request_digest'', SString (av_request_digest a)),
      (''scope'', SString (av_scope a)),
      (''successor_revision'', SString (av_successor_revision a))]"

fun s_phase :: "phase_v1 \<Rightarrow> serde_value" where
  "s_phase PhaseReadyV1 = SObject [(''kind'', SString ''ready'')]"
| "s_phase (PhasePendingV1 p) = SObject
     [(''base_revision'', SString (pv_base_revision p)),
      (''claim_id'', SString (pv_claim_id p)),
      (''idempotency_key'', SString (pv_idempotency_key p)),
      (''kind'', SString ''pending''),
      (''lease_expires_at'', SString (pv_lease_expires_at p)),
      (''request_digest'', SString (pv_request_digest p)),
      (''successor_revision'', SString (pv_successor_revision p))]"
| "s_phase (PhaseConsumedV1 c reason) = SObject
     [(''claim_id'', s_option c), (''kind'', SString ''consumed''), (''reason'', s_reason reason)]"

definition s_record :: "record_v1 \<Rightarrow> serde_value" where
  "s_record m = SObject
     [(''accepted'', SArray (map s_accepted (rv_accepted m))),
      (''component_contract'', s_option (rv_component_contract m)),
      (''current_revision'', SString (rv_current_revision m)),
      (''expires_at'', SString (rv_expires_at m)),
      (''phase'', s_phase (rv_phase m))]"

definition s_reservation :: "reservation_v1 \<Rightarrow> serde_value" where
  "s_reservation m = SObject
     [(''expires_at'', SString (sv_expires_at m)),
      (''initial_revision'', SString (sv_initial_revision m)),
      (''instance_id'', SString (sv_instance_id m)),
      (''request_digest'', SString (sv_request_digest m))]"

fun unstring :: "serde_value \<Rightarrow> string" where
  "unstring (SString s) = s"
| "unstring _ = []"

fun unoption :: "serde_value \<Rightarrow> string option" where
  "unoption (SString s) = Some s"
| "unoption _ = None"

fun unmembers :: "serde_value \<Rightarrow> (string \<times> serde_value) list" where
  "unmembers (SObject ms) = ms"
| "unmembers _ = []"

fun unitems :: "serde_value \<Rightarrow> serde_value list" where
  "unitems (SArray vs) = vs"
| "unitems _ = []"

definition member_at :: "serde_value \<Rightarrow> string \<Rightarrow> serde_value" where
  "member_at v k = (case map_of (unmembers v) k of None \<Rightarrow> SNull | Some w \<Rightarrow> w)"

definition un_kind :: "serde_value \<Rightarrow> outcome_kind_v1" where
  "un_kind v =
     (if v = s_kind RenderedV1 then RenderedV1 else if v = s_kind ValidationV1 then ValidationV1
      else if v = s_kind NoRenderV1 then NoRenderV1 else if v = s_kind RedirectV1 then RedirectV1
      else RecoveryV1)"

definition un_reason :: "serde_value \<Rightarrow> reason_v1" where
  "un_reason v =
     (if v = s_reason MissingV1 then MissingV1
      else if v = s_reason InstanceExpiredV1 then InstanceExpiredV1
      else if v = s_reason ConsumedV1 then ConsumedV1
      else if v = s_reason ClaimExpiredV1 then ClaimExpiredV1
      else RevisionExhaustedV1)"

definition un_accepted :: "serde_value \<Rightarrow> accepted_v1" where
  "un_accepted v =
     \<lparr>av_base_revision = unstring (member_at v ''base_revision''),
      av_idempotency_key = unstring (member_at v ''idempotency_key''),
      av_instance_id = unstring (member_at v ''instance_id''),
      av_outcome = \<lparr>ov_digest = unstring (member_at (member_at v ''outcome'') ''digest''),
                    ov_kind = un_kind (member_at (member_at v ''outcome'') ''kind'')\<rparr>,
      av_request_digest = unstring (member_at v ''request_digest''),
      av_scope = unstring (member_at v ''scope''),
      av_successor_revision = unstring (member_at v ''successor_revision'')\<rparr>"

definition un_phase :: "serde_value \<Rightarrow> phase_v1" where
  "un_phase v =
     (if member_at v ''kind'' = SString ''ready'' then PhaseReadyV1
      else if member_at v ''kind'' = SString ''pending'' then PhasePendingV1
        \<lparr>pv_base_revision = unstring (member_at v ''base_revision''),
         pv_claim_id = unstring (member_at v ''claim_id''),
         pv_idempotency_key = unstring (member_at v ''idempotency_key''),
         pv_lease_expires_at = unstring (member_at v ''lease_expires_at''),
         pv_request_digest = unstring (member_at v ''request_digest''),
         pv_successor_revision = unstring (member_at v ''successor_revision'')\<rparr>
      else PhaseConsumedV1 (unoption (member_at v ''claim_id'')) (un_reason (member_at v ''reason'')))"

definition un_record :: "serde_value \<Rightarrow> record_v1" where
  "un_record v =
     \<lparr>rv_accepted = map un_accepted (unitems (member_at v ''accepted'')),
      rv_component_contract = unoption (member_at v ''component_contract''),
      rv_current_revision = unstring (member_at v ''current_revision''),
      rv_expires_at = unstring (member_at v ''expires_at''),
      rv_phase = un_phase (member_at v ''phase'')\<rparr>"

definition un_reservation :: "serde_value \<Rightarrow> reservation_v1" where
  "un_reservation v =
     \<lparr>sv_expires_at = unstring (member_at v ''expires_at''),
      sv_initial_revision = unstring (member_at v ''initial_revision''),
      sv_instance_id = unstring (member_at v ''instance_id''),
      sv_request_digest = unstring (member_at v ''request_digest'')\<rparr>"

definition plain_serde :: mirror_serde where
  "plain_serde =
     \<lparr>ms_write_record = s_record, ms_read_record = (\<lambda>v. Some (un_record v)),
      ms_write_reservation = s_reservation, ms_read_reservation = (\<lambda>v. Some (un_reservation v))\<rparr>"

definition plain_codec :: codec where
  "plain_codec = \<lparr>cd_base64 = url_safe_no_pad, cd_serde = plain_serde, cd_json = tagged_json\<rparr>"

lemma un_kind [simp]: "un_kind (s_kind k) = k"
  by (cases k) (simp_all add: un_kind_def)

lemma un_reason [simp]: "un_reason (s_reason r) = r"
  by (cases r) (simp_all add: un_reason_def)

lemma unoption [simp]: "unoption (s_option c) = c"
  by (cases c) simp_all

lemma un_accepted [simp]: "un_accepted (s_accepted a) = a"
  by (simp add: un_accepted_def s_accepted_def member_at_def)

lemma un_phase [simp]: "un_phase (s_phase p) = p"
  by (cases p) (simp_all add: un_phase_def member_at_def)

lemma un_record [simp]: "un_record (s_record m) = m"
  by (simp add: un_record_def s_record_def member_at_def comp_def)

lemma un_reservation [simp]: "un_reservation (s_reservation m) = m"
  by (simp add: un_reservation_def s_reservation_def member_at_def)

fun sp_value :: "serde_value \<Rightarrow> bool"
  and sp_items :: "serde_value list \<Rightarrow> bool"
  and sp_members :: "(string \<times> serde_value) list \<Rightarrow> bool" where
  "sp_value (SArray vs) = sp_items vs"
| "sp_value (SObject ms) = (bt_sorted ms \<and> sp_members ms)"
| "sp_value SNull = True"
| "sp_value (SBool b) = True"
| "sp_value (SNumber q) = False"
| "sp_value (SString s) = ascii s"
| "sp_items [] = True"
| "sp_items (v # vs) = (sp_value v \<and> sp_items vs)"
| "sp_members [] = True"
| "sp_members ((k, v) # ms) = (ascii k \<and> sp_value v \<and> sp_members ms)"

lemma sp_image:
  shows "sp_value s \<Longrightarrow> \<exists>v. plain_value v \<and> from_serde_value s = Inr v \<and> to_serde_value v = s"
    and "sp_items ss \<Longrightarrow> \<exists>vs. plain_items vs \<and> from_serde_items ss = Inr vs \<and> to_serde_items vs = ss"
    and "sp_members ms \<Longrightarrow> \<exists>vs. plain_members vs \<and> from_serde_members ms = Inr vs
      \<and> to_serde_members vs = ms"
proof (induction s and ss and ms rule: sp_value_sp_items_sp_members.induct)
  case (1 ss)
  then obtain vs where "plain_items vs" "from_serde_items ss = Inr vs" "to_serde_items vs = ss" by auto
  then show ?case by (intro exI [of _ "CArray vs"]) simp
next
  case (2 ms)
  then obtain vs where vs: "plain_members vs" "from_serde_members ms = Inr vs" "to_serde_members vs = ms"
    by auto
  then have "bt_sorted vs" using 2 bt_sorted_serde [of vs] by simp
  then show ?case using vs 2 by (intro exI [of _ "CObject vs"]) (simp add: bt_collect_sorted)
next
  case 3
  then show ?case by (intro exI [of _ CNull]) simp
next
  case (4 b)
  then show ?case by (intro exI [of _ "CBool b"]) simp
next
  case (6 s)
  then show ?case by (intro exI [of _ "CString s"]) simp
next
  case 7
  then show ?case by (intro exI [of _ "[]"]) simp
next
  case (8 v vs)
  then obtain w ws where "plain_value w" "from_serde_value v = Inr w" "to_serde_value w = v"
    "plain_items ws" "from_serde_items vs = Inr ws" "to_serde_items ws = vs" by auto
  then show ?case by (intro exI [of _ "w # ws"]) simp
next
  case 9
  then show ?case by (intro exI [of _ "[]"]) simp
next
  case (10 k v ms)
  then obtain w ws where "plain_value w" "from_serde_value v = Inr w" "to_serde_value w = v"
    "plain_members ws" "from_serde_members ms = Inr ws" "to_serde_members ws = ms" by auto
  then show ?case using 10 by (intro exI [of _ "(k, w) # ws"]) simp
qed simp

lemma sp_serde_plain: "sp_value s \<Longrightarrow> serde_plain s"
  unfolding serde_plain_def by (rule sp_image(1))

lemma sp_items_map: "(\<And>x. x \<in> set xs \<Longrightarrow> sp_value (f x)) \<Longrightarrow> sp_items (map f xs)"
  by (induction xs) auto

lemma key_orders:
  "sorted_wrt (<) [''base_revision'', ''idempotency_key'', ''instance_id'', ''outcome'',
     ''request_digest'', ''scope'', ''successor_revision'']"
  "sorted_wrt (<) [''digest'', ''kind'']"
  "sorted_wrt (<) [''base_revision'', ''claim_id'', ''idempotency_key'', ''kind'',
     ''lease_expires_at'', ''request_digest'', ''successor_revision'']"
  "sorted_wrt (<) [''claim_id'', ''kind'', ''reason'']"
  "sorted_wrt (<) [''accepted'', ''component_contract'', ''current_revision'', ''expires_at'', ''phase'']"
  "sorted_wrt (<) [''expires_at'', ''initial_revision'', ''instance_id'', ''request_digest'']"
  by code_simp+

lemma ascii_keys:
  "list_all ascii [''base_revision'', ''idempotency_key'', ''instance_id'', ''outcome'',
     ''request_digest'', ''scope'', ''successor_revision'', ''digest'', ''kind'', ''claim_id'',
     ''lease_expires_at'', ''reason'', ''accepted'', ''component_contract'', ''current_revision'',
     ''expires_at'', ''phase'', ''initial_revision'', ''ready'', ''pending'', ''consumed'',
     ''rendered'', ''validation'', ''no_render'', ''redirect'', ''recovery'', ''missing'',
     ''instance_expired'', ''claim_expired'', ''revision_exhausted'']"
  unfolding ascii_def by code_simp

lemmas ascii_key = ascii_keys [simplified]

lemma sp_kind [simp]: "sp_value (s_kind k)"
  by (cases k) (simp_all add: ascii_key)

lemma sp_reason [simp]: "sp_value (s_reason r)"
  by (cases r) (simp_all add: ascii_key)

lemma sp_option [simp]: "sp_value (s_option c) = pred_option ascii c"
  by (cases c) simp_all

lemma sp_phase:
  "(case p of PhaseReadyV1 \<Rightarrow> True
     | PhasePendingV1 p \<Rightarrow> ascii (pv_base_revision p) \<and> ascii (pv_claim_id p)
         \<and> ascii (pv_idempotency_key p) \<and> ascii (pv_lease_expires_at p)
         \<and> ascii (pv_request_digest p) \<and> ascii (pv_successor_revision p)
     | PhaseConsumedV1 c _ \<Rightarrow> pred_option ascii c) \<Longrightarrow> sp_value (s_phase p)"
  using key_orders(3,4) by (cases p) (simp_all add: ascii_key bt_sorted_def)

lemma plain_serde_lawful: "mirror_lawful plain_serde"
proof -
  have acc: "sp_value (s_accepted a)"
    if "ascii (av_base_revision a) \<and> ascii (av_idempotency_key a)
         \<and> ascii (av_instance_id a) \<and> ascii (ov_digest (av_outcome a))
         \<and> ascii (av_request_digest a) \<and> ascii (av_scope a) \<and> ascii (av_successor_revision a)" for a
    using that key_orders(1,2) by (simp add: s_accepted_def ascii_key bt_sorted_def)
  have "sp_value (s_record m)" if "mirror_ascii m" for m
    using that key_orders(5) sp_phase [of "rv_phase m"]
    by (simp add: s_record_def mirror_ascii_def ascii_key bt_sorted_def list_all_iff sp_items_map acc)
  moreover have "sp_value (s_reservation m)" if "reservation_ascii m" for m
    using that key_orders(6)
    by (simp add: s_reservation_def reservation_ascii_def ascii_key bt_sorted_def)
  ultimately show ?thesis by (simp add: mirror_lawful_def plain_serde_def sp_serde_plain)
qed

lemma url_safe_ascii: "ascii (b64_encode url_safe_no_pad bs)"
proof -
  have "list_all (\<lambda>c. (of_char c :: nat) < 128) b64_alphabet" by code_simp
  moreover have "b64_alphabet ! bits_nat g \<in> set b64_alphabet" if "g \<in> set (groups 6 m xs)" for g m xs
    using url_safe_groups [OF that] by (intro nth_mem) (simp add: b64_alphabet_def)
  ultimately show ?thesis
    by (auto simp: ascii_def url_safe_no_pad_def url_safe_encode_def list_all_iff)
qed

lemma plain_codec_lawful: "codec_lawful plain_codec"
  by (simp add: codec_lawful_def plain_codec_def url_safe_no_pad_lawful url_safe_ascii
      plain_serde_lawful tagged_json_lawful)

subsection \<open>Properties\<close>

definition ex_small_record :: instance_record where
  "ex_small_record = created_record None 5 7"

lemma ex_small_decimal: "u64_to_string 5 = ''5''" "u64_to_string 7 = ''7''"
proof -
  have "digit_char 5 = CHR ''5''" "digit_char 7 = CHR ''7''" by code_simp+
  then show "u64_to_string 5 = ''5''" "u64_to_string 7 = ''7''"
    by (simp_all add: u64_to_string_def nat_to_dec.simps)
qed

lemma ex_small_encodes: "is_ok (encode_record plain_codec ex_small_record)"
  by (simp add: encode_record_def encode_frame_def body_limits_eq plain_codec_def plain_serde_def
      ex_small_record_def created_record_def record_from_record_def s_record_def
      ex_small_decimal max_accepted_outcomes_def to_canonical_bytes_def tagged_json_def
      validate_container_def count_entry_def saturating_add_usize_def usize_max_def is_ok_iff
      bt_collect_def map_err_eq_Inl Let_def)

lemma record_codec_round_trip:
  assumes c: "codec_lawful c" and r: "record_ok r" and enc: "encode_record c r = Inr bs"
  shows "decode_record c bs = Inr r \<and> length bs \<le> max_record_bytes"
proof -
  let ?m = "record_from_record (cd_base64 c) r"
  have law: "base64_lawful (cd_base64 c)" "\<forall>bs. ascii (b64_encode (cd_base64 c) bs)"
    "mirror_lawful (cd_serde c)" "json_lawful (cd_json c)"
    using c by (auto simp: codec_lawful_def)
  have m: "ms_read_record (cd_serde c) (ms_write_record (cd_serde c) ?m) = Some ?m"
    "serde_plain (ms_write_record (cd_serde c) ?m)"
    using law(3) mirror_ascii_from_record [OF law(2)] by (auto simp: mirror_lawful_def)
  have "encode_frame c (ms_write_record (cd_serde c) ?m) = Inr bs"
    using enc by (simp add: encode_record_def split: if_splits)
  from frame_round_trip [OF law(4) m(2) this] show ?thesis
    using m(1) record_mirror_round_trip [OF law(1) r] by (simp add: decode_record_def)
qed

lemma ex_small_record_ok: "record_ok ex_small_record"
  by (simp add: record_ok_def ex_small_record_def created_record_def)

lemma ex_small_decodes:
  obtains bs where "encode_record plain_codec ex_small_record = Inr bs"
    and "decode_record plain_codec bs = Inr ex_small_record"
  using ex_small_encodes record_codec_round_trip [OF plain_codec_lawful ex_small_record_ok]
  by (auto simp: is_ok_iff)

text \<open>
  C39: a well-formed record (identities of their exact lengths, at most 64 retained outcomes, every
  successor revision above its base) reads back from its encoding as itself, outcome kinds and
  refresh reasons included, under any base64 engine, derived serializers and JSON text codec that
  read back what they write; and the encoding never exceeds the 32,768 byte bound.
\<close>

theorem decode_encoded_record:
  assumes "codec_lawful c" and "record_ok r" and "encode_record c r = Inr bs"
  shows "decode_record c bs = Inr r \<and> length bs \<le> max_record_bytes"
  using record_codec_round_trip [OF assms] .

theorem decode_encoded_record_witness:
  "\<exists>bs. encode_record plain_codec ex_small_record = Inr bs
     \<and> decode_record plain_codec bs = Inr ex_small_record"
proof -
  obtain bs where bs: "encode_record plain_codec ex_small_record = Inr bs"
    using ex_small_encodes by (auto simp: is_ok_iff)
  from decode_encoded_record [OF plain_codec_lawful ex_small_record_ok bs] bs show ?thesis by blast
qed

text \<open>
  Whatever bytes a store hands back, a frame that decodes fits the byte bound and holds a
  record this build could have written: at most 64 retained outcomes, every identity of its exact
  length, and every pending or retained successor strictly above its base, so no base revision
  can be claimed or accepted twice on the strength of a forged record.
\<close>

theorem decoded_record_ok:
  assumes "decode_record c bs = Inr r"
  shows "record_ok r \<and> length bs \<le> max_record_bytes \<and> bs \<noteq> [] \<and> hd bs = record_version"
  using assms
  by (auto simp: decode_record_def decode_frame_def dest: decoded_mirror_ok split: if_splits list.splits)

theorem decoded_record_ok_witness: "record_ok ex_small_record"
proof -
  obtain bs where "decode_record plain_codec bs = Inr ex_small_record"
    by (rule ex_small_decodes)
  from decoded_record_ok [OF this] show ?thesis by blast
qed

lemma reservation_codec_round_trip:
  assumes c: "codec_lawful c" and r: "reservation_ok r" and enc: "encode_reservation c r = Inr bs"
  shows "decode_reservation c bs = Inr r"
proof -
  let ?m = "reservation_from (cd_base64 c) r"
  have law: "base64_lawful (cd_base64 c)" "\<forall>bs. ascii (b64_encode (cd_base64 c) bs)"
    "mirror_lawful (cd_serde c)" "json_lawful (cd_json c)"
    using c by (auto simp: codec_lawful_def)
  have "reservation_ascii ?m" using law(2) by (simp add: reservation_ascii_def reservation_from_def)
  then have m: "ms_read_reservation (cd_serde c) (ms_write_reservation (cd_serde c) ?m) = Some ?m"
    "serde_plain (ms_write_reservation (cd_serde c) ?m)"
    using law(3) by (auto simp: mirror_lawful_def)
  have "encode_frame c (ms_write_reservation (cd_serde c) ?m) = Inr bs"
    using enc by (simp add: encode_reservation_def)
  from frame_round_trip [OF law(4) m(2) this] m(1) r show ?thesis
    by (simp add: decode_reservation_def reservation_into_def reservation_from_def reservation_ok_def
        decode_encoded_ids [OF law(1)])
qed

text \<open>
  A promotion reservation reads back from its encoding as itself, so an exact promotion retry
  recovers exactly the authority that was reserved.
\<close>

theorem decode_encoded_reservation:
  assumes c: "codec_lawful c" and r: "reservation_ok r" and enc: "encode_reservation c r = Inr bs"
  shows "decode_reservation c bs = Inr r"
  using reservation_codec_round_trip [OF c r enc] .

definition ex_reservation :: promotion_reservation where
  "ex_reservation = \<lparr>rs_request_digest = ContentDigest (replicate 32 1),
     rs_instance_id = InstanceId (replicate 16 9), rs_initial_revision = 5, rs_expires_at = 7\<rparr>"

lemma length_tag_string [simp]: "length (tag_string s) = 2 * length s + 1"
  by (induction s) auto

lemma url_safe_length [simp]:
  "length (b64_encode url_safe_no_pad bs) = div_ceil (length bs * 8) 6"
  using base64_lawfulD(2) [OF url_safe_no_pad_lawful] .

lemma ex_reservation_encodes: "is_ok (encode_reservation plain_codec ex_reservation)"
  by (simp add: encode_reservation_def encode_frame_def body_limits_eq plain_codec_def plain_serde_def
      ex_reservation_def reservation_from_def s_reservation_def div_ceil_def
      ex_small_decimal to_canonical_bytes_def tagged_json_def validate_container_def count_entry_def
      saturating_add_usize_def usize_max_def is_ok_iff bt_collect_def map_err_eq_Inl Let_def)

theorem decode_encoded_reservation_witness:
  "\<exists>bs. decode_reservation plain_codec bs = Inr ex_reservation"
proof -
  obtain bs where bs: "encode_reservation plain_codec ex_reservation = Inr bs"
    using ex_reservation_encodes by (auto simp: is_ok_iff)
  have "reservation_ok ex_reservation" by (simp add: reservation_ok_def ex_reservation_def)
  from decode_encoded_reservation [OF plain_codec_lawful this bs] show ?thesis by blast
qed

end
