(* ===== verification/Record_Store.thy ===== *)
theory Record_Store
  imports Ledger_State BTree_Map
begin

text \<open>
  The record store under the instance ledger: the store half of
  \<open>crates/suprnova-live/src/ledger/distributed.rs\<close>. One table keeps its slots in a \<open>BTreeMap\<close> and,
  beside it, the deadline order of exactly those slots; two tables under one lock form the store.
  The store's clock is the reading one operation takes, \<open>None\<close> when the host cannot read it; a
  poisoned lock is a flag of the store.
\<close>

subsection \<open>Keys\<close>

datatype promotion_record_key =
  PromotionRecordKey (pk_scope: scope_fingerprint) (pk_idempotency_key: idempotency_key)

instantiation instance_record_key :: linorder
begin

definition less_instance_record_key :: "instance_record_key \<Rightarrow> instance_record_key \<Rightarrow> bool" where
  "less_instance_record_key a b =
     (scope_bytes (ik_scope a) < scope_bytes (ik_scope b)
      \<or> scope_bytes (ik_scope a) = scope_bytes (ik_scope b)
        \<and> instance_bytes (ik_instance_id a) < instance_bytes (ik_instance_id b))"

definition less_eq_instance_record_key :: "instance_record_key \<Rightarrow> instance_record_key \<Rightarrow> bool" where
  "less_eq_instance_record_key a b = (a < b \<or> a = b)"

instance
proof
  fix a b c :: instance_record_key
  have eq: "a = b" if "scope_bytes (ik_scope a) = scope_bytes (ik_scope b)"
    "instance_bytes (ik_instance_id a) = instance_bytes (ik_instance_id b)" for a b
    using that by (auto intro: instance_record_key.expand scope_fingerprint.expand instance_id.expand)
  show "(a < b) = (a \<le> b \<and> \<not> b \<le> a)"
    by (auto simp: less_eq_instance_record_key_def less_instance_record_key_def)
  show "a \<le> a" by (simp add: less_eq_instance_record_key_def)
  show "a \<le> b \<Longrightarrow> b \<le> c \<Longrightarrow> a \<le> c"
    by (auto simp: less_eq_instance_record_key_def less_instance_record_key_def)
  show "a \<le> b \<Longrightarrow> b \<le> a \<Longrightarrow> a = b"
    by (auto simp: less_eq_instance_record_key_def less_instance_record_key_def)
  show "a \<le> b \<or> b \<le> a"
    using eq [of a b] less_linear [of "scope_bytes (ik_scope a)" "scope_bytes (ik_scope b)"]
      less_linear [of "instance_bytes (ik_instance_id a)" "instance_bytes (ik_instance_id b)"]
    by (auto simp: less_eq_instance_record_key_def less_instance_record_key_def)
qed

end

instantiation promotion_record_key :: linorder
begin

definition less_promotion_record_key :: "promotion_record_key \<Rightarrow> promotion_record_key \<Rightarrow> bool" where
  "less_promotion_record_key a b =
     (scope_bytes (pk_scope a) < scope_bytes (pk_scope b)
      \<or> scope_bytes (pk_scope a) = scope_bytes (pk_scope b)
        \<and> idempotency_bytes (pk_idempotency_key a) < idempotency_bytes (pk_idempotency_key b))"

definition less_eq_promotion_record_key :: "promotion_record_key \<Rightarrow> promotion_record_key \<Rightarrow> bool" where
  "less_eq_promotion_record_key a b = (a < b \<or> a = b)"

instance
proof
  fix a b c :: promotion_record_key
  have eq: "a = b" if "scope_bytes (pk_scope a) = scope_bytes (pk_scope b)"
    "idempotency_bytes (pk_idempotency_key a) = idempotency_bytes (pk_idempotency_key b)" for a b
    using that
    by (auto intro: promotion_record_key.expand scope_fingerprint.expand idempotency_key.expand)
  show "(a < b) = (a \<le> b \<and> \<not> b \<le> a)"
    by (auto simp: less_eq_promotion_record_key_def less_promotion_record_key_def)
  show "a \<le> a" by (simp add: less_eq_promotion_record_key_def)
  show "a \<le> b \<Longrightarrow> b \<le> c \<Longrightarrow> a \<le> c"
    by (auto simp: less_eq_promotion_record_key_def less_promotion_record_key_def)
  show "a \<le> b \<Longrightarrow> b \<le> a \<Longrightarrow> a = b"
    by (auto simp: less_eq_promotion_record_key_def less_promotion_record_key_def)
  show "a \<le> b \<or> b \<le> a"
    using eq [of a b] less_linear [of "scope_bytes (pk_scope a)" "scope_bytes (pk_scope b)"]
      less_linear [of "idempotency_bytes (pk_idempotency_key a)" "idempotency_bytes (pk_idempotency_key b)"]
    by (auto simp: less_eq_promotion_record_key_def less_promotion_record_key_def)
qed

end

subsection \<open>Stored records\<close>

record stored_record =
  sr_bytes :: "u8 list"
  sr_version :: u64
  sr_expires_at :: unix_millis

datatype cas_outcome = CasStored u64 | CasConflict | CasMissing

datatype timing = Elapsing | Regardless

definition first_version :: u64 where "first_version = 1"

text \<open>A \<open>RecordSlot\<close> holds the same three fields as the record a store returns.\<close>

record record_slot =
  sl_bytes :: "u8 list"
  sl_version :: u64
  sl_expires_at :: unix_millis

definition slot_stored :: "record_slot \<Rightarrow> stored_record" where
  "slot_stored s = \<lparr>sr_bytes = sl_bytes s, sr_version = sl_version s, sr_expires_at = sl_expires_at s\<rparr>"

subsection \<open>One table\<close>

record 'k table =
  tb_slots :: "('k \<times> record_slot) list"
  tb_order :: "(unix_millis \<times> 'k list) list"

definition table_new :: "'k table" where
  "table_new = \<lparr>tb_slots = [], tb_order = []\<rparr>"

definition table_len :: "'k table \<Rightarrow> usize" where
  "table_len t = length (tb_slots t)"

definition table_get :: "'k table \<Rightarrow> 'k \<Rightarrow> record_slot option" where
  "table_get t k = map_of (tb_slots t) k"

definition table_schedule :: "unix_millis \<Rightarrow> 'k :: linorder \<Rightarrow> 'k table \<Rightarrow> 'k table" where
  "table_schedule deadline k t =
     (let keys = (case map_of (tb_order t) deadline of None \<Rightarrow> [] | Some ks \<Rightarrow> ks)
      in t\<lparr>tb_order := bt_insert deadline (bs_insert k keys) (tb_order t)\<rparr>)"

definition table_unschedule :: "unix_millis \<Rightarrow> 'k :: linorder \<Rightarrow> 'k table \<Rightarrow> 'k table" where
  "table_unschedule deadline k t =
     (case map_of (tb_order t) deadline of
        None \<Rightarrow> t
      | Some keys \<Rightarrow>
          let keys' = bs_remove k keys
          in if keys' = [] then t\<lparr>tb_order := bt_remove deadline (tb_order t)\<rparr>
             else t\<lparr>tb_order := bt_insert deadline keys' (tb_order t)\<rparr>)"

definition table_put :: "'k :: linorder \<Rightarrow> record_slot \<Rightarrow> 'k table \<Rightarrow> 'k table" where
  "table_put k slot t =
     (let deadline = sl_expires_at slot;
          t' = t\<lparr>tb_slots := bt_insert k slot (tb_slots t)\<rparr>
      in case table_get t k of
           Some previous \<Rightarrow>
             if sl_expires_at previous = deadline then t'
             else table_schedule deadline k (table_unschedule (sl_expires_at previous) k t')
         | None \<Rightarrow> table_schedule deadline k t')"

definition table_remove :: "'k :: linorder \<Rightarrow> 'k table \<Rightarrow> record_slot option \<times> 'k table" where
  "table_remove k t =
     (case table_get t k of
        None \<Rightarrow> (None, t)
      | Some slot \<Rightarrow>
          (Some slot, table_unschedule (sl_expires_at slot) k
             (t\<lparr>tb_slots := bt_remove k (tb_slots t)\<rparr>)))"

definition table_first_due :: "'k table \<Rightarrow> unix_millis \<Rightarrow> unix_millis option" where
  "table_first_due t now =
     (case tb_order t of
        [] \<Rightarrow> None
      | (deadline, keys) # rest \<Rightarrow> if deadline \<le> now then Some deadline else None)"

definition table_pop_first :: "'k :: linorder table \<Rightarrow> 'k table" where
  "table_pop_first t =
     (case tb_order t of
        [] \<Rightarrow> t
      | (deadline, keys) # rest \<Rightarrow>
          (case keys of
             [] \<Rightarrow> t\<lparr>tb_order := rest\<rparr>
           | k # ks \<Rightarrow>
               t\<lparr>tb_order := (if ks = [] then rest else (deadline, ks) # rest),
                 tb_slots := bt_remove k (tb_slots t)\<rparr>))"

definition table_soonest :: "'k table \<Rightarrow> usize \<Rightarrow> ('k \<times> stored_record) list" where
  "table_soonest t limit =
     List.map_filter (\<lambda>k. map_option (\<lambda>slot. (k, slot_stored slot)) (table_get t k))
       (take limit (concat (map snd (tb_order t))))"

definition table_take_unexpired ::
  "'k :: linorder \<Rightarrow> unix_millis \<Rightarrow> 'k table \<Rightarrow> stored_record option \<times> 'k table" where
  "table_take_unexpired k now t =
     (case table_get t k of
        Some slot \<Rightarrow>
          if sl_expires_at slot > now then (Some (slot_stored slot), t)
          else (None, snd (table_remove k t))
      | None \<Rightarrow> (None, t))"

definition table_insert_absent ::
  "'k :: linorder \<Rightarrow> u8 list \<Rightarrow> unix_millis \<Rightarrow> unix_millis \<Rightarrow> 'k table \<Rightarrow> bool \<times> 'k table" where
  "table_insert_absent k bytes expires_at now t =
     (if (case table_get t k of Some slot \<Rightarrow> sl_expires_at slot > now | None \<Rightarrow> False)
      then (False, t)
      else (True, table_put k \<lparr>sl_bytes = bytes, sl_version = first_version,
                               sl_expires_at = expires_at\<rparr> t))"

subsection \<open>Both tables\<close>

definition max_reclaimed_per_operation :: usize where "max_reclaimed_per_operation = 64"

record record_state =
  rt_instances :: "instance_record_key table"
  rt_promotions :: "promotion_record_key table"

text \<open>The reclamation loop: \<open>n\<close> iterations at most, stopping when nothing is due.\<close>

fun reclaim_loop :: "nat \<Rightarrow> unix_millis \<Rightarrow> record_state \<Rightarrow> record_state" where
  "reclaim_loop 0 now s = s"
| "reclaim_loop (Suc n) now s =
     (case (table_first_due (rt_instances s) now, table_first_due (rt_promotions s) now) of
        (None, None) \<Rightarrow> s
      | (Some i, Some p) \<Rightarrow>
          if p < i
          then reclaim_loop n now (s\<lparr>rt_promotions := table_pop_first (rt_promotions s)\<rparr>)
          else reclaim_loop n now (s\<lparr>rt_instances := table_pop_first (rt_instances s)\<rparr>)
      | (Some i, None) \<Rightarrow> reclaim_loop n now (s\<lparr>rt_instances := table_pop_first (rt_instances s)\<rparr>)
      | (None, Some p) \<Rightarrow> reclaim_loop n now (s\<lparr>rt_promotions := table_pop_first (rt_promotions s)\<rparr>))"

definition reclaim :: "unix_millis \<Rightarrow> record_state \<Rightarrow> record_state" where
  "reclaim now s = reclaim_loop max_reclaimed_per_operation now s"

record memory_record_store =
  mr_poisoned :: bool
  mr_state :: record_state

definition memory_record_store_new :: memory_record_store where
  "memory_record_store_new =
     \<lparr>mr_poisoned = False, mr_state = \<lparr>rt_instances = table_new, rt_promotions = table_new\<rparr>\<rparr>"

type_synonym 'a store_op = "memory_record_store \<Rightarrow> (ledger_error + 'a) \<times> memory_record_store"

text \<open>\<open>lock()?\<close> followed by the rest of an operation on the guarded tables.\<close>

definition with_lock ::
  "(record_state \<Rightarrow> (ledger_error + 'a) \<times> record_state) \<Rightarrow> 'a store_op" where
  "with_lock f m =
     (if mr_poisoned m then (Inl ProviderUnavailable, m)
      else let (r, s) = f (mr_state m) in (r, m\<lparr>mr_state := s\<rparr>))"

text \<open>\<open>store_now()?\<close> and the bounded sweep every timed operation starts with.\<close>

definition with_sweep ::
  "unix_millis option \<Rightarrow> (unix_millis \<Rightarrow> record_state \<Rightarrow> (ledger_error + 'a) \<times> record_state) \<Rightarrow>
   record_state \<Rightarrow> (ledger_error + 'a) \<times> record_state" where
  "with_sweep clock f s =
     (case clock of None \<Rightarrow> (Inl ClockUnavailable, s) | Some now \<Rightarrow> f now (reclaim now s))"

definition store_load_record ::
  "unix_millis option \<Rightarrow> instance_record_key \<Rightarrow> timing \<Rightarrow> stored_record option store_op" where
  "store_load_record clock k timing = with_lock (\<lambda>s.
     case timing of
       Elapsing \<Rightarrow> with_sweep clock (\<lambda>now s.
         let (r, t) = table_take_unexpired k now (rt_instances s)
         in (Inr r, s\<lparr>rt_instances := t\<rparr>)) s
     | Regardless \<Rightarrow> (Inr (map_option slot_stored (table_get (rt_instances s) k)), s))"

definition store_insert_record_if_absent ::
  "unix_millis option \<Rightarrow> instance_record_key \<Rightarrow> u8 list \<Rightarrow> unix_millis \<Rightarrow> bool store_op" where
  "store_insert_record_if_absent clock k bytes expires_at = with_lock (with_sweep clock (\<lambda>now s.
     let (r, t) = table_insert_absent k bytes expires_at now (rt_instances s)
     in (Inr r, s\<lparr>rt_instances := t\<rparr>)))"

text \<open>The part of \<open>replace_record\<close> after store time dropped an elapsed holder.\<close>

definition replace_at ::
  "instance_record_key \<Rightarrow> u64 \<Rightarrow> u8 list \<Rightarrow> unix_millis \<Rightarrow> record_state \<Rightarrow>
   (ledger_error + cas_outcome) \<times> record_state" where
  "replace_at k expected_version bytes expires_at s =
     (case table_get (rt_instances s) k of
        None \<Rightarrow> (Inr CasMissing, s)
      | Some slot \<Rightarrow>
          if sl_version slot \<noteq> expected_version then (Inr CasConflict, s)
          else case checked_add_u64 (sl_version slot) 1 of
                 None \<Rightarrow> (Inl CounterExhausted, s)
               | Some version \<Rightarrow>
                   (Inr (CasStored version),
                    s\<lparr>rt_instances := table_put k
                        \<lparr>sl_bytes = bytes, sl_version = version, sl_expires_at = expires_at\<rparr>
                        (rt_instances s)\<rparr>))"

definition drop_elapsed :: "instance_record_key \<Rightarrow> unix_millis \<Rightarrow> record_state \<Rightarrow> record_state" where
  "drop_elapsed k now s =
     (if (case table_get (rt_instances s) k of Some slot \<Rightarrow> sl_expires_at slot \<le> now | None \<Rightarrow> False)
      then s\<lparr>rt_instances := snd (table_remove k (rt_instances s))\<rparr> else s)"

definition store_replace_record ::
  "unix_millis option \<Rightarrow> instance_record_key \<Rightarrow> u64 \<Rightarrow> u8 list \<Rightarrow> unix_millis \<Rightarrow> timing \<Rightarrow>
   cas_outcome store_op" where
  "store_replace_record clock k expected_version bytes expires_at timing = with_lock (\<lambda>s.
     case timing of
       Elapsing \<Rightarrow> with_sweep clock (\<lambda>now s.
         replace_at k expected_version bytes expires_at (drop_elapsed k now s)) s
     | Regardless \<Rightarrow> replace_at k expected_version bytes expires_at s)"

definition store_remove_record :: "instance_record_key \<Rightarrow> unit store_op" where
  "store_remove_record k = with_lock (\<lambda>s.
     (Inr (), s\<lparr>rt_instances := snd (table_remove k (rt_instances s))\<rparr>))"

definition store_load_reservation ::
  "unix_millis option \<Rightarrow> promotion_record_key \<Rightarrow> stored_record option store_op" where
  "store_load_reservation clock k = with_lock (with_sweep clock (\<lambda>now s.
     let (r, t) = table_take_unexpired k now (rt_promotions s)
     in (Inr r, s\<lparr>rt_promotions := t\<rparr>)))"

definition store_insert_reservation_if_absent ::
  "unix_millis option \<Rightarrow> promotion_record_key \<Rightarrow> u8 list \<Rightarrow> unix_millis \<Rightarrow> bool store_op" where
  "store_insert_reservation_if_absent clock k bytes expires_at = with_lock (with_sweep clock (\<lambda>now s.
     let (r, t) = table_insert_absent k bytes expires_at now (rt_promotions s)
     in (Inr r, s\<lparr>rt_promotions := t\<rparr>)))"

definition store_count_records :: "unix_millis option \<Rightarrow> usize store_op" where
  "store_count_records clock = with_lock (with_sweep clock (\<lambda>now s.
     (Inr (table_len (rt_instances s)), s)))"

definition store_soonest_records ::
  "unix_millis option \<Rightarrow> usize \<Rightarrow> (instance_record_key \<times> stored_record) list store_op" where
  "store_soonest_records clock limit = with_lock (with_sweep clock (\<lambda>now s.
     (Inr (table_soonest (rt_instances s) limit), s)))"

definition store_remove_record_at :: "instance_record_key \<Rightarrow> u64 \<Rightarrow> bool store_op" where
  "store_remove_record_at k expected_version = with_lock (\<lambda>s.
     case table_get (rt_instances s) k of
       None \<Rightarrow> (Inr False, s)
     | Some slot \<Rightarrow>
         if sl_version slot \<noteq> expected_version then (Inr False, s)
         else (Inr True, s\<lparr>rt_instances := snd (table_remove k (rt_instances s))\<rparr>))"

end
