(* ===== verification/Record_Store_Inv.thy ===== *)
theory Record_Store_Inv
  imports Record_Store
begin

text \<open>
  The record store's invariant and what each operation does to the records held. The deadline
  order of a table is exact: a key is scheduled at a deadline precisely when its slot carries that
  deadline. Sweeping drops elapsed records only, at most 64 of them.
\<close>

subsection \<open>The deadline order\<close>

definition scheduled :: "'k table \<Rightarrow> unix_millis \<Rightarrow> 'k \<Rightarrow> bool" where
  "scheduled t d k = (\<exists>ks. map_of (tb_order t) d = Some ks \<and> k \<in> set ks)"

definition order_wf :: "'k :: linorder table \<Rightarrow> bool" where
  "order_wf t = (bt_sorted (tb_order t)
     \<and> (\<forall>(d, ks) \<in> set (tb_order t). ks \<noteq> [] \<and> sorted_wrt (<) ks))"

definition table_inv :: "'k :: linorder table \<Rightarrow> bool" where
  "table_inv t = (bt_sorted (tb_slots t) \<and> order_wf t
     \<and> (\<forall>d k. scheduled t d k \<longleftrightarrow> (\<exists>s. table_get t k = Some s \<and> sl_expires_at s = d)))"

lemma order_wf_at: "order_wf t \<Longrightarrow> map_of (tb_order t) d = Some ks \<Longrightarrow> ks \<noteq> [] \<and> sorted_wrt (<) ks"
  by (auto simp: order_wf_def dest!: map_of_SomeD)

lemma order_wf_lookup:
  assumes "bt_sorted m" and "\<And>d ks. map_of m d = Some ks \<Longrightarrow> ks \<noteq> [] \<and> sorted_wrt (<) ks"
  shows "\<forall>(d, ks) \<in> set m. ks \<noteq> [] \<and> sorted_wrt (<) ks"
  using assms(2) map_of_bt_iff [OF assms(1)] by auto

lemma order_wf_insert:
  assumes "order_wf t" and "ks \<noteq> []" and "sorted_wrt (<) ks"
  shows "order_wf (t\<lparr>tb_order := bt_insert d ks (tb_order t)\<rparr>)"
proof -
  have b: "bt_sorted (tb_order t)" using assms(1) by (simp add: order_wf_def)
  have "\<And>e xs. map_of (bt_insert d ks (tb_order t)) e = Some xs \<Longrightarrow> xs \<noteq> [] \<and> sorted_wrt (<) xs"
    using assms b order_wf_at [OF assms(1)] by (auto split: if_splits)
  from order_wf_lookup [OF bt_insert_sorted [OF b] this] show ?thesis using b by (simp add: order_wf_def)
qed

lemma order_wf_remove: "order_wf t \<Longrightarrow> order_wf (t\<lparr>tb_order := bt_remove d (tb_order t)\<rparr>)"
  by (auto simp: order_wf_def bt_remove_def bt_remove_sorted [unfolded bt_remove_def])

lemma order_wf_slots [simp]: "order_wf (t\<lparr>tb_slots := m\<rparr>) = order_wf t"
  by (simp add: order_wf_def)

lemma scheduled_slots [simp]: "scheduled (t\<lparr>tb_slots := m\<rparr>) d k = scheduled t d k"
  by (simp add: scheduled_def)

lemma schedule_wf: "order_wf t \<Longrightarrow> order_wf (table_schedule d k t)"
  by (auto simp: table_schedule_def Let_def intro!: order_wf_insert dest: order_wf_at split: option.splits)

lemma schedule_scheduled:
  "order_wf t \<Longrightarrow> scheduled (table_schedule d k t) d' k' \<longleftrightarrow> scheduled t d' k' \<or> d' = d \<and> k' = k"
  by (cases "map_of (tb_order t) d") (auto simp: scheduled_def table_schedule_def Let_def order_wf_def)

lemma schedule_slots [simp]: "tb_slots (table_schedule d k t) = tb_slots t"
  by (simp add: table_schedule_def Let_def)

lemma unschedule_slots [simp]: "tb_slots (table_unschedule d k t) = tb_slots t"
  by (simp add: table_unschedule_def Let_def split: option.splits)

lemma unschedule_wf: "order_wf t \<Longrightarrow> order_wf (table_unschedule d k t)"
  by (auto simp: table_unschedule_def Let_def intro!: order_wf_insert order_wf_remove
      dest: order_wf_at split: option.splits)

lemma unschedule_scheduled:
  assumes "order_wf t"
  shows "scheduled (table_unschedule d k t) d' k' \<longleftrightarrow> scheduled t d' k' \<and> \<not> (d' = d \<and> k' = k)"
proof (cases "map_of (tb_order t) d")
  case None
  then show ?thesis by (auto simp: scheduled_def table_unschedule_def)
next
  case (Some keys)
  have b: "bt_sorted (tb_order t)" using assms by (simp add: order_wf_def)
  have "bs_remove k keys = [] \<longleftrightarrow> set keys \<subseteq> {k}"
    by (metis Diff_eq_empty_iff bs_remove_set set_empty)
  then show ?thesis using Some b
    by (auto simp: scheduled_def table_unschedule_def Let_def split: if_splits)
qed

subsection \<open>Putting and removing\<close>

lemma table_get_slots [simp]: "table_get (t\<lparr>tb_slots := m\<rparr>) k = map_of m k"
  by (simp add: table_get_def)

lemma table_get_put:
  "table_inv t \<Longrightarrow> table_get (table_put k s t) = (table_get t)(k \<mapsto> s)"
  by (auto simp: table_get_def table_put_def Let_def table_inv_def fun_eq_iff split: option.splits)

lemma table_put_inv:
  assumes inv: "table_inv t"
  shows "table_inv (table_put k s t)"
proof -
  have wf: "order_wf t" and b: "bt_sorted (tb_slots t)"
    and ex: "\<And>d k'. scheduled t d k' \<longleftrightarrow> (\<exists>s. table_get t k' = Some s \<and> sl_expires_at s = d)"
    using inv by (auto simp: table_inv_def)
  have slots: "bt_sorted (tb_slots (table_put k s t))"
    using b by (auto simp: table_put_def Let_def split: option.splits)
  have wf': "order_wf (table_put k s t)"
    using wf by (auto simp: table_put_def Let_def intro!: schedule_wf unschedule_wf split: option.splits)
  have "scheduled (table_put k s t) d k' \<longleftrightarrow>
      (\<exists>s'. table_get (table_put k s t) k' = Some s' \<and> sl_expires_at s' = d)" for d k'
  proof (cases "table_get t k")
    case None
    have "scheduled (table_put k s t) d k' \<longleftrightarrow> scheduled t d k' \<or> d = sl_expires_at s \<and> k' = k"
      using None wf by (auto simp: table_put_def Let_def schedule_scheduled)
    then show ?thesis using None ex by (auto simp: table_get_put [OF inv])
  next
    case (Some p)
    show ?thesis
    proof (cases "sl_expires_at p = sl_expires_at s")
      case True
      have "scheduled (table_put k s t) d k' \<longleftrightarrow> scheduled t d k'"
        using Some True by (auto simp: table_put_def Let_def)
      then show ?thesis using Some True ex by (auto simp: table_get_put [OF inv])
    next
      case False
      have "scheduled (table_put k s t) d k' \<longleftrightarrow>
          (scheduled t d k' \<and> \<not> (d = sl_expires_at p \<and> k' = k)) \<or> d = sl_expires_at s \<and> k' = k"
        using Some False wf
        by (auto simp: table_put_def Let_def schedule_scheduled unschedule_scheduled unschedule_wf)
      then show ?thesis using Some False ex by (auto simp: table_get_put [OF inv])
    qed
  qed
  then show ?thesis using slots wf' by (simp add: table_inv_def)
qed

lemma table_get_remove [simp]: "table_get (snd (table_remove k t)) = (table_get t)(k := None)"
  by (auto simp: table_get_def table_remove_def fun_eq_iff split: option.splits)

lemma table_remove_inv:
  assumes inv: "table_inv t"
  shows "table_inv (snd (table_remove k t))"
proof (cases "table_get t k")
  case None
  then show ?thesis using inv by (simp add: table_remove_def)
next
  case (Some s)
  have wf: "order_wf t" and ex: "\<And>d k'. scheduled t d k' \<longleftrightarrow>
      (\<exists>s. table_get t k' = Some s \<and> sl_expires_at s = d)"
    using inv by (auto simp: table_inv_def)
  have "scheduled (snd (table_remove k t)) d k' \<longleftrightarrow>
      scheduled t d k' \<and> \<not> (d = sl_expires_at s \<and> k' = k)" for d k'
    using Some wf by (simp add: table_remove_def unschedule_scheduled)
  then have "scheduled (snd (table_remove k t)) d k' \<longleftrightarrow>
      (\<exists>s'. table_get (snd (table_remove k t)) k' = Some s' \<and> sl_expires_at s' = d)" for d k'
    using Some ex by auto
  moreover have "order_wf (snd (table_remove k t))" "bt_sorted (tb_slots (snd (table_remove k t)))"
    using Some wf inv by (auto simp: table_remove_def table_inv_def intro!: unschedule_wf)
  ultimately show ?thesis by (simp add: table_inv_def)
qed

lemma table_new_inv [simp]: "table_inv table_new"
  by (simp add: table_inv_def table_new_def order_wf_def scheduled_def table_get_def)

lemma order_head:
  assumes inv: "table_inv t" and o: "tb_order t = (d, keys) # rest"
  obtains k ks s where "keys = k # ks" and "table_get t k = Some s" and "sl_expires_at s = d"
proof -
  obtain k ks where keys: "keys = k # ks"
    using inv o by (cases keys) (auto simp: table_inv_def order_wf_def)
  have "scheduled t d k" using o keys by (simp add: scheduled_def)
  then show ?thesis using that keys inv by (auto simp: table_inv_def)
qed

lemma pop_first_is_remove:
  assumes inv: "table_inv t" and o: "tb_order t = (d, k # ks) # rest"
  shows "table_pop_first t = snd (table_remove k t)"
proof -
  obtain s where s: "table_get t k = Some s" "sl_expires_at s = d"
    using order_head [OF inv o] by auto
  have wf: "sorted_wrt (<) (k # ks)" "bt_sorted ((d, k # ks) # rest)"
    using inv o by (auto simp: table_inv_def order_wf_def)
  have ks: "bs_remove k (k # ks) = ks" using wf(1) by (auto simp: bs_remove_def filter_id_conv)
  have rest: "bt_remove d ((d, k # ks) # rest) = rest"
    using wf(2) by (auto simp: bt_remove_def filter_id_conv image_iff)
  show ?thesis
    using s o ks rest by (auto simp: table_pop_first_def table_remove_def table_unschedule_def Let_def)
qed

subsection \<open>Sweeping\<close>

definition store_inv :: "record_state \<Rightarrow> bool" where
  "store_inv s = (table_inv (rt_instances s) \<and> table_inv (rt_promotions s))"

text \<open>What one key holds at an instant.\<close>

definition table_view :: "unix_millis \<Rightarrow> 'k table \<Rightarrow> 'k \<Rightarrow> stored_record option" where
  "table_view now t k =
     (case table_get t k of
        Some s \<Rightarrow> if sl_expires_at s > now then Some (slot_stored s) else None
      | None \<Rightarrow> None)"

text \<open>\<open>t'\<close> is \<open>t\<close> less some slots that have elapsed at \<open>now\<close>.\<close>

definition shed :: "unix_millis \<Rightarrow> 'k table \<Rightarrow> 'k table \<Rightarrow> bool" where
  "shed now t t' = (\<forall>k. table_get t' k = table_get t k
     \<or> table_get t' k = None \<and> (\<exists>s. table_get t k = Some s \<and> sl_expires_at s \<le> now))"

lemma shed_refl [simp]: "shed now t t"
  by (simp add: shed_def)

lemma shed_at:
  "shed now t t' \<Longrightarrow> table_get t' k = table_get t k
     \<or> table_get t' k = None \<and> (\<exists>s. table_get t k = Some s \<and> sl_expires_at s \<le> now)"
  by (simp add: shed_def)

lemma shed_trans: "shed now t t' \<Longrightarrow> shed now t' t'' \<Longrightarrow> shed now t t''"
  unfolding shed_def by metis

lemma shed_remove:
  "table_get t k = Some s \<Longrightarrow> sl_expires_at s \<le> now \<Longrightarrow> shed now t (snd (table_remove k t))"
  by (auto simp: shed_def)

lemma shed_view: "shed now t t' \<Longrightarrow> now \<le> later \<Longrightarrow> table_view later t' = table_view later t"
proof (rule ext)
  fix k
  assume "shed now t t'" "now \<le> later"
  then show "table_view later t' k = table_view later t k"
    using shed_at [of now t t' k] by (auto simp: table_view_def)
qed

lemma pop_due:
  assumes inv: "table_inv t" and due: "table_first_due t now = Some d"
  shows "table_inv (table_pop_first t) \<and> shed now t (table_pop_first t)
    \<and> length (tb_slots t) = Suc (length (tb_slots (table_pop_first t)))"
proof -
  obtain keys rest where o: "tb_order t = (d, keys) # rest" and d: "d \<le> now"
    using due by (auto simp: table_first_due_def split: list.splits if_splits)
  obtain k ks s where k: "keys = k # ks" "table_get t k = Some s" "sl_expires_at s = d"
    by (rule order_head [OF inv o])
  have r: "table_pop_first t = snd (table_remove k t)" using pop_first_is_remove [OF inv] o k(1) by simp
  have b: "bt_sorted (tb_slots t)" using inv by (simp add: table_inv_def)
  have "tb_slots t \<noteq> []" using k(2) by (auto simp: table_get_def)
  then have "length (tb_slots t) = Suc (length (tb_slots (snd (table_remove k t))))"
    using k(2) length_bt_remove [OF b, of k] by (simp add: table_remove_def table_get_def)
  then show ?thesis using r table_remove_inv [OF inv] shed_remove [OF k(2)] k(3) d by simp
qed

lemma reclaim_loop_sheds:
  assumes "store_inv s"
  shows "store_inv (reclaim_loop n now s)
    \<and> shed now (rt_instances s) (rt_instances (reclaim_loop n now s))
    \<and> shed now (rt_promotions s) (rt_promotions (reclaim_loop n now s))
    \<and> length (tb_slots (rt_instances s)) + length (tb_slots (rt_promotions s))
        \<le> n + length (tb_slots (rt_instances (reclaim_loop n now s)))
            + length (tb_slots (rt_promotions (reclaim_loop n now s)))"
  using assms
proof (induction n now s rule: reclaim_loop.induct)
  case (2 n now s)
  have pi: "table_first_due (rt_instances s) now = Some d \<Longrightarrow>
      store_inv (s\<lparr>rt_instances := table_pop_first (rt_instances s)\<rparr>)
      \<and> shed now (rt_instances s) (table_pop_first (rt_instances s))
      \<and> length (tb_slots (rt_instances s)) = Suc (length (tb_slots (table_pop_first (rt_instances s))))" for d
    using pop_due 2(5) by (auto simp: store_inv_def)
  have pp: "table_first_due (rt_promotions s) now = Some d \<Longrightarrow>
      store_inv (s\<lparr>rt_promotions := table_pop_first (rt_promotions s)\<rparr>)
      \<and> shed now (rt_promotions s) (table_pop_first (rt_promotions s))
      \<and> length (tb_slots (rt_promotions s)) = Suc (length (tb_slots (table_pop_first (rt_promotions s))))" for d
    using pop_due 2(5) by (auto simp: store_inv_def)
  show ?case
    using 2 pi pp
    by (auto split: option.splits intro: shed_trans)
qed simp

lemma reclaim_sheds:
  assumes "store_inv s"
  shows "store_inv (reclaim now s)"
    and "shed now (rt_instances s) (rt_instances (reclaim now s))"
    and "shed now (rt_promotions s) (rt_promotions (reclaim now s))"
    and "length (tb_slots (rt_instances s)) + length (tb_slots (rt_promotions s))
        \<le> 64 + length (tb_slots (rt_instances (reclaim now s)))
            + length (tb_slots (rt_promotions (reclaim now s)))"
  using reclaim_loop_sheds [OF assms, of 64 now]
  by (simp_all add: reclaim_def max_reclaimed_per_operation_def)

end
