(* ===== verification/Store_Interface.thy ===== *)
theory Store_Interface
  imports Record_Store_Inv
begin

text \<open>
  The record-store port of \<open>crates/suprnova-live/src/ledger/distributed.rs\<close>, the trait
  \<open>InstanceRecordStore\<close>, as a record of operations over a world, and its contract as a locale:
  what an operation returns against the records held before and after it. Two more fields stand
  for what is outside the store: the node clock the kernel reads, and what other nodes do to the
  store between two calls of one kernel. The memory store is the model of the port; its world
  carries the readings of both clocks and the calls other nodes will make between ours.
\<close>

record 'w store_ops =
  so_load :: "instance_record_key \<Rightarrow> 'w \<Rightarrow> (ledger_error + stored_record option) \<times> 'w"
  so_insert_if_absent ::
    "instance_record_key \<Rightarrow> u8 list \<Rightarrow> unix_millis \<Rightarrow> 'w \<Rightarrow> (ledger_error + bool) \<times> 'w"
  so_compare_and_store ::
    "instance_record_key \<Rightarrow> u64 \<Rightarrow> u8 list \<Rightarrow> unix_millis \<Rightarrow> 'w \<Rightarrow> (ledger_error + cas_outcome) \<times> 'w"
  so_remove :: "instance_record_key \<Rightarrow> 'w \<Rightarrow> (ledger_error + unit) \<times> 'w"
  so_load_promotion ::
    "promotion_record_key \<Rightarrow> 'w \<Rightarrow> (ledger_error + stored_record option) \<times> 'w"
  so_insert_promotion_if_absent ::
    "promotion_record_key \<Rightarrow> u8 list \<Rightarrow> unix_millis \<Rightarrow> 'w \<Rightarrow> (ledger_error + bool) \<times> 'w"
  so_count_instances :: "'w \<Rightarrow> (ledger_error + usize) \<times> 'w"
  so_soonest_expiring_instances ::
    "usize \<Rightarrow> 'w \<Rightarrow> (ledger_error + (instance_record_key \<times> stored_record) list) \<times> 'w"
  so_compare_and_remove :: "instance_record_key \<Rightarrow> u64 \<Rightarrow> 'w \<Rightarrow> (ledger_error + bool) \<times> 'w"
  so_node_now :: "'w \<Rightarrow> unix_millis option \<times> 'w"
  so_interfere :: "'w \<Rightarrow> 'w"

subsection \<open>The contract\<close>

text \<open>
  A law relates the records held before an operation, its answer and the records held after.
  \<open>fewer\<close> says that nothing changed except that some keys stopped being held: store time may
  retire elapsed records inside any operation.
\<close>

type_synonym holdings = "instance_record_key \<Rightarrow> stored_record option"
type_synonym promises = "promotion_record_key \<Rightarrow> stored_record option"

definition fewer :: "('k \<Rightarrow> 'a option) \<Rightarrow> ('k \<Rightarrow> 'a option) \<Rightarrow> bool" where
  "fewer h h' = (\<forall>k. h' k = h k \<or> h' k = None)"

definition load_law ::
  "('k \<Rightarrow> 'a option) \<Rightarrow> 'k \<Rightarrow> ledger_error + 'a option \<Rightarrow> ('k \<Rightarrow> 'a option) \<Rightarrow> bool" where
  "load_law h k r h' = (fewer h h' \<and> (case r of Inr s \<Rightarrow> h' k = s | Inl _ \<Rightarrow> True))"

definition insert_law ::
  "('k \<Rightarrow> stored_record option) \<Rightarrow> 'k \<Rightarrow> u8 list \<Rightarrow> unix_millis \<Rightarrow> ledger_error + bool \<Rightarrow>
   ('k \<Rightarrow> stored_record option) \<Rightarrow> bool" where
  "insert_law h k bs e r h' =
     (if r = Inr True
      then fewer (h(k \<mapsto> \<lparr>sr_bytes = bs, sr_version = 1, sr_expires_at = e\<rparr>)) h' \<and> h' k \<noteq> None
      else fewer h h' \<and> (r = Inr False \<longrightarrow> h' k \<noteq> None))"

fun cas_law ::
  "holdings \<Rightarrow> instance_record_key \<Rightarrow> u64 \<Rightarrow> u8 list \<Rightarrow> unix_millis \<Rightarrow> ledger_error + cas_outcome \<Rightarrow>
   holdings \<Rightarrow> bool" where
  "cas_law h k v bs e (Inr (CasStored v')) h' =
     (unat v' = Suc (unat v) \<and> (case h k of Some s \<Rightarrow> sr_version s = v | None \<Rightarrow> False)
      \<and> fewer (h(k \<mapsto> \<lparr>sr_bytes = bs, sr_version = v', sr_expires_at = e\<rparr>)) h' \<and> h' k \<noteq> None)"
| "cas_law h k v bs e (Inr CasConflict) h' =
     (fewer h h' \<and> (case h' k of Some s \<Rightarrow> sr_version s \<noteq> v | None \<Rightarrow> False))"
| "cas_law h k v bs e (Inr CasMissing) h' = (fewer h h' \<and> h' k = None)"
| "cas_law h k v bs e (Inl _) h' = fewer h h'"

definition remove_law ::
  "holdings \<Rightarrow> instance_record_key \<Rightarrow> ledger_error + unit \<Rightarrow> holdings \<Rightarrow> bool" where
  "remove_law h k r h' = (h' = (if is_ok r then h(k := None) else h))"

definition remove_at_law ::
  "holdings \<Rightarrow> instance_record_key \<Rightarrow> u64 \<Rightarrow> ledger_error + bool \<Rightarrow> holdings \<Rightarrow> bool" where
  "remove_at_law h k v r h' =
     (if r = Inr True
      then (case h k of Some s \<Rightarrow> sr_version s = v | None \<Rightarrow> False) \<and> h' = h(k := None)
      else h' = h)"

definition soonest_law ::
  "holdings \<Rightarrow> usize \<Rightarrow> ledger_error + (instance_record_key \<times> stored_record) list \<Rightarrow> holdings \<Rightarrow> bool" where
  "soonest_law h limit r h' =
     (fewer h h' \<and> (case r of
        Inl _ \<Rightarrow> True
      | Inr xs \<Rightarrow> length xs \<le> limit \<and> distinct (map fst xs)
          \<and> (\<forall>(k, s) \<in> set xs. h' k = Some s) \<and> sorted (map (sr_expires_at \<circ> snd) xs)))"

text \<open>
  Versions belong to a record and not to a key: a record removed and created again starts over. So a
  version names one state of a record only at the keys (\<open>one_life\<close>) where nobody else creates a record
  again, which the 128-bit random instance identities make negligible.
\<close>

locale record_store =
  fixes ops :: "'w store_ops"
    and inv :: "'w \<Rightarrow> bool"
    and held :: "'w \<Rightarrow> holdings"
    and promised :: "'w \<Rightarrow> promises"
    and one_life :: "instance_record_key \<Rightarrow> bool"
  assumes load: "inv w \<Longrightarrow> so_load ops k w = (rl, w') \<Longrightarrow>
      inv w' \<and> load_law (held w) k rl (held w')"
    and insert: "inv w \<Longrightarrow> so_insert_if_absent ops k bs e w = (ri, w') \<Longrightarrow>
      inv w' \<and> insert_law (held w) k bs e ri (held w')"
    and cas: "inv w \<Longrightarrow> so_compare_and_store ops k v bs e w = (rc, w') \<Longrightarrow>
      inv w' \<and> cas_law (held w) k v bs e rc (held w')"
    and remove: "inv w \<Longrightarrow> so_remove ops k w = (rr, w') \<Longrightarrow>
      inv w' \<and> remove_law (held w) k rr (held w')"
    and remove_at: "inv w \<Longrightarrow> so_compare_and_remove ops k v w = (ra, w') \<Longrightarrow>
      inv w' \<and> remove_at_law (held w) k v ra (held w')"
    and load_promotion: "inv w \<Longrightarrow> so_load_promotion ops pk w = (rp, w') \<Longrightarrow>
      inv w' \<and> fewer (held w) (held w') \<and> load_law (promised w) pk rp (promised w')"
    and insert_promotion: "inv w \<Longrightarrow> so_insert_promotion_if_absent ops pk bs e w = (rq, w') \<Longrightarrow>
      inv w' \<and> fewer (held w) (held w') \<and> insert_law (promised w) pk bs e rq (promised w')"
    and count: "inv w \<Longrightarrow> so_count_instances ops w = (rn, w') \<Longrightarrow>
      inv w' \<and> fewer (held w) (held w')"
    and soonest: "inv w \<Longrightarrow> so_soonest_expiring_instances ops limit w = (rs, w') \<Longrightarrow>
      inv w' \<and> soonest_law (held w) limit rs (held w')"
    and node_now: "inv w \<Longrightarrow> so_node_now ops w = (n, w') \<Longrightarrow>
      inv w' \<and> held w' = held w \<and> promised w' = promised w"
    and interfere: "inv w \<Longrightarrow> inv (so_interfere ops w)"
      "inv w \<Longrightarrow> one_life k \<Longrightarrow> held w k = Some s \<Longrightarrow> held (so_interfere ops w) k = Some s' \<Longrightarrow>
         sr_version s' = sr_version s \<Longrightarrow> s' = s"

lemma fewer_refl [simp]: "fewer h h"
  by (simp add: fewer_def)

lemma fewer_trans: "fewer h h' \<Longrightarrow> fewer h' h'' \<Longrightarrow> fewer h h''"
  unfolding fewer_def by metis

lemma fewer_SomeD: "fewer h h' \<Longrightarrow> h' k = Some s \<Longrightarrow> h k = Some s"
  unfolding fewer_def by (drule spec [of _ k]) auto

lemma fewer_at: "fewer h h' \<Longrightarrow> h' k \<noteq> None \<Longrightarrow> h' k = h k"
  unfolding fewer_def by metis

lemma fewer_upd_mono: "fewer h h' \<Longrightarrow> fewer (h(k := x)) (h'(k := x))"
  by (simp add: fewer_def)

lemma load_law_loses: "fewer h h1 \<Longrightarrow> load_law h1 k r h' \<Longrightarrow> load_law h k r h'"
  by (auto simp: load_law_def intro: fewer_trans)

lemma insert_law_loses: "fewer h h1 \<Longrightarrow> insert_law h1 k bs e r h' \<Longrightarrow> insert_law h k bs e r h'"
  by (auto simp: insert_law_def intro: fewer_trans fewer_upd_mono)

lemma cas_law_loses: "fewer h h1 \<Longrightarrow> cas_law h1 k v bs e r h' \<Longrightarrow> cas_law h k v bs e r h'"
  by (induction h k v bs e r h' rule: cas_law.induct)
    (auto intro: fewer_trans fewer_upd_mono split: option.splits dest: fewer_SomeD)

lemma soonest_law_loses: "fewer h h1 \<Longrightarrow> soonest_law h1 l r h' \<Longrightarrow> soonest_law h l r h'"
  by (auto simp: soonest_law_def intro: fewer_trans)

subsection \<open>The memory store as a world\<close>

text \<open>
  What another node may call on the shared store: every operation of the port, with the reading the
  store's clock gives it. A mount inserts, a transition replaces, a retirement replaces regardless of the
  clock, an eviction lists candidates and removes, and any clocked call retires what has elapsed.
\<close>

datatype foreign_call =
    ForeignLoad "unix_millis option" instance_record_key
  | ForeignInsert "unix_millis option" instance_record_key "u8 list" unix_millis
  | ForeignReplace "unix_millis option" timing instance_record_key u64 "u8 list" unix_millis
  | ForeignRemove instance_record_key
  | ForeignRemoveAt instance_record_key u64
  | ForeignLoadPromotion "unix_millis option" promotion_record_key
  | ForeignInsertPromotion "unix_millis option" promotion_record_key "u8 list" unix_millis
  | ForeignCount "unix_millis option"
  | ForeignSoonest "unix_millis option" usize

fun foreign_store :: "foreign_call \<Rightarrow> memory_record_store \<Rightarrow> memory_record_store" where
  "foreign_store (ForeignLoad c k) m = snd (store_load_record c k Elapsing m)"
| "foreign_store (ForeignInsert c k bs e) m = snd (store_insert_record_if_absent c k bs e m)"
| "foreign_store (ForeignReplace c timing k v bs e) m = snd (store_replace_record c k v bs e timing m)"
| "foreign_store (ForeignRemove k) m = snd (store_remove_record k m)"
| "foreign_store (ForeignRemoveAt k v) m = snd (store_remove_record_at k v m)"
| "foreign_store (ForeignLoadPromotion c pk) m = snd (store_load_reservation c pk m)"
| "foreign_store (ForeignInsertPromotion c pk bs e) m = snd (store_insert_reservation_if_absent c pk bs e m)"
| "foreign_store (ForeignCount c) m = snd (store_count_records c m)"
| "foreign_store (ForeignSoonest c limit) m = snd (store_soonest_records c limit m)"

text \<open>The calls that may create the record of a key.\<close>

fun creates :: "instance_record_key \<Rightarrow> foreign_call \<Rightarrow> bool" where
  "creates k (ForeignInsert c k' bs e) = (k' = k)"
| "creates k _ = False"

record mem_world =
  mw_store :: memory_record_store
  mw_store_clock :: "unix_millis option list"
  mw_node_clock :: "unix_millis option list"
  mw_foreign :: "foreign_call list list"

text \<open>The next reading of a clock; a clock with no reading left cannot be read.\<close>

fun next_reading :: "unix_millis option list \<Rightarrow> unix_millis option \<times> unix_millis option list" where
  "next_reading [] = (None, [])"
| "next_reading (r # rs) = (r, rs)"

definition on_timed_store ::
  "(unix_millis option \<Rightarrow> 'a store_op) \<Rightarrow> mem_world \<Rightarrow> (ledger_error + 'a) \<times> mem_world" where
  "on_timed_store f w =
     (let (clock, rest) = next_reading (mw_store_clock w);
          (r, m) = f clock (mw_store w)
      in (r, w\<lparr>mw_store := m, mw_store_clock := rest\<rparr>))"

definition on_store :: "'a store_op \<Rightarrow> mem_world \<Rightarrow> (ledger_error + 'a) \<times> mem_world" where
  "on_store f w = (let (r, m) = f (mw_store w) in (r, w\<lparr>mw_store := m\<rparr>))"

definition node_reading :: "mem_world \<Rightarrow> unix_millis option \<times> mem_world" where
  "node_reading w =
     (let (r, rest) = next_reading (mw_node_clock w) in (r, w\<lparr>mw_node_clock := rest\<rparr>))"

text \<open>
  At each await point of this node, the next batch of calls lands: as many as the other nodes make, in
  the order the store takes them.
\<close>

definition land_foreign :: "mem_world \<Rightarrow> mem_world" where
  "land_foreign w =
     (case mw_foreign w of
        [] \<Rightarrow> w
      | calls # rest \<Rightarrow> w\<lparr>mw_foreign := rest, mw_store := fold foreign_store calls (mw_store w)\<rparr>)"

definition created_once :: "instance_record_key \<Rightarrow> mem_world \<Rightarrow> bool" where
  "created_once k w = (\<forall>calls \<in> set (mw_foreign w). \<forall>call \<in> set calls. \<not> creates k call)"

text \<open>\<open>impl InstanceRecordStore for MemoryRecordStore\<close>.\<close>

definition memory_ops :: "mem_world store_ops" where
  "memory_ops =
     \<lparr>so_load = (\<lambda>k. on_timed_store (\<lambda>c. store_load_record c k Elapsing)),
      so_insert_if_absent = (\<lambda>k bs e. on_timed_store (\<lambda>c. store_insert_record_if_absent c k bs e)),
      so_compare_and_store =
        (\<lambda>k v bs e. on_timed_store (\<lambda>c. store_replace_record c k v bs e Elapsing)),
      so_remove = (\<lambda>k. on_store (store_remove_record k)),
      so_load_promotion = (\<lambda>k. on_timed_store (\<lambda>c. store_load_reservation c k)),
      so_insert_promotion_if_absent =
        (\<lambda>k bs e. on_timed_store (\<lambda>c. store_insert_reservation_if_absent c k bs e)),
      so_count_instances = on_timed_store store_count_records,
      so_soonest_expiring_instances = (\<lambda>limit. on_timed_store (\<lambda>c. store_soonest_records c limit)),
      so_compare_and_remove = (\<lambda>k v. on_store (store_remove_record_at k v)),
      so_node_now = node_reading,
      so_interfere = land_foreign\<rparr>"

definition mw_inv :: "mem_world \<Rightarrow> bool" where
  "mw_inv w = store_inv (mr_state (mw_store w))"

definition mw_held :: "mem_world \<Rightarrow> instance_record_key \<Rightarrow> stored_record option" where
  "mw_held w k = map_option slot_stored (table_get (rt_instances (mr_state (mw_store w))) k)"

definition mw_promised :: "mem_world \<Rightarrow> promotion_record_key \<Rightarrow> stored_record option" where
  "mw_promised w k = map_option slot_stored (table_get (rt_promotions (mr_state (mw_store w))) k)"

subsection \<open>The operations over the tables\<close>

definition held_in :: "record_state \<Rightarrow> instance_record_key \<Rightarrow> stored_record option" where
  "held_in s k = map_option slot_stored (table_get (rt_instances s) k)"

definition promised_in :: "record_state \<Rightarrow> promotion_record_key \<Rightarrow> stored_record option" where
  "promised_in s k = map_option slot_stored (table_get (rt_promotions s) k)"

lemma shed_fewer:
  "shed now (rt_instances s) (rt_instances s') \<Longrightarrow> fewer (held_in s) (held_in s')"
proof (unfold fewer_def held_in_def, rule allI)
  fix k
  assume "shed now (rt_instances s) (rt_instances s')"
  from shed_at [OF this, of k] show "map_option slot_stored (table_get (rt_instances s') k)
      = map_option slot_stored (table_get (rt_instances s) k)
    \<or> map_option slot_stored (table_get (rt_instances s') k) = None" by auto
qed

lemma reclaim_fewer: "store_inv s \<Longrightarrow> store_inv (reclaim now s) \<and> fewer (held_in s) (held_in (reclaim now s))"
  using reclaim_sheds shed_fewer by blast

lemma held_in_instances [simp]:
  "held_in (s\<lparr>rt_instances := t\<rparr>) k = map_option slot_stored (table_get t k)"
  "held_in (s\<lparr>rt_promotions := u\<rparr>) = held_in s"
  "promised_in (s\<lparr>rt_promotions := u\<rparr>) k' = map_option slot_stored (table_get u k')"
  by (simp_all add: held_in_def promised_in_def fun_eq_iff)

lemma store_inv_update [simp]:
  "store_inv (s\<lparr>rt_instances := t\<rparr>) = (table_inv t \<and> table_inv (rt_promotions s))"
  "store_inv (s\<lparr>rt_promotions := u\<rparr>) = (table_inv (rt_instances s) \<and> table_inv u)"
  by (simp_all add: store_inv_def)

definition holds :: "'k table \<Rightarrow> 'k \<Rightarrow> stored_record option" where
  "holds t k = map_option slot_stored (table_get t k)"

lemma take_unexpired_law:
  assumes "table_inv t" and "table_take_unexpired k now t = (x, t')"
  shows "table_inv t' \<and> load_law (holds t) k (Inr x) (holds t')"
  using assms table_remove_inv [OF assms(1), of k]
  by (auto simp: table_take_unexpired_def load_law_def fewer_def holds_def
      split: option.splits if_splits)

lemma insert_absent_law:
  assumes "table_inv t" and "table_insert_absent k bs e now t = (x, t')"
  shows "table_inv t' \<and> insert_law (holds t) k bs e (Inr x) (holds t')"
  using assms table_put_inv [OF assms(1)]
  by (auto simp: table_insert_absent_def first_version_def table_get_put insert_law_def fewer_def
      holds_def slot_stored_def split: option.splits if_splits)

lemma replace_at_law:
  assumes inv: "store_inv s" and r: "replace_at k v bs e s = (r, s')"
  shows "store_inv s' \<and> cas_law (held_in s) k v bs e r (held_in s')"
proof (cases "table_get (rt_instances s) k")
  case None
  then show ?thesis using inv r by (auto simp: replace_at_def held_in_def)
next
  case (Some slot)
  have ti: "table_inv (rt_instances s)" "table_inv (rt_promotions s)" using inv by (auto simp: store_inv_def)
  show ?thesis
  proof (cases "sl_version slot = v")
    case False
    then show ?thesis using Some inv r by (auto simp: replace_at_def held_in_def slot_stored_def)
  next
    case True
    show ?thesis
    proof (cases "checked_add_u64 v 1")
      case None
      then show ?thesis using Some True inv r by (auto simp: replace_at_def)
    next
      case c: (Some v')
      let ?x = "\<lparr>sl_bytes = bs, sl_version = v', sl_expires_at = e\<rparr>"
      have s': "r = Inr (CasStored v')" "s' = s\<lparr>rt_instances := table_put k ?x (rt_instances s)\<rparr>"
        using Some True c r by (auto simp: replace_at_def)
      have "held_in s' = (held_in s)(k \<mapsto> \<lparr>sr_bytes = bs, sr_version = v', sr_expires_at = e\<rparr>)"
        using ti by (auto simp: s' fun_eq_iff table_get_put slot_stored_def held_in_def)
      then show ?thesis
        using Some True checked_add_u64_1 [OF c] ti
        by (simp add: s'(1) table_put_inv held_in_def slot_stored_def) (simp add: s'(2) table_put_inv)
    qed
  qed
qed

lemma drop_elapsed_effect:
  assumes "store_inv s"
  shows "store_inv (drop_elapsed k now s) \<and> fewer (held_in s) (held_in (drop_elapsed k now s))"
  using assms by (auto simp: drop_elapsed_def table_remove_inv fewer_def store_inv_def held_in_def)

lemma soonest_subset:
  "(k, r) \<in> set (table_soonest t limit) \<Longrightarrow> map_option slot_stored (table_get t k) = Some r"
  by (auto simp: table_soonest_def List.map_filter_def split: option.splits)

end
