(* ===== verification/Memory_Store.thy ===== *)
theory Memory_Store
  imports Store_Interface
begin

text \<open>
  The in-process record store keeps the contract of the port: the interpretation of
  \<open>record_store\<close> on \<open>memory_ops\<close>, and what the contract leaves to the implementation: exactness of
  the eviction order and the bound on reclamation.
\<close>

subsection \<open>The eviction order\<close>

definition flat_order :: "'k table \<Rightarrow> 'k list" where
  "flat_order t = concat (map snd (tb_order t))"

definition deadline_of :: "'k table \<Rightarrow> 'k \<Rightarrow> unix_millis" where
  "deadline_of t k = (case table_get t k of Some s \<Rightarrow> sl_expires_at s | None \<Rightarrow> 0)"

lemma flat_sorted:
  fixes os :: "(unix_millis \<times> 'k :: linorder list) list"
  assumes "bt_sorted os" and "\<forall>(d, ks) \<in> set os. sorted_wrt (<) ks \<and> (\<forall>k \<in> set ks. f k = d)"
  shows "distinct (concat (map snd os)) \<and> sorted (map f (concat (map snd os)))
    \<and> (\<forall>k \<in> set (concat (map snd os)). f k \<in> fst ` set os)"
  using assms
proof (induction os)
  case (Cons x os)
  obtain d ks where x: "x = (d, ks)" by (cases x)
  have ih: "distinct (concat (map snd os))" "sorted (map f (concat (map snd os)))"
    "\<forall>k \<in> set (concat (map snd os)). f k \<in> fst ` set os"
    using Cons x by auto
  have d: "\<forall>e \<in> fst ` set os. d < e" using Cons.prems(1) x by simp
  have ks: "distinct ks" "\<forall>k \<in> set ks. f k = d" using Cons.prems(2) x by (auto simp: strict_sorted_iff)
  have after: "\<forall>k \<in> set (concat (map snd os)). d < f k" using ih(3) d by blast
  have "set ks \<inter> set (concat (map snd os)) = {}" using ks(2) after by fastforce
  moreover have "sorted (map f ks)" using ks(2) by (induction ks) auto
  moreover have "\<forall>a \<in> set ks. \<forall>b \<in> set (concat (map snd os)). f a \<le> f b"
    using ks(2) after by (auto intro: less_imp_le)
  ultimately show ?case using x ih ks by (auto simp: sorted_append)
qed simp

lemma table_order_flat:
  assumes inv: "table_inv t"
  shows "distinct (flat_order t) \<and> sorted (map (deadline_of t) (flat_order t))
    \<and> set (flat_order t) = dom (table_get t)"
proof -
  have ex: "\<And>d k'. scheduled t d k' \<longleftrightarrow> (\<exists>s. table_get t k' = Some s \<and> sl_expires_at s = d)"
    and wf: "bt_sorted (tb_order t)" "\<forall>(d, ks) \<in> set (tb_order t). ks \<noteq> [] \<and> sorted_wrt (<) ks"
    using inv by (auto simp: table_inv_def order_wf_def)
  have at: "(d, ks) \<in> set (tb_order t) \<Longrightarrow> k \<in> set ks \<Longrightarrow> scheduled t d k" for d ks k
    using map_of_bt_iff [OF wf(1)] by (auto simp: scheduled_def)
  have "\<forall>(d, ks) \<in> set (tb_order t). sorted_wrt (<) ks \<and> (\<forall>k \<in> set ks. deadline_of t k = d)"
    using wf(2) at ex by (fastforce simp: deadline_of_def)
  from flat_sorted [OF wf(1) this] have "distinct (flat_order t)" "sorted (map (deadline_of t) (flat_order t))"
    by (auto simp: flat_order_def)
  moreover have "k \<in> set (flat_order t) \<longleftrightarrow> k \<in> dom (table_get t)" for k
  proof
    assume "k \<in> set (flat_order t)"
    then show "k \<in> dom (table_get t)" using at ex by (fastforce simp: flat_order_def)
  next
    assume "k \<in> dom (table_get t)"
    then obtain d where "scheduled t d k" using ex by blast
    then obtain ks where "map_of (tb_order t) d = Some ks" "k \<in> set ks" by (auto simp: scheduled_def)
    then show "k \<in> set (flat_order t)"
      by (auto simp: flat_order_def dest!: map_of_SomeD intro!: bexI [of _ "(d, ks)"])
  qed
  ultimately show ?thesis by blast
qed

lemma table_soonest_map:
  assumes "table_inv t"
  shows "table_soonest t limit = map (\<lambda>k. (k, slot_stored (the (table_get t k)))) (take limit (flat_order t))"
proof -
  have "List.map_filter (\<lambda>k. map_option (\<lambda>slot. (k, slot_stored slot)) (table_get t k)) ks
      = map (\<lambda>k. (k, slot_stored (the (table_get t k)))) ks" if "set ks \<subseteq> dom (table_get t)" for ks
    using that by (induction ks) (auto simp: List.map_filter_simps)
  moreover have "set (take limit (flat_order t)) \<subseteq> dom (table_get t)"
    using table_order_flat [OF assms] set_take_subset [of limit "flat_order t"] by auto
  ultimately show ?thesis by (simp add: table_soonest_def flat_order_def)
qed

lemma slot_stored_sel [simp]:
  "sr_bytes (slot_stored s) = sl_bytes s" "sr_version (slot_stored s) = sl_version s"
  "sr_expires_at (slot_stored s) = sl_expires_at s"
  by (simp_all add: slot_stored_def)

lemma table_soonest_spec:
  assumes inv: "table_inv t"
  shows "length (table_soonest t limit) \<le> limit \<and> distinct (map fst (table_soonest t limit))
    \<and> (\<forall>(k, s) \<in> set (table_soonest t limit). map_option slot_stored (table_get t k) = Some s)
    \<and> sorted (map (sr_expires_at \<circ> snd) (table_soonest t limit))"
proof -
  let ?ks = "take limit (flat_order t)"
  have fo: "distinct ?ks" "sorted (map (deadline_of t) ?ks)" "set ?ks \<subseteq> dom (table_get t)"
    using table_order_flat [OF inv] set_take_subset [of limit "flat_order t"]
    by (auto simp: take_map [symmetric] sorted_wrt_take)
  have "map (sr_expires_at \<circ> snd) (table_soonest t limit) = map (deadline_of t) ?ks"
    using fo(3) by (auto simp: table_soonest_map [OF inv] deadline_of_def)
  then have "sorted (map (sr_expires_at \<circ> snd) (table_soonest t limit))" using fo(2) by (simp only:)
  moreover have "length (table_soonest t limit) \<le> limit" "distinct (map fst (table_soonest t limit))"
    using fo(1) by (simp_all add: table_soonest_map [OF inv] comp_def)
  ultimately show ?thesis using soonest_subset [of _ _ t limit] by blast
qed

subsection \<open>The contract\<close>

lemma mw_held_eq: "mw_held w = held_in (mr_state (mw_store w))"
  by (simp add: mw_held_def held_in_def fun_eq_iff)

lemma mw_promised_eq: "mw_promised w = promised_in (mr_state (mw_store w))"
  by (simp add: mw_promised_def promised_in_def fun_eq_iff)

lemma on_timed_storeE:
  assumes "on_timed_store f w = (r, w')"
  obtains clock m where "f clock (mw_store w) = (r, m)" "mw_store w' = m"
  using assms by (auto simp: on_timed_store_def Let_def split: prod.splits)

lemma on_storeE:
  assumes "on_store f w = (r, w')"
  obtains m where "f (mw_store w) = (r, m)" "mw_store w' = m"
  using assms by (auto simp: on_store_def Let_def split: prod.splits)

text \<open>What a locked operation does is what it does to the tables, or nothing.\<close>

lemma with_lockE:
  assumes "with_lock f m = (r, m')"
  obtains "r = Inl ProviderUnavailable" "m' = m"
    | s where "f (mr_state m) = (r, s)" "mr_state m' = s" "\<not> mr_poisoned m"
  using assms by (auto simp: with_lock_def Let_def split: if_splits prod.splits)

lemma with_sweepE:
  assumes "with_sweep clock f s = (r, s')"
  obtains "r = Inl ClockUnavailable" "s' = s"
    | now where "clock = Some now" "f now (reclaim now s) = (r, s')"
  using assms by (auto simp: with_sweep_def split: option.splits)

lemma reclaim_promised_fewer:
  assumes "store_inv s"
  shows "fewer (promised_in s) (promised_in (reclaim now s))"
proof (unfold fewer_def promised_in_def, rule allI)
  fix k
  from shed_at [OF reclaim_sheds(3) [OF assms], of now k]
  show "map_option slot_stored (table_get (rt_promotions (reclaim now s)) k)
      = map_option slot_stored (table_get (rt_promotions s) k)
    \<or> map_option slot_stored (table_get (rt_promotions (reclaim now s)) k) = None" by auto
qed

lemma holds_held_in:
  "held_in s = holds (rt_instances s)" "promised_in s = holds (rt_promotions s)"
  by (simp_all add: held_in_def promised_in_def holds_def fun_eq_iff)

lemma elapsing_ops:
  "store_load_record c k Elapsing = with_lock (with_sweep c (\<lambda>now s.
     let (r, t) = table_take_unexpired k now (rt_instances s) in (Inr r, s\<lparr>rt_instances := t\<rparr>)))"
  "store_replace_record c k v bs e Elapsing = with_lock (with_sweep c (\<lambda>now s.
     replace_at k v bs e (drop_elapsed k now s)))"
  by (simp_all add: store_load_record_def store_replace_record_def)

lemma on_timed_sweep:
  assumes op: "on_timed_store (\<lambda>c. with_lock (with_sweep c f)) w = (r, w')" and inv: "mw_inv w"
  obtains e where "r = Inl e" "mr_state (mw_store w') = mr_state (mw_store w)"
    | now where "f now (reclaim now (mr_state (mw_store w))) = (r, mr_state (mw_store w'))"
        "store_inv (reclaim now (mr_state (mw_store w)))"
        "fewer (held_in (mr_state (mw_store w))) (held_in (reclaim now (mr_state (mw_store w))))"
        "fewer (promised_in (mr_state (mw_store w))) (promised_in (reclaim now (mr_state (mw_store w))))"
proof -
  have i: "store_inv (mr_state (mw_store w))" using inv by (simp add: mw_inv_def)
  obtain c m where m: "with_lock (with_sweep c f) (mw_store w) = (r, m)" "mw_store w' = m"
    using on_timed_storeE [OF op] by blast
  from m(1) show ?thesis
  proof (cases rule: with_lockE)
    case 1
    then show ?thesis using that(1) m by simp
  next
    case (2 s)
    from 2(1) show ?thesis
    proof (cases rule: with_sweepE)
      case 1
      then show ?thesis using that(1) m 2 by simp
    next
      case (2 now)
      show ?thesis
        using that(2) [of now] 2 m \<open>mr_state m = s\<close> reclaim_fewer [OF i, of now]
          reclaim_promised_fewer [OF i, of now] by simp
    qed
  qed
qed

lemma mem_load:
  assumes inv: "mw_inv w" and op: "so_load memory_ops k w = (r, w')"
  shows "mw_inv w' \<and> load_law (mw_held w) k r (mw_held w')"
proof -
  have "on_timed_store (\<lambda>c. with_lock (with_sweep c (\<lambda>now s.
      let (r, t) = table_take_unexpired k now (rt_instances s) in (Inr r, s\<lparr>rt_instances := t\<rparr>)))) w = (r, w')"
    using op by (simp add: memory_ops_def elapsing_ops)
  from on_timed_sweep [OF this inv] show ?thesis
  proof cases
    case (1 e)
    then show ?thesis using inv by (simp add: mw_inv_def mw_held_eq load_law_def)
  next
    case (2 now)
    let ?s = "reclaim now (mr_state (mw_store w))"
    obtain x t where t: "table_take_unexpired k now (rt_instances ?s) = (x, t)" by fastforce
    have ti: "table_inv (rt_instances ?s)" "table_inv (rt_promotions ?s)"
      using 2(2) by (auto simp: store_inv_def)
    have s': "mr_state (mw_store w') = ?s\<lparr>rt_instances := t\<rparr>" "r = Inr x" using 2(1) t by auto
    have "load_law (held_in ?s) k r (held_in (mr_state (mw_store w')))"
      using take_unexpired_law [OF ti(1) t] s' by (simp add: holds_held_in)
    then show ?thesis
      using load_law_loses [OF 2(3)] take_unexpired_law [OF ti(1) t] ti s'
      by (simp add: mw_inv_def mw_held_eq)
  qed
qed

lemma mem_insert:
  assumes inv: "mw_inv w" and op: "so_insert_if_absent memory_ops k bs e w = (r, w')"
  shows "mw_inv w' \<and> insert_law (mw_held w) k bs e r (mw_held w')"
proof -
  have "on_timed_store (\<lambda>c. with_lock (with_sweep c (\<lambda>now s.
      let (r, t) = table_insert_absent k bs e now (rt_instances s)
      in (Inr r, s\<lparr>rt_instances := t\<rparr>)))) w = (r, w')"
    using op by (simp add: memory_ops_def store_insert_record_if_absent_def)
  from on_timed_sweep [OF this inv] show ?thesis
  proof cases
    case (1 e)
    then show ?thesis using inv by (simp add: mw_inv_def mw_held_eq insert_law_def)
  next
    case (2 now)
    let ?s = "reclaim now (mr_state (mw_store w))"
    obtain x t where t: "table_insert_absent k bs e now (rt_instances ?s) = (x, t)" by fastforce
    have ti: "table_inv (rt_instances ?s)" "table_inv (rt_promotions ?s)"
      using 2(2) by (auto simp: store_inv_def)
    have s': "mr_state (mw_store w') = ?s\<lparr>rt_instances := t\<rparr>" "r = Inr x" using 2(1) t by auto
    have "insert_law (held_in ?s) k bs e r (held_in (mr_state (mw_store w')))"
      using insert_absent_law [OF ti(1) t] s' by (simp add: holds_held_in)
    then show ?thesis
      using insert_law_loses [OF 2(3)] insert_absent_law [OF ti(1) t] ti s'
      by (simp add: mw_inv_def mw_held_eq)
  qed
qed

lemma mem_cas:
  assumes inv: "mw_inv w" and op: "so_compare_and_store memory_ops k v bs e w = (r, w')"
  shows "mw_inv w' \<and> cas_law (mw_held w) k v bs e r (mw_held w')"
proof -
  have "on_timed_store (\<lambda>c. with_lock (with_sweep c (\<lambda>now s.
      replace_at k v bs e (drop_elapsed k now s)))) w = (r, w')"
    using op by (simp add: memory_ops_def elapsing_ops)
  from on_timed_sweep [OF this inv] show ?thesis
  proof cases
    case (1 e)
    then show ?thesis using inv by (simp add: mw_inv_def mw_held_eq)
  next
    case (2 now)
    note de = drop_elapsed_effect [OF 2(2), of k now]
    note law = replace_at_law [OF conjunct1 [OF de] 2(1)]
    have "fewer (held_in (mr_state (mw_store w)))
        (held_in (drop_elapsed k now (reclaim now (mr_state (mw_store w)))))"
      using de 2(3) by (blast intro: fewer_trans)
    from cas_law_loses [OF this] law show ?thesis by (simp add: mw_inv_def mw_held_eq)
  qed
qed

lemma cas_result_cases:
  obtains e where "r = Inl e" | v where "r = Inr (CasStored v)" | "r = Inr CasConflict"
    | "r = Inr CasMissing"
  by (cases r; cases "projr r") auto

lemma on_locked:
  assumes "on_store (with_lock f) w = (r, w')"
  obtains "r = Inl ProviderUnavailable" "mr_state (mw_store w') = mr_state (mw_store w)"
    | "f (mr_state (mw_store w)) = (r, mr_state (mw_store w'))"
proof -
  obtain m where m: "with_lock f (mw_store w) = (r, m)" "mw_store w' = m"
    using on_storeE [OF assms] by blast
  from m(1) show ?thesis using that m(2) by (cases rule: with_lockE) auto
qed

lemma removed_inv: "store_inv s \<Longrightarrow> store_inv (s\<lparr>rt_instances := snd (table_remove k (rt_instances s))\<rparr>)"
  by (simp add: table_remove_inv store_inv_def)

lemma removed_held:
  "held_in (s\<lparr>rt_instances := snd (table_remove k (rt_instances s))\<rparr>) = (held_in s)(k := None)"
  by (auto simp: held_in_def fun_eq_iff)

lemma mem_remove:
  assumes inv: "mw_inv w" and op: "so_remove memory_ops k w = (r, w')"
  shows "mw_inv w' \<and> remove_law (mw_held w) k r (mw_held w')"
proof -
  have "on_store (with_lock (\<lambda>s. (Inr (), s\<lparr>rt_instances :=
      snd (table_remove k (rt_instances s))\<rparr>))) w = (r, w')"
    using op by (simp add: memory_ops_def store_remove_record_def)
  then show ?thesis
  proof (cases rule: on_locked)
    case 1
    then show ?thesis using inv by (simp add: mw_inv_def mw_held_eq remove_law_def)
  next
    case 2
    then have r: "r = Inr ()" and s': "mr_state (mw_store w') = (mr_state (mw_store w))\<lparr>rt_instances :=
        snd (table_remove k (rt_instances (mr_state (mw_store w))))\<rparr>" by auto
    show ?thesis using inv unfolding mw_inv_def mw_held_eq s'
      by (simp only: removed_inv removed_held) (simp add: remove_law_def r)
  qed
qed

lemma mem_remove_at:
  assumes inv: "mw_inv w" and op: "so_compare_and_remove memory_ops k v w = (r, w')"
  shows "mw_inv w' \<and> remove_at_law (mw_held w) k v r (mw_held w')"
proof -
  have "on_store (with_lock (\<lambda>s. case table_get (rt_instances s) k of
       None \<Rightarrow> (Inr False, s)
     | Some slot \<Rightarrow>
         if sl_version slot \<noteq> v then (Inr False, s)
         else (Inr True, s\<lparr>rt_instances := snd (table_remove k (rt_instances s))\<rparr>))) w = (r, w')"
    using op by (simp add: memory_ops_def store_remove_record_at_def)
  then show ?thesis
  proof (cases rule: on_locked)
    case 1
    then show ?thesis using inv by (simp add: mw_inv_def mw_held_eq remove_at_law_def)
  next
    case 2
    then consider "r = Inr False" "mr_state (mw_store w') = mr_state (mw_store w)"
      | slot where "table_get (rt_instances (mr_state (mw_store w))) k = Some slot"
        "sl_version slot = v" "r = Inr True"
        "mr_state (mw_store w') = (mr_state (mw_store w))\<lparr>rt_instances :=
          snd (table_remove k (rt_instances (mr_state (mw_store w))))\<rparr>"
      by (auto split: option.splits if_splits)
    then show ?thesis
    proof cases
      case 1
      then show ?thesis using inv by (simp add: mw_inv_def mw_held_eq remove_at_law_def)
    next
      case s': (2 slot)
      show ?thesis using inv unfolding mw_inv_def mw_held_eq s'(4)
        by (simp only: removed_inv removed_held)
          (simp add: remove_at_law_def s' held_in_def slot_stored_def)
    qed
  qed
qed

lemma promotions_only:
  assumes "mr_state m' = s\<lparr>rt_promotions := t\<rparr>"
  shows "held_in (mr_state m') = held_in s" "promised_in (mr_state m') = holds t"
  using assms by (simp_all add: holds_held_in)

lemma mem_load_promotion:
  assumes inv: "mw_inv w" and op: "so_load_promotion memory_ops pk w = (r, w')"
  shows "mw_inv w' \<and> fewer (mw_held w) (mw_held w') \<and> load_law (mw_promised w) pk r (mw_promised w')"
proof -
  have "on_timed_store (\<lambda>c. with_lock (with_sweep c (\<lambda>now s.
      let (r, t) = table_take_unexpired pk now (rt_promotions s)
      in (Inr r, s\<lparr>rt_promotions := t\<rparr>)))) w = (r, w')"
    using op by (simp add: memory_ops_def store_load_reservation_def)
  from on_timed_sweep [OF this inv] show ?thesis
  proof cases
    case (1 e)
    then show ?thesis using inv by (simp add: mw_inv_def mw_held_eq mw_promised_eq load_law_def)
  next
    case (2 now)
    let ?s = "reclaim now (mr_state (mw_store w))"
    obtain x t where t: "table_take_unexpired pk now (rt_promotions ?s) = (x, t)" by fastforce
    have ti: "table_inv (rt_instances ?s)" "table_inv (rt_promotions ?s)"
      using 2(2) by (auto simp: store_inv_def)
    have s': "mr_state (mw_store w') = ?s\<lparr>rt_promotions := t\<rparr>" "r = Inr x" using 2(1) t by auto
    have "load_law (promised_in ?s) pk r (promised_in (mr_state (mw_store w')))"
      using take_unexpired_law [OF ti(2) t] s' by (simp add: holds_held_in)
    then show ?thesis
      using load_law_loses [OF 2(4)] take_unexpired_law [OF ti(2) t] ti s' 2(3)
      by (simp add: mw_inv_def mw_held_eq mw_promised_eq)
  qed
qed

lemma mem_insert_promotion:
  assumes inv: "mw_inv w" and op: "so_insert_promotion_if_absent memory_ops pk bs e w = (r, w')"
  shows "mw_inv w' \<and> fewer (mw_held w) (mw_held w')
    \<and> insert_law (mw_promised w) pk bs e r (mw_promised w')"
proof -
  have "on_timed_store (\<lambda>c. with_lock (with_sweep c (\<lambda>now s.
      let (r, t) = table_insert_absent pk bs e now (rt_promotions s)
      in (Inr r, s\<lparr>rt_promotions := t\<rparr>)))) w = (r, w')"
    using op by (simp add: memory_ops_def store_insert_reservation_if_absent_def)
  from on_timed_sweep [OF this inv] show ?thesis
  proof cases
    case (1 e)
    then show ?thesis using inv by (simp add: mw_inv_def mw_held_eq mw_promised_eq insert_law_def)
  next
    case (2 now)
    let ?s = "reclaim now (mr_state (mw_store w))"
    obtain x t where t: "table_insert_absent pk bs e now (rt_promotions ?s) = (x, t)" by fastforce
    have ti: "table_inv (rt_instances ?s)" "table_inv (rt_promotions ?s)"
      using 2(2) by (auto simp: store_inv_def)
    have s': "mr_state (mw_store w') = ?s\<lparr>rt_promotions := t\<rparr>" "r = Inr x" using 2(1) t by auto
    have "insert_law (promised_in ?s) pk bs e r (promised_in (mr_state (mw_store w')))"
      using insert_absent_law [OF ti(2) t] s' by (simp add: holds_held_in)
    then show ?thesis
      using insert_law_loses [OF 2(4)] insert_absent_law [OF ti(2) t] ti s' 2(3)
      by (simp add: mw_inv_def mw_held_eq mw_promised_eq)
  qed
qed

lemma mem_count:
  assumes inv: "mw_inv w" and op: "so_count_instances memory_ops w = (r, w')"
  shows "mw_inv w' \<and> fewer (mw_held w) (mw_held w')"
proof -
  have "on_timed_store (\<lambda>c. with_lock (with_sweep c (\<lambda>now s. (Inr (table_len (rt_instances s)), s)))) w
      = (r, w')"
    using op by (simp add: memory_ops_def store_count_records_def [abs_def])
  from on_timed_sweep [OF this inv] show ?thesis
    by cases (use inv in \<open>auto simp: mw_inv_def mw_held_eq\<close>)
qed

lemma mem_soonest:
  assumes inv: "mw_inv w" and op: "so_soonest_expiring_instances memory_ops limit w = (r, w')"
  shows "mw_inv w' \<and> soonest_law (mw_held w) limit r (mw_held w')"
proof -
  have "on_timed_store (\<lambda>c. with_lock (with_sweep c (\<lambda>now s.
      (Inr (table_soonest (rt_instances s) limit), s)))) w = (r, w')"
    using op by (simp add: memory_ops_def store_soonest_records_def)
  from on_timed_sweep [OF this inv] show ?thesis
  proof cases
    case (1 e)
    then show ?thesis using inv by (simp add: mw_inv_def mw_held_eq soonest_law_def)
  next
    case (2 now)
    let ?s = "reclaim now (mr_state (mw_store w))"
    have ti: "table_inv (rt_instances ?s)" using 2(2) by (simp add: store_inv_def)
    have s': "mr_state (mw_store w') = ?s" "r = Inr (table_soonest (rt_instances ?s) limit)"
      using 2(1) by auto
    have "soonest_law (held_in ?s) limit r (held_in ?s)"
      using table_soonest_spec [OF ti, of limit] by (simp add: soonest_law_def s'(2) held_in_def)
    from soonest_law_loses [OF 2(3) this] show ?thesis using 2(2) s'(1)
      by (simp add: mw_inv_def mw_held_eq)
  qed
qed

lemma mem_node_now:
  assumes "mw_inv w" and "so_node_now memory_ops w = (n, w')"
  shows "mw_inv w' \<and> mw_held w' = mw_held w \<and> mw_promised w' = mw_promised w"
  using assms
  by (auto simp: memory_ops_def node_reading_def Let_def mw_inv_def mw_held_eq mw_promised_eq
      split: prod.splits)

subsection \<open>What other nodes leave\<close>

text \<open>A key nobody creates again holds the same record, a later version of it, or nothing.\<close>

definition lives_on :: "instance_record_key \<Rightarrow> holdings \<Rightarrow> holdings \<Rightarrow> bool" where
  "lives_on k h h' = (\<forall>s'. h' k = Some s' \<longrightarrow> (\<exists>s. h k = Some s \<and> (s' = s \<or> sr_version s < sr_version s')))"

lemma lives_on_trans: "lives_on k h h1 \<Longrightarrow> lives_on k h1 h' \<Longrightarrow> lives_on k h h'"
  unfolding lives_on_def by (metis order_less_trans)

lemma lives_on_fewer: "fewer h h' \<Longrightarrow> lives_on k h h'"
  using fewer_SomeD [of h h' k] by (auto simp: lives_on_def)

lemma lives_on_insert: "insert_law h k' bs e r h' \<Longrightarrow> k' \<noteq> k \<Longrightarrow> lives_on k h h'"
  using fewer_SomeD [of "h(k' \<mapsto> \<lparr>sr_bytes = bs, sr_version = 1, sr_expires_at = e\<rparr>)" h' k] fewer_SomeD [of h h' k]
  by (auto simp: lives_on_def insert_law_def split: if_splits)

lemma lives_on_cas:
  assumes "cas_law h k' v bs e r h'"
  shows "lives_on k h h'"
proof (cases r rule: cas_result_cases)
  case (2 v')
  then have law: "unat v' = Suc (unat v)" "\<exists>s. h k' = Some s \<and> sr_version s = v"
    "fewer (h(k' \<mapsto> \<lparr>sr_bytes = bs, sr_version = v', sr_expires_at = e\<rparr>)) h'"
    using assms by (auto split: option.splits)
  then have "v < v'" by (simp add: word_less_nat_alt)
  then show ?thesis using law(2) fewer_SomeD [OF law(3), of k]
    by (auto simp: lives_on_def split: if_splits)
qed (use assms lives_on_fewer in auto)

lemma lives_on_remove: "remove_law h k' r h' \<Longrightarrow> lives_on k h h'"
  by (auto simp: lives_on_def remove_law_def split: if_splits)

lemma lives_on_remove_at: "remove_at_law h k' v r h' \<Longrightarrow> lives_on k h h'"
  by (auto simp: lives_on_def remove_at_law_def split: if_splits)

text \<open>A call of another node is the call of the port on a world of its own.\<close>

definition lone :: "memory_record_store \<Rightarrow> unix_millis option \<Rightarrow> mem_world" where
  "lone m c = \<lparr>mw_store = m, mw_store_clock = [c], mw_node_clock = [], mw_foreign = []\<rparr>"

lemma lone_simps [simp]: "mw_inv (lone m c) = store_inv (mr_state m)" "mw_held (lone m c) = held_in (mr_state m)"
  by (simp_all add: lone_def mw_inv_def mw_held_eq)

lemma lone_timed:
  "on_timed_store f (lone m c) = (fst (f c m), (lone m c)\<lparr>mw_store := snd (f c m), mw_store_clock := []\<rparr>)"
  by (simp add: lone_def on_timed_store_def case_prod_beta Let_def)

lemma lone_untimed: "on_store f (lone m c) = (fst (f m), (lone m c)\<lparr>mw_store := snd (f m)\<rparr>)"
  by (simp add: lone_def on_store_def case_prod_beta Let_def)

lemma lone_after [simp]:
  "mw_inv ((lone m c)\<lparr>mw_store := m', mw_store_clock := t\<rparr>) = store_inv (mr_state m')"
  "mw_inv ((lone m c)\<lparr>mw_store := m'\<rparr>) = store_inv (mr_state m')"
  "mw_held ((lone m c)\<lparr>mw_store := m', mw_store_clock := t\<rparr>) = held_in (mr_state m')"
  "mw_held ((lone m c)\<lparr>mw_store := m'\<rparr>) = held_in (mr_state m')"
  by (simp_all add: mw_inv_def mw_held_eq)

lemmas lone_ops = memory_ops_def lone_timed lone_untimed

lemma foreign_step:
  assumes inv: "store_inv (mr_state m)"
  shows "store_inv (mr_state (foreign_store call m))
    \<and> (\<not> creates k call \<longrightarrow> lives_on k (held_in (mr_state m)) (held_in (mr_state (foreign_store call m))))"
proof (cases call)
  case (ForeignLoad c k')
  show ?thesis using mem_load [of "lone m c" k'] inv
    by (simp add: ForeignLoad lone_ops load_law_def lives_on_fewer)
next
  case (ForeignInsert c k' bs e)
  show ?thesis using mem_insert [of "lone m c" k' bs e] inv
    by (auto simp: ForeignInsert lone_ops intro: lives_on_insert)
next
  case (ForeignReplace c timing k' v bs e)
  show ?thesis
  proof (cases timing)
    case Elapsing
    show ?thesis using mem_cas [of "lone m c" k' v bs e] inv
      by (auto simp: ForeignReplace Elapsing lone_ops intro: lives_on_cas)
  next
    case Regardless
    obtain r s where r: "replace_at k' v bs e (mr_state m) = (r, s)" by fastforce
    then have "mr_state (foreign_store call m) = mr_state m \<or> mr_state (foreign_store call m) = s"
      by (simp add: ForeignReplace Regardless store_replace_record_def with_lock_def)
    moreover have "lives_on k (held_in (mr_state m)) (held_in (mr_state m))" by (simp add: lives_on_fewer)
    moreover have "store_inv s" "lives_on k (held_in (mr_state m)) (held_in s)"
      using replace_at_law [OF inv r] lives_on_cas by auto
    ultimately show ?thesis using inv by (elim disjE) simp_all
  qed
next
  case (ForeignRemove k')
  show ?thesis using mem_remove [of "lone m None" k'] inv
    by (auto simp: ForeignRemove lone_ops intro: lives_on_remove)
next
  case (ForeignRemoveAt k' v)
  show ?thesis using mem_remove_at [of "lone m None" k' v] inv
    by (auto simp: ForeignRemoveAt lone_ops intro: lives_on_remove_at)
next
  case (ForeignLoadPromotion c pk)
  show ?thesis using mem_load_promotion [of "lone m c" pk] inv
    by (simp add: ForeignLoadPromotion lone_ops lives_on_fewer)
next
  case (ForeignInsertPromotion c pk bs e)
  show ?thesis using mem_insert_promotion [of "lone m c" pk bs e] inv
    by (simp add: ForeignInsertPromotion lone_ops lives_on_fewer)
next
  case (ForeignCount c)
  show ?thesis using mem_count [of "lone m c"] inv
    by (simp add: ForeignCount lone_ops lives_on_fewer)
next
  case (ForeignSoonest c limit)
  show ?thesis using mem_soonest [of "lone m c" limit] inv
    by (simp add: ForeignSoonest lone_ops soonest_law_def lives_on_fewer)
qed

lemma foreign_batch:
  "store_inv (mr_state m) \<Longrightarrow> store_inv (mr_state (fold foreign_store calls m))
    \<and> ((\<forall>call \<in> set calls. \<not> creates k call) \<longrightarrow>
        lives_on k (held_in (mr_state m)) (held_in (mr_state (fold foreign_store calls m))))"
proof (induction calls arbitrary: m)
  case Nil
  then show ?case by (simp add: lives_on_fewer)
next
  case (Cons call calls)
  have step: "store_inv (mr_state (foreign_store call m))"
    "\<not> creates k call \<Longrightarrow> lives_on k (held_in (mr_state m)) (held_in (mr_state (foreign_store call m)))"
    using foreign_step [OF Cons.prems, of call k] by auto
  from Cons.IH [OF step(1)] step(2) show ?case
    using lives_on_trans by auto
qed

lemma mem_interfere:
  assumes inv: "mw_inv w"
  shows "mw_inv (so_interfere memory_ops w)"
    and "created_once k w \<Longrightarrow> lives_on k (mw_held w) (mw_held (so_interfere memory_ops w))"
    and "created_once k w \<Longrightarrow> created_once k (so_interfere memory_ops w)"
proof -
  have i: "store_inv (mr_state (mw_store w))" using inv by (simp add: mw_inv_def)
  have op: "so_interfere memory_ops w = land_foreign w" by (simp add: memory_ops_def)
  show "mw_inv (so_interfere memory_ops w)" unfolding op using foreign_batch [OF i] inv
    by (auto simp: land_foreign_def mw_inv_def split: list.split)
  show "lives_on k (mw_held w) (mw_held (so_interfere memory_ops w))" if "created_once k w"
    unfolding op using foreign_batch [OF i, of _ k] that
    by (auto simp: land_foreign_def created_once_def mw_held_eq lives_on_fewer split: list.split)
  show "created_once k (so_interfere memory_ops w)" if "created_once k w"
    unfolding op using that by (auto simp: land_foreign_def created_once_def split: list.split)
qed

text \<open>No operation of the port touches what other nodes will call.\<close>

lemma timed_foreign: "on_timed_store f w = (r, w') \<Longrightarrow> created_once k w' = created_once k w"
  by (auto simp: on_timed_store_def Let_def created_once_def split: prod.splits)

lemma untimed_foreign: "on_store f w = (r, w') \<Longrightarrow> created_once k w' = created_once k w"
  by (auto simp: on_store_def Let_def created_once_def split: prod.splits)

lemma node_now_foreign: "node_reading w = (r, w') \<Longrightarrow> created_once k w' = created_once k w"
  by (auto simp: node_reading_def Let_def created_once_def split: prod.splits)

lemma port_foreign:
  "so_load memory_ops k w = (rl, w') \<Longrightarrow> created_once k0 w' = created_once k0 w"
  "so_insert_if_absent memory_ops k bs e w = (ri, w') \<Longrightarrow> created_once k0 w' = created_once k0 w"
  "so_compare_and_store memory_ops k v bs e w = (rc, w') \<Longrightarrow> created_once k0 w' = created_once k0 w"
  "so_remove memory_ops k w = (rr, w') \<Longrightarrow> created_once k0 w' = created_once k0 w"
  "so_compare_and_remove memory_ops k v w = (ra, w') \<Longrightarrow> created_once k0 w' = created_once k0 w"
  "so_load_promotion memory_ops pk w = (rp, w') \<Longrightarrow> created_once k0 w' = created_once k0 w"
  "so_insert_promotion_if_absent memory_ops pk bs e w = (rq, w') \<Longrightarrow> created_once k0 w' = created_once k0 w"
  "so_count_instances memory_ops w = (rn, w') \<Longrightarrow> created_once k0 w' = created_once k0 w"
  "so_soonest_expiring_instances memory_ops limit w = (rs, w') \<Longrightarrow> created_once k0 w' = created_once k0 w"
  "so_node_now memory_ops w = (n, w') \<Longrightarrow> created_once k0 w' = created_once k0 w"
  by (simp_all add: memory_ops_def timed_foreign untimed_foreign node_now_foreign)

lemma mem_one_life:
  assumes "mw_inv w" "created_once k w" "mw_held w k = Some s"
    and "mw_held (so_interfere memory_ops w) k = Some s'" "sr_version s' = sr_version s"
  shows "s' = s"
  using mem_interfere(2) [OF assms(1,2)] assms(3-5) by (auto simp: lives_on_def)

interpretation mem: record_store memory_ops "\<lambda>w. mw_inv w \<and> created_once k0 w" mw_held mw_promised "\<lambda>k. k = k0"
  for k0
  apply unfold_locales
  subgoal using mem_load port_foreign(1) by blast
  subgoal using mem_insert port_foreign(2) by blast
  subgoal using mem_cas port_foreign(3) by blast
  subgoal using mem_remove port_foreign(4) by blast
  subgoal using mem_remove_at port_foreign(5) by blast
  subgoal using mem_load_promotion port_foreign(6) by blast
  subgoal using mem_insert_promotion port_foreign(7) by blast
  subgoal using mem_count port_foreign(8) by blast
  subgoal using mem_soonest port_foreign(9) by blast
  subgoal using mem_node_now port_foreign(10) by blast
  subgoal using mem_interfere(1,3) by blast
  subgoal using mem_one_life by blast
  done

end
