(* ===== verification/Ledger_Kernel.thy ===== *)
theory Ledger_Kernel
  imports Ledger_Record Memory_Store
begin

text \<open>
  The distributed instance ledger: \<open>DistributedInstanceLedger\<close> of
  \<open>crates/suprnova-live/src/ledger/distributed.rs\<close> and its in-process form
  \<open>ledger/memory.rs\<close>. A handle is what one node holds fixed; its state is the world its store
  lives in and its queue of retirements. Every store call is preceded by whatever other nodes do
  at that await point. A step of the code that returns \<open>Result\<close> is a function from the state to a
  result and the new state; \<open>kthen\<close> is \<open>?\<close> followed by the rest.
\<close>

datatype cleanup_op = CleanupAbandon claim_token | CleanupFence claim_token

fun cleanup_token :: "cleanup_op \<Rightarrow> claim_token" where
  "cleanup_token (CleanupAbandon t) = t"
| "cleanup_token (CleanupFence t) = t"

fun cleanup_timing :: "cleanup_op \<Rightarrow> timing" where
  "cleanup_timing (CleanupAbandon t) = Elapsing"
| "cleanup_timing (CleanupFence t) = Regardless"

record queued_retirement =
  qr_op :: cleanup_op
  qr_retried :: bool

record 'w handle =
  hd_ops :: "'w store_ops"
  hd_codec :: codec
  hd_limits :: ledger_limits
  hd_identity :: nat

record 'w kernel_state =
  ks_world :: 'w
  ks_queue :: "queued_retirement list"
  ks_queue_poisoned :: bool

type_synonym ('w, 'a) step = "'w kernel_state \<Rightarrow> (ledger_error + 'a) \<times> 'w kernel_state"

definition kret :: "'a \<Rightarrow> ('w, 'a) step" where
  "kret x s = (Inr x, s)"

definition kfail :: "ledger_error \<Rightarrow> ('w, 'a) step" where
  "kfail e s = (Inl e, s)"

definition klift :: "ledger_error + 'a \<Rightarrow> ('w, 'a) step" where
  "klift r s = (r, s)"

definition kthen :: "('w, 'a) step \<Rightarrow> ('a \<Rightarrow> ('w, 'b) step) \<Rightarrow> ('w, 'b) step" where
  "kthen m f s = (case m s of (Inl e, s') \<Rightarrow> (Inl e, s') | (Inr x, s') \<Rightarrow> f x s')"

text \<open>\<open>let _ = m.await;\<close>\<close>

definition kignore :: "('w, 'a) step \<Rightarrow> ('w, 'b) step \<Rightarrow> ('w, 'b) step" where
  "kignore m f s = f (snd (m s))"

definition kcall ::
  "'w handle \<Rightarrow> ('w \<Rightarrow> (ledger_error + 'a) \<times> 'w) \<Rightarrow> ('w, 'a) step" where
  "kcall h f s =
     (let (r, w) = f (so_interfere (hd_ops h) (ks_world s)) in (r, s\<lparr>ks_world := w\<rparr>))"

definition kernel_now :: "'w handle \<Rightarrow> ('w, unix_millis) step" where
  "kernel_now h s =
     (let (n, w) = so_node_now (hd_ops h) (ks_world s)
      in (ok_or ClockUnavailable n, s\<lparr>ks_world := w\<rparr>))"

subsection \<open>Reading and applying\<close>

definition apply_attempts :: nat where "apply_attempts = 2"
definition elapsed_record_retention_ms :: u64 where "elapsed_record_retention_ms = 60000"
definition eviction_candidates :: usize where "eviction_candidates = 4"

definition store_expiry :: "unix_millis \<Rightarrow> unix_millis" where
  "store_expiry expires_at = saturating_add_u64 expires_at elapsed_record_retention_ms"

datatype loaded = LoadedAbsent | LoadedPresent instance_record u64

record 'a attempt =
  at_write :: "(u64 \<times> instance_record) option"
  at_outcome :: 'a

definition attempt_read :: "'a \<Rightarrow> 'a attempt" where
  "attempt_read outcome = \<lparr>at_write = None, at_outcome = outcome\<rparr>"

definition attempt_from_transition :: "'d transition \<Rightarrow> u64 \<Rightarrow> 'a \<Rightarrow> 'a attempt" where
  "attempt_from_transition t version outcome =
     \<lparr>at_write = map_option (\<lambda>r. (version, r)) (tr_stored t), at_outcome = outcome\<rparr>"

datatype created = CreatedYes | CreatedHeld | CreatedRaced

definition owns :: "'w handle \<Rightarrow> claim_token \<Rightarrow> bool" where
  "owns h claim = (hd_identity h = ct_provider claim)"

definition token_key :: "claim_token \<Rightarrow> instance_record_key" where
  "token_key claim = InstanceRecordKey (ct_scope claim) (ct_instance_id claim)"

definition interpret_stored :: "codec \<Rightarrow> stored_record option \<Rightarrow> ledger_error + loaded" where
  "interpret_stored c stored =
     (case stored of
        None \<Rightarrow> Inr LoadedAbsent
      | Some s \<Rightarrow>
          and_then (decode_record c (sr_bytes s)) (\<lambda>r. Inr (LoadedPresent r (sr_version s))))"

definition kernel_load :: "'w handle \<Rightarrow> instance_record_key \<Rightarrow> ('w, loaded) step" where
  "kernel_load h k =
     kthen (kcall h (so_load (hd_ops h) k)) (\<lambda>stored. klift (interpret_stored (hd_codec h) stored))"

text \<open>Store what an attempt decided and answer; on a stale read, go round again.\<close>

definition finish_attempt ::
  "'w handle \<Rightarrow> instance_record_key \<Rightarrow> ('w, 'a) step \<Rightarrow> 'a attempt \<Rightarrow> ('w, 'a) step" where
  "finish_attempt h k retry attempt =
     (case at_write attempt of
        None \<Rightarrow> kret (at_outcome attempt)
      | Some (version, r) \<Rightarrow>
          kthen (klift (encode_record (hd_codec h) r)) (\<lambda>bytes.
          kthen (kcall h (so_compare_and_store (hd_ops h) k version bytes
                   (store_expiry (ir_expires_at r)))) (\<lambda>cas.
            case cas of
              CasStored v \<Rightarrow> kret (at_outcome attempt)
            | _ \<Rightarrow> retry)))"

fun apply_loop ::
  "nat \<Rightarrow> 'w handle \<Rightarrow> instance_record_key \<Rightarrow> (loaded \<Rightarrow> ('w, 'a attempt) step) \<Rightarrow> ('w, 'a) step" where
  "apply_loop 0 h k step = kfail InstanceConflict"
| "apply_loop (Suc n) h k step =
     kthen (kernel_load h k) (\<lambda>loaded.
     kthen (step loaded) (finish_attempt h k (apply_loop n h k step)))"

definition kernel_apply ::
  "'w handle \<Rightarrow> instance_record_key \<Rightarrow> (loaded \<Rightarrow> ('w, 'a attempt) step) \<Rightarrow> ('w, 'a) step" where
  "kernel_apply h k step = apply_loop apply_attempts h k step"

subsection \<open>Retirements\<close>

definition retirement ::
  "'w handle \<Rightarrow> cleanup_op \<Rightarrow> loaded \<Rightarrow> ('w, (ledger_error + unit) attempt) step" where
  "retirement h op loaded =
     (case loaded of
        LoadedAbsent \<Rightarrow> kret (attempt_read (Inl ClaimMismatch))
      | LoadedPresent r version \<Rightarrow>
          let claim_id = ct_claim_id (cleanup_token op) in
          case op of
            CleanupAbandon t \<Rightarrow>
              kthen (kernel_now h) (\<lambda>now.
                if ir_expires_at r \<le> now then kret (attempt_read (Inl InstanceExpired))
                else kret (attempt_from_transition (ledger_release r claim_id now) version
                       (tr_outcome (ledger_release r claim_id now))))
          | CleanupFence t \<Rightarrow>
              let transition = ledger_fence r claim_id
              in kret (attempt_from_transition transition version (tr_outcome transition)))"

text \<open>The loop that drops the oldest queued retirements while the queue is at its bound.\<close>

fun drop_oldest :: "usize \<Rightarrow> 'a list \<Rightarrow> 'a list" where
  "drop_oldest limit [] = []"
| "drop_oldest limit (x # xs) =
     (if length (x # xs) \<ge> limit then drop_oldest limit xs else x # xs)"

definition queue_retirement :: "'w handle \<Rightarrow> cleanup_op \<Rightarrow> 'w kernel_state \<Rightarrow> 'w kernel_state" where
  "queue_retirement h op s =
     (if \<not> owns h (cleanup_token op) then s
      else if ks_queue_poisoned s then s
      else s\<lparr>ks_queue := drop_oldest (ll_max_instances (hd_limits h)) (ks_queue s)
               @ [\<lparr>qr_op = op, qr_retried = False\<rparr>]\<rparr>)"

definition take_retirement :: "'w kernel_state \<Rightarrow> queued_retirement option \<times> 'w kernel_state" where
  "take_retirement s =
     (if ks_queue_poisoned s then (None, s)
      else case ks_queue s of
             [] \<Rightarrow> (None, s)
           | q # qs \<Rightarrow> (Some q, s\<lparr>ks_queue := qs\<rparr>))"

definition requeue_retirement :: "cleanup_op \<Rightarrow> 'w kernel_state \<Rightarrow> 'w kernel_state" where
  "requeue_retirement op s =
     (if ks_queue_poisoned s then s
      else s\<lparr>ks_queue := \<lparr>qr_op = op, qr_retried = True\<rparr> # ks_queue s\<rparr>)"

definition retire :: "'w handle \<Rightarrow> cleanup_op \<Rightarrow> ('w, unit) step" where
  "retire h op =
     kthen (kernel_apply h (token_key (cleanup_token op)) (retirement h op)) (\<lambda>resolved. kret ())"

text \<open>
  The drain loop. Every iteration takes one entry and only a failure puts one back, after which
  the loop returns, so the length of the queue at the start bounds the iterations.
\<close>

fun drain_loop :: "nat \<Rightarrow> 'w handle \<Rightarrow> ('w, unit) step" where
  "drain_loop 0 h s = (Inr (), s)"
| "drain_loop (Suc n) h s =
     (case take_retirement s of
        (None, s') \<Rightarrow> (Inr (), s')
      | (Some queued, s') \<Rightarrow>
          (case retire h (qr_op queued) s' of
             (Inr u, s'') \<Rightarrow> drain_loop n h s''
           | (Inl e, s'') \<Rightarrow>
               (Inl e, if qr_retried queued then s'' else requeue_retirement (qr_op queued) s'')))"

definition drain_retirements :: "'w handle \<Rightarrow> ('w, unit) step" where
  "drain_retirements h s = drain_loop (Suc (length (ks_queue s))) h s"

definition flush_cleanup :: "'w handle \<Rightarrow> ('w, unit) step" where
  "flush_cleanup h = drain_retirements h"

subsection \<open>Creation and capacity\<close>

definition busy_record :: "codec \<Rightarrow> stored_record \<Rightarrow> unix_millis \<Rightarrow> bool" where
  "busy_record c stored now =
     (case decode_record c (sr_bytes stored) of
        Inl _ \<Rightarrow> False
      | Inr r \<Rightarrow> claim_in_flight r now)"

fun evict_loop ::
  "'w handle \<Rightarrow> usize \<Rightarrow> usize \<Rightarrow> (instance_record_key \<times> stored_record) list \<Rightarrow> ('w, unit) step" where
  "evict_loop h excess evicted [] = kret ()"
| "evict_loop h excess evicted ((k, stored) # rest) =
     (if evicted = excess then kret ()
      else kthen (kcall h (so_compare_and_remove (hd_ops h) k (sr_version stored))) (\<lambda>removed.
             evict_loop h excess (if removed then evicted + 1 else evicted) rest))"

definition make_room :: "'w handle \<Rightarrow> unix_millis \<Rightarrow> ('w, unit) step" where
  "make_room h now =
     kthen (kcall h (so_count_instances (hd_ops h))) (\<lambda>live.
       let excess = saturating_sub_usize (saturating_add_usize live 1)
                      (ll_max_instances (hd_limits h))
       in if excess = 0 then kret ()
          else kthen (kcall h (so_soonest_expiring_instances (hd_ops h) eviction_candidates)) (\<lambda>found.
            let (idle, busy) =
              partition (\<lambda>(k, stored). \<not> busy_record (hd_codec h) stored now) found
            in evict_loop h excess 0 (idle @ busy)))"

definition kernel_create ::
  "'w handle \<Rightarrow> instance_record_key \<Rightarrow> unix_millis \<Rightarrow> instance_record \<Rightarrow> ('w, created) step" where
  "kernel_create h k now r =
     kthen (kernel_load h k) (\<lambda>loaded.
       case loaded of
         LoadedPresent held version \<Rightarrow>
           if ir_expires_at held > now then kret CreatedHeld
           else kthen (klift (encode_record (hd_codec h) r)) (\<lambda>bytes.
                kthen (kcall h (so_compare_and_store (hd_ops h) k version bytes
                         (store_expiry (ir_expires_at r)))) (\<lambda>cas.
                  kret (case cas of CasStored v \<Rightarrow> CreatedYes | _ \<Rightarrow> CreatedRaced)))
       | LoadedAbsent \<Rightarrow>
           kthen (make_room h now) (\<lambda>_.
           kthen (klift (encode_record (hd_codec h) r)) (\<lambda>bytes.
           kthen (kcall h (so_insert_if_absent (hd_ops h) k bytes
                    (store_expiry (ir_expires_at r)))) (\<lambda>inserted.
             kret (if inserted then CreatedYes else CreatedRaced)))))"

definition recover_promotion ::
  "'w handle \<Rightarrow> promotion_record_key \<Rightarrow> promotion_record \<Rightarrow> ('w, promotion_outcome option) step" where
  "recover_promotion h pk request =
     kthen (kcall h (so_load_promotion (hd_ops h) pk)) (\<lambda>stored.
       case stored of
         None \<Rightarrow> kret None
       | Some s \<Rightarrow>
           kthen (klift (decode_reservation (hd_codec h) (sr_bytes s))) (\<lambda>reservation.
             kret (Some
               (if rs_request_digest reservation = pr_request_digest request
                then PromotionExisting
                  \<lparr>ia_instance_id = rs_instance_id reservation,
                   ia_revision = rs_initial_revision reservation,
                   ia_expires_at = rs_expires_at reservation\<rparr>
                else PromotionConflict))))"

subsection \<open>The ledger's operations\<close>

definition kernel_inspect ::
  "'w handle \<Rightarrow> scope_fingerprint \<Rightarrow> instance_id \<Rightarrow> ('w, ledger_inspection option) step" where
  "kernel_inspect h scope instance_id =
     kignore (drain_retirements h)
     (kthen (kernel_now h) (\<lambda>now.
      kthen (kernel_load h (InstanceRecordKey scope instance_id)) (\<lambda>loaded.
        case loaded of
          LoadedPresent r version \<Rightarrow>
            if ir_expires_at r > now then kret (Some (inspection r now)) else kret None
        | LoadedAbsent \<Rightarrow> kret None)))"

fun mount_loop :: "nat \<Rightarrow> 'w handle \<Rightarrow> mount_instance_record \<Rightarrow> ('w, instance_authority) step" where
  "mount_loop 0 h m = kfail InstanceConflict"
| "mount_loop (Suc n) h m =
     kthen (kernel_now h) (\<lambda>now.
     kthen (klift (validate_expiry now (mi_expires_at m) (hd_limits h))) (\<lambda>_.
     kthen (kernel_create h (InstanceRecordKey (mi_scope m) (mi_instance_id m)) now
              (created_record (Some (mi_component_contract m)) (mi_initial_revision m)
                 (mi_expires_at m))) (\<lambda>created.
       case created of
         CreatedYes \<Rightarrow>
           kret \<lparr>ia_instance_id = mi_instance_id m, ia_revision = mi_initial_revision m,
                 ia_expires_at = mi_expires_at m\<rparr>
       | CreatedHeld \<Rightarrow> kfail InstanceConflict
       | CreatedRaced \<Rightarrow> mount_loop n h m)))"

definition kernel_mount_instance ::
  "'w handle \<Rightarrow> mount_instance_record \<Rightarrow> ('w, instance_authority) step" where
  "kernel_mount_instance h m = kignore (drain_retirements h) (mount_loop apply_attempts h m)"

text \<open>
  The tail of one promotion attempt, once its instance exists: reserve the retry identity, or
  remove the instance again and answer from the reservation that won.
\<close>

definition reserve_promotion ::
  "'w handle \<Rightarrow> promotion_record \<Rightarrow> ('w, promotion_outcome option) step" where
  "reserve_promotion h request =
     (let pk = PromotionRecordKey (pr_scope request) (pr_idempotency_key request);
          k = InstanceRecordKey (pr_scope request) (pr_instance_id request) in
      kthen (klift (encode_reservation (hd_codec h)
               \<lparr>rs_request_digest = pr_request_digest request,
                rs_instance_id = pr_instance_id request,
                rs_initial_revision = pr_initial_revision request,
                rs_expires_at = pr_expires_at request\<rparr>)) (\<lambda>reservation.
      kthen (kcall h (so_insert_promotion_if_absent (hd_ops h) pk reservation
               (pr_expires_at request))) (\<lambda>inserted.
        if inserted
        then kret (Some (PromotionCreated
               \<lparr>ia_instance_id = pr_instance_id request, ia_revision = pr_initial_revision request,
                ia_expires_at = pr_expires_at request\<rparr>))
        else kthen (kcall h (so_remove (hd_ops h) k)) (\<lambda>_. recover_promotion h pk request))))"

fun promote_loop :: "nat \<Rightarrow> 'w handle \<Rightarrow> promotion_record \<Rightarrow> ('w, promotion_outcome) step" where
  "promote_loop 0 h request = kfail InstanceConflict"
| "promote_loop (Suc n) h request =
     (let pk = PromotionRecordKey (pr_scope request) (pr_idempotency_key request);
          k = InstanceRecordKey (pr_scope request) (pr_instance_id request) in
      kthen (kernel_now h) (\<lambda>now.
      kthen (klift (validate_expiry now (pr_expires_at request) (hd_limits h))) (\<lambda>_.
      kthen (recover_promotion h pk request) (\<lambda>recovered.
        case recovered of
          Some outcome \<Rightarrow> kret outcome
        | None \<Rightarrow>
            kthen (kernel_create h k now
                     (created_record None (pr_initial_revision request) (pr_expires_at request)))
              (\<lambda>created.
              case created of
                CreatedHeld \<Rightarrow>
                  kthen (recover_promotion h pk request) (\<lambda>again.
                    case again of
                      Some outcome \<Rightarrow> kret outcome
                    | None \<Rightarrow> kfail InstanceConflict)
              | CreatedRaced \<Rightarrow> promote_loop n h request
              | CreatedYes \<Rightarrow>
                  kthen (reserve_promotion h request) (\<lambda>reserved.
                    case reserved of
                      Some outcome \<Rightarrow> kret outcome
                    | None \<Rightarrow> promote_loop n h request))))))"

definition kernel_promote :: "'w handle \<Rightarrow> promotion_record \<Rightarrow> ('w, promotion_outcome) step" where
  "kernel_promote h request = kignore (drain_retirements h) (promote_loop apply_attempts h request)"

text \<open>The provider binds its own token to a grant of the state machine.\<close>

definition claim_observed ::
  "'w handle \<Rightarrow> claim_request \<Rightarrow> u64 \<Rightarrow> claim_decision \<Rightarrow> claim_outcome" where
  "claim_observed h request version decision =
     (case decision of
        DecisionGranted successor \<Rightarrow> Granted
          \<lparr>cg_token = \<lparr>ct_provider = hd_identity h, ct_scope = cr_scope request,
             ct_instance_id = cr_instance_id request, ct_claim_id = version\<rparr>,
           cg_successor_revision = successor\<rparr>
      | Classified classified \<Rightarrow> classified)"

definition claim_step ::
  "'w handle \<Rightarrow> claim_request \<Rightarrow> loaded \<Rightarrow> ('w, claim_outcome attempt) step" where
  "claim_step h request loaded =
     (case loaded of
        LoadedAbsent \<Rightarrow> kret (attempt_read (RefreshRequired ReasonMissing))
      | LoadedPresent r version \<Rightarrow>
          kthen (kernel_now h) (\<lambda>now.
            if ir_expires_at r \<le> now
            then kret (attempt_read (RefreshRequired ReasonInstanceExpired))
            else kthen (klift (ledger_claim r request now (hd_limits h) version)) (\<lambda>t.
              kret (attempt_from_transition t version
                (claim_observed h request version (tr_outcome t))))))"

definition kernel_claim :: "'w handle \<Rightarrow> claim_request \<Rightarrow> ('w, claim_outcome) step" where
  "kernel_claim h request =
     kignore (drain_retirements h)
       (kernel_apply h (InstanceRecordKey (cr_scope request) (cr_instance_id request))
          (claim_step h request))"

definition kernel_current_accepted_revision ::
  "'w handle \<Rightarrow> scope_fingerprint \<Rightarrow> instance_id \<Rightarrow> ('w, revision option) step" where
  "kernel_current_accepted_revision h scope instance_id =
     kignore (drain_retirements h)
     (kthen (kernel_now h) (\<lambda>now.
      kthen (kernel_load h (InstanceRecordKey scope instance_id)) (\<lambda>loaded.
        case loaded of
          LoadedPresent r version \<Rightarrow>
            if ir_expires_at r > now then kret (accepted_revision r now) else kret None
        | LoadedAbsent \<Rightarrow> kret None)))"

text \<open>What \<open>commit\<close> and \<open>abandon\<close> share: the record must be there and alive.\<close>

definition resolve_step ::
  "'w handle \<Rightarrow> (instance_record \<Rightarrow> unix_millis \<Rightarrow> (ledger_error + unit) transition) \<Rightarrow> loaded \<Rightarrow>
   ('w, (ledger_error + unit) attempt) step" where
  "resolve_step h f loaded =
     (case loaded of
        LoadedAbsent \<Rightarrow> kret (attempt_read (Inl ClaimMismatch))
      | LoadedPresent r version \<Rightarrow>
          kthen (kernel_now h) (\<lambda>now.
            if ir_expires_at r \<le> now then kret (attempt_read (Inl InstanceExpired))
            else kret (attempt_from_transition (f r now) version (tr_outcome (f r now)))))"

definition kernel_commit :: "'w handle \<Rightarrow> claim_token \<Rightarrow> accepted_outcome \<Rightarrow> ('w, unit) step" where
  "kernel_commit h claim outcome =
     kignore (drain_retirements h)
     (if \<not> owns h claim then kfail ClaimMismatch
      else kthen (kernel_apply h (token_key claim)
             (resolve_step h (\<lambda>r now. ledger_commit r (token_key claim) (ct_claim_id claim) outcome
                now (hd_limits h)))) klift)"

definition kernel_abandon :: "'w handle \<Rightarrow> claim_token \<Rightarrow> ('w, unit) step" where
  "kernel_abandon h claim =
     kignore (drain_retirements h)
     (if \<not> owns h claim then kfail ClaimMismatch
      else kthen (kernel_apply h (token_key claim)
             (resolve_step h (\<lambda>r now. ledger_abandon r (ct_claim_id claim) now))) klift)"

definition kernel_abandon_on_drop :: "'w handle \<Rightarrow> claim_token \<Rightarrow> 'w kernel_state \<Rightarrow> 'w kernel_state" where
  "kernel_abandon_on_drop h claim s = queue_retirement h (CleanupAbandon claim) s"

definition kernel_fence_on_drop :: "'w handle \<Rightarrow> claim_token \<Rightarrow> 'w kernel_state \<Rightarrow> 'w kernel_state" where
  "kernel_fence_on_drop h claim s = queue_retirement h (CleanupFence claim) s"

subsection \<open>The in-process ledger\<close>

text \<open>
  The synchronous operations over the memory store, and \<open>MemoryInstanceLedger\<close>, which is the
  kernel on that store with drops resolved at once.
\<close>

fun apply_in_process_loop ::
  "nat \<Rightarrow> mem_world handle \<Rightarrow> instance_record_key \<Rightarrow> timing \<Rightarrow>
   (loaded \<Rightarrow> (mem_world, 'a attempt) step) \<Rightarrow> (mem_world, 'a) step" where
  "apply_in_process_loop 0 h k timing step = kfail InstanceConflict"
| "apply_in_process_loop (Suc n) h k timing step =
     kthen (kcall h (on_timed_store (\<lambda>c. store_load_record c k timing))) (\<lambda>stored.
     kthen (klift (interpret_stored (hd_codec h) stored)) (\<lambda>loaded.
     kthen (step loaded) (\<lambda>attempt.
       case at_write attempt of
         None \<Rightarrow> kret (at_outcome attempt)
       | Some (version, r) \<Rightarrow>
           kthen (klift (encode_record (hd_codec h) r)) (\<lambda>bytes.
           kthen (kcall h (on_timed_store (\<lambda>c. store_replace_record c k version bytes
                    (store_expiry (ir_expires_at r)) timing))) (\<lambda>cas.
             case cas of
               CasStored v \<Rightarrow> kret (at_outcome attempt)
             | _ \<Rightarrow> apply_in_process_loop n h k timing step)))))"

definition retire_in_process :: "mem_world handle \<Rightarrow> cleanup_op \<Rightarrow> mem_world kernel_state \<Rightarrow> mem_world kernel_state" where
  "retire_in_process h op s =
     (if \<not> owns h (cleanup_token op) then s
      else snd (apply_in_process_loop apply_attempts h (token_key (cleanup_token op))
                  (cleanup_timing op) (retirement h op) s))"

definition inspect_in_process ::
  "mem_world handle \<Rightarrow> scope_fingerprint \<Rightarrow> instance_id \<Rightarrow> (mem_world, ledger_inspection option) step" where
  "inspect_in_process h scope instance_id =
     kthen (kernel_now h) (\<lambda>now.
     kthen (kcall h (on_timed_store (\<lambda>c. store_load_record c
              (InstanceRecordKey scope instance_id) Elapsing))) (\<lambda>stored.
     kthen (klift (interpret_stored (hd_codec h) stored)) (\<lambda>loaded.
       case loaded of
         LoadedPresent r version \<Rightarrow>
           if ir_expires_at r > now then kret (Some (inspection r now)) else kret None
       | LoadedAbsent \<Rightarrow> kret None)))"

definition memory_ledger_new :: "codec \<Rightarrow> ledger_limits \<Rightarrow> nat \<Rightarrow> mem_world handle" where
  "memory_ledger_new c limits identity =
     \<lparr>hd_ops = memory_ops, hd_codec = c, hd_limits = limits, hd_identity = identity\<rparr>"

definition memory_ledger_abandon_on_drop ::
  "mem_world handle \<Rightarrow> claim_token \<Rightarrow> mem_world kernel_state \<Rightarrow> mem_world kernel_state" where
  "memory_ledger_abandon_on_drop h claim s = retire_in_process h (CleanupAbandon claim) s"

definition memory_ledger_fence_on_drop ::
  "mem_world handle \<Rightarrow> claim_token \<Rightarrow> mem_world kernel_state \<Rightarrow> mem_world kernel_state" where
  "memory_ledger_fence_on_drop h claim s = retire_in_process h (CleanupFence claim) s"

end
