(* ===== verification/Kernel_Props.thy ===== *)
theory Kernel_Props
  imports Ledger_Kernel Ledger_Props
begin

text \<open>
  What the kernel's read, apply and compare-and-store loop guarantees over any store that keeps the
  contract, whatever other nodes do between its calls short of creating the record's key again: a
  write that is reported landed at exactly the record the transition was computed from, and nothing else was written.
\<close>

text \<open>A decision reads the node clock at most, writes at the version it was given, and writes
  nothing for a key that holds no record.\<close>

definition decision ::
  "('w \<Rightarrow> bool) \<Rightarrow> ('w \<Rightarrow> holdings) \<Rightarrow> (loaded \<Rightarrow> ('w, 'a attempt) step) \<Rightarrow> bool" where
  "decision wok held step \<longleftrightarrow>
     (\<forall>l s r s'. wok (ks_world s) \<longrightarrow> step l s = (r, s') \<longrightarrow>
        wok (ks_world s') \<and> held (ks_world s') = held (ks_world s)
        \<and> (\<forall>a v r'. r = Inr a \<longrightarrow> at_write a = Some (v, r') \<longrightarrow> (\<exists>r0. l = LoadedPresent r0 v)))"

lemma decisionD:
  assumes "decision wok held step" and "wok (ks_world s)" and "step l s = (r, s')"
  shows "wok (ks_world s')" and "held (ks_world s') = held (ks_world s)"
    and "r = Inr a \<Longrightarrow> at_write a = Some (v, r') \<Longrightarrow> \<exists>r0. l = LoadedPresent r0 v"
  using assms unfolding decision_def by blast+

lemma kthen_cases:
  assumes "kthen m f s = (r, s')"
  obtains e where "m s = (Inl e, s')" "r = Inl e"
    | x s1 where "m s = (Inr x, s1)" "f x s1 = (r, s')"
  using assms by (cases "m s") (auto simp: kthen_def split: sum.splits)

lemma kthen_Inr:
  assumes "kthen m f s = (Inr y, s')"
  obtains x s1 where "m s = (Inr x, s1)" "f x s1 = (Inr y, s')"
  using assms by (cases rule: kthen_cases) auto

lemma kret_eq [simp]: "kret x s = (r, s') \<longleftrightarrow> r = Inr x \<and> s' = s"
  by (auto simp: kret_def)

lemma kfail_eq [simp]: "kfail e s = (r, s') \<longleftrightarrow> r = Inl e \<and> s' = s"
  by (auto simp: kfail_def)

lemma klift_eq [simp]: "klift x s = (r, s') \<longleftrightarrow> x = r \<and> s' = s"
  by (auto simp: klift_def)

lemma kcall_eq:
  assumes "kcall h f s = (r, s')"
  shows "f (so_interfere (hd_ops h) (ks_world s)) = (r, ks_world s') \<and> ks_queue s' = ks_queue s"
  using assms by (auto simp: kcall_def Let_def split: prod.splits)

lemma interpret_present:
  "interpret_stored c st = Inr (LoadedPresent r v) \<longleftrightarrow>
     (\<exists>s. st = Some s \<and> decode_record c (sr_bytes s) = Inr r \<and> sr_version s = v)"
  by (auto simp: interpret_stored_def split: option.splits)

text \<open>What one landed write is: the record before it, decided on, and the record after it.\<close>

definition landed_write ::
  "('w \<Rightarrow> bool) \<Rightarrow> ('w \<Rightarrow> holdings) \<Rightarrow> 'w handle \<Rightarrow> instance_record_key \<Rightarrow>
   u64 \<Rightarrow> instance_record \<Rightarrow> instance_record \<Rightarrow> 'w \<Rightarrow> bool" where
  "landed_write wok held h k v r r' w' \<longleftrightarrow>
     (\<exists>wb stored bs v'. wok wb \<and> held wb k = Some stored \<and> sr_version stored = v
        \<and> decode_record (hd_codec h) (sr_bytes stored) = Inr r
        \<and> encode_record (hd_codec h) r' = Inr bs
        \<and> unat v' = Suc (unat v)
        \<and> held w' k = Some \<lparr>sr_bytes = bs, sr_version = v',
                            sr_expires_at = store_expiry (ir_expires_at r')\<rparr>
        \<and> (\<forall>k'. k' \<noteq> k \<longrightarrow> held w' k' = held wb k' \<or> held w' k' = None))"

lemma landed_write_mono:
  "landed_write wok held h k v r r' w' \<Longrightarrow> (\<And>w. wok w \<Longrightarrow> wok' w) \<Longrightarrow> landed_write wok' held h k v r r' w'"
  unfolding landed_write_def by blast

context record_store
begin

lemma call_load:
  assumes "hd_ops h = ops" and "inv (ks_world s)" and "kcall h (so_load (hd_ops h) k) s = (r, s')"
  shows "inv (ks_world s') \<and> (\<forall>st. r = Inr st \<longrightarrow> held (ks_world s') k = st)"
  using load [of "so_interfere ops (ks_world s)" k r "ks_world s'"] kcall_eq [OF assms(3)] assms
    interfere(1) [of "ks_world s"]
  by (auto simp: load_law_def)

lemma call_cas:
  assumes "hd_ops h = ops" and "inv (ks_world s)"
    and "kcall h (so_compare_and_store (hd_ops h) k v bs e) s = (r, s')"
  shows "inv (ks_world s')
    \<and> cas_law (held (so_interfere ops (ks_world s))) k v bs e r (held (ks_world s'))"
  using cas [of "so_interfere ops (ks_world s)" k v bs e r "ks_world s'"] kcall_eq [OF assms(3)] assms
    interfere(1) [of "ks_world s"]
  by auto

lemma kernel_load_ok:
  assumes "hd_ops h = ops" and "inv (ks_world s)" and "kernel_load h k s = (r, s')"
  shows "inv (ks_world s')
    \<and> (\<forall>l. r = Inr l \<longrightarrow> interpret_stored (hd_codec h) (held (ks_world s') k) = Inr l)"
  using assms(3) unfolding kernel_load_def
  by (cases rule: kthen_cases) (use call_load [OF assms(1,2)] in \<open>auto\<close>)

lemma node_now_ok:
  assumes "hd_ops h = ops" and "inv (ks_world s)" and "kernel_now h s = (r, s')"
  shows "inv (ks_world s') \<and> held (ks_world s') = held (ks_world s) \<and> ks_queue s' = ks_queue s"
  using assms node_now [of "ks_world s"]
  by (auto simp: kernel_now_def Let_def split: prod.splits)

lemma cas_lands:
  assumes h: "hd_ops h = ops" and i: "inv (ks_world s)"
    and st: "held (ks_world s) k = Some stored" "sr_version stored = v"
    and d: "decode_record (hd_codec h) (sr_bytes stored) = Inr r"
    and e: "encode_record (hd_codec h) r' = Inr bs"
    and c: "kcall h (so_compare_and_store (hd_ops h) k v bs (store_expiry (ir_expires_at r'))) s
      = (Inr (CasStored v'), s')" and one: "one_life k"
  shows "landed_write inv held h k v r r' (ks_world s')"
proof -
  let ?wb = "so_interfere ops (ks_world s)"
  have wb: "inv ?wb" using interfere(1) i by blast
  have law: "unat v' = Suc (unat v)" "case held ?wb k of Some x \<Rightarrow> sr_version x = v | None \<Rightarrow> False"
    "fewer ((held ?wb)(k \<mapsto> \<lparr>sr_bytes = bs, sr_version = v',
       sr_expires_at = store_expiry (ir_expires_at r')\<rparr>)) (held (ks_world s'))"
    "held (ks_world s') k \<noteq> None"
    using call_cas [OF h i c] by auto
  obtain x where x: "held ?wb k = Some x" "sr_version x = v" using law(2) by (auto split: option.splits)
  have "x = stored" using interfere(2) [OF i one st(1) x(1)] x(2) st(2) by simp
  moreover have "held (ks_world s') k = Some \<lparr>sr_bytes = bs, sr_version = v',
       sr_expires_at = store_expiry (ir_expires_at r')\<rparr>"
    using fewer_at [OF law(3,4)] by simp
  moreover have "held (ks_world s') k' = held ?wb k' \<or> held (ks_world s') k' = None"
    if "k' \<noteq> k" for k'
    using law(3) that unfolding fewer_def by (metis fun_upd_other)
  ultimately show ?thesis
    unfolding landed_write_def using wb x st d e law(1) by blast
qed

text \<open>How an attempt finishes: it fails, answers without writing, writes, or goes round again.\<close>

lemma finish_attempt_cases:
  assumes h: "hd_ops h = ops" and i: "inv (ks_world s)" and f: "finish_attempt h k retry a s = (r, s')"
  obtains e where "r = Inl e" "inv (ks_world s')"
    | "at_write a = None" "r = Inr (at_outcome a)" "s' = s"
    | v r' bs v' where "at_write a = Some (v, r')" "encode_record (hd_codec h) r' = Inr bs"
        "kcall h (so_compare_and_store (hd_ops h) k v bs (store_expiry (ir_expires_at r'))) s
          = (Inr (CasStored v'), s')" "r = Inr (at_outcome a)" "inv (ks_world s')"
    | s1 where "at_write a \<noteq> None" "inv (ks_world s1)" "retry s1 = (r, s')"
proof (cases "at_write a")
  case None
  then show ?thesis using that(2) f by (simp add: finish_attempt_def)
next
  case (Some vr)
  obtain v r' where vr: "at_write a = Some (v, r')" using Some by (cases vr) auto
  show ?thesis
  proof (cases "encode_record (hd_codec h) r'")
    case (Inl e)
    then show ?thesis using that(1) f vr i by (auto simp: finish_attempt_def kthen_def klift_def)
  next
    case (Inr bs)
    obtain c s1 where c: "kcall h (so_compare_and_store (hd_ops h) k v bs (store_expiry (ir_expires_at r'))) s
        = (c, s1)" by fastforce
    have i1: "inv (ks_world s1)" using call_cas [OF h i c] by blast
    have fin: "(case c of Inl e \<Rightarrow> (Inl e, s1)
        | Inr (CasStored v) \<Rightarrow> (Inr (at_outcome a), s1) | Inr _ \<Rightarrow> retry s1) = (r, s')"
      using f vr Inr c
      by (auto simp: finish_attempt_def kthen_def klift_def kret_def split: sum.splits cas_outcome.splits)
    show ?thesis
    proof (cases c rule: cas_result_cases)
      case (1 e)
      then show ?thesis using that(1) fin i1 by auto
    next
      case (2 v')
      then show ?thesis using that(3) [OF vr Inr] c fin i1 by auto
    qed (use that(4) vr i1 fin in auto)
  qed
qed

lemma apply_loop_inv:
  assumes h: "hd_ops h = ops" and step: "decision inv held step"
  shows "inv (ks_world s) \<Longrightarrow> apply_loop n h k step s = (r, s') \<Longrightarrow> inv (ks_world s')"
proof (induction n arbitrary: s)
  case (Suc n)
  from Suc.prems(2)
  have "kthen (kernel_load h k) (\<lambda>l. kthen (step l) (finish_attempt h k (apply_loop n h k step))) s
    = (r, s')" by simp
  then show ?case
  proof (cases rule: kthen_cases)
    case (1 e)
    then show ?thesis using kernel_load_ok [OF h Suc.prems(1)] by blast
  next
    case (2 l s1)
    have i1: "inv (ks_world s1)" using kernel_load_ok [OF h Suc.prems(1) 2(1)] by blast
    from 2(2) show ?thesis
    proof (cases rule: kthen_cases)
      case (1 e)
      then show ?thesis using decisionD(1) [OF step i1] by blast
    next
      case (2 a s2)
      have i2: "inv (ks_world s2)" using decisionD(1) [OF step i1 2(1)] .
      show ?thesis
        by (rule finish_attempt_cases [OF h i2 2(2)]) (use i2 Suc.IH in auto)
    qed
  qed
qed simp

lemma apply_loop_lands:
  assumes h: "hd_ops h = ops" and step: "decision inv held step" and one: "one_life k"
  shows "inv (ks_world s) \<Longrightarrow> apply_loop n h k step s = (Inr out, s') \<Longrightarrow>
    \<exists>l s1 a s2. inv (ks_world s1) \<and> interpret_stored (hd_codec h) (held (ks_world s1) k) = Inr l
      \<and> step l s1 = (Inr a, s2) \<and> out = at_outcome a
      \<and> (case at_write a of
           None \<Rightarrow> s' = s2
         | Some (v, r') \<Rightarrow> \<exists>r. l = LoadedPresent r v
             \<and> landed_write inv held h k v r r' (ks_world s'))"
proof (induction n arbitrary: s)
  case (Suc n)
  from Suc.prems(2)
  have "kthen (kernel_load h k) (\<lambda>l. kthen (step l) (finish_attempt h k (apply_loop n h k step))) s
    = (Inr out, s')" by simp
  then obtain l s1 where l: "kernel_load h k s = (Inr l, s1)"
    and rest: "kthen (step l) (finish_attempt h k (apply_loop n h k step)) s1 = (Inr out, s')"
    by (rule kthen_Inr)
  have i1: "inv (ks_world s1)" and ip: "interpret_stored (hd_codec h) (held (ks_world s1) k) = Inr l"
    using kernel_load_ok [OF h Suc.prems(1) l] by auto
  from rest obtain a s2 where a: "step l s1 = (Inr a, s2)"
    and tail: "finish_attempt h k (apply_loop n h k step) a s2 = (Inr out, s')"
    by (rule kthen_Inr)
  have i2: "inv (ks_world s2)" and held2: "held (ks_world s2) = held (ks_world s1)"
    using decisionD(1,2) [OF step i1 a] by auto
  from finish_attempt_cases [OF h i2 tail] show ?case
  proof cases
    case 2
    then show ?thesis using i1 ip a
      by (intro exI [of _ l] exI [of _ s1] exI [of _ a] exI [of _ s2]) auto
  next
    case (3 v r' bs v')
    obtain r where l': "l = LoadedPresent r v" using decisionD(3) [OF step i1 a] 3(1) by blast
    obtain stored where st: "held (ks_world s2) k = Some stored" "sr_version stored = v"
      "decode_record (hd_codec h) (sr_bytes stored) = Inr r"
      using ip l' held2 by (auto simp: interpret_present)
    show ?thesis
      using cas_lands [OF h i2 st 3(2,3) one] i1 ip a 3(1,4) l'
      by (intro exI [of _ l] exI [of _ s1] exI [of _ a] exI [of _ s2]) auto
  next
    case (4 s3)
    then show ?thesis using Suc.IH by blast
  qed simp
qed simp

end

text \<open>
  What the ledger's operations guarantee over any store that keeps the contract, and, through the
  interpretation on the memory store, over the in-process store with other nodes writing between
  the calls: every grant and every commit that is reported is one landed write, computed by the
  state machine from the record that was there the instant before.
\<close>

lemma claim_step_present:
  assumes "claim_step h request l s = (Inr a, s')" and "at_outcome a = Granted g"
  obtains r v now t where "l = LoadedPresent r v" "kernel_now h s = (Inr now, s')"
    "now < ir_expires_at r" "ledger_claim r request now (hd_limits h) v = Inr t"
    "tr_outcome t = DecisionGranted (cg_successor_revision g)"
    "cg_token g = \<lparr>ct_provider = hd_identity h, ct_scope = cr_scope request,
        ct_instance_id = cr_instance_id request, ct_claim_id = v\<rparr>"
    "at_write a = map_option (\<lambda>r. (v, r)) (tr_stored t)"
proof (cases l)
  case LoadedAbsent
  then show ?thesis using assms by (auto simp: claim_step_def attempt_read_def)
next
  case (LoadedPresent r v)
  from assms(1) LoadedPresent obtain now s1 where now: "kernel_now h s = (Inr now, s1)"
    and rest: "(if ir_expires_at r \<le> now
            then kret (attempt_read (RefreshRequired ReasonInstanceExpired))
            else kthen (klift (ledger_claim r request now (hd_limits h) v)) (\<lambda>t.
              kret (attempt_from_transition t v (claim_observed h request v (tr_outcome t))))) s1
          = (Inr a, s')"
    by (auto simp: claim_step_def elim!: kthen_Inr)
  have live: "\<not> ir_expires_at r \<le> now" using rest assms(2) by (auto simp: attempt_read_def)
  then obtain t where t: "ledger_claim r request now (hd_limits h) v = Inr t" and s': "s' = s1"
    and a: "a = attempt_from_transition t v (claim_observed h request v (tr_outcome t))"
    using rest by (auto elim!: kthen_Inr)
  have o: "claim_observed h request v (tr_outcome t) = Granted g"
    using a assms(2) by (simp add: attempt_from_transition_def)
  show ?thesis
  proof (cases "tr_outcome t")
    case (DecisionGranted successor)
    have "kernel_now h s = (Inr now, s')" "now < ir_expires_at r" using now s' live by auto
    moreover have "at_write a = map_option (\<lambda>r. (v, r)) (tr_stored t)"
      using a by (simp add: attempt_from_transition_def)
    moreover have g: "g = \<lparr>cg_token = \<lparr>ct_provider = hd_identity h, ct_scope = cr_scope request,
        ct_instance_id = cr_instance_id request, ct_claim_id = v\<rparr>, cg_successor_revision = successor\<rparr>"
      using o DecisionGranted by (simp add: claim_observed_def)
    ultimately show ?thesis using that [OF LoadedPresent _ _ t] DecisionGranted by simp
  next
    case (Classified c)
    then have "tr_outcome t = Classified (Granted g)" using o by (simp add: claim_observed_def)
    then show ?thesis using classified_not_granted [OF t] by blast
  qed
qed

lemma resolve_step_ok:
  assumes "resolve_step h f l s = (Inr a, s')" and "at_outcome a = Inr ()"
  obtains r v now where "l = LoadedPresent r v" "kernel_now h s = (Inr now, s')"
    "now < ir_expires_at r" "tr_outcome (f r now) = Inr ()"
    "at_write a = map_option (\<lambda>r. (v, r)) (tr_stored (f r now))"
proof (cases l)
  case LoadedAbsent
  then show ?thesis using assms by (auto simp: resolve_step_def attempt_read_def)
next
  case (LoadedPresent r v)
  from assms(1) LoadedPresent obtain now s1 where now: "kernel_now h s = (Inr now, s1)"
    and rest: "(if ir_expires_at r \<le> now then kret (attempt_read (Inl InstanceExpired))
            else kret (attempt_from_transition (f r now) v (tr_outcome (f r now)))) s1 = (Inr a, s')"
    by (auto simp: resolve_step_def Let_def elim!: kthen_Inr)
  show ?thesis using that [OF LoadedPresent] now rest assms(2)
    by (auto simp: attempt_read_def attempt_from_transition_def not_le split: if_splits)
qed

context record_store
begin

lemma claim_step_decision:
  assumes h: "hd_ops h = ops"
  shows "decision inv held (claim_step h request)"
proof (unfold decision_def, intro allI impI)
  fix l s r s'
  assume i: "inv (ks_world s)" and st: "claim_step h request l s = (r, s')"
  show "inv (ks_world s') \<and> held (ks_world s') = held (ks_world s)
    \<and> (\<forall>a v r'. r = Inr a \<longrightarrow> at_write a = Some (v, r') \<longrightarrow> (\<exists>r0. l = LoadedPresent r0 v))"
  proof (cases l)
    case LoadedAbsent
    then show ?thesis using i st by (auto simp: claim_step_def attempt_read_def)
  next
    case (LoadedPresent r0 v)
    then have "kthen (kernel_now h) (\<lambda>now.
            if ir_expires_at r0 \<le> now
            then kret (attempt_read (RefreshRequired ReasonInstanceExpired))
            else kthen (klift (ledger_claim r0 request now (hd_limits h) v)) (\<lambda>t.
              kret (attempt_from_transition t v (claim_observed h request v (tr_outcome t))))) s = (r, s')"
      using st by (simp add: claim_step_def)
    then show ?thesis
    proof (cases rule: kthen_cases)
      case (1 e)
      then show ?thesis using node_now_ok [OF h i] by auto
    next
      case (2 now s1)
      have "s' = s1" using 2(2) by (auto elim!: kthen_cases split: if_splits)
      moreover have "r = Inr a \<Longrightarrow> at_write a = Some (v', r') \<Longrightarrow> v' = v" for a v' r'
        using 2(2) by (auto elim!: kthen_cases simp: attempt_read_def attempt_from_transition_def
            split: if_splits)
      ultimately show ?thesis using node_now_ok [OF h i 2(1)] LoadedPresent by auto
    qed
  qed
qed

lemma resolve_step_decision:
  assumes h: "hd_ops h = ops"
  shows "decision inv held (resolve_step h f)"
proof (unfold decision_def, intro allI impI)
  fix l s r s'
  assume i: "inv (ks_world s)" and st: "resolve_step h f l s = (r, s')"
  show "inv (ks_world s') \<and> held (ks_world s') = held (ks_world s)
    \<and> (\<forall>a v r'. r = Inr a \<longrightarrow> at_write a = Some (v, r') \<longrightarrow> (\<exists>r0. l = LoadedPresent r0 v))"
  proof (cases l)
    case LoadedAbsent
    then show ?thesis using i st by (auto simp: resolve_step_def attempt_read_def)
  next
    case (LoadedPresent r0 v)
    then have "kthen (kernel_now h) (\<lambda>now.
            if ir_expires_at r0 \<le> now then kret (attempt_read (Inl InstanceExpired))
            else kret (attempt_from_transition (f r0 now) v (tr_outcome (f r0 now)))) s = (r, s')"
      using st by (simp add: resolve_step_def Let_def)
    then show ?thesis
    proof (cases rule: kthen_cases)
      case (1 e)
      then show ?thesis using node_now_ok [OF h i] by auto
    next
      case (2 now s1)
      then show ?thesis using node_now_ok [OF h i 2(1)] LoadedPresent
        by (auto simp: attempt_read_def attempt_from_transition_def split: if_splits)
    qed
  qed
qed

lemma retirement_decision:
  assumes h: "hd_ops h = ops"
  shows "decision inv held (retirement h op)"
proof (cases op)
  case (CleanupAbandon t)
  have "retirement h op = resolve_step h (\<lambda>r now. ledger_release r (ct_claim_id t) now)"
    by (auto simp: retirement_def resolve_step_def CleanupAbandon Let_def fun_eq_iff split: loaded.splits)
  then show ?thesis using resolve_step_decision [OF h] by simp
next
  case (CleanupFence t)
  show ?thesis
    by (auto simp: decision_def retirement_def CleanupFence Let_def attempt_read_def
        attempt_from_transition_def split: loaded.splits)
qed

lemma retire_inv:
  assumes h: "hd_ops h = ops" and i: "inv (ks_world s)" and r: "retire h op s = (r, s')"
  shows "inv (ks_world s')"
proof -
  obtain x where "kernel_apply h (token_key (cleanup_token op)) (retirement h op) s = (x, s')"
    using r unfolding retire_def by (cases rule: kthen_cases) auto
  then show ?thesis
    using apply_loop_inv [OF h retirement_decision [OF h] i] by (simp add: kernel_apply_def)
qed

lemma drain_loop_inv:
  assumes h: "hd_ops h = ops"
  shows "inv (ks_world s) \<Longrightarrow> inv (ks_world (snd (drain_loop n h s)))"
proof (induction n arbitrary: s)
  case (Suc n)
  obtain q s1 where q: "take_retirement s = (q, s1)" by fastforce
  have i1: "inv (ks_world s1)" using q Suc.prems by (auto simp: take_retirement_def split: if_splits list.splits)
  show ?case
  proof (cases q)
    case None
    then show ?thesis using q i1 by simp
  next
    case (Some queued)
    obtain r s2 where r: "retire h (qr_op queued) s1 = (r, s2)" by fastforce
    have "inv (ks_world s2)" using retire_inv [OF h i1 r] .
    then show ?thesis using q Some r Suc.IH by (cases r) (auto simp: requeue_retirement_def)
  qed
qed simp

lemma drain_inv: "hd_ops h = ops \<Longrightarrow> inv (ks_world s) \<Longrightarrow> inv (ks_world (snd (drain_retirements h s)))"
  using drain_loop_inv by (simp add: drain_retirements_def del: drain_loop.simps)

lemma claim_lands:
  assumes h: "hd_ops h = ops" and i: "inv (ks_world s)"
    and c: "kernel_claim h request s = (Inr (Granted g), s')"
    and one: "one_life (InstanceRecordKey (cr_scope request) (cr_instance_id request))"
  shows "\<exists>r v r' now t. landed_write inv held h
        (InstanceRecordKey (cr_scope request) (cr_instance_id request)) v r r' (ks_world s')
      \<and> now < ir_expires_at r \<and> ledger_claim r request now (hd_limits h) v = Inr t
      \<and> tr_outcome t = DecisionGranted (cg_successor_revision g) \<and> tr_stored t = Some r'
      \<and> cg_token g = \<lparr>ct_provider = hd_identity h, ct_scope = cr_scope request,
          ct_instance_id = cr_instance_id request, ct_claim_id = v\<rparr>"
proof -
  let ?k = "InstanceRecordKey (cr_scope request) (cr_instance_id request)"
  have "apply_loop apply_attempts h ?k (claim_step h request) (snd (drain_retirements h s))
    = (Inr (Granted g), s')"
    using c by (simp add: kernel_claim_def kignore_def kernel_apply_def)
  from apply_loop_lands [OF h claim_step_decision [OF h] one drain_inv [OF h i] this]
  obtain l s1 a s2 where a: "claim_step h request l s1 = (Inr a, s2)" "Granted g = at_outcome a"
    and w: "case at_write a of None \<Rightarrow> s' = s2
         | Some (v, r') \<Rightarrow> \<exists>r. l = LoadedPresent r v \<and> landed_write inv held h ?k v r r' (ks_world s')"
    by blast
  obtain r v now t where p: "l = LoadedPresent r v" "now < ir_expires_at r"
    "ledger_claim r request now (hd_limits h) v = Inr t"
    "tr_outcome t = DecisionGranted (cg_successor_revision g)"
    "cg_token g = \<lparr>ct_provider = hd_identity h, ct_scope = cr_scope request,
        ct_instance_id = cr_instance_id request, ct_claim_id = v\<rparr>"
    "at_write a = map_option (\<lambda>r. (v, r)) (tr_stored t)"
    using claim_step_present [OF a(1) a(2) [symmetric]] by metis
  have f: "claim_fresh r request now (hd_limits h) v = Inr t" using ledger_claim_granted [OF p(3,4)] by blast
  obtain r' where r': "tr_stored t = Some r'" using claim_fresh_granted [OF f p(4)] by blast
  then have "landed_write inv held h ?k v r r' (ks_world s')" using w p(1,6) by simp
  then show ?thesis using p r' by blast
qed

lemma resolve_lands:
  assumes h: "hd_ops h = ops" and i: "inv (ks_world s)"
    and c: "kthen (kernel_apply h k (resolve_step h f)) klift s = (Inr (), s')"
    and one: "one_life k" and writes: "\<And>r now. tr_outcome (f r now) = Inr () \<Longrightarrow> tr_stored (f r now) \<noteq> None"
  shows "\<exists>r v r' now. landed_write inv held h k v r r' (ks_world s') \<and> now < ir_expires_at r
    \<and> tr_outcome (f r now) = Inr () \<and> tr_stored (f r now) = Some r'"
proof -
  from c obtain x where "apply_loop apply_attempts h k (resolve_step h f) s = (Inr (Inr ()), s')"
    by (auto simp: kernel_apply_def elim!: kthen_Inr)
  from apply_loop_lands [OF h resolve_step_decision [OF h] one i this]
  obtain l s1 a s2 where a: "resolve_step h f l s1 = (Inr a, s2)" "Inr () = at_outcome a"
    and w: "case at_write a of None \<Rightarrow> s' = s2
         | Some (v, r') \<Rightarrow> \<exists>r. l = LoadedPresent r v \<and> landed_write inv held h k v r r' (ks_world s')"
    by blast
  obtain r v now where p: "l = LoadedPresent r v" "now < ir_expires_at r" "tr_outcome (f r now) = Inr ()"
    "at_write a = map_option (\<lambda>r. (v, r)) (tr_stored (f r now))"
    using resolve_step_ok [OF a(1) a(2) [symmetric]] by metis
  obtain r' where r': "tr_stored (f r now) = Some r'" using writes [OF p(3)] by auto
  then have "landed_write inv held h k v r r' (ks_world s')" using w p(1,4) by simp
  then show ?thesis using p r' by blast
qed

lemma commit_lands:
  assumes h: "hd_ops h = ops" and i: "inv (ks_world s)"
    and c: "kernel_commit h claim outcome s = (Inr (), s')" and one: "one_life (token_key claim)"
  shows "owns h claim \<and> (\<exists>r v r' p now. landed_write inv held h (token_key claim) v r r' (ks_world s')
      \<and> now < ir_expires_at r \<and> ir_phase r = Pending p \<and> pc_claim_id p = ct_claim_id claim
      \<and> now < pc_lease_expires_at p
      \<and> r' = r\<lparr>ir_phase := Ready,
          ir_accepted := retain_newest (ll_max_accepted_outcomes (hd_limits h))
            (ir_accepted r @ [outcome_metadata (token_key claim) p outcome])\<rparr>)"
proof -
  let ?f = "\<lambda>r now. ledger_commit r (token_key claim) (ct_claim_id claim) outcome now (hd_limits h)"
  have own: "owns h claim" and run: "kthen (kernel_apply h (token_key claim) (resolve_step h ?f)) klift
      (snd (drain_retirements h s)) = (Inr (), s')"
    using c by (auto simp: kernel_commit_def kignore_def split: if_splits)
  have "\<And>r now. tr_outcome (?f r now) = Inr () \<Longrightarrow> tr_stored (?f r now) \<noteq> None"
    using ledger_commit_ok by blast
  from resolve_lands [OF h drain_inv [OF h i] run one this]
  obtain r v r' now where l: "landed_write inv held h (token_key claim) v r r' (ks_world s')"
    "now < ir_expires_at r" "tr_outcome (?f r now) = Inr ()" "tr_stored (?f r now) = Some r'" by blast
  obtain p where p: "ir_phase r = Pending p" "pc_claim_id p = ct_claim_id claim"
    "now < pc_lease_expires_at p"
    "r' = r\<lparr>ir_phase := Ready,
          ir_accepted := retain_newest (ll_max_accepted_outcomes (hd_limits h))
            (ir_accepted r @ [outcome_metadata (token_key claim) p outcome])\<rparr>"
    using ledger_commit_ok [OF l(3)] l(4) by auto
  show ?thesis using own l(1,2) p by blast
qed

end

end
