(* ===== verification/Kernel_Quiet.thy ===== *)
theory Kernel_Quiet
  imports Kernel_Props Ledger_Record_Props
begin

text \<open>
  The kernel over the memory store while no other node writes and the clocks read: the loop ends
  at its first attempt, answers what the state machine decides and leaves the state machine's
  record behind. These are the facts that rule out a kernel that never answers.
\<close>

subsection \<open>One key of a quiet store\<close>

definition quiet :: "mem_world \<Rightarrow> instance_record_key \<Rightarrow> record_slot \<Rightarrow> bool" where
  "quiet w k slot = (mw_inv w \<and> \<not> mr_poisoned (mw_store w) \<and> mw_foreign w = []
     \<and> table_get (rt_instances (mr_state (mw_store w))) k = Some slot)"

lemma quiet_land [simp]: "quiet w k slot \<Longrightarrow> land_foreign w = w"
  by (simp add: quiet_def land_foreign_def)

lemma quiet_clocks [simp]:
  "quiet (w\<lparr>mw_node_clock := ns\<rparr>) k slot = quiet w k slot"
  "quiet (w\<lparr>mw_store_clock := ns\<rparr>) k slot = quiet w k slot"
  by (simp_all add: quiet_def mw_inv_def)

lemma quiet_reclaim:
  assumes "quiet w k slot" and "t < sl_expires_at slot"
  shows "store_inv (reclaim t (mr_state (mw_store w)))"
    and "table_get (rt_instances (reclaim t (mr_state (mw_store w)))) k = Some slot"
proof -
  have i: "store_inv (mr_state (mw_store w))" using assms(1) by (simp add: quiet_def mw_inv_def)
  show "store_inv (reclaim t (mr_state (mw_store w)))" using reclaim_sheds(1) [OF i] .
  show "table_get (rt_instances (reclaim t (mr_state (mw_store w)))) k = Some slot"
    using shed_at [OF reclaim_sheds(2) [OF i, of t], of k] assms by (auto simp: quiet_def)
qed

lemma on_timed_store_eq:
  "mw_store_clock w = c # cs \<Longrightarrow> on_timed_store f w =
     (fst (f c (mw_store w)), w\<lparr>mw_store := snd (f c (mw_store w)), mw_store_clock := cs\<rparr>)"
  by (simp add: on_timed_store_def Let_def split_def)

lemma with_lock_eq:
  "\<not> mr_poisoned m \<Longrightarrow> with_lock f m = (fst (f (mr_state m)), m\<lparr>mr_state := snd (f (mr_state m))\<rparr>)"
  by (simp add: with_lock_def Let_def split_def)

lemma quiet_load:
  assumes q: "quiet w k slot" and c: "mw_store_clock w = Some t # ts" and t: "t < sl_expires_at slot"
  shows "\<exists>w'. so_load memory_ops k w = (Inr (Some (slot_stored slot)), w') \<and> quiet w' k slot
    \<and> mw_store_clock w' = ts \<and> mw_node_clock w' = mw_node_clock w"
  using q quiet_reclaim [OF q t] t
  by (auto simp: memory_ops_def on_timed_store_eq [OF c] store_load_record_def quiet_def mw_inv_def
      with_lock_eq with_sweep_def table_take_unexpired_def store_inv_def Let_def split_def)

lemma quiet_cas:
  assumes q: "quiet w k slot" and c: "mw_store_clock w = Some t # ts" and t: "t < sl_expires_at slot"
    and v: "checked_add_u64 (sl_version slot) 1 = Some v'"
  shows "\<exists>w'. so_compare_and_store memory_ops k (sl_version slot) bs e w = (Inr (CasStored v'), w')
    \<and> quiet w' k \<lparr>sl_bytes = bs, sl_version = v', sl_expires_at = e\<rparr>
    \<and> mw_store_clock w' = ts \<and> mw_node_clock w' = mw_node_clock w"
  using q quiet_reclaim [OF q t] t v
  by (auto simp: memory_ops_def on_timed_store_eq [OF c] store_replace_record_def quiet_def mw_inv_def
      with_lock_eq with_sweep_def drop_elapsed_def replace_at_def store_inv_def table_put_inv
      table_get_put)

subsection \<open>The loop\<close>

lemma kcall_quiet:
  "hd_ops h = memory_ops \<Longrightarrow> quiet (ks_world s) k slot \<Longrightarrow> f (ks_world s) = (r, w') \<Longrightarrow>
   kcall h f s = (r, s\<lparr>ks_world := w'\<rparr>)"
  by (simp add: kcall_def memory_ops_def)

lemma kernel_now_quiet:
  "hd_ops h = memory_ops \<Longrightarrow> mw_node_clock (ks_world s) = Some n # ns \<Longrightarrow>
   kernel_now h s = (Inr n, s\<lparr>ks_world := (ks_world s)\<lparr>mw_node_clock := ns\<rparr>\<rparr>)"
  by (simp add: kernel_now_def memory_ops_def node_reading_def)

lemma kernel_load_quiet:
  assumes h: "hd_ops h = memory_ops" and q: "quiet (ks_world s) k slot"
    and c: "mw_store_clock (ks_world s) = Some t # ts" and t: "t < sl_expires_at slot"
    and d: "decode_record (hd_codec h) (sl_bytes slot) = Inr r"
  shows "\<exists>w'. kernel_load h k s = (Inr (LoadedPresent r (sl_version slot)), s\<lparr>ks_world := w'\<rparr>)
    \<and> quiet w' k slot \<and> mw_store_clock w' = ts \<and> mw_node_clock w' = mw_node_clock (ks_world s)"
proof -
  obtain w' where w: "so_load memory_ops k (ks_world s) = (Inr (Some (slot_stored slot)), w')"
    "quiet w' k slot" "mw_store_clock w' = ts" "mw_node_clock w' = mw_node_clock (ks_world s)"
    using quiet_load [OF q c t] by blast
  have "kcall h (so_load (hd_ops h) k) s = (Inr (Some (slot_stored slot)), s\<lparr>ks_world := w'\<rparr>)"
    using kcall_quiet [OF h q] w(1) h by simp
  then have "kernel_load h k s = (Inr (LoadedPresent r (sl_version slot)), s\<lparr>ks_world := w'\<rparr>)"
    using d by (simp add: kernel_load_def kthen_def klift_def interpret_stored_def)
  then show ?thesis using w by blast
qed

text \<open>A step that reads the node clock once and decides.\<close>

definition decides ::
  "unix_millis option list \<Rightarrow> unix_millis option list \<Rightarrow> (mem_world, 'a) step \<Rightarrow> 'a \<Rightarrow> bool" where
  "decides clock rest m a = (\<forall>s. mw_node_clock (ks_world s) = clock \<longrightarrow>
     m s = (Inr a, s\<lparr>ks_world := (ks_world s)\<lparr>mw_node_clock := rest\<rparr>\<rparr>))"

lemma apply_quiet:
  assumes h: "hd_ops h = memory_ops" and q: "quiet (ks_world s) k slot"
    and c: "mw_store_clock (ks_world s) = Some t1 # Some t2 # ts"
    and t: "t1 < sl_expires_at slot" "t2 < sl_expires_at slot"
    and d: "decode_record (hd_codec h) (sl_bytes slot) = Inr r"
    and step: "decides (mw_node_clock (ks_world s)) ns (step (LoadedPresent r (sl_version slot))) a"
    and wr: "at_write a = Some (sl_version slot, r')" "encode_record (hd_codec h) r' = Inr bs"
    and v: "checked_add_u64 (sl_version slot) 1 = Some v'"
  shows "\<exists>w'. kernel_apply h k step s = (Inr (at_outcome a), s\<lparr>ks_world := w'\<rparr>)
    \<and> quiet w' k \<lparr>sl_bytes = bs, sl_version = v', sl_expires_at = store_expiry (ir_expires_at r')\<rparr>
    \<and> mw_store_clock w' = ts \<and> mw_node_clock w' = ns"
proof -
  obtain w1 where w1: "kernel_load h k s = (Inr (LoadedPresent r (sl_version slot)), s\<lparr>ks_world := w1\<rparr>)"
    "quiet w1 k slot" "mw_store_clock w1 = Some t2 # ts" "mw_node_clock w1 = mw_node_clock (ks_world s)"
    using kernel_load_quiet [OF h q c t(1) d] by blast
  let ?w2 = "w1\<lparr>mw_node_clock := ns\<rparr>"
  have st: "step (LoadedPresent r (sl_version slot)) (s\<lparr>ks_world := w1\<rparr>) = (Inr a, s\<lparr>ks_world := ?w2\<rparr>)"
    using step w1(4) by (simp add: decides_def)
  have q2: "quiet ?w2 k slot" "mw_store_clock ?w2 = Some t2 # ts" using w1 by simp_all
  obtain w3 where w3: "so_compare_and_store memory_ops k (sl_version slot) bs
      (store_expiry (ir_expires_at r')) ?w2 = (Inr (CasStored v'), w3)"
    "quiet w3 k \<lparr>sl_bytes = bs, sl_version = v', sl_expires_at = store_expiry (ir_expires_at r')\<rparr>"
    "mw_store_clock w3 = ts" "mw_node_clock w3 = mw_node_clock ?w2"
    using quiet_cas [OF q2 t(2) v, where bs = bs and e = "store_expiry (ir_expires_at r')"] by blast
  have "kcall h (so_compare_and_store (hd_ops h) k (sl_version slot) bs (store_expiry (ir_expires_at r')))
      (s\<lparr>ks_world := ?w2\<rparr>) = (Inr (CasStored v'), s\<lparr>ks_world := w3\<rparr>)"
    using kcall_quiet [OF h, of "s\<lparr>ks_world := ?w2\<rparr>"] q2(1) w3(1) h by simp
  then have "kernel_apply h k step s = (Inr (at_outcome a), s\<lparr>ks_world := w3\<rparr>)"
    using w1(1) st wr
    by (simp add: kernel_apply_def apply_attempts_def numeral_2_eq_2 kthen_def klift_def kret_def
        finish_attempt_def)
  then show ?thesis using w3 by auto
qed

lemma drain_nothing [simp]:
  "ks_queue s = [] \<Longrightarrow> drain_retirements h s = (Inr (), s)"
  by (simp add: drain_retirements_def take_retirement_def)

text \<open>A world a quiet operation may start from: nothing queued, the clocks ready to be read.\<close>

definition ready_for ::
  "mem_world handle \<Rightarrow> mem_world kernel_state \<Rightarrow> instance_record_key \<Rightarrow> record_slot \<Rightarrow>
   instance_record \<Rightarrow> unix_millis \<Rightarrow> bool" where
  "ready_for h s k slot r now =
     (hd_ops h = memory_ops \<and> ks_queue s = [] \<and> quiet (ks_world s) k slot
      \<and> decode_record (hd_codec h) (sl_bytes slot) = Inr r \<and> now < ir_expires_at r
      \<and> sl_expires_at slot = store_expiry (ir_expires_at r) \<and> sl_version slot \<noteq> u64_max
      \<and> mw_node_clock (ks_world s) \<noteq> [] \<and> hd (mw_node_clock (ks_world s)) = Some now
      \<and> (\<exists>t1 t2 ts. mw_store_clock (ks_world s) = Some t1 # Some t2 # ts
           \<and> t1 < sl_expires_at slot \<and> t2 < sl_expires_at slot))"

lemma ready_forE:
  assumes "ready_for h s k slot r now"
  obtains ns t1 t2 ts v' where "hd_ops h = memory_ops" "ks_queue s = []" "quiet (ks_world s) k slot"
    "decode_record (hd_codec h) (sl_bytes slot) = Inr r" "now < ir_expires_at r"
    "mw_node_clock (ks_world s) = Some now # ns"
    "mw_store_clock (ks_world s) = Some t1 # Some t2 # ts"
    "t1 < sl_expires_at slot" "t2 < sl_expires_at slot"
    "checked_add_u64 (sl_version slot) 1 = Some v'" "unat v' = Suc (unat (sl_version slot))"
proof -
  obtain v' where v: "checked_add_u64 (sl_version slot) 1 = Some v'"
    using assms checked_add_u64_None_iff [of "sl_version slot"]
    by (cases "checked_add_u64 (sl_version slot) 1") (auto simp: ready_for_def)
  moreover have "unat v' = Suc (unat (sl_version slot))" using checked_add_u64_1 [OF v] by simp
  ultimately show ?thesis
    using assms that by (cases "mw_node_clock (ks_world s)") (auto simp: ready_for_def)
qed

text \<open>What the store holds once the write of a transition landed.\<close>

definition left_behind ::
  "mem_world handle \<Rightarrow> mem_world kernel_state \<Rightarrow> instance_record_key \<Rightarrow> u64 \<Rightarrow> instance_record \<Rightarrow> bool" where
  "left_behind h s k v r =
     (case mw_held (ks_world s) k of
        None \<Rightarrow> False
      | Some stored \<Rightarrow> encode_record (hd_codec h) r = Inr (sr_bytes stored)
          \<and> unat (sr_version stored) = Suc (unat v)
          \<and> sr_expires_at stored = store_expiry (ir_expires_at r))"

lemma quiet_left_behind:
  assumes "quiet w k \<lparr>sl_bytes = bs, sl_version = v', sl_expires_at = store_expiry (ir_expires_at r')\<rparr>"
    and "encode_record (hd_codec h) r' = Inr bs" and "unat v' = Suc (unat v)" and "ks_world s = w"
  shows "left_behind h s k v r'"
  using assms by (simp add: left_behind_def mw_held_def quiet_def slot_stored_def)

lemma claim_quiet:
  assumes ready: "ready_for h s (InstanceRecordKey (cr_scope request) (cr_instance_id request)) slot r now"
    and t: "ledger_claim r request now (hd_limits h) (sl_version slot) = Inr t"
    and w: "tr_stored t = Some r'" and e: "is_ok (encode_record (hd_codec h) r')"
  shows "\<exists>s'. kernel_claim h request s
      = (Inr (claim_observed h request (sl_version slot) (tr_outcome t)), s')
    \<and> left_behind h s' (InstanceRecordKey (cr_scope request) (cr_instance_id request))
        (sl_version slot) r'"
proof -
  obtain bs where bs: "encode_record (hd_codec h) r' = Inr bs" using e by (auto simp: is_ok_iff)
  from ready show ?thesis
  proof (cases rule: ready_forE)
    case (1 ns t1 t2 ts v')
    let ?a = "attempt_from_transition t (sl_version slot)
      (claim_observed h request (sl_version slot) (tr_outcome t))"
    have st: "decides (mw_node_clock (ks_world s)) ns (claim_step h request (LoadedPresent r (sl_version slot))) ?a"
      using 1 t kernel_now_quiet [OF 1(1), of _ now ns]
      by (simp add: decides_def claim_step_def kthen_def klift_def kret_def not_le)
    have "at_write ?a = Some (sl_version slot, r')" using w by (simp add: attempt_from_transition_def)
    from apply_quiet [where step = "claim_step h request", OF 1(1,3,7,8,9,4) st this bs 1(10)] quiet_left_behind [OF _ bs 1(11)]
    show ?thesis
      using 1(2) by (force simp: kernel_claim_def kignore_def attempt_from_transition_def)
  qed
qed

lemma commit_quiet:
  assumes ready: "ready_for h s (token_key claim) slot r now" and own: "owns h claim"
    and t: "tr_outcome (ledger_commit r (token_key claim) (ct_claim_id claim) outcome now (hd_limits h)) = o'"
    and w: "tr_stored (ledger_commit r (token_key claim) (ct_claim_id claim) outcome now (hd_limits h)) = Some r'"
    and e: "is_ok (encode_record (hd_codec h) r')"
  shows "\<exists>s'. kernel_commit h claim outcome s = (o', s')
    \<and> left_behind h s' (token_key claim) (sl_version slot) r'"
proof -
  let ?f = "\<lambda>r now. ledger_commit r (token_key claim) (ct_claim_id claim) outcome now (hd_limits h)"
  obtain bs where bs: "encode_record (hd_codec h) r' = Inr bs" using e by (auto simp: is_ok_iff)
  from ready show ?thesis
  proof (cases rule: ready_forE)
    case (1 ns t1 t2 ts v')
    let ?a = "attempt_from_transition (?f r now) (sl_version slot) o'"
    have st: "decides (mw_node_clock (ks_world s)) ns (resolve_step h ?f (LoadedPresent r (sl_version slot))) ?a"
      using 1 t kernel_now_quiet [OF 1(1), of _ now ns]
      by (simp add: decides_def resolve_step_def kthen_def klift_def kret_def not_le)
    have "at_write ?a = Some (sl_version slot, r')" using w by (simp add: attempt_from_transition_def)
    from apply_quiet [where step = "resolve_step h ?f", OF 1(1,3,7,8,9,4) st this bs 1(10)] quiet_left_behind [OF _ bs 1(11)]
    show ?thesis
      using 1(2) own by (force simp: kernel_commit_def kignore_def kthen_def klift_def attempt_from_transition_def)
  qed
qed

subsection \<open>Retiring in process\<close>

lemma regardless_load:
  assumes q: "quiet w k slot"
  shows "\<exists>w'. on_timed_store (\<lambda>c. store_load_record c k Regardless) w
    = (Inr (Some (slot_stored slot)), w') \<and> quiet w' k slot"
  using q by (auto simp: on_timed_store_def Let_def split_def store_load_record_def with_lock_eq quiet_def
      mw_inv_def)

lemma regardless_replace:
  assumes q: "quiet w k slot" and v: "checked_add_u64 (sl_version slot) 1 = Some v'"
  shows "\<exists>w'. on_timed_store (\<lambda>c. store_replace_record c k (sl_version slot) bs e Regardless) w
    = (Inr (CasStored v'), w') \<and> quiet w' k \<lparr>sl_bytes = bs, sl_version = v', sl_expires_at = e\<rparr>"
  using q v by (auto simp: on_timed_store_def Let_def split_def store_replace_record_def with_lock_eq
      replace_at_def quiet_def mw_inv_def store_inv_def table_put_inv table_get_put)

lemma fence_quiet:
  assumes h: "hd_ops h = memory_ops" and own: "owns h claim"
    and q: "quiet (ks_world s) (token_key claim) slot"
    and d: "decode_record (hd_codec h) (sl_bytes slot) = Inr r"
    and p: "ir_phase r = Pending p" "pc_claim_id p = ct_claim_id claim"
    and v: "sl_version slot \<noteq> u64_max"
    and e: "is_ok (encode_record (hd_codec h) (r\<lparr>ir_phase := Consumed ReasonConsumed (Some (ct_claim_id claim))\<rparr>))"
  shows "left_behind h (memory_ledger_fence_on_drop h claim s) (token_key claim) (sl_version slot)
    (r\<lparr>ir_phase := Consumed ReasonConsumed (Some (ct_claim_id claim))\<rparr>)"
proof -
  let ?k = "token_key claim" and ?r' = "r\<lparr>ir_phase := Consumed ReasonConsumed (Some (ct_claim_id claim))\<rparr>"
  obtain bs where bs: "encode_record (hd_codec h) ?r' = Inr bs" using e by (auto simp: is_ok_iff)
  obtain v' where v': "checked_add_u64 (sl_version slot) 1 = Some v'"
    using v checked_add_u64_None_iff [of "sl_version slot"]
    by (cases "checked_add_u64 (sl_version slot) 1") auto
  obtain w1 where w1: "on_timed_store (\<lambda>c. store_load_record c ?k Regardless) (ks_world s)
      = (Inr (Some (slot_stored slot)), w1)" "quiet w1 ?k slot"
    using regardless_load [OF q] by blast
  obtain w2 where w2: "on_timed_store (\<lambda>c. store_replace_record c ?k (sl_version slot) bs
      (store_expiry (ir_expires_at ?r')) Regardless) w1 = (Inr (CasStored v'), w2)"
    "quiet w2 ?k \<lparr>sl_bytes = bs, sl_version = v', sl_expires_at = store_expiry (ir_expires_at ?r')\<rparr>"
    using regardless_replace [OF w1(2) v'] by blast
  note load = kcall_quiet [OF h q, of "on_timed_store (\<lambda>c. store_load_record c ?k Regardless)", OF w1(1)]
  have store: "kcall h (on_timed_store (\<lambda>c. store_replace_record c ?k (sl_version slot) bs
      (store_expiry (ir_expires_at r)) Regardless)) (s\<lparr>ks_world := w1\<rparr>)
    = (Inr (CasStored v'), s\<lparr>ks_world := w2\<rparr>)"
    using kcall_quiet [OF h, of "s\<lparr>ks_world := w1\<rparr>"] w1(2) w2(1) by simp
  have fence: "ledger_fence r (ct_claim_id claim) = tr_write ?r' (Inr ())"
    using p by (simp add: ledger_fence_def)
  have "ks_world (memory_ledger_fence_on_drop h claim s) = w2"
    using own load store d fence bs
    by (simp add: memory_ledger_fence_on_drop_def retire_in_process_def apply_attempts_def
        numeral_2_eq_2 kthen_def klift_def kret_def interpret_stored_def retirement_def
        attempt_from_transition_def tr_write_def)
  then show ?thesis using quiet_left_behind [OF w2(2) bs] checked_add_u64_1 [OF v'] by simp
qed

end
