(* ===== verification/Kernel_Queue.thy ===== *)
theory Kernel_Queue
  imports Kernel_Quiet
begin

text \<open>
  The retirement queue of a handle and the eviction that makes room for an instance: what queueing
  drops, what a drain leaves, which records an eviction removes and how many.
\<close>

subsection \<open>Steps that leave the queue alone\<close>

definition keeps_queue :: "('w, 'a) step \<Rightarrow> bool" where
  "keeps_queue m = (\<forall>s. ks_queue (snd (m s)) = ks_queue s
     \<and> ks_queue_poisoned (snd (m s)) = ks_queue_poisoned s)"

named_theorems keeps "steps that leave the retirement queue alone"

lemma keeps_basic [keeps, simp]:
  "keeps_queue (kret x)" "keeps_queue (kfail e)" "keeps_queue (klift r)"
  "keeps_queue (kcall h f)" "keeps_queue (kernel_now h)"
  by (simp_all add: keeps_queue_def kret_def kfail_def klift_def kcall_def kernel_now_def
      Let_def split_def)

lemma keeps_then [keeps]:
  assumes "keeps_queue m" and "\<And>x. keeps_queue (f x)"
  shows "keeps_queue (kthen m f)"
  using assms unfolding keeps_queue_def kthen_def
  by (auto split: prod.splits sum.splits) (metis snd_conv)+

lemma keeps_load [keeps, simp]: "keeps_queue (kernel_load h k)"
  by (simp add: kernel_load_def keeps_then)

lemma keeps_finish [keeps]: "keeps_queue retry \<Longrightarrow> keeps_queue (finish_attempt h k retry a)"
  by (auto simp: finish_attempt_def intro!: keeps_then split: option.splits cas_outcome.splits)

lemma keeps_apply [keeps]:
  "(\<And>l. keeps_queue (step l)) \<Longrightarrow> keeps_queue (apply_loop n h k step)"
  by (induction n) (auto intro!: keeps_then keeps_finish)

lemma keeps_retirement [keeps]: "keeps_queue (retirement h op l)"
  by (cases op; cases l) (auto simp: retirement_def Let_def intro!: keeps_then)

lemma keeps_retire [keeps]: "keeps_queue (retire h op)"
  by (auto simp: retire_def kernel_apply_def intro!: keeps_then keeps_apply keeps_retirement)

lemma retire_queue:
  assumes "retire h op s = (r, s')"
  shows "ks_queue s' = ks_queue s \<and> ks_queue_poisoned s' = ks_queue_poisoned s"
  using keeps_retire [of h op] assms unfolding keeps_queue_def by (metis snd_conv)

subsection \<open>Queueing and draining\<close>

lemma drop_oldest_spec:
  "0 < limit \<Longrightarrow> \<exists>dropped. xs = dropped @ drop_oldest limit xs
     \<and> length (drop_oldest limit xs) < limit \<and> (length xs < limit \<longrightarrow> dropped = [])"
proof (induction limit xs rule: drop_oldest.induct)
  case (2 limit x xs)
  show ?case
  proof (cases "limit \<le> length (x # xs)")
    case True
    then show ?thesis using 2 by (auto intro: exI [of _ "x # _"])
  next
    case False
    then show ?thesis by simp
  qed
qed simp

text \<open>How a drain ends: everything retired, or one failure with the rest still queued behind it.\<close>

definition requeued :: "queued_retirement \<Rightarrow> queued_retirement list" where
  "requeued q = (if qr_retried q then [] else [\<lparr>qr_op = qr_op q, qr_retried = True\<rparr>])"

lemma drain_loop_queue:
  assumes "\<not> ks_queue_poisoned s" and "length (ks_queue s) < n" and "drain_loop n h s = (r, s')"
  shows "\<not> ks_queue_poisoned s' \<and> (case r of
      Inr u \<Rightarrow> ks_queue s' = []
    | Inl e \<Rightarrow> \<exists>retired q rest. ks_queue s = retired @ q # rest \<and> ks_queue s' = requeued q @ rest)"
  using assms
proof (induction n arbitrary: s)
  case (Suc n)
  show ?case
  proof (cases "ks_queue s")
    case Nil
    then show ?thesis using Suc.prems by (auto simp: take_retirement_def)
  next
    case (Cons q qs)
    let ?s1 = "s\<lparr>ks_queue := qs\<rparr>"
    obtain x s2 where x: "retire h (qr_op q) ?s1 = (x, s2)" by fastforce
    have k: "ks_queue s2 = qs" "\<not> ks_queue_poisoned s2" using retire_queue [OF x] Suc.prems(1) by auto
    show ?thesis
    proof (cases x)
      case (Inl e)
      then have "r = Inl e" "s' = (if qr_retried q then s2 else requeue_retirement (qr_op q) s2)"
        using Suc.prems Cons x by (auto simp: take_retirement_def)
      moreover from this have "ks_queue s' = requeued q @ qs" "\<not> ks_queue_poisoned s'"
        using k by (auto simp: requeued_def requeue_retirement_def)
      ultimately show ?thesis using Cons by (auto intro: exI [of _ "[]"])
    next
      case (Inr u)
      then have d: "drain_loop n h s2 = (r, s')"
        using Suc.prems Cons x by (auto simp: take_retirement_def)
      have "length (ks_queue s2) < n" using Suc.prems(2) k Cons by simp
      from Suc.IH [OF k(2) this d] show ?thesis
        using k(1) Cons by (auto split: sum.splits) (metis append_Cons)
    qed
  qed
qed simp

subsection \<open>Making room\<close>

lemma quiet_remove_at:
  assumes i: "mw_inv w" and p: "\<not> mr_poisoned (mw_store w)" and f: "mw_foreign w = []"
    and st: "mw_held w k = Some stored"
  shows "\<exists>w'. so_compare_and_remove memory_ops k (sr_version stored) w = (Inr True, w')
    \<and> mw_inv w' \<and> \<not> mr_poisoned (mw_store w') \<and> mw_foreign w' = []
    \<and> mw_held w' = (mw_held w)(k := None)
    \<and> table_len (rt_instances (mr_state (mw_store w)))
        = Suc (table_len (rt_instances (mr_state (mw_store w'))))"
proof -
  let ?t = "rt_instances (mr_state (mw_store w))"
  obtain slot where slot: "table_get ?t k = Some slot" "stored = slot_stored slot"
    using st by (auto simp: mw_held_def)
  have b: "bt_sorted (tb_slots ?t)" using i by (simp add: mw_inv_def store_inv_def table_inv_def)
  have "tb_slots ?t \<noteq> []" using slot(1) by (auto simp: table_get_def)
  then have "table_len ?t = Suc (table_len (snd (table_remove k ?t)))"
    using slot(1) length_bt_remove [OF b, of k]
    by (simp add: table_remove_def table_get_def table_len_def)
  then show ?thesis using slot i p f
    by (auto simp: memory_ops_def on_store_def store_remove_record_at_def with_lock_eq Let_def split_def
        mw_inv_def mw_held_def fun_eq_iff store_inv_def table_remove_inv)
qed

definition calm :: "mem_world \<Rightarrow> bool" where
  "calm w = (mw_inv w \<and> \<not> mr_poisoned (mw_store w) \<and> mw_foreign w = [])"

definition instance_count :: "mem_world \<Rightarrow> usize" where
  "instance_count w = table_len (rt_instances (mr_state (mw_store w)))"

lemma evict_quiet:
  assumes h: "hd_ops h = memory_ops"
  shows "calm (ks_world s) \<Longrightarrow> evicted \<le> excess \<Longrightarrow> distinct (map fst cs) \<Longrightarrow>
    \<forall>(k, stored) \<in> set cs. mw_held (ks_world s) k = Some stored \<Longrightarrow>
    \<exists>s'. evict_loop h excess evicted cs s = (Inr (), s') \<and> calm (ks_world s')
      \<and> mw_held (ks_world s') = (\<lambda>k. if k \<in> fst ` set (take (excess - evicted) cs) then None
          else mw_held (ks_world s) k)
      \<and> instance_count (ks_world s)
          = instance_count (ks_world s') + min (excess - evicted) (length cs)"
proof (induction cs arbitrary: s evicted)
  case Nil
  then show ?case by (auto simp: kret_def)
next
  case (Cons c cs)
  obtain k stored where c: "c = (k, stored)" by (cases c)
  show ?case
  proof (cases "evicted = excess")
    case True
    then show ?thesis using Cons.prems c by (auto simp: kret_def)
  next
    case False
    have "mw_held (ks_world s) k = Some stored" using Cons.prems(4) c by auto
    then obtain w' where w': "so_compare_and_remove memory_ops k (sr_version stored) (ks_world s)
        = (Inr True, w')" "calm w'" "mw_held w' = (mw_held (ks_world s))(k := None)"
        "instance_count (ks_world s) = Suc (instance_count w')"
      using quiet_remove_at [of "ks_world s" k stored] Cons.prems(1)
      by (auto simp: calm_def instance_count_def)
    let ?s1 = "s\<lparr>ks_world := w'\<rparr>"
    have call: "kcall h (so_compare_and_remove (hd_ops h) k (sr_version stored)) s = (Inr True, ?s1)"
      using w'(1) h Cons.prems(1) by (simp add: kcall_def calm_def memory_ops_def land_foreign_def)
    have sw: "ks_world ?s1 = w'" by simp
    have "\<forall>(k', stored') \<in> set cs. mw_held (ks_world ?s1) k' = Some stored'"
      using Cons.prems(3,4) w'(3) c by (fastforce simp: image_iff)
    moreover have "calm (ks_world ?s1)" "evicted + 1 \<le> excess" "distinct (map fst cs)"
      using Cons.prems(2,3) w'(2) False by auto
    ultimately obtain s' where s': "evict_loop h excess (evicted + 1) cs ?s1 = (Inr (), s')" "calm (ks_world s')"
      "mw_held (ks_world s') = (\<lambda>k'. if k' \<in> fst ` set (take (excess - (evicted + 1)) cs) then None
          else mw_held w' k')"
      "instance_count w' = instance_count (ks_world s') + min (excess - (evicted + 1)) (length cs)"
      using Cons.IH [of ?s1 "evicted + 1"] unfolding sw by blast
    have n: "excess - evicted = Suc (excess - (evicted + 1))" using False Cons.prems(2) by linarith
    have "evict_loop h excess evicted (c # cs) s = (Inr (), s')"
      using False call s'(1) c by (simp add: kthen_def)
    moreover have "mw_held (ks_world s') = (\<lambda>k'. if k' \<in> fst ` set (take (excess - evicted) (c # cs))
        then None else mw_held (ks_world s) k')"
      unfolding n using s'(3) w'(3) c by (auto simp: fun_eq_iff)
    moreover have "instance_count (ks_world s)
        = instance_count (ks_world s') + min (excess - evicted) (length (c # cs))"
      unfolding n using s'(4) w'(4) by simp
    ultimately show ?thesis using s'(2) by blast
  qed
qed

text \<open>What making room on a quiet store does, the two sweeps of its reads aside.\<close>

definition swept :: "unix_millis \<Rightarrow> mem_world \<Rightarrow> record_state" where
  "swept t w = reclaim t (mr_state (mw_store w))"

lemma calm_sweep:
  assumes w: "calm w" and c: "mw_store_clock w = Some t # ts"
  shows "\<exists>w'. so_count_instances memory_ops w = (Inr (table_len (rt_instances (swept t w))), w')
      \<and> calm w' \<and> mr_state (mw_store w') = swept t w \<and> mw_store_clock w' = ts"
    and "\<exists>w'. so_soonest_expiring_instances memory_ops n w
        = (Inr (table_soonest (rt_instances (swept t w)) n), w')
      \<and> calm w' \<and> mr_state (mw_store w') = swept t w \<and> mw_store_clock w' = ts"
  using w reclaim_sheds(1) [of "mr_state (mw_store w)" t]
  by (auto simp: memory_ops_def on_timed_store_eq [OF c] store_count_records_def
      store_soonest_records_def with_lock_eq with_sweep_def calm_def mw_inv_def swept_def)

lemma kcall_calm:
  "hd_ops h = memory_ops \<Longrightarrow> calm (ks_world s) \<Longrightarrow> f (ks_world s) = (r, w') \<Longrightarrow>
   kcall h f s = (r, s\<lparr>ks_world := w'\<rparr>)"
  by (simp add: kcall_def memory_ops_def land_foreign_def calm_def)

lemma table_get_fun: "table_get u = map_of (tb_slots u)"
  by (simp add: table_get_def fun_eq_iff)

lemma table_len_card:
  assumes "table_inv u"
  shows "finite (dom (table_get u)) \<and> card (dom (table_get u)) = table_len u"
  using assms distinct_card [of "map fst (tb_slots u)"]
  by (simp add: table_get_fun table_len_def table_inv_def dom_map_of_conv_image_fst
      bt_sorted_distinct finite_dom_map_of)

lemma swept_count: "mw_inv w \<Longrightarrow> table_len (rt_instances (swept t w)) \<le> instance_count w"
proof -
  assume "mw_inv w"
  then have i: "store_inv (mr_state (mw_store w))" by (simp add: mw_inv_def)
  have sub: "dom (table_get (rt_instances (swept t w))) \<subseteq> dom (table_get (rt_instances (mr_state (mw_store w))))"
    proof
    fix k
    assume "k \<in> dom (table_get (rt_instances (swept t w)))"
    then show "k \<in> dom (table_get (rt_instances (mr_state (mw_store w))))"
      using shed_at [OF reclaim_sheds(2) [OF i, of t], of k] by (auto simp: swept_def)
  qed
  have "table_inv (rt_instances (swept t w))" "table_inv (rt_instances (mr_state (mw_store w)))"
    using i reclaim_sheds(1) [OF i, of t] by (auto simp: store_inv_def swept_def)
  then show ?thesis using card_mono [OF _ sub] table_len_card unfolding instance_count_def by metis
qed


text \<open>The records an operation removed, the sweeps of its reads aside.\<close>

definition evicted_from :: "record_state \<Rightarrow> mem_world \<Rightarrow> instance_record_key \<Rightarrow> bool" where
  "evicted_from st w k = (held_in st k \<noteq> None \<and> mw_held w k = None)"

lemma distinct_partition:
  assumes "distinct (map fst xs)"
  shows "distinct (map fst (filter P xs @ filter (\<lambda>x. \<not> P x) xs))"
proof -
  have set: "set (map fst (filter P xs @ filter (\<lambda>x. \<not> P x) xs)) = set (map fst xs)" by auto
  have "length (map fst (filter P xs @ filter (\<lambda>x. \<not> P x) xs)) = length (map fst xs)"
    by (simp add: sum_length_filter_compl)
  then show ?thesis using distinct_card [OF assms] by (metis card_distinct set)
qed

lemma soonest_length: "table_inv t \<Longrightarrow> length (table_soonest t limit) = min limit (table_len t)"
  using table_order_flat [of t] table_len_card [of t] distinct_card [of "flat_order t"]
  by (simp add: table_soonest_map)

text \<open>Idle candidates go first, and only as many candidates as there is excess.\<close>

lemma evict_idle_first:
  fixes c :: codec and now :: unix_millis
  assumes h: "hd_ops h = memory_ops" and w: "calm (ks_world s)"
    and d: "distinct (map fst found)"
    and held: "\<forall>(k, stored) \<in> set found. mw_held (ks_world s) k = Some stored"
  defines "busy \<equiv> \<lambda>(k :: instance_record_key, stored). busy_record c stored now"
  defines "order \<equiv> filter (\<lambda>x. \<not> busy x) found @ filter busy found"
  shows "\<exists>s'. evict_loop h excess 0 order s = (Inr (), s') \<and> calm (ks_world s')
    \<and> instance_count (ks_world s) = instance_count (ks_world s') + min excess (length found)
    \<and> (\<forall>k. mw_held (ks_world s) k \<noteq> None \<longrightarrow> mw_held (ks_world s') k = None \<longrightarrow> k \<in> fst ` set found)
    \<and> (\<forall>k stored k' stored'. mw_held (ks_world s) k = Some stored \<longrightarrow> mw_held (ks_world s') k = None \<longrightarrow>
         busy_record c stored now \<longrightarrow> (k', stored') \<in> set found \<longrightarrow> \<not> busy_record c stored' now \<longrightarrow>
         mw_held (ks_world s') k' = None)"
proof -
  have set: "set order = set found" and len: "length order = length found"
    by (auto simp: order_def sum_length_filter_compl add.commute)
  have dist: "distinct (map fst order)"
    using distinct_partition [OF d, of "\<lambda>x. \<not> busy x"] by (simp add: order_def)
  obtain s' where s': "evict_loop h excess 0 order s = (Inr (), s')" "calm (ks_world s')"
    "mw_held (ks_world s') = (\<lambda>k. if k \<in> fst ` set (take excess order) then None
        else mw_held (ks_world s) k)"
    "instance_count (ks_world s) = instance_count (ks_world s') + min excess (length order)"
    using evict_quiet [OF h w, of 0 excess order] dist held set by auto
  have idle: "mw_held (ks_world s') k' = None"
    if "mw_held (ks_world s) k = Some stored" "mw_held (ks_world s') k = None" "busy_record c stored now"
      "(k', stored') \<in> set found" "\<not> busy_record c stored' now" for k stored k' stored'
  proof -
    have "k \<in> fst ` set (take excess order)" using that(1,2) s'(3) by (auto split: if_splits)
    then obtain x where x: "(k, x) \<in> set (take excess order)" by auto
    then have "mw_held (ks_world s) k = Some x" using held set in_set_takeD [OF x] by auto
    then have b: "busy (k, x)" using that(1,3) by (simp add: busy_def)
    have "\<not> excess \<le> length (filter (\<lambda>x. \<not> busy x) found)"
    proof
      assume "excess \<le> length (filter (\<lambda>x. \<not> busy x) found)"
      then have "(k, x) \<in> set (take excess (filter (\<lambda>x. \<not> busy x) found))" using x by (simp add: order_def)
      from in_set_takeD [OF this] b show False by simp
    qed
    moreover have "(k', stored') \<in> set (filter (\<lambda>x. \<not> busy x) found)" using that(4,5) by (simp add: busy_def)
    ultimately have "(k', stored') \<in> set (take excess order)" by (simp add: order_def)
    then show ?thesis using s'(3) by (force simp: image_iff)
  qed
  have "k \<in> fst ` set found" if "mw_held (ks_world s) k \<noteq> None" "mw_held (ks_world s') k = None" for k
    using that s'(3) set set_take_subset [of excess order] by (auto split: if_splits)
  then show ?thesis
    using s'(1,2) s'(4) [unfolded len] idle by (intro exI [of _ s'] conjI) blast+
qed

lemma make_room_quiet:
  assumes h: "hd_ops h = memory_ops" and w: "calm (ks_world s)"
    and c: "mw_store_clock (ks_world s) = Some t1 # Some t2 # ts"
    and lim: "ledger_limits_valid (hd_limits h)"
  defines "st \<equiv> reclaim t2 (swept t1 (ks_world s))"
  defines "found \<equiv> table_soonest (rt_instances st) eviction_candidates"
  shows "\<exists>s'. make_room h now s = (Inr (), s') \<and> calm (ks_world s')
    \<and> (instance_count (ks_world s') < ll_max_instances (hd_limits h)
       \<or> instance_count (ks_world s') + 4 \<le> instance_count (ks_world s))
    \<and> (\<forall>k. evicted_from st (ks_world s') k \<longrightarrow> k \<in> fst ` set found)
    \<and> (\<forall>k stored k' stored'. evicted_from st (ks_world s') k \<longrightarrow> held_in st k = Some stored \<longrightarrow>
         busy_record (hd_codec h) stored now \<longrightarrow> (k', stored') \<in> set found \<longrightarrow>
         \<not> busy_record (hd_codec h) stored' now \<longrightarrow> evicted_from st (ks_world s') k')"
proof -
  let ?max = "ll_max_instances (hd_limits h)"
  let ?n1 = "table_len (rt_instances (swept t1 (ks_world s)))"
  let ?ex = "saturating_sub_usize (saturating_add_usize ?n1 1) ?max"
  have max: "0 < ?max" "?max \<le> 1000000" using lim by (auto simp: ledger_limits_valid_def max_instances_def)
  obtain w1 where w1: "so_count_instances memory_ops (ks_world s) = (Inr ?n1, w1)" "calm w1"
    "mr_state (mw_store w1) = swept t1 (ks_world s)" "mw_store_clock w1 = Some t2 # ts"
    using calm_sweep(1) [OF w c] by blast
  have n1: "?n1 \<le> instance_count (ks_world s)" using w swept_count by (simp add: calm_def)
  note call1 = kcall_calm [OF h w, of "so_count_instances (hd_ops h)", unfolded h, OF w1(1)]
  show ?thesis
  proof (cases "?ex = 0")
    case True
    have i1: "store_inv (swept t1 (ks_world s))" using w1(2,3) by (simp add: calm_def mw_inv_def)
    have "held_in st k \<noteq> None \<Longrightarrow> mw_held w1 k \<noteq> None" for k
      using reclaim_fewer [OF i1, of t2] w1(3)
      by (auto simp: st_def mw_held_eq dest: fewer_SomeD)
    then have "\<not> evicted_from st w1 k" for k unfolding evicted_from_def by blast
    moreover have "?n1 < ?max" using True max by (simp add: arith_defs usize_max_def split: if_splits)
    ultimately show ?thesis using True call1 w1 h
      by (simp add: make_room_def kthen_def kret_def Let_def instance_count_def)
  next
    case False
    obtain w2 where w2: "so_soonest_expiring_instances memory_ops eviction_candidates w1 = (Inr found, w2)"
      "calm w2" "mr_state (mw_store w2) = st"
      using calm_sweep(2) [OF w1(2,4), of eviction_candidates] w1(3)
      by (auto simp: found_def st_def swept_def)
    let ?s1 = "s\<lparr>ks_world := w1\<rparr>" and ?s2 = "s\<lparr>ks_world := w2\<rparr>"
    have call2: "kcall h (so_soonest_expiring_instances memory_ops eviction_candidates) ?s1 = (Inr found, ?s2)"
      using kcall_calm [OF h, of ?s1] w1(2) w2(1) by simp
    have inv: "table_inv (rt_instances st)" using w2(2,3) by (simp add: calm_def mw_inv_def store_inv_def)
    note spec = table_soonest_spec [OF inv, of eviction_candidates, folded found_def]
    have held: "mw_held w2 = held_in st" by (simp add: mw_held_eq w2(3))
    have sp: "distinct (map fst found)" "\<forall>(k, stored) \<in> set found. mw_held (ks_world ?s2) k = Some stored"
      using spec by (auto simp: held held_in_def)
    let ?busy = "\<lambda>(k, stored). busy_record (hd_codec h) stored now"
    obtain s' where s': "evict_loop h ?ex 0 (filter (\<lambda>x. \<not> ?busy x) found @ filter ?busy found) ?s2 = (Inr (), s')"
      "calm (ks_world s')" "instance_count w2 = instance_count (ks_world s') + min ?ex (length found)"
      and gone: "\<forall>k. mw_held w2 k \<noteq> None \<longrightarrow> mw_held (ks_world s') k = None \<longrightarrow> k \<in> fst ` set found"
      and first: "\<forall>k stored k' stored'. mw_held w2 k = Some stored \<longrightarrow> mw_held (ks_world s') k = None \<longrightarrow>
         busy_record (hd_codec h) stored now \<longrightarrow> (k', stored') \<in> set found \<longrightarrow>
         \<not> busy_record (hd_codec h) stored' now \<longrightarrow> mw_held (ks_world s') k' = None"
      using evict_idle_first [OF h _ sp, of ?ex "hd_codec h" now] w2(2) by auto
    have run: "make_room h now s = (Inr (), s')"
      using False call1 call2 h s'(1)
      by (simp add: make_room_def kthen_def Let_def comp_def split_def)
    have "instance_count w2 = table_len (rt_instances st)" by (simp add: instance_count_def w2(3))
    moreover have "length found = min 4 (table_len (rt_instances st))"
      using soonest_length [OF inv] by (simp add: found_def eviction_candidates_def)
    moreover have "table_len (rt_instances st) \<le> ?n1"
      using swept_count [of w1 t2] w1(2,3) by (simp add: calm_def st_def swept_def instance_count_def)
    moreover have "?ex = ?n1 + 1 - ?max \<or> 4 \<le> ?ex" using max by (auto simp: arith_defs usize_max_def min_def)
    ultimately have "instance_count (ks_world s') < ?max
        \<or> instance_count (ks_world s') + 4 \<le> instance_count (ks_world s)"
      using s'(3) n1 max by (auto simp: min_def split: if_splits)
    moreover have "held_in st k' \<noteq> None" if "(k', stored') \<in> set found" for k' stored'
      using sp(2) that by (auto simp: held)
    ultimately show ?thesis
      using run s'(2) gone [unfolded held] first [unfolded held] unfolding evicted_from_def
      by (intro exI [of _ s'] conjI) blast+
  qed
qed

end
