(* ===== verification/Kernel_Claims.thy ===== *)
theory Kernel_Claims
  imports Kernel_Queue
begin

text \<open>
  The properties of the distributed ledger: what a reported grant and a reported commit mean over
  a store other nodes write to, that a quiet store answers what the state machine decides, and
  what queueing, draining, fencing and evicting do.
\<close>

subsection \<open>A concrete handle and store\<close>

definition kx_limits :: ledger_limits where
  "kx_limits = \<lparr>ll_claim_lease_ms = 1, ll_max_instance_lifetime_ms = 60000,
     ll_max_accepted_outcomes = 2, ll_max_instances = 1\<rparr>"

definition kx_request :: claim_request where
  "kx_request = \<lparr>cr_scope = ex_scope, cr_instance_id = ex_instance, cr_base_revision = 5,
     cr_idempotency_key = ex_idem, cr_request_digest = ex_digest\<rparr>"

definition kx_handle :: "mem_world handle" where
  "kx_handle = memory_ledger_new plain_codec kx_limits 42"

definition kx_pending :: instance_record where
  "kx_pending = granted_record ex_small_record kx_request 1 6 2"

definition kx_token :: claim_token where
  "kx_token = \<lparr>ct_provider = 42, ct_scope = ex_scope, ct_instance_id = ex_instance, ct_claim_id = 1\<rparr>"

definition kx_bytes :: "instance_record \<Rightarrow> u8 list" where
  "kx_bytes r = projr (encode_record plain_codec r)"

definition kx_slot :: "instance_record \<Rightarrow> u64 \<Rightarrow> record_slot" where
  "kx_slot r v = \<lparr>sl_bytes = kx_bytes r, sl_version = v, sl_expires_at = store_expiry (ir_expires_at r)\<rparr>"

definition kx_state :: "instance_record \<Rightarrow> u64 \<Rightarrow> mem_world kernel_state" where
  "kx_state r v = \<lparr>ks_world = \<lparr>mw_store = \<lparr>mr_poisoned = False, mr_state =
       \<lparr>rt_instances = table_put ex_key (kx_slot r v) table_new, rt_promotions = table_new\<rparr>\<rparr>,
       mw_store_clock = [Some 1, Some 1], mw_node_clock = [Some 1], mw_foreign = []\<rparr>,
     ks_queue = [], ks_queue_poisoned = False\<rparr>"

lemma kx_decimal: "u64_to_string 1 = ''1''" "u64_to_string 2 = ''2''" "u64_to_string 6 = ''6''"
proof -
  have "digit_char 1 = CHR ''1''" "digit_char 2 = CHR ''2''" "digit_char 6 = CHR ''6''" by code_simp+
  then show "u64_to_string 1 = ''1''" "u64_to_string 2 = ''2''" "u64_to_string 6 = ''6''"
    by (simp_all add: u64_to_string_def nat_to_dec.simps)
qed

lemma kx_pending_encodes: "is_ok (encode_record plain_codec kx_pending)"
  by (simp add: encode_record_def encode_frame_def body_limits_eq plain_codec_def plain_serde_def
      kx_pending_def granted_record_def kx_request_def ex_defs
      ex_small_record_def created_record_def record_from_record_def s_record_def
      ex_small_decimal kx_decimal max_accepted_outcomes_def to_canonical_bytes_def tagged_json_def
      validate_container_def count_entry_def saturating_add_usize_def usize_max_def is_ok_iff
      bt_collect_def map_err_eq_Inl Let_def div_ceil_def)

definition kx_committed :: instance_record where
  "kx_committed = kx_pending\<lparr>ir_phase := Ready, ir_accepted := [\<lparr>am_scope = ex_scope,
     am_instance_id = ex_instance, am_base_revision = 5, am_successor_revision = 6,
     am_idempotency_key = ex_idem, am_request_digest = ex_digest, am_outcome = ex_outcome\<rparr>]\<rparr>"

lemma kx_committed_encodes: "is_ok (encode_record plain_codec kx_committed)"
  by (simp add: encode_record_def encode_frame_def body_limits_eq plain_codec_def plain_serde_def
      kx_committed_def kx_pending_def granted_record_def kx_request_def ex_defs
      ex_small_record_def created_record_def record_from_record_def s_record_def s_accepted_def
      accepted_from_metadata_def
      ex_small_decimal kx_decimal max_accepted_outcomes_def to_canonical_bytes_def tagged_json_def
      validate_container_def count_entry_def saturating_add_usize_def usize_max_def is_ok_iff
      bt_collect_def map_err_eq_Inl Let_def div_ceil_def)

lemma kx_records_ok: "record_ok kx_pending" "record_ok kx_committed"
  by (simp_all add: record_ok_def kx_committed_def kx_pending_def granted_record_def kx_request_def
      ex_defs ex_small_record_def created_record_def max_accepted_outcomes_def word_less_nat_alt)

lemma kx_handle_simps [simp]:
  "hd_ops kx_handle = memory_ops" "hd_codec kx_handle = plain_codec"
  "hd_limits kx_handle = kx_limits" "hd_identity kx_handle = 42"
  by (simp_all add: kx_handle_def memory_ledger_new_def)

lemma kx_inv [simp]: "mw_inv (ks_world (kx_state r v))"
  by (simp add: kx_state_def mw_inv_def store_inv_def table_put_inv)

lemma kx_once [simp]: "created_once k (ks_world (kx_state r v))"
  by (simp add: kx_state_def created_once_def)

lemma kx_ready:
  assumes "record_ok r" and "is_ok (encode_record plain_codec r)" and "1 < ir_expires_at r"
    and "v \<noteq> u64_max"
  shows "ready_for kx_handle (kx_state r v) ex_key (kx_slot r v) r 1"
proof -
  have "encode_record plain_codec r = Inr (kx_bytes r)"
    using assms(2) by (auto simp: kx_bytes_def is_ok_iff)
  then have "decode_record plain_codec (kx_bytes r) = Inr r"
    using record_codec_round_trip [OF plain_codec_lawful assms(1)] by blast
  moreover have "1 < store_expiry (ir_expires_at r)"
    using assms(3) saturating_add_u64_ge1 [of "ir_expires_at r"] unfolding store_expiry_def
    by (meson less_le_trans)
  ultimately show ?thesis using assms
    by (simp add: ready_for_def kx_slot_def kx_state_def quiet_def mw_inv_def store_inv_def
        table_put_inv table_get_put)
qed

lemma kx_key: "InstanceRecordKey (cr_scope kx_request) (cr_instance_id kx_request) = ex_key"
  "token_key kx_token = ex_key"
  by (simp_all add: kx_request_def kx_token_def token_key_def ex_key_def)

lemma kx_small_ready: "ready_for kx_handle (kx_state ex_small_record 1) ex_key (kx_slot ex_small_record 1)
    ex_small_record 1"
  by (rule kx_ready [OF ex_small_record_ok ex_small_encodes])
    (simp_all add: ex_small_record_def created_record_def u64_max_def)

lemma kx_pending_ready: "ready_for kx_handle (kx_state kx_pending 2) ex_key (kx_slot kx_pending 2)
    kx_pending 1"
  by (rule kx_ready [OF kx_records_ok(1) kx_pending_encodes])
    (simp_all add: kx_pending_def granted_record_def ex_small_record_def created_record_def u64_max_def)

lemma kx_claims:
  "ledger_claim ex_small_record kx_request 1 kx_limits 1 = Inr (tr_write kx_pending (DecisionGranted 6))"
  by (simp add: ledger_claim_def expire_pending_def lease_elapsed_def claim_replay_def claim_fresh_def
      kx_pending_def kx_limits_def kx_request_def ex_small_record_def created_record_def
      revision_checked_next_def checked_add_u64_def)

lemma kx_commits:
  "ledger_commit kx_pending ex_key 1 ex_outcome 1 kx_limits = tr_write kx_committed (Inr ())"
  by (simp add: ledger_commit_def kx_pending_def granted_record_def kx_committed_def monotonic_def
      outcome_metadata_def kx_limits_def kx_request_def ex_small_record_def created_record_def ex_key_def
      Let_def word_le_nat_alt)



text \<open>A handle with one retirement queued, on a store whose clock cannot be read.\<close>

definition kx_dark :: "mem_world kernel_state" where
  "kx_dark = \<lparr>ks_world = \<lparr>mw_store = memory_record_store_new, mw_store_clock = [],
       mw_node_clock = [], mw_foreign = []\<rparr>,
     ks_queue = [\<lparr>qr_op = CleanupFence kx_token, qr_retried = False\<rparr>], ks_queue_poisoned = False\<rparr>"

lemma kx_dark_drain: "\<exists>s'. drain_retirements kx_handle kx_dark = (Inl ClockUnavailable, s')"
  by (simp add: kx_dark_def drain_retirements_def take_retirement_def retire_def kernel_apply_def
      apply_attempts_def numeral_2_eq_2 kthen_def kernel_load_def kcall_def memory_ops_def
      land_foreign_def on_timed_store_def store_load_record_def with_lock_def with_sweep_def Let_def
      memory_record_store_new_def)

subsection \<open>Properties\<close>





text \<open>
  On a store no one else writes, with clocks that read, a claim ends at its first attempt with
  exactly the state machine's decision, bound to this provider's token, and leaves the state
  machine's record at the next version. The compare-and-store loop never hides an answer.
\<close>

theorem quiet_claim_answers:
  assumes "ready_for h s (InstanceRecordKey (cr_scope request) (cr_instance_id request)) slot r now"
    and "ledger_claim r request now (hd_limits h) (sl_version slot) = Inr t"
    and "tr_stored t = Some r'" and "is_ok (encode_record (hd_codec h) r')"
  shows "\<exists>s'. kernel_claim h request s
      = (Inr (claim_observed h request (sl_version slot) (tr_outcome t)), s')
    \<and> left_behind h s' (InstanceRecordKey (cr_scope request) (cr_instance_id request))
        (sl_version slot) r'"
  by (rule claim_quiet [OF assms])

theorem quiet_claim_answers_witness:
  "\<exists>s'. kernel_claim kx_handle kx_request (kx_state ex_small_record 1)
      = (Inr (Granted \<lparr>cg_token = kx_token, cg_successor_revision = 6\<rparr>), s')
    \<and> left_behind kx_handle s' ex_key 1 kx_pending"
  using quiet_claim_answers [of kx_handle "kx_state ex_small_record 1" kx_request
      "kx_slot ex_small_record 1" ex_small_record 1 "tr_write kx_pending (DecisionGranted 6)" kx_pending]
    kx_small_ready kx_claims kx_pending_encodes
  by (simp add: kx_key kx_slot_def tr_write_def claim_observed_def) (simp add: kx_token_def kx_request_def)

text \<open>
  Likewise a commit of an owned token on a quiet store answers what the state machine answers,
  errors that write included (an elapsed lease consumes the record), and leaves its record.
\<close>

theorem quiet_commit_answers:
  assumes "ready_for h s (token_key claim) slot r now" and "owns h claim"
    and "tr_outcome (ledger_commit r (token_key claim) (ct_claim_id claim) outcome now (hd_limits h)) = o'"
    and "tr_stored (ledger_commit r (token_key claim) (ct_claim_id claim) outcome now (hd_limits h)) = Some r'"
    and "is_ok (encode_record (hd_codec h) r')"
  shows "\<exists>s'. kernel_commit h claim outcome s = (o', s')
    \<and> left_behind h s' (token_key claim) (sl_version slot) r'"
  by (rule commit_quiet [OF assms])

theorem quiet_commit_answers_witness:
  "\<exists>s'. kernel_commit kx_handle kx_token ex_outcome (kx_state kx_pending 2) = (Inr (), s')
    \<and> left_behind kx_handle s' ex_key 2 kx_committed"
  using quiet_commit_answers [of kx_handle "kx_state kx_pending 2" kx_token "kx_slot kx_pending 2"
      kx_pending 1 ex_outcome "Inr ()" kx_committed]
    kx_pending_ready kx_commits kx_committed_encodes
  by (simp add: kx_key owns_def) (simp add: kx_token_def tr_write_def kx_slot_def)

text \<open>
  Dropping a token queues its retirement without growing the queue past the instance bound: the
  oldest entries make way, the newest stays last, nothing is dropped while there is room, and a
  token of another provider never enters.
\<close>

theorem queued_retirements_bounded:
  assumes "ledger_limits_valid (hd_limits h)" and "\<not> ks_queue_poisoned s"
  shows "if owns h (cleanup_token op)
    then \<exists>dropped kept. ks_queue s = dropped @ kept
      \<and> ks_queue (queue_retirement h op s) = kept @ [\<lparr>qr_op = op, qr_retried = False\<rparr>]
      \<and> length (ks_queue (queue_retirement h op s)) \<le> ll_max_instances (hd_limits h)
      \<and> (length (ks_queue s) < ll_max_instances (hd_limits h) \<longrightarrow> dropped = [])
    else queue_retirement h op s = s"
proof -
  have "0 < ll_max_instances (hd_limits h)" using assms(1) by (simp add: ledger_limits_valid_def)
  from drop_oldest_spec [OF this, of "ks_queue s"] obtain dropped where
    "ks_queue s = dropped @ drop_oldest (ll_max_instances (hd_limits h)) (ks_queue s)"
    "length (drop_oldest (ll_max_instances (hd_limits h)) (ks_queue s)) < ll_max_instances (hd_limits h)"
    "length (ks_queue s) < ll_max_instances (hd_limits h) \<longrightarrow> dropped = []" by blast
  then show ?thesis using assms(2)
    by (cases "owns h (cleanup_token op)")
      (simp_all add: queue_retirement_def Suc_le_eq del: drop_oldest.simps, blast)
qed

lemma kx_limits_valid: "ledger_limits_valid kx_limits"
  by (simp add: ledger_limits_valid_def kx_limits_def max_claim_lease_ms_def
      max_instance_lifetime_ms_def max_accepted_outcomes_def max_instances_def word_le_nat_alt
      word_less_nat_alt)

theorem queued_retirements_bounded_witness:
  "length (ks_queue (queue_retirement kx_handle (CleanupFence kx_token) (kx_state kx_pending 2))) \<le> 1"
  using queued_retirements_bounded [of kx_handle "kx_state kx_pending 2" "CleanupFence kx_token"]
  by (simp add: kx_limits_valid owns_def) (simp add: kx_token_def kx_state_def kx_limits_def)

text \<open>
  Draining retires queued entries from the oldest on. Reporting success means the queue is
  empty; a failure stops at one entry, which goes back to the head for a second attempt only if it
  had none before, with everything behind it still queued in order.
\<close>

theorem drain_retires_in_order:
  assumes "\<not> ks_queue_poisoned s" and "drain_retirements h s = (r, s')"
  shows "case r of
      Inr u \<Rightarrow> ks_queue s' = []
    | Inl e \<Rightarrow> \<exists>retired q rest. ks_queue s = retired @ q # rest \<and> ks_queue s' = requeued q @ rest"
  using drain_loop_queue [OF assms(1) lessI assms(2) [unfolded drain_retirements_def]] by blast

theorem drain_retires_in_order_witness:
  "\<exists>s'. drain_retirements kx_handle kx_dark = (Inl ClockUnavailable, s')
    \<and> ks_queue s' = [\<lparr>qr_op = CleanupFence kx_token, qr_retried = True\<rparr>]"
proof -
  obtain s' where s': "drain_retirements kx_handle kx_dark = (Inl ClockUnavailable, s')"
    using kx_dark_drain by blast
  have q: "ks_queue kx_dark = [\<lparr>qr_op = CleanupFence kx_token, qr_retried = False\<rparr>]"
    "\<not> ks_queue_poisoned kx_dark" by (simp_all add: kx_dark_def)
  from drain_retires_in_order [OF q(2) s'] show ?thesis
    using s' q(1) by (auto simp: requeued_def Cons_eq_append_conv)
qed

text \<open>
  When an in-process claim is dropped after its host effects may have run, its record is fenced
  at once, whatever the clocks say and even when they cannot be read: the pending claim becomes
  terminal under its own name, so its base can never be claimed again.
\<close>

theorem dropped_claim_is_fenced_without_clock:
  assumes "hd_ops h = memory_ops" and "owns h claim" and "quiet (ks_world s) (token_key claim) slot"
    and "decode_record (hd_codec h) (sl_bytes slot) = Inr r"
    and "ir_phase r = Pending p" and "pc_claim_id p = ct_claim_id claim"
    and "sl_version slot \<noteq> u64_max"
    and "is_ok (encode_record (hd_codec h) (r\<lparr>ir_phase := Consumed ReasonConsumed (Some (ct_claim_id claim))\<rparr>))"
  shows "left_behind h (memory_ledger_fence_on_drop h claim s) (token_key claim) (sl_version slot)
    (r\<lparr>ir_phase := Consumed ReasonConsumed (Some (ct_claim_id claim))\<rparr>)"
  by (rule fence_quiet [OF assms])

definition kx_fenced :: instance_record where
  "kx_fenced = kx_pending\<lparr>ir_phase := Consumed ReasonConsumed (Some 1)\<rparr>"

lemma kx_fenced_encodes: "is_ok (encode_record plain_codec kx_fenced)"
  by (simp add: encode_record_def encode_frame_def body_limits_eq plain_codec_def plain_serde_def
      kx_fenced_def kx_pending_def granted_record_def kx_request_def ex_defs
      ex_small_record_def created_record_def record_from_record_def s_record_def
      ex_small_decimal kx_decimal max_accepted_outcomes_def to_canonical_bytes_def tagged_json_def
      validate_container_def count_entry_def saturating_add_usize_def usize_max_def is_ok_iff
      bt_collect_def map_err_eq_Inl Let_def div_ceil_def)

theorem dropped_claim_is_fenced_without_clock_witness:
  "left_behind kx_handle (memory_ledger_fence_on_drop kx_handle kx_token (kx_state kx_pending 2))
     ex_key 2 kx_fenced"
proof -
  have q: "quiet (ks_world (kx_state kx_pending 2)) (token_key kx_token) (kx_slot kx_pending 2)"
    "decode_record (hd_codec kx_handle) (sl_bytes (kx_slot kx_pending 2)) = Inr kx_pending"
    using kx_pending_ready by (auto simp: ready_for_def kx_key)
  from dropped_claim_is_fenced_without_clock [OF _ _ q, of
      "\<lparr>pc_claim_id = 1, pc_base_revision = 5, pc_successor_revision = 6,
        pc_idempotency_key = ex_idem, pc_request_digest = ex_digest, pc_lease_expires_at = 2\<rparr>"]
  show ?thesis using kx_fenced_encodes
    by (simp add: kx_key owns_def)
      (simp add: kx_token_def kx_pending_def granted_record_def kx_request_def kx_fenced_def kx_slot_def u64_max_def)
qed

text \<open>
  Making room for a new instance in a quiet in-process store leaves space under the instance
  bound, or else has taken the full four candidates; only one of the four records that expire
  soonest is ever evicted, and one with a claim in flight only after every idle candidate.
\<close>

theorem make_room_evicts_idle_first:
  assumes "hd_ops h = memory_ops" and "calm (ks_world s)"
    and "mw_store_clock (ks_world s) = Some t1 # Some t2 # ts"
    and "ledger_limits_valid (hd_limits h)"
  shows "\<exists>s'. make_room h now s = (Inr (), s') \<and> calm (ks_world s')
    \<and> (instance_count (ks_world s') < ll_max_instances (hd_limits h)
       \<or> instance_count (ks_world s') + 4 \<le> instance_count (ks_world s))
    \<and> (\<forall>k. evicted_from (reclaim t2 (swept t1 (ks_world s))) (ks_world s') k \<longrightarrow>
         k \<in> fst ` set (table_soonest (rt_instances (reclaim t2 (swept t1 (ks_world s)))) 4))
    \<and> (\<forall>k stored k' stored'.
         evicted_from (reclaim t2 (swept t1 (ks_world s))) (ks_world s') k \<longrightarrow>
         held_in (reclaim t2 (swept t1 (ks_world s))) k = Some stored \<longrightarrow>
         busy_record (hd_codec h) stored now \<longrightarrow>
         (k', stored') \<in> set (table_soonest (rt_instances (reclaim t2 (swept t1 (ks_world s)))) 4) \<longrightarrow>
         \<not> busy_record (hd_codec h) stored' now \<longrightarrow>
         evicted_from (reclaim t2 (swept t1 (ks_world s))) (ks_world s') k')"
  using make_room_quiet [OF assms] unfolding eviction_candidates_def .

theorem make_room_evicts_idle_first_witness:
  "\<exists>s'. make_room kx_handle 1 (kx_state ex_small_record 1) = (Inr (), s')
     \<and> instance_count (ks_world s') = 0"
proof -
  have c: "calm (ks_world (kx_state ex_small_record 1))"
    using kx_inv [of ex_small_record 1] by (simp add: calm_def kx_state_def)
  have n: "instance_count (ks_world (kx_state ex_small_record 1)) = 1"
    by (simp add: instance_count_def kx_state_def table_len_def table_put_def table_new_def
        table_get_def table_schedule_def Let_def)
  have "mw_store_clock (ks_world (kx_state ex_small_record 1)) = [Some 1, Some 1]"
    by (simp add: kx_state_def)
  from make_room_evicts_idle_first [OF _ c this, of kx_handle 1] n show ?thesis
    by (auto simp: kx_limits_valid) (auto simp: kx_limits_def)
qed

end
