(* ===== verification/Store_Claims.thy ===== *)
theory Store_Claims
  imports Kernel_Queue Ledger_Props
begin

text \<open>
  The in-process record store against its specification: at each reading of the store clock its
  instance table is a finite map of unexpired records, and loading, inserting and replacing are the
  map operations; the eviction order is exact; sweeping is invisible and bounded.
\<close>

subsection \<open>The specification\<close>

type_synonym record_map = "instance_record_key \<Rightarrow> stored_record option"

definition unexpired :: "unix_millis \<Rightarrow> record_map \<Rightarrow> record_map" where
  "unexpired now m k = (case m k of
     Some s \<Rightarrow> if sr_expires_at s > now then Some s else None | None \<Rightarrow> None)"

datatype store_call =
    CallLoad instance_record_key
  | CallInsert instance_record_key "u8 list" unix_millis
  | CallReplace instance_record_key u64 "u8 list" unix_millis

datatype store_answer = AnswerRecord "stored_record option" | AnswerInserted bool | AnswerCas cas_outcome

text \<open>What a call on a map of unexpired records answers and leaves.\<close>

fun spec_call :: "store_call \<Rightarrow> record_map \<Rightarrow> (ledger_error + store_answer) \<times> record_map" where
  "spec_call (CallLoad k) m = (Inr (AnswerRecord (m k)), m)"
| "spec_call (CallInsert k bs e) m =
     (if m k = None
      then (Inr (AnswerInserted True), m(k \<mapsto> \<lparr>sr_bytes = bs, sr_version = 1, sr_expires_at = e\<rparr>))
      else (Inr (AnswerInserted False), m))"
| "spec_call (CallReplace k v bs e) m =
     (case m k of
        None \<Rightarrow> (Inr (AnswerCas CasMissing), m)
      | Some s \<Rightarrow>
          if sr_version s \<noteq> v then (Inr (AnswerCas CasConflict), m)
          else if v = u64_max then (Inl CounterExhausted, m)
          else (Inr (AnswerCas (CasStored (v + 1))),
                m(k \<mapsto> \<lparr>sr_bytes = bs, sr_version = v + 1, sr_expires_at = e\<rparr>)))"

fun memory_call :: "store_call \<Rightarrow> mem_world \<Rightarrow> (ledger_error + store_answer) \<times> mem_world" where
  "memory_call (CallLoad k) w =
     (let (r, w') = so_load memory_ops k w in (map_ok AnswerRecord r, w'))"
| "memory_call (CallInsert k bs e) w =
     (let (r, w') = so_insert_if_absent memory_ops k bs e w in (map_ok AnswerInserted r, w'))"
| "memory_call (CallReplace k v bs e) w =
     (let (r, w') = so_compare_and_store memory_ops k v bs e w in (map_ok AnswerCas r, w'))"

lemma view_unexpired: "table_view now t = unexpired now (holds t)"
  by (auto simp: table_view_def unexpired_def holds_def fun_eq_iff split: option.splits)

lemma swept_view:
  assumes "mw_inv w"
  shows "unexpired now (holds (rt_instances (swept now w))) = unexpired now (mw_held w)"
proof -
  have i: "store_inv (mr_state (mw_store w))" using assms by (simp add: mw_inv_def)
  have "holds (rt_instances (mr_state (mw_store w))) = mw_held w"
    by (simp add: holds_def mw_held_def fun_eq_iff)
  then show ?thesis
    using shed_view [OF reclaim_sheds(2) [OF i, of now] order_refl] by (simp add: view_unexpired swept_def)
qed

lemma max_version: "checked_add_u64 v 1 = (if v = u64_max then None else Some (v + 1))"
  using checked_add_u64_None_iff [of v] by (auto simp: checked_add_u64_def)

lemma unexpired_upd:
  "unexpired now (m(k := x)) = (unexpired now m)(k := (case x of
     Some s \<Rightarrow> if sr_expires_at s > now then Some s else None | None \<Rightarrow> None))"
  by (auto simp: unexpired_def fun_eq_iff)

lemma unexpired_twice [simp]: "unexpired now (unexpired now m) = unexpired now m"
  by (auto simp: unexpired_def fun_eq_iff split: option.splits)

lemma unexpired_at:
  "unexpired now (holds t) k = (case table_get t k of
     Some s \<Rightarrow> if sl_expires_at s > now then Some (slot_stored s) else None | None \<Rightarrow> None)"
  by (auto simp: unexpired_def holds_def split: option.splits)

lemma holds_put: "table_inv t \<Longrightarrow> holds (table_put k s t) = (holds t)(k \<mapsto> slot_stored s)"
  by (auto simp: holds_def table_get_put fun_eq_iff)

lemma holds_remove: "holds (snd (table_remove k t)) = (holds t)(k := None)"
  by (auto simp: holds_def fun_eq_iff)

lemma take_unexpired_view:
  "fst (table_take_unexpired k now t) = unexpired now (holds t) k"
  "unexpired now (holds (snd (table_take_unexpired k now t))) = unexpired now (holds t)"
  by (auto simp: table_take_unexpired_def unexpired_at holds_remove unexpired_upd fun_eq_iff
      split: option.splits)

lemma insert_absent_view:
  assumes "table_inv t"
  shows "fst (table_insert_absent k bs e now t) = (unexpired now (holds t) k = None)"
    and "unexpired now (holds (snd (table_insert_absent k bs e now t))) =
      unexpired now (if unexpired now (holds t) k = None
        then (unexpired now (holds t))(k \<mapsto> \<lparr>sr_bytes = bs, sr_version = 1, sr_expires_at = e\<rparr>)
        else unexpired now (holds t))"
  using assms
  by (auto simp: table_insert_absent_def unexpired_at holds_put unexpired_upd slot_stored_def
      first_version_def split: option.splits)

lemma replace_view:
  assumes s: "table_inv (rt_instances s)"
  shows "fst (replace_at k v bs e (drop_elapsed k now s)) =
      fst (case unexpired now (holds (rt_instances s)) k of
        None \<Rightarrow> (Inr CasMissing, m)
      | Some r \<Rightarrow> if sr_version r \<noteq> v then (Inr CasConflict, m)
          else if v = u64_max then (Inl CounterExhausted, m) else (Inr (CasStored (v + 1)), m))"
    and "unexpired now (holds (rt_instances (snd (replace_at k v bs e (drop_elapsed k now s))))) =
      unexpired now (case unexpired now (holds (rt_instances s)) k of
        None \<Rightarrow> holds (rt_instances s)
      | Some r \<Rightarrow> if sr_version r \<noteq> v \<or> v = u64_max then holds (rt_instances s)
          else (holds (rt_instances s))(k \<mapsto>
            \<lparr>sr_bytes = bs, sr_version = v + 1, sr_expires_at = e\<rparr>))"
proof -
  have "fst (replace_at k v bs e (drop_elapsed k now s)) = (case unexpired now (holds (rt_instances s)) k of
        None \<Rightarrow> Inr CasMissing
      | Some r \<Rightarrow> if sr_version r \<noteq> v then Inr CasConflict
          else if v = u64_max then Inl CounterExhausted else Inr (CasStored (v + 1)))"
    by (auto simp: replace_at_def drop_elapsed_def unexpired_at max_version split: option.splits)
  then show "fst (replace_at k v bs e (drop_elapsed k now s)) =
      fst (case unexpired now (holds (rt_instances s)) k of
        None \<Rightarrow> (Inr CasMissing, m)
      | Some r \<Rightarrow> if sr_version r \<noteq> v then (Inr CasConflict, m)
          else if v = u64_max then (Inl CounterExhausted, m) else (Inr (CasStored (v + 1)), m))"
    by (auto split: option.splits)
  show "unexpired now (holds (rt_instances (snd (replace_at k v bs e (drop_elapsed k now s))))) =
      unexpired now (case unexpired now (holds (rt_instances s)) k of
        None \<Rightarrow> holds (rt_instances s)
      | Some r \<Rightarrow> if sr_version r \<noteq> v \<or> v = u64_max then holds (rt_instances s)
          else (holds (rt_instances s))(k \<mapsto>
            \<lparr>sr_bytes = bs, sr_version = v + 1, sr_expires_at = e\<rparr>))"
  proof (cases "table_get (rt_instances s) k")
    case None
    then show ?thesis by (simp add: replace_at_def drop_elapsed_def unexpired_at)
  next
    case (Some slot)
    show ?thesis
    proof (cases "sl_expires_at slot \<le> now")
      case True
      then have "unexpired now (holds (rt_instances s)) k = None" using Some by (simp add: unexpired_at)
      moreover from this have "(unexpired now (holds (rt_instances s)))(k := None) = unexpired now (holds (rt_instances s))"
        by (simp add: fun_upd_idem)
      ultimately show ?thesis using Some True
        by (simp add: replace_at_def drop_elapsed_def holds_remove unexpired_upd)
    next
      case False
      then have "now < sl_expires_at slot" by simp
      then show ?thesis using Some s False
        by (simp add: replace_at_def drop_elapsed_def unexpired_at max_version holds_put slot_stored_def)
    qed
  qed
qed

text \<open>One call of the in-process store is the specification's call on the unexpired view.\<close>

lemma memory_call_refines:
  assumes w: "calm w" and c: "mw_store_clock w = Some now # ts"
    and call: "memory_call op w = (r, w')"
  shows "r = fst (spec_call op (unexpired now (mw_held w)))
    \<and> unexpired now (mw_held w') = unexpired now (snd (spec_call op (unexpired now (mw_held w))))
    \<and> calm w' \<and> mw_store_clock w' = ts"
proof -
  let ?t = "rt_instances (swept now w)"
  have i: "mw_inv w" and f: "\<not> mr_poisoned (mw_store w)" "mw_foreign w = []" using w by (auto simp: calm_def)
  have ti: "table_inv ?t"
    using i reclaim_sheds(1) [of "mr_state (mw_store w)" now] by (auto simp: mw_inv_def swept_def store_inv_def)
  have m: "unexpired now (mw_held w) = unexpired now (holds ?t)" using swept_view [OF i, of now] by simp
  have held: "mw_held v = holds (rt_instances (mr_state (mw_store v)))" for v
    by (simp add: mw_held_def holds_def fun_eq_iff)
  note eqs = memory_ops_def on_timed_store_eq [OF c] elapsing_ops with_lock_eq [OF f(1)] with_sweep_def
    Let_def split_def swept_def [symmetric]
  show ?thesis
  proof (cases op)
    case (CallLoad k)
    obtain x where x: "so_load memory_ops k w = (x, w')" "r = map_ok AnswerRecord x"
      using call CallLoad by (force simp: split_def Let_def)
    have "mw_inv w'" using mem_load [OF i x(1)] by blast
    then show ?thesis using x CallLoad f take_unexpired_view [where k = k and now = now and t = ?t] m
      by (auto simp: eqs calm_def held)
  next
    case (CallInsert k bs e)
    obtain x where x: "so_insert_if_absent memory_ops k bs e w = (x, w')" "r = map_ok AnswerInserted x"
      using call CallInsert by (force simp: split_def Let_def)
    have "mw_inv w'" using mem_insert [OF i x(1)] by blast
    then show ?thesis using x CallInsert f insert_absent_view [OF ti, where k = k and bs = bs and e = e and now = now] m
      by (auto simp: eqs calm_def held store_insert_record_if_absent_def)
  next
    case (CallReplace k v bs e)
    obtain x where x: "so_compare_and_store memory_ops k v bs e w = (x, w')" "r = map_ok AnswerCas x"
      using call CallReplace by (force simp: split_def Let_def)
    have "mw_inv w'" using mem_cas [OF i x(1)] by blast
    then show ?thesis using x CallReplace f replace_view [OF ti, where k = k and v = v and bs = bs and e = e and now = now] m
      by (auto simp: eqs calm_def held unexpired_upd split: option.splits)
  qed
qed

lemma soonest_earliest:
  assumes inv: "table_inv t" and got: "(k, s) \<in> set (table_soonest t limit)"
    and kept: "table_get t k' = Some slot" and out: "k' \<notin> fst ` set (table_soonest t limit)"
  shows "sr_expires_at s \<le> sl_expires_at slot"
proof -
  let ?o = "flat_order t"
  have o: "distinct ?o" "sorted (map (deadline_of t) ?o)" "set ?o = dom (table_get t)"
    using table_order_flat [OF inv] by auto
  have keys: "fst ` set (table_soonest t limit) = set (take limit ?o)"
    by (simp add: table_soonest_map [OF inv] image_image)
  have "k \<in> set (take limit ?o)" using got keys by force
  moreover have "k' \<in> set (drop limit ?o)"
    using kept out o(3) keys by (metis Un_iff append_take_drop_id domI set_append)
  moreover have "sorted (map (deadline_of t) (take limit ?o) @ map (deadline_of t) (drop limit ?o))"
    using o(2) by (metis append_take_drop_id map_append)
  ultimately have "deadline_of t k \<le> deadline_of t k'" by (auto simp: sorted_append)
  moreover have "map_option slot_stored (table_get t k) = Some s" using soonest_subset [OF got] .
  ultimately show ?thesis using kept by (auto simp: deadline_of_def)
qed

subsection \<open>Properties\<close>

text \<open>
  C36: at every reading of its clock the in-process store is a map of unexpired records: loading,
  inserting and compare-and-storing answer and leave what the map operations do, so an elapsed
  record is never served, never conflicts and never blocks an insert, whether or not it was swept.
\<close>

theorem memory_store_refines_map:
  assumes "calm w" and "mw_store_clock w = Some now # ts" and "memory_call op w = (r, w')"
  shows "r = fst (spec_call op (unexpired now (mw_held w)))
    \<and> unexpired now (mw_held w') = unexpired now (snd (spec_call op (unexpired now (mw_held w))))
    \<and> calm w' \<and> mw_store_clock w' = ts"
  by (rule memory_call_refines [OF assms])

definition sx_world :: mem_world where
  "sx_world = \<lparr>mw_store = memory_record_store_new, mw_store_clock = [Some 5],
     mw_node_clock = [], mw_foreign = []\<rparr>"

lemma sx_calm: "calm sx_world"
  by (simp add: calm_def sx_world_def memory_record_store_new_def mw_inv_def store_inv_def)

theorem memory_store_refines_map_witness:
  "fst (memory_call (CallInsert ex_key [1] 9) sx_world) = Inr (AnswerInserted True)"
proof -
  obtain r w' where call: "memory_call (CallInsert ex_key [1] 9) sx_world = (r, w')" by fastforce
  have clock: "mw_store_clock sx_world = Some 5 # []" by (simp add: sx_world_def)
  have empty: "unexpired 5 (mw_held sx_world) ex_key = None"
    by (simp add: unexpired_def mw_held_def sx_world_def memory_record_store_new_def table_new_def table_get_def)
  show ?thesis using memory_store_refines_map [OF sx_calm clock call] call empty by simp
qed

text \<open>
  Sweeping is invisible and bounded: it removes only records that have elapsed, at most 64 over
  both tables, and what any key holds at that instant or later reads the same as before.
\<close>

theorem reclaim_is_invisible:
  assumes "store_inv s" and "now \<le> later"
  shows "table_view later (rt_instances (reclaim now s)) = table_view later (rt_instances s)
    \<and> table_view later (rt_promotions (reclaim now s)) = table_view later (rt_promotions s)
    \<and> table_len (rt_instances s) + table_len (rt_promotions s)
        \<le> 64 + table_len (rt_instances (reclaim now s)) + table_len (rt_promotions (reclaim now s))
    \<and> store_inv (reclaim now s)"
  using reclaim_sheds(1,4) [OF assms(1), of now]
    shed_view [OF reclaim_sheds(2) [OF assms(1)] assms(2)] shed_view [OF reclaim_sheds(3) [OF assms(1)] assms(2)]
  by (simp add: table_len_def)

definition sx_elapsed :: record_state where
  "sx_elapsed = \<lparr>rt_instances = table_put ex_key \<lparr>sl_bytes = [1], sl_version = 1, sl_expires_at = 4\<rparr> table_new,
     rt_promotions = table_new\<rparr>"

theorem reclaim_is_invisible_witness:
  "table_view 6 (rt_instances (reclaim 5 sx_elapsed)) ex_key = None"
proof -
  have "store_inv sx_elapsed" by (simp add: sx_elapsed_def store_inv_def table_put_inv)
  from reclaim_is_invisible [OF this, of 5 6] show ?thesis
    by (simp add: sx_elapsed_def table_view_def table_get_put)
qed

text \<open>
  The eviction order is exact: the candidates are records still held, soonest deadline first,
  without repetition, as many as asked for or all there are, and no record left out expires before
  one that was offered.
\<close>

theorem eviction_order_exact:
  assumes "table_inv t"
  shows "length (table_soonest t limit) = min limit (table_len t)
    \<and> distinct (map fst (table_soonest t limit))
    \<and> sorted (map (sr_expires_at \<circ> snd) (table_soonest t limit))
    \<and> (\<forall>k s. (k, s) \<in> set (table_soonest t limit) \<longrightarrow> map_option slot_stored (table_get t k) = Some s)
    \<and> (\<forall>k s k' slot. (k, s) \<in> set (table_soonest t limit) \<longrightarrow> table_get t k' = Some slot \<longrightarrow>
         k' \<notin> fst ` set (table_soonest t limit) \<longrightarrow> sr_expires_at s \<le> sl_expires_at slot)"
  using table_soonest_spec [OF assms, of limit] soonest_length [OF assms, of limit]
    soonest_earliest [OF assms, of _ _ limit]
  by (intro conjI allI impI) (fast intro: soonest_subset)+

theorem eviction_order_exact_witness:
  "length (table_soonest (rt_instances sx_elapsed) 4) = 1"
proof -
  have "table_inv (rt_instances sx_elapsed)" by (simp add: sx_elapsed_def table_put_inv)
  from eviction_order_exact [OF this, of 4] show ?thesis
    by (simp add: sx_elapsed_def table_len_def table_put_def table_new_def table_get_def
        table_schedule_def Let_def)
qed

text \<open>
  The deadline order is exact in every state the store's operations reach from an empty store:
  a key is scheduled at a deadline precisely when its slot carries that deadline, the keys of every
  deadline are in order and no deadline is left without a key.
\<close>

fun run_calls :: "store_call list \<Rightarrow> mem_world \<Rightarrow> mem_world" where
  "run_calls [] w = w"
| "run_calls (c # cs) w = run_calls cs (snd (memory_call c w))"

theorem reachable_stores_keep_order:
  "mw_store w = memory_record_store_new \<Longrightarrow> mw_inv (run_calls cs w)"
proof -
  have step: "mw_inv (snd (memory_call c w))" if "mw_inv w" for c w
    using mem_load [OF that prod.collapse [symmetric]] mem_insert [OF that prod.collapse [symmetric]]
      mem_cas [OF that prod.collapse [symmetric]]
    by (cases c) (auto simp: Let_def split_def)
  have "mw_inv w \<Longrightarrow> mw_inv (run_calls cs w)" for w
    by (induction cs arbitrary: w) (use step in auto)
  then show "mw_store w = memory_record_store_new \<Longrightarrow> mw_inv (run_calls cs w)"
    by (simp add: mw_inv_def memory_record_store_new_def store_inv_def)
qed

theorem reachable_stores_keep_order_witness:
  "mw_inv (run_calls [CallInsert ex_key [1] 9, CallReplace ex_key 1 [2] 11] sx_world)"
  by (rule reachable_stores_keep_order) (simp add: sx_world_def)

end
