(* ===== verification/Resource_Queue.thy ===== *)
theory Resource_Queue
  imports Prelude
begin

text \<open>
  Bounded retained work: \<open>crates/suprnova-live/src/resource/\<close> (\<open>bounds.rs\<close>, \<open>queue.rs\<close>, the queue and
  owner half of \<open>owner.rs\<close>, \<open>cancel.rs\<close>). A queue holds items with their declared bytes and the
  exact next_total. The code's \<open>expect\<close> calls are branches of the model: an operation that may panic
  returns \<open>None\<close> when it does. A mutex-guarded queue is the queue itself, since every operation
  takes the lock for its whole body; dropping a rejected value has no effect on it.
\<close>

subsection \<open>Bounds, errors, cancellation\<close>

definition hard_max_resource_items :: usize where "hard_max_resource_items = 65536"
definition hard_max_resource_bytes :: usize where "hard_max_resource_bytes = 1073741824"
definition hard_max_active_permits :: usize where "hard_max_active_permits = 65536"

record resource_bounds =
  rb_max_items :: usize
  rb_max_bytes :: usize

datatype resource_bounds_error = ResourceBoundsError

definition resource_bounds_new :: "usize \<Rightarrow> usize \<Rightarrow> resource_bounds_error + resource_bounds" where
  "resource_bounds_new max_items max_bytes =
     (if max_items = 0 \<or> max_items > hard_max_resource_items
         \<or> max_bytes = 0 \<or> max_bytes > hard_max_resource_bytes
      then Inl ResourceBoundsError
      else Inr \<lparr>rb_max_items = max_items, rb_max_bytes = max_bytes\<rparr>)"

definition validate_permit_limit :: "usize \<Rightarrow> resource_bounds_error + unit" where
  "validate_permit_limit max_active =
     (if max_active = 0 \<or> max_active > hard_max_active_permits
      then Inl ResourceBoundsError else Inr ())"

datatype resource_diagnostic =
    DiagnosticAccepted | DiagnosticReleased | DiagnosticItemsExceeded | DiagnosticBytesExceeded
  | DiagnosticPermitsExceeded | DiagnosticCanceled | DiagnosticRetired

datatype resource_error = ItemsExceeded | BytesExceeded | PermitsExceeded | ResourceRetired

fun resource_error_diagnostic :: "resource_error \<Rightarrow> resource_diagnostic" where
  "resource_error_diagnostic ItemsExceeded = DiagnosticItemsExceeded"
| "resource_error_diagnostic BytesExceeded = DiagnosticBytesExceeded"
| "resource_error_diagnostic PermitsExceeded = DiagnosticPermitsExceeded"
| "resource_error_diagnostic ResourceRetired = DiagnosticRetired"

fun resource_diagnostic_as_str :: "resource_diagnostic \<Rightarrow> string" where
  "resource_diagnostic_as_str DiagnosticAccepted = ''accepted''"
| "resource_diagnostic_as_str DiagnosticReleased = ''released''"
| "resource_diagnostic_as_str DiagnosticItemsExceeded = ''items_exceeded''"
| "resource_diagnostic_as_str DiagnosticBytesExceeded = ''bytes_exceeded''"
| "resource_diagnostic_as_str DiagnosticPermitsExceeded = ''permits_exceeded''"
| "resource_diagnostic_as_str DiagnosticCanceled = ''canceled''"
| "resource_diagnostic_as_str DiagnosticRetired = ''retired''"

text \<open>\<open>CancellationFlag::cancel\<close>: whether this call was the first transition, and the flag after it.\<close>

definition cancellation_cancel :: "bool \<Rightarrow> bool \<times> bool" where
  "cancellation_cancel canceled = (\<not> canceled, True)"

subsection \<open>The queue\<close>

record 'a bounded_queue =
  bq_bounds :: resource_bounds
  bq_retained_bytes :: usize
  bq_items :: "(usize \<times> 'a) list"
  bq_retired :: bool

definition bq_new :: "resource_bounds \<Rightarrow> 'a bounded_queue" where
  "bq_new bounds = \<lparr>bq_bounds = bounds, bq_retained_bytes = 0, bq_items = [], bq_retired = False\<rparr>"

definition bq_len :: "'a bounded_queue \<Rightarrow> usize" where
  "bq_len q = length (bq_items q)"

definition bq_try_push_preserving ::
  "usize \<Rightarrow> 'a \<Rightarrow> 'a bounded_queue \<Rightarrow> ((resource_error \<times> 'a) + unit) \<times> 'a bounded_queue" where
  "bq_try_push_preserving bytes x q =
     (if bq_retired q then (Inl (ResourceRetired, x), q)
      else case checked_add_usize (bq_retained_bytes q) bytes of
        None \<Rightarrow> (Inl (BytesExceeded, x), q)
      | Some next_total \<Rightarrow>
          if bq_len q = rb_max_items (bq_bounds q) then (Inl (ItemsExceeded, x), q)
          else if next_total > rb_max_bytes (bq_bounds q) then (Inl (BytesExceeded, x), q)
          else (Inr (), q\<lparr>bq_retained_bytes := next_total, bq_items := bq_items q @ [(bytes, x)]\<rparr>))"

definition bq_try_push :: "usize \<Rightarrow> 'a \<Rightarrow> 'a bounded_queue \<Rightarrow> (resource_error + unit) \<times> 'a bounded_queue" where
  "bq_try_push bytes x q =
     (let (r, q') = bq_try_push_preserving bytes x q in (map_err fst r, q'))"

definition bq_try_push_batch_preserving ::
  "usize \<Rightarrow> (usize \<times> 'a) list \<Rightarrow> 'a bounded_queue \<Rightarrow>
   ((resource_error \<times> (usize \<times> 'a) list) + unit) \<times> 'a bounded_queue" where
  "bq_try_push_batch_preserving total_bytes xs q =
     (if bq_retired q then (Inl (ResourceRetired, xs), q)
      else case checked_add_usize (bq_len q) (length xs) of
        None \<Rightarrow> (Inl (ItemsExceeded, xs), q)
      | Some next_items \<Rightarrow>
          if next_items > rb_max_items (bq_bounds q) then (Inl (ItemsExceeded, xs), q)
          else case checked_add_usize (bq_retained_bytes q) total_bytes of
            None \<Rightarrow> (Inl (BytesExceeded, xs), q)
          | Some next_bytes \<Rightarrow>
              if next_bytes > rb_max_bytes (bq_bounds q) then (Inl (BytesExceeded, xs), q)
              else (Inr (), q\<lparr>bq_items := bq_items q @ xs, bq_retained_bytes := next_bytes\<rparr>))"

definition bq_back :: "'a bounded_queue \<Rightarrow> 'a option" where
  "bq_back q = (if bq_items q = [] then None else Some (snd (last (bq_items q))))"

datatype 'a replace_back = Replaced 'a | ReplaceEmpty 'a

definition bq_try_replace_back_preserving ::
  "usize \<Rightarrow> 'a \<Rightarrow> 'a bounded_queue \<Rightarrow>
   (((resource_error \<times> 'a) + 'a replace_back) \<times> 'a bounded_queue) option" where
  "bq_try_replace_back_preserving bytes x q =
     (if bq_retired q then Some (Inl (ResourceRetired, x), q)
      else if bq_items q = [] then Some (Inr (ReplaceEmpty x), q)
      else case checked_sub_usize (bq_retained_bytes q) (fst (last (bq_items q))) of
        None \<Rightarrow> None
      | Some retained_without_current \<Rightarrow>
          (case checked_add_usize retained_without_current bytes of
             None \<Rightarrow> Some (Inl (BytesExceeded, x), q)
           | Some next_total \<Rightarrow>
               if next_total > rb_max_bytes (bq_bounds q) then Some (Inl (BytesExceeded, x), q)
               else Some (Inr (Replaced (snd (last (bq_items q)))),
                      q\<lparr>bq_items := butlast (bq_items q) @ [(bytes, x)],
                        bq_retained_bytes := next_total\<rparr>)))"

definition bq_try_replace_back ::
  "usize \<Rightarrow> 'a \<Rightarrow> 'a bounded_queue \<Rightarrow> ((resource_error + 'a option) \<times> 'a bounded_queue) option" where
  "bq_try_replace_back bytes x q =
     map_option (\<lambda>(r, q'). (case r of
         Inl (e, rejected) \<Rightarrow> Inl e
       | Inr (Replaced previous) \<Rightarrow> Inr (Some previous)
       | Inr (ReplaceEmpty rejected) \<Rightarrow> Inr None, q'))
       (bq_try_replace_back_preserving bytes x q)"

datatype tail_admission = AdmitAppend | AdmitReplace | AdmitRetain | AdmitReject

datatype tail_admission_outcome = TailAppended | TailReplaced | TailRetained | TailRejected

datatype 'a tail_admission_preserving =
  PreservingAppended | PreservingReplaced 'a | PreservingRetained 'a | PreservingRejected 'a

definition bq_try_admit_tail_preserving ::
  "usize \<Rightarrow> 'a \<Rightarrow> tail_admission \<Rightarrow> 'a bounded_queue \<Rightarrow>
   (((resource_error \<times> 'a) + 'a tail_admission_preserving) \<times> 'a bounded_queue) option" where
  "bq_try_admit_tail_preserving bytes x decision q =
     (if bq_retired q then Some (Inl (ResourceRetired, x), q)
      else case decision of
        AdmitAppend \<Rightarrow>
          (case bq_try_push_preserving bytes x q of
             (Inl e, q') \<Rightarrow> Some (Inl e, q')
           | (Inr u, q') \<Rightarrow> Some (Inr PreservingAppended, q'))
      | AdmitReplace \<Rightarrow>
          (case bq_try_replace_back_preserving bytes x q of
             None \<Rightarrow> None
           | Some (Inl e, q') \<Rightarrow> Some (Inl e, q')
           | Some (Inr (Replaced previous), q') \<Rightarrow> Some (Inr (PreservingReplaced previous), q')
           | Some (Inr (ReplaceEmpty rejected), q') \<Rightarrow> Some (Inr (PreservingRejected rejected), q'))
      | AdmitRetain \<Rightarrow> Some (Inr (PreservingRetained x), q)
      | AdmitReject \<Rightarrow> Some (Inr (PreservingRejected x), q))"

text \<open>
  The removal loop: every decision takes one item from the front, and a kept item goes to the back.
  An early \<open>break\<close> on an empty queue is the second equation.
\<close>

fun remove_loop ::
  "bool list \<Rightarrow> (usize \<times> 'a) list \<Rightarrow> (usize \<times> 'a) list \<Rightarrow> usize \<Rightarrow>
   ((usize \<times> 'a) list \<times> (usize \<times> 'a) list \<times> usize) option" where
  "remove_loop [] items removed removed_bytes = Some (items, removed, removed_bytes)"
| "remove_loop (d # ds) [] removed removed_bytes = Some ([], removed, removed_bytes)"
| "remove_loop (d # ds) (item # items) removed removed_bytes =
     (if d
      then (case checked_add_usize removed_bytes (fst item) of
              None \<Rightarrow> None
            | Some next_total \<Rightarrow> remove_loop ds items (removed @ [item]) next_total)
      else remove_loop ds (items @ [item]) removed removed_bytes)"

record 'a removed_items =
  ri_items :: "(usize \<times> 'a) list"
  ri_count :: usize
  ri_bytes :: usize

definition bq_remove_if_preserving ::
  "('a \<Rightarrow> bool) \<Rightarrow> 'a bounded_queue \<Rightarrow> ('a removed_items \<times> 'a bounded_queue) option" where
  "bq_remove_if_preserving predicate q =
     (let decisions = map (\<lambda>item. predicate (snd item)) (bq_items q);
          count = length (filter (\<lambda>remove. remove) decisions)
      in if count = 0 then Some (\<lparr>ri_items = [], ri_count = 0, ri_bytes = 0\<rparr>, q)
         else case remove_loop decisions (bq_items q) [] 0 of
           None \<Rightarrow> None
         | Some (items, removed, removed_bytes) \<Rightarrow>
             (case checked_sub_usize (bq_retained_bytes q) removed_bytes of
                None \<Rightarrow> None
              | Some left \<Rightarrow>
                  Some (\<lparr>ri_items = removed, ri_count = count, ri_bytes = removed_bytes\<rparr>,
                        q\<lparr>bq_items := items, bq_retained_bytes := left\<rparr>)))"

definition bq_any :: "('a \<Rightarrow> bool) \<Rightarrow> 'a bounded_queue \<Rightarrow> bool" where
  "bq_any predicate q = list_ex (\<lambda>item. predicate (snd item)) (bq_items q)"

text \<open>The batch-pop loop: \<open>n\<close> items from the front, summing their bytes.\<close>

fun pop_loop ::
  "nat \<Rightarrow> (usize \<times> 'a) list \<Rightarrow> 'a list \<Rightarrow> usize \<Rightarrow> ((usize \<times> 'a) list \<times> 'a list \<times> usize) option" where
  "pop_loop 0 items xs released = Some (items, xs, released)"
| "pop_loop (Suc n) [] xs released = None"
| "pop_loop (Suc n) (item # items) xs released =
     (case checked_add_usize released (fst item) of
        None \<Rightarrow> None
      | Some next_total \<Rightarrow> pop_loop n items (xs @ [snd item]) next_total)"

definition bq_pop_batch_preserving ::
  "(usize \<Rightarrow> 'a \<Rightarrow> usize option) \<Rightarrow> 'a bounded_queue \<Rightarrow> ('a list option \<times> 'a bounded_queue) option" where
  "bq_pop_batch_preserving classify q =
     (case bq_items q of
        [] \<Rightarrow> Some (None, q)
      | first # rest \<Rightarrow>
          (case classify 0 (snd first) of
             None \<Rightarrow> Some (None, q)
           | Some count \<Rightarrow>
               if count = 0 \<or> count > bq_len q then Some (None, q)
               else if list_ex (\<lambda>(index, item). classify index (snd item) \<noteq> Some count)
                         (drop 1 (enumerate 0 (take count (bq_items q))))
               then Some (None, q)
               else case pop_loop count (bq_items q) [] 0 of
                 None \<Rightarrow> None
               | Some (items, xs, released) \<Rightarrow>
                   (case checked_sub_usize (bq_retained_bytes q) released of
                      None \<Rightarrow> None
                    | Some left \<Rightarrow>
                        Some (Some xs, q\<lparr>bq_items := items, bq_retained_bytes := left\<rparr>))))"

definition bq_pop :: "'a bounded_queue \<Rightarrow> ('a option \<times> 'a bounded_queue) option" where
  "bq_pop q =
     (case bq_items q of
        [] \<Rightarrow> Some (None, q)
      | item # items \<Rightarrow>
          (case checked_sub_usize (bq_retained_bytes q) (fst item) of
             None \<Rightarrow> None
           | Some left \<Rightarrow>
               Some (Some (snd item), q\<lparr>bq_items := items, bq_retained_bytes := left\<rparr>)))"

record retirement_report =
  re_canceled :: bool
  re_drained_items :: usize
  re_drained_bytes :: usize

definition retirement_already_retired :: retirement_report where
  "retirement_already_retired = \<lparr>re_canceled = False, re_drained_items = 0, re_drained_bytes = 0\<rparr>"

definition bq_retire_and_take ::
  "'a bounded_queue \<Rightarrow> (retirement_report \<times> (usize \<times> 'a) list) option \<times> 'a bounded_queue" where
  "bq_retire_and_take q =
     (if bq_retired q then (None, q)
      else (Some (\<lparr>re_canceled = False, re_drained_items = bq_len q,
                   re_drained_bytes = bq_retained_bytes q\<rparr>, bq_items q),
            q\<lparr>bq_retired := True, bq_retained_bytes := 0, bq_items := []\<rparr>))"

subsection \<open>The shared handle\<close>

text \<open>\<open>try_fold\<close> of \<open>checked_add\<close> over the declared bytes of a batch.\<close>

fun batch_bytes :: "usize \<Rightarrow> (usize \<times> 'a) list \<Rightarrow> usize option" where
  "batch_bytes next_total [] = Some next_total"
| "batch_bytes next_total ((bytes, x) # rest) =
     (case checked_add_usize next_total bytes of None \<Rightarrow> None | Some t \<Rightarrow> batch_bytes t rest)"

definition rq_try_push_batch ::
  "(usize \<times> 'a) list \<Rightarrow> 'a bounded_queue \<Rightarrow> (resource_error + unit) \<times> 'a bounded_queue" where
  "rq_try_push_batch xs q =
     (case batch_bytes 0 xs of
        None \<Rightarrow> (Inl BytesExceeded, q)
      | Some next_total \<Rightarrow>
          (let (r, q') = bq_try_push_batch_preserving next_total xs q in (map_err fst r, q')))"

definition rq_try_admit_tail_with ::
  "usize \<Rightarrow> 'a \<Rightarrow> ('a option \<Rightarrow> tail_admission) \<Rightarrow> 'a bounded_queue \<Rightarrow>
   ((resource_error + tail_admission_outcome) \<times> 'a bounded_queue) option" where
  "rq_try_admit_tail_with bytes x decide q =
     map_option (\<lambda>(r, q'). (case r of
         Inl (e, rejected) \<Rightarrow> Inl e
       | Inr PreservingAppended \<Rightarrow> Inr TailAppended
       | Inr (PreservingReplaced previous) \<Rightarrow> Inr TailReplaced
       | Inr (PreservingRetained rejected) \<Rightarrow> Inr TailRetained
       | Inr (PreservingRejected rejected) \<Rightarrow> Inr TailRejected, q'))
       (bq_try_admit_tail_preserving bytes x (decide (bq_back q)) q)"

definition rq_remove_if ::
  "('a \<Rightarrow> bool) \<Rightarrow> 'a bounded_queue \<Rightarrow> ((usize \<times> usize) \<times> 'a bounded_queue) option" where
  "rq_remove_if predicate q =
     map_option (\<lambda>(r, q'). ((ri_count r, ri_bytes r), q')) (bq_remove_if_preserving predicate q)"

definition rq_try_replace_back ::
  "usize \<Rightarrow> 'a \<Rightarrow> 'a bounded_queue \<Rightarrow> ((resource_error + bool) \<times> 'a bounded_queue) option" where
  "rq_try_replace_back bytes x q =
     map_option (\<lambda>(r, q'). (case r of
         Inl (e, rejected) \<Rightarrow> Inl e
       | Inr (Replaced previous) \<Rightarrow> Inr True
       | Inr (ReplaceEmpty rejected) \<Rightarrow> Inr False, q'))
       (bq_try_replace_back_preserving bytes x q)"

record 'a resource_owner =
  ow_queue :: "'a bounded_queue"
  ow_canceled :: bool

definition owner_new :: "resource_bounds \<Rightarrow> 'a resource_owner" where
  "owner_new bounds = \<lparr>ow_queue = bq_new bounds, ow_canceled = False\<rparr>"

definition owner_retire :: "'a resource_owner \<Rightarrow> retirement_report \<times> 'a resource_owner" where
  "owner_retire o' =
     (case bq_retire_and_take (ow_queue o') of
        (None, q) \<Rightarrow> (retirement_already_retired, o'\<lparr>ow_queue := q\<rparr>)
      | (Some (retirement, drained), q) \<Rightarrow>
          (let (first, canceled) = cancellation_cancel (ow_canceled o')
           in (retirement\<lparr>re_canceled := first\<rparr>, o'\<lparr>ow_queue := q, ow_canceled := canceled\<rparr>)))"

end
