(* ===== verification/Resource_Claims.thy ===== *)
theory Resource_Claims
  imports Resource_Queue
begin

text \<open>
  The bounded queue keeps exact accounts: the invariant, that no operation can reach one of the
  code's accounting panics, and the first-in first-out list every operation implements.
\<close>

definition queue_bytes :: "(usize \<times> 'a) list \<Rightarrow> usize" where
  "queue_bytes xs = sum_list (map fst xs)"

lemma queue_bytes_simps [simp]:
  "queue_bytes [] = 0" "queue_bytes (x # xs) = fst x + queue_bytes xs"
  "queue_bytes (xs @ ys) = queue_bytes xs + queue_bytes ys"
  by (simp_all add: queue_bytes_def)

definition bounds_ok :: "resource_bounds \<Rightarrow> bool" where
  "bounds_ok b = (0 < rb_max_items b \<and> rb_max_items b \<le> hard_max_resource_items
     \<and> 0 < rb_max_bytes b \<and> rb_max_bytes b \<le> hard_max_resource_bytes)"

definition queue_inv :: "'a bounded_queue \<Rightarrow> bool" where
  "queue_inv q = (bounds_ok (bq_bounds q)
     \<and> bq_retained_bytes q = queue_bytes (bq_items q)
     \<and> bq_retained_bytes q \<le> rb_max_bytes (bq_bounds q)
     \<and> length (bq_items q) \<le> rb_max_items (bq_bounds q)
     \<and> (bq_retired q \<longrightarrow> bq_items q = []))"

text \<open>The values waiting, oldest first.\<close>

definition queued :: "'a bounded_queue \<Rightarrow> 'a list" where
  "queued q = map snd (bq_items q)"

lemma hard_bounds: "hard_max_resource_bytes \<le> usize_max" "hard_max_resource_items \<le> usize_max"
  by (simp_all add: hard_max_resource_bytes_def hard_max_resource_items_def usize_max_def)

lemma resource_bounds_new_ok:
  "resource_bounds_new n b = Inr r \<Longrightarrow> bounds_ok r \<and> rb_max_items r = n \<and> rb_max_bytes r = b"
  by (auto simp: resource_bounds_new_def bounds_ok_def split: if_splits)

lemma bq_new_inv: "bounds_ok b \<Longrightarrow> queue_inv (bq_new b)"
  by (simp add: queue_inv_def bq_new_def bounds_ok_def)

lemma queue_invD:
  assumes "queue_inv q"
  shows "bq_retained_bytes q = queue_bytes (bq_items q)" "bq_retained_bytes q \<le> rb_max_bytes (bq_bounds q)"
    "length (bq_items q) \<le> rb_max_items (bq_bounds q)" "rb_max_bytes (bq_bounds q) \<le> usize_max"
    "rb_max_items (bq_bounds q) \<le> usize_max" "bounds_ok (bq_bounds q)" "bq_retired q \<Longrightarrow> bq_items q = []"
  using assms hard_bounds by (auto simp: queue_inv_def bounds_ok_def)

subsection \<open>Admission\<close>

lemma push_effect:
  assumes "queue_inv q" and "bq_try_push_preserving bytes x q = (r, q')"
  shows "queue_inv q' \<and> (case r of
      Inr u \<Rightarrow> queued q' = queued q @ [x] \<and> bq_retained_bytes q' = bq_retained_bytes q + bytes
        \<and> bq_retired q' = bq_retired q \<and> bq_bounds q' = bq_bounds q
    | Inl (e, rejected) \<Rightarrow> q' = q \<and> rejected = x)"
  using assms queue_invD [OF assms(1)]
  by (auto simp: bq_try_push_preserving_def bq_len_def queue_inv_def queued_def arith_defs
      split: if_splits option.splits)

lemma push_fits:
  assumes "queue_inv q"
  shows "fst (bq_try_push_preserving bytes x q) = Inr () \<longleftrightarrow>
    \<not> bq_retired q \<and> bq_len q < rb_max_items (bq_bounds q)
    \<and> bq_retained_bytes q + bytes \<le> rb_max_bytes (bq_bounds q)"
  using queue_invD [OF assms]
  by (auto simp: bq_try_push_preserving_def bq_len_def arith_defs split: if_splits)

lemma batch_bytes_sum:
  "batch_bytes start xs = (if start + queue_bytes xs \<le> usize_max then Some (start + queue_bytes xs)
     else if start \<le> usize_max then None else batch_bytes start xs)"
  by (induction start xs rule: batch_bytes.induct) (auto simp: arith_defs)

lemma batch_effect:
  assumes "queue_inv q" and "rq_try_push_batch xs q = (r, q')"
  shows "queue_inv q' \<and> (case r of
      Inr u \<Rightarrow> queued q' = queued q @ map snd xs
        \<and> bq_retained_bytes q' = bq_retained_bytes q + queue_bytes xs
        \<and> bq_retired q' = bq_retired q \<and> bq_bounds q' = bq_bounds q
    | Inl e \<Rightarrow> q' = q)"
  using assms queue_invD [OF assms(1)] batch_bytes_sum [of 0 xs]
  by (auto simp: rq_try_push_batch_def bq_try_push_batch_preserving_def bq_len_def queue_inv_def queued_def
      arith_defs Let_def split: if_splits option.splits)

lemma items_snoc:
  "items \<noteq> [] \<Longrightarrow> queue_bytes items = queue_bytes (butlast items) + fst (last items)"
  using append_butlast_last_id [of items] by (metis add.commute add.right_neutral queue_bytes_simps)

lemma replace_back_effect:
  assumes "queue_inv q"
  obtains r q' where "bq_try_replace_back_preserving bytes x q = Some (r, q')" "queue_inv q'"
    "case r of
       Inr (Replaced previous) \<Rightarrow> queued q \<noteq> [] \<and> previous = last (queued q)
         \<and> queued q' = butlast (queued q) @ [x] \<and> bq_retired q' = bq_retired q \<and> bq_bounds q' = bq_bounds q
     | Inr (ReplaceEmpty rejected) \<Rightarrow> q' = q \<and> queued q = [] \<and> rejected = x
     | Inl (e, rejected) \<Rightarrow> q' = q \<and> rejected = x"
proof (cases "bq_items q = []")
  case True
  then show ?thesis using that assms
    by (cases "bq_retired q") (auto simp: bq_try_replace_back_preserving_def queued_def)
next
  case False
  note i = queue_invD [OF assms]
  have live: "\<not> bq_retired q" using i(7) False by blast
  have len: "Suc (length (bq_items q) - Suc 0) = length (bq_items q)" using False by (cases "bq_items q") auto
  show ?thesis
    using that [of "Inl (BytesExceeded, x)" q]
      that [of "Inr (Replaced (snd (last (bq_items q))))" "q\<lparr>bq_items := butlast (bq_items q) @ [(bytes, x)],
        bq_retained_bytes := bq_retained_bytes q - fst (last (bq_items q)) + bytes\<rparr>"]
      assms i False live len items_snoc [OF False]
    by (cases "queue_bytes (butlast (bq_items q)) + bytes \<le> rb_max_bytes (bq_bounds q)";
        cases "queue_bytes (butlast (bq_items q)) + bytes \<le> usize_max")
      (simp_all add: bq_try_replace_back_preserving_def arith_defs queue_inv_def queued_def last_map map_butlast)
qed

subsection \<open>Removal\<close>

text \<open>Rotating the queue once through itself is filtering it.\<close>

lemma remove_loop_filter:
  "removed_bytes + queue_bytes (filter (\<lambda>item. p (snd item)) xs) \<le> usize_max \<Longrightarrow>
   remove_loop (map (\<lambda>item. p (snd item)) xs) (xs @ ys) removed removed_bytes =
     Some (ys @ filter (\<lambda>item. \<not> p (snd item)) xs,
           removed @ filter (\<lambda>item. p (snd item)) xs,
           removed_bytes + queue_bytes (filter (\<lambda>item. p (snd item)) xs))"
  by (induction xs arbitrary: ys removed removed_bytes) (auto simp: arith_defs)

lemma queue_bytes_filter:
  "queue_bytes xs = queue_bytes (filter p xs) + queue_bytes (filter (\<lambda>x. \<not> p x) xs)"
  by (induction xs) auto

lemma filter_not_any: "filter p xs = [] \<Longrightarrow> filter (\<lambda>x. \<not> p x) xs = xs"
  by (auto simp: filter_empty_conv filter_id_conv)

lemma filter_map_count: "length (filter (\<lambda>remove. remove) (map p xs)) = length (filter p xs)"
  by (induction xs) auto

lemma remove_if_effect:
  assumes "queue_inv q"
  shows "\<exists>q'. bq_remove_if_preserving p q = Some (\<lparr>ri_items = filter (\<lambda>item. p (snd item)) (bq_items q),
      ri_count = length (filter p (queued q)),
      ri_bytes = queue_bytes (filter (\<lambda>item. p (snd item)) (bq_items q))\<rparr>, q')
    \<and> queue_inv q' \<and> bq_items q' = filter (\<lambda>item. \<not> p (snd item)) (bq_items q)
    \<and> bq_retired q' = bq_retired q \<and> bq_bounds q' = bq_bounds q"
proof -
  let ?gone = "filter (\<lambda>item. p (snd item)) (bq_items q)"
  let ?kept = "filter (\<lambda>item. \<not> p (snd item)) (bq_items q)"
  note i = queue_invD [OF assms]
  have b: "queue_bytes (bq_items q) = queue_bytes ?gone + queue_bytes ?kept" by (rule queue_bytes_filter)
  have n: "length (filter p (queued q)) = length ?gone" by (simp add: queued_def filter_map comp_def)
  have c: "length (filter (\<lambda>remove. remove) (map (\<lambda>item. p (snd item)) (bq_items q))) = length ?gone"
    by (rule filter_map_count)
  show ?thesis
  proof (cases "?gone = []")
    case True
    have z: "length (filter (\<lambda>remove. remove) (map (\<lambda>item. p (snd item)) (bq_items q))) = 0"
      using c True by simp
    show ?thesis unfolding bq_remove_if_preserving_def Let_def z
      using assms n True filter_not_any [OF True] by simp
  next
    case False
    have len: "length ?kept \<le> rb_max_items (bq_bounds q)"
      using i(3) length_filter_le [of _ "bq_items q"] le_trans by blast
    have "remove_loop (map (\<lambda>item. p (snd item)) (bq_items q)) (bq_items q) [] 0
        = Some (?kept, ?gone, queue_bytes ?gone)"
      using remove_loop_filter [of 0 p "bq_items q" "[]" "[]"] b i(1,2,4) by simp
    then show ?thesis unfolding bq_remove_if_preserving_def Let_def c
      using False n b i len by (auto simp: arith_defs queue_inv_def)
  qed
qed

lemma pop_effect:
  assumes "queue_inv q"
  obtains r q' where "bq_pop q = Some (r, q')" "queue_inv q'"
    "case r of None \<Rightarrow> queued q = [] \<and> q' = q | Some x \<Rightarrow> queued q = x # queued q'"
    "bq_retired q' = bq_retired q" "bq_bounds q' = bq_bounds q"
proof (cases "bq_items q")
  case Nil
  then show ?thesis using that [of None q] assms by (simp add: bq_pop_def queued_def)
next
  case (Cons item items)
  then show ?thesis
    using that [of "Some (snd item)" "q\<lparr>bq_items := items, bq_retained_bytes := queue_bytes items\<rparr>"]
      queue_invD [OF assms]
    by (auto simp: bq_pop_def arith_defs queue_inv_def queued_def)
qed

lemma pop_loop_take:
  "n \<le> length items \<Longrightarrow> released + queue_bytes (take n items) \<le> usize_max \<Longrightarrow>
   pop_loop n items xs released
     = Some (drop n items, xs @ map snd (take n items), released + queue_bytes (take n items))"
proof (induction n items xs released rule: pop_loop.induct)
  case (3 n item items xs released)
  then show ?case by (auto simp: arith_defs)
qed auto

lemma queue_bytes_split: "queue_bytes xs = queue_bytes (take n xs) + queue_bytes (drop n xs)"
  using queue_bytes_simps(3) [of "take n xs" "drop n xs"] by (simp add: append_take_drop_id)

lemma pop_batch_effect:
  assumes "queue_inv q"
  obtains r q' where "bq_pop_batch_preserving classify q = Some (r, q')" "queue_inv q'"
    "case r of None \<Rightarrow> q' = q
     | Some xs \<Rightarrow> xs \<noteq> [] \<and> queued q = xs @ queued q' \<and> classify 0 (hd xs) = Some (length xs)
         \<and> (\<forall>i < length xs. classify i (xs ! i) = Some (length xs))"
    "bq_retired q' = bq_retired q" "bq_bounds q' = bq_bounds q"
proof (cases "\<exists>item items n. bq_items q = item # items \<and> classify 0 (snd item) = Some n \<and> n \<noteq> 0
    \<and> n \<le> bq_len q \<and> \<not> list_ex (\<lambda>(index, item). classify index (snd item) \<noteq> Some n)
           (drop 1 (enumerate 0 (take n (bq_items q))))")
  case False
  then have "bq_pop_batch_preserving classify q = Some (None, q)"
    by (auto simp: bq_pop_batch_preserving_def split: list.splits option.splits)
  then show ?thesis using that [of None q] assms by simp
next
  case True
  then obtain item items n where n: "bq_items q = item # items" "classify 0 (snd item) = Some n" "n \<noteq> 0"
    "n \<le> bq_len q"
    and all: "\<not> list_ex (\<lambda>(index, item). classify index (snd item) \<noteq> Some n)
           (drop 1 (enumerate 0 (take n (bq_items q))))" by blast
  let ?xs = "map snd (take n (bq_items q))"
  let ?q = "q\<lparr>bq_items := drop n (bq_items q), bq_retained_bytes := queue_bytes (drop n (bq_items q))\<rparr>"
  note i = queue_invD [OF assms]
  note b = queue_bytes_split [of "bq_items q" n]
  have loop: "pop_loop n (bq_items q) [] 0 = Some (drop n (bq_items q), ?xs, queue_bytes (take n (bq_items q)))"
    using pop_loop_take [of n "bq_items q" 0 "[]"] n(4) b i(1,2,4) by (simp add: bq_len_def)
  have run: "bq_pop_batch_preserving classify q = Some (Some ?xs, ?q)"
    using n all loop b i(1) by (simp add: bq_pop_batch_preserving_def arith_defs)
  have inv: "queue_inv ?q" using assms b i by (auto simp: queue_inv_def)
  have len: "length ?xs = n" using n(4) by (simp add: bq_len_def)
  have at: "classify k (?xs ! k) = Some n" if k: "k < n" for k
  proof (cases k)
    case 0
    then show ?thesis using n by simp
  next
    case (Suc k')
    have "(k, take n (bq_items q) ! k) \<in> set (drop 1 (enumerate 0 (take n (bq_items q))))"
      using k Suc len
      by (auto simp: in_set_conv_nth nth_enumerate_eq intro!: exI [of _ k'])
    then show ?thesis using all k len by (auto simp: list_ex_iff)
  qed
  have hd: "classify 0 (hd ?xs) = Some (length ?xs)" using n len by (cases n) auto
  have "queued q = ?xs @ queued ?q" by (simp add: queued_def map_append [symmetric] del: map_append)
  moreover have "?xs \<noteq> []" using len n(3) by auto
  ultimately show ?thesis using that [of "Some ?xs" ?q] run inv hd at len by simp
qed

lemma retire_effect:
  assumes "queue_inv q"
  shows "queue_inv (snd (bq_retire_and_take q)) \<and> bq_retired (snd (bq_retire_and_take q))
    \<and> queued (snd (bq_retire_and_take q)) = []"
  using queue_invD [OF assms] by (auto simp: bq_retire_and_take_def queue_inv_def queued_def)

text \<open>
  The queue's operations as a sequence: no reachable accounting panic, exact accounts within the
  bounds, and the plain list each operation implements.
\<close>

subsection \<open>Operations and their specification\<close>

datatype 'a queue_op =
    OpPush usize 'a
  | OpPushBatch "(usize \<times> 'a) list"
  | OpReplaceBack usize 'a
  | OpAdmitTail usize 'a "'a option \<Rightarrow> tail_admission"
  | OpRemoveIf "'a \<Rightarrow> bool"
  | OpPop
  | OpPopBatch "usize \<Rightarrow> 'a \<Rightarrow> usize option"
  | OpRetire

datatype 'a queue_answer =
    AnsAdmitted "resource_error + unit"
  | AnsReplacedBack "resource_error + bool"
  | AnsTail "resource_error + tail_admission_outcome"
  | AnsRemoved "usize \<times> usize"
  | AnsPopped "'a option"
  | AnsBatch "'a list option"
  | AnsRetired "(retirement_report \<times> (usize \<times> 'a) list) option"

fun queue_step :: "'a queue_op \<Rightarrow> 'a bounded_queue \<Rightarrow> ('a queue_answer \<times> 'a bounded_queue) option" where
  "queue_step (OpPush bytes x) q = (let (r, q') = bq_try_push bytes x q in Some (AnsAdmitted r, q'))"
| "queue_step (OpPushBatch xs) q = (let (r, q') = rq_try_push_batch xs q in Some (AnsAdmitted r, q'))"
| "queue_step (OpReplaceBack bytes x) q =
     map_option (\<lambda>(r, q'). (AnsReplacedBack r, q')) (rq_try_replace_back bytes x q)"
| "queue_step (OpAdmitTail bytes x decide) q =
     map_option (\<lambda>(r, q'). (AnsTail r, q')) (rq_try_admit_tail_with bytes x decide q)"
| "queue_step (OpRemoveIf p) q = map_option (\<lambda>(r, q'). (AnsRemoved r, q')) (rq_remove_if p q)"
| "queue_step OpPop q = map_option (\<lambda>(r, q'). (AnsPopped r, q')) (bq_pop q)"
| "queue_step (OpPopBatch classify) q =
     map_option (\<lambda>(r, q'). (AnsBatch r, q')) (bq_pop_batch_preserving classify q)"
| "queue_step OpRetire q = (let (r, q') = bq_retire_and_take q in Some (AnsRetired r, q'))"

text \<open>What an operation that answered does to the list of waiting values.\<close>

fun fifo_step :: "'a queue_op \<Rightarrow> 'a queue_answer \<Rightarrow> 'a list \<Rightarrow> 'a list \<Rightarrow> bool" where
  "fifo_step (OpPush bytes x) (AnsAdmitted r) xs ys = (ys = (if is_ok r then xs @ [x] else xs))"
| "fifo_step (OpPushBatch vs) (AnsAdmitted r) xs ys =
     (ys = (if is_ok r then xs @ map snd vs else xs))"
| "fifo_step (OpReplaceBack bytes x) (AnsReplacedBack r) xs ys =
     (if r = Inr True then xs \<noteq> [] \<and> ys = butlast xs @ [x] else ys = xs)"
| "fifo_step (OpAdmitTail bytes x decide) (AnsTail r) xs ys =
     (case r of
        Inr TailAppended \<Rightarrow> ys = xs @ [x]
      | Inr TailReplaced \<Rightarrow> xs \<noteq> [] \<and> ys = butlast xs @ [x]
      | _ \<Rightarrow> ys = xs)"
| "fifo_step (OpRemoveIf p) (AnsRemoved r) xs ys =
     (fst r = length (filter p xs) \<and> ys = filter (\<lambda>x. \<not> p x) xs)"
| "fifo_step OpPop (AnsPopped r) xs ys = (case r of None \<Rightarrow> xs = [] \<and> ys = [] | Some x \<Rightarrow> xs = x # ys)"
| "fifo_step (OpPopBatch classify) (AnsBatch r) xs ys =
     (case r of None \<Rightarrow> ys = xs | Some vs \<Rightarrow> vs \<noteq> [] \<and> xs = vs @ ys \<and> classify 0 (hd vs) = Some (length vs))"
| "fifo_step OpRetire (AnsRetired r) xs ys =
     (case r of None \<Rightarrow> ys = xs | Some (report, drained) \<Rightarrow>
        ys = [] \<and> map snd drained = xs \<and> re_drained_items report = length xs
        \<and> re_drained_bytes report = queue_bytes drained)"
| "fifo_step _ _ xs ys = False"

lemma bq_back_queued: "bq_back q = (if queued q = [] then None else Some (last (queued q)))"
  by (simp add: bq_back_def queued_def last_map)

lemma queue_step_effect:
  assumes inv: "queue_inv q"
  shows "\<exists>a q'. queue_step op q = Some (a, q') \<and> queue_inv q' \<and> fifo_step op a (queued q) (queued q')
    \<and> bq_bounds q' = bq_bounds q \<and> (bq_retired q \<longrightarrow> bq_retired q')"
proof (cases op)
  case (OpPush bytes x)
  obtain r q' where r: "bq_try_push_preserving bytes x q = (r, q')" by fastforce
  show ?thesis using push_effect [OF inv r] r OpPush
    by (cases r) (auto simp: bq_try_push_def Let_def split: prod.splits)
next
  case (OpPushBatch vs)
  obtain r q' where r: "rq_try_push_batch vs q = (r, q')" by fastforce
  show ?thesis using batch_effect [OF inv r] r OpPushBatch by (cases r) (auto simp: Let_def)
next
  case (OpReplaceBack bytes x)
  obtain r q' where r: "bq_try_replace_back_preserving bytes x q = Some (r, q')" "queue_inv q'"
    "case r of
       Inr (Replaced previous) \<Rightarrow> queued q \<noteq> [] \<and> previous = last (queued q)
         \<and> queued q' = butlast (queued q) @ [x] \<and> bq_retired q' = bq_retired q \<and> bq_bounds q' = bq_bounds q
     | Inr (ReplaceEmpty rejected) \<Rightarrow> q' = q \<and> queued q = [] \<and> rejected = x
     | Inl (e, rejected) \<Rightarrow> q' = q \<and> rejected = x"
    by (rule replace_back_effect [OF inv])
  then show ?thesis using OpReplaceBack
    by (auto simp: rq_try_replace_back_def split: sum.splits replace_back.splits)
next
  case (OpAdmitTail bytes x decide)
  show ?thesis
  proof (cases "bq_retired q")
    case True
    then show ?thesis using OpAdmitTail inv
      by (simp add: rq_try_admit_tail_with_def bq_try_admit_tail_preserving_def)
  next
    case False
    obtain r q1 where push: "bq_try_push_preserving bytes x q = (r, q1)" by fastforce
    obtain r' q' where rep: "bq_try_replace_back_preserving bytes x q = Some (r', q')" "queue_inv q'"
      "case r' of
         Inr (Replaced previous) \<Rightarrow> queued q \<noteq> [] \<and> previous = last (queued q)
           \<and> queued q' = butlast (queued q) @ [x] \<and> bq_retired q' = bq_retired q \<and> bq_bounds q' = bq_bounds q
       | Inr (ReplaceEmpty rejected) \<Rightarrow> q' = q \<and> queued q = [] \<and> rejected = x
       | Inl (e, rejected) \<Rightarrow> q' = q \<and> rejected = x"
      by (rule replace_back_effect [OF inv])
    show ?thesis
    proof (cases "decide (bq_back q)")
      case AdmitAppend
      then show ?thesis using OpAdmitTail False push push_effect [OF inv push]
        by (cases r) (auto simp: rq_try_admit_tail_with_def bq_try_admit_tail_preserving_def)
    next
      case AdmitReplace
      consider e rejected where "r' = Inl (e, rejected)" | previous where "r' = Inr (Replaced previous)"
        | rejected where "r' = Inr (ReplaceEmpty rejected)" by (metis sum.exhaust replace_back.exhaust prod.exhaust)
      then show ?thesis using OpAdmitTail AdmitReplace False rep
        by cases (auto simp: rq_try_admit_tail_with_def bq_try_admit_tail_preserving_def)
    qed (use OpAdmitTail False inv in
        \<open>auto simp: rq_try_admit_tail_with_def bq_try_admit_tail_preserving_def\<close>)
  qed
next
  case (OpRemoveIf p)
  show ?thesis using remove_if_effect [OF inv, of p] OpRemoveIf
    by (auto simp: rq_remove_if_def queued_def filter_map comp_def)
next
  case OpPop
  obtain r q' where "bq_pop q = Some (r, q')" "queue_inv q'"
    "case r of None \<Rightarrow> queued q = [] \<and> q' = q | Some x \<Rightarrow> queued q = x # queued q'"
    "bq_retired q' = bq_retired q" "bq_bounds q' = bq_bounds q" by (rule pop_effect [OF inv])
  then show ?thesis using OpPop by (auto split: option.splits)
next
  case (OpPopBatch classify)
  obtain r q' where "bq_pop_batch_preserving classify q = Some (r, q')" "queue_inv q'"
    "case r of None \<Rightarrow> q' = q
     | Some xs \<Rightarrow> xs \<noteq> [] \<and> queued q = xs @ queued q' \<and> classify 0 (hd xs) = Some (length xs)
         \<and> (\<forall>i < length xs. classify i (xs ! i) = Some (length xs))"
    "bq_retired q' = bq_retired q" "bq_bounds q' = bq_bounds q" by (rule pop_batch_effect [OF inv])
  then show ?thesis using OpPopBatch by (auto split: option.splits)
next
  case OpRetire
  then show ?thesis using retire_effect [OF inv] queue_invD [OF inv]
    by (auto simp: bq_retire_and_take_def queued_def bq_len_def)
qed

text \<open>A whole run of operations, \<open>None\<close> if one of them panics.\<close>

fun queue_run :: "'a queue_op list \<Rightarrow> 'a bounded_queue \<Rightarrow> 'a bounded_queue option" where
  "queue_run [] q = Some q"
| "queue_run (op # ops) q = (case queue_step op q of None \<Rightarrow> None | Some (a, q') \<Rightarrow> queue_run ops q')"

lemma queue_run_inv: "queue_inv q \<Longrightarrow> \<exists>q'. queue_run ops q = Some q' \<and> queue_inv q' \<and> bq_bounds q' = bq_bounds q"
proof (induction ops arbitrary: q)
  case (Cons op ops)
  obtain a q1 where "queue_step op q = Some (a, q1)" "queue_inv q1" "bq_bounds q1 = bq_bounds q"
    using queue_step_effect [OF Cons.prems, of op] by blast
  then show ?case using Cons.IH [of q1] by auto
qed simp

subsection \<open>Properties\<close>

text \<open>
  Whatever operations run on a bounded queue, in any order and with any decision callbacks, none
  of its accounting checks panics, and the queue stays within its item and byte bounds with a byte
  total that is exactly the sum over the items it holds.
\<close>

theorem queue_never_panics:
  assumes "resource_bounds_new max_items max_bytes = Inr b"
  shows "\<exists>q. queue_run ops (bq_new b) = Some q \<and> bq_retained_bytes q = sum_list (map fst (bq_items q))
    \<and> bq_retained_bytes q \<le> max_bytes \<and> length (bq_items q) \<le> max_items"
  using queue_run_inv [OF bq_new_inv, of b ops] resource_bounds_new_ok [OF assms]
  by (auto simp: queue_inv_def queue_bytes_def bq_new_def)

theorem queue_never_panics_witness:
  "queue_run [OpPush 3 True, OpPush 4 False, OpRemoveIf (\<lambda>x. x), OpPop, OpRetire]
     (bq_new \<lparr>rb_max_items = 2, rb_max_bytes = 10\<rparr>) \<noteq> None"
proof -
  have "resource_bounds_new 2 10 = Inr \<lparr>rb_max_items = 2, rb_max_bytes = 10\<rparr>"
    by (simp add: resource_bounds_new_def hard_max_resource_items_def hard_max_resource_bytes_def)
  from queue_never_panics [OF this, of "[OpPush 3 True, OpPush 4 False, OpRemoveIf (\<lambda>x. x), OpPop, OpRetire]"]
  show ?thesis by auto
qed

text \<open>
  C14: every operation of the bounded queue is the operation of a plain first-in first-out list on
  the values waiting: admission appends or changes nothing, a batch goes in whole or not at all,
  replacement keeps the position, removal is a filter that keeps the order, a batch pop takes a
  prefix the classifier agreed to, and retirement hands everything over once.
\<close>

theorem queue_refines_fifo:
  assumes "queue_inv q"
  shows "\<exists>a q'. queue_step op q = Some (a, q') \<and> queue_inv q' \<and> fifo_step op a (queued q) (queued q')
    \<and> bq_bounds q' = bq_bounds q \<and> (bq_retired q \<longrightarrow> bq_retired q')"
  by (rule queue_step_effect [OF assms])

theorem queue_refines_fifo_witness:
  "\<exists>a q'. queue_step (OpPush 3 True) (bq_new \<lparr>rb_max_items = 2, rb_max_bytes = 10\<rparr>) = Some (a, q')
     \<and> queue_inv q'"
proof -
  have "queue_inv (bq_new \<lparr>rb_max_items = 2, rb_max_bytes = 10\<rparr> :: bool bounded_queue)"
    by (rule bq_new_inv)
      (simp add: bounds_ok_def hard_max_resource_items_def hard_max_resource_bytes_def)
  from queue_refines_fifo [OF this, of "OpPush 3 True"] show ?thesis by blast
qed

end
