(* ===== verification/Permit_Pool.thy ===== *)
theory Permit_Pool
  imports Resource_Queue
begin

text \<open>
  \<open>PermitPool\<close> and \<open>Permit\<close> of \<open>crates/suprnova-live/src/resource/owner.rs\<close>, with their atomics
  interleaved: a thread acquiring a permit loads the counter, then tries to exchange it, looping
  with the value it observed; a weak exchange may fail although the value matched. Releasing is
  one atomic decrement, performed once per permit.
\<close>

datatype permit_thread =
    PermitIdle
  | PermitTrying usize
  | PermitHeld
  | PermitRefused

record permit_pool =
  pp_max_active :: usize
  pp_active :: usize

definition permit_pool_new :: "usize \<Rightarrow> resource_bounds_error + permit_pool" where
  "permit_pool_new max_active =
     and_then (validate_permit_limit max_active) (\<lambda>u.
       Inr \<lparr>pp_max_active = max_active, pp_active = 0\<rparr>)"

definition permit_available :: "permit_pool \<Rightarrow> usize option" where
  "permit_available p = checked_sub_usize (pp_max_active p) (pp_active p)"

record permit_world =
  pw_pool :: permit_pool
  pw_threads :: "permit_thread list"

text \<open>One atomic action of thread \<open>i\<close>.\<close>

inductive permit_step :: "permit_world \<Rightarrow> permit_world \<Rightarrow> bool" where
  acquire_load: "i < length (pw_threads w) \<Longrightarrow> pw_threads w ! i \<in> {PermitIdle, PermitRefused} \<Longrightarrow>
    permit_step w (w\<lparr>pw_threads := (pw_threads w)[i := PermitTrying (pp_active (pw_pool w))]\<rparr>)"
| acquire_full: "i < length (pw_threads w) \<Longrightarrow> pw_threads w ! i = PermitTrying current \<Longrightarrow>
    current \<ge> pp_max_active (pw_pool w) \<Longrightarrow>
    permit_step w (w\<lparr>pw_threads := (pw_threads w)[i := PermitRefused]\<rparr>)"
| exchange_ok: "i < length (pw_threads w) \<Longrightarrow> pw_threads w ! i = PermitTrying current \<Longrightarrow>
    current < pp_max_active (pw_pool w) \<Longrightarrow> pp_active (pw_pool w) = current \<Longrightarrow>
    permit_step w (w\<lparr>pw_pool := (pw_pool w)\<lparr>pp_active := current + 1\<rparr>,
                    pw_threads := (pw_threads w)[i := PermitHeld]\<rparr>)"
| exchange_failed: "i < length (pw_threads w) \<Longrightarrow> pw_threads w ! i = PermitTrying current \<Longrightarrow>
    current < pp_max_active (pw_pool w) \<Longrightarrow>
    permit_step w (w\<lparr>pw_threads := (pw_threads w)[i := PermitTrying (pp_active (pw_pool w))]\<rparr>)"
| release_once: "i < length (pw_threads w) \<Longrightarrow> pw_threads w ! i = PermitHeld \<Longrightarrow>
    permit_step w (w\<lparr>pw_pool := (pw_pool w)\<lparr>pp_active := pp_active (pw_pool w) - 1\<rparr>,
                    pw_threads := (pw_threads w)[i := PermitIdle]\<rparr>)"

inductive_cases permit_stepE: "permit_step w w'"

inductive permit_reach :: "permit_world \<Rightarrow> permit_world \<Rightarrow> bool" for w0 where
  permit_start: "permit_reach w0 w0"
| permit_next: "permit_reach w0 w \<Longrightarrow> permit_step w w' \<Longrightarrow> permit_reach w0 w'"

definition holding :: "permit_world \<Rightarrow> nat" where
  "holding w = length (filter (\<lambda>t. t = PermitHeld) (pw_threads w))"

lemma filter_update:
  assumes "i < length xs"
  shows "length (filter P (xs[i := x])) + (if P (xs ! i) then 1 else 0)
    = length (filter P xs) + (if P x then 1 else 0)"
  using assms
proof (induction xs arbitrary: i)
  case (Cons y ys)
  then show ?case by (cases i) auto
qed simp

lemma holding_update:
  "i < length (pw_threads w) \<Longrightarrow>
   length (filter (\<lambda>t. t = PermitHeld) ((pw_threads w)[i := x])) + (if pw_threads w ! i = PermitHeld then 1 else 0)
     = holding w + (if x = PermitHeld then 1 else 0)"
  unfolding holding_def by (rule filter_update)

definition pool_inv :: "permit_world \<Rightarrow> bool" where
  "pool_inv w = (pp_active (pw_pool w) = holding w \<and> holding w \<le> pp_max_active (pw_pool w))"

lemma pool_step_inv:
  assumes "permit_step w w'" and "pool_inv w"
  shows "pool_inv w' \<and> pp_max_active (pw_pool w') = pp_max_active (pw_pool w)"
  using assms
proof (cases rule: permit_step.cases)
  case (acquire_load i)
  then show ?thesis using assms(2) holding_update [of i w "PermitTrying (pp_active (pw_pool w))"]
    by (auto simp: pool_inv_def holding_def)
next
  case (acquire_full i current)
  then show ?thesis using assms(2) holding_update [of i w PermitRefused]
    by (auto simp: pool_inv_def holding_def)
next
  case (exchange_ok i current)
  then show ?thesis using assms(2) holding_update [of i w PermitHeld]
    by (auto simp: pool_inv_def holding_def)
next
  case (exchange_failed i current)
  then show ?thesis using assms(2) holding_update [of i w "PermitTrying (pp_active (pw_pool w))"]
    by (auto simp: pool_inv_def holding_def)
next
  case (release_once i)
  then show ?thesis using assms(2) holding_update [of i w PermitIdle]
    by (auto simp: pool_inv_def holding_def)
qed

lemma pool_reach_inv: "permit_reach w0 w \<Longrightarrow> pool_inv w0 \<Longrightarrow>
    pool_inv w \<and> pp_max_active (pw_pool w) = pp_max_active (pw_pool w0)"
proof (induction rule: permit_reach.induct)
  case (permit_next w w')
  then show ?case using pool_step_inv [of w w'] by simp
qed simp

text \<open>
  C32: under any interleaving of threads acquiring and releasing, spurious exchange failures
  included, the counter is exactly the number of permits held and never exceeds the pool's limit:
  no permit is granted twice, and neither the decrement nor the available count can underflow.
\<close>

theorem permits_never_exceeded:
  assumes "permit_pool_new n = Inr p"
    and "permit_reach \<lparr>pw_pool = p, pw_threads = replicate threads PermitIdle\<rparr> w"
  shows "pp_active (pw_pool w) = holding w \<and> holding w \<le> n
    \<and> permit_available (pw_pool w) = Some (n - holding w)
    \<and> (\<forall>i < length (pw_threads w). pw_threads w ! i = PermitHeld \<longrightarrow> 0 < pp_active (pw_pool w))"
proof -
  let ?w = "\<lparr>pw_pool = p, pw_threads = replicate threads PermitIdle\<rparr>"
  have p: "pp_max_active p = n" "pp_active p = 0"
    using assms(1) by (auto simp: permit_pool_new_def)
  have "pool_inv ?w" using p by (simp add: pool_inv_def holding_def)
  from pool_reach_inv [OF assms(2) this] have i: "pool_inv w" "pp_max_active (pw_pool w) = n" using p by auto
  have "0 < holding w" if "i < length (pw_threads w)" "pw_threads w ! i = PermitHeld" for i
    using that nth_mem [OF that(1)] by (fastforce simp: holding_def length_filter_conv_card card_gt_0_iff)
  then show ?thesis using i by (auto simp: pool_inv_def permit_available_def arith_defs)
qed

lemma px_reach:
  "permit_reach \<lparr>pw_pool = \<lparr>pp_max_active = 1, pp_active = 0\<rparr>, pw_threads = replicate 2 PermitIdle\<rparr>
     \<lparr>pw_pool = \<lparr>pp_max_active = 1, pp_active = 1\<rparr>, pw_threads = [PermitHeld, PermitIdle]\<rparr>"
proof -
  let ?p = "\<lparr>pp_max_active = 1, pp_active = 0\<rparr>"
  let ?w1 = "\<lparr>pw_pool = ?p, pw_threads = [PermitTrying 0, PermitIdle]\<rparr>"
  have "permit_step \<lparr>pw_pool = ?p, pw_threads = [PermitIdle, PermitIdle]\<rparr> ?w1"
    using acquire_load [of 0 "\<lparr>pw_pool = ?p, pw_threads = [PermitIdle, PermitIdle]\<rparr>"] by simp
  moreover have "permit_step ?w1
      \<lparr>pw_pool = \<lparr>pp_max_active = 1, pp_active = 1\<rparr>, pw_threads = [PermitHeld, PermitIdle]\<rparr>"
    using exchange_ok [of 0 ?w1 0] by simp
  ultimately show ?thesis
    using permit_next [OF permit_next [OF permit_start]] by (simp add: numeral_2_eq_2)
qed

theorem permits_never_exceeded_witness:
  "permit_available \<lparr>pp_max_active = 1, pp_active = 1\<rparr> = Some 0"
proof -
  have "permit_pool_new 1 = Inr \<lparr>pp_max_active = 1, pp_active = 0\<rparr>"
    by (simp add: permit_pool_new_def validate_permit_limit_def hard_max_active_permits_def)
  from permits_never_exceeded [OF this px_reach] show ?thesis by (simp add: holding_def)
qed

end
