(* ===== verification/Async_Metadata.thy ===== *)
theory Async_Metadata
  imports Identity "HOL-Library.Product_Lexorder" "HOL-Library.Char_ord"
begin

text \<open>
  Registered declarations of the asynchronous surface: \<open>async_updates/metadata.rs\<close>, the error
  vocabulary of \<open>metadata/mod.rs\<close> and the event contracts of \<open>async_updates/subscription.rs\<close>. Every
  declared set is sorted, bounded and free of duplicates once its constructor returned it; a
  validated name is its text.
\<close>

subsection \<open>Errors\<close>

datatype metadata_error =
    MetaInvalidIdentity | MetaInvalidVersion | MetaUnsupportedProtocol | MetaTooManyFields
   | MetaTooManyActions | MetaTooManyBrowserTools | MetaTooManyEvents | MetaTooManyEffects
   | MetaTooManyEventTargets | MetaInvalidEventTarget | MetaDuplicateEventTarget
   | MetaInvalidEventFanout | MetaTooManySubscriptions | MetaTooManySubscriptionTopics
   | MetaTooManySubscriptionEvents | MetaTooManySubscriptionModes | MetaDuplicateField
   | MetaDuplicateAction | MetaDuplicateEvent | MetaDuplicateEffect | MetaDuplicateSubscription
   | MetaDuplicateSubscriptionTopic | MetaDuplicateSubscriptionEvent
   | MetaDuplicateSubscriptionMode | MetaInvalidSubscriptionMetadata
   | MetaUnknownSubscriptionEvent | MetaUnregisteredStreamEvent | MetaInvalidBindingMetadata
   | MetaInvalidActionMetadata | MetaInvalidUploadMetadata | MetaDuplicateUrlQueryKey
   | MetaContractEncodingFailed

fun metadata_error_as_str :: "metadata_error \<Rightarrow> string" where
  "metadata_error_as_str MetaInvalidIdentity = ''invalid_metadata_identity''"
| "metadata_error_as_str MetaInvalidVersion = ''invalid_metadata_version''"
| "metadata_error_as_str MetaUnsupportedProtocol = ''unsupported_component_protocol''"
| "metadata_error_as_str MetaTooManyFields = ''too_many_component_fields''"
| "metadata_error_as_str MetaTooManyActions = ''too_many_component_actions''"
| "metadata_error_as_str MetaTooManyBrowserTools = ''too_many_browser_tools''"
| "metadata_error_as_str MetaTooManyEvents = ''too_many_component_events''"
| "metadata_error_as_str MetaTooManyEffects = ''too_many_component_effects''"
| "metadata_error_as_str MetaTooManyEventTargets = ''too_many_event_targets''"
| "metadata_error_as_str MetaInvalidEventTarget = ''invalid_event_target''"
| "metadata_error_as_str MetaDuplicateEventTarget = ''duplicate_event_target''"
| "metadata_error_as_str MetaInvalidEventFanout = ''invalid_event_fanout''"
| "metadata_error_as_str MetaTooManySubscriptions = ''too_many_component_subscriptions''"
| "metadata_error_as_str MetaTooManySubscriptionTopics = ''too_many_subscription_topics''"
| "metadata_error_as_str MetaTooManySubscriptionEvents = ''too_many_subscription_events''"
| "metadata_error_as_str MetaTooManySubscriptionModes = ''too_many_subscription_modes''"
| "metadata_error_as_str MetaDuplicateField = ''duplicate_component_field''"
| "metadata_error_as_str MetaDuplicateAction = ''duplicate_component_action''"
| "metadata_error_as_str MetaDuplicateEvent = ''duplicate_component_event''"
| "metadata_error_as_str MetaDuplicateEffect = ''duplicate_component_effect''"
| "metadata_error_as_str MetaDuplicateSubscription = ''duplicate_component_subscription''"
| "metadata_error_as_str MetaDuplicateSubscriptionTopic = ''duplicate_subscription_topic''"
| "metadata_error_as_str MetaDuplicateSubscriptionEvent = ''duplicate_subscription_event''"
| "metadata_error_as_str MetaDuplicateSubscriptionMode = ''duplicate_subscription_mode''"
| "metadata_error_as_str MetaInvalidSubscriptionMetadata = ''invalid_subscription_metadata''"
| "metadata_error_as_str MetaUnknownSubscriptionEvent = ''unknown_subscription_event''"
| "metadata_error_as_str MetaUnregisteredStreamEvent = ''unregistered_stream_event''"
| "metadata_error_as_str MetaInvalidBindingMetadata = ''invalid_component_binding_metadata''"
| "metadata_error_as_str MetaInvalidActionMetadata = ''invalid_component_action_metadata''"
| "metadata_error_as_str MetaInvalidUploadMetadata = ''invalid_component_upload_metadata''"
| "metadata_error_as_str MetaDuplicateUrlQueryKey = ''duplicate_component_url_query_key''"
| "metadata_error_as_str MetaContractEncodingFailed = ''component_contract_encoding_failed''"

subsection \<open>Sorted sets\<close>

text \<open>\<open>windows(2).any(|pair| ...)\<close>.\<close>

fun windows2_any :: "('a \<Rightarrow> 'a \<Rightarrow> bool) \<Rightarrow> 'a list \<Rightarrow> bool" where
  "windows2_any p (x # y # zs) = (p x y \<or> windows2_any p (y # zs))"
| "windows2_any p [x] = False"
| "windows2_any p [] = False"

definition max_event_targets :: nat where "max_event_targets = 16"
definition max_event_fanout :: u16 where "max_event_fanout = 1024"
definition max_subscription_topics :: nat where "max_subscription_topics = 32"
definition max_subscription_events :: nat where "max_subscription_events = 64"
definition max_subscription_modes :: nat where "max_subscription_modes = 2"
definition max_stream_name_bytes :: nat where "max_stream_name_bytes = 128"
definition max_topic_name_bytes :: nat where "max_topic_name_bytes = 256"

subsection \<open>Events\<close>

datatype browser_payload_schema =
  SchemaJson | SchemaNull | SchemaBoolean | SchemaI64 | SchemaU64 | SchemaF64 | SchemaString

datatype event_source = SourceComponent | SourceStream

datatype event_target =
  SelfIsland | TargetParent | TargetChild | NamedIsland string | TargetDocument | TargetBrowser string

text \<open>The derived order: by variant, then by the identity the variant carries.\<close>

fun event_target_rank :: "event_target \<Rightarrow> nat \<times> string" where
  "event_target_rank SelfIsland = (0, [])"
| "event_target_rank TargetParent = (1, [])"
| "event_target_rank TargetChild = (2, [])"
| "event_target_rank (NamedIsland slot) = (3, slot)"
| "event_target_rank TargetDocument = (4, [])"
| "event_target_rank (TargetBrowser listener) = (5, listener)"

lemma event_target_rank_inject: "event_target_rank a = event_target_rank b \<Longrightarrow> a = b"
  by (cases a; cases b) simp_all

instantiation event_target :: linorder
begin

definition less_eq_event_target :: "event_target \<Rightarrow> event_target \<Rightarrow> bool" where
  "less_eq_event_target a b = (event_target_rank a \<le> event_target_rank b)"

definition less_event_target :: "event_target \<Rightarrow> event_target \<Rightarrow> bool" where
  "less_event_target a b = (event_target_rank a < event_target_rank b)"

instance
proof
  fix a b c :: event_target
  show "(a < b) = (a \<le> b \<and> \<not> b \<le> a)"
    by (simp only: less_event_target_def less_eq_event_target_def less_le_not_le)
  show "a \<le> a" by (simp only: less_eq_event_target_def order_refl)
  show "a \<le> b \<Longrightarrow> b \<le> c \<Longrightarrow> a \<le> c"
    unfolding less_eq_event_target_def by (rule order_trans)
  show "a \<le> b \<Longrightarrow> b \<le> a \<Longrightarrow> a = b"
    unfolding less_eq_event_target_def by (intro event_target_rank_inject order_antisym)
  show "a \<le> b \<or> b \<le> a" unfolding less_eq_event_target_def by (rule linear)
qed

end

definition bounded_targets_new :: "event_target list \<Rightarrow> metadata_error + event_target list" where
  "bounded_targets_new targets =
     (if targets = [] then Inl MetaInvalidEventTarget
      else if length targets > max_event_targets then Inl MetaTooManyEventTargets
      else let sorted = sort targets in
           if windows2_any (=) sorted then Inl MetaDuplicateEventTarget else Inr sorted)"

datatype event_order = PerSourceSequence

datatype event_cycle_policy = ForbidRepeatedIsland | MaximumHops u8

subsection \<open>Names\<close>

definition parse_contract_name :: "string \<Rightarrow> nat \<Rightarrow> metadata_error + string" where
  "parse_contract_name value maximum_bytes =
     (if value \<noteq> [] \<and> length value \<le> maximum_bytes
         \<and> list_all (\<lambda>c. is_ascii_alphanumeric c
                         \<or> c \<in> {CHR ''.'', CHR ''_'', CHR '':'', CHR ''/'', CHR ''-''}) value
      then Inr value else Inl MetaInvalidIdentity)"

definition stream_name_parse :: "string \<Rightarrow> metadata_error + string" where
  "stream_name_parse value = parse_contract_name value max_stream_name_bytes"

definition topic_name_parse :: "string \<Rightarrow> metadata_error + string" where
  "topic_name_parse value =
     and_then (parse_contract_name value max_topic_name_bytes) (\<lambda>topic.
       if list_ex (\<lambda>s. s = [] \<or> s = ''.'' \<or> s = ''..'') (split_on (CHR ''/'') topic)
       then Inl MetaInvalidIdentity else Inr topic)"

subsection \<open>Subscriptions\<close>

definition bounded_topics_new :: "string list \<Rightarrow> metadata_error + string list" where
  "bounded_topics_new topics =
     (if topics = [] then Inl MetaInvalidSubscriptionMetadata
      else if length topics > max_subscription_topics then Inl MetaTooManySubscriptionTopics
      else let sorted = sort topics in
           if windows2_any (=) sorted then Inl MetaDuplicateSubscriptionTopic else Inr sorted)"

definition event_names_refresh_only :: "string list" where
  "event_names_refresh_only = []"

definition bounded_event_names_new :: "string list \<Rightarrow> metadata_error + string list" where
  "bounded_event_names_new events =
     (if events = [] then Inl MetaInvalidSubscriptionMetadata
      else if length events > max_subscription_events then Inl MetaTooManySubscriptionEvents
      else let sorted = sort events in
           if windows2_any (=) sorted then Inl MetaDuplicateSubscriptionEvent else Inr sorted)"

datatype subscription_mode = ServerSentEvents | WebSocket

fun subscription_mode_rank :: "subscription_mode \<Rightarrow> nat" where
  "subscription_mode_rank ServerSentEvents = 0"
| "subscription_mode_rank WebSocket = 1"

definition subscription_modes_new ::
  "subscription_mode list \<Rightarrow> metadata_error + subscription_mode list" where
  "subscription_modes_new modes =
     (if modes = [] then Inl MetaInvalidSubscriptionMetadata
      else if length modes > max_subscription_modes then Inl MetaTooManySubscriptionModes
      else let sorted = sort_key subscription_mode_rank modes in
           if windows2_any (=) sorted then Inl MetaDuplicateSubscriptionMode else Inr sorted)"

datatype reconnect_policy = RefreshOnReconnect | ResumeOrRefresh u8

record subscription_metadata =
  sb_stream :: string
  sb_topics :: "string list"
  sb_events :: "string list"
  sb_modes :: "subscription_mode list"
  sb_reconnect :: reconnect_policy

subsection \<open>Event contracts\<close>

datatype subscription_error =
    SubInvalidDescriptor | SubDescriptorExpired | SubUnsupportedProtocol | SubInvalidCapability
  | SubInvalidAuthorizationMemo | SubInvalidPollFallback | SubInvalidReconnectPolicy
  | SubDescriptorBudgetExceeded | SubScopeMismatch | SubAuthorizationUnavailable
  | SubAuthorizationDenied | SubCredentialUnavailable | SubCredentialRotationUncertain
  | SubInvalidCredential | SubContextExpired | SubUnregisteredSubscription

definition capability_version_new :: "u16 \<Rightarrow> subscription_error + u16" where
  "capability_version_new value = (if value = 0 then Inl SubInvalidCapability else Inr value)"

definition max_authorization_memo_bytes :: nat where "max_authorization_memo_bytes = 512"

definition authorization_memo_parse :: "string \<Rightarrow> subscription_error + string" where
  "authorization_memo_parse value =
     (if value \<noteq> [] \<and> length value \<le> max_authorization_memo_bytes
         \<and> list_all (\<lambda>c. 33 \<le> char_code c \<and> char_code c \<le> 126) value
      then Inr value else Inl SubInvalidAuthorizationMemo)"

record event_contract =
  ec_name :: string
  ec_version :: u16
  ec_payload_contract :: string
  ec_schema :: browser_payload_schema
  ec_source :: event_source
  ec_targets :: "event_target list"
  ec_order :: event_order
  ec_cycle :: event_cycle_policy
  ec_maximum_fanout :: u16

text \<open>The checked constructor; the argument is the record of its arguments.\<close>

definition event_contract_new :: "event_contract \<Rightarrow> subscription_error + event_contract" where
  "event_contract_new c =
     (if ec_version c = 0 \<or> ec_source c \<noteq> SourceStream \<or> ec_maximum_fanout c > max_event_fanout
         \<or> unat (ec_maximum_fanout c) < length (ec_targets c)
      then Inl SubInvalidDescriptor else Inr c)"

definition bounded_event_contracts_new ::
  "event_contract list \<Rightarrow> subscription_error + event_contract list" where
  "bounded_event_contracts_new events =
     (if length events > max_subscription_events then Inl SubInvalidDescriptor
      else let sorted = sort_key ec_name events in
           if windows2_any (\<lambda>l r. ec_name l = ec_name r) sorted then Inl SubInvalidDescriptor
           else Inr sorted)"

subsection \<open>Lemmas\<close>

text \<open>A sorted list without equal neighbours is strictly sorted, so free of duplicates.\<close>

lemma sorted_windows_strict:
  fixes f :: "'a \<Rightarrow> 'b :: linorder"
  assumes "sorted (map f xs)"
  shows "\<not> windows2_any (\<lambda>x y. f x = f y) xs \<longleftrightarrow> sorted_wrt (<) (map f xs)"
  using assms
proof (induction xs rule: induct_list012)
  case (3 x y zs)
  then show ?case using order_less_le_trans [of "f x" "f y"] by (auto simp: order_less_le)
qed simp_all

end
