(* ===== verification/Sequence.thy ===== *)
theory Sequence
  imports Identity
begin

text \<open>
  Stream continuity: \<open>SequenceMachine\<close> of \<open>crates/suprnova-live/src/async_updates/sequence.rs\<close>, with
  the stream positions of \<open>subscription.rs\<close> and the admission guard of \<open>envelope.rs\<close> it reads. One
  machine belongs to one logical subscription; it applies exactly the next sequence of the current
  epoch, and only replay or host authority moves it past a gap. The dispatcher is the host's port:
  a parameter that returns a result and the host's next state.
\<close>

subsection \<open>Positions\<close>

record stream_position =
  sp_epoch :: u64
  sp_sequence :: u64

definition position_precedes :: "stream_position \<Rightarrow> stream_position \<Rightarrow> bool" where
  "position_precedes l r =
     (sp_epoch l < sp_epoch r \<or> sp_epoch l = sp_epoch r \<and> sp_sequence l < sp_sequence r)"

datatype sequence_state = SeqCurrent | SeqDegraded

datatype sequence_degradation = DegradedGap | DegradedEpochChanged

datatype sequence_disposition =
    SeqApply
  | IgnoreDuplicate
  | IgnoreStaleEpoch
  | DispositionScopeMismatch
  | DispositionDegraded sequence_degradation
  | AwaitingRecovery

datatype baseline_disposition = Adopted | AlreadyCurrent

datatype sequence_error =
    InvalidReplayTranscript
  | SequenceScopeMismatch
  | MembershipExpired
  | DeliveryRetired
  | AuthorizationLost
  | BaselineRegression
  | AuthoritativeBaselineInsufficient
  | AuthoritativeRefreshUnavailable
  | DispatchRejected
  | DispatchFailed

fun sequence_error_as_str :: "sequence_error \<Rightarrow> string" where
  "sequence_error_as_str InvalidReplayTranscript = ''invalid_async_replay_transcript''"
| "sequence_error_as_str SequenceScopeMismatch = ''async_sequence_scope_mismatch''"
| "sequence_error_as_str MembershipExpired = ''async_membership_expired''"
| "sequence_error_as_str DeliveryRetired = ''async_delivery_retired''"
| "sequence_error_as_str AuthorizationLost = ''async_sequence_authorization_lost''"
| "sequence_error_as_str BaselineRegression = ''async_baseline_regression''"
| "sequence_error_as_str AuthoritativeBaselineInsufficient = ''async_baseline_insufficient''"
| "sequence_error_as_str AuthoritativeRefreshUnavailable = ''async_authoritative_refresh_unavailable''"
| "sequence_error_as_str DispatchRejected = ''async_dispatch_rejected''"
| "sequence_error_as_str DispatchFailed = ''async_dispatch_failed''"

datatype dispatch_error = ErrorRejected | ErrorFailed

fun dispatch_error_kind :: "dispatch_error \<Rightarrow> sequence_error" where
  "dispatch_error_kind ErrorRejected = DispatchRejected"
| "dispatch_error_kind ErrorFailed = DispatchFailed"

definition max_replay_transcript_envelopes :: usize where
  "max_replay_transcript_envelopes = 65536"

subsection \<open>Envelopes, contexts and deliveries\<close>

text \<open>
  What the machine compares is the whole sealed context; the registered payload contracts in it are
  of the type \<open>'x\<close>. The payload of an envelope is of the type \<open>'p\<close>, and \<open>'f\<close> is the resolved
  event fanout a delivery carries to the dispatcher.
\<close>

record 'p async_envelope =
  env_protocol_version :: u16
  env_subscription :: "u8 list"
  env_stream :: string
  env_position :: stream_position
  env_payload :: 'p

record 'x async_context =
  ac_subscription :: "u8 list"
  ac_stream :: string
  ac_baseline :: stream_position
  ac_expires_at :: unix_millis
  ac_registered :: 'x

record ('x, 'p, 'f) async_delivery =
  dl_context :: "'x async_context"
  dl_envelope :: "'p async_envelope"
  dl_resolved_event :: "'f option"
  dl_fanout_limit :: usize

definition delivery_is_current_at :: "('x, 'p, 'f) async_delivery \<Rightarrow> unix_millis \<Rightarrow> bool" where
  "delivery_is_current_at d now = (now < ac_expires_at (dl_context d))"

type_synonym ('x, 'p, 'f, 'h) dispatcher =
  "('x, 'p, 'f) async_delivery \<Rightarrow> 'h \<Rightarrow> (dispatch_error + unit) \<times> 'h"

subsection \<open>The machine\<close>

record 'x sequence_machine =
  sm_context :: "'x async_context"
  sm_current :: stream_position
  sm_state :: sequence_state
  sm_degradation :: "sequence_degradation option"
  sm_high_water :: "stream_position option"

definition sequence_new :: "'x async_context \<Rightarrow> 'x sequence_machine" where
  "sequence_new c = \<lparr>sm_context = c, sm_current = ac_baseline c, sm_state = SeqCurrent,
     sm_degradation = None, sm_high_water = None\<rparr>"

definition matches_scope :: "'x sequence_machine \<Rightarrow> 'p async_envelope \<Rightarrow> bool" where
  "matches_scope m e = (env_subscription e = ac_subscription (sm_context m)
     \<and> env_stream e = ac_stream (sm_context m))"

definition sequence_degrade ::
  "sequence_degradation \<Rightarrow> stream_position \<Rightarrow> 'x sequence_machine \<Rightarrow> 'x sequence_machine" where
  "sequence_degrade reason observed m =
     m\<lparr>sm_state := SeqDegraded, sm_degradation := Some reason, sm_high_water := Some observed\<rparr>"

definition record_high_water :: "stream_position \<Rightarrow> 'x sequence_machine \<Rightarrow> 'x sequence_machine" where
  "record_high_water observed m =
     (if (case sm_high_water m of None \<Rightarrow> True | Some current \<Rightarrow> position_precedes current observed)
      then m\<lparr>sm_high_water := Some observed\<rparr> else m)"

definition sequence_restore :: "stream_position \<Rightarrow> 'x sequence_machine \<Rightarrow> 'x sequence_machine" where
  "sequence_restore baseline m =
     m\<lparr>sm_current := baseline, sm_state := SeqCurrent, sm_degradation := None, sm_high_water := None\<rparr>"

definition observe_position ::
  "stream_position \<Rightarrow> 'x sequence_machine \<Rightarrow> sequence_disposition \<times> 'x sequence_machine" where
  "observe_position observed m =
     (if sp_epoch observed < sp_epoch (sm_current m) then (IgnoreStaleEpoch, m)
      else if sp_epoch observed = sp_epoch (sm_current m)
              \<and> sp_sequence observed \<le> sp_sequence (sm_current m) then (IgnoreDuplicate, m)
      else if sm_state m = SeqDegraded
      then (AwaitingRecovery,
            let m' = record_high_water observed m
            in if sp_epoch observed > sp_epoch (sm_current m)
               then m'\<lparr>sm_degradation := Some DegradedEpochChanged\<rparr> else m')
      else if sp_epoch observed > sp_epoch (sm_current m)
      then (DispositionDegraded DegradedEpochChanged, sequence_degrade DegradedEpochChanged observed m)
      else if sp_sequence observed \<noteq> sp_sequence (sm_current m) + 1
      then (DispositionDegraded DegradedGap, sequence_degrade DegradedGap observed m)
      else (SeqApply, m))"

definition sequence_dispatch ::
  "('x, 'p, 'f, 'h) dispatcher \<Rightarrow> ('x, 'p, 'f) async_delivery \<Rightarrow> unix_millis \<Rightarrow>
   'x sequence_machine \<Rightarrow> 'h \<Rightarrow> (sequence_error + sequence_disposition) \<times> 'x sequence_machine \<times> 'h" where
  "sequence_dispatch port d now m h =
     (if \<not> delivery_is_current_at d now then (Inl MembershipExpired, m, h)
      else if dl_context d \<noteq> sm_context m \<or> \<not> matches_scope m (dl_envelope d)
      then (Inl SequenceScopeMismatch, m, h)
      else let observed = env_position (dl_envelope d);
               (disposition, m') = observe_position observed m in
           if disposition \<noteq> SeqApply then (Inr disposition, m', h)
           else case port d h of
             (Inl error, h') \<Rightarrow> (Inl (dispatch_error_kind error), m', h')
           | (Inr u, h') \<Rightarrow> (Inr SeqApply, m'\<lparr>sm_current := observed\<rparr>, h'))"

subsection \<open>Replay\<close>

record replay_recovery =
  rr_through :: stream_position
  rr_effective_high_water :: stream_position
  rr_total :: usize
  rr_applied :: usize
  rr_restore_on_finish :: bool

record replay_error =
  re_kind :: sequence_error
  re_applied :: usize
  re_current :: stream_position
  re_state :: sequence_state
  re_high_water :: "stream_position option"

record replay_outcome =
  ro_applied :: usize
  ro_current :: stream_position
  ro_state :: sequence_state

definition sequence_replay_error :: "'x sequence_machine \<Rightarrow> sequence_error \<Rightarrow> usize \<Rightarrow> replay_error" where
  "sequence_replay_error m kind applied =
     \<lparr>re_kind = kind, re_applied = applied, re_current = sm_current m, re_state = sm_state m,
      re_high_water = sm_high_water m\<rparr>"

definition sequence_recovery_error ::
  "'x sequence_machine \<Rightarrow> replay_recovery \<Rightarrow> sequence_error \<Rightarrow> replay_error" where
  "sequence_recovery_error m recovery kind =
     \<lparr>re_kind = kind, re_applied = rr_applied recovery, re_current = sm_current m, re_state = sm_state m,
      re_high_water = Some (case sm_high_water m of
          Some current \<Rightarrow> if position_precedes (rr_effective_high_water recovery) current
                          then current else rr_effective_high_water recovery
        | None \<Rightarrow> rr_effective_high_water recovery)\<rparr>"

text \<open>Which high-water a transcript must reach, and whether finishing it restores the machine.\<close>

definition replay_requirement ::
  "'x sequence_machine \<Rightarrow> stream_position option \<Rightarrow> replay_error + (stream_position \<times> bool)" where
  "replay_requirement m pressure =
     (case pressure of
        Some required \<Rightarrow>
          if sm_state m = SeqCurrent \<and> sp_epoch required = sp_epoch (sm_current m)
             \<and> sp_sequence required > sp_sequence (sm_current m)
          then Inr (required, False)
          else Inl (sequence_replay_error m InvalidReplayTranscript 0)
      | None \<Rightarrow>
          if sm_state m = SeqDegraded \<and> sm_degradation m = Some DegradedGap
          then (case sm_high_water m of
                  None \<Rightarrow> Inl (sequence_replay_error m InvalidReplayTranscript 0)
                | Some required \<Rightarrow>
                    if sp_epoch required \<noteq> sp_epoch (sm_current m)
                    then Inl (sequence_replay_error m InvalidReplayTranscript 0)
                    else Inr (required, True))
          else Inl (sequence_replay_error m InvalidReplayTranscript 0))"

text \<open>
  The validation loop: every position is in the epoch and exactly the expected next sequence. The
  successor is computed only when another position follows. The result is the last position.
\<close>

fun replay_positions_loop ::
  "u64 \<Rightarrow> u64 \<Rightarrow> stream_position list \<Rightarrow> stream_position \<Rightarrow> stream_position option" where
  "replay_positions_loop epoch expected [] through = Some through"
| "replay_positions_loop epoch expected (p # ps) through =
     (if sp_epoch p \<noteq> epoch \<or> sp_sequence p \<noteq> expected then None
      else if ps = [] then Some p
      else case checked_add_u64 expected 1 of
             None \<Rightarrow> None
           | Some following \<Rightarrow> replay_positions_loop epoch following ps p)"

definition prepare_replay_positions ::
  "'x sequence_machine \<Rightarrow> stream_position list \<Rightarrow> stream_position option \<Rightarrow> replay_error + replay_recovery" where
  "prepare_replay_positions m transcript pressure =
     (let invalid = sequence_replay_error m InvalidReplayTranscript 0 in
      if transcript = [] \<or> length transcript > max_replay_transcript_envelopes then Inl invalid
      else and_then (replay_requirement m pressure) (\<lambda>(required, restore).
           case checked_add_u64 (sp_sequence (sm_current m)) 1 of
             None \<Rightarrow> Inl invalid
           | Some expected \<Rightarrow>
               (case replay_positions_loop (sp_epoch (sm_current m)) expected transcript (sm_current m) of
                  None \<Rightarrow> Inl invalid
                | Some through \<Rightarrow>
                    if sp_sequence through < sp_sequence required then Inl invalid
                    else Inr \<lparr>rr_through = through, rr_effective_high_water = required,
                              rr_total = length transcript, rr_applied = 0,
                              rr_restore_on_finish = restore\<rparr>)))"

definition prepare_replay ::
  "'x sequence_machine \<Rightarrow> 'p async_envelope list \<Rightarrow> stream_position option \<Rightarrow>
   replay_error + replay_recovery" where
  "prepare_replay m transcript pressure =
     (if transcript = [] \<or> length transcript > max_replay_transcript_envelopes
      then Inl (sequence_replay_error m InvalidReplayTranscript 0)
      else if list_ex (\<lambda>e. \<not> matches_scope m e) transcript
      then Inl (sequence_replay_error m SequenceScopeMismatch 0)
      else prepare_replay_positions m (map env_position transcript) pressure)"

definition commit_replay_position ::
  "stream_position \<Rightarrow> replay_recovery \<times> 'x sequence_machine \<Rightarrow> replay_recovery \<times> 'x sequence_machine" where
  "commit_replay_position position s =
     (case s of (recovery, m) \<Rightarrow>
        (recovery\<lparr>rr_applied := rr_applied recovery + 1\<rparr>, m\<lparr>sm_current := position\<rparr>))"

definition dispatch_replay_entry ::
  "('x, 'p, 'f, 'h) dispatcher \<Rightarrow> ('x, 'p, 'f) async_delivery \<Rightarrow> unix_millis \<Rightarrow>
   replay_recovery \<Rightarrow> 'x sequence_machine \<Rightarrow> 'h \<Rightarrow>
   (replay_error + unit) \<times> replay_recovery \<times> 'x sequence_machine \<times> 'h" where
  "dispatch_replay_entry port d now recovery m h =
     (if \<not> delivery_is_current_at d now
      then (Inl (sequence_recovery_error m recovery MembershipExpired), recovery, m, h)
      else if dl_context d \<noteq> sm_context m \<or> \<not> matches_scope m (dl_envelope d)
      then (Inl (sequence_recovery_error m recovery SequenceScopeMismatch), recovery, m, h)
      else case port d h of
        (Inl error, h') \<Rightarrow>
          (Inl (sequence_recovery_error m recovery (dispatch_error_kind error)), recovery, m, h')
      | (Inr u, h') \<Rightarrow>
          (let (recovery', m') = commit_replay_position (env_position (dl_envelope d)) (recovery, m)
           in (Inr (), recovery', m', h')))"

definition finish_replay ::
  "replay_recovery \<Rightarrow> 'x sequence_machine \<Rightarrow> (replay_error + replay_outcome) \<times> 'x sequence_machine" where
  "finish_replay recovery m =
     (if rr_applied recovery \<noteq> rr_total recovery
      then (Inl (sequence_recovery_error m recovery InvalidReplayTranscript), m)
      else let m' = (if rr_restore_on_finish recovery then sequence_restore (rr_through recovery) m else m)
           in (Inr \<lparr>ro_applied = rr_applied recovery, ro_current = sm_current m', ro_state = sm_state m'\<rparr>, m'))"

definition interrupt_replay ::
  "'x sequence_machine \<Rightarrow> replay_recovery \<Rightarrow> sequence_error \<Rightarrow> replay_error" where
  "interrupt_replay m recovery kind = sequence_recovery_error m recovery kind"

subsection \<open>Authoritative refresh\<close>

record continuity_request =
  cq_subscription :: "u8 list"
  cq_stream :: string
  cq_current :: stream_position
  cq_high_water :: "stream_position option"

definition authoritative_refresh_request ::
  "'x sequence_machine \<Rightarrow> stream_position option \<Rightarrow> continuity_request" where
  "authoritative_refresh_request m pressure =
     \<lparr>cq_subscription = ac_subscription (sm_context m), cq_stream = ac_stream (sm_context m),
      cq_current = sm_current m,
      cq_high_water =
        (case (sm_high_water m, pressure) of
           (Some l, Some r) \<Rightarrow> if position_precedes l r then Some r else Some l
         | (Some l, None) \<Rightarrow> Some l
         | (None, r) \<Rightarrow> r)\<rparr>"

definition install_authoritative_baseline ::
  "stream_position \<Rightarrow> stream_position option \<Rightarrow> 'x sequence_machine \<Rightarrow>
   (sequence_error + baseline_disposition) \<times> 'x sequence_machine" where
  "install_authoritative_baseline baseline pressure m =
     (if position_precedes baseline (sm_current m) then (Inl BaselineRegression, m)
      else if (case cq_high_water (authoritative_refresh_request m pressure) of
                 None \<Rightarrow> False | Some high_water \<Rightarrow> position_precedes baseline high_water)
      then (Inl AuthoritativeBaselineInsufficient, m)
      else (Inr (if baseline = sm_current m then AlreadyCurrent else Adopted),
            sequence_restore baseline m))"

subsection \<open>The conformance adapter\<close>

text \<open>\<open>SequenceConformanceMachine\<close>: typed positions only, through the same methods.\<close>

definition conformance_new ::
  "'x async_context \<Rightarrow> stream_position \<Rightarrow> sequence_error + 'x sequence_machine" where
  "conformance_new c baseline =
     (let (r, m) = install_authoritative_baseline baseline None (sequence_new c)
      in and_then r (\<lambda>_. Inr m))"

definition conformance_observe ::
  "stream_position \<Rightarrow> 'x sequence_machine \<Rightarrow> sequence_disposition \<times> 'x sequence_machine" where
  "conformance_observe observed m =
     (let (disposition, m') = observe_position observed m
      in (disposition, if disposition = SeqApply then m'\<lparr>sm_current := observed\<rparr> else m'))"

definition conformance_recover ::
  "stream_position list \<Rightarrow> 'x sequence_machine \<Rightarrow> (replay_error + replay_outcome) \<times> 'x sequence_machine" where
  "conformance_recover transcript m =
     (case prepare_replay_positions m transcript None of
        Inl e \<Rightarrow> (Inl e, m)
      | Inr recovery \<Rightarrow>
          (let (recovery', m') = foldl (\<lambda>s position. commit_replay_position position s) (recovery, m) transcript
           in finish_replay recovery' m'))"

definition conformance_install ::
  "stream_position \<Rightarrow> 'x sequence_machine \<Rightarrow> (sequence_error + baseline_disposition) \<times> 'x sequence_machine" where
  "conformance_install baseline m = install_authoritative_baseline baseline None m"

end
