(* ===== verification/Async_Envelope.thy ===== *)
theory Async_Envelope
  imports Canonical Async_Metadata Sequence
begin

text \<open>
  The asynchronous envelope: \<open>async_updates/envelope.rs\<close>. The payload union and its registration
  checks, the canonical value of a payload, the bounded encoder and decoder over the canonical
  codec, and the preflight scanner that measures the payload before anything is parsed. The JSON
  text and the base64 alphabet are the parameters of \<open>Canonical\<close> and \<open>Identity\<close>. The scanner's
  loops carry fuel: \<open>None\<close> is a scan that has not ended.
\<close>

subsection \<open>Errors and limits\<close>

datatype envelope_error =
    EnvTooLarge | EnvTooDeep | EnvTooManyEntries | EnvStringTooLong | EnvDuplicateField
  | EnvNonCanonical | InvalidEnvelope | UnsupportedProtocol | SubscriptionMismatch | StreamMismatch
  | PayloadTooLarge | UnsupportedPayload | InvalidPayload | UnregisteredPayload | EnvMembershipExpired

fun envelope_error_as_str :: "envelope_error \<Rightarrow> string" where
  "envelope_error_as_str EnvTooLarge = ''async_envelope_too_large''"
| "envelope_error_as_str EnvTooDeep = ''async_envelope_too_deep''"
| "envelope_error_as_str EnvTooManyEntries = ''too_many_async_envelope_entries''"
| "envelope_error_as_str EnvStringTooLong = ''async_envelope_string_too_long''"
| "envelope_error_as_str EnvDuplicateField = ''duplicate_async_envelope_field''"
| "envelope_error_as_str EnvNonCanonical = ''noncanonical_async_envelope''"
| "envelope_error_as_str InvalidEnvelope = ''invalid_async_envelope''"
| "envelope_error_as_str UnsupportedProtocol = ''unsupported_async_protocol''"
| "envelope_error_as_str SubscriptionMismatch = ''async_subscription_mismatch''"
| "envelope_error_as_str StreamMismatch = ''async_stream_mismatch''"
| "envelope_error_as_str PayloadTooLarge = ''async_payload_too_large''"
| "envelope_error_as_str UnsupportedPayload = ''unsupported_async_payload''"
| "envelope_error_as_str InvalidPayload = ''invalid_async_payload''"
| "envelope_error_as_str UnregisteredPayload = ''unregistered_async_payload''"
| "envelope_error_as_str EnvMembershipExpired = ''async_membership_expired''"

fun map_envelope_canonical :: "canonical_error \<Rightarrow> envelope_error" where
  "map_envelope_canonical TooLarge = EnvTooLarge"
| "map_envelope_canonical TooDeep = EnvTooDeep"
| "map_envelope_canonical TooManyEntries = EnvTooManyEntries"
| "map_envelope_canonical StringTooLong = EnvStringTooLong"
| "map_envelope_canonical DuplicateKey = EnvDuplicateField"
| "map_envelope_canonical InvalidUtf8 = InvalidEnvelope"
| "map_envelope_canonical InvalidNumber = InvalidEnvelope"
| "map_envelope_canonical InvalidJson = InvalidEnvelope"
| "map_envelope_canonical SerializationFailed = InvalidEnvelope"

definition supported_async_protocol_versions :: "u16 list" where
  "supported_async_protocol_versions = [1]"

definition max_async_payload_bytes :: usize where "max_async_payload_bytes = 16 * 1024 * 1024"

definition max_async_envelope_bytes :: usize where
  "max_async_envelope_bytes = max_async_payload_bytes + 4 * 1024"

record async_codec_limits =
  cl_input :: input_limits
  cl_max_payload_bytes :: usize

definition async_codec_limits_new ::
  "usize \<Rightarrow> usize \<Rightarrow> usize \<Rightarrow> usize \<Rightarrow> usize \<Rightarrow> async_codec_limits option" where
  "async_codec_limits_new max_bytes max_depth max_entries max_string_bytes max_payload_bytes =
     (case input_limits_new max_bytes max_depth max_entries max_string_bytes of
        None \<Rightarrow> None
      | Some input \<Rightarrow>
          if max_payload_bytes = 0 \<or> max_payload_bytes > max_bytes then None
          else Some \<lparr>cl_input = input, cl_max_payload_bytes = max_payload_bytes\<rparr>)"

text \<open>The two profiles; the code's \<open>unreachable!\<close> arms are the \<open>None\<close> they never are.\<close>

definition async_codec_limits_v1 :: "async_codec_limits option" where
  "async_codec_limits_v1 =
     async_codec_limits_new max_async_envelope_bytes hard_max_depth hard_max_entries
       max_async_payload_bytes max_async_payload_bytes"

definition async_codec_limits_hostile :: "async_codec_limits option" where
  "async_codec_limits_hostile = async_codec_limits_new 512 4 16 128 256"

definition v1_limits :: async_codec_limits where
  "v1_limits =
     \<lparr>cl_input = \<lparr>il_max_bytes = max_async_envelope_bytes, il_max_depth = hard_max_depth,
        il_max_entries = hard_max_entries, il_max_string_bytes = max_async_payload_bytes\<rparr>,
      cl_max_payload_bytes = max_async_payload_bytes\<rparr>"

lemma async_codec_limits_v1: "async_codec_limits_v1 = Some v1_limits"
  by (simp add: async_codec_limits_v1_def async_codec_limits_new_def input_limits_new_def v1_limits_def
      max_async_envelope_bytes_def max_async_payload_bytes_def hard_max_input_bytes_def hard_max_depth_def
      hard_max_entries_def)

subsection \<open>Subscription identity\<close>

definition subscription_id_from_bytes :: "u8 list \<Rightarrow> envelope_error + u8 list" where
  "subscription_id_from_bytes value =
     (if 16 \<le> length value \<and> length value \<le> 32 then Inr value else Inl InvalidEnvelope)"

definition subscription_id_parse :: "base64_engine \<Rightarrow> string \<Rightarrow> envelope_error + u8 list" where
  "subscription_id_parse e value =
     (if \<not> (22 \<le> length value \<and> length value \<le> 43)
         \<or> \<not> list_all (\<lambda>c. is_ascii_alphanumeric c \<or> c \<in> {CHR ''-'', CHR ''_''}) value
      then Inl InvalidEnvelope
      else case b64_decode e value of
        None \<Rightarrow> Inl InvalidEnvelope
      | Some bytes \<Rightarrow> and_then (subscription_id_from_bytes bytes) (\<lambda>identity.
          if b64_encode e identity \<noteq> value then Inl InvalidEnvelope else Inr identity))"

subsection \<open>Presentation signals\<close>

datatype signal_schema = SignalNull | SignalBoolean | SignalI64 | SignalU64 | SignalString

record signal_contract =
  sc_scope :: string
  sc_name :: string
  sc_schema :: signal_schema

definition max_presentation_signals :: nat where "max_presentation_signals = 64"

definition signal_contracts_new :: "signal_contract list \<Rightarrow> envelope_error + signal_contract list" where
  "signal_contracts_new signals =
     (if length signals > max_presentation_signals then Inl UnregisteredPayload
      else let sorted = sort_key (\<lambda>c. (sc_scope c, sc_name c)) signals in
           if windows2_any (\<lambda>l r. sc_scope l = sc_scope r \<and> sc_name l = sc_name r) sorted
           then Inl UnregisteredPayload else Inr sorted)"

text \<open>\<open>slice::binary_search_by\<close>: halving to one candidate, then one last comparison.\<close>

datatype ordering = Less | Equal | Greater

definition compare_keys :: "'a :: linorder \<Rightarrow> 'a \<Rightarrow> ordering" where
  "compare_keys x y = (if x < y then Less else if x = y then Equal else Greater)"

function binary_search_base :: "('a \<Rightarrow> ordering) \<Rightarrow> 'a list \<Rightarrow> nat \<Rightarrow> nat \<Rightarrow> nat" where
  "binary_search_base f xs count base =
     (if count \<le> 1 then base
      else binary_search_base f xs (count - count div 2)
             (if f (xs ! (base + count div 2)) = Greater then base else base + count div 2))"
  by pat_completeness auto
termination
  by (relation "measure (\<lambda>(f, xs, count, base). count)") auto

declare binary_search_base.simps [simp del]

definition binary_search_by :: "('a \<Rightarrow> ordering) \<Rightarrow> 'a list \<Rightarrow> nat option" where
  "binary_search_by f xs =
     (if xs = [] then None
      else let base = binary_search_base f xs (length xs) 0 in
           if f (xs ! base) = Equal then Some base else None)"

definition signal_contracts_find ::
  "signal_contract list \<Rightarrow> string \<Rightarrow> string \<Rightarrow> signal_contract option" where
  "signal_contracts_find signals scope name =
     map_option (\<lambda>index. signals ! index)
       (binary_search_by (\<lambda>c. compare_keys (sc_scope c, sc_name c) (scope, name)) signals)"

subsection \<open>The payload union\<close>

record browser_event =
  be_name :: string
  be_schema_version :: u16
  be_target :: event_target
  be_payload :: canonical_value
  be_maximum_fanout :: u16

record presentation_signal =
  ps_scope :: string
  ps_name :: string
  ps_value :: canonical_value
  ps_schema :: signal_schema

record topic_change =
  tc_topic :: string
  tc_generation :: u64
  tc_cursor :: u64
  tc_props :: "string list"

definition topic_change_new ::
  "string \<Rightarrow> u64 \<Rightarrow> u64 \<Rightarrow> string list \<Rightarrow> envelope_error + topic_change" where
  "topic_change_new topic generation cursor props =
     (case topic_name_parse topic of
        Inl e \<Rightarrow> Inl InvalidPayload
      | Inr parsed \<Rightarrow>
          if generation = 0 \<or> unat generation > max_safe_integer \<or> unat cursor > max_safe_integer
             \<or> length props > 256 \<or> list_ex (\<lambda>name. name = [] \<or> length name > 256) props
          then Inl InvalidPayload
          else Inr \<lparr>tc_topic = topic, tc_generation = generation, tc_cursor = cursor,
                    tc_props = remdups_adj (sort props)\<rparr>)"

datatype completion_reason = ServerShutdown | SubscriptionRetired | StreamCompleted

datatype stream_error_code = CodeAuthorizationLost | ReplayUnavailable | CodeBackpressure | StreamUnavailable

datatype async_payload =
    PayRefresh
  | PayTopicChange topic_change
  | PayBrowserEvent browser_event
  | PaySignal presentation_signal
  | PayHeartbeat
  | PayComplete completion_reason
  | PayError stream_error_code

type_synonym envelope = "async_payload async_envelope"

text \<open>What is registered for the membership; \<open>'v\<close> is its verified descriptor.\<close>

record 'v registration =
  rg_verified :: 'v
  rg_events :: "event_contract list"
  rg_signals :: "signal_contract list"

type_synonym 'v envelope_context = "'v registration async_context"

subsection \<open>Registration checks\<close>

definition is_integral :: "rat \<Rightarrow> bool" where
  "is_integral q = (q = of_int \<lfloor>q\<rfloor>)"

fun schema_matches :: "browser_payload_schema \<Rightarrow> canonical_value \<Rightarrow> bool" where
  "schema_matches SchemaJson v = True"
| "schema_matches SchemaNull CNull = True"
| "schema_matches SchemaBoolean (CBool b) = True"
| "schema_matches SchemaString (CString s) = True"
| "schema_matches SchemaI64 (CNumber q) = (is_integral q \<and> \<bar>q\<bar> \<le> of_nat max_safe_integer)"
| "schema_matches SchemaU64 (CNumber q) = (is_integral q \<and> 0 \<le> q \<and> q \<le> of_nat max_safe_integer)"
| "schema_matches SchemaF64 (CNumber q) = True"
| "schema_matches _ _ = False"

fun signal_schema_matches :: "signal_schema \<Rightarrow> canonical_value \<Rightarrow> bool" where
  "signal_schema_matches SignalNull CNull = True"
| "signal_schema_matches SignalBoolean (CBool b) = True"
| "signal_schema_matches SignalString (CString s) = True"
| "signal_schema_matches SignalI64 (CNumber q) = (is_integral q \<and> \<bar>q\<bar> \<le> of_nat max_safe_integer)"
| "signal_schema_matches SignalU64 (CNumber q) =
     (is_integral q \<and> 0 \<le> q \<and> q \<le> of_nat max_safe_integer)"
| "signal_schema_matches _ _ = False"

definition registered_event_contract ::
  "'v envelope_context \<Rightarrow> string \<Rightarrow> envelope_error + event_contract" where
  "registered_event_contract c name =
     ok_or UnregisteredPayload (List.find (\<lambda>k. ec_name k = name) (rg_events (ac_registered c)))"

definition validate_event ::
  "event_contract \<Rightarrow> u16 \<Rightarrow> event_target \<Rightarrow> canonical_value \<Rightarrow> envelope_error + unit" where
  "validate_event k schema_version target payload =
     (if ec_version k \<noteq> schema_version \<or> target \<notin> set (ec_targets k)
         \<or> \<not> schema_matches (ec_schema k) payload
      then Inl UnregisteredPayload else Inr ())"

definition validate_registered_event ::
  "'v envelope_context \<Rightarrow> browser_event \<Rightarrow> envelope_error + unit" where
  "validate_registered_event c event =
     and_then (registered_event_contract c (be_name event)) (\<lambda>k.
       if be_maximum_fanout event \<noteq> ec_maximum_fanout k then Inl UnregisteredPayload
       else validate_event k (be_schema_version event) (be_target event) (be_payload event))"

definition registered_signal_contract ::
  "'v envelope_context \<Rightarrow> string \<Rightarrow> string \<Rightarrow> envelope_error + signal_contract" where
  "registered_signal_contract c scope name =
     ok_or UnregisteredPayload (signal_contracts_find (rg_signals (ac_registered c)) scope name)"

definition validate_registered_signal ::
  "'v envelope_context \<Rightarrow> presentation_signal \<Rightarrow> envelope_error + unit" where
  "validate_registered_signal c signal =
     and_then (registered_signal_contract c (ps_scope signal) (ps_name signal)) (\<lambda>k.
       if ps_schema signal \<noteq> sc_schema k \<or> \<not> signal_schema_matches (sc_schema k) (ps_value signal)
       then Inl UnregisteredPayload else Inr ())"

fun validate_registered_payload :: "'v envelope_context \<Rightarrow> async_payload \<Rightarrow> envelope_error + unit" where
  "validate_registered_payload c (PayBrowserEvent event) = validate_registered_event c event"
| "validate_registered_payload c (PaySignal signal) = validate_registered_signal c signal"
| "validate_registered_payload c _ = Inr ()"

end
