(* ===== verification/Async_Codec.thy ===== *)
theory Async_Codec
  imports Async_Envelope
begin

text \<open>
  The wire form of an envelope: \<open>payload_value\<close>, \<open>encode_async_envelope\<close>, the preflight scanner,
  \<open>parse_payload\<close> and \<open>decode_async_envelope\<close> of \<open>async_updates/envelope.rs\<close>.
\<close>

subsection \<open>The canonical value of a payload\<close>

definition object_value :: "(string \<times> canonical_value) list \<Rightarrow> canonical_value" where
  "object_value entries = CObject (bt_collect entries)"

fun target_name :: "event_target \<Rightarrow> string" where
  "target_name SelfIsland = ''self''"
| "target_name TargetParent = ''parent''"
| "target_name TargetChild = ''child''"
| "target_name (NamedIsland slot) = ''named_island:'' @ slot"
| "target_name TargetDocument = ''document''"
| "target_name (TargetBrowser listener) = ''browser:'' @ listener"

text \<open>\<open>CanonicalValue::number(v as f64)\<close>: a \<open>u16\<close> and an integer up to \<open>2 ^ 53\<close> convert exactly.\<close>

definition canonical_number :: "rat \<Rightarrow> envelope_error + canonical_value" where
  "canonical_number q = map_err map_envelope_canonical (map_ok CNumber (canonical_number_new (Finite q)))"

fun completion_reason_str :: "completion_reason \<Rightarrow> string" where
  "completion_reason_str ServerShutdown = ''server_shutdown''"
| "completion_reason_str SubscriptionRetired = ''subscription_retired''"
| "completion_reason_str StreamCompleted = ''stream_completed''"

fun stream_error_code_str :: "stream_error_code \<Rightarrow> string" where
  "stream_error_code_str CodeAuthorizationLost = ''authorization_lost''"
| "stream_error_code_str ReplayUnavailable = ''replay_unavailable''"
| "stream_error_code_str CodeBackpressure = ''backpressure''"
| "stream_error_code_str StreamUnavailable = ''stream_unavailable''"

fun payload_value :: "async_payload \<Rightarrow> envelope_error + canonical_value" where
  "payload_value PayRefresh =
     Inr (object_value [(''kind'', CString ''refresh''), (''name'', CString ''refresh'')])"
| "payload_value (PayTopicChange t) =
     and_then (canonical_number (of_nat (unat (tc_generation t)))) (\<lambda>generation.
     and_then (canonical_number (of_nat (unat (tc_cursor t)))) (\<lambda>cursor.
       Inr (object_value
         [(''kind'', CString ''topic_change''), (''topic'', CString (tc_topic t)),
          (''generation'', generation), (''cursor'', cursor),
          (''props'', CArray (map CString (tc_props t)))])))"
| "payload_value (PayBrowserEvent e) =
     and_then (canonical_number (of_nat (unat (be_schema_version e)))) (\<lambda>version.
       Inr (object_value
         [(''event'', CString (be_name e)), (''kind'', CString ''browser_event''),
          (''payload'', be_payload e), (''schema_version'', version),
          (''target'', CString (target_name (be_target e)))]))"
| "payload_value (PaySignal s) =
     Inr (object_value
       [(''kind'', CString ''presentation_signal''), (''name'', CString (ps_name s)),
        (''scope'', CString (ps_scope s)), (''value'', ps_value s)])"
| "payload_value PayHeartbeat = Inr (object_value [(''kind'', CString ''heartbeat'')])"
| "payload_value (PayComplete reason) =
     Inr (object_value
       [(''kind'', CString ''complete''), (''reason'', CString (completion_reason_str reason))])"
| "payload_value (PayError code) =
     Inr (object_value
       [(''code'', CString (stream_error_code_str code)), (''kind'', CString ''error'')])"

subsection \<open>The encoder\<close>

definition position_value :: "stream_position \<Rightarrow> canonical_value" where
  "position_value p = object_value
     [(''epoch'', CString (u64_to_string (sp_epoch p))),
      (''sequence'', CString (u64_to_string (sp_sequence p)))]"

definition envelope_value ::
  "base64_engine \<Rightarrow> canonical_value \<Rightarrow> envelope \<Rightarrow> envelope_error + canonical_value" where
  "envelope_value b payload envelope =
     and_then (canonical_number (of_nat (unat (env_protocol_version envelope)))) (\<lambda>version.
       Inr (object_value
         [(''payload'', payload), (''position'', position_value (env_position envelope)),
          (''protocol_version'', version), (''stream'', CString (env_stream envelope)),
          (''subscription'', CString (b64_encode b (env_subscription envelope)))]))"

definition encode_async_envelope ::
  "json_text \<Rightarrow> base64_engine \<Rightarrow> envelope \<Rightarrow> async_codec_limits \<Rightarrow> envelope_error + u8 list" where
  "encode_async_envelope j b envelope limits =
     and_then (payload_value (env_payload envelope)) (\<lambda>payload.
     and_then (map_err map_envelope_canonical (to_canonical_bytes j payload (cl_input limits))) (\<lambda>payload_bytes.
       if length payload_bytes > cl_max_payload_bytes limits then Inl PayloadTooLarge
       else and_then (envelope_value b payload envelope) (\<lambda>value.
              map_err map_envelope_canonical (to_canonical_bytes j value (cl_input limits)))))"

definition canonical_async_payload_len :: "json_text \<Rightarrow> envelope \<Rightarrow> envelope_error + usize" where
  "canonical_async_payload_len j envelope =
     and_then (payload_value (env_payload envelope)) (\<lambda>payload.
       map_err map_envelope_canonical (map_ok length (to_canonical_bytes j payload (cl_input v1_limits))))"

subsection \<open>Reading fields\<close>

fun parse_object :: "envelope_error \<Rightarrow> canonical_value \<Rightarrow> envelope_error + (string \<times> canonical_value) list" where
  "parse_object kind (CObject members) = Inr members"
| "parse_object kind _ = Inl kind"

definition require_exact_keys ::
  "(string \<times> canonical_value) list \<Rightarrow> string list \<Rightarrow> envelope_error \<Rightarrow> envelope_error + unit" where
  "require_exact_keys members expected kind =
     (if length members \<noteq> length expected \<or> list_ex (\<lambda>key. map_of members key = None) expected
      then Inl kind else Inr ())"

definition take_field ::
  "string \<Rightarrow> (string \<times> canonical_value) list \<Rightarrow>
   envelope_error + (canonical_value \<times> (string \<times> canonical_value) list)" where
  "take_field key members =
     (case map_of members key of
        None \<Rightarrow> Inl InvalidEnvelope
      | Some v \<Rightarrow> Inr (v, bt_remove key members))"

fun parse_string :: "canonical_value \<Rightarrow> envelope_error + string" where
  "parse_string (CString s) = Inr s"
| "parse_string _ = Inl InvalidEnvelope"

text \<open>\<open>string(take(members, key)?)?\<close>\<close>

definition take_string ::
  "string \<Rightarrow> (string \<times> canonical_value) list \<Rightarrow>
   envelope_error + (string \<times> (string \<times> canonical_value) list)" where
  "take_string key members =
     and_then (take_field key members) (\<lambda>(v, members).
     and_then (parse_string v) (\<lambda>s. Inr (s, members)))"

text \<open>The bound is \<open>u64::MAX as f64\<close>, which is \<open>2 ^ 64\<close>; the cast back saturates.\<close>

fun parse_unsigned :: "canonical_value \<Rightarrow> envelope_error \<Rightarrow> envelope_error + u64" where
  "parse_unsigned (CNumber q) kind =
     (if \<not> is_integral q \<or> q < 0 \<or> q > 2 ^ 64 then Inl kind
      else Inr (if nat \<lfloor>q\<rfloor> < 2 ^ 64 then of_nat (nat \<lfloor>q\<rfloor>) else u64_max))"
| "parse_unsigned _ kind = Inl kind"

text \<open>\<open>u16::try_from\<close>\<close>

definition u16_try_from :: "u64 \<Rightarrow> u16 option" where
  "u16_try_from v = (if unat v < 2 ^ 16 then Some (of_nat (unat v)) else None)"

definition decimal :: "string \<Rightarrow> envelope_error + u64" where
  "decimal value =
     (if value = [] \<or> (length value > 1 \<and> hd value = CHR ''0'') \<or> \<not> list_all is_ascii_digit value
      then Inl InvalidEnvelope
      else ok_or InvalidEnvelope (str_parse_u64 value))"

definition parse_position :: "canonical_value \<Rightarrow> envelope_error + stream_position" where
  "parse_position value =
     and_then (parse_object InvalidEnvelope value) (\<lambda>members.
     and_then (require_exact_keys members [''epoch'', ''sequence''] InvalidEnvelope) (\<lambda>_.
     and_then (take_string ''epoch'' members) (\<lambda>(s, members).
     and_then (decimal s) (\<lambda>epoch.
     and_then (take_string ''sequence'' members) (\<lambda>(s, members).
     and_then (decimal s) (\<lambda>sequence.
       Inr \<lparr>sp_epoch = epoch, sp_sequence = sequence\<rparr>))))))"

fun strip_prefix :: "string \<Rightarrow> string \<Rightarrow> string option" where
  "strip_prefix [] s = Some s"
| "strip_prefix (c # cs) (d # ds) = (if c = d then strip_prefix cs ds else None)"
| "strip_prefix (c # cs) [] = None"

definition parse_target :: "string \<Rightarrow> envelope_error + event_target" where
  "parse_target value =
     (if value = ''self'' then Inr SelfIsland
      else if value = ''parent'' then Inr TargetParent
      else if value = ''child'' then Inr TargetChild
      else if value = ''document'' then Inr TargetDocument
      else case strip_prefix ''named_island:'' value of
        Some slot \<Rightarrow>
          map_ok NamedIsland (map_err (\<lambda>_. UnregisteredPayload) (text_identity_parse IslandSlot slot))
      | None \<Rightarrow>
          (case strip_prefix ''browser:'' value of
             Some listener \<Rightarrow>
               map_ok TargetBrowser
                 (map_err (\<lambda>_. UnregisteredPayload) (text_identity_parse BrowserOperationName listener))
           | None \<Rightarrow> Inl UnregisteredPayload))"

subsection \<open>Reading a payload\<close>

definition parse_browser_event ::
  "(string \<times> canonical_value) list \<Rightarrow> 'v envelope_context \<Rightarrow> envelope_error + browser_event" where
  "parse_browser_event members c =
     and_then (require_exact_keys members
       [''event'', ''kind'', ''payload'', ''schema_version'', ''target''] InvalidPayload) (\<lambda>_.
     and_then (take_string ''event'' members) (\<lambda>(s, members).
     and_then (map_err (\<lambda>_. UnregisteredPayload) (text_identity_parse BrowserOperationName s)) (\<lambda>name.
     and_then (take_field ''schema_version'' members) (\<lambda>(v, members).
     and_then (parse_unsigned v InvalidPayload) (\<lambda>n.
     and_then (ok_or UnregisteredPayload (u16_try_from n)) (\<lambda>schema_version.
     and_then (take_string ''target'' members) (\<lambda>(s, members).
     and_then (parse_target s) (\<lambda>target.
     and_then (take_field ''payload'' members) (\<lambda>(payload, members).
     and_then (registered_event_contract c name) (\<lambda>k.
     and_then (validate_event k schema_version target payload) (\<lambda>_.
       Inr \<lparr>be_name = name, be_schema_version = schema_version, be_target = target,
             be_payload = payload, be_maximum_fanout = ec_maximum_fanout k\<rparr>)))))))))))"

definition parse_presentation_signal ::
  "(string \<times> canonical_value) list \<Rightarrow> 'v envelope_context \<Rightarrow> envelope_error + presentation_signal" where
  "parse_presentation_signal members c =
     and_then (require_exact_keys members [''kind'', ''name'', ''scope'', ''value''] InvalidPayload) (\<lambda>_.
     and_then (take_string ''name'' members) (\<lambda>(s, members).
     and_then (map_err (\<lambda>_. UnregisteredPayload) (signal_name_parse s)) (\<lambda>name.
     and_then (take_string ''scope'' members) (\<lambda>(s, members).
     and_then (map_err (\<lambda>_. UnregisteredPayload) (signal_scope_parse s)) (\<lambda>scope.
     and_then (take_field ''value'' members) (\<lambda>(v, members).
     and_then (registered_signal_contract c scope name) (\<lambda>k.
       if \<not> signal_schema_matches (sc_schema k) v then Inl UnregisteredPayload
       else Inr \<lparr>ps_scope = scope, ps_name = name, ps_value = v, ps_schema = sc_schema k\<rparr>)))))))"

text \<open>An integral number between a floor and \<open>MAX_SAFE_INTEGER\<close>, cast to \<open>u64\<close>.\<close>

fun parse_safe_integer :: "rat \<Rightarrow> canonical_value \<Rightarrow> envelope_error + u64" where
  "parse_safe_integer lo (CNumber q) =
     (if \<not> is_integral q \<or> q < lo \<or> q > of_nat max_safe_integer then Inl InvalidPayload
      else Inr (of_nat (nat \<lfloor>q\<rfloor>)))"
| "parse_safe_integer lo _ = Inl InvalidPayload"

fun parse_array :: "canonical_value \<Rightarrow> envelope_error + canonical_value list" where
  "parse_array (CArray values) = Inr values"
| "parse_array _ = Inl InvalidPayload"

definition parse_topic_change ::
  "(string \<times> canonical_value) list \<Rightarrow> envelope_error + topic_change" where
  "parse_topic_change members =
     and_then (require_exact_keys members
       [''kind'', ''topic'', ''generation'', ''cursor'', ''props''] InvalidPayload) (\<lambda>_.
     and_then (take_string ''topic'' members) (\<lambda>(topic, members).
     and_then (take_field ''generation'' members) (\<lambda>(v, members).
     and_then (parse_safe_integer 1 v) (\<lambda>generation.
     and_then (take_field ''cursor'' members) (\<lambda>(v, members).
     and_then (parse_safe_integer 0 v) (\<lambda>cursor.
     and_then (take_field ''props'' members) (\<lambda>(v, members).
     and_then (parse_array v) (\<lambda>vs.
     and_then (collect_ok parse_string vs) (\<lambda>props.
       topic_change_new topic generation cursor props)))))))))"

definition parse_completion_reason :: "string \<Rightarrow> envelope_error + completion_reason" where
  "parse_completion_reason s =
     (if s = ''server_shutdown'' then Inr ServerShutdown
      else if s = ''subscription_retired'' then Inr SubscriptionRetired
      else if s = ''stream_completed'' then Inr StreamCompleted
      else Inl InvalidPayload)"

definition parse_stream_error_code :: "string \<Rightarrow> envelope_error + stream_error_code" where
  "parse_stream_error_code s =
     (if s = ''authorization_lost'' then Inr CodeAuthorizationLost
      else if s = ''replay_unavailable'' then Inr ReplayUnavailable
      else if s = ''backpressure'' then Inr CodeBackpressure
      else if s = ''stream_unavailable'' then Inr StreamUnavailable
      else Inl InvalidPayload)"

definition parse_payload_fields ::
  "string \<Rightarrow> (string \<times> canonical_value) list \<Rightarrow> 'v envelope_context \<Rightarrow> envelope_error + async_payload" where
  "parse_payload_fields kind members c =
     (if kind = ''refresh'' then
        and_then (require_exact_keys members [''kind'', ''name''] InvalidPayload) (\<lambda>_.
        and_then (take_string ''name'' members) (\<lambda>(name, members).
          if name \<noteq> ''refresh'' then Inl InvalidPayload else Inr PayRefresh))
      else if kind = ''topic_change'' then map_ok PayTopicChange (parse_topic_change members)
      else if kind = ''browser_event'' then map_ok PayBrowserEvent (parse_browser_event members c)
      else if kind = ''presentation_signal'' then map_ok PaySignal (parse_presentation_signal members c)
      else if kind = ''heartbeat'' then
        and_then (require_exact_keys members [''kind''] InvalidPayload) (\<lambda>_. Inr PayHeartbeat)
      else if kind = ''complete'' then
        and_then (require_exact_keys members [''kind'', ''reason''] InvalidPayload) (\<lambda>_.
        and_then (take_string ''reason'' members) (\<lambda>(s, members).
          map_ok PayComplete (parse_completion_reason s)))
      else if kind = ''error'' then
        and_then (require_exact_keys members [''code'', ''kind''] InvalidPayload) (\<lambda>_.
        and_then (take_string ''code'' members) (\<lambda>(s, members).
          map_ok PayError (parse_stream_error_code s)))
      else Inl UnsupportedPayload)"

definition parse_payload ::
  "canonical_value \<Rightarrow> 'v envelope_context \<Rightarrow> envelope_error + async_payload" where
  "parse_payload value c =
     and_then (parse_object InvalidPayload value) (\<lambda>members.
     and_then (and_then (ok_or InvalidPayload (map_of members ''kind'')) parse_string) (\<lambda>kind.
       parse_payload_fields kind members c))"

end
