(* ===== verification/Sequence_Props.thy ===== *)
theory Sequence_Props
  imports Sequence
begin

text \<open>
  The continuity of one logical subscription: the order on positions, what each operation of the
  machine does to the position it stands at, and a whole life of dispatches, replays and host
  baselines with the log of the envelopes the host accepted.
\<close>

subsection \<open>The order on positions\<close>

lemma precedes_irrefl [simp]: "\<not> position_precedes p p"
  by (simp add: position_precedes_def)

lemma precedes_trans [trans]:
  "position_precedes p q \<Longrightarrow> position_precedes q r \<Longrightarrow> position_precedes p r"
  by (auto simp: position_precedes_def)

lemma precedes_total: "position_precedes p q \<or> p = q \<or> position_precedes q p"
  by (auto simp: position_precedes_def intro: stream_position.equality)

definition position_covers :: "stream_position \<Rightarrow> stream_position \<Rightarrow> bool" where
  "position_covers p q = (\<not> position_precedes p q)"

lemma covers_refl [simp]: "position_covers p p"
  by (simp add: position_covers_def)

lemma covers_precedes: "position_covers p q \<Longrightarrow> position_precedes p r \<Longrightarrow> position_precedes q r"
  using precedes_total precedes_trans unfolding position_covers_def by metis

lemma covers_trans [trans]: "position_covers p q \<Longrightarrow> position_covers q r \<Longrightarrow> position_covers p r"
  using precedes_total precedes_trans unfolding position_covers_def by metis

lemma precedes_covers: "position_precedes p q \<Longrightarrow> position_covers q p"
  using precedes_trans precedes_irrefl unfolding position_covers_def by blast

text \<open>The next position of the same epoch, where there is one.\<close>

definition next_position :: "stream_position \<Rightarrow> stream_position \<Rightarrow> bool" where
  "next_position p q = (sp_epoch q = sp_epoch p \<and> unat (sp_sequence q) = Suc (unat (sp_sequence p)))"

lemma next_precedes: "next_position p q \<Longrightarrow> position_precedes p q"
  by (auto simp: next_position_def position_precedes_def word_less_nat_alt)

fun consecutive :: "stream_position \<Rightarrow> stream_position list \<Rightarrow> bool" where
  "consecutive p [] = True"
| "consecutive p (q # qs) = (next_position p q \<and> consecutive q qs)"

lemma consecutive_append: "consecutive p (xs @ ys) = (consecutive p xs \<and> consecutive (last (p # xs)) ys)"
  by (induction xs arbitrary: p) auto

lemma consecutive_sorted: "consecutive p qs \<Longrightarrow> sorted_wrt position_precedes (p # qs)"
proof (induction qs arbitrary: p)
  case (Cons q qs)
  then have s: "sorted_wrt position_precedes (q # qs)" and pq: "position_precedes p q"
    using next_precedes by auto
  then have "\<forall>r \<in> set qs. position_precedes p r" using precedes_trans [OF pq] by auto
  then show ?case using s pq by simp
qed simp

subsection \<open>Observation\<close>

lemma word_successor: "\<not> a + 1 \<le> (a :: u64) \<Longrightarrow> unat (a + 1) = Suc (unat a)"
  using unatSuc [of a] by (cases "1 + a = 0") (auto simp: add.commute)

lemma successor_word: "unat b = Suc (unat (a :: u64)) \<Longrightarrow> b = a + 1"
proof -
  assume "unat b = Suc (unat a)"
  then have "of_nat (unat b) = (of_nat (Suc (unat a)) :: u64)" by simp
  then show "b = a + 1" by (simp add: add.commute)
qed

text \<open>Applying is for the next position of a current machine only; nothing else moves its position.\<close>

lemma observe_apply:
  "fst (observe_position q m) = SeqApply \<longleftrightarrow> sm_state m = SeqCurrent \<and> next_position (sm_current m) q"
proof
  assume "fst (observe_position q m) = SeqApply"
  then have "sm_state m = SeqCurrent" "sp_epoch q = sp_epoch (sm_current m)"
    "sp_sequence q = sp_sequence (sm_current m) + 1" "\<not> sp_sequence q \<le> sp_sequence (sm_current m)"
    by (auto simp: observe_position_def split: if_splits) (cases "sm_state m"; simp)
  then show "sm_state m = SeqCurrent \<and> next_position (sm_current m) q"
    using word_successor by (simp add: next_position_def)
next
  assume "sm_state m = SeqCurrent \<and> next_position (sm_current m) q"
  moreover from this have "sp_sequence q = sp_sequence (sm_current m) + 1"
    using successor_word by (simp add: next_position_def)
  ultimately show "fst (observe_position q m) = SeqApply"
    by (auto simp: observe_position_def next_position_def word_le_nat_alt)
qed

lemma observe_keeps: "sm_current (snd (observe_position q m)) = sm_current m
    \<and> sm_context (snd (observe_position q m)) = sm_context m"
  by (auto simp: observe_position_def sequence_degrade_def record_high_water_def Let_def)

lemma observe_apply_same: "fst (observe_position q m) = SeqApply \<Longrightarrow> snd (observe_position q m) = m"
  by (auto simp: observe_position_def split: if_splits)

subsection \<open>Replay\<close>

lemma checked_next_position:
  "checked_add_u64 (sp_sequence p) 1 = Some e \<Longrightarrow>
   next_position p q \<longleftrightarrow> sp_epoch q = sp_epoch p \<and> sp_sequence q = e"
  using checked_add_u64_1 [of "sp_sequence p" e] by (auto simp: next_position_def word_unat_eq_iff)

lemma no_next_position: "checked_add_u64 (sp_sequence p) 1 = None \<Longrightarrow> \<not> next_position p q"
  using checked_add_u64_None_iff [of "sp_sequence p"] unat_u64_less [of "sp_sequence q"]
  by (auto simp: next_position_def)

text \<open>The validation loop accepts exactly the consecutive transcripts, and answers their last position.\<close>

lemma replay_positions_loop_eq:
  "checked_add_u64 (sp_sequence p) 1 = Some e \<Longrightarrow>
   replay_positions_loop (sp_epoch p) e qs through
     = (if consecutive p qs then Some (last (through # qs)) else None)"
proof (induction qs arbitrary: p e through)
  case (Cons q qs)
  note step = checked_next_position [OF Cons.prems, of q]
  show ?case
  proof (cases "next_position p q")
    case False
    then show ?thesis using step by auto
  next
    case True
    then have q: "sp_epoch q = sp_epoch p" "sp_sequence q = e" using step by auto
    show ?thesis
    proof (cases "checked_add_u64 (sp_sequence q) 1")
      case None
      then show ?thesis using True q no_next_position [OF None] by (cases qs) auto
    next
      case (Some e')
      then show ?thesis using True q Cons.IH [OF Some, of q] by auto
    qed
  qed
qed simp

lemma replay_requirement_ok:
  assumes "replay_requirement m pressure = Inr (required, restore)"
  shows "sp_epoch required = sp_epoch (sm_current m)
    \<and> restore = (sm_state m = SeqDegraded)
    \<and> (restore \<longrightarrow> sm_degradation m = Some DegradedGap \<and> sm_high_water m = Some required)
    \<and> (\<not> restore \<longrightarrow> pressure = Some required \<and> position_precedes (sm_current m) required)"
  using assms by (auto simp: replay_requirement_def position_precedes_def split: option.splits if_splits)

lemma prepare_positions_ok:
  assumes "prepare_replay_positions m qs pressure = Inr recovery"
  shows "qs \<noteq> [] \<and> length qs \<le> max_replay_transcript_envelopes \<and> consecutive (sm_current m) qs
    \<and> rr_through recovery = last qs \<and> rr_total recovery = length qs \<and> rr_applied recovery = 0
    \<and> replay_requirement m pressure
        = Inr (rr_effective_high_water recovery, rr_restore_on_finish recovery)
    \<and> \<not> sp_sequence (last qs) < sp_sequence (rr_effective_high_water recovery)"
proof -
  obtain required restore where req: "replay_requirement m pressure = Inr (required, restore)"
    using assms by (auto simp: prepare_replay_positions_def Let_def split: if_splits)
  obtain e where e: "checked_add_u64 (sp_sequence (sm_current m)) 1 = Some e"
    using assms req by (auto simp: prepare_replay_positions_def Let_def split: if_splits option.splits)
  show ?thesis using assms req e replay_positions_loop_eq [OF e, of qs "sm_current m"]
    by (auto simp: prepare_replay_positions_def Let_def split: if_splits)
qed

lemma prepare_replay_ok:
  "prepare_replay m es pressure = Inr recovery \<Longrightarrow>
   prepare_replay_positions m (map env_position es) pressure = Inr recovery
   \<and> (\<forall>e \<in> set es. matches_scope m e)"
  by (auto simp: prepare_replay_def list_ex_iff split: if_splits)

text \<open>The last position of an accepted transcript covers the high-water it had to reach.\<close>

lemma prepare_covers:
  assumes "prepare_replay_positions m qs pressure = Inr recovery"
  shows "position_covers (rr_through recovery) (rr_effective_high_water recovery)"
proof -
  note ok = prepare_positions_ok [OF assms]
  have epoch: "\<forall>q \<in> set (p # qs'). sp_epoch q = sp_epoch p" if "consecutive p qs'" for p qs'
    using that by (induction qs' arbitrary: p) (auto simp: next_position_def)
  have last: "sp_epoch (last qs) = sp_epoch (sm_current m)" using ok epoch [of "sm_current m" qs] by simp
  have required: "sp_epoch (rr_effective_high_water recovery) = sp_epoch (sm_current m)"
    using replay_requirement_ok [of m pressure] ok by simp
  show ?thesis using ok last required by (simp add: position_covers_def position_precedes_def)
qed

lemma replay_entry_ok:
  assumes "dispatch_replay_entry port d now recovery m h = (Inr u, recovery', m', h')"
  shows "recovery' = recovery\<lparr>rr_applied := rr_applied recovery + 1\<rparr>
    \<and> m' = m\<lparr>sm_current := env_position (dl_envelope d)\<rparr>
    \<and> dl_context d = sm_context m \<and> port d h = (Inr (), h')"
  using assms
  by (auto simp: dispatch_replay_entry_def commit_replay_position_def Let_def split: if_splits prod.splits sum.splits)

lemma replay_entry_error:
  assumes "dispatch_replay_entry port d now recovery m h = (Inl e, recovery', m', h')"
  shows "recovery' = recovery \<and> m' = m \<and> re_applied e = rr_applied recovery \<and> re_current e = sm_current m"
  using assms
  by (auto simp: dispatch_replay_entry_def commit_replay_position_def sequence_recovery_error_def Let_def
      split: if_splits prod.splits sum.splits)

subsection \<open>Dispatch and refresh\<close>

lemma dispatch_cases:
  assumes "sequence_dispatch port d now m h = (r, m', h')"
  obtains "r = Inr SeqApply" "sm_state m = SeqCurrent"
      "next_position (sm_current m) (env_position (dl_envelope d))"
      "m' = m\<lparr>sm_current := env_position (dl_envelope d)\<rparr>"
      "port d h = (Inr (), h')" "dl_context d = sm_context m" "now < ac_expires_at (dl_context d)"
    | "r \<noteq> Inr SeqApply" "sm_current m' = sm_current m" "sm_context m' = sm_context m"
proof (cases "delivery_is_current_at d now \<and> dl_context d = sm_context m \<and> matches_scope m (dl_envelope d)")
  case False
  then show ?thesis using that(2) assms by (auto simp: sequence_dispatch_def split: if_splits)
next
  case True
  obtain disp m1 where o: "observe_position (env_position (dl_envelope d)) m = (disp, m1)" by fastforce
  note keep = observe_keeps [of "env_position (dl_envelope d)" m]
  show ?thesis
  proof (cases "disp = SeqApply")
    case False
    then show ?thesis using that(2) assms True o keep by (auto simp: sequence_dispatch_def)
  next
    case apply': True
    have m1: "m1 = m"
      using observe_apply_same [of "env_position (dl_envelope d)" m] o apply' by simp
    have nx: "sm_state m = SeqCurrent \<and> next_position (sm_current m) (env_position (dl_envelope d))"
      using observe_apply [of "env_position (dl_envelope d)" m] o apply' by simp
    show ?thesis using that assms True o apply' m1 nx
      by (auto simp: sequence_dispatch_def delivery_is_current_at_def split: prod.splits sum.splits)
  qed
qed

lemma install_cases:
  assumes "install_authoritative_baseline baseline pressure m = (r, m')"
  obtains e where "r = Inl e" "m' = m"
    | disposition where "r = Inr disposition" "m' = sequence_restore baseline m"
        "position_covers baseline (sm_current m)"
        "\<forall>hw. sm_high_water m = Some hw \<longrightarrow> position_covers baseline hw"
        "\<forall>hw. pressure = Some hw \<longrightarrow> position_covers baseline hw"
proof (cases r)
  case (Inl e)
  then show ?thesis using that(1) assms by (auto simp: install_authoritative_baseline_def split: if_splits)
next
  case (Inr disposition)
  have no: "\<not> position_precedes baseline (sm_current m)"
    and m': "m' = sequence_restore baseline m"
    and req: "\<forall>hw. cq_high_water (authoritative_refresh_request m pressure) = Some hw \<longrightarrow> position_covers baseline hw"
    using assms Inr by (auto simp: install_authoritative_baseline_def position_covers_def split: if_splits option.splits)
  have "(\<forall>hw. sm_high_water m = Some hw \<longrightarrow> position_covers baseline hw)
      \<and> (\<forall>hw. pressure = Some hw \<longrightarrow> position_covers baseline hw)"
    using req covers_trans [of baseline]
    by (cases "sm_high_water m"; cases pressure)
      (auto simp: authoritative_refresh_request_def position_covers_def split: if_splits
        dest: precedes_covers [unfolded position_covers_def] intro: precedes_trans)
  then show ?thesis using that(2) Inr m' no by (auto simp: position_covers_def)
qed

end
