(* ===== verification/Pressure_Tracker.thy ===== *)
theory Pressure_Tracker
  imports Sequence_Props
begin

text \<open>
  The pressure tracker of \<open>async_updates/backpressure.rs\<close> with the telemetry counters of
  \<open>async_updates/telemetry.rs\<close>: every position that delivery lost is owed by its membership until a
  recovery reaches past it. The tracker holds at most 512 causes; beyond that it saturates, which
  only a full clear undoes. A membership is of the type \<open>'m\<close> here: the tracker compares it only.
\<close>

subsection \<open>Operations\<close>

definition pressure_cause_kind_count :: usize where "pressure_cause_kind_count = 4"
definition max_document_transport_memberships :: usize where "max_document_transport_memberships = 128"

definition max_tracked_pressure_causes :: usize where
  "max_tracked_pressure_causes = max_document_transport_memberships * pressure_cause_kind_count"

datatype pressure_cause = CauseAdmission | CauseDelivery | CauseSequence | CauseDetached

record 'm unresolved_pressure =
  up_membership :: 'm
  up_cause :: pressure_cause
  up_high_water :: stream_position
  up_recovered_through :: "stream_position option"

record 'm pressure_state =
  pt_unresolved :: "'m unresolved_pressure list"
  pt_saturated :: bool

definition pressure_default :: "'m pressure_state" where
  "pressure_default = \<lparr>pt_unresolved = [], pt_saturated = False\<rparr>"

definition pressure_position_covers :: "stream_position \<Rightarrow> stream_position \<Rightarrow> bool" where
  "pressure_position_covers through required = (\<not> position_precedes through required)"

text \<open>\<open>iter_mut().find(p)\<close>, changing the element found.\<close>

fun update_first :: "('a \<Rightarrow> bool) \<Rightarrow> ('a \<Rightarrow> 'a) \<Rightarrow> 'a list \<Rightarrow> 'a list" where
  "update_first p f [] = []"
| "update_first p f (x # xs) = (if p x then f x # xs else x # update_first p f xs)"

definition raise_high_water :: "stream_position \<Rightarrow> 'm unresolved_pressure \<Rightarrow> 'm unresolved_pressure" where
  "raise_high_water high_water u =
     (if position_precedes (up_high_water u) high_water then u\<lparr>up_high_water := high_water\<rparr> else u)"

definition pressure_record ::
  "'m \<Rightarrow> pressure_cause \<Rightarrow> stream_position \<Rightarrow> 'm pressure_state \<Rightarrow> 'm pressure_state" where
  "pressure_record membership cause high_water s =
     (let same = (\<lambda>u. up_membership u = membership \<and> up_cause u = cause) in
      if list_ex same (pt_unresolved s)
      then s\<lparr>pt_unresolved := update_first same (raise_high_water high_water) (pt_unresolved s)\<rparr>
      else if length (pt_unresolved s) \<ge> max_tracked_pressure_causes then s\<lparr>pt_saturated := True\<rparr>
      else s\<lparr>pt_unresolved := pt_unresolved s @
             [\<lparr>up_membership = membership, up_cause = cause, up_high_water = high_water,
               up_recovered_through = None\<rparr>]\<rparr>)"

definition note_recovery ::
  "'m \<Rightarrow> stream_position \<Rightarrow> 'm unresolved_pressure \<Rightarrow> 'm unresolved_pressure" where
  "note_recovery membership through u =
     (if up_membership u = membership \<and> pressure_position_covers through (up_high_water u)
         \<and> (case up_recovered_through u of
              None \<Rightarrow> True | Some current \<Rightarrow> position_precedes current through)
      then u\<lparr>up_recovered_through := Some through\<rparr> else u)"

definition pressure_record_recovery ::
  "'m \<Rightarrow> stream_position \<Rightarrow> 'm pressure_state \<Rightarrow> 'm pressure_state" where
  "pressure_record_recovery membership through s =
     s\<lparr>pt_unresolved := map (note_recovery membership through) (pt_unresolved s)\<rparr>"

definition pressure_recovered :: "'m unresolved_pressure \<Rightarrow> bool" where
  "pressure_recovered u =
     (case up_recovered_through u of
        None \<Rightarrow> False | Some through \<Rightarrow> pressure_position_covers through (up_high_water u))"

definition pressure_commit_recoveries :: "'m pressure_state \<Rightarrow> 'm pressure_state" where
  "pressure_commit_recoveries s =
     s\<lparr>pt_unresolved := filter (\<lambda>u. \<not> pressure_recovered u) (pt_unresolved s)\<rparr>"

text \<open>\<open>max_by_key\<close>: of equal maxima the last.\<close>

definition position_max :: "stream_position list \<Rightarrow> stream_position option" where
  "position_max ps =
     foldl (\<lambda>best p. case best of
         None \<Rightarrow> Some p
       | Some q \<Rightarrow> if position_precedes p q then Some q else Some p) None ps"

definition required_high_water :: "'m \<Rightarrow> 'm pressure_state \<Rightarrow> stream_position option" where
  "required_high_water membership s =
     position_max (map up_high_water (filter (\<lambda>u. up_membership u = membership) (pt_unresolved s)))"

text \<open>Retirement names a membership by its subscription and binding: a predicate here.\<close>

definition pressure_retire_membership :: "('m \<Rightarrow> bool) \<Rightarrow> 'm pressure_state \<Rightarrow> 'm pressure_state" where
  "pressure_retire_membership retired s =
     s\<lparr>pt_unresolved := filter (\<lambda>u. \<not> retired (up_membership u)) (pt_unresolved s)\<rparr>"

definition pressure_clear :: "'m pressure_state \<Rightarrow> 'm pressure_state" where
  "pressure_clear s = s\<lparr>pt_unresolved := [], pt_saturated := False\<rparr>"

definition pressure_is_degraded :: "'m pressure_state \<Rightarrow> bool" where
  "pressure_is_degraded s = (pt_saturated s \<or> pt_unresolved s \<noteq> [])"

definition pressure_cause_count :: "'m pressure_state \<Rightarrow> usize" where
  "pressure_cause_count s = length (pt_unresolved s)"

subsection \<open>Telemetry\<close>

datatype telemetry_counter =
  CountQueued | CountCoalesced | CountDegraded | CountClosed | CountRejected | CountCleanup

fun telemetry_counter_as_str :: "telemetry_counter \<Rightarrow> string" where
  "telemetry_counter_as_str CountQueued = ''queued''"
| "telemetry_counter_as_str CountCoalesced = ''coalesced''"
| "telemetry_counter_as_str CountDegraded = ''degraded''"
| "telemetry_counter_as_str CountClosed = ''closed''"
| "telemetry_counter_as_str CountRejected = ''rejected''"
| "telemetry_counter_as_str CountCleanup = ''cleanup''"

type_synonym telemetry = "telemetry_counter \<Rightarrow> u64"

definition telemetry_increment :: "telemetry_counter \<Rightarrow> telemetry \<Rightarrow> telemetry" where
  "telemetry_increment counter t = t(counter := saturating_add_u64 (t counter) 1)"

subsection \<open>What the tracker owes\<close>

lemma covers_same: "pressure_position_covers = position_covers"
  by (simp add: fun_eq_iff pressure_position_covers_def position_covers_def)

definition later :: "stream_position option \<Rightarrow> stream_position \<Rightarrow> stream_position option" where
  "later best p = (case best of
      None \<Rightarrow> Some p | Some q \<Rightarrow> if position_precedes p q then Some q else Some p)"

lemma later_covers:
  obtains b where "later best x = Some b" "position_covers b x" "\<And>c. best = Some c \<Longrightarrow> position_covers b c"
proof (cases best)
  case None
  then show ?thesis using that [of x] by (simp add: later_def)
next
  case (Some c)
  show ?thesis
  proof (cases "position_precedes x c")
    case True
    then show ?thesis using that [of c] Some precedes_covers by (simp add: later_def)
  next
    case False
    then show ?thesis using that [of x] Some by (simp add: later_def position_covers_def)
  qed
qed

lemma foldl_later_covers:
  "ps \<noteq> [] \<or> best \<noteq> None \<Longrightarrow> \<exists>q. foldl later best ps = Some q
     \<and> (\<forall>p \<in> set ps. position_covers q p) \<and> (\<forall>b. best = Some b \<longrightarrow> position_covers q b)"
proof (induction ps arbitrary: best)
  case (Cons x xs)
  obtain b where b: "later best x = Some b" "position_covers b x" "\<And>c. best = Some c \<Longrightarrow> position_covers b c"
    using later_covers [of best x] by blast
  obtain q where q: "foldl later (Some b) xs = Some q" "\<forall>p \<in> set xs. position_covers q p"
    "position_covers q b" using Cons.IH [of "Some b"] by auto
  have "\<forall>c. best = Some c \<longrightarrow> position_covers q c" using covers_trans [OF q(3)] b(3) by blast
  then show ?case using b(1) q covers_trans [OF q(3) b(2)] by simp
qed auto

lemma position_max_all:
  assumes "ps \<noteq> []"
  shows "\<exists>q. position_max ps = Some q \<and> (\<forall>p \<in> set ps. position_covers q p)"
proof -
  have "position_max ps = foldl later None ps"
    unfolding position_max_def later_def [abs_def] ..
  then show ?thesis using foldl_later_covers [of ps None] assms by auto
qed

lemma position_max_covers: "p \<in> set ps \<Longrightarrow> \<exists>q. position_max ps = Some q \<and> position_covers q p"
  using position_max_all [of ps] by (metis empty_iff list.set(1))

lemma set_update_first:
  "u \<in> set (update_first p f xs) \<Longrightarrow> u \<in> set xs \<or> (\<exists>v \<in> set xs. p v \<and> u = f v)"
  by (induction xs) (auto split: if_splits)

lemma update_first_keeps:
  "u \<in> set xs \<Longrightarrow> u \<in> set (update_first p f xs) \<or> (p u \<and> f u \<in> set (update_first p f xs))"
  by (induction xs) (auto split: if_splits)

lemma update_first_changes: "list_ex p xs \<Longrightarrow> \<exists>u \<in> set xs. p u \<and> f u \<in> set (update_first p f xs)"
  by (induction xs) auto

lemma length_update_first [simp]: "length (update_first p f xs) = length xs"
  by (induction xs) auto

text \<open>A loss is owed: a cause of the membership whose high-water covers it, or saturation.\<close>

definition pressure_owes :: "'m \<Rightarrow> stream_position \<Rightarrow> 'm pressure_state \<Rightarrow> bool" where
  "pressure_owes membership p s = (pt_saturated s
     \<or> (\<exists>u \<in> set (pt_unresolved s). up_membership u = membership \<and> position_covers (up_high_water u) p))"

text \<open>No recovery noted for the membership reaches as far as \<open>p\<close>.\<close>

definition unrecovered :: "'m \<Rightarrow> stream_position \<Rightarrow> 'm pressure_state \<Rightarrow> bool" where
  "unrecovered membership p s = (\<forall>u \<in> set (pt_unresolved s). up_membership u = membership \<longrightarrow>
     (\<forall>t. up_recovered_through u = Some t \<longrightarrow> \<not> position_covers t p))"

lemma raise_high_water [simp]:
  "up_membership (raise_high_water q u) = up_membership u"
  "up_cause (raise_high_water q u) = up_cause u"
  "up_recovered_through (raise_high_water q u) = up_recovered_through u"
  "position_covers (up_high_water (raise_high_water q u)) q"
  "position_covers (up_high_water (raise_high_water q u)) (up_high_water u)"
  by (auto simp: raise_high_water_def position_covers_def dest: precedes_trans)

lemma note_recovery [simp]:
  "up_membership (note_recovery m t u) = up_membership u"
  "up_high_water (note_recovery m t u) = up_high_water u"
  by (auto simp: note_recovery_def)

lemma record_owes: "pressure_owes membership p (pressure_record membership cause p s)"
proof (cases "list_ex (\<lambda>u. up_membership u = membership \<and> up_cause u = cause) (pt_unresolved s)")
  case True
  obtain u where "up_membership u = membership"
    "raise_high_water p u \<in> set (update_first (\<lambda>u. up_membership u = membership \<and> up_cause u = cause)
       (raise_high_water p) (pt_unresolved s))"
    using update_first_changes [OF True, of "raise_high_water p"] by blast
  then show ?thesis using True
    by (auto simp: pressure_record_def pressure_owes_def intro!: bexI [of _ "raise_high_water p u"])
next
  case False
  then show ?thesis by (simp add: pressure_record_def pressure_owes_def Let_def)
qed

lemma record_keeps_owed:
  assumes "pressure_owes membership p s"
  shows "pressure_owes membership p (pressure_record m cause q s)"
proof (cases "pt_saturated s")
  case True
  then show ?thesis by (simp add: pressure_record_def pressure_owes_def Let_def)
next
  case False
  obtain u where u: "u \<in> set (pt_unresolved s)" "up_membership u = membership"
    "position_covers (up_high_water u) p" using assms False by (auto simp: pressure_owes_def)
  have "position_covers (up_high_water (raise_high_water q u)) p"
    using covers_trans [OF raise_high_water(5) u(3)] .
  then show ?thesis using u update_first_keeps [OF u(1)]
    by (fastforce simp: pressure_record_def pressure_owes_def Let_def)
qed

lemma record_unrecovered:
  "unrecovered membership p s \<Longrightarrow> unrecovered membership p (pressure_record m cause q s)"
  by (auto simp: unrecovered_def pressure_record_def Let_def dest!: set_update_first split: if_splits)

lemma recovery_keeps_owed [simp]:
  "pressure_owes membership p (pressure_record_recovery m t s) = pressure_owes membership p s"
  by (simp add: pressure_owes_def pressure_record_recovery_def)

lemma recovery_unrecovered:
  "unrecovered membership p s \<Longrightarrow> m = membership \<longrightarrow> \<not> position_covers t p \<Longrightarrow>
   unrecovered membership p (pressure_record_recovery m t s)"
  by (auto simp: unrecovered_def pressure_record_recovery_def note_recovery_def split: if_splits)

lemma commit_keeps_owed:
  assumes "pressure_owes membership p s" and un: "unrecovered membership p s"
  shows "pressure_owes membership p (pressure_commit_recoveries s)"
proof (cases "pt_saturated s")
  case False
  obtain u where u: "u \<in> set (pt_unresolved s)" "up_membership u = membership"
    "position_covers (up_high_water u) p" using assms(1) False by (auto simp: pressure_owes_def)
  have "\<not> pressure_recovered u"
    using un u covers_trans [OF _ u(3)]
    by (auto simp: unrecovered_def pressure_recovered_def covers_same split: option.splits)
  then show ?thesis using u by (auto simp: pressure_owes_def pressure_commit_recoveries_def)
qed (simp add: pressure_owes_def pressure_commit_recoveries_def)

lemma commit_unrecovered:
  "unrecovered membership p s \<Longrightarrow> unrecovered membership p (pressure_commit_recoveries s)"
  by (auto simp: unrecovered_def pressure_commit_recoveries_def)

lemma retire_keeps_owed:
  "pressure_owes membership p s \<Longrightarrow> \<not> retired membership \<Longrightarrow>
   pressure_owes membership p (pressure_retire_membership retired s)"
  by (auto simp: pressure_owes_def pressure_retire_membership_def)

lemma retire_unrecovered:
  "unrecovered membership p s \<Longrightarrow> unrecovered membership p (pressure_retire_membership retired s)"
  by (auto simp: unrecovered_def pressure_retire_membership_def)

lemma owes_required:
  assumes "pressure_owes membership p s"
  shows "pressure_is_degraded s \<and> (pt_saturated s
     \<or> (\<exists>hw. required_high_water membership s = Some hw \<and> position_covers hw p))"
proof (cases "pt_saturated s")
  case False
  obtain u where u: "u \<in> set (pt_unresolved s)" "up_membership u = membership"
    "position_covers (up_high_water u) p" using assms False by (auto simp: pressure_owes_def)
  then obtain hw where "required_high_water membership s = Some hw" "position_covers hw (up_high_water u)"
    using position_max_covers [of "up_high_water u"
        "map up_high_water (filter (\<lambda>u. up_membership u = membership) (pt_unresolved s))"]
    by (auto simp: required_high_water_def)
  then show ?thesis using u covers_trans [OF _ u(3)] by (auto simp: pressure_is_degraded_def)
qed (simp add: pressure_is_degraded_def)

end
