(* ===== verification/Async_Backpressure.thy ===== *)
theory Async_Backpressure
  imports Async_Codec Pressure_Tracker Resource_Claims Permit_Pool
begin

text \<open>
  \<open>async_updates/backpressure.rs\<close>: one document's delivery scope. Admission of single messages and
  of whole replay transcripts into the bounded queue, the delivery lease and its two dispatch
  paths, the permits and the activity count, and retirement. What the code shares between the
  scope and its leases behind \<open>Arc\<close>s (queue, pressure, activity, cancellation, permits) is one
  state here; an operation that may reach one of the queue's accounting panics returns \<open>None\<close>.
\<close>

subsection \<open>Codes, dispositions, policy\<close>

definition max_async_buffer_events :: usize where "max_async_buffer_events = 65536"
definition max_async_buffer_bytes :: usize where "max_async_buffer_bytes = 1024 * 1024 * 1024"

datatype close_code = InvalidPolicy | CloseInvalidEnvelope | ClosePayloadTooLarge | FanoutExceeded | CloseRetired

fun close_code_as_str :: "close_code \<Rightarrow> string" where
  "close_code_as_str InvalidPolicy = ''invalid_async_policy''"
| "close_code_as_str CloseInvalidEnvelope = ''invalid_async_envelope''"
| "close_code_as_str ClosePayloadTooLarge = ''async_payload_too_large''"
| "close_code_as_str FanoutExceeded = ''async_fanout_exceeded''"
| "close_code_as_str CloseRetired = ''async_delivery_retired''"

datatype buffer_disposition = BufQueued | BufCoalesced | BufDegraded | BufClosed close_code

datatype replay_preflight = PreflightReady | PreflightInvalid | PreflightClosed close_code

text \<open>The three bounds are \<open>NonZeroUsize\<close>.\<close>

record async_policy =
  ap_max_payload_bytes :: usize
  ap_max_replay_events :: usize
  ap_max_fanout :: usize

subsection \<open>Entries\<close>

record resolved_fanout =
  rf_recipients :: u16
  rf_target_scope :: content_digest

record 'v authorized_entry =
  ae_context :: "'v envelope_context"
  ae_envelope :: envelope
  ae_resolved_event :: "resolved_fanout option"
  ae_binding :: content_digest
  ae_document_scope :: content_digest
  ae_component_memo :: string
  ae_document_generation :: u64
  ae_resolved_fanout :: usize
  ae_resolved_target_scope :: "content_digest option"
  ae_terminal :: bool

definition authorized_entry_new ::
  "'v envelope_context \<Rightarrow> envelope \<Rightarrow> resolved_fanout option \<Rightarrow> content_digest \<Rightarrow> content_digest \<Rightarrow>
   string \<Rightarrow> u64 \<Rightarrow> usize \<Rightarrow> bool \<Rightarrow> 'v authorized_entry" where
  "authorized_entry_new c envelope resolved binding scope memo generation fanout terminal =
     \<lparr>ae_context = c, ae_envelope = envelope, ae_resolved_event = resolved, ae_binding = binding,
      ae_document_scope = scope, ae_component_memo = memo, ae_document_generation = generation,
      ae_resolved_fanout = fanout,
      ae_resolved_target_scope = map_option rf_target_scope resolved, ae_terminal = terminal\<rparr>"

text \<open>\<open>resolved_event().map_or(1, ...)\<close>\<close>

definition current_fanout :: "resolved_fanout option \<Rightarrow> usize" where
  "current_fanout resolved = (case resolved of None \<Rightarrow> 1 | Some r \<Rightarrow> unat (rf_recipients r))"

definition replace_membership ::
  "'v envelope_context \<Rightarrow> envelope \<Rightarrow> resolved_fanout option \<Rightarrow> 'v authorized_entry \<Rightarrow> 'v authorized_entry" where
  "replace_membership c envelope resolved entry =
     entry\<lparr>ae_resolved_fanout := current_fanout resolved,
           ae_resolved_target_scope := map_option rf_target_scope resolved,
           ae_context := c, ae_envelope := envelope, ae_resolved_event := resolved\<rparr>"

definition current_resolution_matches :: "resolved_fanout option \<Rightarrow> 'v authorized_entry \<Rightarrow> bool" where
  "current_resolution_matches resolved entry =
     (ae_resolved_fanout entry = current_fanout resolved
      \<and> ae_resolved_target_scope entry = map_option rf_target_scope resolved)"

definition matches_authorization ::
  "content_digest \<Rightarrow> content_digest \<Rightarrow> string \<Rightarrow> 'v envelope_context \<Rightarrow> 'v authorized_entry \<Rightarrow> bool" where
  "matches_authorization binding scope memo c entry =
     (ae_binding entry = binding \<and> ae_document_scope entry = scope \<and> ae_component_memo entry = memo
      \<and> ae_context entry = c)"

type_synonym 'v delivery = "('v registration, async_payload, resolved_fanout) async_delivery"

definition resolved_delivery :: "usize \<Rightarrow> 'v authorized_entry \<Rightarrow> 'v delivery" where
  "resolved_delivery limit entry =
     \<lparr>dl_context = ae_context entry, dl_envelope = ae_envelope entry,
      dl_resolved_event = ae_resolved_event entry, dl_fanout_limit = limit\<rparr>"

datatype buffer_group = GroupSingle | GroupReplay usize usize

record 'v buffer_entry =
  bf_authorized :: "'v authorized_entry"
  bf_group :: buffer_group

definition entry_single :: "'v authorized_entry \<Rightarrow> 'v buffer_entry" where
  "entry_single a = \<lparr>bf_authorized = a, bf_group = GroupSingle\<rparr>"

definition entry_replay :: "'v authorized_entry \<Rightarrow> usize \<Rightarrow> usize \<Rightarrow> 'v buffer_entry" where
  "entry_replay a index count = \<lparr>bf_authorized = a, bf_group = GroupReplay index count\<rparr>"

definition dequeue_group_len :: "usize \<Rightarrow> 'v buffer_entry \<Rightarrow> usize option" where
  "dequeue_group_len expected_index entry =
     (case bf_group entry of
        GroupSingle \<Rightarrow> if expected_index = 0 then Some 1 else None
      | GroupReplay index count \<Rightarrow> if index = expected_index \<and> count > 0 then Some count else None)"

abbreviation bf_envelope :: "'v buffer_entry \<Rightarrow> envelope" where
  "bf_envelope entry \<equiv> ae_envelope (bf_authorized entry)"

abbreviation bf_position :: "'v buffer_entry \<Rightarrow> stream_position" where
  "bf_position entry \<equiv> env_position (bf_envelope entry)"

record pressure_membership =
  pm_subscription :: "u8 list"
  pm_binding :: content_digest
  pm_document_scope :: content_digest
  pm_component_memo :: string

definition membership_of :: "'v authorized_entry \<Rightarrow> pressure_membership" where
  "membership_of entry =
     \<lparr>pm_subscription = env_subscription (ae_envelope entry), pm_binding = ae_binding entry,
      pm_document_scope = ae_document_scope entry, pm_component_memo = ae_component_memo entry\<rparr>"

subsection \<open>Coalescing\<close>

datatype coalescing_payload = CoalesceRefresh | CoalesceSignal string string signal_schema

record coalescing_key =
  ck_membership :: pressure_membership
  ck_stream :: string
  ck_epoch :: u64
  ck_payload :: coalescing_payload

definition coalescing_key_of :: "'v authorized_entry \<Rightarrow> coalescing_key option" where
  "coalescing_key_of entry =
     (let envelope = ae_envelope entry;
          key = (\<lambda>payload. \<lparr>ck_membership = membership_of entry, ck_stream = env_stream envelope,
                            ck_epoch = sp_epoch (env_position envelope), ck_payload = payload\<rparr>)
      in case env_payload envelope of
           PayRefresh \<Rightarrow> Some (key CoalesceRefresh)
         | PaySignal s \<Rightarrow> Some (key (CoalesceSignal (ps_scope s) (ps_name s) (ps_schema s)))
         | _ \<Rightarrow> None)"

definition classify_tail ::
  "coalescing_key option \<Rightarrow> stream_position \<Rightarrow> 'v buffer_entry option \<Rightarrow> tail_admission" where
  "classify_tail key position tail =
     (case (key, tail) of
        (Some key, Some tail) \<Rightarrow>
          if bf_group tail \<noteq> GroupSingle then AdmitAppend
          else if coalescing_key_of (bf_authorized tail) \<noteq> Some key then AdmitAppend
          else if sp_sequence position \<le> sp_sequence (bf_position tail) then AdmitRetain
          else (case checked_add_u64 (sp_sequence (bf_position tail)) 1 of
                  None \<Rightarrow> AdmitReject
                | Some expected \<Rightarrow> if sp_sequence position = expected then AdmitReplace else AdmitReject)
      | _ \<Rightarrow> AdmitAppend)"

definition fanout_is_authorized :: "envelope \<Rightarrow> usize \<Rightarrow> async_policy \<Rightarrow> bool" where
  "fanout_is_authorized envelope fanout policy =
     (if fanout = 0 \<or> fanout > ap_max_fanout policy then False
      else case env_payload envelope of
        PayBrowserEvent event \<Rightarrow> fanout \<le> unat (be_maximum_fanout event)
      | _ \<Rightarrow> fanout = 1)"

definition same_replay_scope :: "'v authorized_entry \<Rightarrow> 'v authorized_entry \<Rightarrow> bool" where
  "same_replay_scope l r =
     (membership_of l = membership_of r \<and> env_stream (ae_envelope l) = env_stream (ae_envelope r)
      \<and> sp_epoch (env_position (ae_envelope l)) = sp_epoch (env_position (ae_envelope r)))"

subsection \<open>The scope\<close>

record 'v backpressure =
  bp_owner :: "'v buffer_entry resource_owner"
  bp_permits :: permit_pool
  bp_activity :: usize
  bp_policy :: async_policy
  bp_pressure :: "pressure_membership pressure_state"
  bp_closed :: "close_code option"
  bp_telemetry :: telemetry

abbreviation bp_queue :: "'v backpressure \<Rightarrow> 'v buffer_entry bounded_queue" where
  "bp_queue s \<equiv> ow_queue (bp_owner s)"

definition set_queue :: "'v buffer_entry bounded_queue \<Rightarrow> 'v backpressure \<Rightarrow> 'v backpressure" where
  "set_queue q s = s\<lparr>bp_owner := (bp_owner s)\<lparr>ow_queue := q\<rparr>\<rparr>"

definition backpressure_new ::
  "'v buffer_entry resource_owner \<Rightarrow> permit_pool \<Rightarrow> async_policy \<Rightarrow> close_code + 'v backpressure" where
  "backpressure_new owner permits policy =
     (let bounds = bq_bounds (ow_queue owner) in
      if rb_max_items bounds > max_async_buffer_events \<or> rb_max_bytes bounds > max_async_buffer_bytes
         \<or> ap_max_payload_bytes policy > max_async_payload_bytes
         \<or> ap_max_replay_events policy > max_replay_transcript_envelopes
         \<or> ap_max_fanout policy > unat max_event_fanout
      then Inl InvalidPolicy
      else Inr \<lparr>bp_owner = owner, bp_permits = permits, bp_activity = 0, bp_policy = policy,
                bp_pressure = pressure_default, bp_closed = None, bp_telemetry = (\<lambda>_. 0)\<rparr>)"

definition bp_increment :: "telemetry_counter \<Rightarrow> 'v backpressure \<Rightarrow> 'v backpressure" where
  "bp_increment counter s = s\<lparr>bp_telemetry := telemetry_increment counter (bp_telemetry s)\<rparr>"

definition bp_record ::
  "pressure_membership \<Rightarrow> pressure_cause \<Rightarrow> stream_position \<Rightarrow> 'v backpressure \<Rightarrow> 'v backpressure" where
  "bp_record membership cause position s =
     s\<lparr>bp_pressure := pressure_record membership cause position (bp_pressure s)\<rparr>"

definition bp_retire_owner :: "'v backpressure \<Rightarrow> retirement_report \<times> 'v backpressure" where
  "bp_retire_owner s = (let (report, owner) = owner_retire (bp_owner s) in (report, s\<lparr>bp_owner := owner\<rparr>))"

definition bp_finish :: "buffer_disposition \<Rightarrow> 'v backpressure \<Rightarrow> buffer_disposition \<times> 'v backpressure" where
  "bp_finish disposition s =
     (case disposition of
        BufQueued \<Rightarrow> (disposition, bp_increment CountQueued s)
      | BufCoalesced \<Rightarrow> (disposition, bp_increment CountCoalesced s)
      | BufDegraded \<Rightarrow> (disposition, bp_increment CountDegraded s)
      | BufClosed code \<Rightarrow>
          if bp_closed s \<noteq> None then (disposition, s)
          else let s = s\<lparr>bp_closed := Some code\<rparr>;
                   s = (if code \<in> {InvalidPolicy, CloseInvalidEnvelope, ClosePayloadTooLarge, FanoutExceeded}
                        then bp_increment CountRejected s else s);
                   s = snd (bp_retire_owner s);
                   s = bp_increment CountCleanup s
               in (disposition, bp_increment CountClosed s))"

definition commit_recoveries_if_idle :: "'v backpressure \<Rightarrow> 'v backpressure" where
  "commit_recoveries_if_idle s =
     (if bq_items (bp_queue s) = [] \<and> bp_activity s = 0
      then s\<lparr>bp_pressure := pressure_commit_recoveries (bp_pressure s)\<rparr> else s)"

subsection \<open>Admission\<close>

definition offer_admit ::
  "usize \<Rightarrow> 'v authorized_entry \<Rightarrow> 'v backpressure \<Rightarrow> (buffer_disposition \<times> 'v backpressure) option" where
  "offer_admit bytes authorized s =
     (let key = coalescing_key_of authorized;
          membership = membership_of authorized;
          position = env_position (ae_envelope authorized)
      in case rq_try_admit_tail_with bytes (entry_single authorized) (classify_tail key position)
                (bp_queue s) of
           None \<Rightarrow> None
         | Some (outcome, q) \<Rightarrow>
             let s = set_queue q s;
                 recorded = bp_record membership CauseAdmission position s
             in Some (case outcome of
                  Inr TailAppended \<Rightarrow> bp_finish BufQueued s
                | Inr TailReplaced \<Rightarrow> bp_finish BufCoalesced recorded
                | Inr TailRetained \<Rightarrow> bp_finish BufCoalesced s
                | Inr TailRejected \<Rightarrow> bp_finish BufDegraded recorded
                | Inl ResourceRetired \<Rightarrow> bp_finish (BufClosed CloseRetired) s
                | Inl ItemsExceeded \<Rightarrow> bp_finish BufDegraded recorded
                | Inl BytesExceeded \<Rightarrow> bp_finish BufDegraded recorded
                | Inl PermitsExceeded \<Rightarrow> bp_finish BufDegraded recorded))"

definition bp_offer ::
  "json_text \<Rightarrow> base64_engine \<Rightarrow> 'v authorized_entry \<Rightarrow> 'v backpressure \<Rightarrow>
   (buffer_disposition \<times> 'v backpressure) option" where
  "bp_offer j b authorized s =
     (case bp_closed s of
        Some code \<Rightarrow> Some (BufClosed code, s)
      | None \<Rightarrow>
          if ow_canceled (bp_owner s) then Some (bp_finish (BufClosed CloseRetired) s)
          else if \<not> fanout_is_authorized (ae_envelope authorized) (ae_resolved_fanout authorized) (bp_policy s)
          then Some (bp_finish (BufClosed FanoutExceeded) s)
          else case encode_async_envelope j b (ae_envelope authorized) v1_limits of
            Inl e \<Rightarrow> Some (bp_finish (BufClosed CloseInvalidEnvelope) s)
          | Inr encoded \<Rightarrow>
              (case canonical_async_payload_len j (ae_envelope authorized) of
                 Inl e \<Rightarrow> Some (bp_finish (BufClosed CloseInvalidEnvelope) s)
               | Inr payload_bytes \<Rightarrow>
                   if payload_bytes > ap_max_payload_bytes (bp_policy s)
                   then Some (bp_finish (BufClosed ClosePayloadTooLarge) s)
                   else offer_admit (length encoded) authorized s))"

text \<open>
  The measuring loop of \<open>offer_replay\<close>: the prepared entries with their sizes and the total, or how
  it stops. \<open>Inl (Some code)\<close> closes the scope, \<open>Inl None\<close> is an invalid replay.
\<close>

fun prepare_transcript ::
  "json_text \<Rightarrow> base64_engine \<Rightarrow> async_policy \<Rightarrow> usize \<Rightarrow> usize \<Rightarrow> usize \<Rightarrow> 'v authorized_entry list \<Rightarrow>
   close_code option + (usize \<times> (usize \<times> 'v buffer_entry) list)" where
  "prepare_transcript j b policy count index total_bytes [] = Inr (total_bytes, [])"
| "prepare_transcript j b policy count index total_bytes (authorized # rest) =
     (if \<not> fanout_is_authorized (ae_envelope authorized) (ae_resolved_fanout authorized) policy
      then Inl (Some FanoutExceeded)
      else case encode_async_envelope j b (ae_envelope authorized) v1_limits of
        Inl e \<Rightarrow> Inl None
      | Inr encoded \<Rightarrow>
          (case canonical_async_payload_len j (ae_envelope authorized) of
             Inl e \<Rightarrow> Inl None
           | Inr payload_bytes \<Rightarrow>
               if payload_bytes > ap_max_payload_bytes policy then Inl None
               else case checked_add_usize total_bytes (length encoded) of
                 None \<Rightarrow> Inl None
               | Some next_total \<Rightarrow>
                   and_then (prepare_transcript j b policy count (index + 1) next_total rest) (\<lambda>(t, prepared).
                     Inr (t, (length encoded, entry_replay authorized index count) # prepared))))"

definition bp_offer_replay ::
  "json_text \<Rightarrow> base64_engine \<Rightarrow> 'v authorized_entry list \<Rightarrow> 'v backpressure \<Rightarrow>
   (close_code + buffer_disposition) \<times> 'v backpressure" where
  "bp_offer_replay j b transcript s =
     (let invalid = (Inl CloseInvalidEnvelope, s);
          closed = (\<lambda>code. let (d, s) = bp_finish (BufClosed code) s in (Inr d, s)) in
      case bp_closed s of
        Some code \<Rightarrow> (Inr (BufClosed code), s)
      | None \<Rightarrow>
          if ow_canceled (bp_owner s) then closed CloseRetired
          else if transcript = [] \<or> length transcript > max_replay_transcript_envelopes
                  \<or> length transcript > ap_max_replay_events (bp_policy s) then invalid
          else if windows2_any (\<lambda>previous following. \<not> same_replay_scope previous following
                    \<or> checked_add_u64 (sp_sequence (env_position (ae_envelope previous))) 1
                        \<noteq> Some (sp_sequence (env_position (ae_envelope following)))) transcript
          then invalid
          else case prepare_transcript j b (bp_policy s) (length transcript) 0 0 transcript of
            Inl (Some code) \<Rightarrow> closed code
          | Inl None \<Rightarrow> invalid
          | Inr (total_bytes, prepared) \<Rightarrow>
              if total_bytes > saturating_sub_usize (rb_max_bytes (bq_bounds (bp_queue s)))
                                 (bq_retained_bytes (bp_queue s))
              then invalid
              else case rq_try_push_batch prepared (bp_queue s) of
                (Inr u, q) \<Rightarrow> (let (d, s) = bp_finish BufQueued (set_queue q s) in (Inr d, s))
              | (Inl ResourceRetired, q) \<Rightarrow> closed CloseRetired
              | (Inl e, q) \<Rightarrow> invalid)"

fun preflight_replay_loop ::
  "json_text \<Rightarrow> base64_engine \<Rightarrow> async_policy \<Rightarrow> usize \<Rightarrow> usize \<Rightarrow> envelope list \<Rightarrow> bool" where
  "preflight_replay_loop j b policy available_bytes total_bytes [] = True"
| "preflight_replay_loop j b policy available_bytes total_bytes (envelope # rest) =
     (case encode_async_envelope j b envelope v1_limits of
        Inl e \<Rightarrow> False
      | Inr encoded \<Rightarrow>
          (case canonical_async_payload_len j envelope of
             Inl e \<Rightarrow> False
           | Inr payload_bytes \<Rightarrow>
               if payload_bytes > ap_max_payload_bytes policy then False
               else case checked_add_usize total_bytes (length encoded) of
                 None \<Rightarrow> False
               | Some next_total \<Rightarrow>
                   next_total \<le> available_bytes
                   \<and> preflight_replay_loop j b policy available_bytes next_total rest))"

definition bp_preflight_replay ::
  "json_text \<Rightarrow> base64_engine \<Rightarrow> envelope list \<Rightarrow> 'v backpressure \<Rightarrow> replay_preflight \<times> 'v backpressure" where
  "bp_preflight_replay j b transcript s =
     (case bp_closed s of
        Some code \<Rightarrow> (PreflightClosed code, s)
      | None \<Rightarrow>
          if ow_canceled (bp_owner s)
          then (PreflightClosed CloseRetired, snd (bp_finish (BufClosed CloseRetired) s))
          else let count = length transcript;
                   bounds = bq_bounds (bp_queue s) in
          if count = 0 \<or> count > max_replay_transcript_envelopes
             \<or> count > ap_max_replay_events (bp_policy s)
             \<or> count > saturating_sub_usize (rb_max_items bounds) (bq_len (bp_queue s))
          then (PreflightInvalid, s)
          else if preflight_replay_loop j b (bp_policy s)
                    (saturating_sub_usize (rb_max_bytes bounds) (bq_retained_bytes (bp_queue s))) 0 transcript
          then (PreflightReady, s) else (PreflightInvalid, s))"

end
