(* ===== verification/Async_Delivery.thy ===== *)
theory Async_Delivery
  imports Async_Backpressure
begin

text \<open>
  The delivery half of \<open>async_updates/backpressure.rs\<close>: leasing one queue group with a permit, the
  two dispatch paths of a lease through the sequence machine, what dropping a lease leaves behind,
  and the retirement of a scope or of one membership. Another thread may set the cancellation flag
  while a replay runs: what each check of the flag sees is an argument.
\<close>

subsection \<open>Leases\<close>

record 'v delivery_lease =
  ls_entries :: "'v buffer_entry list"
  ls_membership :: pressure_membership
  ls_high_water :: stream_position
  ls_fanout_limit :: usize
  ls_resolved :: bool

datatype lease_error =
    LeaseRetired | LeaseAuthorizationLost | LeaseMembershipExpired
  | LeaseReplayRetired replay_error | LeaseReplayAuthorizationLost replay_error
  | LeaseReplayMembershipExpired replay_error
  | LeaseSequence sequence_error | LeaseReplay replay_error

definition permit_try_acquire :: "permit_pool \<Rightarrow> permit_pool option" where
  "permit_try_acquire p =
     (if pp_active p \<ge> pp_max_active p then None else Some (p\<lparr>pp_active := pp_active p + 1\<rparr>))"

definition permit_release :: "permit_pool \<Rightarrow> permit_pool" where
  "permit_release p = p\<lparr>pp_active := pp_active p - 1\<rparr>"

definition lease_of :: "async_policy \<Rightarrow> 'v buffer_entry list \<Rightarrow> 'v delivery_lease option" where
  "lease_of policy entries =
     (case (entries, position_max (map bf_position entries)) of
        (first # rest, Some high_water) \<Rightarrow>
          Some \<lparr>ls_entries = entries, ls_membership = membership_of (bf_authorized first),
                ls_high_water = high_water, ls_fanout_limit = ap_max_fanout policy, ls_resolved = False\<rparr>
      | _ \<Rightarrow> None)"

definition try_start_delivery ::
  "'v backpressure \<Rightarrow> ('v delivery_lease option \<times> 'v backpressure) option" where
  "try_start_delivery s =
     (if bp_closed s \<noteq> None \<or> ow_canceled (bp_owner s)
      then Some (None, if bp_closed s = None then snd (bp_finish (BufClosed CloseRetired) s) else s)
      else case permit_try_acquire (bp_permits s) of
        None \<Rightarrow> Some (None, s)
      | Some permits \<Rightarrow>
          (case bq_pop_batch_preserving dequeue_group_len (bp_queue s) of
             None \<Rightarrow> None
           | Some (None, q) \<Rightarrow> Some (None, set_queue q s)
           | Some (Some entries, q) \<Rightarrow>
               (case lease_of (bp_policy s) entries of
                  None \<Rightarrow> None
                | Some lease \<Rightarrow>
                    Some (Some lease,
                          (set_queue q s)\<lparr>bp_permits := permits, bp_activity := bp_activity s + 1\<rparr>))))"

definition lease_record :: "pressure_cause \<Rightarrow> 'v delivery_lease \<Rightarrow> 'v backpressure \<Rightarrow> 'v backpressure" where
  "lease_record cause lease s = bp_record (ls_membership lease) cause (ls_high_water lease) s"

text \<open>\<open>Drop\<close>: the permit goes back before the idle boundary is evaluated.\<close>

definition lease_drop :: "'v delivery_lease \<Rightarrow> 'v backpressure \<Rightarrow> 'v backpressure" where
  "lease_drop lease s =
     (let s = (if ls_resolved lease then s else lease_record CauseDelivery lease s);
          s = s\<lparr>bp_permits := permit_release (bp_permits s)\<rparr>;
          s = s\<lparr>bp_activity := bp_activity s - 1\<rparr>
      in commit_recoveries_if_idle s)"

definition lease_resolve :: "'v delivery_lease \<Rightarrow> 'v delivery_lease" where
  "lease_resolve lease = lease\<lparr>ls_resolved := True\<rparr>"

type_synonym ('v, 'h) async_port = "('v registration, async_payload, resolved_fanout, 'h) dispatcher"
type_synonym 'v sequence_lane = "'v registration sequence_machine"

definition lease_dispatch ::
  "('v, 'h) async_port \<Rightarrow> unix_millis \<Rightarrow> 'v delivery_lease \<Rightarrow> 'v sequence_lane \<Rightarrow> 'v backpressure \<Rightarrow> 'h \<Rightarrow>
   ((lease_error + sequence_disposition) \<times> 'v sequence_lane \<times> 'v backpressure \<times> 'h) option" where
  "lease_dispatch port now lease m s h =
     (if ow_canceled (bp_owner s) then Some (Inl LeaseRetired, m, lease_drop lease s, h)
      else case ls_entries lease of
        [] \<Rightarrow> None
      | entry # rest \<Rightarrow>
          (case sequence_dispatch port (resolved_delivery (ls_fanout_limit lease) (bf_authorized entry))
                  now m h of
             (Inr disposition, m, h) \<Rightarrow>
               if disposition \<in> {SeqApply, IgnoreDuplicate, IgnoreStaleEpoch}
               then Some (Inr disposition, m, lease_drop (lease_resolve lease) s, h)
               else Some (Inr disposition, m,
                          lease_drop (lease_resolve lease) (lease_record CauseSequence lease s), h)
           | (Inl e, m, h) \<Rightarrow>
               Some (Inl (LeaseSequence e), m,
                     lease_drop (lease_resolve lease) (lease_record CauseDelivery lease s), h)))"

type_synonym ('v, 'h) revalidate =
  "'v authorized_entry \<Rightarrow> 'h \<Rightarrow> (lease_error + unix_millis) \<times> 'v authorized_entry \<times> 'h"

definition interrupted_error ::
  "'v sequence_lane \<Rightarrow> replay_recovery \<Rightarrow> lease_error \<Rightarrow> lease_error" where
  "interrupted_error m recovery e =
     (case e of
        LeaseRetired \<Rightarrow> LeaseReplayRetired (interrupt_replay m recovery DeliveryRetired)
      | LeaseAuthorizationLost \<Rightarrow>
          LeaseReplayAuthorizationLost (interrupt_replay m recovery AuthorizationLost)
      | LeaseMembershipExpired \<Rightarrow>
          LeaseReplayMembershipExpired (interrupt_replay m recovery MembershipExpired)
      | other \<Rightarrow> other)"

text \<open>The entry loop of \<open>dispatch_replay_with\<close>; check \<open>i\<close> of the flag precedes entry \<open>i\<close>.\<close>

fun replay_entries ::
  "('v, 'h) async_port \<Rightarrow> ('v, 'h) revalidate \<Rightarrow> (nat \<Rightarrow> bool) \<Rightarrow> usize \<Rightarrow> nat \<Rightarrow> 'v buffer_entry list \<Rightarrow>
   replay_recovery \<Rightarrow> 'v sequence_lane \<Rightarrow> 'h \<Rightarrow>
   (lease_error + replay_recovery) \<times> 'v sequence_lane \<times> 'h" where
  "replay_entries port validate canceled limit i [] recovery m h = (Inr recovery, m, h)"
| "replay_entries port validate canceled limit i (entry # rest) recovery m h =
     (if canceled i
      then (Inl (LeaseReplayRetired (interrupt_replay m recovery DeliveryRetired)), m, h)
      else case validate (bf_authorized entry) h of
        (Inl e, authorized, h) \<Rightarrow> (Inl (interrupted_error m recovery e), m, h)
      | (Inr now, authorized, h) \<Rightarrow>
          (case dispatch_replay_entry port (resolved_delivery limit authorized) now recovery m h of
             (Inl e, recovery, m, h) \<Rightarrow> (Inl (LeaseReplay e), m, h)
           | (Inr u, recovery, m, h) \<Rightarrow>
               replay_entries port validate canceled limit (i + 1) rest recovery m h))"

text \<open>Everything between the first cancellation check and the drop.\<close>

definition replay_transcript ::
  "('v, 'h) async_port \<Rightarrow> ('v, 'h) revalidate \<Rightarrow> (nat \<Rightarrow> bool) \<Rightarrow> stream_position option \<Rightarrow> usize \<Rightarrow>
   'v buffer_entry list \<Rightarrow> 'v sequence_lane \<Rightarrow> 'h \<Rightarrow>
   (lease_error + replay_outcome) \<times> 'v sequence_lane \<times> 'h" where
  "replay_transcript port validate canceled required limit entries m h =
     (case prepare_replay m (map bf_envelope entries) required of
        Inl e \<Rightarrow> (Inl (LeaseReplay e), m, h)
      | Inr recovery \<Rightarrow>
          (case replay_entries port validate canceled limit 0 entries recovery m h of
             (Inl e, m, h) \<Rightarrow> (Inl e, m, h)
           | (Inr recovery, m, h) \<Rightarrow>
               (case finish_replay recovery m of
                  (Inl e, m) \<Rightarrow> (Inl (LeaseReplay e), m, h)
                | (Inr outcome, m) \<Rightarrow> (Inr outcome, m, h))))"

definition lease_dispatch_replay ::
  "('v, 'h) async_port \<Rightarrow> ('v, 'h) revalidate \<Rightarrow> (nat \<Rightarrow> bool) \<Rightarrow> 'v delivery_lease \<Rightarrow> 'v sequence_lane \<Rightarrow>
   'v backpressure \<Rightarrow> 'h \<Rightarrow> (lease_error + replay_outcome) \<times> 'v sequence_lane \<times> 'v backpressure \<times> 'h" where
  "lease_dispatch_replay port validate canceled lease m s h =
     (if ow_canceled (bp_owner s) then (Inl LeaseRetired, m, lease_drop lease s, h)
      else let required = (if sm_state m = SeqCurrent
                           then required_high_water (ls_membership lease) (bp_pressure s) else None)
           in case replay_transcript port validate canceled required (ls_fanout_limit lease)
                     (ls_entries lease) m h of
                (Inr outcome, m, h) \<Rightarrow> (Inr outcome, m, lease_drop (lease_resolve lease) s, h)
              | (Inl e, m, h) \<Rightarrow>
                  (Inl e, m, lease_drop (lease_resolve lease) (lease_record CauseDelivery lease s), h))"

subsection \<open>Losses and recoveries\<close>

definition record_delivery_loss ::
  "pressure_membership \<Rightarrow> stream_position \<Rightarrow> 'v backpressure \<Rightarrow> 'v backpressure" where
  "record_delivery_loss membership high_water s =
     snd (bp_finish BufDegraded (bp_record membership CauseDelivery high_water s))"

text \<open>Dropping the guard of a pulled candidate; \<open>None\<close> is a disarmed guard.\<close>

definition pulled_candidate_drop ::
  "pressure_membership option \<Rightarrow> stream_position \<Rightarrow> 'v backpressure \<Rightarrow> 'v backpressure" where
  "pulled_candidate_drop membership high_water s =
     (case membership of None \<Rightarrow> s | Some m \<Rightarrow> bp_record m CauseDelivery high_water s)"

definition record_replay_recovery ::
  "pressure_membership \<Rightarrow> stream_position \<Rightarrow> 'v backpressure \<Rightarrow> 'v backpressure" where
  "record_replay_recovery membership through s =
     commit_recoveries_if_idle
       (s\<lparr>bp_pressure := pressure_record_recovery membership through (bp_pressure s)\<rparr>)"

subsection \<open>Retirement\<close>

definition bp_retire :: "'v backpressure \<Rightarrow> retirement_report \<times> 'v backpressure" where
  "bp_retire s =
     (let first_retirement = (bp_closed s = None);
          s = (if first_retirement
               then s\<lparr>bp_closed := Some CloseRetired, bp_pressure := pressure_clear (bp_pressure s)\<rparr> else s);
          (report, s) = bp_retire_owner s
      in (report, if first_retirement then bp_increment CountCleanup s else s))"

definition same_membership :: "u8 list \<Rightarrow> content_digest \<Rightarrow> 'v buffer_entry \<Rightarrow> bool" where
  "same_membership subscription binding entry =
     (env_subscription (bf_envelope entry) = subscription \<and> ae_binding (bf_authorized entry) = binding)"

definition bp_retire_membership ::
  "u8 list \<Rightarrow> content_digest \<Rightarrow> 'v backpressure \<Rightarrow> ((usize \<times> usize) \<times> 'v backpressure) option" where
  "bp_retire_membership subscription binding s =
     (case rq_remove_if (same_membership subscription binding) (bp_queue s) of
        None \<Rightarrow> None
      | Some (removed, q) \<Rightarrow>
          let s = set_queue q s;
              s = (if fst removed > 0 then bp_increment CountCleanup s else s);
              s = s\<lparr>bp_pressure := pressure_retire_membership
                    (\<lambda>m. pm_subscription m = subscription \<and> pm_binding m = binding) (bp_pressure s)\<rparr>
          in Some (removed, commit_recoveries_if_idle s))"

definition detached_entry :: "(u8 list \<Rightarrow> content_digest \<Rightarrow> bool) \<Rightarrow> 'v buffer_entry \<Rightarrow> bool" where
  "detached_entry is_current entry =
     (\<not> ae_terminal (bf_authorized entry)
      \<and> \<not> is_current (env_subscription (bf_envelope entry)) (ae_binding (bf_authorized entry)))"

definition bp_retain_current_memberships ::
  "(u8 list \<Rightarrow> content_digest \<Rightarrow> bool) \<Rightarrow> 'v backpressure \<Rightarrow>
   ((usize \<times> usize) \<times> 'v backpressure) option" where
  "bp_retain_current_memberships is_current s =
     (let detached = map (\<lambda>entry. (membership_of (bf_authorized entry), bf_position entry))
                       (filter (detached_entry is_current) (queued (bp_queue s)))
      in case rq_remove_if (detached_entry is_current) (bp_queue s) of
           None \<Rightarrow> None
         | Some (removed, q) \<Rightarrow>
             let s = set_queue q s;
                 s = (if fst removed > 0
                      then bp_increment CountCleanup
                        (foldl (\<lambda>s (m, high_water). bp_record m CauseDetached high_water s) s detached)
                      else s)
             in Some (removed, commit_recoveries_if_idle s))"

definition has_membership_entries :: "u8 list \<Rightarrow> content_digest \<Rightarrow> 'v backpressure \<Rightarrow> bool" where
  "has_membership_entries subscription binding s =
     bq_any (same_membership subscription binding) (bp_queue s)"

end
