(* ===== verification/Delivery_Props.thy ===== *)
theory Delivery_Props
  imports Async_Delivery
begin

text \<open>
  The queue of a delivery scope is a sequence of whole groups: one single message, or one replay
  transcript with its indexes in order. The lemmas show that every operation of the scope keeps it
  so, which is what lets the head of a nonempty queue always be leased.
\<close>

subsection \<open>Groups\<close>

definition group_ok :: "'v buffer_entry list \<Rightarrow> bool" where
  "group_ok g = (g \<noteq> [] \<and> ((\<exists>e. g = [e] \<and> bf_group e = GroupSingle)
     \<or> ((\<forall>i < length g. bf_group (g ! i) = GroupReplay i (length g))
        \<and> (\<forall>e \<in> set g. \<not> ae_terminal (bf_authorized e))
        \<and> (\<exists>subscription binding. \<forall>e \<in> set g. env_subscription (bf_envelope e) = subscription
              \<and> ae_binding (bf_authorized e) = binding))))"

inductive grouped :: "'v buffer_entry list \<Rightarrow> bool" where
  grouped_empty: "grouped []"
| grouped_group: "group_ok g \<Longrightarrow> grouped xs \<Longrightarrow> grouped (g @ xs)"

inductive_cases grouped_ConsE: "grouped (x # xs)"

lemma grouped_append: "grouped xs \<Longrightarrow> grouped ys \<Longrightarrow> grouped (xs @ ys)"
  by (induction rule: grouped.induct) (auto intro: grouped.intros)

lemma grouped_single: "bf_group e = GroupSingle \<Longrightarrow> grouped [e]"
  using grouped_group [of "[e]" "[]"] grouped_empty by (auto simp: group_ok_def)

lemma group_last_single:
  assumes "group_ok g" and "bf_group (last g) = GroupSingle"
  shows "\<exists>e. g = [e]"
proof (rule ccontr)
  assume "\<nexists>e. g = [e]"
  then have "bf_group (g ! (length g - 1)) = GroupReplay (length g - 1) (length g)" "g \<noteq> []"
    using assms(1) by (auto simp: group_ok_def)
  then show False using assms(2) by (simp add: last_conv_nth)
qed

lemma grouped_butlast:
  "grouped xs \<Longrightarrow> xs \<noteq> [] \<Longrightarrow> bf_group (last xs) = GroupSingle \<Longrightarrow> grouped (butlast xs)"
proof (induction rule: grouped.induct)
  case (grouped_group g xs)
  show ?case
  proof (cases "xs = []")
    case True
    then obtain e where "g = [e]" using grouped_group group_last_single by fastforce
    then show ?thesis using True grouped.grouped_empty by simp
  next
    case False
    then show ?thesis using grouped_group grouped.grouped_group by (simp add: butlast_append)
  qed
qed simp

text \<open>Removal by a predicate that cannot tell the members of a group apart removes whole groups.\<close>

definition group_uniform :: "('v buffer_entry \<Rightarrow> bool) \<Rightarrow> bool" where
  "group_uniform p = (\<forall>g. group_ok g \<longrightarrow> (\<forall>e \<in> set g. p e) \<or> (\<forall>e \<in> set g. \<not> p e))"

lemma grouped_filter: "grouped xs \<Longrightarrow> group_uniform p \<Longrightarrow> grouped (filter (\<lambda>e. \<not> p e) xs)"
proof (induction rule: grouped.induct)
  case (grouped_group g xs)
  then have "(\<forall>e \<in> set g. p e) \<or> (\<forall>e \<in> set g. \<not> p e)" by (simp add: group_uniform_def)
  then have "filter (\<lambda>e. \<not> p e) g = [] \<or> filter (\<lambda>e. \<not> p e) g = g"
    by (auto simp: filter_empty_conv filter_id_conv)
  then show ?case using grouped_group grouped.grouped_group by auto
qed (simp add: grouped.grouped_empty)

lemma same_membership_uniform: "group_uniform (same_membership subscription binding)"
  by (auto simp: group_uniform_def group_ok_def same_membership_def)

lemma detached_uniform: "group_uniform (detached_entry is_current)"
  by (auto simp: group_uniform_def group_ok_def detached_entry_def)

subsection \<open>The head of the queue\<close>

lemma group_classifies:
  assumes "group_ok g" and "i < length g"
  shows "dequeue_group_len i (g ! i) = Some (length g)"
  using assms by (auto simp: group_ok_def dequeue_group_len_def)

lemma enumerate_classified:
  assumes at: "\<forall>i < length g. classify i (g ! i) = Some (length g)" and g: "map snd items = g"
  shows "\<not> list_ex (\<lambda>(index, item). classify index (snd item) \<noteq> Some (length g))
    (drop 1 (enumerate 0 items))"
proof -
  have "classify i (snd item) = Some (length g)" if "(i, item) \<in> set (enumerate 0 items)" for i item
    using at g that by (auto simp: in_set_enumerate_eq)
  then show ?thesis by (auto simp: list_ex_iff dest!: in_set_dropD)
qed

lemma pop_batch_group:
  assumes inv: "queue_inv q" and split: "queued q = g @ rest" and ok: "group_ok g"
  obtains q' where "bq_pop_batch_preserving dequeue_group_len q = Some (Some g, q')" "queue_inv q'"
    "queued q' = rest" "bq_retired q' = bq_retired q" "bq_bounds q' = bq_bounds q"
proof -
  obtain r q' where r: "bq_pop_batch_preserving dequeue_group_len q = Some (r, q')" "queue_inv q'"
    "case r of None \<Rightarrow> q' = q
     | Some xs \<Rightarrow> xs \<noteq> [] \<and> queued q = xs @ queued q' \<and> dequeue_group_len 0 (hd xs) = Some (length xs)
         \<and> (\<forall>i < length xs. dequeue_group_len i (xs ! i) = Some (length xs))"
    "bq_retired q' = bq_retired q" "bq_bounds q' = bq_bounds q"
    by (rule pop_batch_effect [OF inv, of dequeue_group_len])
  have ne: "g \<noteq> []" using ok by (simp add: group_ok_def)
  have c: "\<forall>i < length g. dequeue_group_len i (g ! i) = Some (length g)"
    using group_classifies [OF ok] by blast
  have head: "dequeue_group_len 0 (hd g) = Some (length g)" using c ne by (simp add: hd_conv_nth)
  obtain item items where items: "bq_items q = item # items"
    using split ne by (cases "bq_items q") (auto simp: queued_def)
  have item: "snd item = hd g" using split items ne by (cases g) (auto simp: queued_def)
  have len: "length g \<le> bq_len q"
    using arg_cong [OF split, of length] by (simp add: queued_def bq_len_def)
  have pre: "map snd (take (length g) (bq_items q)) = g"
    using arg_cong [OF split, of "take (length g)"] by (simp add: queued_def take_map)
  have "r \<noteq> None"
    using r(1) items item head ne len enumerate_classified [where classify = dequeue_group_len, OF c pre]
    by (auto simp: bq_pop_batch_preserving_def split: option.splits if_splits)
  then obtain xs where xs: "r = Some xs" by blast
  then have x: "xs \<noteq> []" "queued q = xs @ queued q'" "dequeue_group_len 0 (hd xs) = Some (length xs)"
    using r(3) by auto
  have "hd xs = hd g" using x(1,2) split ne by (metis hd_append2)
  then have "length xs = length g" using x(3) head by simp
  then have "xs = g \<and> queued q' = rest" using x(2) split by simp
  then show ?thesis using that r xs by auto
qed

subsection \<open>Admission keeps the groups\<close>

lemma classify_replace_single:
  "classify_tail key position tail = AdmitReplace \<Longrightarrow> \<exists>t. tail = Some t \<and> bf_group t = GroupSingle"
  by (auto simp: classify_tail_def split: option.splits if_splits)

lemma prepare_transcript_entries:
  "prepare_transcript j b policy count i start ts = Inr (t, prepared) \<Longrightarrow>
   map snd prepared = map (\<lambda>(a, k). entry_replay a (i + k) count) (zip ts [0..<length ts])"
proof (induction ts arbitrary: i start t prepared)
  case (Cons a ts)
  obtain n next_total t' rest where "prepared = (n, entry_replay a i count) # rest"
      and rest: "prepare_transcript j b policy count (i + 1) next_total ts = Inr (t', rest)"
    using Cons.prems by (auto split: if_splits sum.splits option.splits)
  moreover have "map snd rest = map (\<lambda>(a, k). entry_replay a (Suc i + k) count) (zip ts [0..<length ts])"
    using Cons.IH [OF rest] by simp
  moreover have "zip (a # ts) [0..<length (a # ts)] = (a, 0) # map (\<lambda>(x, k). (x, Suc k)) (zip ts [0..<length ts])"
    by (simp add: upt_conv_Cons map_Suc_upt [symmetric] zip_map2 del: upt_Suc)
  ultimately show ?case by (auto simp: case_prod_beta comp_def)
qed simp

lemma windows2_uniform:
  "\<not> windows2_any (\<lambda>x y. \<not> same_replay_scope x y \<or> r x y) ts \<Longrightarrow> a \<in> set ts \<Longrightarrow>
   membership_of a = membership_of (hd ts)"
proof (induction ts rule: induct_list012)
  case (3 x y zs)
  have "membership_of x = membership_of y" using 3(3) by (simp add: same_replay_scope_def)
  then show ?case using 3 by auto
qed auto

lemma prepared_group_ok:
  assumes prep: "prepare_transcript j b policy (length ts) 0 0 ts = Inr (t, prepared)"
    and ne: "ts \<noteq> []" and scope: "\<not> windows2_any (\<lambda>x y. \<not> same_replay_scope x y \<or> r x y) ts"
    and live: "\<forall>a \<in> set ts. \<not> ae_terminal a"
  shows "group_ok (map snd prepared)"
proof -
  have e: "map snd prepared = map (\<lambda>(a, k). entry_replay a k (length ts)) (zip ts [0..<length ts])"
    using prepare_transcript_entries [OF prep] by simp
  have len: "length (map snd prepared) = length ts" unfolding e by simp
  have "\<forall>i < length ts. bf_group (map snd prepared ! i) = GroupReplay i (length ts)"
    unfolding e by (simp add: entry_replay_def)
  moreover have "\<forall>e \<in> set (map snd prepared). bf_authorized e \<in> set ts"
    unfolding e by (auto simp: entry_replay_def dest: set_zip_leftD)
  moreover have "\<forall>a \<in> set ts. env_subscription (ae_envelope a) = pm_subscription (membership_of (hd ts))
      \<and> ae_binding a = pm_binding (membership_of (hd ts))"
  proof
    fix a
    assume "a \<in> set ts"
    then have "membership_of a = membership_of (hd ts)" by (rule windows2_uniform [OF scope])
    from this [symmetric] show "env_subscription (ae_envelope a) = pm_subscription (membership_of (hd ts))
      \<and> ae_binding a = pm_binding (membership_of (hd ts))" by (simp add: membership_of_def)
  qed
  ultimately show ?thesis using len ne live unfolding group_ok_def by fastforce
qed

text \<open>
  What each operation of a delivery scope does: to its queue, to what it owes, to the count of
  outstanding leases. Every dispatch path of a lease ends in one of two ways, which
  \<open>lease_settle\<close> names: resolved, or with its whole high-water recorded as lost.
\<close>

named_theorems scope_simps "projections of the scope's bookkeeping steps"

definition scope_inv :: "'v backpressure \<Rightarrow> bool" where
  "scope_inv s = (queue_inv (bp_queue s) \<and> grouped (queued (bp_queue s)))"

subsection \<open>Bookkeeping\<close>

lemma set_queue_simps [scope_simps]:
  "bp_queue (set_queue q s) = q" "bp_permits (set_queue q s) = bp_permits s"
  "bp_activity (set_queue q s) = bp_activity s" "bp_policy (set_queue q s) = bp_policy s"
  "bp_pressure (set_queue q s) = bp_pressure s" "bp_closed (set_queue q s) = bp_closed s"
  "ow_canceled (bp_owner (set_queue q s)) = ow_canceled (bp_owner s)"
  by (simp_all add: set_queue_def)

lemma bp_record_simps [scope_simps]:
  "bp_owner (bp_record m c p s) = bp_owner s" "bp_permits (bp_record m c p s) = bp_permits s"
  "bp_activity (bp_record m c p s) = bp_activity s" "bp_policy (bp_record m c p s) = bp_policy s"
  "bp_closed (bp_record m c p s) = bp_closed s"
  "bp_pressure (bp_record m c p s) = pressure_record m c p (bp_pressure s)"
  by (simp_all add: bp_record_def)

lemma bp_increment_simps [scope_simps]:
  "bp_owner (bp_increment c s) = bp_owner s" "bp_permits (bp_increment c s) = bp_permits s"
  "bp_activity (bp_increment c s) = bp_activity s" "bp_policy (bp_increment c s) = bp_policy s"
  "bp_closed (bp_increment c s) = bp_closed s" "bp_pressure (bp_increment c s) = bp_pressure s"
  by (simp_all add: bp_increment_def)

lemma commit_simps [scope_simps]:
  "bp_owner (commit_recoveries_if_idle s) = bp_owner s"
  "bp_permits (commit_recoveries_if_idle s) = bp_permits s"
  "bp_activity (commit_recoveries_if_idle s) = bp_activity s"
  "bp_policy (commit_recoveries_if_idle s) = bp_policy s"
  "bp_closed (commit_recoveries_if_idle s) = bp_closed s"
  by (simp_all add: commit_recoveries_if_idle_def)

lemma bp_retire_owner_simps [scope_simps]:
  "bp_permits (snd (bp_retire_owner s)) = bp_permits s" "bp_activity (snd (bp_retire_owner s)) = bp_activity s"
  "bp_policy (snd (bp_retire_owner s)) = bp_policy s" "bp_pressure (snd (bp_retire_owner s)) = bp_pressure s"
  "bp_closed (snd (bp_retire_owner s)) = bp_closed s"
  by (simp_all add: bp_retire_owner_def case_prod_beta)

lemma bp_retire_owner_queue:
  assumes "queue_inv (bp_queue s)"
  shows "queue_inv (bp_queue (snd (bp_retire_owner s))) \<and> queued (bp_queue (snd (bp_retire_owner s))) = []"
proof -
  have "bp_queue (snd (bp_retire_owner s)) = snd (bq_retire_and_take (bp_queue s))"
    by (auto simp: bp_retire_owner_def owner_retire_def Let_def split: prod.splits option.splits)
  then show ?thesis using retire_effect [OF assms] by simp
qed

lemma bp_finish_simps [scope_simps]:
  "fst (bp_finish d s) = d"
  "bp_permits (snd (bp_finish d s)) = bp_permits s" "bp_activity (snd (bp_finish d s)) = bp_activity s"
  "bp_policy (snd (bp_finish d s)) = bp_policy s" "bp_pressure (snd (bp_finish d s)) = bp_pressure s"
  by (auto simp: bp_finish_def Let_def scope_simps split: buffer_disposition.splits)

lemma bp_finish_open [scope_simps]:
  "bp_owner (snd (bp_finish BufQueued s)) = bp_owner s" "bp_closed (snd (bp_finish BufQueued s)) = bp_closed s"
  "bp_owner (snd (bp_finish BufCoalesced s)) = bp_owner s"
  "bp_closed (snd (bp_finish BufCoalesced s)) = bp_closed s"
  "bp_owner (snd (bp_finish BufDegraded s)) = bp_owner s"
  "bp_closed (snd (bp_finish BufDegraded s)) = bp_closed s"
  by (simp_all add: bp_finish_def scope_simps)

lemma bp_finish_closed:
  assumes "scope_inv s"
  shows "scope_inv (snd (bp_finish (BufClosed code) s)) \<and> bp_closed (snd (bp_finish (BufClosed code) s)) \<noteq> None
    \<and> (bp_closed s = None \<longrightarrow> bp_closed (snd (bp_finish (BufClosed code) s)) = Some code
         \<and> queued (bp_queue (snd (bp_finish (BufClosed code) s))) = [])"
proof (cases "bp_closed s")
  case (Some c)
  then show ?thesis using assms by (simp add: bp_finish_def)
next
  case None
  let ?s = "s\<lparr>bp_closed := Some code\<rparr>"
  have q: "bp_queue (bp_increment CountRejected ?s) = bp_queue s" "bp_queue ?s = bp_queue s"
    by (simp_all add: scope_simps)
  have i: "queue_inv (bp_queue ?s)" "queue_inv (bp_queue (bp_increment CountRejected ?s))"
    using assms q by (simp_all add: scope_inv_def)
  show ?thesis
    using None bp_retire_owner_queue [OF i(1)] bp_retire_owner_queue [OF i(2)] grouped_empty
    by (cases code) (simp_all add: bp_finish_def Let_def scope_simps scope_inv_def)
qed

lemma commit_inv [simp]: "scope_inv (commit_recoveries_if_idle s) = scope_inv s"
  by (simp add: scope_inv_def scope_simps)

subsection \<open>Offers\<close>

lemma classify_replace_next:
  assumes "classify_tail (coalescing_key_of a) (env_position (ae_envelope a)) tail = AdmitReplace"
  shows "\<exists>t. tail = Some t \<and> bf_group t = GroupSingle
    \<and> coalescing_key_of (bf_authorized t) = coalescing_key_of a
    \<and> next_position (bf_position t) (env_position (ae_envelope a))"
proof -
  obtain t key e where t: "tail = Some t" "bf_group t = GroupSingle" "coalescing_key_of a = Some key"
    "coalescing_key_of (bf_authorized t) = Some key"
    "checked_add_u64 (sp_sequence (bf_position t)) 1 = Some e" "sp_sequence (env_position (ae_envelope a)) = e"
    using assms by (auto simp: classify_tail_def split: option.splits if_splits)
  have epoch: "coalescing_key_of b = Some key \<Longrightarrow> ck_epoch key = sp_epoch (env_position (ae_envelope b))" for b :: "'v authorized_entry"
    by (auto simp: coalescing_key_of_def Let_def split: async_payload.splits)
  show ?thesis using t epoch [OF t(3)] epoch [OF t(4)] checked_next_position [OF t(5)] by simp
qed

lemma admit_tail_replaced:
  assumes "rq_try_admit_tail_with bytes x decide q = Some (Inr TailReplaced, q')"
  shows "decide (bq_back q) = AdmitReplace"
proof -
  obtain r p where p: "bq_try_push_preserving bytes x q = (r, p)" by fastforce
  show ?thesis using assms p
    by (cases "decide (bq_back q)"; cases "bq_retired q"; cases r)
      (auto simp: rq_try_admit_tail_with_def bq_try_admit_tail_preserving_def)
qed

text \<open>What each disposition says of the queue of waiting entries and of what is owed.\<close>

definition owed_more :: "'v authorized_entry \<Rightarrow> 'v backpressure \<Rightarrow> pressure_membership pressure_state" where
  "owed_more a s = pressure_record (membership_of a) CauseAdmission (env_position (ae_envelope a)) (bp_pressure s)"

fun offer_outcome ::
  "'v authorized_entry \<Rightarrow> 'v backpressure \<Rightarrow> buffer_disposition \<Rightarrow> 'v backpressure \<Rightarrow> bool" where
  "offer_outcome a s BufQueued s' =
     (queued (bp_queue s') = queued (bp_queue s) @ [entry_single a] \<and> bp_pressure s' = bp_pressure s)"
| "offer_outcome a s BufCoalesced s' =
     (queued (bp_queue s') = queued (bp_queue s) \<and> bp_pressure s' = bp_pressure s
      \<or> queued (bp_queue s) \<noteq> [] \<and> queued (bp_queue s') = butlast (queued (bp_queue s)) @ [entry_single a]
        \<and> bp_pressure s' = owed_more a s
        \<and> coalescing_key_of (bf_authorized (last (queued (bp_queue s)))) = coalescing_key_of a
        \<and> next_position (bf_position (last (queued (bp_queue s)))) (env_position (ae_envelope a)))"
| "offer_outcome a s BufDegraded s' =
     (queued (bp_queue s') = queued (bp_queue s) \<and> bp_pressure s' = owed_more a s)"
| "offer_outcome a s (BufClosed code) s' =
     (bp_closed s' = Some code \<and> bp_pressure s' = bp_pressure s
      \<and> (if bp_closed s = None then queued (bp_queue s') = [] else s' = s))"

lemma offer_admit_effect:
  assumes inv: "scope_inv s" and live: "bp_closed s = None"
  obtains d s' where "offer_admit bytes a s = Some (d, s')" "scope_inv s'"
    "bp_activity s' = bp_activity s" "bp_policy s' = bp_policy s" "bp_permits s' = bp_permits s"
    "offer_outcome a s d s'"
proof -
  have qi: "queue_inv (bp_queue s)" and g: "grouped (queued (bp_queue s))"
    using inv by (simp_all add: scope_inv_def)
  let ?key = "coalescing_key_of a" and ?p = "env_position (ae_envelope a)"
  let ?decide = "classify_tail ?key ?p"
  let ?rec = "pressure_record (membership_of a) CauseAdmission ?p (bp_pressure s)"
  have single: "bf_group (entry_single a) = GroupSingle" by (simp add: entry_single_def)
  obtain ans q where step: "queue_step (OpAdmitTail bytes (entry_single a) ?decide) (bp_queue s) = Some (ans, q)"
    and qv: "queue_inv q" and fifo: "fifo_step (OpAdmitTail bytes (entry_single a) ?decide) ans (queued (bp_queue s)) (queued q)"
    using queue_step_effect [OF qi, of "OpAdmitTail bytes (entry_single a) ?decide"] by blast
  obtain r where r: "rq_try_admit_tail_with bytes (entry_single a) ?decide (bp_queue s) = Some (r, q)"
    and ans: "ans = AnsTail r" using step by auto
  define s1 where "s1 = set_queue q s"
  define s2 where "s2 = bp_record (membership_of a) CauseAdmission ?p s1"
  note out = r offer_admit_def [of bytes a s, unfolded Let_def, folded s1_def]
  have same: "bp_queue s1 = q" "bp_queue s2 = q" "bp_pressure s1 = bp_pressure s" "bp_pressure s2 = ?rec"
    by (simp_all add: s1_def s2_def scope_simps)
  note simps = s1_def s2_def scope_simps scope_inv_def owed_more_def
  consider (app) "r = Inr TailAppended" | (rep) "r = Inr TailReplaced" | (ret) "r = Inr TailRetained"
    | (rej) "r = Inr TailRejected" | (gone) "r = Inl ResourceRetired"
    | (full) e where "r = Inl e" "e \<noteq> ResourceRetired"
  proof (cases r)
    case (Inr v)
    then show ?thesis using that by (cases v) auto
  qed (use that in blast)
  then show ?thesis
  proof cases
    case app
    have "grouped (queued q)" using fifo ans app g grouped_append [OF g grouped_single [OF single]] by simp
    then show ?thesis using that [of BufQueued "snd (bp_finish BufQueued s1)"] out app fifo ans qv
      by (simp add: simps prod_eq_iff)
  next
    case rep
    have dec: "?decide (bq_back (bp_queue s)) = AdmitReplace"
      by (rule admit_tail_replaced [OF r [unfolded rep]])
    have x: "queued (bp_queue s) \<noteq> []" "queued q = butlast (queued (bp_queue s)) @ [entry_single a]"
      using fifo ans rep by auto
    have behind: "bq_back (bp_queue s) = Some (last (queued (bp_queue s)))" using x by (simp add: bq_back_queued)
    have t: "bf_group (last (queued (bp_queue s))) = GroupSingle"
      "coalescing_key_of (bf_authorized (last (queued (bp_queue s)))) = coalescing_key_of a"
      "next_position (bf_position (last (queued (bp_queue s)))) ?p"
      using classify_replace_next [OF dec] behind by auto
    have "grouped (queued q)"
      using x grouped_append [OF grouped_butlast [OF g x(1) t(1)] grouped_single [OF single]] by simp
    then show ?thesis using that [of BufCoalesced "snd (bp_finish BufCoalesced s2)"] out rep x qv t
      by (simp add: simps prod_eq_iff)
  next
    case ret
    have "queued q = queued (bp_queue s)" using fifo ans ret by simp
    then show ?thesis using that [of BufCoalesced "snd (bp_finish BufCoalesced s1)"] out ret qv g
      by (simp add: simps prod_eq_iff)
  next
    case rej
    have "queued q = queued (bp_queue s)" using fifo ans rej by simp
    then show ?thesis using that [of BufDegraded "snd (bp_finish BufDegraded s2)"] out rej qv g
      by (simp add: simps prod_eq_iff)
  next
    case gone
    have "queued q = queued (bp_queue s)" using fifo ans gone by simp
    then have "scope_inv s1" using qv g by (simp add: simps)
    then show ?thesis
      using that [of "BufClosed CloseRetired" "snd (bp_finish (BufClosed CloseRetired) s1)"] out gone
        bp_finish_closed [of s1 CloseRetired] live
      by (simp add: s1_def scope_simps prod_eq_iff)
  next
    case full
    have "queued q = queued (bp_queue s)" using fifo ans full by simp
    then show ?thesis using that [of BufDegraded "snd (bp_finish BufDegraded s2)"] out full qv g
      by (cases e) (simp_all add: simps prod_eq_iff)
  qed
qed

lemma bp_offer_effect:
  assumes inv: "scope_inv s"
  obtains d s' where "bp_offer j b a s = Some (d, s')" "scope_inv s'"
    "bp_activity s' = bp_activity s" "bp_policy s' = bp_policy s" "bp_permits s' = bp_permits s"
    "offer_outcome a s d s'"
proof (cases "bp_closed s")
  case (Some code)
  then show ?thesis using that [of "BufClosed code" s] inv by (simp add: bp_offer_def)
next
  case None
  have "(\<exists>code. bp_offer j b a s = Some (bp_finish (BufClosed code) s))
      \<or> (\<exists>bytes. bp_offer j b a s = offer_admit bytes a s)"
    by (auto simp: bp_offer_def None split: sum.split)
  then consider (closed) code where "bp_offer j b a s = Some (bp_finish (BufClosed code) s)"
    | (admit) bytes where "bp_offer j b a s = offer_admit bytes a s" by blast
  then show ?thesis
  proof cases
    case closed
    then show ?thesis
      using that [of "BufClosed code" "snd (bp_finish (BufClosed code) s)"] bp_finish_closed [OF inv, of code] None
      by (simp add: scope_simps prod_eq_iff)
  next
    case admit
    then show ?thesis using that offer_admit_effect [OF inv None, of bytes a] by metis
  qed
qed

text \<open>A transcript enters whole, as one group at the end, or changes nothing.\<close>

lemma bp_offer_replay_effect:
  fixes s :: "'v backpressure"
  assumes inv: "scope_inv s" and step: "bp_offer_replay j b ts s = (r, s')"
    and live: "\<forall>a \<in> set ts. \<not> ae_terminal a"
  shows "scope_inv s' \<and> bp_activity s' = bp_activity s \<and> bp_policy s' = bp_policy s
    \<and> bp_permits s' = bp_permits s \<and> bp_pressure s' = bp_pressure s
    \<and> (case r of
        Inr BufQueued \<Rightarrow> \<exists>g. group_ok g \<and> map bf_authorized g = ts
          \<and> queued (bp_queue s') = queued (bp_queue s) @ g
      | Inr (BufClosed code) \<Rightarrow> bp_closed s' = Some code
      | Inr d \<Rightarrow> False
      | Inl e \<Rightarrow> s' = s)"
proof (cases "bp_closed s")
  case (Some code)
  then show ?thesis using step inv by (auto simp: bp_offer_replay_def Let_def)
next
  case None
  have closed: "?thesis" if "(r, s') = (Inr (BufClosed code), snd (bp_finish (BufClosed code) s))" for code
    using that bp_finish_closed [OF inv, of code] None by (simp add: scope_simps)
  have invalid: "?thesis" if "(r, s') = (Inl CloseInvalidEnvelope, s)" using that inv by simp
  have fin: "(case bp_finish d t of (d, s) \<Rightarrow> (Inr d :: close_code + buffer_disposition, s))
      = (Inr d, snd (bp_finish d t))" for d and t :: "'v backpressure"
    by (simp add: case_prod_beta scope_simps)
  show ?thesis
  proof (cases "\<exists>bytes prepared q. prepare_transcript j b (bp_policy s) (length ts) 0 0 ts = Inr (bytes, prepared)
      \<and> rq_try_push_batch prepared (bp_queue s) = (Inr (), q)
      \<and> (r, s') = (Inr BufQueued, snd (bp_finish BufQueued (set_queue q s)))")
    case False
    then have "(\<exists>code. (r, s') = (Inr (BufClosed code), snd (bp_finish (BufClosed code) s)))
        \<or> (r, s') = (Inl CloseInvalidEnvelope, s)"
      using step None fin
      by (auto simp: bp_offer_replay_def Let_def split: if_splits sum.splits option.splits prod.splits
          resource_error.splits)
    then show ?thesis using closed invalid by blast
  next
    case True
    then obtain bytes prepared q where
      prep: "prepare_transcript j b (bp_policy s) (length ts) 0 0 ts = Inr (bytes, prepared)"
      and push: "rq_try_push_batch prepared (bp_queue s) = (Inr (), q)"
      and rs: "(r, s') = (Inr BufQueued, snd (bp_finish BufQueued (set_queue q s)))" by blast
    have ne: "ts \<noteq> []" and scope: "\<not> windows2_any (\<lambda>previous following. \<not> same_replay_scope previous following
                    \<or> checked_add_u64 (sp_sequence (env_position (ae_envelope previous))) 1
                        \<noteq> Some (sp_sequence (env_position (ae_envelope following)))) ts"
      using step None rs by (auto simp: bp_offer_replay_def Let_def fin split: if_splits)
    have g: "group_ok (map snd prepared)" by (rule prepared_group_ok [OF prep ne scope live])
    have auth: "map bf_authorized (map snd prepared) = ts"
      unfolding prepare_transcript_entries [OF prep]
      by (rule nth_equalityI) (simp_all add: entry_replay_def)
    have eff: "queue_inv q" "queued q = queued (bp_queue s) @ map snd prepared"
      using batch_effect [OF _ push] inv by (simp_all add: scope_inv_def)
    have "grouped (queued q)"
      unfolding eff(2) using inv grouped_group [OF g grouped_empty]
      by (intro grouped_append) (simp_all add: scope_inv_def)
    then show ?thesis using rs g auth eff by (auto simp: scope_simps scope_inv_def)
  qed
qed

subsection \<open>Leases\<close>

lemma lease_of_group:
  assumes "entries \<noteq> []"
  obtains lease where "lease_of policy entries = Some lease" "ls_entries lease = entries"
    "ls_membership lease = membership_of (bf_authorized (hd entries))" "\<not> ls_resolved lease"
    "\<forall>e \<in> set entries. position_covers (ls_high_water lease) (bf_position e)"
proof -
  obtain hw where "position_max (map bf_position entries) = Some hw"
    "\<forall>p \<in> set (map bf_position entries). position_covers hw p"
    using position_max_all [of "map bf_position entries"] assms by auto
  then show ?thesis using that assms by (cases entries) (auto simp: lease_of_def)
qed

lemma try_start_effect:
  assumes inv: "scope_inv s" and step: "try_start_delivery s = Some (r, s')"
  shows "scope_inv s' \<and> bp_pressure s' = bp_pressure s \<and> bp_policy s' = bp_policy s
    \<and> (case r of
        None \<Rightarrow> bp_activity s' = bp_activity s \<and> bp_permits s' = bp_permits s
      | Some lease \<Rightarrow> \<not> ls_resolved lease \<and> ls_entries lease \<noteq> [] \<and> bp_activity s' = Suc (bp_activity s)
          \<and> pp_active (bp_permits s') = Suc (pp_active (bp_permits s))
          \<and> pp_active (bp_permits s) < pp_max_active (bp_permits s)
          \<and> pp_max_active (bp_permits s') = pp_max_active (bp_permits s))"
proof (cases "bp_closed s \<noteq> None \<or> ow_canceled (bp_owner s)")
  case True
  then show ?thesis using step inv bp_finish_closed [OF inv, of CloseRetired]
    by (auto simp: try_start_delivery_def scope_simps split: if_splits)
next
  case live: False
  show ?thesis
  proof (cases "permit_try_acquire (bp_permits s)")
    case None
    then show ?thesis using step inv live by (auto simp: try_start_delivery_def)
  next
    case (Some permits)
    note permit = this
    have p: "pp_active permits = Suc (pp_active (bp_permits s))"
      "pp_active (bp_permits s) < pp_max_active (bp_permits s)"
      "pp_max_active permits = pp_max_active (bp_permits s)"
      using Some by (auto simp: permit_try_acquire_def split: if_splits)
    have qi: "queue_inv (bp_queue s)" and gr: "grouped (queued (bp_queue s))"
      using inv by (simp_all add: scope_inv_def)
    show ?thesis using gr
    proof (cases rule: grouped.cases)
      case grouped_empty
      then have "bq_items (bp_queue s) = []" by (simp add: queued_def)
      then show ?thesis using step inv live Some
        by (auto simp: try_start_delivery_def bq_pop_batch_preserving_def scope_simps scope_inv_def)
    next
      case (grouped_group g rest)
      have ne: "g \<noteq> []" using grouped_group(2) by (simp add: group_ok_def)
      obtain q where q: "bq_pop_batch_preserving dequeue_group_len (bp_queue s) = Some (Some g, q)"
        "queue_inv q" "queued q = rest"
        by (rule pop_batch_group [OF qi grouped_group(1,2)])
      obtain lease where lease: "lease_of (bp_policy s) g = Some lease" "\<not> ls_resolved lease"
          "ls_entries lease = g"
        by (rule lease_of_group [OF ne, of "bp_policy s"])
      have "(r, s') = (Some lease, (set_queue q s)\<lparr>bp_permits := permits, bp_activity := bp_activity s + 1\<rparr>)"
        using step live permit q(1) lease(1) by (simp add: try_start_delivery_def)
      then show ?thesis using p q lease ne grouped_group(3)
        by (auto simp: scope_simps scope_inv_def)
    qed
  qed
qed

text \<open>
  The whole queue head is leased whenever something waits, the scope is open and a permit is free.
\<close>

lemma try_start_progress:
  assumes inv: "scope_inv s" and live: "bp_closed s = None" "\<not> ow_canceled (bp_owner s)"
    and permit: "pp_active (bp_permits s) < pp_max_active (bp_permits s)"
    and waiting: "queued (bp_queue s) \<noteq> []"
  shows "\<exists>lease s'. try_start_delivery s = Some (Some lease, s') \<and> group_ok (ls_entries lease)
    \<and> queued (bp_queue s) = ls_entries lease @ queued (bp_queue s')"
proof -
  obtain g rest where g: "queued (bp_queue s) = g @ rest" "group_ok g"
    using inv waiting unfolding scope_inv_def by (auto elim: grouped.cases)
  obtain q where q: "bq_pop_batch_preserving dequeue_group_len (bp_queue s) = Some (Some g, q)" "queued q = rest"
    using pop_batch_group [OF _ g] inv unfolding scope_inv_def by metis
  have ne: "g \<noteq> []" using g(2) by (simp add: group_ok_def)
  obtain lease where lease: "lease_of (bp_policy s) g = Some lease" "ls_entries lease = g"
    using lease_of_group [OF ne] by metis
  show ?thesis using q lease live permit g
    by (simp add: try_start_delivery_def permit_try_acquire_def scope_simps)
qed

end
