(* ===== verification/Delivery_Life.thy ===== *)
theory Delivery_Life
  imports Delivery_Props
begin

text \<open>
  The life of one delivery scope: any sequence of its operations, with the leases it has handed
  out, other scopes taking and returning permits of the shared pool, and other holders setting the
  cancellation flag. A step is labelled with the positions it lost, the recovery it noted and the
  memberships it retired.
\<close>

subsection \<open>Settling a lease\<close>

definition lease_settle ::
  "pressure_cause option \<Rightarrow> 'v delivery_lease \<Rightarrow> 'v backpressure \<Rightarrow> 'v backpressure" where
  "lease_settle lost lease s =
     (let s1 = (case lost of None \<Rightarrow> s | Some cause \<Rightarrow> lease_record cause lease s)
      in commit_recoveries_if_idle
           (s1\<lparr>bp_permits := permit_release (bp_permits s1), bp_activity := bp_activity s1 - 1\<rparr>))"

lemma lease_drop_settle:
  "\<not> ls_resolved lease \<Longrightarrow> lease_drop lease s = lease_settle (Some CauseDelivery) lease s"
  "ls_resolved (lease_resolve lease)"
  "lease_drop (lease_resolve lease) s = lease_settle None lease s"
  "lease_settle None lease (lease_record c lease s) = lease_settle (Some c) lease s"
  by (simp_all add: lease_drop_def lease_settle_def lease_resolve_def Let_def)

lemma lease_dispatch_settles:
  assumes "lease_dispatch port now lease m s h = Some (r, m', s', h')" and "\<not> ls_resolved lease"
  shows "\<exists>lost. s' = lease_settle lost lease s
    \<and> (lost = None \<longleftrightarrow> r \<in> {Inr SeqApply, Inr IgnoreDuplicate, Inr IgnoreStaleEpoch})"
  using assms
  by (auto simp: lease_dispatch_def lease_drop_settle split: if_splits list.splits prod.splits sum.splits)

lemma lease_dispatch_replay_settles:
  assumes "lease_dispatch_replay port validate canceled lease m s h = (r, m', s', h')" and "\<not> ls_resolved lease"
  shows "\<exists>lost. s' = lease_settle lost lease s \<and> (lost = None \<longleftrightarrow> is_ok r)"
  using assms
  by (auto simp: lease_dispatch_replay_def Let_def lease_drop_settle split: if_splits prod.splits sum.splits)

lemma lease_settle_simps [scope_simps]:
  "bp_owner (lease_settle lost lease s) = bp_owner s"
  "bp_permits (lease_settle lost lease s) = permit_release (bp_permits s)"
  "bp_activity (lease_settle lost lease s) = bp_activity s - 1"
  "bp_policy (lease_settle lost lease s) = bp_policy s"
  "bp_closed (lease_settle lost lease s) = bp_closed s"
  by (cases lost; simp add: lease_settle_def lease_record_def Let_def scope_simps)+

subsection \<open>Steps\<close>

record ('v, 'h) scope_world =
  sw_scope :: "'v backpressure"
  sw_leases :: "'v delivery_lease list"
  sw_others :: nat
  sw_host :: 'h

record scope_label =
  lb_lost :: "(pressure_membership \<times> stream_position) list"
  lb_recovered :: "(pressure_membership \<times> stream_position) option"
  lb_retired :: "pressure_membership \<Rightarrow> bool"

definition quiet_label :: scope_label where
  "quiet_label = \<lparr>lb_lost = [], lb_recovered = None, lb_retired = (\<lambda>_. False)\<rparr>"

definition losing :: "(pressure_membership \<times> stream_position) list \<Rightarrow> scope_label" where
  "losing lost = quiet_label\<lparr>lb_lost := lost\<rparr>"

definition lease_loss :: "bool \<Rightarrow> 'v delivery_lease \<Rightarrow> (pressure_membership \<times> stream_position) list" where
  "lease_loss lost lease = (if lost then [(ls_membership lease, ls_high_water lease)] else [])"

definition drop_nth :: "nat \<Rightarrow> 'a list \<Rightarrow> 'a list" where
  "drop_nth i xs = take i xs @ drop (Suc i) xs"

inductive scope_step ::
  "json_text \<Rightarrow> base64_engine \<Rightarrow> ('v, 'h) scope_world \<Rightarrow> scope_label \<Rightarrow> ('v, 'h) scope_world \<Rightarrow> bool"
  for j b where
  step_offer: "bp_offer j b a (sw_scope w) = Some (d, s') \<Longrightarrow>
    scope_step j b w (losing (if d = BufDegraded then [(membership_of a, env_position (ae_envelope a))] else []))
      (w\<lparr>sw_scope := s'\<rparr>)"
| step_offer_replay: "bp_offer_replay j b ts (sw_scope w) = (r, s') \<Longrightarrow> \<forall>a \<in> set ts. \<not> ae_terminal a \<Longrightarrow>
    scope_step j b w quiet_label (w\<lparr>sw_scope := s'\<rparr>)"
| step_preflight: "bp_preflight_replay j b es (sw_scope w) = (p, s') \<Longrightarrow>
    scope_step j b w quiet_label (w\<lparr>sw_scope := s'\<rparr>)"
| step_start: "try_start_delivery (sw_scope w) = Some (r, s') \<Longrightarrow>
    scope_step j b w quiet_label
      (w\<lparr>sw_scope := s', sw_leases := sw_leases w @ (case r of None \<Rightarrow> [] | Some lease \<Rightarrow> [lease])\<rparr>)"
| step_abandon: "i < length (sw_leases w) \<Longrightarrow>
    scope_step j b w (losing (lease_loss True (sw_leases w ! i)))
      (w\<lparr>sw_scope := lease_drop (sw_leases w ! i) (sw_scope w), sw_leases := drop_nth i (sw_leases w)\<rparr>)"
| step_dispatch: "i < length (sw_leases w) \<Longrightarrow>
    lease_dispatch port now (sw_leases w ! i) m (sw_scope w) (sw_host w) = Some (r, m', s', h') \<Longrightarrow>
    scope_step j b w
      (losing (lease_loss (r \<notin> {Inr SeqApply, Inr IgnoreDuplicate, Inr IgnoreStaleEpoch}) (sw_leases w ! i)))
      (w\<lparr>sw_scope := s', sw_leases := drop_nth i (sw_leases w), sw_host := h'\<rparr>)"
| step_dispatch_replay: "i < length (sw_leases w) \<Longrightarrow>
    lease_dispatch_replay port validate canceled (sw_leases w ! i) m (sw_scope w) (sw_host w) = (r', m', s', h') \<Longrightarrow>
    scope_step j b w (losing (lease_loss (\<not> is_ok r') (sw_leases w ! i)))
      (w\<lparr>sw_scope := s', sw_leases := drop_nth i (sw_leases w), sw_host := h'\<rparr>)"
| step_recovery: "scope_step j b w (quiet_label\<lparr>lb_recovered := Some (membership, through)\<rparr>)
    (w\<lparr>sw_scope := record_replay_recovery membership through (sw_scope w)\<rparr>)"
| step_commit: "scope_step j b w quiet_label (w\<lparr>sw_scope := commit_recoveries_if_idle (sw_scope w)\<rparr>)"
| step_loss: "scope_step j b w (losing [(membership, high_water)])
    (w\<lparr>sw_scope := record_delivery_loss membership high_water (sw_scope w)\<rparr>)"
| step_candidate: "scope_step j b w (losing [(membership, high_water)])
    (w\<lparr>sw_scope := pulled_candidate_drop (Some membership) high_water (sw_scope w)\<rparr>)"
| step_retire_membership: "bp_retire_membership subscription binding (sw_scope w) = Some (n, s') \<Longrightarrow>
    scope_step j b w
      (quiet_label\<lparr>lb_retired := (\<lambda>m. pm_subscription m = subscription \<and> pm_binding m = binding)\<rparr>)
      (w\<lparr>sw_scope := s'\<rparr>)"
| step_retain: "bp_retain_current_memberships is_current (sw_scope w) = Some (n, s') \<Longrightarrow>
    scope_step j b w
      (losing (map (\<lambda>entry. (membership_of (bf_authorized entry), bf_position entry))
         (filter (detached_entry is_current) (queued (bp_queue (sw_scope w))))))
      (w\<lparr>sw_scope := s'\<rparr>)"
| step_retire: "scope_step j b w (quiet_label\<lparr>lb_retired := (\<lambda>m. True)\<rparr>)
    (w\<lparr>sw_scope := snd (bp_retire (sw_scope w))\<rparr>)"
| step_other_acquires: "permit_try_acquire (bp_permits (sw_scope w)) = Some permits \<Longrightarrow>
    scope_step j b w quiet_label
      (w\<lparr>sw_scope := (sw_scope w)\<lparr>bp_permits := permits\<rparr>, sw_others := sw_others w + 1\<rparr>)"
| step_other_releases: "0 < sw_others w \<Longrightarrow>
    scope_step j b w quiet_label
      (w\<lparr>sw_scope := (sw_scope w)\<lparr>bp_permits := permit_release (bp_permits (sw_scope w))\<rparr>, sw_others := sw_others w - 1\<rparr>)"
| step_cancel: "scope_step j b w quiet_label
    (w\<lparr>sw_scope := (sw_scope w)\<lparr>bp_owner := (bp_owner (sw_scope w))\<lparr>ow_canceled := True\<rparr>\<rparr>\<rparr>)"

inductive scope_run ::
  "json_text \<Rightarrow> base64_engine \<Rightarrow> ('v, 'h) scope_world \<Rightarrow> scope_label list \<Rightarrow> ('v, 'h) scope_world \<Rightarrow> bool"
  for j b w0 where
  run_start: "scope_run j b w0 [] w0"
| run_step: "scope_run j b w0 ls w \<Longrightarrow> scope_step j b w l w' \<Longrightarrow> scope_run j b w0 (ls @ [l]) w'"

definition scope_start :: "('v, 'h) scope_world \<Rightarrow> bool" where
  "scope_start w = (\<exists>bounds permits policy s. bounds_ok bounds
     \<and> backpressure_new (owner_new bounds) permits policy = Inr s
     \<and> pp_active permits \<le> pp_max_active permits \<and> sw_scope w = s \<and> sw_leases w = []
     \<and> sw_others w = pp_active permits)"

subsection \<open>The invariant\<close>

definition world_inv :: "('v, 'h) scope_world \<Rightarrow> bool" where
  "world_inv w = (scope_inv (sw_scope w)
     \<and> bp_activity (sw_scope w) = length (sw_leases w)
     \<and> pp_active (bp_permits (sw_scope w)) = length (sw_leases w) + sw_others w
     \<and> pp_active (bp_permits (sw_scope w)) \<le> pp_max_active (bp_permits (sw_scope w))
     \<and> (\<forall>lease \<in> set (sw_leases w). \<not> ls_resolved lease \<and> ls_entries lease \<noteq> []))"

lemma queued_bq_new [simp]: "queued (bq_new bounds) = []"
  by (simp add: queued_def bq_new_def)

lemma backpressure_new_ok:
  "backpressure_new owner permits policy = Inr s \<Longrightarrow> bp_owner s = owner \<and> bp_permits s = permits
   \<and> bp_activity s = 0 \<and> bp_policy s = policy \<and> bp_pressure s = pressure_default \<and> bp_closed s = None"
  by (auto simp: backpressure_new_def Let_def split: if_splits)

lemma scope_start_inv: "scope_start w \<Longrightarrow> world_inv w \<and> bp_pressure (sw_scope w) = pressure_default"
  unfolding scope_start_def world_inv_def scope_inv_def
  by (auto simp: owner_new_def bq_new_inv grouped_empty dest!: backpressure_new_ok)

lemma drop_nth: "i < length xs \<Longrightarrow> length (drop_nth i xs) = length xs - 1"
  "x \<in> set (drop_nth i xs) \<Longrightarrow> x \<in> set xs"
  by (auto simp: drop_nth_def dest: in_set_takeD in_set_dropD)

lemma world_inv_host [simp]: "world_inv (w\<lparr>sw_host := h\<rparr>) = world_inv w"
  by (simp add: world_inv_def)

lemma settle_inv:
  assumes "world_inv w" and "i < length (sw_leases w)"
  shows "world_inv (w\<lparr>sw_scope := lease_settle lost lease (sw_scope w), sw_leases := drop_nth i (sw_leases w)\<rparr>)"
  using assms drop_nth(1) [OF assms(2)]
  by (auto simp: world_inv_def scope_simps scope_inv_def permit_release_def dest: drop_nth(2))

lemma remove_if_scope:
  assumes inv: "scope_inv s" and uniform: "group_uniform p"
  obtains q where "rq_remove_if p (bp_queue s) = Some ((length (filter p (queued (bp_queue s))),
      queue_bytes (filter (\<lambda>item. p (snd item)) (bq_items (bp_queue s)))), q)" "queue_inv q" "grouped (queued q)"
    "queued q = filter (\<lambda>e. \<not> p e) (queued (bp_queue s))"
proof -
  obtain q where q: "bq_remove_if_preserving p (bp_queue s) = Some (\<lparr>ri_items = filter (\<lambda>item. p (snd item)) (bq_items (bp_queue s)),
      ri_count = length (filter p (queued (bp_queue s))),
      ri_bytes = queue_bytes (filter (\<lambda>item. p (snd item)) (bq_items (bp_queue s)))\<rparr>, q)"
    "queue_inv q" "bq_items q = filter (\<lambda>item. \<not> p (snd item)) (bq_items (bp_queue s))"
    using remove_if_effect [of "bp_queue s" p] inv by (auto simp: scope_inv_def)
  have "queued q = filter (\<lambda>e. \<not> p e) (queued (bp_queue s))"
    using q(3) by (simp add: queued_def filter_map comp_def)
  moreover from this have "grouped (queued q)"
    using grouped_filter [OF _ uniform] inv by (simp add: scope_inv_def)
  ultimately show ?thesis using that [of q] q by (simp add: rq_remove_if_def)
qed

lemma fold_record_simps [scope_simps]:
  "bp_owner (foldl (\<lambda>s (m, p). bp_record m c p s) s xs) = bp_owner s"
  "bp_permits (foldl (\<lambda>s (m, p). bp_record m c p s) s xs) = bp_permits s"
  "bp_activity (foldl (\<lambda>s (m, p). bp_record m c p s) s xs) = bp_activity s"
  "bp_policy (foldl (\<lambda>s (m, p). bp_record m c p s) s xs) = bp_policy s"
  "bp_closed (foldl (\<lambda>s (m, p). bp_record m c p s) s xs) = bp_closed s"
  by (induction xs arbitrary: s) (auto simp: scope_simps)

lemma bp_retire_simps [scope_simps]:
  "bp_permits (snd (bp_retire s)) = bp_permits s" "bp_activity (snd (bp_retire s)) = bp_activity s"
  by (simp_all add: bp_retire_def Let_def case_prod_beta scope_simps)

lemma bp_retire_inv: "scope_inv s \<Longrightarrow> scope_inv (snd (bp_retire s))"
proof -
  assume inv: "scope_inv s"
  let ?s = "s\<lparr>bp_closed := Some CloseRetired, bp_pressure := pressure_clear (bp_pressure s)\<rparr>"
  have "queue_inv (bp_queue s)" "queue_inv (bp_queue ?s)" using inv by (simp_all add: scope_inv_def)
  then show ?thesis
    using bp_retire_owner_queue [of s] bp_retire_owner_queue [of ?s]
    by (simp add: bp_retire_def Let_def case_prod_beta scope_inv_def scope_simps grouped_empty)
qed

lemma retire_membership_effect:
  assumes "scope_inv s"
  obtains n s' where "bp_retire_membership subscription binding s = Some (n, s')" "scope_inv s'"
    "bp_activity s' = bp_activity s" "bp_permits s' = bp_permits s"
    "queued (bp_queue s') = filter (\<lambda>e. \<not> same_membership subscription binding e) (queued (bp_queue s))"
proof -
  obtain q where q: "rq_remove_if (same_membership subscription binding) (bp_queue s)
      = Some ((length (filter (same_membership subscription binding) (queued (bp_queue s))),
          queue_bytes (filter (\<lambda>item. same_membership subscription binding (snd item)) (bq_items (bp_queue s)))), q)"
    "queue_inv q" "grouped (queued q)"
    "queued q = filter (\<lambda>e. \<not> same_membership subscription binding e) (queued (bp_queue s))"
    by (rule remove_if_scope [OF assms same_membership_uniform])
  show ?thesis using that q
    by (simp add: bp_retire_membership_def Let_def scope_simps scope_inv_def)
qed

lemma retain_effect:
  assumes "scope_inv s"
  obtains n s' where "bp_retain_current_memberships is_current s = Some (n, s')" "scope_inv s'"
    "bp_activity s' = bp_activity s" "bp_permits s' = bp_permits s"
    "queued (bp_queue s') = filter (\<lambda>e. \<not> detached_entry is_current e) (queued (bp_queue s))"
proof -
  obtain q where q: "rq_remove_if (detached_entry is_current) (bp_queue s)
      = Some ((length (filter (detached_entry is_current) (queued (bp_queue s))),
          queue_bytes (filter (\<lambda>item. detached_entry is_current (snd item)) (bq_items (bp_queue s)))), q)"
    "queue_inv q" "grouped (queued q)"
    "queued q = filter (\<lambda>e. \<not> detached_entry is_current e) (queued (bp_queue s))"
    by (rule remove_if_scope [OF assms detached_uniform])
  show ?thesis using that q
    by (simp add: bp_retain_current_memberships_def Let_def scope_simps scope_inv_def)
qed

lemma preflight_replay_effect:
  assumes "scope_inv s" and "bp_preflight_replay j b es s = (r, s')"
  shows "scope_inv s' \<and> bp_activity s' = bp_activity s \<and> bp_permits s' = bp_permits s
    \<and> bp_pressure s' = bp_pressure s"
  using assms bp_finish_closed [OF assms(1), of CloseRetired]
  by (auto simp: bp_preflight_replay_def Let_def scope_simps split: option.splits if_splits)

lemma world_inv_scope:
  assumes "world_inv w" and "scope_inv s'" and "bp_activity s' = bp_activity (sw_scope w)"
    and "bp_permits s' = bp_permits (sw_scope w)"
  shows "world_inv (w\<lparr>sw_scope := s'\<rparr>)"
  using assms by (simp add: world_inv_def)

lemma scope_step_inv:
  assumes step: "scope_step j b w l w'" and inv: "world_inv w"
  shows "world_inv w'"
  using step
proof cases
  case (step_offer a d s')
  have si: "scope_inv (sw_scope w)" using inv by (simp add: world_inv_def)
  obtain d0 s0 where "bp_offer j b a (sw_scope w) = Some (d0, s0)" "scope_inv s0"
    "bp_activity s0 = bp_activity (sw_scope w)" "bp_permits s0 = bp_permits (sw_scope w)"
    by (rule bp_offer_effect [OF si])
  then show ?thesis using step_offer world_inv_scope [OF inv] by simp
next
  case (step_offer_replay ts r s')
  have si: "scope_inv (sw_scope w)" using inv by (simp add: world_inv_def)
  show ?thesis using bp_offer_replay_effect [OF si step_offer_replay(3,4)] step_offer_replay(2)
      world_inv_scope [OF inv] by simp
next
  case (step_preflight es p s')
  have si: "scope_inv (sw_scope w)" using inv by (simp add: world_inv_def)
  show ?thesis using preflight_replay_effect [OF si step_preflight(3)] step_preflight(2)
      world_inv_scope [OF inv] by simp
next
  case (step_start r s')
  have si: "scope_inv (sw_scope w)" using inv by (simp add: world_inv_def)
  show ?thesis using try_start_effect [OF si step_start(3)] step_start(2) inv
    by (cases r) (auto simp: world_inv_def)
next
  case (step_abandon i)
  have "\<not> ls_resolved (sw_leases w ! i)" using inv step_abandon(3) by (simp add: world_inv_def)
  then show ?thesis
    using settle_inv [OF inv step_abandon(3)] step_abandon(2) by (simp add: lease_drop_settle)
next
  case (step_dispatch i port now m r m' s' h')
  have "\<not> ls_resolved (sw_leases w ! i)" using inv step_dispatch(3) by (simp add: world_inv_def)
  then obtain lost where "s' = lease_settle lost (sw_leases w ! i) (sw_scope w)"
    using lease_dispatch_settles [OF step_dispatch(4)] by blast
  then show ?thesis using settle_inv [OF inv step_dispatch(3), of lost "sw_leases w ! i"]
      world_inv_host [where h = h'] step_dispatch(2) by simp
next
  case (step_dispatch_replay i port validate canceled m r m' s' h')
  have "\<not> ls_resolved (sw_leases w ! i)" using inv step_dispatch_replay(3) by (simp add: world_inv_def)
  then obtain lost where "s' = lease_settle lost (sw_leases w ! i) (sw_scope w)"
    using lease_dispatch_replay_settles [OF step_dispatch_replay(4)] by blast
  then show ?thesis using settle_inv [OF inv step_dispatch_replay(3), of lost "sw_leases w ! i"]
      world_inv_host [where h = h'] step_dispatch_replay(2) by simp
next
  case (step_recovery m t)
  then show ?thesis using inv by (simp add: world_inv_def record_replay_recovery_def scope_simps scope_inv_def)
next
  case step_commit
  then show ?thesis using inv by (simp add: world_inv_def scope_simps)
next
  case (step_loss m p)
  then show ?thesis using inv by (simp add: world_inv_def record_delivery_loss_def scope_simps scope_inv_def)
next
  case (step_candidate m p)
  then show ?thesis using inv by (simp add: world_inv_def pulled_candidate_drop_def scope_simps scope_inv_def)
next
  case (step_retire_membership subscription binding n s')
  have si: "scope_inv (sw_scope w)" using inv by (simp add: world_inv_def)
  obtain n0 s0 where "bp_retire_membership subscription binding (sw_scope w) = Some (n0, s0)" "scope_inv s0"
    "bp_activity s0 = bp_activity (sw_scope w)" "bp_permits s0 = bp_permits (sw_scope w)"
    by (rule retire_membership_effect [OF si])
  then show ?thesis using step_retire_membership world_inv_scope [OF inv] by simp
next
  case (step_retain is_current n s')
  have si: "scope_inv (sw_scope w)" using inv by (simp add: world_inv_def)
  obtain n0 s0 where "bp_retain_current_memberships is_current (sw_scope w) = Some (n0, s0)" "scope_inv s0"
    "bp_activity s0 = bp_activity (sw_scope w)" "bp_permits s0 = bp_permits (sw_scope w)"
    by (rule retain_effect [OF si])
  then show ?thesis using step_retain world_inv_scope [OF inv] by simp
next
  case step_retire
  then show ?thesis using inv bp_retire_inv [of "sw_scope w"] by (simp add: world_inv_def scope_simps)
next
  case (step_other_acquires permits)
  then show ?thesis using inv by (auto simp: world_inv_def scope_inv_def permit_try_acquire_def split: if_splits)
next
  case step_other_releases
  then show ?thesis using inv by (auto simp: world_inv_def scope_inv_def permit_release_def)
next
  case step_cancel
  then show ?thesis using inv by (simp add: world_inv_def scope_inv_def)
qed

lemma scope_run_inv: "scope_run j b w0 ls w \<Longrightarrow> world_inv w0 \<Longrightarrow> world_inv w"
  by (induction rule: scope_run.induct) (auto intro: scope_step_inv)

lemma try_start_total:
  assumes "scope_inv s"
  shows "try_start_delivery s \<noteq> None"
proof -
  have inv: "queue_inv (bp_queue s)" using assms by (simp add: scope_inv_def)
  obtain r q where r: "bq_pop_batch_preserving dequeue_group_len (bp_queue s) = Some (r, q)"
    "case r of None \<Rightarrow> q = bp_queue s
     | Some xs \<Rightarrow> xs \<noteq> [] \<and> queued (bp_queue s) = xs @ queued q \<and> dequeue_group_len 0 (hd xs) = Some (length xs)
         \<and> (\<forall>i < length xs. dequeue_group_len i (xs ! i) = Some (length xs))"
    by (rule pop_batch_effect [OF inv, of dequeue_group_len])
  show ?thesis
  proof (cases r)
    case None
    then show ?thesis using r(1) by (auto simp: try_start_delivery_def split: option.splits)
  next
    case (Some xs)
    obtain lease where "lease_of (bp_policy s) xs = Some lease"
      by (rule lease_of_group [of xs "bp_policy s"]) (use r(2) Some in simp)
    then show ?thesis using r(1) Some by (auto simp: try_start_delivery_def split: option.splits)
  qed
qed

lemma bp_offer_total: "scope_inv s \<Longrightarrow> bp_offer j b a s \<noteq> None"
  by (erule bp_offer_effect [of s j b a]) (simp only: option.distinct not_False_eq_True)

lemma retire_membership_total: "scope_inv s \<Longrightarrow> bp_retire_membership subscription binding s \<noteq> None"
  by (erule retire_membership_effect [of s subscription binding]) (simp only: option.distinct not_False_eq_True)

lemma retain_total: "scope_inv s \<Longrightarrow> bp_retain_current_memberships is_current s \<noteq> None"
  by (erule retain_effect [of s is_current]) (simp only: option.distinct not_False_eq_True)

lemma lease_dispatch_total: "ls_entries lease \<noteq> [] \<Longrightarrow> lease_dispatch port now lease m s h \<noteq> None"
  by (cases "ls_entries lease")
    (auto simp: lease_dispatch_def split: prod.splits sum.splits)

lemma reached_scope_inv:
  assumes "scope_start w0" and "scope_run j b w0 ls w"
  shows "scope_inv (sw_scope w)"
proof -
  have "world_inv w0" using scope_start_inv [OF assms(1)] ..
  then have "world_inv w" by (rule scope_run_inv [OF assms(2)])
  then show ?thesis unfolding world_inv_def ..
qed

subsection \<open>What the scope owes\<close>

abbreviation world_pressure :: "('v, 'h) scope_world \<Rightarrow> pressure_membership pressure_state" where
  "world_pressure w \<equiv> bp_pressure (sw_scope w)"

text \<open>
  A change of the tracker that records \<open>lost\<close>, notes at most one recovery and forgets only what
  \<open>retired\<close> names; what is owed and not recovered survives it.
\<close>

definition keeps_owed ::
  "pressure_membership \<Rightarrow> stream_position \<Rightarrow> pressure_membership pressure_state \<Rightarrow> scope_label \<Rightarrow>
   pressure_membership pressure_state \<Rightarrow> bool" where
  "keeps_owed m p s l s' =
     (unrecovered m p s \<longrightarrow> (\<forall>t. lb_recovered l = Some (m, t) \<longrightarrow> \<not> position_covers t p) \<longrightarrow>
      unrecovered m p s'
      \<and> (\<not> lb_retired l m \<longrightarrow> pressure_owes m p s \<or> (m, p) \<in> set (lb_lost l) \<longrightarrow> pressure_owes m p s'))"

lemma label_simps [simp]:
  "lb_lost quiet_label = []" "lb_recovered quiet_label = None" "lb_retired quiet_label = (\<lambda>_. False)"
  "lb_lost (losing xs) = xs" "lb_recovered (losing xs) = None" "lb_retired (losing xs) = (\<lambda>_. False)"
  by (simp_all add: quiet_label_def losing_def)

lemma losing_nothing [simp]: "losing [] = quiet_label"
  by (simp add: quiet_label_def losing_def)

lemma keeps_owed_same: "keeps_owed m p s quiet_label s"
  by (simp add: keeps_owed_def)

lemma keeps_owed_record: "keeps_owed m p s (losing [(n, q)]) (pressure_record n c q s)"
  using record_owes record_keeps_owed record_unrecovered by (auto simp: keeps_owed_def)

lemma keeps_owed_extra: "keeps_owed m p s quiet_label (pressure_record n c q s)"
  using record_keeps_owed record_unrecovered by (auto simp: keeps_owed_def)

lemma keeps_owed_commit:
  "keeps_owed m p (bp_pressure s0) l (bp_pressure s) \<Longrightarrow>
   keeps_owed m p (bp_pressure s0) l (bp_pressure (commit_recoveries_if_idle s))"
  using commit_keeps_owed commit_unrecovered by (auto simp: keeps_owed_def commit_recoveries_if_idle_def)

lemma keeps_owed_settle:
  "keeps_owed m p (bp_pressure s) (losing (lease_loss (lost \<noteq> None) lease)) (bp_pressure (lease_settle lost lease s))"
proof (cases lost)
  case None
  then show ?thesis
    unfolding lease_settle_def Let_def
    by (intro keeps_owed_commit) (simp add: lease_loss_def keeps_owed_def)
next
  case (Some c)
  then show ?thesis
    unfolding lease_settle_def Let_def
    by (intro keeps_owed_commit)
      (simp add: lease_loss_def lease_record_def scope_simps keeps_owed_record)
qed

lemma fold_record_keeps:
  "(unrecovered m p (bp_pressure s) \<longrightarrow> unrecovered m p (bp_pressure (foldl (\<lambda>s (m, p). bp_record m c p s) s xs)))
   \<and> (pressure_owes m p (bp_pressure s) \<or> (m, p) \<in> set xs \<longrightarrow>
      pressure_owes m p (bp_pressure (foldl (\<lambda>s (m, p). bp_record m c p s) s xs)))"
proof (induction xs arbitrary: s)
  case (Cons x xs)
  obtain n q where x: "x = (n, q)" by fastforce
  have "unrecovered m p (bp_pressure s) \<longrightarrow> unrecovered m p (bp_pressure (bp_record n c q s))"
    by (simp add: scope_simps record_unrecovered)
  moreover have "pressure_owes m p (bp_pressure s) \<or> (m, p) = x \<longrightarrow> pressure_owes m p (bp_pressure (bp_record n c q s))"
    using x record_owes record_keeps_owed by (auto simp: scope_simps)
  ultimately show ?case using Cons.IH [of "bp_record n c q s"] x by auto
qed simp

lemma retire_membership_pressure:
  assumes "bp_retire_membership subscription binding s = Some (n, s')"
  shows "keeps_owed m p (bp_pressure s)
    (quiet_label\<lparr>lb_retired := (\<lambda>m. pm_subscription m = subscription \<and> pm_binding m = binding)\<rparr>) (bp_pressure s')"
proof -
  obtain s1 where s': "s' = commit_recoveries_if_idle s1"
    and s1: "bp_pressure s1 = pressure_retire_membership
      (\<lambda>m. pm_subscription m = subscription \<and> pm_binding m = binding) (bp_pressure s)"
    using assms by (auto simp: bp_retire_membership_def Let_def scope_simps split: option.splits)
  show ?thesis unfolding s'
    by (intro keeps_owed_commit) (simp add: s1 keeps_owed_def retire_keeps_owed retire_unrecovered)
qed

lemma retain_pressure:
  assumes inv: "scope_inv s" and step: "bp_retain_current_memberships is_current s = Some (n, s')"
  shows "keeps_owed m p (bp_pressure s)
    (losing (map (\<lambda>entry. (membership_of (bf_authorized entry), bf_position entry))
       (filter (detached_entry is_current) (queued (bp_queue s))))) (bp_pressure s')"
proof -
  let ?gone = "filter (detached_entry is_current) (queued (bp_queue s))"
  let ?lost = "map (\<lambda>entry. (membership_of (bf_authorized entry), bf_position entry)) ?gone"
  obtain k q where q: "rq_remove_if (detached_entry is_current) (bp_queue s) = Some ((length ?gone, k), q)"
    using remove_if_scope [OF inv detached_uniform] by metis
  define s1 where "s1 = (if 0 < length ?gone
      then bp_increment CountCleanup (foldl (\<lambda>s (m, p). bp_record m CauseDetached p s) (set_queue q s) ?lost)
      else set_queue q s)"
  have s': "s' = commit_recoveries_if_idle s1"
    using step q by (simp add: bp_retain_current_memberships_def s1_def Let_def)
  have "keeps_owed m p (bp_pressure s) (losing ?lost) (bp_pressure s1)"
    using fold_record_keeps [of m p "set_queue q s" CauseDetached ?lost]
    by (cases "?gone = []") (auto simp: s1_def scope_simps keeps_owed_def)
  then show ?thesis unfolding s' by (rule keeps_owed_commit)
qed

lemma scope_step_keeps_owed:
  assumes step: "scope_step j b w l w'" and inv: "world_inv w"
  shows "keeps_owed m p (world_pressure w) l (world_pressure w')"
  using step
proof cases
  case (step_offer a d s')
  have si: "scope_inv (sw_scope w)" using inv by (simp add: world_inv_def)
  obtain d0 s0 where "bp_offer j b a (sw_scope w) = Some (d0, s0)" "offer_outcome a (sw_scope w) d0 s0"
    by (rule bp_offer_effect [OF si])
  then show ?thesis using step_offer keeps_owed_record keeps_owed_extra keeps_owed_same
    by (cases d) (auto simp: owed_more_def)
next
  case (step_offer_replay ts r s')
  have si: "scope_inv (sw_scope w)" using inv by (simp add: world_inv_def)
  show ?thesis using bp_offer_replay_effect [OF si step_offer_replay(3,4)] step_offer_replay(1,2) keeps_owed_same
    by simp
next
  case (step_preflight es p s')
  have si: "scope_inv (sw_scope w)" using inv by (simp add: world_inv_def)
  show ?thesis using preflight_replay_effect [OF si step_preflight(3)] step_preflight(1,2) keeps_owed_same by simp
next
  case (step_start r s')
  have si: "scope_inv (sw_scope w)" using inv by (simp add: world_inv_def)
  show ?thesis using try_start_effect [OF si step_start(3)] step_start(1,2) keeps_owed_same by simp
next
  case (step_abandon i)
  have "\<not> ls_resolved (sw_leases w ! i)" using inv step_abandon(3) by (simp add: world_inv_def)
  then show ?thesis
    using keeps_owed_settle [of m p "sw_scope w" "Some CauseDelivery" "sw_leases w ! i"] step_abandon(1,2)
    by (simp add: lease_drop_settle)
next
  case (step_dispatch i port now m' r m'' s' h')
  have "\<not> ls_resolved (sw_leases w ! i)" using inv step_dispatch(3) by (simp add: world_inv_def)
  then obtain lost where "s' = lease_settle lost (sw_leases w ! i) (sw_scope w)"
    "(lost = None) = (r \<in> {Inr SeqApply, Inr IgnoreDuplicate, Inr IgnoreStaleEpoch})"
    using lease_dispatch_settles [OF step_dispatch(4)] by blast
  then show ?thesis
    using keeps_owed_settle [of m p "sw_scope w" lost "sw_leases w ! i"] step_dispatch(1,2) by simp
next
  case (step_dispatch_replay i port validate canceled m' r m'' s' h')
  have "\<not> ls_resolved (sw_leases w ! i)" using inv step_dispatch_replay(3) by (simp add: world_inv_def)
  then obtain lost where "s' = lease_settle lost (sw_leases w ! i) (sw_scope w)" "(lost = None) = is_ok r"
    using lease_dispatch_replay_settles [OF step_dispatch_replay(4)] by blast
  then show ?thesis
    using keeps_owed_settle [of m p "sw_scope w" lost "sw_leases w ! i"] step_dispatch_replay(1,2) by simp
next
  case (step_recovery n t)
  let ?s = "(sw_scope w)\<lparr>bp_pressure := pressure_record_recovery n t (world_pressure w)\<rparr>"
  have "keeps_owed m p (world_pressure w) (quiet_label\<lparr>lb_recovered := Some (n, t)\<rparr>) (bp_pressure ?s)"
    using recovery_unrecovered [of m p "world_pressure w" n t] by (auto simp: keeps_owed_def)
  from keeps_owed_commit [OF this] show ?thesis
    using step_recovery by (simp add: record_replay_recovery_def)
next
  case step_commit
  then show ?thesis using keeps_owed_commit [OF keeps_owed_same] by simp
next
  case (step_loss n q)
  then show ?thesis using keeps_owed_record by (simp add: record_delivery_loss_def scope_simps)
next
  case (step_candidate n q)
  then show ?thesis using keeps_owed_record by (simp add: pulled_candidate_drop_def scope_simps)
next
  case (step_retire_membership subscription binding n s')
  then show ?thesis using retire_membership_pressure by simp
next
  case (step_retain is_current n s')
  have si: "scope_inv (sw_scope w)" using inv by (simp add: world_inv_def)
  show ?thesis using retain_pressure [OF si step_retain(3)] step_retain(1,2) by simp
next
  case step_retire
  then show ?thesis
    by (auto simp: keeps_owed_def bp_retire_def Let_def case_prod_beta scope_simps unrecovered_def pressure_clear_def)
next
  case (step_other_acquires permits)
  then show ?thesis using keeps_owed_same by simp
next
  case step_other_releases
  then show ?thesis using keeps_owed_same by simp
next
  case step_cancel
  then show ?thesis using keeps_owed_same by simp
qed

end
