(* ===== verification/Delivery_Claims.thy ===== *)
theory Delivery_Claims
  imports Delivery_Life Identity_Props Json_Instance
begin

text \<open>
  The properties of a delivery scope over its whole life, and a concrete scope on which their
  hypotheses hold.
\<close>

subsection \<open>A concrete scope\<close>

definition ex_bounds :: resource_bounds where
  "ex_bounds = \<lparr>rb_max_items = 4, rb_max_bytes = 4096\<rparr>"

definition ex_policy :: async_policy where
  "ex_policy = \<lparr>ap_max_payload_bytes = 1024, ap_max_replay_events = 4, ap_max_fanout = 1\<rparr>"

definition ex_delivery_scope :: "unit backpressure" where
  "ex_delivery_scope = \<lparr>bp_owner = owner_new ex_bounds, bp_permits = \<lparr>pp_max_active = 2, pp_active = 0\<rparr>,
     bp_activity = 0, bp_policy = ex_policy, bp_pressure = pressure_default, bp_closed = None,
     bp_telemetry = (\<lambda>_. 0)\<rparr>"

definition ex_world :: "(unit, unit) scope_world" where
  "ex_world = \<lparr>sw_scope = ex_delivery_scope, sw_leases = [], sw_others = 0, sw_host = ()\<rparr>"

lemma ex_world_start: "scope_start ex_world"
  unfolding scope_start_def
  by (rule exI [of _ ex_bounds], rule exI [of _ "\<lparr>pp_max_active = 2, pp_active = 0\<rparr>"], rule exI [of _ ex_policy],
      rule exI [of _ ex_delivery_scope])
    (simp add: ex_world_def ex_delivery_scope_def backpressure_new_def owner_new_def bq_new_def ex_bounds_def
      ex_policy_def bounds_ok_def hard_max_resource_items_def hard_max_resource_bytes_def
      max_async_buffer_events_def max_async_buffer_bytes_def max_async_payload_bytes_def
      max_replay_transcript_envelopes_def max_event_fanout_def)

definition ex_position :: "nat \<Rightarrow> stream_position" where
  "ex_position n = \<lparr>sp_epoch = 1, sp_sequence = of_nat n\<rparr>"

definition ex_member :: pressure_membership where
  "ex_member = \<lparr>pm_subscription = replicate 16 0, pm_binding = ContentDigest [], pm_document_scope = ContentDigest [],
     pm_component_memo = ''m''\<rparr>"

definition ex_context :: "unit envelope_context" where
  "ex_context = \<lparr>ac_subscription = replicate 16 0, ac_stream = ''s'', ac_baseline = ex_position 0,
     ac_expires_at = 100, ac_registered = \<lparr>rg_verified = (), rg_events = [], rg_signals = []\<rparr>\<rparr>"

definition ex_entry :: "nat \<Rightarrow> unit authorized_entry" where
  "ex_entry n = authorized_entry_new ex_context
     \<lparr>env_protocol_version = 1, env_subscription = replicate 16 0, env_stream = ''s'',
      env_position = ex_position n, env_payload = PayHeartbeat\<rparr>
     None (ContentDigest []) (ContentDigest []) ''m'' 0 1 False"

text \<open>The scope admits one heartbeat of the concrete membership.\<close>

lemma ex_b64: "b64_encode url_safe_no_pad (replicate 16 0) = ''AAAAAAAAAAAAAAAAAAAAAA''"
  by code_simp

lemmas v1_defs = v1_limits_def max_async_envelope_bytes_def max_async_payload_bytes_def hard_max_depth_def
  hard_max_entries_def

lemma ex_payload_value: "payload_value PayHeartbeat = Inr (CObject [(''kind'', CString ''heartbeat'')])"
  by (simp add: object_value_def bt_collect_def)

definition ex_payload :: canonical_value where
  "ex_payload = CObject [(''kind'', CString ''heartbeat'')]"

lemma ex_payload_text: "to_canonical_bytes tagged_json ex_payload (cl_input v1_limits) = Inr (tag_value ex_payload)"
  by (simp add: ex_payload_def to_canonical_bytes_def v1_defs validate_container_def count_entry_def
      tagged_json_def arith_defs usize_max_def)

definition ex_wire :: canonical_value where
  "ex_wire = CObject
     [(''payload'', ex_payload),
      (''position'', CObject [(''epoch'', CString ''1''), (''sequence'', CString ''2'')]),
      (''protocol_version'', CNumber 1), (''stream'', CString ''s''),
      (''subscription'', CString ''AAAAAAAAAAAAAAAAAAAAAA'')]"

lemma ex_position_value:
  "position_value (ex_position 2) = CObject [(''epoch'', CString ''1''), (''sequence'', CString ''2'')]"
  by code_simp

lemma ex_envelope_value: "envelope_value url_safe_no_pad ex_payload (ae_envelope (ex_entry 2)) = Inr ex_wire"
  unfolding ex_wire_def ex_b64 [symmetric] ex_position_value [symmetric]
  by (simp add: envelope_value_def ex_entry_def authorized_entry_new_def canonical_number_def object_value_def
      bt_collect_def)

lemma ex_heartbeat: "payload_value (env_payload (ae_envelope (ex_entry n))) = Inr ex_payload"
  by (simp add: ex_entry_def authorized_entry_new_def ex_payload_value ex_payload_def del: payload_value.simps)

lemma ex_encoded:
  "encode_async_envelope tagged_json url_safe_no_pad (ae_envelope (ex_entry 2)) v1_limits = Inr (tag_value ex_wire)
   \<and> length (tag_value ex_wire) < 400"
proof -
  have "to_canonical_bytes tagged_json ex_wire (cl_input v1_limits) = Inr (tag_value ex_wire)"
    by (simp add: ex_wire_def ex_payload_def to_canonical_bytes_def v1_defs validate_container_def count_entry_def
        tagged_json_def arith_defs usize_max_def)
  moreover have "length (tag_value ex_payload) \<le> cl_max_payload_bytes v1_limits"
    by (simp add: ex_payload_def v1_defs)
  ultimately show ?thesis
    by (simp add: encode_async_envelope_def ex_heartbeat ex_payload_text ex_envelope_value)
      (simp add: ex_wire_def ex_payload_def)
qed

lemma ex_payload_len:
  "canonical_async_payload_len tagged_json (ae_envelope (ex_entry 2)) = Inr (length (tag_value ex_payload))
   \<and> length (tag_value ex_payload) < 100"
  by (simp add: canonical_async_payload_len_def ex_heartbeat ex_payload_text) (simp add: ex_payload_def)

lemma ex_simps [simp]:
  "sw_scope ex_world = ex_delivery_scope" "sw_leases ex_world = []" "bp_closed ex_delivery_scope = None"
  "bp_policy ex_delivery_scope = ex_policy" "bp_permits ex_delivery_scope = \<lparr>pp_max_active = 2, pp_active = 0\<rparr>"
  "bp_owner ex_delivery_scope = owner_new ex_bounds" "ow_queue (owner_new bounds) = bq_new bounds"
  "\<not> ow_canceled (owner_new bounds)"
  by (simp_all add: ex_world_def ex_delivery_scope_def owner_new_def)

lemma ex_offer:
  obtains s where "bp_offer tagged_json url_safe_no_pad (ex_entry 2) ex_delivery_scope = Some (BufQueued, s)"
    "bp_closed s = None" "\<not> ow_canceled (bp_owner s)"
proof -
  let ?e = "ex_entry 2" and ?q = "bq_new ex_bounds :: unit buffer_entry bounded_queue"
  define bytes where "bytes = tag_value ex_wire"
  have b: "encode_async_envelope tagged_json url_safe_no_pad (ae_envelope ?e) v1_limits = Inr bytes"
    "length bytes < 400" using ex_encoded by (simp_all add: bytes_def)
  obtain n where n: "canonical_async_payload_len tagged_json (ae_envelope ?e) = Inr n" "n < 100"
    using ex_payload_len by blast
  have f: "fanout_is_authorized (ae_envelope ?e) (ae_resolved_fanout ?e) ex_policy"
    by (simp add: fanout_is_authorized_def ex_entry_def authorized_entry_new_def ex_policy_def)
  have key: "coalescing_key_of ?e = None"
    by (simp add: coalescing_key_of_def ex_entry_def authorized_entry_new_def)
  define q where "q = ?q\<lparr>bq_retained_bytes := length bytes, bq_items := [(length bytes, entry_single ?e)]\<rparr>"
  have "rq_try_admit_tail_with (length bytes) (entry_single ?e)
      (classify_tail None (env_position (ae_envelope ?e))) (bp_queue ex_delivery_scope) = Some (Inr TailAppended, q)"
    using b(2)
    by (simp add: rq_try_admit_tail_with_def bq_try_admit_tail_preserving_def classify_tail_def q_def
        bq_new_def ex_bounds_def bq_try_push_preserving_def bq_len_def arith_defs usize_max_def)
  then have "offer_admit (length bytes) ?e ex_delivery_scope = Some (bp_finish BufQueued (set_queue q ex_delivery_scope))"
    by (simp add: offer_admit_def key)
  then have "bp_offer tagged_json url_safe_no_pad ?e ex_delivery_scope
      = Some (BufQueued, bp_increment CountQueued (set_queue q ex_delivery_scope))"
    using b n f by (simp add: bp_offer_def ex_policy_def bp_finish_def)
  then show ?thesis
    by (rule that) (simp_all add: scope_simps)
qed

subsection \<open>Losses\<close>

lemma keeps_owed_run:
  assumes "scope_run j b w0 ls w" and "world_inv w0" and "unrecovered m p (world_pressure w0)"
    and "\<forall>l \<in> set ls. \<forall>t. lb_recovered l = Some (m, t) \<longrightarrow> \<not> position_covers t p"
  shows "unrecovered m p (world_pressure w) \<and>
    (\<forall>i < length ls. (m, p) \<in> set (lb_lost (ls ! i)) \<longrightarrow> (\<forall>k. i \<le> k \<and> k < length ls \<longrightarrow> \<not> lb_retired (ls ! k) m)
       \<longrightarrow> pressure_owes m p (world_pressure w))"
  using assms
proof (induction rule: scope_run.induct)
  case (run_step ls w l w')
  have inv: "world_inv w" using scope_run_inv run_step by blast
  have ih: "unrecovered m p (world_pressure w)"
    "\<forall>i < length ls. (m, p) \<in> set (lb_lost (ls ! i)) \<longrightarrow> (\<forall>k. i \<le> k \<and> k < length ls \<longrightarrow> \<not> lb_retired (ls ! k) m)
       \<longrightarrow> pressure_owes m p (world_pressure w)"
    using run_step by auto
  have k: "keeps_owed m p (world_pressure w) l (world_pressure w')"
    by (rule scope_step_keeps_owed [OF run_step(2) inv])
  have un: "unrecovered m p (world_pressure w')" using k ih(1) run_step(6) by (auto simp: keeps_owed_def)
  have "pressure_owes m p (world_pressure w')"
    if i: "i < length (ls @ [l])" "(m, p) \<in> set (lb_lost ((ls @ [l]) ! i))"
      "\<forall>k. i \<le> k \<and> k < length (ls @ [l]) \<longrightarrow> \<not> lb_retired ((ls @ [l]) ! k) m" for i
  proof -
    have last: "\<not> lb_retired l m" using i(1) spec [OF i(3), of "length ls"] by simp
    have "pressure_owes m p (world_pressure w) \<or> (m, p) \<in> set (lb_lost l)"
    proof (cases "i = length ls")
      case False
      then have il: "i < length ls" using i(1) by simp
      have "\<forall>k. i \<le> k \<and> k < length ls \<longrightarrow> \<not> lb_retired (ls ! k) m"
      proof (intro allI impI)
        fix k
        assume "i \<le> k \<and> k < length ls"
        then show "\<not> lb_retired (ls ! k) m" using spec [OF i(3), of k] by (simp add: nth_append)
      qed
      then show ?thesis using ih(2) il i(2) by (simp add: nth_append)
    qed (use i(2) in simp)
    then show ?thesis using k ih(1) run_step(6) last by (auto simp: keeps_owed_def)
  qed
  then show ?case using un by blast
qed simp

lemma unrecovered_default: "unrecovered m p pressure_default"
  by (simp add: unrecovered_def pressure_default_def)

text \<open>
  C2: a position that delivery lost is never forgotten. Whatever the scope does afterwards, and
  whatever it did before, as long as no recovery of that membership reached the position and the
  membership was not retired, the scope reports itself degraded and either its tracker has
  saturated or it requires of that membership a replay up to the lost position at least.
\<close>

theorem lost_position_stays_owed:
  assumes "scope_start w0" and "scope_run j b w0 ls w" and "i < length ls" and "(m, p) \<in> set (lb_lost (ls ! i))"
    and "\<forall>l \<in> set ls. \<forall>t. lb_recovered l = Some (m, t) \<longrightarrow> position_precedes t p"
    and "\<forall>k. i \<le> k \<and> k < length ls \<longrightarrow> \<not> lb_retired (ls ! k) m"
  shows "pressure_is_degraded (bp_pressure (sw_scope w))
    \<and> (pt_saturated (bp_pressure (sw_scope w))
       \<or> (\<exists>hw. required_high_water m (bp_pressure (sw_scope w)) = Some hw \<and> \<not> position_precedes hw p))"
proof -
  have start: "world_inv w0" "world_pressure w0 = pressure_default" using scope_start_inv [OF assms(1)] by auto
  have un: "unrecovered m p (world_pressure w0)" using start(2) unrecovered_default by metis
  have short: "\<forall>l \<in> set ls. \<forall>t. lb_recovered l = Some (m, t) \<longrightarrow> \<not> position_covers t p"
    using assms(5) by (simp add: position_covers_def)
  have "pressure_owes m p (world_pressure w)"
    using keeps_owed_run [OF assms(2) start(1) un short] assms(3,4,6) by blast
  then show ?thesis using owes_required by (simp add: position_covers_def)
qed

theorem lost_position_stays_owed_witness:
  "\<exists>w. scope_run tagged_json url_safe_no_pad ex_world [losing [(ex_member, ex_position 5)]] w
     \<and> pressure_is_degraded (bp_pressure (sw_scope w))"
proof -
  let ?w = "ex_world\<lparr>sw_scope := pulled_candidate_drop (Some ex_member) (ex_position 5) (sw_scope ex_world)\<rparr>"
  have run: "scope_run tagged_json url_safe_no_pad ex_world ([] @ [losing [(ex_member, ex_position 5)]]) ?w"
    by (rule run_step [OF run_start step_candidate])
  have "pressure_is_degraded (bp_pressure (sw_scope ?w))"
    using lost_position_stays_owed [OF ex_world_start run, of 0 ex_member "ex_position 5"] by simp
  then show ?thesis using run by auto
qed

subsection \<open>Progress\<close>

text \<open>
  C30: a delivery scope is never stuck behind its own queue: in every state it can reach, when
  something waits, the scope is open and a permit of the pool is free, starting a delivery leases
  the head of the queue, which is one single message or one whole replay transcript in order, and
  leaves the rest as it was.
\<close>

theorem delivery_never_stuck:
  assumes "scope_start w0" and "scope_run j b w0 ls w"
    and "bp_closed (sw_scope w) = None" and "\<not> ow_canceled (bp_owner (sw_scope w))"
    and "pp_active (bp_permits (sw_scope w)) < pp_max_active (bp_permits (sw_scope w))"
    and "queued (bp_queue (sw_scope w)) \<noteq> []"
  shows "\<exists>lease s'. try_start_delivery (sw_scope w) = Some (Some lease, s')
    \<and> queued (bp_queue (sw_scope w)) = ls_entries lease @ queued (bp_queue s')
    \<and> ((\<exists>e. ls_entries lease = [e] \<and> bf_group e = GroupSingle)
       \<or> ls_entries lease \<noteq> [] \<and> (\<forall>i < length (ls_entries lease).
            bf_group (ls_entries lease ! i) = GroupReplay i (length (ls_entries lease))))"
proof -
  have "scope_inv (sw_scope w)"
    by (rule reached_scope_inv [OF assms(1,2)])
  from try_start_progress [OF this assms(3-6)] obtain lease s' where
    l: "try_start_delivery (sw_scope w) = Some (Some lease, s')"
      "queued (bp_queue (sw_scope w)) = ls_entries lease @ queued (bp_queue s')"
    and g: "group_ok (ls_entries lease)" by (elim exE conjE)
  have "(\<exists>e. ls_entries lease = [e] \<and> bf_group e = GroupSingle)
       \<or> ls_entries lease \<noteq> [] \<and> (\<forall>i < length (ls_entries lease).
            bf_group (ls_entries lease ! i) = GroupReplay i (length (ls_entries lease)))"
    using g by (simp add: group_ok_def) (elim conjE disjE; simp)
  then show ?thesis using l by (intro exI conjI)
qed

theorem delivery_never_stuck_witness:
  "\<exists>s lease s'. bp_offer tagged_json url_safe_no_pad (ex_entry 2) ex_delivery_scope = Some (BufQueued, s)
     \<and> try_start_delivery s = Some (Some lease, s')"
proof -
  obtain s where s: "bp_offer tagged_json url_safe_no_pad (ex_entry 2) (sw_scope ex_world) = Some (BufQueued, s)"
    "bp_closed s = None" "\<not> ow_canceled (bp_owner s)"
    using ex_offer by (metis ex_simps(1))
  have run: "scope_run tagged_json url_safe_no_pad ex_world
      ([] @ [losing (if BufQueued = BufDegraded
                     then [(membership_of (ex_entry 2), env_position (ae_envelope (ex_entry 2)))] else [])])
      (ex_world\<lparr>sw_scope := s\<rparr>)"
    by (rule run_step [OF run_start step_offer [OF s(1)]])
  have inv: "scope_inv (sw_scope ex_world)" using scope_start_inv [OF ex_world_start] by (simp add: world_inv_def)
  obtain d s0 where "bp_offer tagged_json url_safe_no_pad (ex_entry 2) (sw_scope ex_world) = Some (d, s0)"
    "bp_permits s0 = bp_permits (sw_scope ex_world)" "offer_outcome (ex_entry 2) (sw_scope ex_world) d s0"
    by (rule bp_offer_effect [OF inv])
  then have "bp_permits s = bp_permits ex_delivery_scope" "queued (bp_queue s) \<noteq> []"
    using s(1) by auto
  then show ?thesis
    using delivery_never_stuck [OF ex_world_start run] s by auto
qed

subsection \<open>Admission\<close>

text \<open>
  C23: the disposition of an offer tells the truth in every reachable state. Queued: the message is
  the last entry waiting and nothing else changed. Coalesced: either the queue is as it was, or the
  message took the place of a last entry with the same coalescing key and the position right
  before its own, and that loss is recorded. Degraded: the queue is as it was and the loss is
  recorded. Closed: the scope has that code, and when this offer closed it nothing waits any more.
\<close>

theorem offer_disposition_truthful:
  assumes "scope_start w0" and "scope_run j b w0 ls w"
  shows "\<exists>d s'. bp_offer j b a (sw_scope w) = Some (d, s') \<and> offer_outcome a (sw_scope w) d s'"
proof -
  have "scope_inv (sw_scope w)"
    by (rule reached_scope_inv [OF assms(1,2)])
  then obtain d s' where "bp_offer j b a (sw_scope w) = Some (d, s')" "offer_outcome a (sw_scope w) d s'"
    by (rule bp_offer_effect)
  then show ?thesis by (intro exI conjI)
qed

theorem offer_disposition_truthful_witness:
  "\<exists>s. bp_offer tagged_json url_safe_no_pad (ex_entry 2) ex_delivery_scope = Some (BufQueued, s)
     \<and> queued (bp_queue s) = [entry_single (ex_entry 2)]"
proof -
  obtain d s' where o: "bp_offer tagged_json url_safe_no_pad (ex_entry 2) ex_delivery_scope = Some (d, s')"
    "offer_outcome (ex_entry 2) ex_delivery_scope d s'"
    using offer_disposition_truthful [OF ex_world_start run_start, of tagged_json url_safe_no_pad "ex_entry 2"]
    by auto
  moreover obtain s where "bp_offer tagged_json url_safe_no_pad (ex_entry 2) ex_delivery_scope = Some (BufQueued, s)"
    using ex_offer by blast
  ultimately show ?thesis by auto
qed



subsection \<open>Accounts\<close>

text \<open>
  C17: in every reachable state the accounts of a delivery scope are exact and none of its
  operations can panic: the activity count is the number of leases outstanding, the pool's count is
  exactly one permit for each of them beside the permits other scopes hold, within the bound, so no
  lease leaks its permit or returns it twice; the queue's byte count is the sum over its entries
  within the bounds; and admitting, leasing, dispatching, retiring and detaching all return.
\<close>

theorem delivery_accounts_exact:
  assumes "scope_start w0" and "scope_run j b w0 ls w"
  shows "bp_activity (sw_scope w) = length (sw_leases w)
    \<and> pp_active (bp_permits (sw_scope w)) = length (sw_leases w) + sw_others w
    \<and> pp_active (bp_permits (sw_scope w)) \<le> pp_max_active (bp_permits (sw_scope w))
    \<and> bq_retained_bytes (bp_queue (sw_scope w)) = sum_list (map fst (bq_items (bp_queue (sw_scope w))))
    \<and> bq_retained_bytes (bp_queue (sw_scope w)) \<le> rb_max_bytes (bq_bounds (bp_queue (sw_scope w)))
    \<and> bp_offer j b a (sw_scope w) \<noteq> None \<and> try_start_delivery (sw_scope w) \<noteq> None
    \<and> bp_retire_membership subscription binding (sw_scope w) \<noteq> None
    \<and> bp_retain_current_memberships is_current (sw_scope w) \<noteq> None
    \<and> (\<forall>lease \<in> set (sw_leases w). lease_dispatch port now lease m (sw_scope w) h \<noteq> None)"
proof -
  have "world_inv w0" using scope_start_inv [OF assms(1)] ..
  then have w: "world_inv w" by (rule scope_run_inv [OF assms(2)])
  have si: "scope_inv (sw_scope w)" by (rule reached_scope_inv [OF assms])
  then have q: "queue_inv (bp_queue (sw_scope w))" unfolding scope_inv_def ..
  have ret: "bp_offer j b a (sw_scope w) \<noteq> None" "bp_retire_membership subscription binding (sw_scope w) \<noteq> None"
    "bp_retain_current_memberships is_current (sw_scope w) \<noteq> None"
    by (rule bp_offer_total [OF si], rule retire_membership_total [OF si], rule retain_total [OF si])
  have leases: "\<forall>lease \<in> set (sw_leases w). ls_entries lease \<noteq> []"
    using w unfolding world_inv_def by blast
  then have dispatch: "\<forall>lease \<in> set (sw_leases w). lease_dispatch port now lease m (sw_scope w) h \<noteq> None"
    by (intro ballI lease_dispatch_total) (rule bspec)
  have acct: "bp_activity (sw_scope w) = length (sw_leases w)"
    "pp_active (bp_permits (sw_scope w)) = length (sw_leases w) + sw_others w"
    "pp_active (bp_permits (sw_scope w)) \<le> pp_max_active (bp_permits (sw_scope w))"
    using w unfolding world_inv_def by blast+
  have "bq_retained_bytes (bp_queue (sw_scope w)) = sum_list (map fst (bq_items (bp_queue (sw_scope w))))"
    "bq_retained_bytes (bp_queue (sw_scope w)) \<le> rb_max_bytes (bq_bounds (bp_queue (sw_scope w)))"
    using queue_invD(1,2) [OF q] by (simp_all add: queue_bytes_def)
  then show ?thesis using acct ret dispatch try_start_total [OF si] by (intro conjI)
qed

theorem delivery_accounts_exact_witness: "try_start_delivery ex_delivery_scope \<noteq> None"
  using delivery_accounts_exact [OF ex_world_start run_start] by simp

end
