(* ===== verification/Continuity.thy ===== *)
theory Continuity
  imports Async_Delivery
begin

text \<open>
  The continuity of one subscription as its host sees it: dispatches, whole replay transcripts and
  installed baselines in any order, with the list of what the host accepted and of the baselines
  it installed. A recording port writes that list; it adds nothing to what the port itself does.
\<close>

subsection \<open>What the host sees\<close>

datatype lane_event = Accepted stream_position | Rebased stream_position

text \<open>
  Following the events from a position: an accepted envelope is the very next of its epoch, and a
  baseline never goes back. The result is where the host then stands.
\<close>

fun follow :: "stream_position \<Rightarrow> lane_event list \<Rightarrow> stream_position option" where
  "follow current [] = Some current"
| "follow current (Accepted p # events) = (if next_position current p then follow p events else None)"
| "follow current (Rebased b # events) = (if position_covers b current then follow b events else None)"

definition recording ::
  "('v, 'h) async_port \<Rightarrow> 'v delivery \<Rightarrow> 'h \<times> lane_event list \<Rightarrow>
   (dispatch_error + unit) \<times> 'h \<times> lane_event list" where
  "recording port d s =
     (case s of (h, events) \<Rightarrow>
        (case port d h of
           (Inl e, h') \<Rightarrow> (Inl e, h', events)
         | (Inr u, h') \<Rightarrow> (Inr u, h', events @ [Accepted (env_position (dl_envelope d))])))"

definition quietly ::
  "('v, 'h) revalidate \<Rightarrow> 'v authorized_entry \<Rightarrow> 'h \<times> lane_event list \<Rightarrow>
   (lease_error + unix_millis) \<times> 'v authorized_entry \<times> 'h \<times> lane_event list" where
  "quietly validate a s = (case s of (h, events) \<Rightarrow> (case validate a h of (r, a', h') \<Rightarrow> (r, a', h', events)))"

lemma quietly_apply [simp]:
  "quietly validate a (h, events) = (case validate a h of (r, a', h') \<Rightarrow> (r, a', h', events))"
  by (simp add: quietly_def)

text \<open>
  Revalidation, as the transport passes it in, renews the proof of an entry and never its envelope,
  and fails with one of three errors.
\<close>

definition revalidates :: "('v, 'h) revalidate \<Rightarrow> bool" where
  "revalidates validate = (\<forall>a h. ae_envelope (fst (snd (validate a h))) = ae_envelope a
     \<and> (\<forall>e. fst (validate a h) = Inl e \<longrightarrow> e \<in> {LeaseRetired, LeaseAuthorizationLost, LeaseMembershipExpired}))"

text \<open>The report a failed replay carries, when it carries one.\<close>

fun replay_report :: "lease_error \<Rightarrow> replay_error option" where
  "replay_report (LeaseReplay e) = Some e"
| "replay_report (LeaseReplayRetired e) = Some e"
| "replay_report (LeaseReplayAuthorizationLost e) = Some e"
| "replay_report (LeaseReplayMembershipExpired e) = Some e"
| "replay_report _ = None"

inductive lane_run ::
  "('v, 'h) async_port \<Rightarrow> ('v, 'h) revalidate \<Rightarrow> 'v sequence_lane \<Rightarrow> 'h \<Rightarrow>
   'v sequence_lane \<Rightarrow> 'h \<Rightarrow> lane_event list \<Rightarrow> bool"
  for port validate m0 h0 where
  lane_start: "lane_run port validate m0 h0 m0 h0 []"
| lane_dispatch: "lane_run port validate m0 h0 m h events \<Longrightarrow>
    sequence_dispatch (recording port) d now m (h, events) = (r, m', h', events') \<Longrightarrow>
    lane_run port validate m0 h0 m' h' events'"
| lane_replay: "lane_run port validate m0 h0 m h events \<Longrightarrow>
    replay_transcript (recording port) (quietly validate) canceled required limit entries m (h, events)
      = (r', m', h', events') \<Longrightarrow>
    lane_run port validate m0 h0 m' h' events'"
| lane_install: "lane_run port validate m0 h0 m h events \<Longrightarrow>
    install_authoritative_baseline baseline pressure m = (Inr disposition, m') \<Longrightarrow>
    lane_run port validate m0 h0 m' h (events @ [Rebased baseline])"

subsection \<open>Following\<close>

lemma follow_append: "follow c (xs @ ys) = (case follow c xs of None \<Rightarrow> None | Some d \<Rightarrow> follow d ys)"
proof (induction xs arbitrary: c)
  case (Cons x xs)
  then show ?case by (cases x) auto
qed simp

lemma follow_accepted: "consecutive c ps \<Longrightarrow> follow c (map Accepted ps) = Some (last (c # ps))"
  by (induction ps arbitrary: c) auto

lemma consecutive_take: "consecutive c ps \<Longrightarrow> consecutive c (take k ps)"
  using consecutive_append [of c "take k ps" "drop k ps"] by simp

text \<open>The positions accepted along the way are strictly increasing.\<close>

fun accepted :: "lane_event list \<Rightarrow> stream_position list" where
  "accepted [] = []"
| "accepted (Accepted p # events) = p # accepted events"
| "accepted (Rebased b # events) = accepted events"

lemma follow_increasing:
  "follow c events = Some d \<Longrightarrow> sorted_wrt position_precedes (accepted events)
     \<and> (\<forall>p \<in> set (accepted events). position_precedes c p \<and> position_covers d p) \<and> position_covers d c"
proof (induction c events rule: follow.induct)
  case (2 c p events)
  then have n: "position_precedes c p" and ih: "sorted_wrt position_precedes (accepted events)"
    "\<forall>q \<in> set (accepted events). position_precedes p q \<and> position_covers d q" "position_covers d p"
    using next_precedes by (auto split: if_splits)
  have "\<forall>q \<in> set (accepted events). position_precedes c q" using ih(2) precedes_trans [OF n] by blast
  moreover have "position_covers d c" by (rule covers_trans [OF ih(3) precedes_covers [OF n]])
  ultimately show ?case using n ih by simp
next
  case (3 c b events)
  then have n: "position_covers b c" and ih: "sorted_wrt position_precedes (accepted events)"
    "\<forall>q \<in> set (accepted events). position_precedes b q \<and> position_covers d q" "position_covers d b"
    by (auto split: if_splits)
  have "\<forall>q \<in> set (accepted events). position_precedes c q" using ih(2) covers_precedes [OF n] by blast
  moreover have "position_covers d c" by (rule covers_trans [OF ih(3) n])
  ultimately show ?case using ih by simp
qed simp

subsection \<open>The replay loop\<close>

lemma recording_cases:
  assumes "recording port d (h, events) = (r, h', events')"
  shows "(\<exists>e. r = Inl e \<and> port d h = (Inl e, h') \<and> events' = events)
    \<or> (r = Inr () \<and> port d h = (Inr (), h') \<and> events' = events @ [Accepted (env_position (dl_envelope d))])"
  using assms by (auto simp: recording_def split: prod.splits sum.splits)

lemma recovery_report [simp]:
  "re_applied (sequence_recovery_error m recovery k) = rr_applied recovery"
  "re_current (sequence_recovery_error m recovery k) = sm_current m"
  "re_state (sequence_recovery_error m recovery k) = sm_state m"
  by (simp_all add: sequence_recovery_error_def)

lemma entry_recorded:
  assumes "dispatch_replay_entry (recording port) d now recovery m (h, events) = (r, recovery', m', h', events')"
  shows "(\<exists>e. r = Inl e \<and> m' = m \<and> events' = events \<and> re_applied e = rr_applied recovery
            \<and> re_current e = sm_current m \<and> re_state e = sm_state m)
    \<or> (r = Inr () \<and> recovery' = recovery\<lparr>rr_applied := rr_applied recovery + 1\<rparr>
         \<and> m' = m\<lparr>sm_current := env_position (dl_envelope d)\<rparr>
         \<and> events' = events @ [Accepted (env_position (dl_envelope d))])"
  using assms
  by (auto simp: dispatch_replay_entry_def commit_replay_position_def Let_def split: if_splits prod.splits sum.splits
      dest!: recording_cases)

text \<open>
  A run of the loop accepts a prefix of the transcript: all of it exactly when the loop ends well,
  and a failure reports how far it came.
\<close>

definition prefix_accepted ::
  "stream_position list \<Rightarrow> nat \<Rightarrow> 'v sequence_lane \<Rightarrow> lane_event list \<Rightarrow> 'v sequence_lane \<Rightarrow> lane_event list \<Rightarrow> bool" where
  "prefix_accepted ps k m events m' events' =
     (k \<le> length ps \<and> events' = events @ map Accepted (take k ps)
      \<and> m' = m\<lparr>sm_current := last (sm_current m # take k ps)\<rparr>)"

lemma prefix_accepted_none: "prefix_accepted ps 0 m events m events"
  by (simp add: prefix_accepted_def)

lemma prefix_accepted_Cons:
  "prefix_accepted ps k (m\<lparr>sm_current := p\<rparr>) (events @ [Accepted p]) m' events' \<Longrightarrow>
   prefix_accepted (p # ps) (Suc k) m events m' events'"
  by (auto simp: prefix_accepted_def)

lemma replay_entries_prefix:
  assumes ok: "revalidates validate"
    and "replay_entries (recording port) (quietly validate) canceled limit i entries recovery m (h, events)
      = (r, m', h', events')"
  shows "\<exists>k. prefix_accepted (map bf_position entries) k m events m' events'
    \<and> (case r of
        Inr recovery' \<Rightarrow> k = length entries \<and> recovery' = recovery\<lparr>rr_applied := rr_applied recovery + k\<rparr>
      | Inl e \<Rightarrow> k < length entries \<and> (\<exists>err. replay_report e = Some err
          \<and> re_applied err = rr_applied recovery + k \<and> re_current err = sm_current m' \<and> re_state err = sm_state m'))"
  using assms(2)
proof (induction entries arbitrary: i recovery m h events)
  case Nil
  then show ?case using prefix_accepted_none by auto
next
  case (Cons entry rest)
  have stop: ?case if "r = Inl e" "m' = m" "events' = events" "replay_report e = Some err"
    "re_applied err = rr_applied recovery" "re_current err = sm_current m" "re_state err = sm_state m" for e err
    using that prefix_accepted_none by (intro exI [of _ 0]) simp
  obtain v a h1 where v: "validate (bf_authorized entry) h = (v, a, h1)" by (metis prod_cases3)
  then have env: "ae_envelope a = bf_envelope entry"
    and err: "\<And>e. v = Inl e \<Longrightarrow> e \<in> {LeaseRetired, LeaseAuthorizationLost, LeaseMembershipExpired}"
    using ok unfolding revalidates_def by (metis fst_conv snd_conv)+
  show ?case
  proof (cases "canceled i")
    case True
    show ?thesis
      by (rule stop [of "LeaseReplayRetired (sequence_recovery_error m recovery DeliveryRetired)"
              "sequence_recovery_error m recovery DeliveryRetired"])
        (use Cons.prems True in \<open>auto simp: interrupt_replay_def\<close>)
  next
    case live: False
    show ?thesis
    proof (cases v)
      case (Inl e)
      then have r: "r = Inl (interrupted_error m recovery e)" "m' = m" "events' = events"
        using Cons.prems live v by auto
      obtain kind where "replay_report (interrupted_error m recovery e) = Some (sequence_recovery_error m recovery kind)"
        using err [OF Inl] by (auto simp: interrupted_error_def interrupt_replay_def)
      then show ?thesis by (rule stop [OF r]) simp_all
    next
      case (Inr now)
      obtain r1 recovery1 m1 h2 events1 where e:
        "dispatch_replay_entry (recording port) (resolved_delivery limit a) now recovery m (h1, events)
           = (r1, recovery1, m1, h2, events1)" by (metis prod_cases5)
      from entry_recorded [OF e] show ?thesis
      proof (elim disjE exE conjE)
        fix x
        assume "r1 = Inl x" "m1 = m" "events1 = events" "re_applied x = rr_applied recovery"
          "re_current x = sm_current m" "re_state x = sm_state m"
        note x = this
        show ?thesis
          by (rule stop [of "LeaseReplay x" x]) (use Cons.prems live v Inr e x in \<open>auto\<close>)
      next
        assume acc: "r1 = Inr ()" "recovery1 = recovery\<lparr>rr_applied := rr_applied recovery + 1\<rparr>"
          "m1 = m\<lparr>sm_current := env_position (dl_envelope (resolved_delivery limit a))\<rparr>"
          "events1 = events @ [Accepted (env_position (dl_envelope (resolved_delivery limit a)))]"
        have pos: "env_position (dl_envelope (resolved_delivery limit a)) = bf_position entry"
          using env by (simp add: resolved_delivery_def)
        have "replay_entries (recording port) (quietly validate) canceled limit (i + 1) rest recovery1 m1 (h2, events1)
            = (r, m', h', events')"
          using Cons.prems live v Inr e acc(1) by simp
        from Cons.IH [OF this] obtain k where
          k: "prefix_accepted (map bf_position rest) k m1 events1 m' events'"
          and rest: "case r of
              Inr recovery' \<Rightarrow> k = length rest \<and> recovery' = recovery1\<lparr>rr_applied := rr_applied recovery1 + k\<rparr>
            | Inl e \<Rightarrow> k < length rest \<and> (\<exists>err. replay_report e = Some err
                \<and> re_applied err = rr_applied recovery1 + k \<and> re_current err = sm_current m'
                \<and> re_state err = sm_state m')" by blast
        have "prefix_accepted (map bf_position (entry # rest)) (Suc k) m events m' events'"
          using k acc(3,4) pos prefix_accepted_Cons by simp
        then show ?thesis using rest acc(2)
          by (intro exI [of _ "Suc k"]) (auto split: sum.splits)
      qed
    qed
  qed
qed

subsection \<open>A whole transcript\<close>

lemma finish_complete:
  "rr_applied recovery = rr_total recovery \<Longrightarrow> finish_replay recovery m =
     (let m' = if rr_restore_on_finish recovery then sequence_restore (rr_through recovery) m else m
      in (Inr \<lparr>ro_applied = rr_applied recovery, ro_current = sm_current m', ro_state = sm_state m'\<rparr>, m'))"
  by (simp add: finish_replay_def Let_def)

text \<open>
  What replaying a transcript does: it commits a prefix the host accepted. It succeeds exactly when
  that prefix is the whole transcript, and the machine is then current at its end; a failure
  leaves the state of the machine as it was and reports the prefix.
\<close>

lemma prepare_replay_error:
  assumes "prepare_replay m es pressure = Inl e"
  shows "re_applied e = 0" "re_current e = sm_current m" "re_state e = sm_state m"
proof -
  have requirement: "\<exists>kind. x = sequence_replay_error m kind 0" if "replay_requirement m pressure = Inl x" for x
    using that by (auto simp: replay_requirement_def split: option.splits if_splits)
  have positions: "\<exists>kind. x = sequence_replay_error m kind 0" if "prepare_replay_positions m qs pressure = Inl x" for qs x
    using that by (auto simp: prepare_replay_positions_def Let_def and_then_eq_Inl dest!: requirement
        split: option.splits if_splits)
  have "\<exists>kind. e = sequence_replay_error m kind 0"
    using assms by (auto simp: prepare_replay_def dest!: positions split: if_splits)
  then show "re_applied e = 0" "re_current e = sm_current m" "re_state e = sm_state m"
    by (auto simp: sequence_replay_error_def)
qed

lemma replay_transcript_effect:
  assumes ok: "revalidates validate"
    and run: "replay_transcript (recording port) (quietly validate) canceled required limit entries m (h, events)
      = (r, m', h', events')"
  shows "\<exists>k \<le> length entries. consecutive (sm_current m) (take k (map bf_position entries))
    \<and> events' = events @ map Accepted (take k (map bf_position entries))
    \<and> sm_current m' = last (sm_current m # take k (map bf_position entries))
    \<and> sm_context m' = sm_context m
    \<and> (case r of
        Inr outcome \<Rightarrow> entries \<noteq> [] \<and> k = length entries \<and> sm_state m' = SeqCurrent
          \<and> outcome = \<lparr>ro_applied = k, ro_current = sm_current m', ro_state = SeqCurrent\<rparr>
      | Inl e \<Rightarrow> (k = 0 \<or> k < length entries) \<and> sm_state m' = sm_state m \<and> sm_high_water m' = sm_high_water m
          \<and> (\<exists>err. replay_report e = Some err \<and> re_applied err = k \<and> re_current err = sm_current m'
              \<and> re_state err = sm_state m'))"
proof (cases "prepare_replay m (map bf_envelope entries) required")
  case (Inl e)
  note prepare_replay_error [OF Inl]
  then show ?thesis using run Inl by (intro exI [of _ 0]) (auto simp: replay_transcript_def)
next
  case (Inr recovery)
  let ?ps = "map bf_position entries"
  have ps: "map env_position (map bf_envelope entries) = ?ps" by simp
  note prep = prepare_positions_ok [OF conjunct1 [OF prepare_replay_ok [OF Inr]], unfolded ps]
  obtain r1 m1 h1 events1 where e: "replay_entries (recording port) (quietly validate) canceled limit 0 entries
      recovery m (h, events) = (r1, m1, h1, events1)" by (metis prod_cases4)
  obtain k where k: "prefix_accepted ?ps k m events m1 events1"
    and cs: "case r1 of
        Inr recovery' \<Rightarrow> k = length entries \<and> recovery' = recovery\<lparr>rr_applied := rr_applied recovery + k\<rparr>
      | Inl e \<Rightarrow> k < length entries \<and> (\<exists>err. replay_report e = Some err
          \<and> re_applied err = rr_applied recovery + k \<and> re_current err = sm_current m1 \<and> re_state err = sm_state m1)"
    using replay_entries_prefix [OF ok e] by blast
  have kp: "k \<le> length entries" "events1 = events @ map Accepted (take k ?ps)"
    "m1 = m\<lparr>sm_current := last (sm_current m # take k ?ps)\<rparr>" using k by (simp_all add: prefix_accepted_def)
  have con: "consecutive (sm_current m) (take k ?ps)" using prep consecutive_take by blast
  show ?thesis
  proof (cases r1)
    case (Inl err)
    then show ?thesis using run Inr e cs kp con prep
      by (intro exI [of _ k]) (auto simp: replay_transcript_def)
  next
    case (Inr recovery1)
    note r1 = this
    have full: "k = length entries" "recovery1 = recovery\<lparr>rr_applied := rr_applied recovery + k\<rparr>"
      using cs r1 by simp_all
    have ne: "entries \<noteq> []" using prep by simp
    have last: "last (sm_current m # ?ps) = rr_through recovery" using prep ne by simp
    have restore: "rr_restore_on_finish recovery = (sm_state m = SeqDegraded)"
      using prep replay_requirement_ok [of m required] by blast
    have fin: "finish_replay recovery1 m1 =
       (let m' = if rr_restore_on_finish recovery then sequence_restore (rr_through recovery) m1 else m1
        in (Inr \<lparr>ro_applied = k, ro_current = sm_current m', ro_state = sm_state m'\<rparr>, m'))"
      using finish_complete [of recovery1 m1] full prep by simp
    have cur: "sm_state m \<noteq> SeqDegraded \<Longrightarrow> sm_state m = SeqCurrent" by (cases "sm_state m") auto
    show ?thesis
    proof (cases "sm_state m = SeqDegraded")
      case True
      then show ?thesis
        using run \<open>prepare_replay m (map bf_envelope entries) required = Inr recovery\<close> e r1 fin restore full(1) kp con ne last
        by (intro exI [of _ k]) (auto simp: replay_transcript_def sequence_restore_def Let_def)
    next
      case False
      then show ?thesis
        using run \<open>prepare_replay m (map bf_envelope entries) required = Inr recovery\<close> e r1 fin restore full(1) kp con ne
          cur [OF False]
        by (intro exI [of _ k]) (auto simp: replay_transcript_def Let_def)
    qed
  qed
qed

end
