(* ===== verification/Continuity_Claims.thy ===== *)
theory Continuity_Claims
  imports Continuity Delivery_Claims
begin

text \<open>
  The properties of a lane: what its host is shown in any run, what a replay commits, and that a
  gap is recovered once the transcript that closes it is at hand.
\<close>

subsection \<open>Runs\<close>

lemma dispatch_recorded:
  assumes "sequence_dispatch (recording port) d now m (h, events) = (r, m', h', events')"
  shows "(next_position (sm_current m) (env_position (dl_envelope d))
        \<and> sm_current m' = env_position (dl_envelope d) \<and> events' = events @ [Accepted (sm_current m')])
    \<or> (sm_current m' = sm_current m \<and> events' = events)"
proof (rule dispatch_cases [OF assms])
  assume "next_position (sm_current m) (env_position (dl_envelope d))"
    "m' = m\<lparr>sm_current := env_position (dl_envelope d)\<rparr>" "recording port d (h, events) = (Inr (), h', events')"
  then show ?thesis using recording_cases [of port d h events] by fastforce
next
  assume r: "r \<noteq> Inr SeqApply" "sm_current m' = sm_current m"
  have "events' = events"
    using assms r(1) by (auto simp: sequence_dispatch_def Let_def split: if_splits prod.splits sum.splits
        dest!: recording_cases)
  then show ?thesis using r(2) by simp
qed

lemma lane_run_follow:
  assumes "lane_run port validate m0 h0 m h events" and "revalidates validate"
  shows "follow (sm_current m0) events = Some (sm_current m)"
  using assms(1)
proof induction
  case (lane_dispatch m h events d now r m' h' events')
  then show ?case using dispatch_recorded [OF lane_dispatch.hyps(2)] by (auto simp: follow_append)
next
  case (lane_replay m h events canceled required limit entries r' m' h' events')
  from replay_transcript_effect [OF assms(2) lane_replay.hyps(2)] obtain k where
    k: "consecutive (sm_current m) (take k (map bf_position entries))"
    "events' = events @ map Accepted (take k (map bf_position entries))"
    "sm_current m' = last (sm_current m # take k (map bf_position entries))" by blast
  show ?case using lane_replay.IH follow_accepted [OF k(1)] k(2,3) by (simp add: follow_append)
next
  case (lane_install m h events baseline pressure disposition m')
  show ?case
    by (rule install_cases [OF lane_install.hyps(2)])
      (use lane_install.IH in \<open>auto simp: follow_append sequence_restore_def\<close>)
qed simp

subsection \<open>Recovery of a gap\<close>

text \<open>
  A host that is able to take a delivery of a context: revalidation renews the proof with a time
  before the expiry of the context, and the port accepts.
\<close>

definition host_ready :: "'v envelope_context \<Rightarrow> ('v, 'h) async_port \<Rightarrow> ('v, 'h) revalidate \<Rightarrow> bool" where
  "host_ready c port validate =
     ((\<forall>a h. ae_context a = c \<longrightarrow> (\<exists>now a' h'. validate a h = (Inr now, a', h') \<and> ae_envelope a' = ae_envelope a
          \<and> ae_context a' = c \<and> now < ac_expires_at c))
      \<and> (\<forall>d h. \<exists>h'. port d h = (Inr (), h')))"

lemma entry_applied:
  assumes "port d h = (Inr (), h')" and "dl_context d = sm_context m" and "matches_scope m (dl_envelope d)"
    and "now < ac_expires_at (dl_context d)"
  shows "dispatch_replay_entry port d now recovery m h =
    (Inr (), recovery\<lparr>rr_applied := rr_applied recovery + 1\<rparr>, m\<lparr>sm_current := env_position (dl_envelope d)\<rparr>, h')"
  using assms by (simp add: dispatch_replay_entry_def delivery_is_current_at_def commit_replay_position_def)


lemma replay_entries_ready:
  assumes "host_ready (sm_context m) port validate"
    and "\<forall>entry \<in> set entries. ae_context (bf_authorized entry) = sm_context m \<and> matches_scope m (bf_envelope entry)"
    and "\<And>k. k < length entries \<Longrightarrow> \<not> canceled (i + k)"
  shows "\<exists>h'. replay_entries port validate canceled limit i entries recovery m h
    = (Inr (recovery\<lparr>rr_applied := rr_applied recovery + length entries\<rparr>),
       m\<lparr>sm_current := last (sm_current m # map bf_position entries)\<rparr>, h')"
  using assms
proof (induction entries arbitrary: i recovery m h)
  case (Cons entry rest)
  let ?a = "bf_authorized entry"
  let ?m = "m\<lparr>sm_current := bf_position entry\<rparr>"
  let ?recovery = "recovery\<lparr>rr_applied := rr_applied recovery + 1\<rparr>"
  obtain now a h1 where v: "validate ?a h = (Inr now, a, h1)" "ae_envelope a = ae_envelope ?a"
    "ae_context a = ae_context ?a" "now < ac_expires_at (ae_context ?a)"
    using Cons.prems(1,2) unfolding host_ready_def by (metis list.set_intros(1))
  obtain h2 where h2: "port (resolved_delivery limit a) h1 = (Inr (), h2)"
    using Cons.prems(1) unfolding host_ready_def by blast
  have ready: "host_ready (sm_context ?m) port validate" using Cons.prems(1) by simp
  have applied: "dispatch_replay_entry port (resolved_delivery limit a) now recovery m h1 = (Inr (), ?recovery, ?m, h2)"
    using entry_applied [where m = m and recovery = recovery and now = now and port = port and h = h1 and h' = h2
      and d = "resolved_delivery limit a", OF h2] v Cons.prems(2)
    by (simp add: resolved_delivery_def)
  have rest: "\<forall>entry \<in> set rest. ae_context (bf_authorized entry) = sm_context ?m \<and> matches_scope ?m (bf_envelope entry)"
    using Cons.prems(2) by (simp add: matches_scope_def)
  have "\<not> canceled (i + 1 + k)" if "k < length rest" for k
    using Cons.prems(3) [of "Suc k"] that by simp
  from Cons.IH [OF ready rest this, where recovery = ?recovery and h = h2] obtain h' where
    "replay_entries port validate canceled limit (i + 1) rest ?recovery ?m h2
      = (Inr (?recovery\<lparr>rr_applied := rr_applied ?recovery + length rest\<rparr>),
         ?m\<lparr>sm_current := last (sm_current ?m # map bf_position rest)\<rparr>, h')" by blast
  moreover have "\<not> canceled i" using Cons.prems(3) [of 0] by simp
  ultimately show ?case using v applied by (intro exI [of _ h']) auto
qed simp

lemma gap_prepared:
  assumes "sm_state m = SeqDegraded" "sm_degradation m = Some DegradedGap" "sm_high_water m = Some required"
    and "sp_epoch required = sp_epoch (sm_current m)"
    and "es \<noteq> []" "length es \<le> max_replay_transcript_envelopes" "\<forall>e \<in> set es. matches_scope m e"
    and "consecutive (sm_current m) (map env_position es)"
    and "position_covers (env_position (last es)) required"
  shows "prepare_replay m es None = Inr \<lparr>rr_through = env_position (last es),
    rr_effective_high_water = required, rr_total = length es, rr_applied = 0, rr_restore_on_finish = True\<rparr>"
proof -
  let ?ps = "map env_position es"
  have "?ps \<noteq> []" using assms(5) by simp
  then have "next_position (sm_current m) (hd ?ps)" using assms(8) by (cases ?ps) auto
  then obtain expected where e: "checked_add_u64 (sp_sequence (sm_current m)) 1 = Some expected"
    using no_next_position by (cases "checked_add_u64 (sp_sequence (sm_current m)) 1") auto
  have epoch: "\<forall>q \<in> set (p # qs). sp_epoch q = sp_epoch p" if "consecutive p qs" for p qs
    using that by (induction qs arbitrary: p) (auto simp: next_position_def)
  have last: "sp_epoch (env_position (last es)) = sp_epoch (sm_current m)"
    using epoch [OF assms(8)] assms(5) by simp
  have loop: "replay_positions_loop (sp_epoch (sm_current m)) expected ?ps (sm_current m) = Some (env_position (last es))"
    using replay_positions_loop_eq [OF e, of ?ps "sm_current m"] assms(5,8) by (simp add: last_map)
  have "\<not> sp_sequence (env_position (last es)) < sp_sequence required"
    using assms(4,9) last by (simp add: position_covers_def position_precedes_def)
  moreover have "replay_requirement m None = Inr (required, True)"
    using assms(1-4) by (simp add: replay_requirement_def)
  ultimately show ?thesis
    using assms(5,6,7) e loop
    by (simp add: prepare_replay_def prepare_replay_positions_def list_ex_iff)
qed

subsection \<open>A concrete lane\<close>

text \<open>The lane of the concrete membership, a host that accepts everything, and its two transcripts.\<close>

definition ex_lane :: "unit sequence_lane" where
  "ex_lane = sequence_new ex_context"

definition ex_port :: "(unit, unit) async_port" where
  "ex_port d h = (Inr (), h)"

definition ex_validate :: "(unit, unit) revalidate" where
  "ex_validate a h = (Inr 0, a, h)"

lemma ex_host: "revalidates ex_validate" "host_ready ex_context ex_port ex_validate"
  by (simp_all add: revalidates_def host_ready_def ex_validate_def ex_port_def ex_context_def)

lemma ex_dispatch:
  "sequence_dispatch (recording ex_port) (resolved_delivery 1 (ex_entry 1)) 0 ex_lane ((), [])
    = (Inr SeqApply, ex_lane\<lparr>sm_current := ex_position 1\<rparr>, (), [Accepted (ex_position 1)])"
  by (simp add: sequence_dispatch_def delivery_is_current_at_def resolved_delivery_def ex_entry_def
      authorized_entry_new_def ex_lane_def sequence_new_def ex_context_def matches_scope_def observe_position_def
      recording_def ex_port_def ex_position_def Let_def)

subsection \<open>Continuity\<close>

text \<open>
  C4: whatever a lane goes through (dispatches, replayed transcripts, retries, installed
  baselines, in any order and with any answers of the host), the positions the host accepts are
  each the very next of the one before within their epoch, except that an installed baseline may
  jump forward; so no update is applied twice, out of order or over a gap, and the machine always
  stands exactly where its host does.
\<close>

theorem host_sees_continuity:
  assumes "revalidates validate" and "lane_run port validate (sequence_new c) h0 m h events"
  shows "follow (ac_baseline c) events = Some (sm_current m)
    \<and> sorted_wrt position_precedes (accepted events)
    \<and> (\<forall>p \<in> set (accepted events). position_precedes (ac_baseline c) p \<and> position_covers (sm_current m) p)"
proof -
  have "follow (ac_baseline c) events = Some (sm_current m)"
    using lane_run_follow [OF assms(2,1)] by (simp add: sequence_new_def)
  then show ?thesis using follow_increasing by blast
qed

theorem host_sees_continuity_witness:
  "follow (ex_position 0) [Accepted (ex_position 1)] = Some (ex_position 1)"
proof -
  have "lane_run ex_port ex_validate (sequence_new ex_context) () (ex_lane\<lparr>sm_current := ex_position 1\<rparr>) ()
      [Accepted (ex_position 1)]"
    unfolding ex_lane_def [symmetric] by (rule lane_dispatch [OF lane_start ex_dispatch])
  from host_sees_continuity [OF ex_host(1) this] show ?thesis by (simp add: ex_context_def)
qed

subsection \<open>Replay\<close>

text \<open>
  C7: replaying a transcript commits a prefix of it, consecutive from where the machine stood,
  and exactly what the host accepted. It succeeds exactly when the prefix is the whole transcript,
  and the machine is then current at its end; every failure reports how many envelopes were
  applied and where the machine stands, and leaves its state and high-water mark alone.
\<close>

theorem replay_commits_prefix:
  assumes "revalidates validate"
    and "replay_transcript (recording port) (quietly validate) canceled required limit entries m (h, events)
      = (r, m', h', events')"
  shows "\<exists>k \<le> length entries. consecutive (sm_current m) (take k (map bf_position entries))
    \<and> events' = events @ map Accepted (take k (map bf_position entries))
    \<and> sm_current m' = last (sm_current m # take k (map bf_position entries))
    \<and> sm_context m' = sm_context m
    \<and> (case r of
        Inr outcome \<Rightarrow> entries \<noteq> [] \<and> k = length entries \<and> sm_state m' = SeqCurrent
          \<and> outcome = \<lparr>ro_applied = k, ro_current = sm_current m', ro_state = SeqCurrent\<rparr>
      | Inl e \<Rightarrow> (k = 0 \<or> k < length entries) \<and> sm_state m' = sm_state m \<and> sm_high_water m' = sm_high_water m
          \<and> (\<exists>err. replay_report e = Some err \<and> re_applied err = k \<and> re_current err = sm_current m'
              \<and> re_state err = sm_state m'))"
  by (rule replay_transcript_effect [OF assms])

text \<open>The concrete lane refuses an empty transcript and stays where it is.\<close>

theorem replay_commits_prefix_witness:
  "sm_current (fst (snd (replay_transcript (recording ex_port) (quietly ex_validate) (\<lambda>_. False) None 1 [] ex_lane ((), []))))
    = ex_position 0"
proof -
  obtain r m' h' events' where run: "replay_transcript (recording ex_port) (quietly ex_validate) (\<lambda>_. False) None 1 []
      ex_lane ((), []) = (r, m', h', events')" by (metis prod_cases4)
  from replay_commits_prefix [OF ex_host(1) run] have "sm_current m' = sm_current ex_lane" by auto
  then show ?thesis using run by (simp add: ex_lane_def sequence_new_def ex_context_def)
qed

subsection \<open>Liveness\<close>

text \<open>
  C20: a gap is recovered. When a lane degraded by a gap is given the missing envelopes (of its
  context and scope, consecutive from its position, at least up to the highest position it has
  seen, within the bound), its lease is not canceled and the host is ready, the replay succeeds:
  every envelope is applied, and the lane is current at the end of the transcript with nothing
  remembered of the gap.
\<close>

theorem gap_recovery_succeeds:
  assumes gap: "sm_state m = SeqDegraded" "sm_degradation m = Some DegradedGap" "sm_high_water m = Some required"
      "sp_epoch required = sp_epoch (sm_current m)"
    and transcript: "entries \<noteq> []" "length entries \<le> max_replay_transcript_envelopes"
      "consecutive (sm_current m) (map bf_position entries)"
      "position_covers (bf_position (last entries)) required"
      "\<forall>entry \<in> set entries. ae_context (bf_authorized entry) = sm_context m \<and> matches_scope m (bf_envelope entry)"
    and host: "host_ready (sm_context m) port validate" "\<forall>k < length entries. \<not> canceled k"
  shows "\<exists>h'. replay_transcript port validate canceled None limit entries m h
    = (Inr \<lparr>ro_applied = length entries, ro_current = bf_position (last entries), ro_state = SeqCurrent\<rparr>,
       sequence_restore (bf_position (last entries)) m, h')"
proof -
  let ?recovery = "\<lparr>rr_through = bf_position (last entries), rr_effective_high_water = required,
    rr_total = length entries, rr_applied = 0, rr_restore_on_finish = True\<rparr>"
  have prepared: "prepare_replay m (map bf_envelope entries) None = Inr ?recovery"
    using gap_prepared [OF gap, of "map bf_envelope entries"] transcript by (simp add: last_map comp_def)
  have live: "\<And>k. k < length entries \<Longrightarrow> \<not> canceled (0 + k)" using host(2) by simp
  obtain h' where "replay_entries port validate canceled limit 0 entries ?recovery m h
    = (Inr (?recovery\<lparr>rr_applied := rr_applied ?recovery + length entries\<rparr>),
       m\<lparr>sm_current := last (sm_current m # map bf_position entries)\<rparr>, h')"
    using replay_entries_ready [OF host(1) transcript(5), of canceled 0 limit ?recovery h] live by blast
  then show ?thesis using prepared
    by (intro exI [of _ h'])
      (simp add: replay_transcript_def finish_replay_def sequence_restore_def Let_def)
qed

text \<open>The concrete lane, after it saw position 2 first, is given position 1 and position 2.\<close>

definition ex_gap :: "unit sequence_lane" where
  "ex_gap = sequence_degrade DegradedGap (ex_position 2) ex_lane"

definition ex_transcript :: "unit buffer_entry list" where
  "ex_transcript = map (\<lambda>n. entry_single (ex_entry n)) [1, 2]"

theorem gap_recovery_succeeds_witness:
  "fst (replay_transcript ex_port ex_validate (\<lambda>_. False) None 1 ex_transcript ex_gap ())
    = Inr \<lparr>ro_applied = 2, ro_current = ex_position 2, ro_state = SeqCurrent\<rparr>"
proof -
  note defs = ex_gap_def ex_lane_def sequence_new_def sequence_degrade_def
  have gap: "sm_state ex_gap = SeqDegraded" "sm_degradation ex_gap = Some DegradedGap"
    "sm_high_water ex_gap = Some (ex_position 2)" "sp_epoch (ex_position 2) = sp_epoch (sm_current ex_gap)"
    "sm_context ex_gap = ex_context" "sm_current ex_gap = ex_position 0"
    by (simp_all add: defs ex_context_def ex_position_def)
  have positions: "map bf_position ex_transcript = [ex_position 1, ex_position 2]"
    by (simp add: ex_transcript_def entry_single_def ex_entry_def authorized_entry_new_def)
  have con: "consecutive (sm_current ex_gap) (map bf_position ex_transcript)"
    by (simp add: positions gap(6) ex_position_def next_position_def)
  have len: "ex_transcript \<noteq> []" "length ex_transcript = 2" "bf_position (last ex_transcript) = ex_position 2"
    by (simp_all add: ex_transcript_def entry_single_def ex_entry_def authorized_entry_new_def)
  have scope: "\<forall>entry \<in> set ex_transcript.
      ae_context (bf_authorized entry) = sm_context ex_gap \<and> matches_scope ex_gap (bf_envelope entry)"
    unfolding matches_scope_def gap(5)
    by (simp add: ex_transcript_def entry_single_def ex_entry_def authorized_entry_new_def ex_context_def)
  have bound: "length ex_transcript \<le> max_replay_transcript_envelopes"
    by (simp add: len max_replay_transcript_envelopes_def)
  have covers: "position_covers (bf_position (last ex_transcript)) (ex_position 2)"
    by (simp add: len)
  have host: "host_ready (sm_context ex_gap) ex_port ex_validate" using ex_host(2) gap(5) by simp
  from gap_recovery_succeeds [OF gap(1-4) len(1) bound con covers scope host, where canceled = "\<lambda>_. False" and limit = 1 and h = "()"]
  show ?thesis using len by auto
qed

subsection \<open>The conformance adapter\<close>

lemma commit_all:
  "foldl (\<lambda>s position. commit_replay_position position s) (recovery, m) ps
    = (recovery\<lparr>rr_applied := rr_applied recovery + length ps\<rparr>, m\<lparr>sm_current := last (sm_current m # ps)\<rparr>)"
proof (induction ps arbitrary: recovery m)
  case (Cons p ps)
  then show ?case by (simp add: commit_replay_position_def)
qed simp

lemma prepare_in_scope:
  "\<forall>e \<in> set es. matches_scope m e \<Longrightarrow>
   prepare_replay m es pressure = prepare_replay_positions m (map env_position es) pressure"
  by (auto simp: prepare_replay_def prepare_replay_positions_def list_ex_iff)

text \<open>
  The conformance adapter agrees with production. For a host that is ready, deliveries of the
  lane's own context and scope, and a lease that is not canceled, the positions-only adapter the
  cross-language fixtures drive answers what dispatching answers and what replaying the transcript
  answers, errors included, and leaves the same machine.
\<close>

theorem conformance_agrees:
  assumes "host_ready (sm_context m) port validate" and "\<forall>k < length entries. \<not> canceled k"
    and "\<forall>entry \<in> set entries. ae_context (bf_authorized entry) = sm_context m \<and> matches_scope m (bf_envelope entry)"
    and "dl_context d = sm_context m" "matches_scope m (dl_envelope d)" "now < ac_expires_at (sm_context m)"
  shows "(\<exists>h'. sequence_dispatch port d now m h
        = (Inr (fst (conformance_observe (env_position (dl_envelope d)) m)),
           snd (conformance_observe (env_position (dl_envelope d)) m), h'))
    \<and> (\<exists>h'. replay_transcript port validate canceled None limit entries m h
        = (map_err LeaseReplay (fst (conformance_recover (map bf_position entries) m)),
           snd (conformance_recover (map bf_position entries) m), h'))"
proof (rule conjI)
  obtain h1 where h1: "port d h = (Inr (), h1)" using assms(1) unfolding host_ready_def by blast
  show "\<exists>h'. sequence_dispatch port d now m h
        = (Inr (fst (conformance_observe (env_position (dl_envelope d)) m)),
           snd (conformance_observe (env_position (dl_envelope d)) m), h')"
    using assms(4-6) h1 by (auto simp: sequence_dispatch_def conformance_observe_def delivery_is_current_at_def
        split: prod.splits)
next
  have prepare: "prepare_replay m (map bf_envelope entries) None
      = prepare_replay_positions m (map bf_position entries) None"
    using prepare_in_scope [of "map bf_envelope entries" m None] assms(3) by (simp add: comp_def)
  have live: "\<And>k. k < length entries \<Longrightarrow> \<not> canceled (0 + k)" using assms(2) by simp
  have loop: "\<exists>h'. replay_entries port validate canceled limit 0 entries recovery m h
      = (Inr (recovery\<lparr>rr_applied := rr_applied recovery + length entries\<rparr>),
         m\<lparr>sm_current := last (sm_current m # map bf_position entries)\<rparr>, h')" for recovery
    using replay_entries_ready [OF assms(1,3), of canceled 0 limit recovery h] live by blast
  show "\<exists>h'. replay_transcript port validate canceled None limit entries m h
        = (map_err LeaseReplay (fst (conformance_recover (map bf_position entries) m)),
           snd (conformance_recover (map bf_position entries) m), h')"
  proof (cases "prepare_replay_positions m (map bf_position entries) None")
    case (Inl e)
    then show ?thesis by (simp add: replay_transcript_def conformance_recover_def prepare)
  next
    case (Inr recovery)
    from loop [of recovery] obtain h' where h': "replay_entries port validate canceled limit 0 entries recovery m h
      = (Inr (recovery\<lparr>rr_applied := rr_applied recovery + length entries\<rparr>),
         m\<lparr>sm_current := last (sm_current m # map bf_position entries)\<rparr>, h')" by blast
    show ?thesis
      by (rule exI [of _ h'])
        (simp add: replay_transcript_def conformance_recover_def prepare Inr h' commit_all split: prod.splits sum.splits)
  qed
qed

theorem conformance_agrees_witness:
  "fst (replay_transcript ex_port ex_validate (\<lambda>_. False) None 1 [] ex_lane ())
    = Inl (LeaseReplay (sequence_replay_error ex_lane InvalidReplayTranscript 0))"
proof -
  have lane: "sm_context ex_lane = ex_context" by (simp add: ex_lane_def sequence_new_def)
  have host: "host_ready (sm_context ex_lane) ex_port ex_validate" using ex_host(2) lane by simp
  have d: "dl_context (resolved_delivery 1 (ex_entry 1)) = sm_context ex_lane"
    "matches_scope ex_lane (dl_envelope (resolved_delivery 1 (ex_entry 1)))"
    "0 < ac_expires_at (sm_context ex_lane)"
    unfolding matches_scope_def lane
    by (simp_all add: resolved_delivery_def ex_entry_def authorized_entry_new_def ex_context_def)
  from conformance_agrees [OF host _ _ d, where canceled = "\<lambda>_. False" and entries = "[]" and limit = 1 and h = "()"]
  show ?thesis by (auto simp: conformance_recover_def prepare_replay_positions_def)
qed

end
