(* ===== verification/Async_Decode.thy ===== *)
theory Async_Decode
  imports Async_Codec
begin

text \<open>
  The decoder: the preflight scanner, which measures the payload of a JSON text in place before it
  is parsed, and \<open>decode_async_envelope\<close>. A cursor is an index into the encoded bytes. The
  scanner's loops and its recursion carry fuel; \<open>None\<close> is a scan that ran out of it, and the last
  section shows that the fuel given is always enough.
\<close>

subsection \<open>Bytes at the cursor\<close>

definition byte_at :: "u8 list \<Rightarrow> usize \<Rightarrow> u8 option" where
  "byte_at encoded cursor = (if cursor < length encoded then Some (encoded ! cursor) else None)"

lemma byte_at_less: "byte_at encoded cursor = Some b \<Longrightarrow> cursor < length encoded"
  by (simp add: byte_at_def split: if_splits)

definition json_whitespace :: "u8 \<Rightarrow> bool" where
  "json_whitespace b = (b = 32 \<or> b = 10 \<or> b = 13 \<or> b = 9)"

function skip_json_whitespace :: "u8 list \<Rightarrow> usize \<Rightarrow> usize" where
  "skip_json_whitespace encoded cursor =
     (case byte_at encoded cursor of
        None \<Rightarrow> cursor
      | Some b \<Rightarrow> if json_whitespace b then skip_json_whitespace encoded (cursor + 1) else cursor)"
  by pat_completeness auto
termination
  by (relation "measure (\<lambda>(encoded, cursor). length encoded - cursor)") (auto dest: byte_at_less)

declare skip_json_whitespace.simps [simp del]

text \<open>
  \<open>scan_json_string\<close> after its opening quote: where the contents end, the cursor after the closing
  quote and whether an escape was seen. A slice is shorter than \<open>isize::MAX\<close>, so the saturating
  step over an escape is exact.
\<close>

function scan_string_loop :: "u8 list \<Rightarrow> usize \<Rightarrow> bool \<Rightarrow> envelope_error + (usize \<times> usize \<times> bool)" where
  "scan_string_loop encoded cursor escaped =
     (case byte_at encoded cursor of
        None \<Rightarrow> Inl InvalidEnvelope
      | Some b \<Rightarrow>
          if b = 34 then Inr (cursor, cursor + 1, escaped)
          else if b = 92
          then if cursor + 2 > length encoded then Inl InvalidEnvelope
               else scan_string_loop encoded (cursor + 2) True
          else scan_string_loop encoded (cursor + 1) escaped)"
  by pat_completeness auto
termination
  by (relation "measure (\<lambda>(encoded, cursor, escaped). length encoded - cursor)") (auto dest: byte_at_less)

declare scan_string_loop.simps [simp del]

text \<open>The start and end of the contents, the escape flag, and the cursor behind the string.\<close>

definition scan_json_string ::
  "u8 list \<Rightarrow> usize \<Rightarrow> envelope_error + ((usize \<times> usize \<times> bool) \<times> usize)" where
  "scan_json_string encoded cursor =
     (if byte_at encoded cursor \<noteq> Some 34 then Inl InvalidEnvelope
      else and_then (scan_string_loop encoded (cursor + 1) False) (\<lambda>(last, next, escaped).
             Inr ((cursor + 1, last, escaped), next)))"

definition scalar_end :: "u8 \<Rightarrow> bool" where
  "scalar_end b = (b = 44 \<or> b = 125 \<or> b = 93 \<or> json_whitespace b)"

function scan_scalar :: "u8 list \<Rightarrow> usize \<Rightarrow> usize" where
  "scan_scalar encoded cursor =
     (case byte_at encoded cursor of
        None \<Rightarrow> cursor
      | Some b \<Rightarrow> if scalar_end b then cursor else scan_scalar encoded (cursor + 1))"
  by pat_completeness auto
termination
  by (relation "measure (\<lambda>(encoded, cursor). length encoded - cursor)") (auto dest: byte_at_less)

declare scan_scalar.simps [simp del]

subsection \<open>Values\<close>

text \<open>\<open>ok_then\<close> is \<open>?\<close> where the scan may also be out of fuel.\<close>

fun ok_then :: "('e + 'a) option \<Rightarrow> ('a \<Rightarrow> ('e + 'b) option) \<Rightarrow> ('e + 'b) option" where
  "ok_then None f = None"
| "ok_then (Some (Inl e)) f = Some (Inl e)"
| "ok_then (Some (Inr x)) f = f x"

fun scan_json_value :: "nat \<Rightarrow> u8 list \<Rightarrow> usize \<Rightarrow> usize \<Rightarrow> usize \<Rightarrow> (envelope_error + usize) option"
  and scan_object_loop :: "nat \<Rightarrow> u8 list \<Rightarrow> usize \<Rightarrow> usize \<Rightarrow> usize \<Rightarrow> (envelope_error + usize) option"
  and scan_array_loop :: "nat \<Rightarrow> u8 list \<Rightarrow> usize \<Rightarrow> usize \<Rightarrow> usize \<Rightarrow> (envelope_error + usize) option" where
  "scan_json_value 0 encoded cursor depth max_depth = None"
| "scan_json_value (Suc f) encoded cursor depth max_depth =
     (case byte_at encoded cursor of
        None \<Rightarrow> Some (Inl InvalidEnvelope)
      | Some b \<Rightarrow>
          if b = 34 then Some (map_ok snd (scan_json_string encoded cursor))
          else if b = 123
          then if depth \<ge> max_depth then Some (Inl EnvTooDeep)
               else scan_object_loop f encoded (cursor + 1) depth max_depth
          else if b = 91
          then if depth \<ge> max_depth then Some (Inl EnvTooDeep)
               else scan_array_loop f encoded (cursor + 1) depth max_depth
          else let last = scan_scalar encoded cursor
               in Some (if last = cursor then Inl InvalidEnvelope else Inr last))"
| "scan_object_loop 0 encoded cursor depth max_depth = None"
| "scan_object_loop (Suc f) encoded cursor depth max_depth =
     (let cursor = skip_json_whitespace encoded cursor in
      if byte_at encoded cursor = Some 125 then Some (Inr (cursor + 1))
      else ok_then (Some (scan_json_string encoded cursor)) (\<lambda>(key, cursor).
        let cursor = skip_json_whitespace encoded cursor in
        if byte_at encoded cursor \<noteq> Some 58 then Some (Inl InvalidEnvelope)
        else let cursor = skip_json_whitespace encoded (cursor + 1) in
        ok_then (scan_json_value f encoded cursor (depth + 1) max_depth) (\<lambda>cursor.
        let cursor = skip_json_whitespace encoded cursor in
        case byte_at encoded cursor of
          None \<Rightarrow> Some (Inl InvalidEnvelope)
        | Some b \<Rightarrow>
            if b = 44 then scan_object_loop f encoded (cursor + 1) depth max_depth
            else if b = 125 then Some (Inr (cursor + 1))
            else Some (Inl InvalidEnvelope))))"
| "scan_array_loop 0 encoded cursor depth max_depth = None"
| "scan_array_loop (Suc f) encoded cursor depth max_depth =
     (let cursor = skip_json_whitespace encoded cursor in
      if byte_at encoded cursor = Some 93 then Some (Inr (cursor + 1))
      else ok_then (scan_json_value f encoded cursor (depth + 1) max_depth) (\<lambda>cursor.
        let cursor = skip_json_whitespace encoded cursor in
        case byte_at encoded cursor of
          None \<Rightarrow> Some (Inl InvalidEnvelope)
        | Some b \<Rightarrow>
            if b = 44 then scan_array_loop f encoded (cursor + 1) depth max_depth
            else if b = 93 then Some (Inr (cursor + 1))
            else Some (Inl InvalidEnvelope)))"

subsection \<open>Preflight\<close>

definition payload_key :: "u8 list" where
  "payload_key = map of_char ''payload''"

fun preflight_loop ::
  "nat \<Rightarrow> u8 list \<Rightarrow> usize \<Rightarrow> async_codec_limits \<Rightarrow> (envelope_error + unit) option" where
  "preflight_loop 0 encoded cursor limits = None"
| "preflight_loop (Suc f) encoded cursor limits =
     (let cursor = skip_json_whitespace encoded cursor in
      if byte_at encoded cursor = Some 125 then Some (Inr ())
      else ok_then (Some (scan_json_string encoded cursor)) (\<lambda>((key_start, key_end, escaped), cursor).
        if escaped then Some (Inl EnvNonCanonical)
        else let cursor = skip_json_whitespace encoded cursor in
        if byte_at encoded cursor \<noteq> Some 58 then Some (Inl InvalidEnvelope)
        else let value_start = skip_json_whitespace encoded (cursor + 1) in
        ok_then (scan_json_value (2 * length encoded + 1) encoded value_start 0
                   (il_max_depth (cl_input limits))) (\<lambda>cursor.
        if take (key_end - key_start) (drop key_start encoded) = payload_key
           \<and> cursor - value_start > cl_max_payload_bytes limits
        then Some (Inl PayloadTooLarge)
        else let cursor = skip_json_whitespace encoded cursor in
        case byte_at encoded cursor of
          None \<Rightarrow> Some (Inl InvalidEnvelope)
        | Some b \<Rightarrow>
            if b = 44 then preflight_loop f encoded (cursor + 1) limits
            else if b = 125 then Some (Inr ())
            else Some (Inl InvalidEnvelope))))"

definition preflight_payload_size ::
  "u8 list \<Rightarrow> async_codec_limits \<Rightarrow> (envelope_error + unit) option" where
  "preflight_payload_size encoded limits =
     (let cursor = skip_json_whitespace encoded 0 in
      if byte_at encoded cursor \<noteq> Some 123 then Some (Inr ())
      else preflight_loop (length encoded + 1) encoded (cursor + 1) limits)"

subsection \<open>The decoder\<close>

text \<open>What follows the preflight and the canonical check.\<close>

definition decode_fields ::
  "json_text \<Rightarrow> base64_engine \<Rightarrow> canonical_value \<Rightarrow> async_codec_limits \<Rightarrow> 'v envelope_context \<Rightarrow>
   envelope_error + envelope" where
  "decode_fields j b canonical limits c =
     and_then (parse_object InvalidEnvelope canonical) (\<lambda>members.
     and_then (require_exact_keys members
       [''payload'', ''position'', ''protocol_version'', ''stream'', ''subscription''] InvalidEnvelope) (\<lambda>_.
     and_then (take_field ''protocol_version'' members) (\<lambda>(v, members).
     and_then (parse_unsigned v InvalidEnvelope) (\<lambda>n.
     and_then (ok_or UnsupportedProtocol (u16_try_from n)) (\<lambda>protocol_version.
     if protocol_version \<notin> set supported_async_protocol_versions then Inl UnsupportedProtocol
     else
     and_then (take_string ''subscription'' members) (\<lambda>(s, members).
     and_then (subscription_id_parse b s) (\<lambda>subscription.
     if subscription \<noteq> ac_subscription c then Inl SubscriptionMismatch
     else
     and_then (take_string ''stream'' members) (\<lambda>(s, members).
     and_then (map_err (\<lambda>_. InvalidEnvelope) (stream_name_parse s)) (\<lambda>stream.
     if stream \<noteq> ac_stream c then Inl StreamMismatch
     else
     and_then (take_field ''position'' members) (\<lambda>(v, members).
     and_then (parse_position v) (\<lambda>position.
     and_then (take_field ''payload'' members) (\<lambda>(value, members).
     and_then (map_err map_envelope_canonical (to_canonical_bytes j value (cl_input limits))) (\<lambda>payload_bytes.
     if length payload_bytes > cl_max_payload_bytes limits then Inl PayloadTooLarge
     else
     and_then (parse_payload value c) (\<lambda>payload.
       Inr \<lparr>env_protocol_version = protocol_version, env_subscription = subscription,
             env_stream = stream, env_position = position, env_payload = payload\<rparr>))))))))))))))"

definition decode_async_envelope ::
  "json_text \<Rightarrow> base64_engine \<Rightarrow> u8 list \<Rightarrow> async_codec_limits \<Rightarrow> 'v envelope_context \<Rightarrow>
   (envelope_error + envelope) option" where
  "decode_async_envelope j b encoded limits c =
     (if length encoded > il_max_bytes (cl_input limits) then Some (Inl EnvTooLarge)
      else ok_then (preflight_payload_size encoded limits) (\<lambda>_. Some
        (and_then (map_err map_envelope_canonical (parse_canonical_value j encoded (cl_input limits))) (\<lambda>canonical.
         and_then (map_err map_envelope_canonical (to_canonical_bytes j canonical (cl_input limits))) (\<lambda>recoded.
           if recoded \<noteq> encoded then Inl EnvNonCanonical
           else decode_fields j b canonical limits c)))))"

text \<open>\<open>validate_programmatic_payload\<close> and \<open>AsyncEnvelope::new\<close>: what the server authors is decoded back.\<close>

definition validate_programmatic_payload ::
  "json_text \<Rightarrow> 'v envelope_context \<Rightarrow> async_payload \<Rightarrow> envelope_error + async_payload" where
  "validate_programmatic_payload j c payload =
     and_then (validate_registered_payload c payload) (\<lambda>_.
     and_then (payload_value payload) (\<lambda>value.
     and_then (map_err map_envelope_canonical (to_canonical_bytes j value (cl_input v1_limits))) (\<lambda>encoded.
     if length encoded > cl_max_payload_bytes v1_limits then Inl PayloadTooLarge
     else
     and_then (map_err map_envelope_canonical (parse_canonical_value j encoded (cl_input v1_limits))) (\<lambda>reparsed.
     and_then (map_err map_envelope_canonical (to_canonical_bytes j reparsed (cl_input v1_limits))) (\<lambda>recoded.
       if recoded \<noteq> encoded then Inl EnvNonCanonical else parse_payload reparsed c)))))"

definition async_envelope_new ::
  "json_text \<Rightarrow> base64_engine \<Rightarrow> 'v envelope_context \<Rightarrow> stream_position \<Rightarrow> async_payload \<Rightarrow>
   (envelope_error + envelope) option" where
  "async_envelope_new j b c position payload =
     ok_then (Some (validate_programmatic_payload j c payload)) (\<lambda>payload.
     let envelope = \<lparr>env_protocol_version = 1, env_subscription = ac_subscription c,
                     env_stream = ac_stream c, env_position = position, env_payload = payload\<rparr>
     in ok_then (Some (encode_async_envelope j b envelope v1_limits)) (\<lambda>encoded.
          decode_async_envelope j b encoded v1_limits c))"

end
