(* ===== verification/Decode_Props.thy ===== *)
theory Decode_Props
  imports Async_Decode Canonical_Props
begin

text \<open>
  The envelope decoder: the preflight scanner ends within its fuel and stays inside the text; a
  decoded envelope is one the membership registered; the bytes it came from are the ones the
  encoder writes for it; and the sorted contract sets it consults are searched correctly.
\<close>

subsection \<open>The scanner ends\<close>

lemma skip_whitespace_ge: "cursor \<le> skip_json_whitespace encoded cursor"
proof (induction encoded cursor rule: skip_json_whitespace.induct)
  case (1 encoded cursor)
  show ?case
  proof (cases "byte_at encoded cursor")
    case None
    then show ?thesis by (simp add: skip_json_whitespace.simps [of encoded cursor])
  next
    case (Some b)
    then show ?thesis using "1.IH" [OF Some]
      by (cases "json_whitespace b") (auto simp: skip_json_whitespace.simps [of encoded cursor])
  qed
qed

lemma scan_scalar_ge: "cursor \<le> scan_scalar encoded cursor"
proof (induction encoded cursor rule: scan_scalar.induct)
  case (1 encoded cursor)
  show ?case
  proof (cases "byte_at encoded cursor")
    case None
    then show ?thesis by (simp add: scan_scalar.simps [of encoded cursor])
  next
    case (Some b)
    then show ?thesis using "1.IH" [OF Some]
      by (cases "scalar_end b") (auto simp: scan_scalar.simps [of encoded cursor])
  qed
qed

lemma scan_string_loop_bounds:
  "scan_string_loop encoded cursor escaped = Inr (stop, next, e) \<Longrightarrow>
   cursor \<le> stop \<and> next = stop + 1 \<and> next \<le> length encoded"
proof (induction encoded cursor escaped rule: scan_string_loop.induct)
  case (1 encoded cursor escaped)
  from "1.prems" obtain b where b: "byte_at encoded cursor = Some b"
    by (cases "byte_at encoded cursor") (auto simp: scan_string_loop.simps [of encoded cursor])
  consider "b = 34" | "b \<noteq> 34" "b = 92" | "b \<noteq> 34" "b \<noteq> 92" by blast
  then show ?case
  proof cases
    case 1
    then show ?thesis using "1.prems" byte_at_less [OF b] by (auto simp: scan_string_loop.simps [of encoded cursor] b)
  next
    case 2
    then have "\<not> cursor + 2 > length encoded" "scan_string_loop encoded (cursor + 2) True = Inr (stop, next, e)"
      using "1.prems" by (auto simp: scan_string_loop.simps [of encoded cursor] b split: if_splits)
    then show ?thesis using "1.IH"(1) [OF b 2] by simp
  next
    case 3
    then have "scan_string_loop encoded (cursor + 1) escaped = Inr (stop, next, e)"
      using "1.prems" by (auto simp: scan_string_loop.simps [of encoded cursor] b)
    then show ?thesis using "1.IH"(2) [OF b 3] by simp
  qed
qed

lemma scan_string_bounds:
  "scan_json_string encoded cursor = Inr ((start, stop, e), next) \<Longrightarrow>
   start = cursor + 1 \<and> start \<le> stop \<and> stop < next \<and> next \<le> length encoded"
  by (auto simp: scan_json_string_def and_then_eq_Inr split: if_splits dest!: scan_string_loop_bounds)

text \<open>With enough fuel a scan ends, and a good end is behind the value it started at.\<close>

definition scanned :: "usize \<Rightarrow> (envelope_error + usize) option \<Rightarrow> bool" where
  "scanned cursor r = (\<exists>x. r = Some x \<and> (\<forall>next. x = Inr next \<longrightarrow> cursor < next))"

lemma scanned_simps [simp]:
  "scanned cursor (Some (Inl e))" "scanned cursor (Some (Inr next)) \<longleftrightarrow> cursor < next" "\<not> scanned cursor None"
  by (auto simp: scanned_def)

lemma scanned_less: "scanned cursor' r \<Longrightarrow> cursor \<le> cursor' \<Longrightarrow> scanned cursor r"
  by (fastforce simp: scanned_def)

lemma scanned_then:
  "scanned cursor' r \<Longrightarrow> (\<And>next. r = Some (Inr next) \<Longrightarrow> cursor' < next \<Longrightarrow> scanned cursor (f next)) \<Longrightarrow>
   scanned cursor (ok_then r f)"
  by (auto simp: scanned_def) (metis ok_then.simps(2,3) old.sum.exhaust)

text \<open>What follows a member: the next one, the end, or an error.\<close>

lemma scanned_tail:
  assumes "cursor \<le> c" and "c < length encoded \<Longrightarrow> scanned (c + 1) again"
  shows "scanned cursor (case byte_at encoded c of
      None \<Rightarrow> Some (Inl InvalidEnvelope)
    | Some b \<Rightarrow> if b = 44 then again else if b = close then Some (Inr (c + 1)) else Some (Inl InvalidEnvelope))"
proof (cases "byte_at encoded c")
  case (Some b)
  have "scanned cursor again" by (rule scanned_less [OF assms(2) [OF byte_at_less [OF Some]]]) (simp add: assms(1) le_SucI)
  then show ?thesis using Some assms(1) by simp
qed simp

lemma scan_ends:
  shows "2 * (length encoded - cursor) + 1 \<le> f \<Longrightarrow>
      scanned cursor (scan_json_value f encoded cursor depth max_depth)"
    and "2 * (length encoded - cursor) + 2 \<le> f \<Longrightarrow>
      scanned cursor (scan_object_loop f encoded cursor depth max_depth)"
    and "2 * (length encoded - cursor) + 2 \<le> f \<Longrightarrow>
      scanned cursor (scan_array_loop f encoded cursor depth max_depth)"
proof (induction f arbitrary: cursor depth)
  case 0
  { case 1 then show ?case by simp next
    case 2 then show ?case by simp next
    case 3 then show ?case by simp }
next
  case (Suc f)
  note value_ends = Suc.IH(1) and object_ends = Suc.IH(2) and array_ends = Suc.IH(3)
  {
    case 1
    show ?case
    proof (cases "byte_at encoded cursor")
      case None
      then show ?thesis by simp
    next
      case (Some b)
      from byte_at_less [OF Some] 1 have f: "2 * (length encoded - (cursor + 1)) + 2 \<le> f" by simp
      have string: "scanned cursor (Some (map_ok snd (scan_json_string encoded cursor)))"
        by (cases "scan_json_string encoded cursor") (auto dest!: scan_string_bounds)
      have "scanned cursor (scan_object_loop f encoded (cursor + 1) depth max_depth)"
        "scanned cursor (scan_array_loop f encoded (cursor + 1) depth max_depth)"
        by (rule scanned_less [OF object_ends [OF f]], simp, rule scanned_less [OF array_ends [OF f]], simp)
      then show ?thesis using Some string scan_scalar_ge [of cursor encoded] by (simp add: Let_def)
    qed
  next
    case 2
    let ?c = "skip_json_whitespace encoded cursor"
    have c: "cursor \<le> ?c" by (rule skip_whitespace_ge)
    have tail: "scanned cursor (case byte_at encoded (skip_json_whitespace encoded stop) of
        None \<Rightarrow> Some (Inl InvalidEnvelope)
      | Some b \<Rightarrow> if b = 44 then scan_object_loop f encoded (skip_json_whitespace encoded stop + 1) depth max_depth
          else if b = 125 then Some (Inr (skip_json_whitespace encoded stop + 1)) else Some (Inl InvalidEnvelope))"
      if "cursor \<le> stop" for stop
      using that 2 skip_whitespace_ge [of stop encoded] by (intro scanned_tail object_ends) linarith+
    show ?case
    proof (cases "byte_at encoded ?c = Some 125")
      case True
      then show ?thesis using c by simp
    next
      case member: False
      show ?thesis
      proof (cases "scan_json_string encoded ?c")
        case (Inl e)
        then show ?thesis using member by simp
      next
        case (Inr found)
        obtain key after where found: "found = (key, after)" by fastforce
        then have "?c < after" using Inr by (cases key) (auto dest!: scan_string_bounds)
        let ?c1 = "skip_json_whitespace encoded after"
        let ?c2 = "skip_json_whitespace encoded (?c1 + 1)"
        have c2: "cursor < ?c2"
          using \<open>?c < after\<close> c skip_whitespace_ge [of after encoded] skip_whitespace_ge [of "?c1 + 1" encoded] by linarith
        have "scanned ?c2 (scan_json_value f encoded ?c2 (depth + 1) max_depth)"
          by (rule value_ends) (use 2 c2 in linarith)
        then have "scanned cursor (ok_then (scan_json_value f encoded ?c2 (depth + 1) max_depth) (\<lambda>stop.
            case byte_at encoded (skip_json_whitespace encoded stop) of
              None \<Rightarrow> Some (Inl InvalidEnvelope)
            | Some b \<Rightarrow> if b = 44 then scan_object_loop f encoded (skip_json_whitespace encoded stop + 1) depth max_depth
                else if b = 125 then Some (Inr (skip_json_whitespace encoded stop + 1)) else Some (Inl InvalidEnvelope)))"
          by (rule scanned_then) (use c2 in \<open>intro tail; linarith\<close>)
        then show ?thesis using member Inr found by (simp add: Let_def)
      qed
    qed
  next
    case 3
    let ?c = "skip_json_whitespace encoded cursor"
    have c: "cursor \<le> ?c" by (rule skip_whitespace_ge)
    have tail: "scanned cursor (case byte_at encoded (skip_json_whitespace encoded stop) of
        None \<Rightarrow> Some (Inl InvalidEnvelope)
      | Some b \<Rightarrow> if b = 44 then scan_array_loop f encoded (skip_json_whitespace encoded stop + 1) depth max_depth
          else if b = 93 then Some (Inr (skip_json_whitespace encoded stop + 1)) else Some (Inl InvalidEnvelope))"
      if "cursor \<le> stop" for stop
      using that 3 skip_whitespace_ge [of stop encoded] by (intro scanned_tail array_ends) linarith+
    have "scanned ?c (scan_json_value f encoded ?c (depth + 1) max_depth)"
      by (rule value_ends) (use 3 c in linarith)
    then have "scanned cursor (ok_then (scan_json_value f encoded ?c (depth + 1) max_depth) (\<lambda>stop.
        case byte_at encoded (skip_json_whitespace encoded stop) of
          None \<Rightarrow> Some (Inl InvalidEnvelope)
        | Some b \<Rightarrow> if b = 44 then scan_array_loop f encoded (skip_json_whitespace encoded stop + 1) depth max_depth
            else if b = 93 then Some (Inr (skip_json_whitespace encoded stop + 1)) else Some (Inl InvalidEnvelope)))"
      by (rule scanned_then) (use c in \<open>intro tail; linarith\<close>)
    then show ?case using c by (simp add: Let_def)
  }
qed

lemma preflight_ends: "length encoded - cursor < f \<Longrightarrow> preflight_loop f encoded cursor limits \<noteq> None"
proof (induction f arbitrary: cursor)
  case (Suc f)
  let ?c = "skip_json_whitespace encoded cursor"
  have c: "cursor \<le> ?c" by (rule skip_whitespace_ge)
  show ?case
  proof (cases "scan_json_string encoded ?c")
    case (Inl e)
    then show ?thesis by (simp add: Let_def)
  next
    case (Inr found)
    obtain start stop e after where found: "found = ((start, stop, e), after)" by (metis surj_pair)
    let ?c1 = "skip_json_whitespace encoded after"
    let ?v = "skip_json_whitespace encoded (?c1 + 1)"
    have v: "cursor < ?v"
      using c scan_string_bounds [OF Inr [unfolded found]] skip_whitespace_ge [of after encoded]
        skip_whitespace_ge [of "?c1 + 1" encoded] by linarith
    have "scanned ?v (scan_json_value (2 * length encoded + 1) encoded ?v 0 (il_max_depth (cl_input limits)))"
      by (rule scan_ends(1)) simp
    then obtain x where x: "scan_json_value (2 * length encoded + 1) encoded ?v 0 (il_max_depth (cl_input limits)) = Some x"
      "\<forall>stop. x = Inr stop \<longrightarrow> ?v < stop" unfolding scanned_def by blast
    show ?thesis
    proof (cases x)
      case (Inl err)
      then show ?thesis using Inr found x by (simp add: Let_def)
    next
      case x': (Inr stop')
      let ?c2 = "skip_json_whitespace encoded stop'"
      have c2: "cursor < ?c2" using x(2) x' v skip_whitespace_ge [of stop' encoded] by simp
      have "preflight_loop f encoded (?c2 + 1) limits \<noteq> None" if "byte_at encoded ?c2 = Some b" for b
        by (rule Suc.IH) (use Suc.prems c2 byte_at_less [OF that] in linarith)
      then show ?thesis using Inr found x(1) x'
        by (cases "byte_at encoded ?c2") (simp_all add: Let_def)
    qed
  qed
qed simp

lemma preflight_total: "preflight_payload_size encoded limits \<noteq> None"
  using preflight_ends [of encoded "skip_json_whitespace encoded 0 + 1" "length encoded + 1" limits]
  by (simp add: preflight_payload_size_def Let_def)

lemma ok_then_total: "r \<noteq> None \<Longrightarrow> (\<And>x. f x \<noteq> None) \<Longrightarrow> ok_then r f \<noteq> None"
  by (cases r; cases "the r") simp_all

lemma decode_total: "decode_async_envelope j b encoded limits c \<noteq> None"
proof (cases "length encoded > il_max_bytes (cl_input limits)")
  case False
  then show ?thesis unfolding decode_async_envelope_def if_not_P [OF False]
    by (intro ok_then_total preflight_total) simp
qed (simp add: decode_async_envelope_def)

lemma envelope_new_total: "async_envelope_new j b c position payload \<noteq> None"
  unfolding async_envelope_new_def Let_def by (intro ok_then_total decode_total) simp_all

subsection \<open>What a decoded envelope is\<close>

text \<open>The payloads the membership may receive, as its registration declares them.\<close>

definition topic_change_ok :: "topic_change \<Rightarrow> bool" where
  "topic_change_ok t =
     (topic_name_parse (tc_topic t) = Inr (tc_topic t)
      \<and> 0 < unat (tc_generation t) \<and> unat (tc_generation t) \<le> max_safe_integer
      \<and> unat (tc_cursor t) \<le> max_safe_integer
      \<and> length (tc_props t) \<le> 256 \<and> sorted_wrt (<) (tc_props t)
      \<and> (\<forall>name \<in> set (tc_props t). name \<noteq> [] \<and> length name \<le> 256))"

fun payload_ok :: "'v envelope_context \<Rightarrow> async_payload \<Rightarrow> bool" where
  "payload_ok c (PayTopicChange t) = topic_change_ok t"
| "payload_ok c (PayBrowserEvent e) =
     (\<exists>k \<in> set (rg_events (ac_registered c)). ec_name k = be_name e \<and> ec_version k = be_schema_version e
        \<and> be_target e \<in> set (ec_targets k) \<and> schema_matches (ec_schema k) (be_payload e)
        \<and> be_maximum_fanout e = ec_maximum_fanout k)"
| "payload_ok c (PaySignal s) =
     (\<exists>k \<in> set (rg_signals (ac_registered c)). sc_scope k = ps_scope s \<and> sc_name k = ps_name s
        \<and> ps_schema s = sc_schema k \<and> signal_schema_matches (sc_schema k) (ps_value s))"
| "payload_ok c _ = True"

lemma remdups_adj_strict: "sorted xs \<Longrightarrow> sorted_wrt (<) (remdups_adj (xs :: 'a :: linorder list))"
proof (induction xs rule: remdups_adj.induct)
  case (3 x y xs)
  show ?case
  proof (cases "x = y")
    case False
    then have "\<forall>z \<in> set (y # xs). x < z" using "3.prems" by (auto simp: order_less_le)
    moreover have "sorted_wrt (<) (remdups_adj (y # xs))" using "3.IH"(2) [OF False] "3.prems" by simp
    ultimately show ?thesis using False by (simp add: remdups_adj_set)
  qed (use 3 in simp)
qed simp_all

lemma topic_change_new_ok: "topic_change_new topic generation cursor props = Inr t \<Longrightarrow> topic_change_ok t"
proof -
  assume ok: "topic_change_new topic generation cursor props = Inr t"
  then obtain parsed where parsed: "topic_name_parse topic = Inr parsed"
    by (auto simp: topic_change_new_def split: sum.splits)
  then have "parsed = topic"
    by (auto simp: topic_name_parse_def parse_contract_name_def split: if_splits)
  moreover have "length (remdups_adj (sort props)) \<le> length props"
    using remdups_adj_length [of "sort props"] by simp
  ultimately show ?thesis
    using ok parsed by (auto simp: topic_change_new_def topic_change_ok_def list_ex_iff remdups_adj_strict unat_gt_0
        not_less split: if_splits)
qed

lemma binary_search_base_less:
  "base + count \<le> length xs \<Longrightarrow> 0 < count \<Longrightarrow> binary_search_base f xs count base < length xs"
proof (induction f xs count base rule: binary_search_base.induct)
  case (1 f xs count base)
  show ?case
  proof (cases "count \<le> 1")
    case True
    then show ?thesis using "1.prems" by (simp add: binary_search_base.simps [of f xs count])
  next
    case False
    then have "0 < count - count div 2" "base + count div 2 + (count - count div 2) \<le> length xs"
      using "1.prems" by simp_all
    then show ?thesis using "1.IH" [OF False] False "1.prems"(1)
      by (cases "f (xs ! (base + count div 2)) = Greater") (simp_all add: binary_search_base.simps [of f xs count])
  qed
qed

lemma binary_search_found:
  "binary_search_by f xs = Some i \<Longrightarrow> i < length xs \<and> f (xs ! i) = Equal"
  using binary_search_base_less [of 0 "length xs" xs f]
  by (auto simp: binary_search_by_def Let_def split: if_splits)

lemma compare_keys_Equal [simp]: "compare_keys x y = Equal \<longleftrightarrow> x = y"
  by (simp add: compare_keys_def)

lemma signal_found:
  "registered_signal_contract c scope name = Inr k \<Longrightarrow>
   k \<in> set (rg_signals (ac_registered c)) \<and> sc_scope k = scope \<and> sc_name k = name"
  by (auto simp: registered_signal_contract_def signal_contracts_find_def ok_or_eq_Inr
      dest!: binary_search_found)

lemma event_found:
  "registered_event_contract c name = Inr k \<Longrightarrow> k \<in> set (rg_events (ac_registered c)) \<and> ec_name k = name"
  by (auto simp: registered_event_contract_def ok_or_eq_Inr find_Some_iff)

lemma parse_browser_event_ok:
  "parse_browser_event members c = Inr e \<Longrightarrow> payload_ok c (PayBrowserEvent e)"
  by (auto simp: parse_browser_event_def validate_event_def split: if_splits dest!: event_found)

lemma parse_signal_ok:
  "parse_presentation_signal members c = Inr s \<Longrightarrow> payload_ok c (PaySignal s)"
  by (auto simp: parse_presentation_signal_def split: if_splits dest!: signal_found)

lemma parse_topic_ok: "parse_topic_change members = Inr t \<Longrightarrow> topic_change_ok t"
  by (auto simp: parse_topic_change_def dest!: topic_change_new_ok)

lemma parse_payload_ok: "parse_payload value c = Inr p \<Longrightarrow> payload_ok c p"
  using parse_browser_event_ok [of _ c] parse_signal_ok [of _ c] parse_topic_ok
  by (auto simp: parse_payload_def parse_payload_fields_def map_ok_eq_Inr split: if_splits)

subsection \<open>Fields\<close>

lemma bt_ext: "bt_sorted m \<Longrightarrow> bt_sorted m' \<Longrightarrow> fst ` set m = fst ` set m' \<Longrightarrow> map fst m = map fst m'"
  unfolding bt_sorted_def by (rule strict_sorted_equal) simp_all

text \<open>An object with exactly the expected keys has them in their order.\<close>

lemma exact_keys:
  assumes "bt_sorted members" and "require_exact_keys members keys kind = Inr u" and "distinct keys"
  shows "map fst members = sort keys"
proof -
  have len: "length members = length keys" and some: "\<forall>k \<in> set keys. map_of members k \<noteq> None"
    using assms(2) by (auto simp: require_exact_keys_def list_ex_iff split: if_splits)
  have sub: "set keys \<subseteq> set (map fst members)"
  proof
    fix k assume "k \<in> set keys"
    then have "map_of members k \<noteq> None" using some by blast
    then show "k \<in> set (map fst members)" using map_of_eq_None_iff [of members k] by auto
  qed
  have "card (set (map fst members)) = card (set keys)"
    using distinct_card [OF bt_sorted_distinct [OF assms(1)]] distinct_card [OF assms(3)] len by simp
  then have "set keys = set (map fst members)" by (rule card_subset_eq [OF finite_set sub, OF sym])
  then have "set (map fst members) = set (sort keys)" by simp
  moreover have "sorted_wrt (<) (sort keys)" using assms(3) by (simp add: strict_sorted_iff)
  ultimately show ?thesis
    using assms(1) unfolding bt_sorted_def by (intro strict_sorted_equal)
qed

lemma canonical_number_of [simp]: "canonical_number q = Inr (CNumber q)"
  by (simp add: canonical_number_def)

lemma parsed_u16:
  assumes "parse_unsigned v kind = Inr n" and "u16_try_from n = Some m"
  shows "v = CNumber (of_nat (unat m))"
proof -
  obtain q where v: "v = CNumber q" using assms(1) by (cases "(v, kind)" rule: parse_unsigned.cases) auto
  then have q: "is_integral q" "0 \<le> q" and n: "n = (if nat \<lfloor>q\<rfloor> < 2 ^ 64 then of_nat (nat \<lfloor>q\<rfloor>) else u64_max)"
    using assms(1) by (auto simp: not_less split: if_splits)
  have small: "unat n < 2 ^ 16" and m: "m = of_nat (unat n)"
    using assms(2) by (auto simp: u16_try_from_def split: if_splits)
  have "nat \<lfloor>q\<rfloor> < 2 ^ 64"
  proof (rule ccontr)
    assume "\<not> nat \<lfloor>q\<rfloor> < 2 ^ 64"
    then have "unat n = 2 ^ 64 - 1" using n by (simp add: u64_max_def)
    then show False using small by simp
  qed
  then have "unat n = nat \<lfloor>q\<rfloor>" using n by (simp add: unat_of_nat take_bit_nat_eq_self)
  then have "unat m = nat \<lfloor>q\<rfloor>" using m small by (simp add: unat_of_nat take_bit_nat_eq_self)
  moreover have "of_nat (nat \<lfloor>q\<rfloor>) = q" using q by (simp add: is_integral_def)
  ultimately show ?thesis using v by simp
qed

lemma decimal_exact:
  assumes "decimal s = Inr v"
  shows "s = u64_to_string v"
proof (rule u64_to_string_parse)
  obtain c cs where s: "s = c # cs" using assms by (cases s) (auto simp: decimal_def)
  then show "parse_decimal s = Inr v"
    using assms by (cases cs) (auto simp: decimal_def parse_decimal_def split: if_splits)
qed

lemma strip_prefix_Some: "strip_prefix p s = Some r \<Longrightarrow> s = p @ r"
  by (induction p s rule: strip_prefix.induct) (auto split: if_splits)

lemma text_identity_same: "text_identity_parse k v = Inr w \<Longrightarrow> w = v"
  by (auto simp: text_identity_parse_def parse_text_identity_def split: if_splits)

lemma target_exact: "parse_target s = Inr t \<Longrightarrow> target_name t = s"
  by (auto simp: parse_target_def map_ok_eq_Inr split: if_splits option.splits dest!: strip_prefix_Some text_identity_same)

subsection \<open>Only what the encoder writes is accepted\<close>

lemma parse_string_iff [simp]: "parse_string v = Inr s \<longleftrightarrow> v = CString s"
  by (cases v) auto

lemma parse_object_iff [simp]: "parse_object kind v = Inr members \<longleftrightarrow> v = CObject members"
  by (cases v) auto

lemma take_field_iff [simp]:
  "take_field key members = Inr (v, rest) \<longleftrightarrow> map_of members key = Some v \<and> rest = bt_remove key members"
  by (auto simp: take_field_def split: option.splits)

lemma take_string_iff [simp]:
  "take_string key members = Inr (s, rest) \<longleftrightarrow> map_of members key = Some (CString s) \<and> rest = bt_remove key members"
  by (auto simp: take_string_def)

lemma wf_member: "wf_members ms \<Longrightarrow> map_of ms k = Some v \<Longrightarrow> wf_value v"
  by (induction ms) (auto split: if_splits)

lemmas key_list = map_eq_Cons_conv

lemma position_exact:
  assumes "parse_position v = Inr p" and "wf_value v"
  shows "v = position_value p"
proof -
  obtain members u where v: "v = CObject members"
    and keys: "require_exact_keys members [''epoch'', ''sequence''] InvalidEnvelope = Inr u"
    using assms(1) by (auto simp: parse_position_def)
  have "map fst members = sort [''epoch'', ''sequence'']"
    using exact_keys [OF _ keys] assms(2) v by simp
  then obtain e s where members: "members = [(''epoch'', e), (''sequence'', s)]"
    by (auto simp: key_list)
  then show ?thesis
    using assms(1) v by (auto simp: parse_position_def position_value_def object_value_def bt_collect_def
        bt_remove_def dest!: decimal_exact)
qed

lemma browser_event_exact:
  assumes "parse_browser_event members c = Inr e" and "bt_sorted members"
    and "map_of members ''kind'' = Some (CString ''browser_event'')"
  shows "payload_value (PayBrowserEvent e) = Inr (CObject members)"
proof -
  obtain u where keys: "require_exact_keys members [''event'', ''kind'', ''payload'', ''schema_version'', ''target'']
      InvalidPayload = Inr u"
    using assms(1) by (auto simp: parse_browser_event_def)
  have "map fst members = sort [''event'', ''kind'', ''payload'', ''schema_version'', ''target'']"
    using exact_keys [OF assms(2) keys] by simp
  then obtain ev k pa ve ta where
    "members = [(''event'', ev), (''kind'', k), (''payload'', pa), (''schema_version'', ve), (''target'', ta)]"
    by (auto simp: key_list)
  then show ?thesis
    using assms(1,3) by (auto simp: parse_browser_event_def object_value_def bt_collect_def bt_remove_def
        dest!: text_identity_same target_exact parsed_u16)
qed

lemma signal_name_same: "signal_name_parse v = Inr w \<Longrightarrow> w = v" "signal_scope_parse v = Inr w \<Longrightarrow> w = v"
  by (auto simp: signal_name_parse_def signal_scope_parse_def split: list.splits if_splits)

lemma signal_exact:
  assumes "parse_presentation_signal members c = Inr s" and "bt_sorted members"
    and "map_of members ''kind'' = Some (CString ''presentation_signal'')"
  shows "payload_value (PaySignal s) = Inr (CObject members)"
proof -
  obtain u where keys: "require_exact_keys members [''kind'', ''name'', ''scope'', ''value''] InvalidPayload = Inr u"
    using assms(1) by (auto simp: parse_presentation_signal_def)
  have "map fst members = sort [''kind'', ''name'', ''scope'', ''value'']"
    using exact_keys [OF assms(2) keys] by simp
  then obtain k n sc v where "members = [(''kind'', k), (''name'', n), (''scope'', sc), (''value'', v)]"
    by (auto simp: key_list)
  then show ?thesis
    using assms(1,3) by (auto simp: parse_presentation_signal_def object_value_def bt_collect_def bt_remove_def
        split: if_splits dest!: signal_name_same)
qed

text \<open>An object with the one key, or with the two.\<close>

lemma exact_keys1:
  "bt_sorted members \<Longrightarrow> require_exact_keys members [k] kind = Inr u \<Longrightarrow> map_of members k = Some v \<Longrightarrow>
   members = [(k, v)]"
  using exact_keys [of members "[k]" kind u] by (auto simp: key_list)

lemma exact_keys2:
  assumes "bt_sorted members" and "require_exact_keys members [k, l] kind = Inr u" and "k < l"
    and "map_of members k = Some v" "map_of members l = Some w"
  shows "members = [(k, v), (l, w)]"
proof -
  have "map fst members = [k, l]" using exact_keys [OF assms(1,2)] assms(3) by (simp add: less_imp_le)
  moreover have "l \<noteq> k" using assms(3) by simp
  ultimately show ?thesis using assms(4,5) by (auto simp: key_list)
qed

lemma payload_exact:
  assumes "parse_payload v c = Inr p" and "wf_value v" and "\<forall>t. p \<noteq> PayTopicChange t"
  shows "payload_value p = Inr v"
proof -
  obtain members kind where obj: "v = CObject members" and kind: "map_of members ''kind'' = Some (CString kind)"
    and rest: "parse_payload_fields kind members c = Inr p"
    using assms(1) by (auto simp: parse_payload_def)
  have sorted: "bt_sorted members" using assms(2) obj by simp
  note fields = rest [unfolded parse_payload_fields_def]
  consider "kind = ''refresh''" | "kind = ''topic_change''" | "kind = ''browser_event''"
    | "kind = ''presentation_signal''" | "kind = ''heartbeat''" | "kind = ''complete''" | "kind = ''error''"
    using fields by (auto split: if_splits)
  then show ?thesis
  proof cases
    case 1
    then have s: "require_exact_keys members [''kind'', ''name''] InvalidPayload = Inr ()"
      "map_of members ''name'' = Some (CString ''refresh'')" "p = PayRefresh"
      using fields by (auto split: if_splits)
    then show ?thesis using exact_keys2 [OF sorted s(1) _ kind s(2)] 1 obj
      by (simp add: object_value_def bt_collect_def)
  next
    case 2
    then show ?thesis using fields assms(3) by (auto simp: map_ok_eq_Inr)
  next
    case 3
    then obtain e where "parse_browser_event members c = Inr e" "p = PayBrowserEvent e"
      using fields by (auto simp: map_ok_eq_Inr)
    then show ?thesis using browser_event_exact sorted kind 3 obj by blast
  next
    case 4
    then obtain e where "parse_presentation_signal members c = Inr e" "p = PaySignal e"
      using fields by (auto simp: map_ok_eq_Inr)
    then show ?thesis using signal_exact sorted kind 4 obj by blast
  next
    case 5
    then have s: "require_exact_keys members [''kind''] InvalidPayload = Inr ()" "p = PayHeartbeat"
      using fields by auto
    then show ?thesis using exact_keys1 [OF sorted s(1) kind] 5 obj by (simp add: object_value_def bt_collect_def)
  next
    case 6
    then obtain s r where s: "require_exact_keys members [''kind'', ''reason''] InvalidPayload = Inr ()"
      "map_of members ''reason'' = Some (CString s)" "parse_completion_reason s = Inr r" "p = PayComplete r"
      using fields by (auto simp: map_ok_eq_Inr)
    then have "completion_reason_str r = s" by (auto simp: parse_completion_reason_def split: if_splits)
    then show ?thesis using exact_keys2 [OF sorted s(1) _ kind s(2)] 6 s obj
      by (simp add: object_value_def bt_collect_def)
  next
    case 7
    then obtain s r where s: "require_exact_keys members [''code'', ''kind''] InvalidPayload = Inr ()"
      "map_of members ''code'' = Some (CString s)" "parse_stream_error_code s = Inr r" "p = PayError r"
      using fields by (auto simp: map_ok_eq_Inr)
    then have "stream_error_code_str r = s" by (auto simp: parse_stream_error_code_def split: if_splits)
    then show ?thesis using exact_keys2 [OF sorted s(1) _ s(2) kind] 7 s obj
      by (simp add: object_value_def bt_collect_def)
  qed
qed

lemma subscription_id_exact: "subscription_id_parse b w = Inr s \<Longrightarrow> w = b64_encode b s"
  by (auto simp: subscription_id_parse_def split: if_splits option.splits)

lemma stream_name_same: "stream_name_parse s = Inr w \<Longrightarrow> s = w"
  by (auto simp: stream_name_parse_def parse_contract_name_def split: if_splits)

text \<open>What \<open>decode_fields\<close> has established about the envelope it returns.\<close>

lemma decode_fields_ok:
  assumes "decode_fields j b canonical limits c = Inr e"
  obtains members v bytes where "canonical = CObject members"
    "require_exact_keys members [''payload'', ''position'', ''protocol_version'', ''stream'', ''subscription'']
       InvalidEnvelope = Inr ()"
    "map_of members ''protocol_version'' = Some (CNumber (of_nat (unat (env_protocol_version e))))"
    "env_protocol_version e \<in> set supported_async_protocol_versions"
    "map_of members ''subscription'' = Some (CString (b64_encode b (env_subscription e)))"
    "env_subscription e = ac_subscription c"
    "map_of members ''stream'' = Some (CString (env_stream e))" "env_stream e = ac_stream c"
    "\<exists>p. map_of members ''position'' = Some p \<and> parse_position p = Inr (env_position e)"
    "map_of members ''payload'' = Some v" "to_canonical_bytes j v (cl_input limits) = Inr bytes"
    "length bytes \<le> cl_max_payload_bytes limits" "parse_payload v c = Inr (env_payload e)"
proof -
  obtain members where "canonical = CObject members" using assms by (auto simp: decode_fields_def)
  then show ?thesis using assms that [of members]
    by (auto simp: decode_fields_def not_less split: if_splits
        dest!: parsed_u16 subscription_id_exact stream_name_same)
qed

text \<open>The envelope value the encoder builds from a decoded envelope is the value that was read.\<close>

lemma envelope_exact:
  assumes "decode_fields j b canonical limits c = Inr e" and "wf_value canonical"
    and "\<forall>t. env_payload e \<noteq> PayTopicChange t" and "to_canonical_bytes j canonical (cl_input limits) = Inr encoded"
  shows "encode_async_envelope j b e limits = Inr encoded"
proof -
  obtain members v bytes where canonical: "canonical = CObject members"
    and keys: "require_exact_keys members [''payload'', ''position'', ''protocol_version'', ''stream'', ''subscription'']
       InvalidEnvelope = Inr ()"
    and version: "map_of members ''protocol_version'' = Some (CNumber (of_nat (unat (env_protocol_version e))))"
      "env_protocol_version e \<in> set supported_async_protocol_versions"
    and subscription: "map_of members ''subscription'' = Some (CString (b64_encode b (env_subscription e)))"
      "env_subscription e = ac_subscription c"
    and stream: "map_of members ''stream'' = Some (CString (env_stream e))" "env_stream e = ac_stream c"
    and at: "\<exists>p. map_of members ''position'' = Some p \<and> parse_position p = Inr (env_position e)"
    and payload: "map_of members ''payload'' = Some v" "to_canonical_bytes j v (cl_input limits) = Inr bytes"
      "length bytes \<le> cl_max_payload_bytes limits" "parse_payload v c = Inr (env_payload e)"
    by (rule decode_fields_ok [OF assms(1)])
  have wf: "bt_sorted members" "wf_members members" using assms(2) canonical by simp_all
  have position: "map_of members ''position'' = Some (position_value (env_position e))"
    using at position_exact wf_member [OF wf(2)] by blast
  have v: "payload_value (env_payload e) = Inr v"
    using payload_exact [OF payload(4) wf_member [OF wf(2) payload(1)] assms(3)] .
  have "map fst members = sort [''payload'', ''position'', ''protocol_version'', ''stream'', ''subscription'']"
    using exact_keys [OF wf(1) keys] by simp
  then have "members = [(''payload'', v), (''position'', position_value (env_position e)),
      (''protocol_version'', CNumber (of_nat (unat (env_protocol_version e)))),
      (''stream'', CString (env_stream e)), (''subscription'', CString (b64_encode b (env_subscription e)))]"
    using version(1) subscription(1) stream(1) payload(1) position by (auto simp: key_list)
  then have "envelope_value b v e = Inr canonical"
    using canonical by (simp add: envelope_value_def object_value_def bt_collect_def)
  then show ?thesis using v payload(2,3) assms(4) by (simp add: encode_async_envelope_def)
qed

lemma decoded:
  assumes "decode_async_envelope j b encoded limits c = Some (Inr e)"
  obtains canonical where "length encoded \<le> il_max_bytes (cl_input limits)"
    "to_canonical_bytes j canonical (cl_input limits) = Inr encoded" "wf_value canonical"
    "decode_fields j b canonical limits c = Inr e"
proof -
  have len: "length encoded \<le> il_max_bytes (cl_input limits)"
    using assms by (auto simp: decode_async_envelope_def split: if_splits)
  obtain r where "preflight_payload_size encoded limits = Some r" using preflight_total by blast
  then have "and_then (map_err map_envelope_canonical (parse_canonical_value j encoded (cl_input limits))) (\<lambda>canonical.
         and_then (map_err map_envelope_canonical (to_canonical_bytes j canonical (cl_input limits))) (\<lambda>recoded.
           if recoded \<noteq> encoded then Inl EnvNonCanonical
           else decode_fields j b canonical limits c)) = Inr e"
    using assms len by (cases r) (simp_all add: decode_async_envelope_def)
  then obtain canonical where canonical: "parse_canonical_value j encoded (cl_input limits) = Inr canonical"
    "to_canonical_bytes j canonical (cl_input limits) = Inr encoded" "decode_fields j b canonical limits c = Inr e"
    by (auto split: if_splits)
  moreover have "wf_value canonical"
    using canonical(1) visit_bt_sorted(1) by (auto simp: parse_canonical_value_def split: if_splits prod.splits)
  ultimately show ?thesis using that len by blast
qed

subsection \<open>Searching the declared sets\<close>

lemma binary_search_base_keeps:
  assumes "sorted_wrt (<) (map f xs)" and "i < length xs" and "f (xs ! i) = (t :: 'b :: linorder)"
  shows "base \<le> i \<Longrightarrow> i < base + count \<Longrightarrow> base + count \<le> length xs \<Longrightarrow>
    binary_search_base (\<lambda>x. compare_keys (f x) t) xs count base = i"
proof (induction count arbitrary: base rule: less_induct)
  case (less count)
  let ?c = "\<lambda>x. compare_keys (f x) t"
  show ?case
  proof (cases "count \<le> 1")
    case True
    then show ?thesis using less.prems by (simp add: binary_search_base.simps [of ?c xs count base])
  next
    case False
    let ?mid = "base + count div 2"
    have order: "f (xs ! k) < f (xs ! l)" if "k < l" "l < length xs" for k l
      using sorted_wrt_nth_less [OF assms(1), of k l] that by simp
    have mid: "?mid < length xs" using less.prems(3) False by linarith
    show ?thesis
    proof (cases "i < ?mid")
      case True
      then have "?c (xs ! ?mid) = Greater" using order [OF True mid] assms(3) by (auto simp: compare_keys_def)
      moreover have "binary_search_base ?c xs (count - count div 2) base = i"
        using less.prems False True by (intro less.IH) linarith+
      ultimately show ?thesis using False by (simp add: binary_search_base.simps [of ?c xs count base])
    next
      case i: False
      then have "?c (xs ! ?mid) \<noteq> Greater"
        using order [of ?mid i] assms(2,3) by (cases "?mid = i") (auto simp: compare_keys_def not_less)
      moreover have "binary_search_base ?c xs (count - count div 2) ?mid = i"
        using less.prems False i by (intro less.IH) linarith+
      ultimately show ?thesis using False by (simp add: binary_search_base.simps [of ?c xs count base])
    qed
  qed
qed

text \<open>On a strictly sorted list the binary search answers what a scan for the key answers.\<close>

lemma binary_search_find:
  assumes "sorted_wrt (<) (map f xs)"
  shows "map_option (\<lambda>i. xs ! i) (binary_search_by (\<lambda>x. compare_keys (f x) t) xs)
    = List.find (\<lambda>x. f x = (t :: 'b :: linorder)) xs"
proof (cases "\<exists>i < length xs. f (xs ! i) = t")
  case True
  then obtain i where i: "i < length xs" "f (xs ! i) = t" by blast
  then have "binary_search_base (\<lambda>x. compare_keys (f x) t) xs (length xs) 0 = i"
    by (intro binary_search_base_keeps [OF assms]) simp_all
  then have "binary_search_by (\<lambda>x. compare_keys (f x) t) xs = Some i"
    using i by (auto simp: binary_search_by_def)
  moreover have "f (xs ! k) \<noteq> t" if "k < i" for k
    using sorted_wrt_nth_less [OF assms, of k i] that i by auto
  then have "List.find (\<lambda>x. f x = t) xs = Some (xs ! i)" using i by (auto simp: find_Some_iff)
  ultimately show ?thesis by simp
next
  case False
  then have "binary_search_by (\<lambda>x. compare_keys (f x) t) xs = None"
    using binary_search_found [of "\<lambda>x. compare_keys (f x) t" xs]
    by (cases "binary_search_by (\<lambda>x. compare_keys (f x) t) xs") auto
  moreover have "List.find (\<lambda>x. f x = t) xs = None"
    using False by (auto simp: find_None_iff in_set_conv_nth)
  ultimately show ?thesis by simp
qed

end
