(* ===== verification/Codec_Claims.thy ===== *)
theory Codec_Claims
  imports Decode_Props Identity_Props "HOL-Library.Multiset"
begin

text \<open>
  The properties of the envelope codec: decoding always returns, what it returns the membership
  registered, the bytes it accepts are exactly the encoder's, and the sorted sets its contracts
  live in are built and searched as sets.
\<close>

subsection \<open>A concrete envelope\<close>

text \<open>One heartbeat as JSON text, and a text codec that knows this document.\<close>

definition ex_wire_text :: "u8 list" where
  "ex_wire_text = map of_char
     ''{\"payload\":{\"kind\":\"heartbeat\"},\"position\":{\"epoch\":\"1\",\"sequence\":\"2\"},\"protocol_version\":1,\"stream\":\"s\",\"subscription\":\"AAAAAAAAAAAAAAAAAAAAAA\"}''"

definition ex_wire_raw :: raw_json where
  "ex_wire_raw = RObject
     [(''payload'', RObject [(''kind'', RString ''heartbeat'')] False),
      (''position'', RObject [(''epoch'', RString ''1''), (''sequence'', RString ''2'')] False),
      (''protocol_version'', RU64 1), (''stream'', RString ''s''),
      (''subscription'', RString ''AAAAAAAAAAAAAAAAAAAAAA'')] False"

definition ex_wire_json :: json_text where
  "ex_wire_json =
     \<lparr>jt_write = (\<lambda>v. ([if v = CObject [(''kind'', CString ''heartbeat'')]
                        then map of_char ''{\"kind\":\"heartbeat\"}'' else ex_wire_text], False)),
      jt_read = (\<lambda>bytes. (if bytes = ex_wire_text then ex_wire_raw else RInvalid, False))\<rparr>"

definition ex_hostile :: async_codec_limits where
  "ex_hostile = \<lparr>cl_input = \<lparr>il_max_bytes = 512, il_max_depth = 4, il_max_entries = 16, il_max_string_bytes = 128\<rparr>,
     cl_max_payload_bytes = 256\<rparr>"

definition ex_membership :: "unit envelope_context" where
  "ex_membership = \<lparr>ac_subscription = replicate 16 0, ac_stream = ''s'',
     ac_baseline = \<lparr>sp_epoch = 1, sp_sequence = 0\<rparr>, ac_expires_at = 100,
     ac_registered = \<lparr>rg_verified = (), rg_events = [], rg_signals = []\<rparr>\<rparr>"

definition ex_heartbeat_envelope :: envelope where
  "ex_heartbeat_envelope = \<lparr>env_protocol_version = 1, env_subscription = replicate 16 0, env_stream = ''s'',
     env_position = \<lparr>sp_epoch = 1, sp_sequence = 2\<rparr>, env_payload = PayHeartbeat\<rparr>"

definition ex_wire_value :: canonical_value where
  "ex_wire_value = CObject
     [(''payload'', CObject [(''kind'', CString ''heartbeat'')]),
      (''position'', CObject [(''epoch'', CString ''1''), (''sequence'', CString ''2'')]),
      (''protocol_version'', CNumber 1), (''stream'', CString ''s''),
      (''subscription'', CString ''AAAAAAAAAAAAAAAAAAAAAA'')]"

lemma ex_preflight: "preflight_payload_size ex_wire_text ex_hostile = Some (Inr ())"
  by code_simp

lemma ex_wire_text_facts: "utf8_valid ex_wire_text" "\<not> 512 < length ex_wire_text" "ex_wire_text \<noteq> []"
  by code_simp+

lemma ex_parsed: "parse_canonical_value ex_wire_json ex_wire_text (cl_input ex_hostile) = Inr ex_wire_value"
  by (simp add: parse_canonical_value_def ex_wire_text_facts ex_wire_json_def ex_hostile_def ex_wire_raw_def
      ex_wire_value_def count_entry_def visit_number_def canonical_number_from_u64_def max_safe_integer_def
      arith_defs usize_max_def)

lemma ex_recoded: "to_canonical_bytes ex_wire_json ex_wire_value (cl_input ex_hostile) = Inr ex_wire_text"
  by (simp add: to_canonical_bytes_def ex_wire_json_def ex_hostile_def
      ex_wire_value_def count_entry_def validate_container_def ex_wire_text_facts arith_defs usize_max_def)

lemma ex_payload_recoded:
  "\<exists>bytes. to_canonical_bytes ex_wire_json (CObject [(''kind'', CString ''heartbeat'')]) (cl_input ex_hostile) = Inr bytes
     \<and> length bytes \<le> 256"
  by (simp add: to_canonical_bytes_def ex_wire_json_def ex_hostile_def
      count_entry_def validate_container_def arith_defs usize_max_def)

lemma ex_subscription: "subscription_id_parse url_safe_no_pad ''AAAAAAAAAAAAAAAAAAAAAA'' = Inr (replicate 16 0)"
proof -
  have b: "b64_encode url_safe_no_pad (replicate 16 0) = ''AAAAAAAAAAAAAAAAAAAAAA''" by code_simp
  then have "b64_decode url_safe_no_pad ''AAAAAAAAAAAAAAAAAAAAAA'' = Some (replicate 16 0)"
    using url_safe_no_pad_lawful by (metis base64_lawful_def)
  then show ?thesis using b
    by (simp add: subscription_id_parse_def subscription_id_from_bytes_def ascii_defs)
qed

lemma ex_position_parsed:
  "parse_position (CObject [(''epoch'', CString ''1''), (''sequence'', CString ''2'')]) = Inr \<lparr>sp_epoch = 1, sp_sequence = 2\<rparr>"
  by (simp add: parse_position_def require_exact_keys_def bt_remove_def decimal_def str_parse_u64_def
      parse_u64_digits_def digits_value_def digit_value_def ascii_defs usize_max_def take_string_def take_field_def)

lemma ex_stream: "stream_name_parse ''s'' = Inr ''s''"
  by code_simp

lemma ex_fields: "decode_fields ex_wire_json url_safe_no_pad ex_wire_value ex_hostile ex_membership
    = Inr ex_heartbeat_envelope"
proof -
  obtain bytes where "to_canonical_bytes ex_wire_json (CObject [(''kind'', CString ''heartbeat'')]) (cl_input ex_hostile)
      = Inr bytes" "\<not> length bytes > cl_max_payload_bytes ex_hostile"
    using ex_payload_recoded by (auto simp: ex_hostile_def not_less)
  then show ?thesis
  by (simp add: decode_fields_def ex_wire_value_def ex_membership_def ex_heartbeat_envelope_def ex_subscription ex_stream
      ex_position_parsed require_exact_keys_def bt_remove_def u16_try_from_def is_integral_def
      supported_async_protocol_versions_def parse_payload_def parse_payload_fields_def take_field_def take_string_def)
qed

lemma ex_decoded:
  "decode_async_envelope ex_wire_json url_safe_no_pad ex_wire_text ex_hostile ex_membership
    = Some (Inr ex_heartbeat_envelope)"
  by (simp add: decode_async_envelope_def ex_preflight ex_parsed ex_recoded ex_fields)
    (simp add: ex_hostile_def ex_wire_text_facts)

subsection \<open>Termination\<close>

text \<open>
  C21: decoding always returns. Whatever the bytes, the preflight scanner ends within the fuel the
  model gives it (two steps for each remaining byte), so decoding and the server's own constructor
  answer an envelope or an error and never run on.
\<close>

theorem decode_terminates:
  "preflight_payload_size encoded limits \<noteq> None
   \<and> decode_async_envelope j b encoded limits c \<noteq> None
   \<and> async_envelope_new j b c position payload \<noteq> None"
  by (intro conjI preflight_total decode_total envelope_new_total)

subsection \<open>What is accepted\<close>

text \<open>
  C12: a decoded envelope is one its membership may receive: a supported protocol, the membership's
  own subscription and stream, a payload the membership registered (event name, version, target,
  fanout and schema of one declared contract; signal scope, name and schema of one declared
  contract; a topic change with bounded, strictly sorted names), from bytes within the bound.
\<close>

theorem decoded_envelope_registered:
  assumes "decode_async_envelope j b encoded limits c = Some (Inr e)"
  shows "env_protocol_version e = 1 \<and> env_subscription e = ac_subscription c \<and> env_stream e = ac_stream c
    \<and> payload_ok c (env_payload e) \<and> length encoded \<le> il_max_bytes (cl_input limits)"
proof -
  obtain canonical where d: "length encoded \<le> il_max_bytes (cl_input limits)"
    "to_canonical_bytes j canonical (cl_input limits) = Inr encoded" "wf_value canonical"
    "decode_fields j b canonical limits c = Inr e" by (rule decoded [OF assms])
  from d(4) have "env_protocol_version e = 1 \<and> env_subscription e = ac_subscription c \<and> env_stream e = ac_stream c
    \<and> payload_ok c (env_payload e)"
    by (rule decode_fields_ok) (simp add: supported_async_protocol_versions_def parse_payload_ok)
  then show ?thesis using d(1) by simp
qed

theorem decoded_envelope_registered_witness:
  "payload_ok ex_membership (env_payload ex_heartbeat_envelope) \<and> env_stream ex_heartbeat_envelope = ''s''"
  using decoded_envelope_registered [OF ex_decoded] by (simp add: ex_membership_def)

text \<open>
  C10: one spelling for each envelope. Apart from topic changes, whose property names the decoder sorts and
  deduplicates, the only bytes that decode to an envelope are those the encoder writes for it: no field order,
  number format, white space, escape or padding is accepted in a second form.
\<close>

theorem decoded_bytes_are_encoded:
  assumes "decode_async_envelope j b encoded limits c = Some (Inr e)" and "\<forall>t. env_payload e \<noteq> PayTopicChange t"
  shows "encode_async_envelope j b e limits = Inr encoded"
proof -
  obtain canonical where "length encoded \<le> il_max_bytes (cl_input limits)"
    and d: "to_canonical_bytes j canonical (cl_input limits) = Inr encoded" "wf_value canonical"
    "decode_fields j b canonical limits c = Inr e" by (rule decoded [OF assms(1)])
  show ?thesis by (rule envelope_exact [OF d(3,2) assms(2) d(1)])
qed

theorem decoded_bytes_are_encoded_witness:
  "encode_async_envelope ex_wire_json url_safe_no_pad ex_heartbeat_envelope ex_hostile = Inr ex_wire_text"
  using decoded_bytes_are_encoded [OF ex_decoded] by (simp add: ex_heartbeat_envelope_def)

subsection \<open>Contract sets\<close>

lemma sorted_set_check:
  "windows2_any (\<lambda>l r. f l = f r) (sort_key f xs) \<longleftrightarrow> \<not> distinct (map f (xs :: 'a list))"
  for f :: "'a \<Rightarrow> 'b :: linorder"
proof -
  have "mset (map f (sort_key f xs)) = mset (map f xs)" by simp
  then have "distinct (map f (sort_key f xs)) \<longleftrightarrow> distinct (map f xs)" by (rule mset_eq_imp_distinct_iff)
  then show ?thesis using sorted_windows_strict [of f "sort_key f xs"] by (auto simp: strict_sorted_iff)
qed

lemma sorted_set_check_id: "windows2_any (=) (sort xs) \<longleftrightarrow> \<not> distinct (xs :: 'a :: linorder list)"
  using sorted_set_check [of "\<lambda>x. x" xs] by simp

lemma mode_rank_inject: "(subscription_mode_rank l = subscription_mode_rank r) = (l = r)"
  by (cases l; cases r) simp_all

text \<open>
  The declared sets are sets. Each constructor accepts exactly the lists within its bound that
  repeat no key, and returns them sorted by that key: targets, topics, event names and transport
  modes, event contracts by name, and presentation signals by scope and name.
\<close>

theorem declared_sets_normalized:
  "(bounded_targets_new targets = Inr ts \<longleftrightarrow>
      targets \<noteq> [] \<and> length targets \<le> 16 \<and> distinct targets \<and> ts = sort targets)
   \<and> (bounded_topics_new topics = Inr ns \<longleftrightarrow>
      topics \<noteq> [] \<and> length topics \<le> 32 \<and> distinct topics \<and> ns = sort topics)
   \<and> (bounded_event_names_new names = Inr es \<longleftrightarrow>
      names \<noteq> [] \<and> length names \<le> 64 \<and> distinct names \<and> es = sort names)
   \<and> (subscription_modes_new modes = Inr ms \<longleftrightarrow>
      modes \<noteq> [] \<and> length modes \<le> 2 \<and> distinct modes \<and> ms = sort_key subscription_mode_rank modes)
   \<and> (bounded_event_contracts_new events = Inr cs \<longleftrightarrow>
      length events \<le> 64 \<and> distinct (map ec_name events) \<and> cs = sort_key ec_name events)
   \<and> (signal_contracts_new signals = Inr ss \<longleftrightarrow>
      length signals \<le> 64 \<and> distinct (map (\<lambda>k. (sc_scope k, sc_name k)) signals)
      \<and> ss = sort_key (\<lambda>k. (sc_scope k, sc_name k)) signals)"
proof -
  have modes: "windows2_any (=) (sort_key subscription_mode_rank modes) \<longleftrightarrow> \<not> distinct modes"
    using sorted_set_check [of subscription_mode_rank modes]
    by (simp add: mode_rank_inject distinct_map inj_on_def)
  have signals: "windows2_any (\<lambda>l r. sc_scope l = sc_scope r \<and> sc_name l = sc_name r)
      (sort_key (\<lambda>k. (sc_scope k, sc_name k)) signals) \<longleftrightarrow> \<not> distinct (map (\<lambda>k. (sc_scope k, sc_name k)) signals)"
    using sorted_set_check [of "\<lambda>k. (sc_scope k, sc_name k)" signals] by simp
  show ?thesis
    by (intro conjI)
      (auto simp: bounded_targets_new_def bounded_topics_new_def bounded_event_names_new_def subscription_modes_new_def
        bounded_event_contracts_new_def signal_contracts_new_def Let_def sorted_set_check sorted_set_check_id modes
        signals max_event_targets_def max_subscription_topics_def max_subscription_events_def
        max_subscription_modes_def max_presentation_signals_def not_less)
qed

text \<open>
  The binary search over the declared presentation signals finds exactly what a scan of the
  declarations would: the contract of that scope and name when one was declared, and nothing
  otherwise.
\<close>

theorem signal_lookup_is_scan:
  assumes "signal_contracts_new signals = Inr contracts"
  shows "signal_contracts_find contracts scope name
    = List.find (\<lambda>k. sc_scope k = scope \<and> sc_name k = name) signals"
proof -
  let ?key = "\<lambda>k. (sc_scope k, sc_name k)" and ?is = "\<lambda>k. sc_scope k = scope \<and> sc_name k = name"
  have contracts: "contracts = sort_key ?key signals"
    and check: "\<not> windows2_any (\<lambda>l r. ?key l = ?key r) (sort_key ?key signals)"
    using assms by (auto simp: signal_contracts_new_def Let_def split: if_splits)
  then have distinct: "distinct (map ?key signals)" using sorted_set_check [of ?key signals] by simp
  have sorted: "sorted_wrt (<) (map ?key contracts)"
    using sorted_windows_strict [of ?key contracts] check contracts by simp
  have find: "signal_contracts_find contracts scope name = List.find ?is contracts"
    using binary_search_find [OF sorted, of "(scope, name)"] by (simp add: signal_contracts_find_def)
  show ?thesis
  proof (cases "List.find ?is signals")
    case None
    then have "List.find ?is contracts = None" using contracts by (auto simp: find_None_iff)
    then show ?thesis using find None by simp
  next
    case (Some k)
    then have k: "k \<in> set contracts" "?is k" using contracts by (auto simp: find_Some_iff)
    then obtain l where l: "List.find ?is contracts = Some l"
      by (cases "List.find ?is contracts") (auto simp: find_None_iff)
    then have "l \<in> set contracts \<and> ?is l" by (auto simp: find_Some_iff)
    then have "l \<in> set signals" "?is l" "k \<in> set signals" using contracts k by simp_all
    then have "l = k" using distinct k(2) by (auto simp: distinct_map inj_on_def)
    then show ?thesis using find l Some by simp
  qed
qed

definition ex_signals :: "signal_contract list" where
  "ex_signals = [\<lparr>sc_scope = ''t'', sc_name = ''b'', sc_schema = SignalString\<rparr>,
     \<lparr>sc_scope = ''s'', sc_name = ''a'', sc_schema = SignalBoolean\<rparr>]"

theorem signal_lookup_is_scan_witness:
  "signal_contracts_find (rev ex_signals) ''t'' ''b'' = Some (hd ex_signals)"
proof -
  have "signal_contracts_new ex_signals = Inr (rev ex_signals)" by code_simp
  from signal_lookup_is_scan [OF this] show ?thesis by (simp add: ex_signals_def)
qed

end
