(* ===== verification/Upload_State.thy ===== *)
theory Upload_State
  imports Identity BTree_Map "HOL-Library.List_Lexorder" "HOL-Library.Char_ord"
begin

text \<open>
  The lifecycle of a temporary upload: \<open>upload/state.rs\<close>, the identities of \<open>upload/protocol.rs\<close> it uses,
  the error vocabulary of \<open>upload/identity.rs\<close> and the persisted record of \<open>upload/ledger.rs\<close>. One
  machine belongs to one upload; a transition names the revision it expects and a retry key, and an
  exact retry answers the outcome that was recorded. A handle is opaque here (\<open>'h\<close>), as is the
  authority a record carries (\<open>'a\<close>).
\<close>

subsection \<open>Errors and identities\<close>

datatype upload_error =
    InvalidHandle | InvalidGrantEncoding | InvalidGrant | GrantExpired | UploadScopeMismatch
  | UploadUnsupportedProtocol | InputTooLarge | DuplicateField | UnsupportedOperation | UnknownField
  | MissingField | InvalidField | UploadConflict | InvalidTransition | UploadRevisionExhausted
  | IdempotencyHistoryFull | RequestAuthorityExpired | AuthorizationUnavailable | AuthorizationDenied
  | LedgerUnavailable | CreationRateExceeded | PendingLimitExceeded | FileCountExceeded | UploadExpiredError
  | ServiceRetired | RandomUnavailable | UploadProviderUnavailable | CleanupTimedOut | UploadStorageConflict
  | BodyInterrupted | ChecksumMismatch | IncompleteTransfer | MediaHeaderUnproved
  | ValidationEvidenceUnavailable | FinalizationFailed | CompensationFailed | ReconciliationRequired
  | TransferCanceled | ResourceExhausted

fun upload_error_as_str :: "upload_error \<Rightarrow> string" where
  "upload_error_as_str InvalidHandle = ''invalid_upload_handle''"
| "upload_error_as_str InvalidGrantEncoding = ''invalid_transfer_grant_encoding''"
| "upload_error_as_str InvalidGrant = ''invalid_transfer_grant''"
| "upload_error_as_str GrantExpired = ''transfer_grant_expired''"
| "upload_error_as_str UploadScopeMismatch = ''transfer_grant_scope_mismatch''"
| "upload_error_as_str UploadUnsupportedProtocol = ''unsupported_protocol''"
| "upload_error_as_str InputTooLarge = ''input_too_large''"
| "upload_error_as_str DuplicateField = ''duplicate_field''"
| "upload_error_as_str UnsupportedOperation = ''unsupported_operation''"
| "upload_error_as_str UnknownField = ''unknown_field''"
| "upload_error_as_str MissingField = ''missing_field''"
| "upload_error_as_str InvalidField = ''invalid_field''"
| "upload_error_as_str UploadConflict = ''upload_conflict''"
| "upload_error_as_str InvalidTransition = ''invalid_upload_transition''"
| "upload_error_as_str UploadRevisionExhausted = ''upload_revision_exhausted''"
| "upload_error_as_str IdempotencyHistoryFull = ''upload_idempotency_history_full''"
| "upload_error_as_str RequestAuthorityExpired = ''upload_request_authority_expired''"
| "upload_error_as_str AuthorizationUnavailable = ''upload_authorization_unavailable''"
| "upload_error_as_str AuthorizationDenied = ''upload_authorization_denied''"
| "upload_error_as_str LedgerUnavailable = ''upload_ledger_unavailable''"
| "upload_error_as_str CreationRateExceeded = ''upload_creation_rate_exceeded''"
| "upload_error_as_str PendingLimitExceeded = ''upload_pending_limit_exceeded''"
| "upload_error_as_str FileCountExceeded = ''upload_file_count_exceeded''"
| "upload_error_as_str UploadExpiredError = ''upload_expired''"
| "upload_error_as_str ServiceRetired = ''upload_service_retired''"
| "upload_error_as_str RandomUnavailable = ''upload_random_unavailable''"
| "upload_error_as_str UploadProviderUnavailable = ''upload_provider_unavailable''"
| "upload_error_as_str CleanupTimedOut = ''upload_cleanup_timed_out''"
| "upload_error_as_str UploadStorageConflict = ''upload_storage_conflict''"
| "upload_error_as_str BodyInterrupted = ''upload_body_interrupted''"
| "upload_error_as_str ChecksumMismatch = ''upload_checksum_mismatch''"
| "upload_error_as_str IncompleteTransfer = ''upload_incomplete_transfer''"
| "upload_error_as_str MediaHeaderUnproved = ''upload_media_header_unproved''"
| "upload_error_as_str ValidationEvidenceUnavailable = ''upload_validation_evidence_unavailable''"
| "upload_error_as_str FinalizationFailed = ''upload_finalization_failed''"
| "upload_error_as_str CompensationFailed = ''upload_compensation_failed''"
| "upload_error_as_str ReconciliationRequired = ''upload_reconciliation_required''"
| "upload_error_as_str TransferCanceled = ''upload_transfer_canceled''"
| "upload_error_as_str ResourceExhausted = ''upload_resource_exhausted''"

type_synonym upload_revision = u64

definition upload_revision_initial :: upload_revision where
  "upload_revision_initial = 1"

text \<open>\<open>UploadRevision::parse\<close>: canonical unsigned decimal within 64 bits.\<close>

definition upload_revision_parse :: "string \<Rightarrow> upload_error + upload_revision" where
  "upload_revision_parse value =
     (if \<not> (value = ''0''
            \<or> (value \<noteq> [] \<and> hd value \<noteq> CHR ''0'' \<and> list_all is_ascii_digit value))
      then Inl InvalidField
      else ok_or InvalidField (str_parse_u64 value))"

definition upload_revision_checked_next :: "upload_revision \<Rightarrow> upload_error + upload_revision" where
  "upload_revision_checked_next r = ok_or UploadRevisionExhausted (checked_add_u64 r 1)"

definition max_idempotency_key_bytes :: usize where "max_idempotency_key_bytes = 128"

definition upload_idempotency_key_parse :: "string \<Rightarrow> upload_error + string" where
  "upload_idempotency_key_parse value =
     (if value \<noteq> [] \<and> length value \<le> max_idempotency_key_bytes
         \<and> list_all (\<lambda>c. is_ascii_alphanumeric c \<or> c \<in> {CHR ''-'', CHR ''_'', CHR '':'', CHR ''.''}) value
      then Inr value else Inl InvalidField)"

definition upload_checksum_parse :: "string \<Rightarrow> upload_error + string" where
  "upload_checksum_parse value =
     (if length value = 64
         \<and> list_all (\<lambda>c. is_ascii_digit c \<or> (97 \<le> char_code c \<and> char_code c \<le> 102)) value
      then Inr value else Inl InvalidField)"

subsection \<open>States and transitions\<close>

datatype upload_state =
    UpCreated | UpQueued | UpTransferring | UpVerifying | UpReady | UpFinalizing
  | UpFinalized | UpRejected | UpCanceled | UpExpired | UpFailed

definition all_upload_states :: "upload_state list" where
  "all_upload_states = [UpCreated, UpQueued, UpTransferring, UpVerifying, UpReady, UpFinalizing,
     UpFinalized, UpRejected, UpCanceled, UpExpired, UpFailed]"

definition upload_state_parse :: "string \<Rightarrow> upload_error + upload_state" where
  "upload_state_parse value =
     (if value = ''created'' then Inr UpCreated
      else if value = ''queued'' then Inr UpQueued
      else if value = ''transferring'' then Inr UpTransferring
      else if value = ''verifying'' then Inr UpVerifying
      else if value = ''ready'' then Inr UpReady
      else if value = ''finalizing'' then Inr UpFinalizing
      else if value = ''finalized'' then Inr UpFinalized
      else if value = ''rejected'' then Inr UpRejected
      else if value = ''canceled'' then Inr UpCanceled
      else if value = ''expired'' then Inr UpExpired
      else if value = ''failed'' then Inr UpFailed
      else Inl InvalidField)"

fun upload_state_as_str :: "upload_state \<Rightarrow> string" where
  "upload_state_as_str UpCreated = ''created''"
| "upload_state_as_str UpQueued = ''queued''"
| "upload_state_as_str UpTransferring = ''transferring''"
| "upload_state_as_str UpVerifying = ''verifying''"
| "upload_state_as_str UpReady = ''ready''"
| "upload_state_as_str UpFinalizing = ''finalizing''"
| "upload_state_as_str UpFinalized = ''finalized''"
| "upload_state_as_str UpRejected = ''rejected''"
| "upload_state_as_str UpCanceled = ''canceled''"
| "upload_state_as_str UpExpired = ''expired''"
| "upload_state_as_str UpFailed = ''failed''"

definition upload_terminal :: "upload_state \<Rightarrow> bool" where
  "upload_terminal s = (s \<in> {UpFinalized, UpRejected, UpCanceled, UpExpired, UpFailed})"

fun upload_rank :: "upload_state \<Rightarrow> nat" where
  "upload_rank UpCreated = 0"
| "upload_rank UpQueued = 1"
| "upload_rank UpTransferring = 2"
| "upload_rank UpVerifying = 3"
| "upload_rank UpReady = 4"
| "upload_rank UpFinalizing = 5"
| "upload_rank _ = 6"

record accepted_chunk =
  ak_index :: "32 word"
  ak_size :: u64
  ak_checksum :: string

definition accepted_chunk_new :: "32 word \<Rightarrow> u64 \<Rightarrow> string \<Rightarrow> upload_error + accepted_chunk" where
  "accepted_chunk_new index sz checksum =
     (if sz = 0 then Inl InvalidField
      else Inr \<lparr>ak_index = index, ak_size = sz, ak_checksum = checksum\<rparr>)"

datatype upload_transition =
    TrQueue | TrBeginTransfer | TrPutChunk accepted_chunk | TrComplete | TrAccept | TrBeginFinalize
  | TrCommitFinalize | TrCancel | TrReject | TrExpire | TrFail

definition next_state :: "upload_state \<Rightarrow> upload_transition \<Rightarrow> upload_error + upload_state" where
  "next_state s t =
     (if upload_terminal s then Inl InvalidTransition
      else case (s, t) of
        (UpCreated, TrQueue) \<Rightarrow> Inr UpQueued
      | (UpQueued, TrBeginTransfer) \<Rightarrow> Inr UpTransferring
      | (UpTransferring, TrPutChunk _) \<Rightarrow> Inr UpTransferring
      | (UpTransferring, TrComplete) \<Rightarrow> Inr UpVerifying
      | (UpVerifying, TrAccept) \<Rightarrow> Inr UpReady
      | (UpReady, TrBeginFinalize) \<Rightarrow> Inr UpFinalizing
      | (UpFinalizing, TrCommitFinalize) \<Rightarrow> Inr UpFinalized
      | (_, TrCancel) \<Rightarrow>
          if s \<in> {UpCreated, UpQueued, UpTransferring, UpVerifying, UpReady} then Inr UpCanceled
          else Inl InvalidTransition
      | (UpVerifying, TrReject) \<Rightarrow> Inr UpRejected
      | (_, TrExpire) \<Rightarrow>
          if s \<in> {UpCreated, UpQueued, UpTransferring, UpVerifying, UpReady} then Inr UpExpired
          else Inl InvalidTransition
      | (_, TrFail) \<Rightarrow> Inr UpFailed
      | _ \<Rightarrow> Inl InvalidTransition)"

subsection \<open>The machine\<close>

record 'h transition_request =
  tq_handle :: 'h
  tq_expected_revision :: upload_revision
  tq_idempotency_key :: string
  tq_transition :: upload_transition

datatype transition_disposition = Applied | ExistingOutcome

record transition_outcome =
  to_disposition :: transition_disposition
  to_state :: upload_state
  to_revision :: upload_revision

record 'h recorded_transition =
  rd_handle :: 'h
  rd_expected_revision :: upload_revision
  rd_transition :: upload_transition
  rd_outcome :: transition_outcome

record 'h upload_machine =
  um_handle :: 'h
  um_state :: upload_state
  um_revision :: upload_revision
  um_max_outcomes :: usize
  um_outcomes :: "(string \<times> 'h recorded_transition) list"

definition max_retained_outcomes :: usize where "max_retained_outcomes = 64"
definition max_configured_outcomes :: usize where "max_configured_outcomes = 100000"

definition upload_machine_new :: "'h \<Rightarrow> upload_state \<Rightarrow> upload_revision \<Rightarrow> 'h upload_machine" where
  "upload_machine_new h s r = \<lparr>um_handle = h, um_state = s, um_revision = r,
     um_max_outcomes = max_retained_outcomes, um_outcomes = []\<rparr>"

text \<open>The bound is a \<open>NonZeroUsize\<close>.\<close>

definition upload_machine_with_limit ::
  "'h \<Rightarrow> upload_state \<Rightarrow> upload_revision \<Rightarrow> usize \<Rightarrow> upload_error + 'h upload_machine" where
  "upload_machine_with_limit h s r max_outcomes =
     (if max_outcomes > max_configured_outcomes then Inl InvalidField
      else Inr \<lparr>um_handle = h, um_state = s, um_revision = r, um_max_outcomes = max_outcomes, um_outcomes = []\<rparr>)"

definition upload_apply ::
  "'h transition_request \<Rightarrow> 'h upload_machine \<Rightarrow> (upload_error + transition_outcome) \<times> 'h upload_machine" where
  "upload_apply q m =
     (if tq_handle q \<noteq> um_handle m then (Inl UploadScopeMismatch, m)
      else case map_of (um_outcomes m) (tq_idempotency_key q) of
        Some recorded \<Rightarrow>
          if rd_handle recorded = tq_handle q \<and> rd_expected_revision recorded = tq_expected_revision q
             \<and> rd_transition recorded = tq_transition q
          then (Inr ((rd_outcome recorded)\<lparr>to_disposition := ExistingOutcome\<rparr>), m)
          else (Inl UploadConflict, m)
      | None \<Rightarrow>
          if tq_expected_revision q \<noteq> um_revision m then (Inl UploadConflict, m)
          else if length (um_outcomes m) = um_max_outcomes m then (Inl IdempotencyHistoryFull, m)
          else case and_then (next_state (um_state m) (tq_transition q)) (\<lambda>s.
                      and_then (upload_revision_checked_next (um_revision m)) (\<lambda>r. Inr (s, r))) of
            Inl e \<Rightarrow> (Inl e, m)
          | Inr (s, r) \<Rightarrow>
              (let outcome = \<lparr>to_disposition = Applied, to_state = s, to_revision = r\<rparr>
               in (Inr outcome, m\<lparr>um_outcomes := bt_insert (tq_idempotency_key q)
                          \<lparr>rd_handle = tq_handle q, rd_expected_revision = tq_expected_revision q,
                           rd_transition = tq_transition q, rd_outcome = outcome\<rparr> (um_outcomes m),
                        um_state := s, um_revision := r\<rparr>)))"

text \<open>What the two cleanup transitions share: conditional on the revision, without retry history.\<close>

definition cleanup_transition ::
  "upload_transition \<Rightarrow> 'h upload_machine \<Rightarrow> (upload_error + transition_outcome) \<times> 'h upload_machine" where
  "cleanup_transition t m =
     (case and_then (next_state (um_state m) t) (\<lambda>s.
             and_then (upload_revision_checked_next (um_revision m)) (\<lambda>r. Inr (s, r))) of
        Inl e \<Rightarrow> (Inl e, m)
      | Inr (s, r) \<Rightarrow>
          (Inr \<lparr>to_disposition = Applied, to_state = s, to_revision = r\<rparr>, m\<lparr>um_state := s, um_revision := r\<rparr>))"

definition expire_for_cleanup ::
  "upload_revision \<Rightarrow> 'h upload_machine \<Rightarrow> (upload_error + transition_outcome) \<times> 'h upload_machine" where
  "expire_for_cleanup expected m =
     (if expected \<noteq> um_revision m then (Inl UploadConflict, m) else cleanup_transition TrExpire m)"

definition fail_for_cleanup ::
  "upload_revision \<Rightarrow> 'h upload_machine \<Rightarrow> (upload_error + transition_outcome) \<times> 'h upload_machine" where
  "fail_for_cleanup expected m =
     (if expected \<noteq> um_revision m then (Inl UploadConflict, m)
      else if um_state m \<noteq> UpFinalizing then (Inl InvalidTransition, m)
      else cleanup_transition TrFail m)"

subsection \<open>The persisted record\<close>

record 'a upload_record =
  ur_authority :: 'a
  ur_state :: upload_state
  ur_revision :: upload_revision
  ur_created_at :: unix_millis
  ur_expires_at :: unix_millis

definition upload_record_new ::
  "'a \<Rightarrow> upload_state \<Rightarrow> upload_revision \<Rightarrow> unix_millis \<Rightarrow> unix_millis \<Rightarrow> upload_error + 'a upload_record" where
  "upload_record_new authority s r created_at expires_at =
     (if r = 0 \<or> expires_at \<le> created_at then Inl InvalidField
      else Inr \<lparr>ur_authority = authority, ur_state = s, ur_revision = r, ur_created_at = created_at,
                ur_expires_at = expires_at\<rparr>)"

definition upload_record_with_outcome ::
  "transition_outcome \<Rightarrow> 'a upload_record \<Rightarrow> upload_error + 'a upload_record" where
  "upload_record_with_outcome outcome r =
     (if to_revision outcome \<le> ur_revision r \<or> upload_rank (to_state outcome) < upload_rank (ur_state r)
      then Inl UploadConflict
      else Inr (r\<lparr>ur_state := to_state outcome, ur_revision := to_revision outcome\<rparr>))"

end
