(* ===== verification/Upload_Claims.thy ===== *)
theory Upload_Claims
  imports Upload_State
begin

text \<open>
  What the upload lifecycle promises: a closed state machine whose rank never falls and whose revision
  counts the applied transitions, an exact retry that answers the recorded outcome however much
  happened since, and a persisted record that can follow every outcome.
\<close>

subsection \<open>The transition table\<close>

lemma next_state_active:
  "next_state s t = Inr s' \<Longrightarrow> \<not> upload_terminal s"
  by (auto simp: next_state_def)

lemma next_state_rank:
  "next_state s t = Inr s' \<Longrightarrow> upload_rank s \<le> upload_rank s'"
  by (cases s; cases t; simp add: next_state_def upload_terminal_def; drule sym; simp)

lemma upload_revision_checked_next_Inr:
  "upload_revision_checked_next r = Inr r' \<longleftrightarrow> unat r' = Suc (unat r)"
  by (cases "checked_add_u64 r 1") (use checked_add_u64_1 checked_add_u64_eq_Some [of r 1 r'] in
    \<open>auto simp: upload_revision_checked_next_def\<close>)

subsection \<open>Steps of one machine\<close>

text \<open>The successor both kinds of transition compute before they store anything.\<close>

definition upload_successor :: "'h upload_machine \<Rightarrow> upload_transition \<Rightarrow> upload_error + upload_state \<times> upload_revision" where
  "upload_successor m t = and_then (next_state (um_state m) t) (\<lambda>s.
     and_then (upload_revision_checked_next (um_revision m)) (\<lambda>r. Inr (s, r)))"

lemma upload_successor_Inr:
  "upload_successor m t = Inr (s, r)
     \<longleftrightarrow> next_state (um_state m) t = Inr s \<and> upload_revision_checked_next (um_revision m) = Inr r"
  by (cases "next_state (um_state m) t"; cases "upload_revision_checked_next (um_revision m)")
    (simp_all add: upload_successor_def)

definition recorded_of :: "'h transition_request \<Rightarrow> transition_outcome \<Rightarrow> 'h recorded_transition" where
  "recorded_of q out = \<lparr>rd_handle = tq_handle q, rd_expected_revision = tq_expected_revision q,
     rd_transition = tq_transition q, rd_outcome = out\<rparr>"

lemma upload_apply_applied:
  assumes "tq_handle q = um_handle m" "map_of (um_outcomes m) (tq_idempotency_key q) = None"
    "tq_expected_revision q = um_revision m" "length (um_outcomes m) \<noteq> um_max_outcomes m"
    "upload_successor m (tq_transition q) = Inr (s, r)"
  shows "upload_apply q m = (Inr \<lparr>to_disposition = Applied, to_state = s, to_revision = r\<rparr>,
    m\<lparr>um_outcomes := bt_insert (tq_idempotency_key q)
        (recorded_of q \<lparr>to_disposition = Applied, to_state = s, to_revision = r\<rparr>) (um_outcomes m),
      um_state := s, um_revision := r\<rparr>)"
  using assms by (simp add: upload_apply_def upload_successor_def recorded_of_def Let_def)

lemma upload_apply_known:
  assumes "tq_handle q = um_handle m" "map_of (um_outcomes m) (tq_idempotency_key q) = Some (recorded_of q' out)"
  shows "upload_apply q m =
    (if tq_handle q' = tq_handle q \<and> tq_expected_revision q' = tq_expected_revision q
        \<and> tq_transition q' = tq_transition q
     then (Inr (out\<lparr>to_disposition := ExistingOutcome\<rparr>), m) else (Inl UploadConflict, m))"
  using assms by (simp add: upload_apply_def recorded_of_def)

lemma upload_apply_cases:
  obtains (same) "snd (upload_apply q m) = m"
    "\<And>out. fst (upload_apply q m) = Inr out \<Longrightarrow> to_disposition out = ExistingOutcome"
  | (applied) s r where "tq_handle q = um_handle m" "map_of (um_outcomes m) (tq_idempotency_key q) = None"
      "tq_expected_revision q = um_revision m" "length (um_outcomes m) \<noteq> um_max_outcomes m"
      "upload_successor m (tq_transition q) = Inr (s, r)"
      "upload_apply q m = (Inr \<lparr>to_disposition = Applied, to_state = s, to_revision = r\<rparr>,
         m\<lparr>um_outcomes := bt_insert (tq_idempotency_key q)
             (recorded_of q \<lparr>to_disposition = Applied, to_state = s, to_revision = r\<rparr>) (um_outcomes m),
           um_state := s, um_revision := r\<rparr>)"
proof (cases "tq_handle q = um_handle m \<and> map_of (um_outcomes m) (tq_idempotency_key q) = None
    \<and> tq_expected_revision q = um_revision m \<and> length (um_outcomes m) \<noteq> um_max_outcomes m
    \<and> (\<exists>s r. upload_successor m (tq_transition q) = Inr (s, r))")
  case True
  then obtain s r where "upload_successor m (tq_transition q) = Inr (s, r)" by blast
  with True show thesis by (intro applied [OF _ _ _ _ _ upload_apply_applied]) simp_all
next
  case False
  show thesis
  proof (rule same)
    show "snd (upload_apply q m) = m"
      using False by (auto simp: upload_apply_def upload_successor_def Let_def split: option.split sum.split)
    show "to_disposition out = ExistingOutcome" if "fst (upload_apply q m) = Inr out" for out
      using False that
      by (auto simp: upload_apply_def upload_successor_def Let_def split: option.splits sum.splits if_splits)
  qed
qed

lemma cleanup_transition_eq:
  "cleanup_transition t m = (case upload_successor m t of Inl e \<Rightarrow> (Inl e, m)
     | Inr (s, r) \<Rightarrow> (Inr \<lparr>to_disposition = Applied, to_state = s, to_revision = r\<rparr>,
                     m\<lparr>um_state := s, um_revision := r\<rparr>))"
  by (simp add: cleanup_transition_def upload_successor_def)

text \<open>
  Everything that changes a machine: a conditional transition, an expiry and a failure for cleanup.
\<close>

inductive upload_step :: "'h upload_machine \<Rightarrow> 'h upload_machine \<Rightarrow> bool" where
  step_apply: "upload_step m (snd (upload_apply q m))"
| step_expire: "upload_step m (snd (expire_for_cleanup expected m))"
| step_fail: "upload_step m (snd (fail_for_cleanup expected m))"

inductive_cases upload_stepE: "upload_step m m'"

abbreviation upload_steps :: "'h upload_machine \<Rightarrow> 'h upload_machine \<Rightarrow> bool" where
  "upload_steps \<equiv> upload_step\<^sup>*\<^sup>*"

lemma cleanup_transition_cases:
  "snd (cleanup_transition t m) = m
     \<or> (\<exists>s r. upload_successor m t = Inr (s, r) \<and> snd (cleanup_transition t m) = m\<lparr>um_state := s, um_revision := r\<rparr>)"
  by (cases "upload_successor m t") (auto simp: cleanup_transition_eq)

lemma upload_cleanup_cases:
  assumes "m' = snd (expire_for_cleanup expected m) \<or> m' = snd (fail_for_cleanup expected m)"
  shows "m' = m \<or> (\<exists>t s r. upload_successor m t = Inr (s, r) \<and> m' = m\<lparr>um_state := s, um_revision := r\<rparr>)"
proof -
  have "m' = m \<or> m' = snd (cleanup_transition TrExpire m) \<or> m' = snd (cleanup_transition TrFail m)"
    using assms by (auto simp: expire_for_cleanup_def fail_for_cleanup_def split: if_splits)
  with cleanup_transition_cases [of TrExpire m] cleanup_transition_cases [of TrFail m] show ?thesis by metis
qed

text \<open>One step: nothing, or a successor with the recorded outcomes kept.\<close>

definition outcomes_extend :: "'h upload_machine \<Rightarrow> (string \<times> 'h recorded_transition) list \<Rightarrow> bool" where
  "outcomes_extend m ms \<longleftrightarrow> ms = um_outcomes m
     \<or> (length (um_outcomes m) \<noteq> um_max_outcomes m
        \<and> (\<exists>k v. map_of (um_outcomes m) k = None \<and> ms = bt_insert k v (um_outcomes m)))"

lemma upload_step_cases:
  assumes "upload_step m m'"
  obtains (same) "m' = m"
  | (moved) t s r ms where "upload_successor m t = Inr (s, r)" "outcomes_extend m ms"
      "m' = m\<lparr>um_outcomes := ms, um_state := s, um_revision := r\<rparr>"
proof -
  have cleanup: thesis
    if "m' = m \<or> (\<exists>t s r. upload_successor m t = Inr (s, r) \<and> m' = m\<lparr>um_state := s, um_revision := r\<rparr>)"
    using that
  proof (elim disjE exE conjE)
    fix t s r
    assume "upload_successor m t = Inr (s, r)" and m': "m' = m\<lparr>um_state := s, um_revision := r\<rparr>"
    then show thesis by (intro moved [of t s r "um_outcomes m"]) (auto simp: outcomes_extend_def)
  qed (rule same)
  from assms show thesis
  proof (cases rule: upload_step.cases)
    case (step_apply q)
    show ?thesis
    proof (cases rule: upload_apply_cases [of q m])
      case same
      then show ?thesis using step_apply that(1) by simp
    next
      case (applied s r)
      show ?thesis
        by (rule moved [OF applied(5)]) (use applied step_apply in \<open>auto simp: outcomes_extend_def\<close>)
    qed
  qed (use cleanup upload_cleanup_cases in blast)+
qed

lemma outcomes_extend_sorted:
  "outcomes_extend m ms \<Longrightarrow> bt_sorted (um_outcomes m) \<Longrightarrow> bt_sorted ms"
  by (auto simp: outcomes_extend_def)

lemma outcomes_extend_keeps:
  "outcomes_extend m ms \<Longrightarrow> bt_sorted (um_outcomes m) \<Longrightarrow> map_of (um_outcomes m) k = Some v \<Longrightarrow> map_of ms k = Some v"
  by (auto simp: outcomes_extend_def)

lemma outcomes_extend_length:
  "outcomes_extend m ms \<Longrightarrow> bt_sorted (um_outcomes m) \<Longrightarrow> length (um_outcomes m) \<le> um_max_outcomes m
     \<Longrightarrow> length ms \<le> um_max_outcomes m"
  by (auto simp: outcomes_extend_def length_bt_insert)

subsection \<open>Facts every sequence of steps keeps\<close>

definition upload_inv :: "'h upload_machine \<Rightarrow> bool" where
  "upload_inv m \<longleftrightarrow> bt_sorted (um_outcomes m) \<and> length (um_outcomes m) \<le> um_max_outcomes m"

lemma upload_inv_new: "upload_inv (upload_machine_new h s r)"
  by (simp add: upload_inv_def upload_machine_new_def)

lemma upload_step_inv: "upload_step m m' \<Longrightarrow> upload_inv m \<Longrightarrow> upload_inv m'"
  by (erule upload_step_cases)
    (auto simp: upload_inv_def dest: outcomes_extend_sorted outcomes_extend_length)

lemma upload_steps_inv: "upload_steps m m' \<Longrightarrow> upload_inv m \<Longrightarrow> upload_inv m'"
  by (induction rule: rtranclp_induct) (auto intro: upload_step_inv)

lemma upload_steps_handle: "upload_steps m m' \<Longrightarrow> um_handle m' = um_handle m"
  by (induction rule: rtranclp_induct) (auto elim: upload_step_cases)

lemma upload_steps_outcome:
  "upload_steps m m' \<Longrightarrow> upload_inv m \<Longrightarrow> map_of (um_outcomes m) k = Some v \<Longrightarrow> map_of (um_outcomes m') k = Some v"
proof (induction rule: rtranclp_induct)
  case (step m' m'')
  then have "bt_sorted (um_outcomes m')" using upload_steps_inv [of m m'] by (simp add: upload_inv_def)
  with step show ?case by (auto elim!: upload_step_cases dest: outcomes_extend_keeps)
qed

lemma upload_step_progress:
  assumes "upload_step m m'"
  shows "m' = m \<or> (\<not> upload_terminal (um_state m) \<and> upload_rank (um_state m) \<le> upload_rank (um_state m')
    \<and> unat (um_revision m') = Suc (unat (um_revision m)))"
  using assms
  by (rule upload_step_cases)
    (auto simp: upload_successor_Inr upload_revision_checked_next_Inr dest: next_state_active next_state_rank)

lemma upload_steps_progress:
  assumes "upload_steps m m'"
  shows "upload_rank (um_state m) \<le> upload_rank (um_state m') \<and> um_revision m \<le> um_revision m'"
  using assms
proof (induction rule: rtranclp_induct)
  case (step m' m'')
  then show ?case using upload_step_progress [of m' m''] by (auto simp: word_le_nat_alt)
qed simp

lemma upload_steps_terminal:
  assumes "upload_steps m m'" "upload_terminal (um_state m)"
  shows "m' = m"
  using assms
proof (induction rule: rtranclp_induct)
  case (step m' m'')
  then show ?case using upload_step_progress [of m' m''] by auto
qed simp

lemma upload_steps_limit: "upload_steps m m' \<Longrightarrow> um_max_outcomes m' = um_max_outcomes m"
  by (induction rule: rtranclp_induct) (auto elim: upload_step_cases)

text \<open>A revision identifies one state of one machine.\<close>

lemma upload_steps_strict:
  assumes "upload_steps m m'"
  shows "um_revision m' = um_revision m \<longleftrightarrow> m' = m"
proof -
  have "m' = m \<or> unat (um_revision m) < unat (um_revision m')"
    using assms
  proof (induction rule: rtranclp_induct)
    case (step m' m'')
    then show ?case using upload_step_progress [of m' m''] by auto
  qed simp
  then show ?thesis by auto
qed

text \<open>
  The properties of the upload lifecycle, from a machine created out of a persisted record and through
  any sequence of transitions, expiries and failures for cleanup.
\<close>

lemma upload_apply_recorded:
  assumes inv: "upload_inv m" and ok: "upload_apply q m = (Inr out, m1)"
  shows "tq_handle q = um_handle m1
    \<and> (\<exists>out0. map_of (um_outcomes m1) (tq_idempotency_key q) = Some (recorded_of q out0)
         \<and> out0\<lparr>to_disposition := ExistingOutcome\<rparr> = out\<lparr>to_disposition := ExistingOutcome\<rparr>)"
proof (cases "map_of (um_outcomes m) (tq_idempotency_key q)")
  case None
  show ?thesis
  proof (cases rule: upload_apply_cases [of q m])
    case same
    then show ?thesis using ok None
      by (auto simp: upload_apply_def Let_def split: if_splits sum.splits)
  next
    case (applied s r)
    then show ?thesis using ok inv by (auto simp: upload_inv_def)
  qed
next
  case (Some v)
  obtain h e t out0 where v: "v = \<lparr>rd_handle = h, rd_expected_revision = e, rd_transition = t, rd_outcome = out0\<rparr>"
    by (cases v)
  from ok Some v have "m1 = m" "v = recorded_of q out0" "tq_handle q = um_handle m"
      "out = out0\<lparr>to_disposition := ExistingOutcome\<rparr>"
    by (auto simp: upload_apply_def recorded_of_def split: if_splits)
  with Some show ?thesis by auto
qed

lemma upload_step_apply: "upload_apply q m = (res, m1) \<Longrightarrow> upload_step m m1"
  using step_apply [of m q] by simp

text \<open>
  C11: an exact retry is answered from history. Once a transition has succeeded on a machine, then after
  any further sequence of transitions and cleanups the identical request answers the outcome that was
  recorded, marked as existing, and changes nothing; a request that reuses the retry key with another
  expected revision or another transition is a conflict and changes nothing either.
\<close>

theorem upload_retry_exact:
  assumes "upload_steps (upload_machine_new h s r) m"
    and "upload_apply q m = (Inr out, m1)"
    and "upload_steps m1 m2"
  shows "upload_apply q m2 = (Inr (out\<lparr>to_disposition := ExistingOutcome\<rparr>), m2)
    \<and> (\<forall>q'. tq_handle q' = h \<and> tq_idempotency_key q' = tq_idempotency_key q
         \<and> (tq_expected_revision q', tq_transition q') \<noteq> (tq_expected_revision q, tq_transition q)
         \<longrightarrow> upload_apply q' m2 = (Inl UploadConflict, m2))"
proof -
  have inv: "upload_inv m" by (rule upload_steps_inv [OF assms(1) upload_inv_new])
  have step: "upload_step m m1" using assms(2) by (rule upload_step_apply)
  have inv1: "upload_inv m1" using step inv by (rule upload_step_inv)
  obtain out0 where handle: "tq_handle q = um_handle m1"
    and rec: "map_of (um_outcomes m1) (tq_idempotency_key q) = Some (recorded_of q out0)"
    and out: "out0\<lparr>to_disposition := ExistingOutcome\<rparr> = out\<lparr>to_disposition := ExistingOutcome\<rparr>"
    using upload_apply_recorded [OF inv assms(2)] by auto
  have rec2: "map_of (um_outcomes m2) (tq_idempotency_key q) = Some (recorded_of q out0)"
    by (rule upload_steps_outcome [OF assms(3) inv1 rec])
  have "upload_steps (upload_machine_new h s r) m1" using assms(1) step by (rule rtranclp.rtrancl_into_rtrancl)
  then have "um_handle m1 = h" by (drule_tac upload_steps_handle) (simp add: upload_machine_new_def)
  then have h: "um_handle m2 = h" "tq_handle q = h"
    using upload_steps_handle [OF assms(3)] handle by simp_all
  have "tq_handle q = um_handle m2" using h by simp
  from upload_apply_known [OF this rec2]
  have "upload_apply q m2 = (Inr (out\<lparr>to_disposition := ExistingOutcome\<rparr>), m2)"
    by (simp only: out simp_thms if_True)
  moreover have "upload_apply q' m2 = (Inl UploadConflict, m2)"
    if "tq_handle q' = h \<and> tq_idempotency_key q' = tq_idempotency_key q
         \<and> (tq_expected_revision q', tq_transition q') \<noteq> (tq_expected_revision q, tq_transition q)" for q'
  proof -
    have key: "map_of (um_outcomes m2) (tq_idempotency_key q') = Some (recorded_of q out0)"
      using rec2 that by (elim conjE) (simp only:)
    have "tq_handle q' = um_handle m2" using that h by simp
    from upload_apply_known [OF this key] show ?thesis using that h by (simp split: if_splits)
  qed
  ultimately show ?thesis by blast
qed

definition ex_upload :: "nat upload_machine" where
  "ex_upload = upload_machine_new 7 UpCreated 1"

definition ex_queue :: "nat transition_request" where
  "ex_queue = \<lparr>tq_handle = 7, tq_expected_revision = 1, tq_idempotency_key = ''k1'', tq_transition = TrQueue\<rparr>"

lemma ex_queue_applied:
  "upload_apply ex_queue ex_upload
     = (Inr \<lparr>to_disposition = Applied, to_state = UpQueued, to_revision = 2\<rparr>,
        \<lparr>um_handle = 7, um_state = UpQueued, um_revision = 2, um_max_outcomes = 64,
         um_outcomes = [(''k1'', recorded_of ex_queue
           \<lparr>to_disposition = Applied, to_state = UpQueued, to_revision = 2\<rparr>)]\<rparr>)"
  by (simp add: upload_apply_def ex_queue_def ex_upload_def upload_machine_new_def max_retained_outcomes_def
      next_state_def upload_terminal_def upload_revision_checked_next_def checked_add_u64_def recorded_of_def Let_def)

definition ex_queued :: "nat upload_machine" where
  "ex_queued = snd (upload_apply ex_queue ex_upload)"

lemma upload_retry_exact_witness:
  "upload_apply ex_queue (snd (expire_for_cleanup 2 ex_queued))
     = (Inr \<lparr>to_disposition = ExistingOutcome, to_state = UpQueued, to_revision = 2\<rparr>,
        snd (expire_for_cleanup 2 ex_queued))"
proof -
  have s0: "upload_steps (upload_machine_new 7 UpCreated 1) ex_upload" by (simp add: ex_upload_def)
  have s1: "upload_apply ex_queue ex_upload
      = (Inr \<lparr>to_disposition = Applied, to_state = UpQueued, to_revision = 2\<rparr>, ex_queued)"
    by (simp add: ex_queued_def ex_queue_applied)
  have s2: "upload_steps ex_queued (snd (expire_for_cleanup 2 ex_queued))"
    by (rule r_into_rtranclp) (rule step_expire)
  show ?thesis using conjunct1 [OF upload_retry_exact [OF s0 s1 s2]] by (simp only: transition_outcome.simps)
qed

text \<open>
  C13: the lifecycle only moves forward. Between two states a machine passes through, the rank of its
  state and its revision never fall, a machine that changed at all has a strictly newer revision (so a
  revision identifies one state), a terminal machine is never changed again, and the retained outcomes
  stay within their bound.
\<close>

theorem upload_lifecycle:
  assumes "upload_steps (upload_machine_new h s r) m" and "upload_steps m m'"
  shows "upload_rank (um_state m) \<le> upload_rank (um_state m')
    \<and> um_revision m \<le> um_revision m'
    \<and> (um_revision m' = um_revision m \<longleftrightarrow> m' = m)
    \<and> (upload_terminal (um_state m) \<longrightarrow> m' = m)
    \<and> length (um_outcomes m') \<le> max_retained_outcomes"
proof -
  have steps: "upload_steps (upload_machine_new h s r) m'" using assms by (rule rtranclp_trans)
  have "upload_inv m'" by (rule upload_steps_inv [OF steps upload_inv_new])
  moreover have "um_max_outcomes m' = max_retained_outcomes"
    using upload_steps_limit [OF steps] by (simp add: upload_machine_new_def)
  ultimately have "length (um_outcomes m') \<le> max_retained_outcomes" by (simp add: upload_inv_def)
  then show ?thesis
    using upload_steps_progress [OF assms(2)] upload_steps_terminal [OF assms(2)] upload_steps_strict [OF assms(2)]
    by auto
qed

lemma upload_lifecycle_witness:
  "upload_rank (um_state ex_upload) \<le> upload_rank (um_state ex_queued)
     \<and> um_revision ex_upload \<le> um_revision ex_queued \<and> length (um_outcomes ex_queued) \<le> 64"
proof -
  have "upload_steps ex_upload ex_queued"
    unfolding ex_queued_def by (rule r_into_rtranclp) (rule step_apply)
  then show ?thesis
    using upload_lifecycle [of 7 UpCreated 1 ex_upload ex_queued]
    by (simp add: ex_upload_def max_retained_outcomes_def)
qed

subsection \<open>The persisted record\<close>

definition record_tracks :: "'a upload_record \<Rightarrow> 'h upload_machine \<Rightarrow> bool" where
  "record_tracks rec m \<longleftrightarrow> ur_state rec = um_state m \<and> ur_revision rec = um_revision m"

lemma with_outcome_successor:
  assumes "record_tracks rec m" "upload_successor m t = Inr (s, r)"
  shows "upload_record_with_outcome \<lparr>to_disposition = d, to_state = s, to_revision = r\<rparr> rec
     = Inr (rec\<lparr>ur_state := s, ur_revision := r\<rparr>)"
proof -
  have "unat r = Suc (unat (um_revision m))" "upload_rank (um_state m) \<le> upload_rank s"
    using assms(2) next_state_rank by (auto simp: upload_successor_Inr upload_revision_checked_next_Inr)
  then show ?thesis
    using assms(1) by (simp add: upload_record_with_outcome_def record_tracks_def word_le_nat_alt)
qed

lemma cleanup_applied:
  assumes "cleanup_transition t m = (Inr out, m1)"
  shows "\<exists>s r. upload_successor m t = Inr (s, r) \<and> out = \<lparr>to_disposition = Applied, to_state = s, to_revision = r\<rparr>
    \<and> m1 = m\<lparr>um_state := s, um_revision := r\<rparr>"
  using assms by (auto simp: cleanup_transition_eq split: sum.splits)

text \<open>
  The persisted record follows the machine. When a record holds a machine's state and revision and
  a transition, an expiry or a failure for cleanup is applied, the record accepts the outcome, holds the
  state and revision of the machine's successor, and keeps its authority and both of its times.
\<close>

theorem upload_record_refines:
  assumes "record_tracks rec m"
    and "(Inr out, m1) \<in> {upload_apply q m, expire_for_cleanup e m, fail_for_cleanup e m}"
    and "to_disposition out = Applied"
  shows "\<exists>rec'. upload_record_with_outcome out rec = Inr rec' \<and> record_tracks rec' m1
    \<and> ur_authority rec' = ur_authority rec \<and> ur_created_at rec' = ur_created_at rec
    \<and> ur_expires_at rec' = ur_expires_at rec"
proof -
  have "\<exists>t s r ms. upload_successor m t = Inr (s, r)
      \<and> out = \<lparr>to_disposition = Applied, to_state = s, to_revision = r\<rparr>
      \<and> m1 = m\<lparr>um_outcomes := ms, um_state := s, um_revision := r\<rparr>"
  proof (cases "upload_apply q m = (Inr out, m1)")
    case True
    show ?thesis
    proof (cases rule: upload_apply_cases [of q m])
      case same
      then show ?thesis using True assms(3) by auto
    next
      case (applied s r)
      then show ?thesis using True by (auto intro!: exI [of _ "tq_transition q"])
    qed
  next
    case False
    then have "cleanup_transition TrExpire m = (Inr out, m1) \<or> cleanup_transition TrFail m = (Inr out, m1)"
      using assms(2) by (auto simp: expire_for_cleanup_def fail_for_cleanup_def split: if_splits)
    then obtain t where "cleanup_transition t m = (Inr out, m1)" by blast
    from cleanup_applied [OF this] show ?thesis by (auto intro!: exI [of _ t] exI [of _ "um_outcomes m"])
  qed
  then obtain t s r ms where "upload_successor m t = Inr (s, r)"
    and out: "out = \<lparr>to_disposition = Applied, to_state = s, to_revision = r\<rparr>"
    and m1: "m1 = m\<lparr>um_outcomes := ms, um_state := s, um_revision := r\<rparr>" by blast
  then show ?thesis
    using with_outcome_successor [OF assms(1)] by (simp add: record_tracks_def)
qed

lemma upload_record_refines_witness:
  "\<exists>rec'. upload_record_with_outcome \<lparr>to_disposition = Applied, to_state = UpQueued, to_revision = 2\<rparr>
       \<lparr>ur_authority = (), ur_state = UpCreated, ur_revision = 1, ur_created_at = 5, ur_expires_at = 9\<rparr> = Inr rec'
     \<and> record_tracks rec' ex_queued"
  using upload_record_refines [of "\<lparr>ur_authority = (), ur_state = UpCreated, ur_revision = 1, ur_created_at = 5,
      ur_expires_at = 9\<rparr>" ex_upload "\<lparr>to_disposition = Applied, to_state = UpQueued, to_revision = 2\<rparr>" ex_queued
      ex_queue 1]
  by (auto simp: record_tracks_def ex_queued_def ex_queue_applied)
    (auto simp: record_tracks_def ex_upload_def upload_machine_new_def)

end
