(* ===== verification/Render_Store.thy ===== *)
theory Render_Store
  imports Prelude BTree_Map
begin

text \<open>
  The in-process render store: \<open>render_cache/store.rs\<close>. A key holds its stored bytes, the fence they
  were published under and the hot entry prepared from them; \<open>order\<close> lists the keys from the least
  recently used one. Keys (\<open>'k\<close>) and hot entries (\<open>'h\<close>) are opaque here. Sums of byte counts are
  taken in \<open>usize\<close>: an overflow or an underflow is the panic \<open>None\<close>.
\<close>

subsection \<open>Errors of the render cache\<close>

datatype render_error =
    PolicyInvalid | VarianceInvalid | KeyInvalid | EntryInvalid | EntryUnsupported
  | RenderProviderUnavailable | PublicationFenced | LeaseFenced | AssemblyFailed | AssemblyTooLarge

fun render_error_display :: "render_error \<Rightarrow> string" where
  "render_error_display PolicyInvalid = ''render_cache_policy_invalid''"
| "render_error_display VarianceInvalid = ''render_cache_variance_invalid''"
| "render_error_display KeyInvalid = ''render_cache_key_invalid''"
| "render_error_display EntryInvalid = ''render_cache_entry_invalid''"
| "render_error_display EntryUnsupported = ''render_cache_entry_unsupported''"
| "render_error_display RenderProviderUnavailable = ''render_cache_provider_unavailable''"
| "render_error_display PublicationFenced = ''render_cache_publication_fenced''"
| "render_error_display LeaseFenced = ''render_cache_lease_fenced''"
| "render_error_display AssemblyFailed = ''render_cache_assembly_failed''"
| "render_error_display AssemblyTooLarge = ''render_cache_assembly_too_large''"

subsection \<open>Fences and entries\<close>

record publication_fence =
  pf_epoch :: u64
  pf_generation_digest :: "u8 list"
  pf_token :: u64

definition supersedes :: "publication_fence \<Rightarrow> publication_fence \<Rightarrow> bool" where
  "supersedes f current \<longleftrightarrow>
     pf_epoch current < pf_epoch f \<or> (pf_epoch f = pf_epoch current \<and> pf_token current < pf_token f)"

record stored_entry =
  se_bytes :: "u8 list"
  se_published_at :: u64
  se_fence :: publication_fence

datatype publish_outcome = Published | Fenced | Rejected

record store_inspection =
  si_entries :: usize
  si_bytes :: usize

record memory_store_limits =
  sl_max_entries :: usize
  sl_max_bytes :: usize

type_synonym 'h slot = "stored_entry \<times> 'h option"

record ('k, 'h) memory_state =
  ms_entries :: "('k \<times> 'h slot) list"
  ms_order :: "'k list"
  ms_bytes :: usize

definition memory_render_store_new :: "('k, 'h) memory_state" where
  "memory_render_store_new = \<lparr>ms_entries = [], ms_order = [], ms_bytes = 0\<rparr>"

subsection \<open>Recency\<close>

text \<open>\<open>touch\<close>: the first position of the key is removed, then the key goes to the back.\<close>

definition touch :: "'k list \<Rightarrow> 'k \<Rightarrow> 'k list" where
  "touch order key = remove1 key order @ [key]"

definition store_get :: "'k \<Rightarrow> ('k, 'h) memory_state \<Rightarrow> stored_entry option \<times> ('k, 'h) memory_state" where
  "store_get key st =
     (case map_of (ms_entries st) key of
        None \<Rightarrow> (None, st)
      | Some (entry, _) \<Rightarrow> (Some entry, st\<lparr>ms_order := touch (ms_order st) key\<rparr>))"

definition store_hot_get :: "'k \<Rightarrow> ('k, 'h) memory_state \<Rightarrow> 'h option \<times> ('k, 'h) memory_state" where
  "store_hot_get key st =
     (case Option.bind (map_of (ms_entries st) key) snd of
        None \<Rightarrow> (None, st)
      | Some hot \<Rightarrow> (Some hot, st\<lparr>ms_order := touch (ms_order st) key\<rparr>))"

definition store_peek :: "'k \<Rightarrow> ('k, 'h) memory_state \<Rightarrow> stored_entry option" where
  "store_peek key st = map_option fst (map_of (ms_entries st) key)"

subsection \<open>Publication\<close>

text \<open>
  The removal both an eviction and a replacement make: \<open>state.bytes -= previous.bytes.len()\<close> when the
  key is held.
\<close>

definition remove_entry ::
  "'k :: linorder \<Rightarrow> ('k \<times> 'h slot) list \<Rightarrow> usize \<Rightarrow> (('k \<times> 'h slot) list \<times> usize) option" where
  "remove_entry key es bytes =
     (case map_of es key of
        None \<Rightarrow> Some (es, bytes)
      | Some (previous, _) \<Rightarrow>
          map_option (Pair (bt_remove key es)) (checked_sub_usize bytes (length (se_bytes previous))))"

text \<open>The loop condition; the sum is only taken when the entry bound does not already decide.\<close>

definition over_limit :: "memory_store_limits \<Rightarrow> usize \<Rightarrow> ('k \<times> 'h slot) list \<Rightarrow> usize \<Rightarrow> bool option" where
  "over_limit lim n es bytes =
     (if sl_max_entries lim \<le> length es then Some True
      else map_option (\<lambda>sum. sl_max_bytes lim < sum) (checked_add_usize bytes n))"

fun store_evict_loop ::
  "memory_store_limits \<Rightarrow> usize \<Rightarrow> 'k list \<Rightarrow> ('k :: linorder \<times> 'h slot) list \<Rightarrow> usize
     \<Rightarrow> ('k list \<times> ('k \<times> 'h slot) list \<times> usize) option" where
  "store_evict_loop lim n [] es bytes =
     Option.bind (over_limit lim n es bytes) (\<lambda>_. Some ([], es, bytes))"
| "store_evict_loop lim n (oldest # order) es bytes =
     Option.bind (over_limit lim n es bytes) (\<lambda>over.
       if over then Option.bind (remove_entry oldest es bytes) (\<lambda>(es', bytes'). store_evict_loop lim n order es' bytes')
       else Some (oldest # order, es, bytes))"

definition publish_sync ::
  "memory_store_limits \<Rightarrow> 'k :: linorder \<Rightarrow> u8 list \<Rightarrow> 'h option \<Rightarrow> publication_fence \<Rightarrow> u64
     \<Rightarrow> ('k, 'h) memory_state \<Rightarrow> (publish_outcome \<times> ('k, 'h) memory_state) option" where
  "publish_sync lim key bytes hot fence now_ms st =
     (if sl_max_entries lim = 0 \<or> sl_max_bytes lim = 0 \<or> sl_max_bytes lim < length bytes
      then Some (Rejected, st)
      else if (case map_of (ms_entries st) key of Some (current, _) \<Rightarrow> \<not> supersedes fence (se_fence current)
                                               | None \<Rightarrow> False)
      then Some (Fenced, st)
      else Option.bind (remove_entry key (ms_entries st) (ms_bytes st)) (\<lambda>(es, b).
           Option.bind (store_evict_loop lim (length bytes) (ms_order st) es b) (\<lambda>(order, es', b').
           Option.bind (checked_add_usize b' (length bytes)) (\<lambda>total.
             Some (Published,
               \<lparr>ms_entries = bt_insert key
                  (\<lparr>se_bytes = bytes, se_published_at = now_ms, se_fence = fence\<rparr>, hot) es',
                ms_order = touch order key, ms_bytes = total\<rparr>)))))"

text \<open>The trait's \<open>publish\<close>: no hot entry, and the retention is ignored.\<close>

definition store_publish ::
  "memory_store_limits \<Rightarrow> 'k :: linorder \<Rightarrow> u8 list \<Rightarrow> publication_fence \<Rightarrow> u64 \<Rightarrow> u64
     \<Rightarrow> ('k, 'h) memory_state \<Rightarrow> (publish_outcome \<times> ('k, 'h) memory_state) option" where
  "store_publish lim key bytes fence now_ms retention_ms st = publish_sync lim key bytes None fence now_ms st"

definition store_evict :: "'k :: linorder \<Rightarrow> ('k, 'h) memory_state \<Rightarrow> ('k, 'h) memory_state option" where
  "store_evict key st =
     Option.bind (remove_entry key (ms_entries st) (ms_bytes st)) (\<lambda>(es, b).
       Some \<lparr>ms_entries = es, ms_order = filter (\<lambda>k. k \<noteq> key) (ms_order st), ms_bytes = b\<rparr>)"

definition store_clear :: "('k, 'h) memory_state \<Rightarrow> ('k, 'h) memory_state" where
  "store_clear st = \<lparr>ms_entries = [], ms_order = [], ms_bytes = 0\<rparr>"

definition store_inspect :: "('k, 'h) memory_state \<Rightarrow> store_inspection" where
  "store_inspect st = \<lparr>si_entries = length (ms_entries st), si_bytes = ms_bytes st\<rparr>"

end
