(* ===== verification/Render_Coordinator.thy ===== *)
theory Render_Coordinator
  imports Render_Store
begin

text \<open>
  Rebuild coordination within one process: \<open>render_cache/singleflight.rs\<close>. A completion is a shared
  one-shot notification, so the coordinator state carries the store of completions (an index per handle)
  beside the slots. A waker is an opaque index; \<open>complete\<close> answers the wakers it calls. The counters are
  checked \<open>u64\<close> additions: an overflow is the panic \<open>None\<close>.
\<close>

subsection \<open>Leases and completions\<close>

record 'k rebuild_lease =
  rl_key :: 'k
  rl_epoch :: u64
  rl_lease_id :: u64
  rl_expires_at :: u64
  rl_distributed :: "u64 option"

definition rebuild_lease_new :: "'k \<Rightarrow> u64 \<Rightarrow> u64 \<Rightarrow> u64 \<Rightarrow> u64 option \<Rightarrow> 'k rebuild_lease" where
  "rebuild_lease_new key epoch lease_id expires_at_ms distributed =
     \<lparr>rl_key = key, rl_epoch = epoch, rl_lease_id = lease_id, rl_expires_at = expires_at_ms,
      rl_distributed = distributed\<rparr>"

definition with_distributed_lease_id :: "u64 \<Rightarrow> 'k rebuild_lease \<Rightarrow> 'k rebuild_lease" where
  "with_distributed_lease_id i lease = lease\<lparr>rl_distributed := Some i\<rparr>"

record completion =
  cp_done :: bool
  cp_wakers :: "nat list"

type_synonym wait_handle = nat

definition completion_default :: completion where
  "completion_default = \<lparr>cp_done = False, cp_wakers = []\<rparr>"

text \<open>\<open>CompletionHandle::complete\<close>: the wakers it wakes, and the drained completion.\<close>

definition complete_handle :: "wait_handle \<Rightarrow> completion list \<Rightarrow> nat list \<times> completion list" where
  "complete_handle c heap = (cp_wakers (heap ! c), heap[c := \<lparr>cp_done = True, cp_wakers = []\<rparr>])"

text \<open>\<open>RebuildWait::poll\<close> by the task behind waker \<open>w\<close>: whether it is ready.\<close>

definition wait_poll :: "wait_handle \<Rightarrow> nat \<Rightarrow> completion list \<Rightarrow> bool \<times> completion list" where
  "wait_poll c w heap =
     (if cp_done (heap ! c) then (True, heap)
      else (False, if w \<in> set (cp_wakers (heap ! c)) then heap
                   else heap[c := (heap ! c)\<lparr>cp_wakers := cp_wakers (heap ! c) @ [w]\<rparr>]))"

datatype 'k rebuild_admission = Lead "'k rebuild_lease" | Wait wait_handle | Bypass

record local_limits =
  ll_lease_ms :: u64
  ll_max_waiters :: usize

record rebuild_slot =
  rs_epoch :: u64
  rs_lease_id :: u64
  rs_expires_at :: u64
  rs_waiters :: usize
  rs_completion :: wait_handle

record 'k coordinator_state =
  co_slots :: "('k \<times> rebuild_slot) list"
  co_next_lease_id :: u64
  co_next_token :: u64
  co_heap :: "completion list"

definition local_coordinator_new :: "'k coordinator_state" where
  "local_coordinator_new = \<lparr>co_slots = [], co_next_lease_id = 0, co_next_token = 0, co_heap = []\<rparr>"

subsection \<open>Admission, publication and release\<close>

definition slot_superseded :: "u64 \<Rightarrow> u64 \<Rightarrow> rebuild_slot \<Rightarrow> bool" where
  "slot_superseded epoch now_ms slot \<longleftrightarrow> rs_epoch slot < epoch \<or> rs_expires_at slot \<le> now_ms"

text \<open>The new leader of a key whose slot is free or was just completed.\<close>

definition take_lead ::
  "local_limits \<Rightarrow> 'k :: linorder \<Rightarrow> u64 \<Rightarrow> u64 \<Rightarrow> 'k coordinator_state
     \<Rightarrow> ('k rebuild_admission \<times> 'k coordinator_state) option" where
  "take_lead lim key epoch now_ms st =
     Option.bind (checked_add_u64 (co_next_lease_id st) 1) (\<lambda>lease_id.
       let expires_at = saturating_add_u64 now_ms (ll_lease_ms lim) in
       Some (Lead (rebuild_lease_new key epoch lease_id expires_at None),
             st\<lparr>co_next_lease_id := lease_id,
                co_slots := bt_insert key \<lparr>rs_epoch = epoch, rs_lease_id = lease_id, rs_expires_at = expires_at,
                  rs_waiters = 0, rs_completion = length (co_heap st)\<rparr> (co_slots st),
                co_heap := co_heap st @ [completion_default]\<rparr>))"

text \<open>\<open>admit\<close>: the admission, the wakers it wakes, and the state.\<close>

definition local_admit ::
  "local_limits \<Rightarrow> 'k :: linorder \<Rightarrow> u64 \<Rightarrow> u64 \<Rightarrow> 'k coordinator_state
     \<Rightarrow> ('k rebuild_admission \<times> nat list \<times> 'k coordinator_state) option" where
  "local_admit lim key epoch now_ms st =
     (case map_of (co_slots st) key of
        Some slot \<Rightarrow>
          if \<not> slot_superseded epoch now_ms slot then
            (if ll_max_waiters lim \<le> rs_waiters slot then Some (Bypass, [], st)
             else Some (Wait (rs_completion slot), [],
               st\<lparr>co_slots := bt_insert key (slot\<lparr>rs_waiters := rs_waiters slot + 1\<rparr>) (co_slots st)\<rparr>))
          else (let (woken, heap) = complete_handle (rs_completion slot) (co_heap st)
                in map_option (\<lambda>(a, st'). (a, woken, st')) (take_lead lim key epoch now_ms (st\<lparr>co_heap := heap\<rparr>)))
      | None \<Rightarrow> map_option (\<lambda>(a, st'). (a, [], st')) (take_lead lim key epoch now_ms st))"

definition lease_current :: "'k :: linorder rebuild_lease \<Rightarrow> u64 \<Rightarrow> 'k coordinator_state \<Rightarrow> bool" where
  "lease_current lease now_ms st \<longleftrightarrow>
     (case map_of (co_slots st) (rl_key lease) of
        None \<Rightarrow> False
      | Some slot \<Rightarrow> rs_lease_id slot = rl_lease_id lease \<and> now_ms < rs_expires_at slot \<and> now_ms < rl_expires_at lease)"

definition zero_digest :: "u8 list" where "zero_digest = replicate 32 0"

definition local_publish_token ::
  "'k :: linorder rebuild_lease \<Rightarrow> u64 \<Rightarrow> 'k coordinator_state
     \<Rightarrow> ((render_error + publication_fence) \<times> 'k coordinator_state) option" where
  "local_publish_token lease now_ms st =
     (if \<not> lease_current lease now_ms st then Some (Inl PublicationFenced, st)
      else Option.bind (checked_add_u64 (co_next_token st) 1) (\<lambda>token.
        Some (Inr \<lparr>pf_epoch = rl_epoch lease, pf_generation_digest = zero_digest, pf_token = token\<rparr>,
              st\<lparr>co_next_token := token\<rparr>)))"

definition local_release :: "'k :: linorder rebuild_lease \<Rightarrow> 'k coordinator_state \<Rightarrow> nat list \<times> 'k coordinator_state" where
  "local_release lease st =
     (case map_of (co_slots st) (rl_key lease) of
        Some slot \<Rightarrow>
          if rs_lease_id slot = rl_lease_id lease
          then (let (woken, heap) = complete_handle (rs_completion slot) (co_heap st)
                in (woken, st\<lparr>co_heap := heap, co_slots := bt_remove (rl_key lease) (co_slots st)\<rparr>))
          else ([], st)
      | None \<Rightarrow> ([], st))"

end
