(* ===== verification/Render_Lease.thy ===== *)
theory Render_Lease
  imports Render_Coordinator
begin

text \<open>
  Rebuild leadership across processes: \<open>render_cache/lease.rs\<close>. The \<open>LeaseStore\<close> port is the record
  \<open>lease_port\<close> of three operations over a store state (\<open>'s\<close>); each also takes what the environment
  decides of it (\<open>'e\<close>: for the in-memory store, the reading of its clock). The definitions \<open>fenced_*\<close> are
  \<open>FencedLeaseCoordinator\<close> over any port, split where it awaits;
  \<open>memory_lease_port\<close> is \<open>MemoryLeaseStore\<close>. Counters that overflow panic (\<open>None\<close>).
\<close>

subsection \<open>The port\<close>

datatype lease_attempt = Acquired u64 u64 | Held

record ('k, 's, 'e) lease_port =
  lp_try_acquire :: "'e \<Rightarrow> 'k \<Rightarrow> u64 \<Rightarrow> u64 \<Rightarrow> 's \<Rightarrow> ((render_error + lease_attempt) \<times> 's) option"
  lp_mint_token :: "'e \<Rightarrow> 'k \<Rightarrow> u64 \<Rightarrow> 's \<Rightarrow> ((render_error + u64 option) \<times> 's) option"
  lp_release :: "'e \<Rightarrow> 'k \<Rightarrow> u64 \<Rightarrow> 's \<Rightarrow> ((render_error + unit) \<times> 's) option"

subsection \<open>The in-memory store\<close>

record lease_slot =
  ls_epoch :: u64
  ls_lease_id :: "u64 option"
  ls_expires_at :: u64
  ls_next_token :: u64

record 'k lease_store =
  lm_slots :: "('k \<times> lease_slot) list"
  lm_next_lease_id :: u64

definition memory_lease_store_new :: "'k lease_store" where
  "memory_lease_store_new = \<lparr>lm_slots = [], lm_next_lease_id = 0\<rparr>"

text \<open>\<open>store_now_ms\<close>: a clock that cannot be read is a provider failure.\<close>

definition store_now_ms :: "u64 option \<Rightarrow> render_error + u64" where
  "store_now_ms clock = ok_or RenderProviderUnavailable clock"

definition lease_epoch :: "'k \<Rightarrow> 'k lease_store \<Rightarrow> u64 option" where
  "lease_epoch key st = map_option ls_epoch (map_of (lm_slots st) key)"

definition fresh_lease_slot :: "u64 \<Rightarrow> lease_slot" where
  "fresh_lease_slot epoch = \<lparr>ls_epoch = epoch, ls_lease_id = None, ls_expires_at = 0, ls_next_token = 0\<rparr>"

definition memory_try_acquire ::
  "u64 option \<Rightarrow> 'k :: linorder \<Rightarrow> u64 \<Rightarrow> u64 \<Rightarrow> 'k lease_store
     \<Rightarrow> ((render_error + lease_attempt) \<times> 'k lease_store) option" where
  "memory_try_acquire clock key epoch ttl_ms st =
     (case store_now_ms clock of
        Inl e \<Rightarrow> Some (Inl e, st)
      | Inr now_ms \<Rightarrow>
         (let slot = (case map_of (lm_slots st) key of Some s \<Rightarrow> s | None \<Rightarrow> fresh_lease_slot epoch);
              st1 = st\<lparr>lm_slots := bt_insert key slot (lm_slots st)\<rparr>
          in if ls_lease_id slot \<noteq> None \<and> now_ms < ls_expires_at slot then Some (Inr Held, st1)
             else Option.bind (checked_add_u64 (lm_next_lease_id st) 1) (\<lambda>lease_id.
               let expires_at = saturating_add_u64 now_ms ttl_ms in
               Some (Inr (Acquired lease_id expires_at),
                 st1\<lparr>lm_next_lease_id := lease_id,
                     lm_slots := bt_insert key (slot\<lparr>ls_epoch := epoch, ls_lease_id := Some lease_id,
                       ls_expires_at := expires_at\<rparr>) (lm_slots st1)\<rparr>))))"

definition memory_mint_token ::
  "u64 option \<Rightarrow> 'k :: linorder \<Rightarrow> u64 \<Rightarrow> 'k lease_store \<Rightarrow> ((render_error + u64 option) \<times> 'k lease_store) option" where
  "memory_mint_token clock key lease_id st =
     (case store_now_ms clock of
        Inl e \<Rightarrow> Some (Inl e, st)
      | Inr now_ms \<Rightarrow>
         (case map_of (lm_slots st) key of
            None \<Rightarrow> Some (Inr None, st)
          | Some slot \<Rightarrow>
              if ls_lease_id slot \<noteq> Some lease_id \<or> ls_expires_at slot \<le> now_ms then Some (Inr None, st)
              else Option.bind (checked_add_u64 (ls_next_token slot) 1) (\<lambda>token.
                Some (Inr (Some token),
                  st\<lparr>lm_slots := bt_insert key (slot\<lparr>ls_next_token := token\<rparr>) (lm_slots st)\<rparr>))))"

definition memory_release ::
  "u64 option \<Rightarrow> 'k :: linorder \<Rightarrow> u64 \<Rightarrow> 'k lease_store \<Rightarrow> ((render_error + unit) \<times> 'k lease_store) option" where
  "memory_release clock key lease_id st =
     (case map_of (lm_slots st) key of
        None \<Rightarrow> Some (Inr (), st)
      | Some slot \<Rightarrow>
          if ls_lease_id slot = Some lease_id
          then Some (Inr (), st\<lparr>lm_slots := bt_insert key (slot\<lparr>ls_lease_id := None, ls_expires_at := 0\<rparr>) (lm_slots st)\<rparr>)
          else Some (Inr (), st))"

definition memory_lease_port :: "('k :: linorder, 'k lease_store, u64 option) lease_port" where
  "memory_lease_port = \<lparr>lp_try_acquire = memory_try_acquire, lp_mint_token = memory_mint_token,
     lp_release = memory_release\<rparr>"

subsection \<open>The fenced coordinator\<close>

record ('k, 's) fenced_state =
  fc_store :: 's
  fc_local :: "'k coordinator_state"

text \<open>Handing back the local lease: the answer, the wakers it wakes and the state.\<close>

definition hand_back ::
  "'k :: linorder rebuild_lease \<Rightarrow> 'a \<Rightarrow> ('k, 's) fenced_state \<Rightarrow> 'a \<times> nat list \<times> ('k, 's) fenced_state" where
  "hand_back lease answer st =
     (let (woken, local) = local_release lease (fc_local st) in (answer, woken, st\<lparr>fc_local := local\<rparr>))"

text \<open>
  An admission awaits the store after it took the local lead, and other requests of the process run in
  between: it is the local turn, the store's turn and the answer, each a step of its own. A local turn that
  does not lead is the whole admission.
\<close>

datatype 'k fenced_turn = Answered "'k rebuild_admission" | AskStore "'k rebuild_lease"

definition fenced_admit_local ::
  "local_limits \<Rightarrow> 'k :: linorder \<Rightarrow> u64 \<Rightarrow> u64 \<Rightarrow> ('k, 's) fenced_state
     \<Rightarrow> ('k fenced_turn \<times> nat list \<times> ('k, 's) fenced_state) option" where
  "fenced_admit_local lim key epoch now_ms st =
     map_option (\<lambda>(admission, woken, local).
         (case admission of Lead lease \<Rightarrow> AskStore lease | _ \<Rightarrow> Answered admission, woken, st\<lparr>fc_local := local\<rparr>))
       (local_admit lim key epoch now_ms (fc_local st))"

definition fenced_admit_store ::
  "('k, 's, 'e) lease_port \<Rightarrow> 'e \<Rightarrow> local_limits \<Rightarrow> 'k \<Rightarrow> u64 \<Rightarrow> ('k, 's) fenced_state
     \<Rightarrow> ((render_error + lease_attempt) \<times> ('k, 's) fenced_state) option" where
  "fenced_admit_store port env lim key epoch st =
     map_option (\<lambda>(res, store). (res, st\<lparr>fc_store := store\<rparr>))
       (lp_try_acquire port env key epoch (ll_lease_ms lim) (fc_store st))"

definition fenced_admit_answer ::
  "'k :: linorder rebuild_lease \<Rightarrow> render_error + lease_attempt \<Rightarrow> ('k, 's) fenced_state
     \<Rightarrow> (render_error + 'k rebuild_admission) \<times> nat list \<times> ('k, 's) fenced_state" where
  "fenced_admit_answer lease res st =
     (case res of
        Inr (Acquired lease_id _) \<Rightarrow> (Inr (Lead (with_distributed_lease_id lease_id lease)), [], st)
      | Inr Held \<Rightarrow> hand_back lease (Inr Bypass) st
      | Inl e \<Rightarrow> hand_back lease (Inl e) st)"

definition fenced_publish_token ::
  "('k, 's, 'e) lease_port \<Rightarrow> 'e \<Rightarrow> 'k rebuild_lease \<Rightarrow> ('k, 's) fenced_state
     \<Rightarrow> ((render_error + publication_fence) \<times> ('k, 's) fenced_state) option" where
  "fenced_publish_token port env lease st =
     (case rl_distributed lease of
        None \<Rightarrow> Some (Inl LeaseFenced, st)
      | Some lease_id \<Rightarrow>
          Option.bind (lp_mint_token port env (rl_key lease) lease_id (fc_store st)) (\<lambda>(res, store).
            Some (and_then res (\<lambda>minted. case minted of
                     None \<Rightarrow> Inl LeaseFenced
                   | Some token \<Rightarrow> Inr \<lparr>pf_epoch = rl_epoch lease, pf_generation_digest = zero_digest, pf_token = token\<rparr>),
                  st\<lparr>fc_store := store\<rparr>)))"

text \<open>
  A release awaits the store first; the local release runs whatever the store answered, and the release's
  answer is the store's.
\<close>

definition fenced_release_store ::
  "('k, 's, 'e) lease_port \<Rightarrow> 'e \<Rightarrow> 'k rebuild_lease \<Rightarrow> ('k, 's) fenced_state
     \<Rightarrow> ((render_error + unit) \<times> ('k, 's) fenced_state) option" where
  "fenced_release_store port env lease st =
     (case rl_distributed lease of
        Some lease_id \<Rightarrow> map_option (\<lambda>(released, store). (released, st\<lparr>fc_store := store\<rparr>))
          (lp_release port env (rl_key lease) lease_id (fc_store st))
      | None \<Rightarrow> Some (Inr (), st))"

definition fenced_release_local ::
  "'k :: linorder rebuild_lease \<Rightarrow> render_error + unit \<Rightarrow> ('k, 's) fenced_state
     \<Rightarrow> (render_error + unit) \<times> nat list \<times> ('k, 's) fenced_state" where
  "fenced_release_local lease released st = hand_back lease released st"

subsection \<open>What the port promises\<close>

text \<open>
  \<open>minted\<close> is the last token of a key, \<open>holder\<close> its tenure and \<open>issued\<close> the number of tenures so far.
\<close>

locale lease_port_laws =
  fixes port :: "('k, 's, 'e) lease_port"
    and minted :: "'s \<Rightarrow> 'k \<Rightarrow> nat"
    and holder :: "'s \<Rightarrow> 'k \<Rightarrow> u64 option"
    and issued :: "'s \<Rightarrow> nat"
    and wf :: "'s \<Rightarrow> bool"
  assumes acquire_ok: "wf s \<Longrightarrow> lp_try_acquire port e k ep ttl s = Some (Inr (Acquired i ex), s')
      \<Longrightarrow> wf s' \<and> unat i = Suc (issued s) \<and> issued s' = unat i \<and> holder s' = (holder s)(k := Some i) \<and> minted s' = minted s"
    and acquire_no: "wf s \<Longrightarrow> lp_try_acquire port e k ep ttl s = Some (ra, s') \<Longrightarrow> (\<And>i ex. ra \<noteq> Inr (Acquired i ex))
      \<Longrightarrow> wf s' \<and> issued s' = issued s \<and> holder s' = holder s \<and> minted s' = minted s"
    and mint_ok: "wf s \<Longrightarrow> lp_mint_token port e k i s = Some (Inr (Some t), s')
      \<Longrightarrow> wf s' \<and> holder s k = Some i \<and> unat t = Suc (minted s k) \<and> minted s' = (minted s)(k := unat t)
          \<and> holder s' = holder s \<and> issued s' = issued s"
    and mint_no: "wf s \<Longrightarrow> lp_mint_token port e k i s = Some (rm, s') \<Longrightarrow> (\<And>t. rm \<noteq> Inr (Some t))
      \<Longrightarrow> wf s' \<and> minted s' = minted s \<and> holder s' = holder s \<and> issued s' = issued s"
    and release: "wf s \<Longrightarrow> lp_release port e k i s = Some (rr, s')
      \<Longrightarrow> wf s' \<and> minted s' = minted s \<and> issued s' = issued s
          \<and> (\<forall>k'. holder s' k' = holder s k' \<or> holder s' k' = None)"

text \<open>
  The operations of every process on one store, in the order the store performs them. The log holds the
  tokens minted: key, tenure and token.
\<close>

datatype ('k, 'e) lease_event = EvAcquire 'e 'k u64 u64 | EvMint 'e 'k u64 | EvRelease 'e 'k u64

fun lease_exec ::
  "('k, 's, 'e) lease_port \<Rightarrow> ('k, 'e) lease_event \<Rightarrow> 's \<Rightarrow> (('k \<times> u64 \<times> u64) list \<times> 's) option" where
  "lease_exec port (EvAcquire e k ep ttl) s = map_option (\<lambda>(_, s'). ([], s')) (lp_try_acquire port e k ep ttl s)"
| "lease_exec port (EvMint e k i) s =
     map_option (\<lambda>(r, s'). (case r of Inr (Some t) \<Rightarrow> [(k, i, t)] | _ \<Rightarrow> [], s')) (lp_mint_token port e k i s)"
| "lease_exec port (EvRelease e k i) s = map_option (\<lambda>(_, s'). ([], s')) (lp_release port e k i s)"

fun lease_run ::
  "('k, 's, 'e) lease_port \<Rightarrow> ('k, 'e) lease_event list \<Rightarrow> 's \<Rightarrow> (('k \<times> u64 \<times> u64) list \<times> 's) option" where
  "lease_run port [] s = Some ([], s)"
| "lease_run port (ev # evs) s = Option.bind (lease_exec port ev s) (\<lambda>(l, s').
     map_option (apfst ((@) l)) (lease_run port evs s'))"

context lease_port_laws
begin

definition lease_wf :: "'s \<Rightarrow> bool" where
  "lease_wf s \<longleftrightarrow> wf s \<and> (\<forall>k i. holder s k = Some i \<longrightarrow> unat i \<le> issued s)"

text \<open>What one operation does to the ghost state and to the log.\<close>

lemma exec_cases:
  assumes "lease_wf s" "lease_exec port ev s = Some (l, s')"
  shows "lease_wf s' \<and> issued s \<le> issued s'
    \<and> (\<forall>k i. holder s' k = Some i \<longrightarrow> holder s k = Some i \<or> issued s < unat i)
    \<and> (l = [] \<and> minted s' = minted s
       \<or> (\<exists>k i t. l = [(k, i, t)] \<and> holder s k = Some i \<and> holder s' k = Some i
            \<and> unat t = Suc (minted s k) \<and> minted s' = (minted s)(k := unat t)))"
proof (cases ev)
  case (EvAcquire e k ep ttl)
  then obtain r where r: "lp_try_acquire port e k ep ttl s = Some (r, s')" "l = []" using assms(2) by auto
  show ?thesis
  proof (cases "\<exists>i ex. r = Inr (Acquired i ex)")
    case True
    then show ?thesis using acquire_ok [of s e k ep ttl] r assms(1)
      by (auto simp: lease_wf_def split: if_splits) (fastforce dest: le_SucI)+
  next
    case False
    then show ?thesis using acquire_no [of s e k ep ttl r s'] r assms(1) by (auto simp: lease_wf_def)
  qed
next
  case (EvMint e k i)
  then obtain r where r: "lp_mint_token port e k i s = Some (r, s')"
    "l = (case r of Inr (Some t) \<Rightarrow> [(k, i, t)] | _ \<Rightarrow> [])" using assms(2) by auto
  show ?thesis
  proof (cases "\<exists>t. r = Inr (Some t)")
    case True
    then show ?thesis using mint_ok [of s e k i] r assms(1) by (auto simp: lease_wf_def)
  next
    case False
    then have "l = []" using r(2) by (auto split: sum.splits option.splits)
    then show ?thesis using False mint_no [of s e k i r s'] r assms(1) by (auto simp: lease_wf_def)
  qed
next
  case (EvRelease e k i)
  then obtain r where r: "lp_release port e k i s = Some (r, s')" "l = []" using assms(2) by auto
  then show ?thesis using release [of s e k i r s'] assms(1) by (auto simp: lease_wf_def) (metis option.distinct(1))+
qed

lemma run_tenures:
  "lease_wf s \<Longrightarrow> lease_run port evs s = Some (l, s') \<Longrightarrow> (k, i, t) \<in> set l
     \<Longrightarrow> (holder s k = Some i \<or> issued s < unat i) \<and> minted s k < unat t"
proof (induction evs arbitrary: s l)
  case (Cons ev evs)
  from Cons.prems(2) obtain l1 s1 l2 where run: "lease_exec port ev s = Some (l1, s1)"
    "lease_run port evs s1 = Some (l2, s')" "l = l1 @ l2" by (auto simp: bind_eq_Some_conv)
  note one = exec_cases [OF Cons.prems(1) run(1)]
  show ?case
  proof (cases "(k, i, t) \<in> set l1")
    case True
    then show ?thesis using one by auto
  next
    case False
    then have "(holder s1 k = Some i \<or> issued s1 < unat i) \<and> minted s1 k < unat t"
      using Cons.IH [OF _ run(2)] one Cons.prems(3) run(3) by auto
    moreover have "minted s k \<le> minted s1 k" using one by auto
    ultimately show ?thesis using one by fastforce
  qed
qed simp

text \<open>The log of a key: tokens strictly increase, and tenures never go back.\<close>

lemma run_ordered:
  "lease_wf s \<Longrightarrow> lease_run port evs s = Some (l, s')
     \<Longrightarrow> sorted_wrt (\<lambda>(k, i, t) (k', i', t'). k = k' \<longrightarrow> i \<le> i' \<and> t < t') l"
proof (induction evs arbitrary: s l)
  case (Cons ev evs)
  from Cons.prems(2) obtain l1 s1 l2 where run: "lease_exec port ev s = Some (l1, s1)"
    "lease_run port evs s1 = Some (l2, s')" "l = l1 @ l2" by (auto simp: bind_eq_Some_conv)
  note one = exec_cases [OF Cons.prems(1) run(1)]
  have wf1: "lease_wf s1" using one by blast
  have tail: "sorted_wrt (\<lambda>(k, i, t) (k', i', t'). k = k' \<longrightarrow> i \<le> i' \<and> t < t') l2"
    by (rule Cons.IH [OF wf1 run(2)])
  show ?case
  proof (cases l1)
    case Nil
    then show ?thesis using tail run(3) by simp
  next
    case (Cons x xs)
    then obtain k i t where l1: "l1 = [(k, i, t)]" "holder s1 k = Some i" "minted s1 k = unat t" using one by auto
    have "i \<le> i' \<and> t < t'" if "(k, i', t') \<in> set l2" for i' t'
      using run_tenures [OF wf1 run(2) that] l1 wf1 by (auto simp: lease_wf_def word_le_nat_alt word_less_nat_alt)
        (meson le_trans less_imp_le)
    then show ?thesis using tail run(3) l1(1) by auto
  qed
qed simp

end

end
