(* ===== verification/Render_Coordinator_Props.thy ===== *)
theory Render_Coordinator_Props
  imports Render_Lease
begin

text \<open>
  What the in-process coordinator promises its waiters, and what a fenced admission leaves behind.
\<close>

subsection \<open>Runs of the coordinator and its waiters\<close>

datatype 'k coord_op =
    CoAdmit 'k u64 u64 | CoPoll wait_handle nat | CoToken "'k rebuild_lease" u64 | CoRelease "'k rebuild_lease"

text \<open>One operation: the wakers it wakes and the state. A handle nobody was given is not polled.\<close>

fun coord_exec :: "local_limits \<Rightarrow> 'k :: linorder coord_op \<Rightarrow> 'k coordinator_state \<Rightarrow> (nat list \<times> 'k coordinator_state) option" where
  "coord_exec lim (CoAdmit key epoch now_ms) st = map_option snd (local_admit lim key epoch now_ms st)"
| "coord_exec lim (CoPoll c w) st =
     (if c < length (co_heap st) then Some ([], st\<lparr>co_heap := snd (wait_poll c w (co_heap st))\<rparr>) else Some ([], st))"
| "coord_exec lim (CoToken lease now_ms) st = map_option (\<lambda>(_, st'). ([], st')) (local_publish_token lease now_ms st)"
| "coord_exec lim (CoRelease lease) st = Some (local_release lease st)"

fun coord_run :: "local_limits \<Rightarrow> 'k :: linorder coord_op list \<Rightarrow> 'k coordinator_state \<Rightarrow> (nat list \<times> 'k coordinator_state) option" where
  "coord_run lim [] st = Some ([], st)"
| "coord_run lim (p # ps) st = Option.bind (coord_exec lim p st) (\<lambda>(woken, st').
     map_option (apfst ((@) woken)) (coord_run lim ps st'))"

text \<open>A completion is pending exactly when one slot holds it.\<close>

definition held_by :: "'k coordinator_state \<Rightarrow> 'k \<Rightarrow> wait_handle \<Rightarrow> bool" where
  "held_by st k c \<longleftrightarrow> (\<exists>slot. map_of (co_slots st) k = Some slot \<and> rs_completion slot = c)"

definition coord_inv :: "'k :: linorder coordinator_state \<Rightarrow> bool" where
  "coord_inv st \<longleftrightarrow> bt_sorted (co_slots st)
     \<and> (\<forall>c. c < length (co_heap st) \<and> \<not> cp_done (co_heap st ! c) \<longleftrightarrow> (\<exists>k. held_by st k c))
     \<and> (\<forall>k k' c. held_by st k c \<longrightarrow> held_by st k' c \<longrightarrow> k = k')"

text \<open>Whoever waits on a completion keeps waiting or is woken by the step that completes it.\<close>

definition waiters_kept :: "'k coordinator_state \<Rightarrow> nat list \<Rightarrow> 'k coordinator_state \<Rightarrow> bool" where
  "waiters_kept st woken st' \<longleftrightarrow> length (co_heap st) \<le> length (co_heap st')
     \<and> (\<forall>c < length (co_heap st). (cp_done (co_heap st ! c) \<longrightarrow> cp_done (co_heap st' ! c))
          \<and> (if cp_done (co_heap st' ! c) \<and> \<not> cp_done (co_heap st ! c)
             then set (cp_wakers (co_heap st ! c)) \<subseteq> set woken
             else set (cp_wakers (co_heap st ! c)) \<subseteq> set (cp_wakers (co_heap st' ! c))))"

lemma waiters_keptD:
  assumes "waiters_kept st woken st'" "c < length (co_heap st)" "\<not> cp_done (co_heap st ! c)"
  shows "c < length (co_heap st')"
    and "cp_done (co_heap st' ! c) \<Longrightarrow> set (cp_wakers (co_heap st ! c)) \<subseteq> set woken"
    and "\<not> cp_done (co_heap st' ! c) \<Longrightarrow> set (cp_wakers (co_heap st ! c)) \<subseteq> set (cp_wakers (co_heap st' ! c))"
  using assms by (auto simp: waiters_kept_def)

lemma waiters_kept_refl [simp]: "waiters_kept st [] st"
  by (simp add: waiters_kept_def)

lemma waiters_kept_heap: "co_heap st' = co_heap st \<Longrightarrow> waiters_kept st [] st'"
  by (simp add: waiters_kept_def)

subsection \<open>The steps\<close>

text \<open>Completing the slot of a key and dropping it.\<close>

definition vacate :: "'k :: linorder \<Rightarrow> rebuild_slot \<Rightarrow> 'k coordinator_state \<Rightarrow> 'k coordinator_state" where
  "vacate key slot st = st\<lparr>co_heap := (co_heap st)[rs_completion slot := \<lparr>cp_done = True, cp_wakers = []\<rparr>],
     co_slots := bt_remove key (co_slots st)\<rparr>"

lemma held_pending:
  assumes "coord_inv st" "map_of (co_slots st) key = Some slot"
  shows "rs_completion slot < length (co_heap st) \<and> \<not> cp_done (co_heap st ! rs_completion slot)"
proof -
  have "held_by st key (rs_completion slot)" using assms(2) by (simp add: held_by_def)
  then show ?thesis using assms(1) unfolding coord_inv_def by blast
qed

lemma vacate_inv:
  assumes "coord_inv st" "map_of (co_slots st) key = Some slot"
  shows "coord_inv (vacate key slot st)"
proof -
  let ?c = "rs_completion slot"
  have sorted: "bt_sorted (co_slots st)"
    and pending: "\<And>c. (c < length (co_heap st) \<and> \<not> cp_done (co_heap st ! c)) = (\<exists>k. held_by st k c)"
    and inj: "\<And>k k' c. held_by st k c \<Longrightarrow> held_by st k' c \<Longrightarrow> k = k'"
    using assms(1) unfolding coord_inv_def by blast+
  have key: "held_by st key c \<longleftrightarrow> c = ?c" for c using assms(2) by (auto simp: held_by_def)
  have held: "held_by (vacate key slot st) k c \<longleftrightarrow> k \<noteq> key \<and> held_by st k c" for k c
    by (simp add: held_by_def vacate_def)
  have heap: "(c < length (co_heap (vacate key slot st)) \<and> \<not> cp_done (co_heap (vacate key slot st) ! c))
      = (c \<noteq> ?c \<and> (\<exists>k. held_by st k c))" for c
    using held_pending [OF assms] pending [of c] by (auto simp: vacate_def nth_list_update)
  have other: "(c \<noteq> ?c \<and> (\<exists>k. held_by st k c)) = (\<exists>k. k \<noteq> key \<and> held_by st k c)" for c
    using key [of c] inj [of key c] by metis
  show ?thesis
    unfolding coord_inv_def held heap other using sorted inj by (auto simp: vacate_def)
qed

lemma vacate_waiters:
  assumes "coord_inv st" "map_of (co_slots st) key = Some slot"
  shows "waiters_kept st (cp_wakers (co_heap st ! rs_completion slot)) (vacate key slot st)"
  using held_pending [OF assms] by (auto simp: waiters_kept_def vacate_def nth_list_update)

lemma bt_insert_remove: "bt_sorted m \<Longrightarrow> bt_insert k v (bt_remove k m) = bt_insert k v m"
proof (induction m)
  case (Cons x m)
  obtain k' v' where x: "x = (k', v')" by (cases x)
  consider "k < k'" | "k = k'" | "k' < k" by fastforce
  then show ?case
  proof cases
    case 1
    then have "bt_remove k (x # m) = x # m"
      using Cons.prems x by (auto simp: bt_remove_def filter_id_conv split_beta dest: order_less_trans)
    then show ?thesis by simp
  next
    case 2
    then have "bt_remove k m = m"
      using Cons.prems x by (auto simp: bt_remove_def filter_id_conv split_beta)
    moreover from this 2 x have "bt_remove k (x # m) = m" by (simp add: bt_remove_def)
    moreover have "bt_insert k v m = (k, v) # m"
      using Cons.prems x 2 by (cases m) (auto simp: split_beta)
    ultimately show ?thesis using 2 x by simp
  next
    case 3
    then have "bt_remove k (x # m) = x # bt_remove k m" using x by (simp add: bt_remove_def)
    then show ?thesis using 3 x Cons by auto
  qed
qed (simp add: bt_remove_def)

text \<open>A new leader on a vacant key.\<close>

lemma take_lead_inv:
  assumes "coord_inv st" "map_of (co_slots st) key = None" "take_lead lim key epoch now_ms st = Some (a, st')"
  shows "coord_inv st' \<and> waiters_kept st [] st'"
proof -
  obtain i where st': "st' = st\<lparr>co_next_lease_id := i,
     co_slots := bt_insert key \<lparr>rs_epoch = epoch, rs_lease_id = i, rs_expires_at = saturating_add_u64 now_ms (ll_lease_ms lim),
                  rs_waiters = 0, rs_completion = length (co_heap st)\<rparr> (co_slots st),
     co_heap := co_heap st @ [completion_default]\<rparr>"
    using assms(3) by (auto simp: take_lead_def Let_def bind_eq_Some_conv)
  have sorted: "bt_sorted (co_slots st)" using assms(1) by (simp add: coord_inv_def)
  have held: "held_by st' k c \<longleftrightarrow> (k = key \<and> c = length (co_heap st)) \<or> held_by st k c" for k c
    using assms(2) sorted by (auto simp: held_by_def st')
  have heap: "c < length (co_heap st') \<and> \<not> cp_done (co_heap st' ! c)
      \<longleftrightarrow> c = length (co_heap st) \<or> (c < length (co_heap st) \<and> \<not> cp_done (co_heap st ! c))" for c
    by (auto simp: st' nth_append completion_default_def less_Suc_eq)
  have "held_by st k c \<Longrightarrow> c < length (co_heap st)" for k c
    using assms(1) unfolding coord_inv_def by blast
  then have "coord_inv st'"
    using assms(1) sorted unfolding coord_inv_def held heap
    by (auto simp: st')
  moreover have "waiters_kept st [] st'" by (auto simp: waiters_kept_def st' nth_append)
  ultimately show ?thesis by blast
qed

text \<open>An admission that replaces a slot is a vacation followed by a new lead.\<close>

lemma local_admit_superseded:
  assumes "coord_inv st" "map_of (co_slots st) key = Some slot" "slot_superseded epoch now_ms slot"
  shows "local_admit lim key epoch now_ms st
    = map_option (\<lambda>(a, st'). (a, cp_wakers (co_heap st ! rs_completion slot), st'))
        (take_lead lim key epoch now_ms (vacate key slot st))"
proof -
  have "bt_sorted (co_slots st)" using assms(1) by (simp add: coord_inv_def)
  then show ?thesis using assms(2,3)
    by (simp add: local_admit_def complete_handle_def take_lead_def vacate_def Let_def bt_insert_remove
        option.map_comp comp_def Option.bind_map_option)
qed

lemma waiters_kept_trans:
  assumes "waiters_kept st w st1" "waiters_kept st1 w' st2"
  shows "waiters_kept st (w @ w') st2"
  unfolding waiters_kept_def
proof (intro conjI allI impI)
  show "length (co_heap st) \<le> length (co_heap st2)" using assms by (auto simp: waiters_kept_def)
next
  fix c assume c: "c < length (co_heap st)"
  then have c1: "c < length (co_heap st1)" using assms(1) by (auto simp: waiters_kept_def)
  have a: "(cp_done (co_heap st ! c) \<longrightarrow> cp_done (co_heap st1 ! c))
     \<and> (if cp_done (co_heap st1 ! c) \<and> \<not> cp_done (co_heap st ! c)
        then set (cp_wakers (co_heap st ! c)) \<subseteq> set w
        else set (cp_wakers (co_heap st ! c)) \<subseteq> set (cp_wakers (co_heap st1 ! c)))"
    using assms(1) c by (simp add: waiters_kept_def)
  have b: "(cp_done (co_heap st1 ! c) \<longrightarrow> cp_done (co_heap st2 ! c))
     \<and> (if cp_done (co_heap st2 ! c) \<and> \<not> cp_done (co_heap st1 ! c)
        then set (cp_wakers (co_heap st1 ! c)) \<subseteq> set w'
        else set (cp_wakers (co_heap st1 ! c)) \<subseteq> set (cp_wakers (co_heap st2 ! c)))"
    using assms(2) c1 by (simp add: waiters_kept_def)
  show "cp_done (co_heap st2 ! c)" if "cp_done (co_heap st ! c)" using a b that by blast
  show "if cp_done (co_heap st2 ! c) \<and> \<not> cp_done (co_heap st ! c)
        then set (cp_wakers (co_heap st ! c)) \<subseteq> set (w @ w')
        else set (cp_wakers (co_heap st ! c)) \<subseteq> set (cp_wakers (co_heap st2 ! c))"
    using a b
    by (cases "cp_done (co_heap st ! c)"; cases "cp_done (co_heap st1 ! c)"; cases "cp_done (co_heap st2 ! c)") auto
qed

lemma waiting_inv:
  assumes "coord_inv st" "map_of (co_slots st) key = Some slot" "rs_completion slot' = rs_completion slot"
  shows "coord_inv (st\<lparr>co_slots := bt_insert key slot' (co_slots st)\<rparr>)"
proof -
  have sorted: "bt_sorted (co_slots st)" using assms(1) by (simp add: coord_inv_def)
  then have "held_by (st\<lparr>co_slots := bt_insert key slot' (co_slots st)\<rparr>) = held_by st"
    using assms(2,3) by (simp add: held_by_def fun_eq_iff)
  then show ?thesis using assms(1) sorted by (simp add: coord_inv_def)
qed

lemma poll_inv:
  assumes "coord_inv st" "c < length (co_heap st)"
  shows "coord_inv (st\<lparr>co_heap := snd (wait_poll c w (co_heap st))\<rparr>)
    \<and> waiters_kept st [] (st\<lparr>co_heap := snd (wait_poll c w (co_heap st))\<rparr>)"
proof -
  have len: "length (snd (wait_poll c w (co_heap st))) = length (co_heap st)" by (simp add: wait_poll_def)
  have done_eq: "cp_done (snd (wait_poll c w (co_heap st)) ! d) = cp_done (co_heap st ! d)" for d
    using assms(2) by (simp add: wait_poll_def nth_list_update)
  have "held_by (st\<lparr>co_heap := h\<rparr>) = held_by st" for h by (simp add: held_by_def fun_eq_iff)
  then have "coord_inv (st\<lparr>co_heap := snd (wait_poll c w (co_heap st))\<rparr>)"
    using assms(1) by (simp add: coord_inv_def len done_eq)
  moreover have "set (cp_wakers (co_heap st ! d)) \<subseteq> set (cp_wakers (snd (wait_poll c w (co_heap st)) ! d))" for d
    using assms(2) by (auto simp: wait_poll_def nth_list_update)
  ultimately show ?thesis by (simp add: waiters_kept_def len done_eq)
qed

lemma local_admit_inv:
  assumes "coord_inv st" "local_admit lim key epoch now_ms st = Some (a, woken, st')"
  shows "coord_inv st' \<and> waiters_kept st woken st'"
proof (cases "map_of (co_slots st) key")
  case None
  then have "take_lead lim key epoch now_ms st = Some (a, st')" "woken = []"
    using assms(2) by (auto simp: local_admit_def)
  with take_lead_inv [OF assms(1) None] show ?thesis by simp
next
  case (Some slot)
  show ?thesis
  proof (cases "slot_superseded epoch now_ms slot")
    case True
    have vacant: "map_of (co_slots (vacate key slot st)) key = None" by (simp add: vacate_def)
    from assms(2) have lead: "take_lead lim key epoch now_ms (vacate key slot st) = Some (a, st')"
      and woken: "woken = cp_wakers (co_heap st ! rs_completion slot)"
      by (auto simp: local_admit_superseded [OF assms(1) Some True])
    from take_lead_inv [OF vacate_inv [OF assms(1) Some] vacant lead] show ?thesis
      using waiters_kept_trans [OF vacate_waiters [OF assms(1) Some]] woken by fastforce
  next
    case False
    then show ?thesis
      using assms Some waiting_inv [OF assms(1) Some]
      by (auto simp: local_admit_def waiters_kept_heap split: if_splits)
  qed
qed

lemma local_release_eq:
  assumes "coord_inv st"
  shows "local_release lease st = (case map_of (co_slots st) (rl_key lease) of
     Some slot \<Rightarrow> if rs_lease_id slot = rl_lease_id lease
       then (cp_wakers (co_heap st ! rs_completion slot), vacate (rl_key lease) slot st) else ([], st)
   | None \<Rightarrow> ([], st))"
  by (simp add: local_release_def complete_handle_def vacate_def split: option.split)

lemma coord_exec_inv:
  assumes "coord_inv st" "coord_exec lim p st = Some (woken, st')"
  shows "coord_inv st' \<and> waiters_kept st woken st'"
proof (cases p)
  case (CoAdmit key epoch now_ms)
  then show ?thesis using assms local_admit_inv by fastforce
next
  case (CoPoll c w)
  then show ?thesis using assms poll_inv by (auto split: if_splits)
next
  case (CoToken lease now_ms)
  then have "\<exists>t. st' = st\<lparr>co_next_token := t\<rparr>" "woken = []"
    using assms(2) by (auto simp: local_publish_token_def bind_eq_Some_conv split: if_splits intro: exI [of _ "co_next_token st"])
  moreover have "coord_inv (st\<lparr>co_next_token := t\<rparr>) = coord_inv st" for t
  proof -
    have "held_by (st\<lparr>co_next_token := t\<rparr>) = held_by st" by (simp add: held_by_def fun_eq_iff)
    then show ?thesis by (simp add: coord_inv_def)
  qed
  ultimately show ?thesis using assms(1) by (auto simp: waiters_kept_heap)
next
  case (CoRelease lease)
  show ?thesis
  proof (cases "map_of (co_slots st) (rl_key lease)")
    case None
    then show ?thesis using CoRelease assms by (simp add: local_release_eq [OF assms(1)])
  next
    case (Some slot)
    then show ?thesis
      using CoRelease assms vacate_inv [OF assms(1) Some] vacate_waiters [OF assms(1) Some]
      by (auto simp: local_release_eq [OF assms(1)] split: if_splits)
  qed
qed

lemma coord_run_inv:
  "coord_inv st \<Longrightarrow> coord_run lim ps st = Some (woken, st') \<Longrightarrow> coord_inv st' \<and> waiters_kept st woken st'"
proof (induction ps arbitrary: st woken)
  case (Cons p ps)
  from Cons.prems(2) obtain w1 st1 w2 where run: "coord_exec lim p st = Some (w1, st1)"
    "coord_run lim ps st1 = Some (w2, st')" "woken = w1 @ w2" by (auto simp: bind_eq_Some_conv)
  have "coord_inv st1 \<and> waiters_kept st w1 st1" by (rule coord_exec_inv [OF Cons.prems(1) run(1)])
  moreover from this have "coord_inv st' \<and> waiters_kept st1 w2 st'" by (intro Cons.IH [OF _ run(2)]) simp
  ultimately show ?case using waiters_kept_trans run(3) by blast
qed simp

lemma coord_inv_new: "coord_inv local_coordinator_new"
  by (simp add: coord_inv_def held_by_def local_coordinator_new_def)

subsection \<open>Properties\<close>

text \<open>
  C25: no waiter is stranded. A request that was told to wait and found its leader unfinished is, after
  any further admissions, polls, publications and releases, either woken and sees its wait over, or
  still registered with a completion that the slot of exactly one key holds.
\<close>

theorem no_waiter_is_stranded:
  assumes "coord_run lim ps local_coordinator_new = Some (woken, st)" and "c < length (co_heap st)"
    and "wait_poll c w (co_heap st) = (False, heap)"
    and "coord_run lim ps' (st\<lparr>co_heap := heap\<rparr>) = Some (woken', st')"
  shows "w \<in> set woken' \<and> fst (wait_poll c w (co_heap st'))
    \<or> w \<in> set (cp_wakers (co_heap st' ! c)) \<and> (\<exists>!k. held_by st' k c)"
proof -
  have inv: "coord_inv st" using coord_run_inv [OF coord_inv_new assms(1)] by blast
  have inv1: "coord_inv (st\<lparr>co_heap := heap\<rparr>)" using poll_inv [OF inv assms(2), of w] assms(3) by simp
  note run = coord_run_inv [OF inv1 assms(4)]
  have heap: "c < length heap" "\<not> cp_done (heap ! c)" "w \<in> set (cp_wakers (heap ! c))"
    using assms(2,3) by (auto simp: wait_poll_def split: if_splits)
  have kept: "c < length (co_heap st')"
      "cp_done (co_heap st' ! c) \<Longrightarrow> set (cp_wakers (heap ! c)) \<subseteq> set woken'"
      "\<not> cp_done (co_heap st' ! c) \<Longrightarrow> set (cp_wakers (heap ! c)) \<subseteq> set (cp_wakers (co_heap st' ! c))"
    using waiters_keptD [OF conjunct2 [OF run], of c] heap by simp_all
  show ?thesis
  proof (cases "cp_done (co_heap st' ! c)")
    case True
    then show ?thesis using kept(2) heap(3) by (auto simp: wait_poll_def)
  next
    case False
    have "\<exists>k. held_by st' k c" "\<And>k k'. held_by st' k c \<Longrightarrow> held_by st' k' c \<Longrightarrow> k = k'"
      using conjunct1 [OF run] False kept(1) unfolding coord_inv_def by blast+
    then show ?thesis using kept(3) [OF False] heap(3) by blast
  qed
qed

definition ex_local_limits :: local_limits where
  "ex_local_limits = \<lparr>ll_lease_ms = 10, ll_max_waiters = 2\<rparr>"

definition ex_waiting :: "nat coordinator_state" where
  "ex_waiting = \<lparr>co_slots = [(7, \<lparr>rs_epoch = 1, rs_lease_id = 1, rs_expires_at = 10, rs_waiters = 1, rs_completion = 0\<rparr>)],
     co_next_lease_id = 1, co_next_token = 0, co_heap = [completion_default]\<rparr>"

lemma ex_waiting_run:
  "coord_run ex_local_limits [CoAdmit 7 1 0, CoAdmit 7 1 2] local_coordinator_new = Some ([], ex_waiting)"
  by (simp add: ex_local_limits_def local_coordinator_new_def local_admit_def take_lead_def checked_add_u64_def
      saturating_add_u64_def slot_superseded_def ex_waiting_def Let_def)

definition ex_registered :: "completion list" where
  "ex_registered = [\<lparr>cp_done = False, cp_wakers = [42]\<rparr>]"

lemma no_waiter_is_stranded_witness:
  "\<exists>st'. coord_run ex_local_limits [CoAdmit 7 1 10] (ex_waiting\<lparr>co_heap := ex_registered\<rparr>) = Some ([42], st')
     \<and> (42 \<in> set [42 :: nat] \<and> fst (wait_poll 0 42 (co_heap st'))
        \<or> 42 \<in> set (cp_wakers (co_heap st' ! 0)) \<and> (\<exists>!k. held_by st' k 0))"
proof -
  have "\<exists>st'. coord_run ex_local_limits [CoAdmit 7 1 10] (ex_waiting\<lparr>co_heap := ex_registered\<rparr>) = Some ([42], st')"
    by (simp add: ex_local_limits_def ex_waiting_def ex_registered_def local_admit_def take_lead_def
        checked_add_u64_def saturating_add_u64_def slot_superseded_def complete_handle_def Let_def)
  then obtain st' where run:
    "coord_run ex_local_limits [CoAdmit 7 1 10] (ex_waiting\<lparr>co_heap := ex_registered\<rparr>) = Some ([42], st')" by blast
  have poll: "wait_poll 0 42 (co_heap ex_waiting) = (False, ex_registered)"
    by (simp add: wait_poll_def ex_waiting_def completion_default_def ex_registered_def)
  have "0 < length (co_heap ex_waiting)" by (simp add: ex_waiting_def)
  from no_waiter_is_stranded [OF ex_waiting_run this poll run] run show ?thesis by blast
qed

end
