(* ===== verification/Render_Store_Claims.thy ===== *)
theory Render_Store_Claims
  imports Render_Store "HOL-Library.Multiset"
begin

text \<open>
  The render store is a least-recently-used list. \<open>lru_view\<close> reads a state as the list of its slots in
  order of use; publication, lookup and eviction are then the list operations \<open>lru_publish\<close>,
  \<open>lru_touch\<close> and a filter, and the bounds and the absence of panics follow.
\<close>

subsection \<open>The reference: a list from the least recently used slot\<close>

definition slot_bytes :: "'h slot \<Rightarrow> usize" where
  "slot_bytes s = length (se_bytes (fst s))"

definition lru_size :: "('k \<times> 'h slot) list \<Rightarrow> usize" where
  "lru_size xs = sum_list (map (slot_bytes \<circ> snd) xs)"

definition lru_fits :: "memory_store_limits \<Rightarrow> usize \<Rightarrow> ('k \<times> 'h slot) list \<Rightarrow> bool" where
  "lru_fits lim n xs \<longleftrightarrow> length xs < sl_max_entries lim \<and> lru_size xs + n \<le> sl_max_bytes lim"

fun lru_room :: "memory_store_limits \<Rightarrow> usize \<Rightarrow> ('k \<times> 'h slot) list \<Rightarrow> ('k \<times> 'h slot) list" where
  "lru_room lim n [] = []"
| "lru_room lim n (x # xs) = (if lru_fits lim n (x # xs) then x # xs else lru_room lim n xs)"

definition lru_drop :: "'k \<Rightarrow> ('k \<times> 'h slot) list \<Rightarrow> ('k \<times> 'h slot) list" where
  "lru_drop key xs = filter (\<lambda>x. fst x \<noteq> key) xs"

definition lru_touch :: "'k \<Rightarrow> ('k \<times> 'h slot) list \<Rightarrow> ('k \<times> 'h slot) list" where
  "lru_touch key xs = lru_drop key xs @ filter (\<lambda>x. fst x = key) xs"

definition lru_publish ::
  "memory_store_limits \<Rightarrow> 'k \<Rightarrow> 'h slot \<Rightarrow> ('k \<times> 'h slot) list \<Rightarrow> ('k \<times> 'h slot) list" where
  "lru_publish lim key s xs = lru_room lim (slot_bytes s) (lru_drop key xs) @ [(key, s)]"

lemma lru_room_fits: "lru_fits lim n xs \<Longrightarrow> lru_room lim n xs = xs"
  by (cases xs) auto

lemma lru_room_suffix: "\<exists>ys. xs = ys @ lru_room lim n xs"
  by (induction xs) (auto, metis append_Cons)

subsection \<open>Views\<close>

definition lru_slots :: "('k \<times> 'h slot) list \<Rightarrow> 'k list \<Rightarrow> ('k \<times> 'h slot) list" where
  "lru_slots es order = map (\<lambda>k. (k, the (map_of es k))) (filter (\<lambda>k. map_of es k \<noteq> None) order)"

definition lru_view :: "('k, 'h) memory_state \<Rightarrow> ('k \<times> 'h slot) list" where
  "lru_view st = lru_slots (ms_entries st) (ms_order st)"

lemma lru_slots_Nil [simp]: "lru_slots es [] = []"
  by (simp add: lru_slots_def)

lemma lru_slots_Cons [simp]:
  "lru_slots es (k # order) = (case map_of es k of None \<Rightarrow> lru_slots es order | Some v \<Rightarrow> (k, v) # lru_slots es order)"
  by (simp add: lru_slots_def split: option.split)

lemma lru_slots_append [simp]: "lru_slots es (xs @ ys) = lru_slots es xs @ lru_slots es ys"
  by (simp add: lru_slots_def)

lemma lru_slots_keys: "map fst (lru_slots es order) = filter (\<lambda>k. map_of es k \<noteq> None) order"
  by (simp add: lru_slots_def comp_def)

lemma lru_slots_cong:
  "(\<And>k. k \<in> set order \<Longrightarrow> map_of es k = map_of es' k) \<Longrightarrow> lru_slots es order = lru_slots es' order"
  by (induction order) (auto split: option.split)

lemma lru_slots_remove: "lru_slots (bt_remove key es) order = lru_drop key (lru_slots es order)"
  by (induction order) (auto simp: lru_drop_def split: option.split)

lemma lru_slots_absent: "map_of es key = None \<Longrightarrow> lru_slots es (remove1 key order) = lru_slots es order"
  by (induction order) (auto split: option.split)

lemma lru_slots_mset:
  assumes "bt_sorted es" "distinct order" "fst ` set es \<subseteq> set order"
  shows "mset (lru_slots es order) = mset es"
proof -
  have "set (lru_slots es order) = set es"
  proof (intro set_eqI iffI)
    fix x assume "x \<in> set (lru_slots es order)"
    then obtain v where "map_of es (fst x) = Some v" "x = (fst x, v)" by (auto simp: lru_slots_def)
    then show "x \<in> set es" by (metis map_of_SomeD)
  next
    fix x assume x: "x \<in> set es"
    then have "map_of es (fst x) = Some (snd x)" by (simp add: map_of_bt_iff [OF assms(1)])
    moreover have "fst x \<in> set order" using x assms(3) by auto
    ultimately show "x \<in> set (lru_slots es order)"
      by (auto simp: lru_slots_def intro!: image_eqI [of _ _ "fst x"])
  qed
  moreover have "distinct (lru_slots es order)"
    using assms(2) by (auto simp: lru_slots_def distinct_map inj_on_def)
  moreover have "distinct es"
    using bt_sorted_distinct [OF assms(1)] by (simp add: distinct_map)
  ultimately show ?thesis by (simp add: set_eq_iff_mset_eq_distinct)
qed

lemma lru_size_mset: "mset xs = mset ys \<Longrightarrow> lru_size xs = lru_size ys"
  by (simp add: lru_size_def flip: sum_mset_sum_list)

subsection \<open>The invariant\<close>

text \<open>What holds inside a publication, when the key's old slot is gone but its place in the order is not.\<close>

definition lru_order_wf :: "('k :: linorder \<times> 'h slot) list \<Rightarrow> 'k list \<Rightarrow> bool" where
  "lru_order_wf es order \<longleftrightarrow> bt_sorted es \<and> distinct order \<and> fst ` set es \<subseteq> set order"

definition lru_store_inv :: "memory_store_limits \<Rightarrow> ('k :: linorder, 'h) memory_state \<Rightarrow> bool" where
  "lru_store_inv lim st \<longleftrightarrow> lru_order_wf (ms_entries st) (ms_order st) \<and> set (ms_order st) \<subseteq> fst ` set (ms_entries st)
     \<and> ms_bytes st = lru_size (ms_entries st) \<and> length (ms_entries st) \<le> sl_max_entries lim
     \<and> ms_bytes st \<le> sl_max_bytes lim"

lemma lru_order_wf_mset: "lru_order_wf es order \<Longrightarrow> mset (lru_slots es order) = mset es"
  by (simp add: lru_order_wf_def lru_slots_mset)

lemma lru_order_wf_size: "lru_order_wf es order \<Longrightarrow> lru_size (lru_slots es order) = lru_size es"
  by (rule lru_size_mset) (rule lru_order_wf_mset)

lemma lru_order_wf_length: "lru_order_wf es order \<Longrightarrow> length (lru_slots es order) = length es"
  by (rule mset_eq_length) (rule lru_order_wf_mset)

lemma bt_remove_keys: "fst ` set (bt_remove k es) = fst ` set es - {k}"
  by (auto simp: bt_remove_def)

lemma lru_order_wf_remove: "lru_order_wf es order \<Longrightarrow> lru_order_wf (bt_remove key es) order"
  by (auto simp: lru_order_wf_def bt_remove_keys)

lemma lru_order_wf_pop: "lru_order_wf es (k # order) \<Longrightarrow> lru_order_wf (bt_remove k es) order"
  by (auto simp: lru_order_wf_def bt_remove_keys)

lemma lru_order_wf_skip: "lru_order_wf es (k # order) \<Longrightarrow> map_of es k = None \<Longrightarrow> lru_order_wf es order"
  by (auto simp: lru_order_wf_def map_of_eq_None_iff)

lemma bt_remove_absent: "map_of es key = None \<Longrightarrow> bt_remove key es = es"
  by (induction es) (auto simp: bt_remove_def split: if_splits)

lemma lru_size_remove:
  assumes "bt_sorted es" "map_of es key = Some s"
  shows "lru_size es = lru_size (bt_remove key es) + slot_bytes s"
  using assms
proof (induction es)
  case (Cons x es)
  obtain k v where x: "x = (k, v)" by (cases x)
  show ?case
  proof (cases "k = key")
    case True
    then have "bt_remove key es = es"
      using Cons.prems(1) x by (auto simp: bt_remove_def intro!: filter_True)
    then show ?thesis using True x Cons.prems by (simp add: bt_remove_def lru_size_def)
  next
    case False
    then show ?thesis using Cons x by (simp add: bt_remove_def lru_size_def)
  qed
qed simp

lemma remove_entry_eq:
  assumes "bt_sorted es"
  shows "remove_entry key es (lru_size es) = Some (bt_remove key es, lru_size (bt_remove key es))"
proof (cases "map_of es key")
  case None
  then show ?thesis by (simp add: remove_entry_def bt_remove_absent)
next
  case (Some s)
  then show ?thesis using lru_size_remove [OF assms Some]
    by (cases s) (simp add: remove_entry_def checked_sub_usize_def slot_bytes_def)
qed

lemma over_limit_eq:
  assumes "lru_order_wf es order" "lru_size es \<le> sl_max_bytes lim" "n \<le> sl_max_bytes lim"
    "sl_max_bytes lim \<le> usize_max div 2"
  shows "over_limit lim n es (lru_size es) = Some (\<not> lru_fits lim n (lru_slots es order))"
  using assms lru_order_wf_size [OF assms(1)] lru_order_wf_length [OF assms(1)]
  by (auto simp: over_limit_def lru_fits_def checked_add_usize_def)

subsection \<open>Eviction and publication\<close>

lemma store_evict_loop_lru:
  assumes "lru_order_wf es order" "lru_size es \<le> sl_max_bytes lim" "n \<le> sl_max_bytes lim"
    "sl_max_bytes lim \<le> usize_max div 2"
  shows "\<exists>es' order'. store_evict_loop lim n order es (lru_size es) = Some (order', es', lru_size es')
    \<and> lru_order_wf es' order' \<and> lru_slots es' order' = lru_room lim n (lru_slots es order)
    \<and> fst ` set es' \<subseteq> fst ` set es \<and> (set order \<subseteq> fst ` set es \<union> K \<longrightarrow> set order' \<subseteq> fst ` set es' \<union> K)"
  using assms(1,2)
proof (induction order arbitrary: es)
  case Nil
  then show ?case using over_limit_eq [OF Nil(1,2) assms(3,4)] by auto
next
  case (Cons k order)
  note over = over_limit_eq [OF Cons.prems assms(3,4)]
  have sorted: "bt_sorted es" using Cons.prems(1) by (simp add: lru_order_wf_def)
  show ?case
  proof (cases "lru_fits lim n (lru_slots es (k # order))")
    case True
    then show ?thesis using over Cons.prems(1) lru_room_fits [OF True] by auto
  next
    case False
    define es1 where "es1 = bt_remove k es"
    have slots: "lru_slots es1 order = lru_slots es order"
      using Cons.prems(1) by (intro lru_slots_cong) (auto simp: es1_def lru_order_wf_def)
    have room: "lru_room lim n (lru_slots es (k # order)) = lru_room lim n (lru_slots es order)"
      using False by (cases "map_of es k") auto
    have wf1: "lru_order_wf es1 order" using Cons.prems(1) unfolding es1_def by (rule lru_order_wf_pop)
    have "lru_size es1 \<le> lru_size es"
      using lru_size_remove [OF sorted, of k] bt_remove_absent [of es k]
      by (cases "map_of es k") (auto simp: es1_def)
    then have le: "lru_size es1 \<le> sl_max_bytes lim" using Cons.prems(2) by simp
    have keys: "fst ` set es1 \<subseteq> fst ` set es" by (auto simp: es1_def bt_remove_keys)
    have live: "set (k # order) \<subseteq> fst ` set es \<union> K \<Longrightarrow> set order \<subseteq> fst ` set es1 \<union> K"
      using Cons.prems(1) by (auto simp: es1_def bt_remove_keys lru_order_wf_def)
    have step: "store_evict_loop lim n (k # order) es (lru_size es) = store_evict_loop lim n order es1 (lru_size es1)"
      using over False by (simp add: remove_entry_eq [OF sorted] flip: es1_def del: lru_slots_Cons)
    from Cons.IH [OF wf1 le] obtain es' order' where
      res: "store_evict_loop lim n order es1 (lru_size es1) = Some (order', es', lru_size es')"
        "lru_order_wf es' order'" "lru_slots es' order' = lru_room lim n (lru_slots es1 order)"
      and sub: "fst ` set es' \<subseteq> fst ` set es1"
      and sup: "set order \<subseteq> fst ` set es1 \<union> K \<longrightarrow> set order' \<subseteq> fst ` set es' \<union> K" by blast
    show ?thesis
    proof (rule exI [of _ es'], rule exI [of _ order'], intro conjI)
      show "fst ` set es' \<subseteq> fst ` set es" using sub keys by (rule order_trans)
      show "set (k # order) \<subseteq> fst ` set es \<union> K \<longrightarrow> set order' \<subseteq> fst ` set es' \<union> K"
        using sup live by (rule_tac impI) simp
    qed (use res in \<open>simp_all only: step room slots\<close>)
  qed
qed

lemma lru_room_bound:
  assumes "0 < sl_max_entries lim" "n \<le> sl_max_bytes lim"
  shows "lru_fits lim n (lru_room lim n xs)"
  using assms by (induction xs) (auto simp: lru_fits_def lru_size_def)

lemma lru_slots_publish:
  assumes "lru_order_wf es order" "map_of es key = None"
  shows "lru_slots (bt_insert key s es) (touch order key) = lru_slots es order @ [(key, s)]"
proof -
  have "bt_sorted es" "distinct order" using assms(1) by (simp_all add: lru_order_wf_def)
  then have "lru_slots (bt_insert key s es) (remove1 key order) = lru_slots es (remove1 key order)"
    by (intro lru_slots_cong) auto
  then show ?thesis using \<open>bt_sorted es\<close> by (simp add: touch_def lru_slots_absent [OF assms(2)])
qed

lemma lru_size_insert:
  "bt_sorted es \<Longrightarrow> map_of es key = None \<Longrightarrow> lru_size (bt_insert key s es) = lru_size es + slot_bytes s"
proof (induction key s es rule: bt_insert.induct)
  case (2 k v k' v' m)
  then show ?case by (auto simp: lru_size_def split: if_splits)
qed (simp add: lru_size_def)

text \<open>A publication neither rejected nor fenced is the publication of the list.\<close>

lemma publish_sync_lru:
  fixes hot :: "'h option" and now_ms :: u64
  assumes inv: "lru_store_inv lim st" and lim: "sl_max_bytes lim \<le> usize_max div 2"
    and entries: "sl_max_entries lim \<noteq> 0" and n: "length bytes \<le> sl_max_bytes lim" "sl_max_bytes lim \<noteq> 0"
    and fence: "\<And>current. store_peek key st = Some current \<Longrightarrow> supersedes fence (se_fence current)"
  defines "s \<equiv> (\<lparr>se_bytes = bytes, se_published_at = now_ms, se_fence = fence\<rparr>, hot)"
  shows "\<exists>st'. publish_sync lim key bytes hot fence now_ms st = Some (Published, st') \<and> lru_store_inv lim st'
    \<and> lru_view st' = lru_publish lim key s (lru_view st)"
proof -
  define es where "es = bt_remove key (ms_entries st)"
  have wf: "lru_order_wf (ms_entries st) (ms_order st)" and bytes: "ms_bytes st = lru_size (ms_entries st)"
    "ms_bytes st \<le> sl_max_bytes lim" using inv by (simp_all add: lru_store_inv_def)
  have sorted: "bt_sorted (ms_entries st)" using wf by (simp add: lru_order_wf_def)
  have wf1: "lru_order_wf es (ms_order st)" unfolding es_def using wf by (rule lru_order_wf_remove)
  have size1: "lru_size es \<le> sl_max_bytes lim"
    using lru_size_remove [OF sorted, of key] bt_remove_absent [of "ms_entries st" key] bytes
    by (cases "map_of (ms_entries st) key") (auto simp: es_def)
  obtain es' order' where loop: "store_evict_loop lim (length bytes) (ms_order st) es (lru_size es) = Some (order', es', lru_size es')"
    and wf': "lru_order_wf es' order'" and room: "lru_slots es' order' = lru_room lim (length bytes) (lru_slots es (ms_order st))"
    and keys: "fst ` set es' \<subseteq> fst ` set es"
    and live: "set (ms_order st) \<subseteq> fst ` set es \<union> {key} \<longrightarrow> set order' \<subseteq> fst ` set es' \<union> {key}"
    using store_evict_loop_lru [OF wf1 size1 n(1) lim, where K = "{key}"] by blast
  have absent: "map_of es' key = None" using keys by (auto simp: map_of_eq_None_iff es_def bt_remove_keys)
  have fits: "lru_fits lim (length bytes) (lru_slots es' order')"
    unfolding room by (rule lru_room_bound) (use entries n in simp_all)
  have bound: "length es' < sl_max_entries lim" "lru_size es' + length bytes \<le> sl_max_bytes lim"
    using fits lru_order_wf_length [OF wf'] lru_order_wf_size [OF wf'] by (simp_all add: lru_fits_def)
  define st' where "st' = \<lparr>ms_entries = bt_insert key s es', ms_order = touch order' key,
    ms_bytes = lru_size es' + length bytes\<rparr>"
  have sorted': "bt_sorted es'" and dist': "distinct order'" and sub': "fst ` set es' \<subseteq> set order'"
    using wf' by (simp_all add: lru_order_wf_def)
  have "lru_size es' + length bytes \<le> usize_max" using bound(2) lim by linarith
  then have "publish_sync lim key bytes hot fence now_ms st = Some (Published, st')"
    using fence entries n bound loop
    by (simp add: publish_sync_def bytes remove_entry_eq [OF sorted] st'_def s_def checked_add_usize_def
        store_peek_def split: option.split flip: es_def)
  moreover have "lru_view st' = lru_publish lim key s (lru_view st)"
  proof -
    have "lru_drop key (lru_view st) = lru_slots es (ms_order st)"
      by (simp add: lru_view_def es_def lru_slots_remove)
    moreover have "slot_bytes s = length bytes" by (simp add: s_def slot_bytes_def)
    ultimately show ?thesis
      by (simp add: st'_def lru_view_def lru_publish_def room lru_slots_publish [OF wf' absent])
  qed
  moreover have "lru_store_inv lim st'"
  proof -
    have "set (ms_order st) \<subseteq> fst ` set es \<union> {key}"
      using inv by (auto simp: lru_store_inv_def es_def bt_remove_keys)
    with live have live': "set order' \<subseteq> fst ` set es' \<union> {key}" by simp
    have "lru_order_wf (bt_insert key s es') (touch order' key)"
      using sorted' dist' sub' by (auto simp: lru_order_wf_def touch_def bt_insert_keys)
    moreover have "set (touch order' key) \<subseteq> fst ` set (bt_insert key s es')"
      using live' dist' by (auto simp: touch_def bt_insert_keys)
    moreover have "lru_size (bt_insert key s es') = lru_size es' + length bytes"
      using lru_size_insert [OF sorted' absent] by (simp add: s_def slot_bytes_def)
    ultimately show ?thesis
      using bound by (simp add: lru_store_inv_def st'_def length_bt_insert [OF sorted'] absent)
  qed
  ultimately show ?thesis by blast
qed

text \<open>
  Every operation of the render store against the list it refines, and the properties of any sequence
  of operations.
\<close>

subsection \<open>Operations and their reference\<close>

datatype ('k, 'h) render_op =
    OpPublish 'k "u8 list" "'h option" publication_fence u64
  | OpGet 'k | OpHotGet 'k | OpPeek 'k | OpEvict 'k | OpClear

datatype 'h render_answer =
    AnsPublish publish_outcome | AnsEntry "stored_entry option" | AnsHot "'h option" | AnsDone

fun store_exec ::
  "memory_store_limits \<Rightarrow> ('k :: linorder, 'h) render_op \<Rightarrow> ('k, 'h) memory_state
     \<Rightarrow> ('h render_answer \<times> ('k, 'h) memory_state) option" where
  "store_exec lim (OpPublish k bytes hot fence now_ms) st =
     map_option (\<lambda>(out, st'). (AnsPublish out, st')) (publish_sync lim k bytes hot fence now_ms st)"
| "store_exec lim (OpGet k) st = Some (apfst AnsEntry (store_get k st))"
| "store_exec lim (OpHotGet k) st = Some (apfst AnsHot (store_hot_get k st))"
| "store_exec lim (OpPeek k) st = Some (AnsEntry (store_peek k st), st)"
| "store_exec lim (OpEvict k) st = map_option (Pair AnsDone) (store_evict k st)"
| "store_exec lim OpClear st = Some (AnsDone, store_clear st)"

fun lru_exec ::
  "memory_store_limits \<Rightarrow> ('k, 'h) render_op \<Rightarrow> ('k \<times> 'h slot) list
     \<Rightarrow> 'h render_answer \<times> ('k \<times> 'h slot) list" where
  "lru_exec lim (OpPublish k bytes hot fence now_ms) xs =
     (if sl_max_entries lim = 0 \<or> sl_max_bytes lim = 0 \<or> sl_max_bytes lim < length bytes
      then (AnsPublish Rejected, xs)
      else if (\<exists>cur. map_option fst (map_of xs k) = Some cur \<and> \<not> supersedes fence (se_fence cur))
      then (AnsPublish Fenced, xs)
      else (AnsPublish Published,
            lru_publish lim k (\<lparr>se_bytes = bytes, se_published_at = now_ms, se_fence = fence\<rparr>, hot) xs))"
| "lru_exec lim (OpGet k) xs = (AnsEntry (map_option fst (map_of xs k)), lru_touch k xs)"
| "lru_exec lim (OpHotGet k) xs =
     (case Option.bind (map_of xs k) snd of None \<Rightarrow> (AnsHot None, xs) | Some h \<Rightarrow> (AnsHot (Some h), lru_touch k xs))"
| "lru_exec lim (OpPeek k) xs = (AnsEntry (map_option fst (map_of xs k)), xs)"
| "lru_exec lim (OpEvict k) xs = (AnsDone, lru_drop k xs)"
| "lru_exec lim OpClear xs = (AnsDone, [])"

fun store_run ::
  "memory_store_limits \<Rightarrow> ('k :: linorder, 'h) render_op list \<Rightarrow> ('k, 'h) memory_state
     \<Rightarrow> ('h render_answer list \<times> ('k, 'h) memory_state) option" where
  "store_run lim [] st = Some ([], st)"
| "store_run lim (p # ps) st = Option.bind (store_exec lim p st) (\<lambda>(a, st').
     map_option (apfst (Cons a)) (store_run lim ps st'))"

fun lru_run ::
  "memory_store_limits \<Rightarrow> ('k, 'h) render_op list \<Rightarrow> ('k \<times> 'h slot) list
     \<Rightarrow> 'h render_answer list \<times> ('k \<times> 'h slot) list" where
  "lru_run lim [] xs = ([], xs)"
| "lru_run lim (p # ps) xs = (let (a, xs') = lru_exec lim p xs in apfst (Cons a) (lru_run lim ps xs'))"

subsection \<open>One operation\<close>

lemma map_of_lru_slots: "map_of (lru_slots es order) k = (if k \<in> set order then map_of es k else None)"
  by (induction order) (auto split: option.split)

lemma map_of_lru_view: "lru_store_inv lim st \<Longrightarrow> map_of (lru_view st) k = map_of (ms_entries st) k"
proof -
  assume "lru_store_inv lim st"
  then have "k \<notin> set (ms_order st) \<Longrightarrow> map_of (ms_entries st) k = None"
    by (auto simp: lru_store_inv_def lru_order_wf_def map_of_eq_None_iff)
  then show ?thesis by (simp add: lru_view_def map_of_lru_slots)
qed

lemma filter_key_distinct:
  "distinct order \<Longrightarrow> map_of es k = Some v \<Longrightarrow> k \<in> set order
     \<Longrightarrow> filter (\<lambda>x. fst x = k) (lru_slots es order) = [(k, v)]"
proof (induction order)
  case (Cons x order)
  show ?case
  proof (cases "x = k")
    case True
    then have "filter (\<lambda>x. fst x = k) (lru_slots es order) = []"
      using Cons.prems(1) by (auto simp: lru_slots_def filter_empty_conv)
    then show ?thesis using True Cons.prems by simp
  next
    case False
    then show ?thesis using Cons by (auto split: option.split)
  qed
qed simp

lemma lru_slots_remove1: "distinct order \<Longrightarrow> lru_slots es (remove1 k order) = lru_drop k (lru_slots es order)"
proof (induction order)
  case (Cons x order)
  show ?case
  proof (cases "x = k")
    case True
    then have "lru_drop k (lru_slots es order) = lru_slots es order"
      using Cons.prems by (auto simp: lru_drop_def lru_slots_def filter_id_conv)
    then show ?thesis using True by (auto simp: lru_drop_def split: option.split)
  next
    case False
    then show ?thesis using Cons by (auto simp: lru_drop_def split: option.split)
  qed
qed (simp add: lru_drop_def)

lemma touch_lru:
  assumes "lru_store_inv lim st" "map_of (ms_entries st) k = Some v"
  shows "lru_view (st\<lparr>ms_order := touch (ms_order st) k\<rparr>) = lru_touch k (lru_view st)
    \<and> lru_store_inv lim (st\<lparr>ms_order := touch (ms_order st) k\<rparr>)"
proof -
  have dist: "distinct (ms_order st)" and k: "k \<in> set (ms_order st)" "k \<in> fst ` set (ms_entries st)"
    using assms map_of_SomeD [OF assms(2)] by (force simp: lru_store_inv_def lru_order_wf_def)+
  have "lru_view (st\<lparr>ms_order := touch (ms_order st) k\<rparr>) = lru_touch k (lru_view st)"
    using filter_key_distinct [OF dist assms(2) k(1)] assms(2) lru_slots_remove1 [OF dist]
    by (simp add: lru_view_def touch_def lru_touch_def)
  moreover have "lru_store_inv lim (st\<lparr>ms_order := touch (ms_order st) k\<rparr>)"
    using assms(1) k dist by (auto simp: lru_store_inv_def lru_order_wf_def touch_def)
  ultimately show ?thesis by blast
qed

lemma lru_touch_absent: "map_of xs k = None \<Longrightarrow> lru_touch k xs = xs"
proof -
  assume "map_of xs k = None"
  then have "\<forall>x \<in> set xs. fst x \<noteq> k" by (auto simp: map_of_eq_None_iff)
  then have "filter (\<lambda>x. fst x \<noteq> k) xs = xs" "filter (\<lambda>x. fst x = k) xs = []"
    by (auto simp: filter_id_conv filter_empty_conv)
  then show "lru_touch k xs = xs" by (simp add: lru_touch_def lru_drop_def)
qed

lemma store_evict_lru:
  assumes "lru_store_inv lim st"
  shows "\<exists>st'. store_evict k st = Some st' \<and> lru_store_inv lim st' \<and> lru_view st' = lru_drop k (lru_view st)"
proof -
  have sorted: "bt_sorted (ms_entries st)" and bytes: "ms_bytes st = lru_size (ms_entries st)"
    using assms by (simp_all add: lru_store_inv_def lru_order_wf_def)
  define es where "es = bt_remove k (ms_entries st)"
  have "lru_size es \<le> lru_size (ms_entries st)" "length es \<le> length (ms_entries st)"
    using lru_size_remove [OF sorted, of k] bt_remove_absent [of "ms_entries st" k]
    by (cases "map_of (ms_entries st) k"; auto simp: es_def bt_remove_def)+
  moreover have "lru_slots es (filter (\<lambda>x. x \<noteq> k) (ms_order st)) = lru_drop k (lru_view st)"
  proof -
    have "map_of es k = None" by (simp add: es_def)
    then have "lru_slots es (filter (\<lambda>x. x \<noteq> k) (ms_order st)) = lru_slots es (ms_order st)"
      by (auto simp: lru_slots_def intro!: arg_cong [of _ _ "map _"] filter_cong)
    then show ?thesis by (simp add: es_def lru_slots_remove lru_view_def)
  qed
  ultimately show ?thesis
    using assms
    by (auto simp: store_evict_def bytes remove_entry_eq [OF sorted] lru_store_inv_def lru_order_wf_def es_def
        lru_view_def bt_remove_keys)
qed

text \<open>The simulation: each operation answers as the list does and keeps the view.\<close>

lemma store_exec_lru:
  assumes inv: "lru_store_inv lim st" and lim: "sl_max_bytes lim \<le> usize_max div 2"
  shows "\<exists>st'. store_exec lim p st = Some (fst (lru_exec lim p (lru_view st)), st') \<and> lru_store_inv lim st'
    \<and> lru_view st' = snd (lru_exec lim p (lru_view st))"
proof (cases p)
  case (OpPublish k bytes hot fence now_ms)
  show ?thesis
  proof (cases "sl_max_entries lim = 0 \<or> sl_max_bytes lim = 0 \<or> sl_max_bytes lim < length bytes")
    case True
    then show ?thesis using OpPublish inv by (auto simp: publish_sync_def)
  next
    case ok: False
    show ?thesis
    proof (cases "\<exists>cur. store_peek k st = Some cur \<and> \<not> supersedes fence (se_fence cur)")
      case True
      then show ?thesis using OpPublish inv ok
        by (auto simp: publish_sync_def store_peek_def map_of_lru_view [OF inv] split: option.splits)
    next
      case False
      have "\<And>current. store_peek k st = Some current \<Longrightarrow> supersedes fence (se_fence current)"
        using False by blast
      from publish_sync_lru [OF inv lim _ _ _ this, where bytes = bytes and hot = hot and now_ms = now_ms] ok False OpPublish show ?thesis
        by (auto simp: store_peek_def map_of_lru_view [OF inv])
    qed
  qed
next
  case (OpGet k)
  show ?thesis
  proof (cases "map_of (ms_entries st) k")
    case None
    then show ?thesis using OpGet inv
      by (simp add: store_get_def map_of_lru_view [OF inv] lru_touch_absent)
  next
    case (Some v)
    then show ?thesis using OpGet touch_lru [OF inv Some]
      by (cases v) (simp add: store_get_def map_of_lru_view [OF inv])
  qed
next
  case (OpHotGet k)
  show ?thesis
  proof (cases "Option.bind (map_of (ms_entries st) k) snd")
    case None
    then show ?thesis using OpHotGet inv by (simp add: store_hot_get_def map_of_lru_view [OF inv])
  next
    case (Some h)
    then obtain v where "map_of (ms_entries st) k = Some v" by (auto simp: bind_eq_Some_conv)
    from touch_lru [OF inv this] show ?thesis
      using OpHotGet Some by (simp add: store_hot_get_def map_of_lru_view [OF inv])
  qed
next
  case (OpPeek k)
  then show ?thesis using inv by (simp add: store_peek_def map_of_lru_view [OF inv])
next
  case (OpEvict k)
  then show ?thesis using store_evict_lru [OF inv, of k] by auto
next
  case OpClear
  then show ?thesis by (auto simp: store_clear_def lru_store_inv_def lru_order_wf_def lru_view_def lru_size_def)
qed

lemma lru_store_inv_new: "lru_store_inv lim memory_render_store_new"
  by (simp add: memory_render_store_new_def lru_store_inv_def lru_order_wf_def lru_size_def)

lemma lru_view_new [simp]: "lru_view memory_render_store_new = []"
  by (simp add: memory_render_store_new_def lru_view_def)

lemma store_run_lru:
  assumes lim: "sl_max_bytes lim \<le> usize_max div 2"
  shows "lru_store_inv lim st \<Longrightarrow> \<exists>st'. store_run lim ps st = Some (fst (lru_run lim ps (lru_view st)), st') \<and> lru_store_inv lim st'
    \<and> lru_view st' = snd (lru_run lim ps (lru_view st))"
proof (induction ps arbitrary: st)
  case (Cons p ps)
  obtain st1 where st1: "store_exec lim p st = Some (fst (lru_exec lim p (lru_view st)), st1)" "lru_store_inv lim st1"
    "lru_view st1 = snd (lru_exec lim p (lru_view st))"
    using store_exec_lru [OF Cons.prems lim] by blast
  obtain st' where "store_run lim ps st1 = Some (fst (lru_run lim ps (lru_view st1)), st')" "lru_store_inv lim st'"
    "lru_view st' = snd (lru_run lim ps (lru_view st1))"
    using Cons.IH [OF st1(2)] by blast
  with st1 show ?case by (simp add: Let_def split_beta)
qed simp

subsection \<open>Properties\<close>

text \<open>
  C15: the render store is a least-recently-used list. Whatever sequence of publications, lookups, hot
  lookups, peeks, evictions and clears runs on an empty store, no byte count under- or overflows, every
  answer is the one the list gives, the store read in order of use is the list, and the inspected counts
  are exact and within the limits.
\<close>

theorem render_store_refines_lru:
  assumes "sl_max_bytes lim \<le> usize_max div 2"
  shows "\<exists>st. store_run lim ps memory_render_store_new = Some (fst (lru_run lim ps []), st)
    \<and> lru_view st = snd (lru_run lim ps [])
    \<and> si_entries (store_inspect st) = length (lru_view st) \<and> si_bytes (store_inspect st) = lru_size (lru_view st)
    \<and> si_entries (store_inspect st) \<le> sl_max_entries lim \<and> si_bytes (store_inspect st) \<le> sl_max_bytes lim"
proof -
  obtain st where st: "store_run lim ps memory_render_store_new = Some (fst (lru_run lim ps []), st)"
    "lru_store_inv lim st" "lru_view st = snd (lru_run lim ps [])"
    using store_run_lru [OF assms lru_store_inv_new, of ps] by auto
  have "lru_order_wf (ms_entries st) (ms_order st)" using st(2) by (simp add: lru_store_inv_def)
  then have "length (lru_view st) = length (ms_entries st)" "lru_size (lru_view st) = lru_size (ms_entries st)"
    by (simp_all add: lru_view_def lru_order_wf_length lru_order_wf_size)
  then show ?thesis using st by (intro exI [of _ st]) (simp add: store_inspect_def lru_store_inv_def)
qed

definition ex_fence :: "u64 \<Rightarrow> publication_fence" where
  "ex_fence token = \<lparr>pf_epoch = 1, pf_generation_digest = [], pf_token = token\<rparr>"

definition ex_ops :: "(nat, unit) render_op list" where
  "ex_ops = [OpPublish 1 [0, 0] None (ex_fence 1) 10, OpPublish 2 [0, 0] None (ex_fence 2) 11, OpGet 1,
     OpPublish 3 [0] None (ex_fence 3) 12, OpPublish 1 [0] None (ex_fence 1) 13]"

lemma ex_ops_lru:
  "lru_run \<lparr>sl_max_entries = 2, sl_max_bytes = 4\<rparr> ex_ops []
     = ([AnsPublish Published, AnsPublish Published,
         AnsEntry (Some \<lparr>se_bytes = [0, 0], se_published_at = 10, se_fence = ex_fence 1\<rparr>),
         AnsPublish Published, AnsPublish Fenced],
        [(1, (\<lparr>se_bytes = [0, 0], se_published_at = 10, se_fence = ex_fence 1\<rparr>, None)),
         (3, (\<lparr>se_bytes = [0], se_published_at = 12, se_fence = ex_fence 3\<rparr>, None))])"
  by (simp add: ex_ops_def lru_publish_def lru_drop_def lru_touch_def lru_fits_def lru_size_def slot_bytes_def
      ex_fence_def supersedes_def)

lemma render_store_refines_lru_witness:
  "\<exists>st. store_run \<lparr>sl_max_entries = 2, sl_max_bytes = 4\<rparr> ex_ops memory_render_store_new
       = Some ([AnsPublish Published, AnsPublish Published,
           AnsEntry (Some \<lparr>se_bytes = [0, 0], se_published_at = 10, se_fence = ex_fence 1\<rparr>),
           AnsPublish Published, AnsPublish Fenced], st)
     \<and> map fst (lru_view st) = [1, 3]"
proof -
  have "sl_max_bytes \<lparr>sl_max_entries = 2, sl_max_bytes = 4\<rparr> \<le> usize_max div 2" by (simp add: usize_max_def)
  from render_store_refines_lru [OF this, of ex_ops] show ?thesis by (auto simp: ex_ops_lru)
qed

end
