(* ===== verification/Render_Lease_Props.thy ===== *)
theory Render_Lease_Props
  imports Render_Lease Render_Store_Claims
begin

text \<open>
  The in-memory lease store keeps the port's laws, and with the render store it makes a late publisher
  harmless: the fence of an older tenure never replaces that of a newer one.
\<close>

subsection \<open>The in-memory store keeps the laws\<close>

definition memory_minted :: "'k lease_store \<Rightarrow> 'k \<Rightarrow> nat" where
  "memory_minted st k = (case map_of (lm_slots st) k of None \<Rightarrow> 0 | Some s \<Rightarrow> unat (ls_next_token s))"

definition memory_holder :: "'k lease_store \<Rightarrow> 'k \<Rightarrow> u64 option" where
  "memory_holder st k = Option.bind (map_of (lm_slots st) k) ls_lease_id"

definition memory_issued :: "'k lease_store \<Rightarrow> nat" where
  "memory_issued st = unat (lm_next_lease_id st)"

definition memory_wf :: "'k :: linorder lease_store \<Rightarrow> bool" where
  "memory_wf st \<longleftrightarrow> bt_sorted (lm_slots st)"

lemmas memory_ghost = memory_minted_def memory_holder_def memory_issued_def memory_wf_def

lemma memory_acquire_cases:
  assumes "memory_wf s" "memory_try_acquire e k ep ttl s = Some (r, s')"
  shows "memory_wf s' \<and> memory_minted s' = memory_minted s
    \<and> (if (\<exists>i ex. r = Inr (Acquired i ex))
       then \<exists>i ex. r = Inr (Acquired i ex) \<and> unat i = Suc (memory_issued s) \<and> memory_issued s' = unat i
          \<and> memory_holder s' = (memory_holder s)(k := Some i)
       else memory_issued s' = memory_issued s \<and> memory_holder s' = memory_holder s)"
proof (cases e)
  case None
  then show ?thesis using assms by (auto simp: memory_try_acquire_def store_now_ms_def)
next
  case (Some now)
  define slot where "slot = (case map_of (lm_slots s) k of Some x \<Rightarrow> x | None \<Rightarrow> fresh_lease_slot ep)"
  have sorted: "bt_sorted (lm_slots s)" using assms(1) by (simp add: memory_wf_def)
  show ?thesis
  proof (cases "ls_lease_id slot \<noteq> None \<and> now < ls_expires_at slot")
    case True
    then obtain x where "map_of (lm_slots s) k = Some x" "slot = x"
      by (cases "map_of (lm_slots s) k") (auto simp: slot_def fresh_lease_slot_def)
    then show ?thesis using assms Some True sorted
      by (auto simp: memory_try_acquire_def store_now_ms_def Let_def memory_ghost fun_eq_iff)
  next
    case False
    then obtain i where i: "checked_add_u64 (lm_next_lease_id s) 1 = Some i"
      and res: "r = Inr (Acquired i (saturating_add_u64 now ttl))"
      and s': "s' = s\<lparr>lm_next_lease_id := i, lm_slots := bt_insert k (slot\<lparr>ls_epoch := ep, ls_lease_id := Some i,
          ls_expires_at := saturating_add_u64 now ttl\<rparr>) (bt_insert k slot (lm_slots s))\<rparr>"
      using assms(2) Some
      by (auto simp: memory_try_acquire_def store_now_ms_def Let_def bind_eq_Some_conv simp flip: slot_def)
    have "memory_minted s' = memory_minted s"
      using sorted by (auto simp: s' memory_ghost fun_eq_iff slot_def fresh_lease_slot_def split: option.split)
    moreover have "memory_holder s' = (memory_holder s)(k := Some i)"
      using sorted by (auto simp: s' memory_ghost fun_eq_iff)
    ultimately show ?thesis using res sorted checked_add_u64_1 [OF i] by (simp add: s' memory_ghost)
  qed
qed

lemma memory_mint_cases:
  assumes "memory_wf s" "memory_mint_token e k i s = Some (r, s')"
  shows "memory_wf s' \<and> memory_holder s' = memory_holder s \<and> memory_issued s' = memory_issued s
    \<and> (if (\<exists>t. r = Inr (Some t))
       then \<exists>t. r = Inr (Some t) \<and> memory_holder s k = Some i \<and> unat t = Suc (memory_minted s k)
          \<and> memory_minted s' = (memory_minted s)(k := unat t)
       else memory_minted s' = memory_minted s)"
proof (cases "\<exists>now slot. e = Some now \<and> map_of (lm_slots s) k = Some slot \<and> ls_lease_id slot = Some i
    \<and> now < ls_expires_at slot")
  case True
  then obtain now slot where c: "e = Some now" "map_of (lm_slots s) k = Some slot" "ls_lease_id slot = Some i"
    "now < ls_expires_at slot" by blast
  then obtain t where t: "checked_add_u64 (ls_next_token slot) 1 = Some t" "r = Inr (Some t)"
    and s': "s' = s\<lparr>lm_slots := bt_insert k (slot\<lparr>ls_next_token := t\<rparr>) (lm_slots s)\<rparr>"
    using assms(2)
    by (auto simp: memory_mint_token_def store_now_ms_def bind_eq_Some_conv split: if_splits)
  have sorted: "bt_sorted (lm_slots s)" using assms(1) by (simp add: memory_wf_def)
  show ?thesis using c t sorted checked_add_u64_1 [OF t(1)]
    by (auto simp: s' memory_ghost fun_eq_iff)
next
  case False
  then have "s' = s \<and> \<not> (\<exists>t. r = Inr (Some t))"
    using assms(2)
    by (cases e; cases "map_of (lm_slots s) k")
      (auto simp: memory_mint_token_def store_now_ms_def not_less split: if_splits)
  then show ?thesis using assms(1) by auto
qed

lemma memory_release_cases:
  assumes "memory_wf s" "memory_release e k i s = Some (r, s')"
  shows "memory_wf s' \<and> memory_minted s' = memory_minted s \<and> memory_issued s' = memory_issued s
    \<and> (\<forall>k'. memory_holder s' k' = memory_holder s k' \<or> memory_holder s' k' = None)"
  using assms
  by (auto simp: memory_release_def memory_ghost fun_eq_iff split: option.splits if_splits)

interpretation ml: lease_port_laws memory_lease_port memory_minted memory_holder memory_issued memory_wf
proof
  fix s s' :: "'k :: linorder lease_store" and e k ep ttl i ex
  assume "memory_wf s" "lp_try_acquire memory_lease_port e k ep ttl s = Some (Inr (Acquired i ex), s')"
  then show "memory_wf s' \<and> unat i = Suc (memory_issued s) \<and> memory_issued s' = unat i
      \<and> memory_holder s' = (memory_holder s)(k := Some i) \<and> memory_minted s' = memory_minted s"
    using memory_acquire_cases [of s e k ep ttl "Inr (Acquired i ex)" s'] by (simp add: memory_lease_port_def)
next
  fix s s' :: "'k :: linorder lease_store" and e k ep ttl ra
  assume "memory_wf s" "lp_try_acquire memory_lease_port e k ep ttl s = Some (ra, s')" "\<And>i ex. ra \<noteq> Inr (Acquired i ex)"
  then show "memory_wf s' \<and> memory_issued s' = memory_issued s \<and> memory_holder s' = memory_holder s
      \<and> memory_minted s' = memory_minted s"
    using memory_acquire_cases [of s e k ep ttl ra s'] by (simp add: memory_lease_port_def)
next
  fix s s' :: "'k :: linorder lease_store" and e k i t
  assume "memory_wf s" "lp_mint_token memory_lease_port e k i s = Some (Inr (Some t), s')"
  then show "memory_wf s' \<and> memory_holder s k = Some i \<and> unat t = Suc (memory_minted s k)
      \<and> memory_minted s' = (memory_minted s)(k := unat t) \<and> memory_holder s' = memory_holder s
      \<and> memory_issued s' = memory_issued s"
    using memory_mint_cases [of s e k i "Inr (Some t)" s'] by (simp add: memory_lease_port_def)
next
  fix s s' :: "'k :: linorder lease_store" and e k i rm
  assume "memory_wf s" "lp_mint_token memory_lease_port e k i s = Some (rm, s')" "\<And>t. rm \<noteq> Inr (Some t)"
  then show "memory_wf s' \<and> memory_minted s' = memory_minted s \<and> memory_holder s' = memory_holder s
      \<and> memory_issued s' = memory_issued s"
    using memory_mint_cases [of s e k i rm s'] by (simp add: memory_lease_port_def)
next
  fix s s' :: "'k :: linorder lease_store" and e k i rr
  assume "memory_wf s" "lp_release memory_lease_port e k i s = Some (rr, s')"
  then show "memory_wf s' \<and> memory_minted s' = memory_minted s \<and> memory_issued s' = memory_issued s
      \<and> (\<forall>k'. memory_holder s' k' = memory_holder s k' \<or> memory_holder s' k' = None)"
    using memory_release_cases [of s e k i rr s'] by (simp add: memory_lease_port_def)
qed

lemma memory_new_wf: "ml.lease_wf memory_lease_store_new"
  by (simp add: ml.lease_wf_def memory_ghost memory_lease_store_new_def)

subsection \<open>A late publisher\<close>

text \<open>
  C3: a late publisher is fenced. In whatever order the operations of any number of processes reach the
  lease store, whatever its clock reads and whoever releases what, of two tokens it mints for a key the
  later one is greater and belongs to the same tenure or a later one. A render store that holds the
  later publication therefore refuses the earlier one at the same epoch, and is left as it was.
\<close>

theorem late_publisher_is_fenced:
  assumes run: "lease_run memory_lease_port evs memory_lease_store_new = Some (log, s)"
    and order: "i < j" "j < length log" "log ! i = (k, lease, t)" "log ! j = (k, lease', t')"
    and fences: "pf_epoch f = pf_epoch f'" "pf_token f = t" "pf_token f' = t'"
  shows "t < t' \<and> lease \<le> lease'
    \<and> (\<forall>entry. store_peek k st = Some entry \<and> se_fence entry = f'
         \<longrightarrow> (\<exists>out \<in> {Fenced, Rejected}. publish_sync lim k bytes hot f now_ms st = Some (out, st)))"
proof -
  have "t < t' \<and> lease \<le> lease'"
    using sorted_wrt_nth_less [OF ml.run_ordered [OF memory_new_wf run] order(1,2)] order(3,4) by simp
  moreover from this have "\<not> supersedes f f'" using fences by (auto simp: supersedes_def)
  ultimately show ?thesis
    by (auto simp: publish_sync_def store_peek_def)
qed

definition ex_lease_events :: "(nat, u64 option) lease_event list" where
  "ex_lease_events = [EvAcquire (Some 0) 9 1 10, EvMint (Some 5) 9 1, EvAcquire (Some 6) 9 1 10,
     EvAcquire (Some 10) 9 1 10, EvMint (Some 11) 9 1, EvMint (Some 11) 9 2]"

lemma ex_lease_run:
  "\<exists>s. lease_run memory_lease_port ex_lease_events memory_lease_store_new = Some ([(9, 1, 1), (9, 2, 2)], s)"
  by (simp add: ex_lease_events_def memory_lease_port_def memory_lease_store_new_def memory_try_acquire_def
      memory_mint_token_def store_now_ms_def fresh_lease_slot_def checked_add_u64_def saturating_add_u64_def Let_def)

definition ex_held_store :: "(nat, unit) memory_state" where
  "ex_held_store = \<lparr>ms_entries = [(9, (\<lparr>se_bytes = [1], se_published_at = 12, se_fence = ex_fence 2\<rparr>, None))],
     ms_order = [9], ms_bytes = 1\<rparr>"

lemma late_publisher_is_fenced_witness:
  "\<exists>out \<in> {Fenced, Rejected}. publish_sync \<lparr>sl_max_entries = 2, sl_max_bytes = 4\<rparr> 9 [7] None (ex_fence 1) 13 ex_held_store
     = Some (out, ex_held_store)"
proof -
  obtain s where "lease_run memory_lease_port ex_lease_events memory_lease_store_new = Some ([(9, 1, 1), (9, 2, 2)], s)"
    using ex_lease_run by blast
  from late_publisher_is_fenced [OF this, of 0 1 9 1 1 2 2 "ex_fence 1" "ex_fence 2" ex_held_store
      "\<lparr>sl_max_entries = 2, sl_max_bytes = 4\<rparr>" "[7]" None 13]
  show ?thesis by (auto simp: ex_fence_def store_peek_def ex_held_store_def)
qed

end
