(* ===== verification/Render_Fenced.thy ===== *)
theory Render_Fenced
  imports Render_Coordinator_Props Render_Lease_Props
begin

text \<open>
  What an admission of the fenced coordinator leaves behind, over any lease store and whatever the process
  does while it awaits the store: it leads exactly when the store granted the lease, and a local lead the
  store did not confirm is handed back with everyone who came to wait on it.
\<close>

subsection \<open>A lead and its completion\<close>

text \<open>Lease ids only grow, so a slot with the id of a lead still has its completion.\<close>

definition ids_bounded :: "'k coordinator_state \<Rightarrow> bool" where
  "ids_bounded st \<longleftrightarrow> (\<forall>k slot. map_of (co_slots st) k = Some slot \<longrightarrow> rs_lease_id slot \<le> co_next_lease_id st)"

definition tenure :: "'k :: linorder \<Rightarrow> u64 \<Rightarrow> wait_handle \<Rightarrow> 'k coordinator_state \<Rightarrow> bool" where
  "tenure key i c st \<longleftrightarrow> coord_inv st \<and> ids_bounded st \<and> i \<le> co_next_lease_id st \<and> c < length (co_heap st)
     \<and> (\<forall>slot. map_of (co_slots st) key = Some slot \<longrightarrow> (rs_lease_id slot = i \<longleftrightarrow> rs_completion slot = c))
     \<and> (\<not> cp_done (co_heap st ! c) \<longrightarrow> held_by st key c)"

lemma checked_succ_less: "checked_add_u64 n 1 = Some m \<Longrightarrow> n < m"
  using checked_add_u64_1 [of n m] by (simp add: word_less_nat_alt)

lemma take_lead_form:
  assumes "take_lead lim key epoch now_ms st = Some (a, st')"
  obtains i where "co_next_lease_id st < i" "a = Lead (rebuild_lease_new key epoch i (saturating_add_u64 now_ms (ll_lease_ms lim)) None)"
    "st' = st\<lparr>co_next_lease_id := i,
     co_slots := bt_insert key \<lparr>rs_epoch = epoch, rs_lease_id = i, rs_expires_at = saturating_add_u64 now_ms (ll_lease_ms lim),
                  rs_waiters = 0, rs_completion = length (co_heap st)\<rparr> (co_slots st),
     co_heap := co_heap st @ [completion_default]\<rparr>"
  using assms checked_succ_less by (auto simp: take_lead_def Let_def bind_eq_Some_conv)

lemma take_lead_ids:
  assumes "bt_sorted (co_slots st)" "ids_bounded st" "take_lead lim key epoch now_ms st = Some (a, st')"
  shows "ids_bounded st'"
proof -
  obtain i where i: "co_next_lease_id st < i" "st' = st\<lparr>co_next_lease_id := i,
     co_slots := bt_insert key \<lparr>rs_epoch = epoch, rs_lease_id = i, rs_expires_at = saturating_add_u64 now_ms (ll_lease_ms lim),
                  rs_waiters = 0, rs_completion = length (co_heap st)\<rparr> (co_slots st),
     co_heap := co_heap st @ [completion_default]\<rparr>"
    using take_lead_form [OF assms(3)] by metis
  show ?thesis using assms(1,2) i(1) unfolding ids_bounded_def i(2)
    by (auto split: if_splits) (metis less_imp_le order_trans)
qed

lemma vacate_ids: "ids_bounded st \<Longrightarrow> ids_bounded (vacate key slot st)"
  by (simp add: ids_bounded_def vacate_def)

lemma take_lead_tenure:
  assumes t: "tenure key i c st" and none: "map_of (co_slots st) key' = None"
    and lead: "take_lead lim key' epoch now_ms st = Some (a, st')"
  shows "tenure key i c st'"
proof -
  have inv: "coord_inv st" "ids_bounded st" "i \<le> co_next_lease_id st" "c < length (co_heap st)" and sorted: "bt_sorted (co_slots st)"
    using t by (auto simp: tenure_def coord_inv_def)
  obtain n where n: "co_next_lease_id st < n" "st' = st\<lparr>co_next_lease_id := n,
     co_slots := bt_insert key' \<lparr>rs_epoch = epoch, rs_lease_id = n, rs_expires_at = saturating_add_u64 now_ms (ll_lease_ms lim),
                  rs_waiters = 0, rs_completion = length (co_heap st)\<rparr> (co_slots st),
     co_heap := co_heap st @ [completion_default]\<rparr>"
    using take_lead_form [OF lead] by metis
  have "co_next_lease_id st' = n" "i \<le> n" "i \<noteq> n" using n inv(3) by auto
  moreover have "held_by st' key c" if "held_by st key c"
    using that none sorted by (auto simp: held_by_def n(2))
  ultimately show ?thesis
    using t take_lead_inv [OF inv(1) none lead] take_lead_ids [OF sorted inv(2) lead] sorted inv(4)
    by (auto simp: tenure_def n(2) nth_append split: if_splits)
qed

lemma vacate_tenure:
  assumes t: "tenure key i c st" and slot: "map_of (co_slots st) key' = Some slot"
  shows "tenure key i c (vacate key' slot st)"
proof -
  have inv: "coord_inv st" using t by (simp add: tenure_def)
  have "held_by (vacate key' slot st) key c" if "\<not> cp_done (co_heap (vacate key' slot st) ! c)"
  proof -
    have c: "c < length (co_heap st)" using t by (simp add: tenure_def)
    have "c \<noteq> rs_completion slot"
      using that c by (auto simp: vacate_def)
    moreover from this that have "\<not> cp_done (co_heap st ! c)" by (simp add: vacate_def)
    ultimately have "c \<noteq> rs_completion slot" "\<not> cp_done (co_heap st ! c)" by blast+
    with t have held: "held_by st key c" by (simp add: tenure_def)
    with \<open>c \<noteq> rs_completion slot\<close> slot have "key \<noteq> key'" by (auto simp: held_by_def)
    with held show ?thesis by (simp add: held_by_def vacate_def)
  qed
  then show ?thesis using t vacate_inv [OF inv slot] vacate_ids [of st key' slot]
    by (simp add: tenure_def) (simp add: vacate_def)
qed

lemma tenure_cong:
  assumes t: "tenure key i c st" and "coord_inv st'" "ids_bounded st'" "co_next_lease_id st' = co_next_lease_id st"
    and "length (co_heap st') = length (co_heap st)" "\<And>d. cp_done (co_heap st' ! d) = cp_done (co_heap st ! d)"
    and "\<And>k. map_option (\<lambda>s. (rs_lease_id s, rs_completion s)) (map_of (co_slots st') k)
           = map_option (\<lambda>s. (rs_lease_id s, rs_completion s)) (map_of (co_slots st) k)"
  shows "tenure key i c st'"
proof -
  have k: "map_option (\<lambda>s. (rs_lease_id s, rs_completion s)) (map_of (co_slots st') key)
      = map_option (\<lambda>s. (rs_lease_id s, rs_completion s)) (map_of (co_slots st) key)" by (rule assms(7))
  have "held_by st' key c \<longleftrightarrow> held_by st key c"
    using k by (auto simp: held_by_def map_option_case split: option.splits)
  moreover have "(\<forall>slot. map_of (co_slots st') key = Some slot \<longrightarrow> (rs_lease_id slot = i \<longleftrightarrow> rs_completion slot = c))
      \<longleftrightarrow> (\<forall>slot. map_of (co_slots st) key = Some slot \<longrightarrow> (rs_lease_id slot = i \<longleftrightarrow> rs_completion slot = c))"
    using k by (auto simp: map_option_case split: option.splits)
  ultimately show ?thesis using t assms(2-6) by (simp add: tenure_def)
qed

lemma waiting_ids:
  assumes "bt_sorted (co_slots st)" "ids_bounded st" "map_of (co_slots st) key = Some slot" "rs_lease_id slot' = rs_lease_id slot"
  shows "ids_bounded (st\<lparr>co_slots := bt_insert key slot' (co_slots st)\<rparr>)"
  using assms by (auto simp: ids_bounded_def split: if_splits)


lemma local_admit_tenure:
  assumes t: "tenure key i c st" and ok: "local_admit lim key' epoch now_ms st = Some (a, woken, st')"
  shows "tenure key i c st'"
proof (cases "map_of (co_slots st) key'")
  case None
  then have "take_lead lim key' epoch now_ms st = Some (a, st')" using ok by (auto simp: local_admit_def)
  with take_lead_tenure [OF t None] show ?thesis by blast
next
  case (Some slot)
  have inv: "coord_inv st" "ids_bounded st" and sorted: "bt_sorted (co_slots st)"
    using t by (auto simp: tenure_def coord_inv_def)
  show ?thesis
  proof (cases "slot_superseded epoch now_ms slot")
    case True
    then have "take_lead lim key' epoch now_ms (vacate key' slot st) = Some (a, st')"
      using ok by (auto simp: local_admit_superseded [OF inv(1) Some])
    moreover have "map_of (co_slots (vacate key' slot st)) key' = None" by (simp add: vacate_def)
    ultimately show ?thesis using take_lead_tenure [OF vacate_tenure [OF t Some]] by blast
  next
    case False
    let ?slot = "slot\<lparr>rs_waiters := rs_waiters slot + 1\<rparr>"
    have "tenure key i c (st\<lparr>co_slots := bt_insert key' ?slot (co_slots st)\<rparr>)"
      by (rule tenure_cong [OF t waiting_inv [OF inv(1) Some] waiting_ids [OF sorted inv(2) Some]])
        (use Some sorted in simp_all)
    then show ?thesis using ok Some False t by (auto simp: local_admit_def split: if_splits)
  qed
qed

lemma coord_exec_tenure:
  assumes t: "tenure key i c st" and ok: "coord_exec lim p st = Some (woken, st')"
  shows "tenure key i c st'"
proof (cases p)
  case (CoAdmit key' epoch now_ms)
  with ok local_admit_tenure [OF t] show ?thesis by fastforce
next
  case (CoPoll d w)
  have inv: "coord_inv st" "ids_bounded st" using t by (auto simp: tenure_def)
  have "tenure key i c (st\<lparr>co_heap := snd (wait_poll d w (co_heap st))\<rparr>)" if "d < length (co_heap st)"
    by (rule tenure_cong [OF t conjunct1 [OF poll_inv [OF inv(1) that]]])
      (use that inv(2) in \<open>simp_all add: ids_bounded_def wait_poll_def nth_list_update\<close>)
  then show ?thesis using CoPoll ok t by (auto split: if_splits)
next
  case (CoToken lease now_ms)
  then have "st' = st \<or> (\<exists>n. st' = st\<lparr>co_next_token := n\<rparr>)"
    using ok by (auto simp: local_publish_token_def bind_eq_Some_conv split: if_splits)
  moreover have "tenure key i c (st\<lparr>co_next_token := n\<rparr>) = tenure key i c st" for n
    by (simp add: tenure_def coord_inv_def ids_bounded_def held_by_def)
  ultimately show ?thesis using t by auto
next
  case (CoRelease lease)
  have inv: "coord_inv st" using t by (simp add: tenure_def)
  show ?thesis using CoRelease ok t vacate_tenure [OF t]
    by (auto simp: local_release_eq [OF inv] split: option.splits if_splits)
qed

lemma coord_run_tenure:
  "tenure key i c st \<Longrightarrow> coord_run lim ps st = Some (woken, st') \<Longrightarrow> tenure key i c st'"
proof (induction ps arbitrary: st woken)
  case (Cons p ps)
  from Cons.prems(2) obtain w1 st1 w2 where run: "coord_exec lim p st = Some (w1, st1)"
    "coord_run lim ps st1 = Some (w2, st')" by (auto simp: bind_eq_Some_conv)
  show ?case by (rule Cons.IH [OF coord_exec_tenure [OF Cons.prems(1) run(1)] run(2)])
qed simp

text \<open>Bounded ids need no lead: a completion nobody holds carries them along a run.\<close>

lemma local_admit_ids:
  assumes inv: "coord_inv st" and ids: "ids_bounded st" and ok: "local_admit lim key epoch now_ms st = Some (a, woken, st')"
  shows "ids_bounded st'"
proof (cases "map_of (co_slots st) key")
  case None
  then show ?thesis using ok take_lead_ids [OF _ ids] inv by (auto simp: local_admit_def coord_inv_def)
next
  case (Some slot)
  have sorted: "bt_sorted (co_slots st)" using inv by (simp add: coord_inv_def)
  show ?thesis
  proof (cases "slot_superseded epoch now_ms slot")
    case True
    then have "take_lead lim key epoch now_ms (vacate key slot st) = Some (a, st')"
      using ok by (auto simp: local_admit_superseded [OF inv Some])
    then show ?thesis using take_lead_ids [OF _ vacate_ids [OF ids]] sorted by (simp add: vacate_def)
  next
    case False
    then show ?thesis using ok Some ids waiting_ids [OF sorted ids Some]
      by (auto simp: local_admit_def split: if_splits)
  qed
qed

lemma coord_exec_ids:
  assumes inv: "coord_inv st" and ids: "ids_bounded st" and ok: "coord_exec lim p st = Some (woken, st')"
  shows "ids_bounded st'"
proof (cases p)
  case (CoAdmit key' epoch now_ms)
  with ok local_admit_ids [OF inv ids] show ?thesis by fastforce
next
  case (CoPoll d w)
  then show ?thesis using ok ids by (auto simp: ids_bounded_def split: if_splits)
next
  case (CoToken lease now_ms)
  then show ?thesis using ok ids
    by (auto simp: local_publish_token_def bind_eq_Some_conv ids_bounded_def split: if_splits)
next
  case (CoRelease lease)
  then show ?thesis using ok ids vacate_ids [OF ids]
    by (auto simp: local_release_eq [OF inv] split: option.splits if_splits)
qed

lemma coord_run_ids:
  "coord_inv st \<Longrightarrow> ids_bounded st \<Longrightarrow> coord_run lim ps st = Some (woken, st') \<Longrightarrow> ids_bounded st'"
proof (induction ps arbitrary: st woken)
  case (Cons p ps)
  from Cons.prems(3) obtain w1 st1 w2 where run: "coord_exec lim p st = Some (w1, st1)"
    "coord_run lim ps st1 = Some (w2, st')" by (auto simp: bind_eq_Some_conv)
  show ?case
    by (rule Cons.IH [OF conjunct1 [OF coord_exec_inv [OF Cons.prems(1) run(1)]]
          coord_exec_ids [OF Cons.prems(1,2) run(1)] run(2)])
qed simp

lemma ids_bounded_new: "ids_bounded local_coordinator_new"
  by (simp add: ids_bounded_def local_coordinator_new_def)

subsection \<open>The local turn and the answer\<close>

lemma lead_tenure:
  assumes inv: "coord_inv st" and ids: "ids_bounded st" and none: "map_of (co_slots st) key = None"
    and lead: "take_lead lim key epoch now_ms st = Some (a, st')"
  shows "\<exists>lease. a = Lead lease \<and> rl_key lease = key \<and> rl_epoch lease = epoch
    \<and> tenure key (rl_lease_id lease) (length (co_heap st)) st' \<and> held_by st' key (length (co_heap st))"
proof -
  have sorted: "bt_sorted (co_slots st)" using inv by (simp add: coord_inv_def)
  obtain n where n: "a = Lead (rebuild_lease_new key epoch n (saturating_add_u64 now_ms (ll_lease_ms lim)) None)"
    "st' = st\<lparr>co_next_lease_id := n,
     co_slots := bt_insert key \<lparr>rs_epoch = epoch, rs_lease_id = n, rs_expires_at = saturating_add_u64 now_ms (ll_lease_ms lim),
                  rs_waiters = 0, rs_completion = length (co_heap st)\<rparr> (co_slots st),
     co_heap := co_heap st @ [completion_default]\<rparr>"
    using take_lead_form [OF lead] by metis
  have "held_by st' key (length (co_heap st))" using sorted by (simp add: n(2) held_by_def)
  moreover from this have "tenure key n (length (co_heap st)) st'"
    using take_lead_inv [OF inv none lead] take_lead_ids [OF sorted ids lead] sorted
    by (simp add: tenure_def) (simp add: n(2))
  ultimately show ?thesis by (simp add: n(1) rebuild_lease_new_def)
qed

lemma local_admit_leads:
  assumes inv: "coord_inv st" and ids: "ids_bounded st"
    and ok: "local_admit lim key epoch now_ms st = Some (Lead lease, woken, st')"
  shows "rl_key lease = key \<and> rl_epoch lease = epoch
    \<and> tenure key (rl_lease_id lease) (length (co_heap st)) st' \<and> held_by st' key (length (co_heap st))"
proof (cases "map_of (co_slots st) key")
  case None
  then show ?thesis using ok lead_tenure [OF inv ids None] by (fastforce simp: local_admit_def)
next
  case (Some slot)
  show ?thesis
  proof (cases "slot_superseded epoch now_ms slot")
    case True
    then have lead: "take_lead lim key epoch now_ms (vacate key slot st) = Some (Lead lease, st')"
      using ok by (auto simp: local_admit_superseded [OF inv Some])
    have "map_of (co_slots (vacate key slot st)) key = None" by (simp add: vacate_def)
    from lead_tenure [OF vacate_inv [OF inv Some] vacate_ids [OF ids] this lead] show ?thesis
      by (simp add: vacate_def)
  next
    case False
    then show ?thesis using ok Some by (auto simp: local_admit_def split: if_splits)
  qed
qed

text \<open>Handing back a lead: its completion is done, whoever still waited on it is woken, its slot is gone.\<close>

lemma hand_back_frees:
  assumes t: "tenure (rl_key lease) (rl_lease_id lease) c (fc_local st)"
    and ok: "hand_back lease x st = (answer, woken, st')"
  shows "answer = x \<and> waiters_kept (fc_local st) woken (fc_local st') \<and> cp_done (co_heap (fc_local st') ! c)
    \<and> (cp_done (co_heap (fc_local st) ! c) \<or> set (cp_wakers (co_heap (fc_local st) ! c)) \<subseteq> set woken)
    \<and> (\<forall>slot. map_of (co_slots (fc_local st')) (rl_key lease) = Some slot \<longrightarrow> rs_lease_id slot \<noteq> rl_lease_id lease)"
proof -
  let ?st = "fc_local st" and ?key = "rl_key lease"
  have inv: "coord_inv ?st" and c: "c < length (co_heap ?st)" using t by (auto simp: tenure_def)
  show ?thesis
  proof (cases "\<exists>slot. map_of (co_slots ?st) ?key = Some slot \<and> rs_lease_id slot = rl_lease_id lease")
    case True
    then obtain slot where slot: "map_of (co_slots ?st) ?key = Some slot" "rs_lease_id slot = rl_lease_id lease" by blast
    then have "rs_completion slot = c" using t by (simp add: tenure_def)
    then show ?thesis using ok slot c vacate_waiters [OF inv slot(1)]
      by (auto simp: hand_back_def local_release_eq [OF inv]) (simp_all add: vacate_def)
  next
    case False
    then have "local_release lease ?st = ([], ?st)" by (auto simp: local_release_eq [OF inv] split: option.split)
    moreover from False have "\<not> held_by ?st ?key c" using t by (auto simp: tenure_def held_by_def)
    then have "cp_done (co_heap ?st ! c)" using t by (auto simp: tenure_def)
    ultimately show ?thesis using ok False by (auto simp: hand_back_def)
  qed
qed

text \<open>
  C27: a node leads only with the store's lease, and a lead the store did not confirm is handed back with
  everyone who waits on it. Take any admission that wins the local lead and asks the store, whatever the
  other requests of the process do between its local turn, the store's turn and the answer. The lease is
  for the requested key and epoch, and the key's slot holds it and a fresh completion. If the store grants
  a lease, the admission leads with the id the store issued, and nothing local changes. If the store says
  another node leads, or fails, the admission bypasses or reports that failure; the completion is then
  done, everyone still registered on it is woken in that very step (if it was not done before), no slot of
  the key holds the lease any more, and no other waiter is left behind.
\<close>

theorem fenced_admit_leads_with_store:
  fixes key :: "'k :: linorder"
  assumes "coord_run lim ps local_coordinator_new = Some (w0, fc_local st0)"
    and "fenced_admit_local lim key epoch now_ms st0 = Some (AskStore lease, w1, st1)"
    and "coord_run lim qs (fc_local st1) = Some (w2, fc_local st2)"
    and "fenced_admit_store port env lim key epoch st2 = Some (res, st3)"
    and "coord_run lim rs (fc_local st3) = Some (w3, fc_local st4)"
    and "fenced_admit_answer lease res st4 = (answer, w4, st5)"
  shows "rl_key lease = key \<and> rl_epoch lease = epoch \<and> waiters_kept (fc_local st4) w4 (fc_local st5)
    \<and> (\<exists>slot c. map_of (co_slots (fc_local st1)) key = Some slot
        \<and> rs_lease_id slot = rl_lease_id lease \<and> rs_completion slot = c \<and> length (co_heap (fc_local st0)) \<le> c
        \<and> (case res of
             Inr (Acquired i ex) \<Rightarrow> answer = Inr (Lead (lease\<lparr>rl_distributed := Some i\<rparr>)) \<and> w4 = [] \<and> st5 = st4
           | _ \<Rightarrow> answer = (case res of Inl e \<Rightarrow> Inl e | _ \<Rightarrow> Inr Bypass)
               \<and> cp_done (co_heap (fc_local st5) ! c)
               \<and> (cp_done (co_heap (fc_local st4) ! c) \<or> set (cp_wakers (co_heap (fc_local st4) ! c)) \<subseteq> set w4)
               \<and> (\<forall>s. map_of (co_slots (fc_local st5)) key = Some s \<longrightarrow> rs_lease_id s \<noteq> rl_lease_id lease)))"
proof -
  let ?c = "length (co_heap (fc_local st0))"
  have inv: "coord_inv (fc_local st0)" using coord_run_inv [OF coord_inv_new assms(1)] by blast
  have ids: "ids_bounded (fc_local st0)" by (rule coord_run_ids [OF coord_inv_new ids_bounded_new assms(1)])
  obtain a where "local_admit lim key epoch now_ms (fc_local st0) = Some (a, w1, fc_local st1)"
    and "(case a of Lead l \<Rightarrow> AskStore l | _ \<Rightarrow> Answered a) = AskStore lease"
    using assms(2) by (auto simp: fenced_admit_local_def)
  then have "local_admit lim key epoch now_ms (fc_local st0) = Some (Lead lease, w1, fc_local st1)"
    by (cases a) simp_all
  note lead = local_admit_leads [OF inv ids this]
  have t2: "tenure key (rl_lease_id lease) ?c (fc_local st2)"
    using coord_run_tenure [OF _ assms(3)] lead by blast
  moreover have "fc_local st3 = fc_local st2" using assms(4) by (auto simp: fenced_admit_store_def)
  ultimately have t4: "tenure key (rl_lease_id lease) ?c (fc_local st4)"
    using coord_run_tenure [OF _ assms(5)] by simp
  obtain slot where slot: "map_of (co_slots (fc_local st1)) key = Some slot" "rs_completion slot = ?c"
    "rs_lease_id slot = rl_lease_id lease"
    using lead by (auto simp: held_by_def tenure_def)
  have handed: "answer = x \<and> waiters_kept (fc_local st4) w4 (fc_local st5) \<and> cp_done (co_heap (fc_local st5) ! ?c)
      \<and> (cp_done (co_heap (fc_local st4) ! ?c) \<or> set (cp_wakers (co_heap (fc_local st4) ! ?c)) \<subseteq> set w4)
      \<and> (\<forall>s. map_of (co_slots (fc_local st5)) key = Some s \<longrightarrow> rs_lease_id s \<noteq> rl_lease_id lease)"
    if "hand_back lease x st4 = (answer, w4, st5)" for x
    using hand_back_frees [OF _ that] t4 lead by simp
  consider i ex where "res = Inr (Acquired i ex)" | "res = Inr Held" | e where "res = Inl e"
    by (cases res) (auto, metis lease_attempt.exhaust)
  then show ?thesis
  proof cases
    case 1
    then show ?thesis using assms(6) lead slot by (auto simp: fenced_admit_answer_def with_distributed_lease_id_def)
  next
    case 2
    then show ?thesis using handed [of "Inr Bypass"] assms(6) lead slot by (simp add: fenced_admit_answer_def)
  next
    case (3 e)
    then show ?thesis using handed [of "Inl e"] assms(6) lead slot by (simp add: fenced_admit_answer_def)
  qed
qed

text \<open>Another node leads key 7 in the store; a second request of this node waits before the store answers.\<close>

definition ex_fenced :: "(nat, nat lease_store) fenced_state" where
  "ex_fenced = \<lparr>fc_store = \<lparr>lm_slots = [(7, \<lparr>ls_epoch = 1, ls_lease_id = Some 1, ls_expires_at = 10, ls_next_token = 0\<rparr>)],
     lm_next_lease_id = 1\<rparr>, fc_local = local_coordinator_new\<rparr>"

definition ex_lead :: "nat rebuild_lease" where
  "ex_lead = \<lparr>rl_key = 7, rl_epoch = 1, rl_lease_id = 1, rl_expires_at = 10, rl_distributed = None\<rparr>"

definition ex_led :: "completion \<Rightarrow> usize \<Rightarrow> (nat, nat lease_store) fenced_state" where
  "ex_led done n = ex_fenced\<lparr>fc_local := \<lparr>co_slots = [(7, \<lparr>rs_epoch = 1, rs_lease_id = 1, rs_expires_at = 10,
     rs_waiters = n, rs_completion = 0\<rparr>)], co_next_lease_id = 1, co_next_token = 0, co_heap = [done]\<rparr>\<rparr>"

lemma ex_local_turn:
  "fenced_admit_local ex_local_limits 7 1 0 ex_fenced = Some (AskStore ex_lead, [], ex_led completion_default 0)"
  by (simp add: fenced_admit_local_def ex_fenced_def ex_lead_def ex_led_def local_coordinator_new_def local_admit_def
      take_lead_def checked_add_u64_def saturating_add_u64_def rebuild_lease_new_def ex_local_limits_def Let_def)

lemma ex_store_turn:
  "fenced_admit_store memory_lease_port (Some 5) ex_local_limits 7 1 (ex_led completion_default 0)
     = Some (Inr Held, ex_led completion_default 0)"
  by (simp add: fenced_admit_store_def ex_fenced_def ex_led_def memory_lease_port_def memory_try_acquire_def
      store_now_ms_def ex_local_limits_def)

lemma ex_waiter_comes:
  "coord_run ex_local_limits [CoAdmit 7 1 2, CoPoll 0 42] (fc_local (ex_led completion_default 0))
     = Some ([], fc_local (ex_led \<lparr>cp_done = False, cp_wakers = [42]\<rparr> 1))"
  by (simp add: ex_led_def local_admit_def slot_superseded_def ex_local_limits_def wait_poll_def completion_default_def)

lemma fenced_admit_leads_with_store_witness:
  "\<exists>st'. fenced_admit_answer ex_lead (Inr Held) (ex_led \<lparr>cp_done = False, cp_wakers = [42]\<rparr> 1) = (Inr Bypass, [42], st')
     \<and> cp_done (co_heap (fc_local st') ! 0)"
proof -
  have start: "coord_run ex_local_limits [] local_coordinator_new = Some ([], fc_local ex_fenced)"
    by (simp add: ex_fenced_def)
  have idle: "coord_run ex_local_limits [] (fc_local (ex_led completion_default 0))
      = Some ([], fc_local (ex_led completion_default 0))" by simp
  obtain st' where answer:
    "fenced_admit_answer ex_lead (Inr Held) (ex_led \<lparr>cp_done = False, cp_wakers = [42]\<rparr> 1) = (Inr Bypass, [42], st')"
    by (simp add: fenced_admit_answer_def hand_back_def local_release_def ex_led_def ex_lead_def complete_handle_def)
  have "co_slots (fc_local (ex_led completion_default 0))
      = [(7, \<lparr>rs_epoch = 1, rs_lease_id = 1, rs_expires_at = 10, rs_waiters = 0, rs_completion = 0\<rparr>)]"
    by (simp add: ex_led_def)
  with fenced_admit_leads_with_store [OF start ex_local_turn idle ex_store_turn ex_waiter_comes answer] answer
  show ?thesis by (auto split: if_splits)
qed

end
