(* ===== verification/Big_Endian.thy ===== *)
theory Big_Endian
  imports Identity
begin

text \<open>
  The bytes of a text and the big-endian bytes of an integer (\<open>as_bytes\<close>, \<open>to_be_bytes\<close>), with the facts
  that neither loses anything.
\<close>

definition text_bytes :: "string \<Rightarrow> u8 list" where
  "text_bytes s = map (\<lambda>c. of_nat (char_code c)) s"

lemma char_code_u8 [simp]: "(of_nat (char_code c) :: u8) = of_nat (char_code d) \<longleftrightarrow> c = d"
proof
  assume "(of_nat (char_code c) :: u8) = of_nat (char_code d)"
  then have "unat (of_nat (char_code c) :: u8) = unat (of_nat (char_code d) :: u8)" by simp
  moreover have "char_code x < 256" for x unfolding char_code_def by simp
  ultimately have "char_code c = char_code d" by (simp add: unat_of_nat)
  then show "c = d" by (simp add: char_code_def)
qed simp

lemma text_bytes_inject [simp]: "text_bytes s = text_bytes s' \<longleftrightarrow> s = s'"
proof -
  have "inj (\<lambda>c :: char. of_nat (char_code c) :: u8)" by (rule injI) simp
  then show ?thesis by (simp add: text_bytes_def inj_map_eq_map)
qed

definition u32_be_bytes :: "u32 \<Rightarrow> u8 list" where
  "u32_be_bytes w = [ucast (drop_bit 24 w), ucast (drop_bit 16 w), ucast (drop_bit 8 w), ucast w]"

definition u64_be_bytes :: "u64 \<Rightarrow> u8 list" where
  "u64_be_bytes w = map (\<lambda>i. ucast (drop_bit (8 * i) w)) [7, 6, 5, 4, 3, 2, 1, 0]"

lemma u32_be_bytes_length [simp]: "length (u32_be_bytes w) = 4"
  by (simp add: u32_be_bytes_def)

lemma u32_be_bytes_inject:
  assumes "u32_be_bytes v = u32_be_bytes w"
  shows "v = w"
proof (rule bit_eqI)
  fix n assume "possible_bit TYPE(u32) n"
  then have n: "n < 32" by (simp add: possible_bit_def)
  have bytes: "ucast (drop_bit (8 * k) v) = (ucast (drop_bit (8 * k) w) :: u8)" if "k < 4" for k
  proof -
    from that consider "k = 0" | "k = 1" | "k = 2" | "k = 3" by linarith
    then show ?thesis using assms by cases (simp_all add: u32_be_bytes_def)
  qed
  have bit_of: "bit (ucast (drop_bit (8 * (n div 8)) x) :: u8) (n mod 8) = bit x n" for x :: u32
    using n by (simp add: bit_ucast_iff bit_drop_bit_eq)
  have "n div 8 < 4" using n by simp
  from bytes [OF this] show "bit v n = bit w n" using bit_of [of v] bit_of [of w] by (simp only:)
qed

lemma u64_be_bytes_length [simp]: "length (u64_be_bytes w) = 8"
  by (simp add: u64_be_bytes_def)

lemma u64_be_bytes_inject:
  assumes "u64_be_bytes v = u64_be_bytes w"
  shows "v = w"
proof (rule bit_eqI)
  fix n assume "possible_bit TYPE(u64) n"
  then have n: "n < 64" by (simp add: possible_bit_def)
  have bytes: "ucast (drop_bit (8 * k) v) = (ucast (drop_bit (8 * k) w) :: u8)" if "k < 8" for k
  proof -
    from that consider "k = 0" | "k = 1" | "k = 2" | "k = 3" | "k = 4" | "k = 5" | "k = 6" | "k = 7" by linarith
    then show ?thesis using assms by cases (simp_all add: u64_be_bytes_def)
  qed
  have bit_of: "bit (ucast (drop_bit (8 * (n div 8)) x) :: u8) (n mod 8) = bit x n" for x :: u64
    using n by (simp add: bit_ucast_iff bit_drop_bit_eq)
  have "n div 8 < 8" using n by simp
  from bytes [OF this] show "bit v n = bit w n" using bit_of [of v] bit_of [of w] by (simp only:)
qed

end
