(* ===== verification/Render_Generation.thy ===== *)
theory Render_Generation
  imports Render_Store Big_Endian "HOL-Library.Product_Lexorder" "HOL-Library.Char_ord"
begin

unbundle bit_operations_syntax

text \<open>
  Dependency generations: \<open>render_cache/generation.rs\<close>. The \<open>sha2\<close> crate is third-party code: the
  digest is the parameter \<open>sha\<close> over the bytes fed to the hasher. A \<open>String\<close> is its UTF-8 bytes, a
  \<open>BTreeMap\<close> or \<open>BTreeSet\<close> a sorted list; counters that overflow panic (\<open>None\<close>).
\<close>

definition max_observations :: usize where "max_observations = 4096"
definition identity_version :: u8 where "identity_version = 1"
definition max_name_bytes :: usize where "max_name_bytes = 128"
definition max_key_bytes :: usize where "max_key_bytes = 512"

type_synonym generation = u64
type_synonym digest = "u8 list"

subsection \<open>Identities\<close>

datatype dependency_identity =
    DiTable string | DiRecord string "u8 list" | DiQueryClass string string | DiRelation string string
  | DiConfig string | DiFeature string | DiUnkeyedWrite string | DiLocale | DiRoute | DiBroad

definition is_ascii_control :: "char \<Rightarrow> bool" where
  "is_ascii_control c \<longleftrightarrow> char_code c < 32 \<or> char_code c = 127"

definition bounded :: "string \<Rightarrow> render_error + unit" where
  "bounded name =
     (if name = [] \<or> max_name_bytes < length name \<or> list_ex is_ascii_control name then Inl VarianceInvalid else Inr ())"

definition try_table :: "string \<Rightarrow> render_error + dependency_identity" where
  "try_table name = and_then (bounded name) (\<lambda>_. Inr (DiTable name))"

definition try_record :: "string \<Rightarrow> u8 list \<Rightarrow> render_error + dependency_identity" where
  "try_record table key = and_then (bounded table) (\<lambda>_.
     if key = [] \<or> max_key_bytes < length key then Inl VarianceInvalid else Inr (DiRecord table key))"

definition try_query_class :: "string \<Rightarrow> string \<Rightarrow> render_error + dependency_identity" where
  "try_query_class table class_name = and_then (bounded table) (\<lambda>_. and_then (bounded class_name) (\<lambda>_.
     Inr (DiQueryClass table class_name)))"

definition try_config :: "string \<Rightarrow> render_error + dependency_identity" where
  "try_config name = and_then (bounded name) (\<lambda>_. Inr (DiConfig name))"

definition try_feature :: "string \<Rightarrow> render_error + dependency_identity" where
  "try_feature name = and_then (bounded name) (\<lambda>_. Inr (DiFeature name))"

definition try_unkeyed_write :: "string \<Rightarrow> render_error + dependency_identity" where
  "try_unkeyed_write table = and_then (bounded table) (\<lambda>_. Inr (DiUnkeyedWrite table))"

text \<open>\<open>expect\<close>: a bound that is broken panics.\<close>

fun expect_ok :: "render_error + 'a \<Rightarrow> 'a option" where
  "expect_ok (Inr x) = Some x"
| "expect_ok (Inl _) = None"

definition table_identity :: "string \<Rightarrow> dependency_identity option" where
  "table_identity name = expect_ok (try_table name)"
definition record_identity :: "string \<Rightarrow> u8 list \<Rightarrow> dependency_identity option" where
  "record_identity table key = expect_ok (try_record table key)"
definition query_class_identity :: "string \<Rightarrow> string \<Rightarrow> dependency_identity option" where
  "query_class_identity table class_name = expect_ok (try_query_class table class_name)"
definition config_identity :: "string \<Rightarrow> dependency_identity option" where
  "config_identity name = expect_ok (try_config name)"
definition feature_identity :: "string \<Rightarrow> dependency_identity option" where
  "feature_identity name = expect_ok (try_feature name)"
definition unkeyed_write_identity :: "string \<Rightarrow> dependency_identity option" where
  "unkeyed_write_identity table = expect_ok (try_unkeyed_write table)"

text \<open>The derived order: variants in their declared order, then the fields.\<close>

fun identity_rank :: "dependency_identity \<Rightarrow> nat \<times> u8 list \<times> u8 list" where
  "identity_rank (DiTable n) = (0, text_bytes n, [])"
| "identity_rank (DiRecord t k) = (1, text_bytes t, k)"
| "identity_rank (DiQueryClass t c) = (2, text_bytes t, text_bytes c)"
| "identity_rank (DiRelation p c) = (3, text_bytes p, text_bytes c)"
| "identity_rank (DiConfig n) = (4, text_bytes n, [])"
| "identity_rank (DiFeature n) = (5, text_bytes n, [])"
| "identity_rank (DiUnkeyedWrite t) = (6, text_bytes t, [])"
| "identity_rank DiLocale = (7, [], [])"
| "identity_rank DiRoute = (8, [], [])"
| "identity_rank DiBroad = (9, [], [])"

lemma identity_rank_inject: "identity_rank a = identity_rank b \<longleftrightarrow> a = b"
  by (cases a; cases b; simp)

instantiation dependency_identity :: linorder
begin

definition less_eq_dependency_identity :: "dependency_identity \<Rightarrow> dependency_identity \<Rightarrow> bool" where
  "a \<le> b \<longleftrightarrow> identity_rank a \<le> identity_rank b"

definition less_dependency_identity :: "dependency_identity \<Rightarrow> dependency_identity \<Rightarrow> bool" where
  "a < b \<longleftrightarrow> identity_rank a < identity_rank b"

instance
proof
  fix a b c :: dependency_identity
  show "(a < b) = (a \<le> b \<and> \<not> b \<le> a)"
    by (simp add: less_eq_dependency_identity_def less_dependency_identity_def less_le_not_le)
  show "a \<le> a" by (simp add: less_eq_dependency_identity_def)
  show "a \<le> c" if "a \<le> b" "b \<le> c" using that unfolding less_eq_dependency_identity_def by (rule order_trans)
  show "a = b" if "a \<le> b" "b \<le> a"
  proof -
    have "identity_rank a = identity_rank b"
      using that unfolding less_eq_dependency_identity_def by (rule order_antisym)
    then show ?thesis by (simp only: identity_rank_inject)
  qed
  show "a \<le> b \<or> b \<le> a" unfolding less_eq_dependency_identity_def by (rule linear)
qed

end

subsection \<open>Digests\<close>

fun identity_tag :: "dependency_identity \<Rightarrow> u8 \<times> u8 list list" where
  "identity_tag (DiTable n) = (1, [text_bytes n])"
| "identity_tag (DiRecord t k) = (2, [text_bytes t, k])"
| "identity_tag (DiQueryClass t c) = (3, [text_bytes t, text_bytes c])"
| "identity_tag (DiRelation p c) = (4, [text_bytes p, text_bytes c])"
| "identity_tag (DiConfig k) = (5, [text_bytes k])"
| "identity_tag (DiFeature n) = (6, [text_bytes n])"
| "identity_tag DiLocale = (7, [])"
| "identity_tag DiRoute = (8, [])"
| "identity_tag DiBroad = (9, [])"
| "identity_tag (DiUnkeyedWrite t) = (10, [text_bytes t])"

text \<open>The bytes the hasher is fed; the length prefix is the \<open>u32\<close> the code casts to.\<close>

definition part_bytes :: "u8 list \<Rightarrow> u8 list" where
  "part_bytes part = u32_be_bytes (of_nat (length part)) @ part"

definition identity_preimage :: "dependency_identity \<Rightarrow> u8 list" where
  "identity_preimage i = (case identity_tag i of (tag, parts) \<Rightarrow>
     [identity_version, tag] @ concat (map part_bytes parts))"

definition identity_digest :: "(u8 list \<Rightarrow> digest) \<Rightarrow> dependency_identity \<Rightarrow> digest" where
  "identity_digest sha i = sha (identity_preimage i)"

subsection \<open>Generation sets\<close>

type_synonym generation_set = "(digest \<times> generation) list"

definition insert_digest :: "digest \<Rightarrow> generation \<Rightarrow> generation_set \<Rightarrow> render_error + generation_set" where
  "insert_digest d g s =
     (if max_observations \<le> length s \<and> map_of s d = None then Inl EntryInvalid else Inr (bt_insert d g s))"

definition insert_identity ::
  "(u8 list \<Rightarrow> digest) \<Rightarrow> dependency_identity \<Rightarrow> generation \<Rightarrow> generation_set \<Rightarrow> render_error + generation_set" where
  "insert_identity sha i g s = insert_digest (identity_digest sha i) g s"

definition get_digest :: "digest \<Rightarrow> generation_set \<Rightarrow> generation option" where
  "get_digest d s = map_of s d"

definition get_identity :: "(u8 list \<Rightarrow> digest) \<Rightarrow> dependency_identity \<Rightarrow> generation_set \<Rightarrow> generation option" where
  "get_identity sha i s = get_digest (identity_digest sha i) s"

definition set_digests :: "generation_set \<Rightarrow> digest list" where
  "set_digests s = map fst s"

definition set_digest :: "(u8 list \<Rightarrow> digest) \<Rightarrow> generation_set \<Rightarrow> digest" where
  "set_digest sha s = sha (concat (map (\<lambda>(d, g). d @ u64_be_bytes g) s))"

subsection \<open>Hexadecimal keys\<close>

definition hex_digit :: "u8 \<Rightarrow> char" where
  "hex_digit n = char_of (if n < 10 then unat n + 48 else unat n + 87)"

text \<open>\<open>{byte:02x}\<close> per byte.\<close>

definition to_hex :: "digest \<Rightarrow> string" where
  "to_hex d = concat (map (\<lambda>b. [hex_digit (drop_bit 4 b), hex_digit (b AND 15)]) d)"

definition hex_value :: "char \<Rightarrow> u8 option" where
  "hex_value c =
     (let byte = char_code c in
      if 48 \<le> byte \<and> byte \<le> 57 then Some (of_nat (byte - 48))
      else if 97 \<le> byte \<and> byte \<le> 102 then Some (of_nat (byte - 97 + 10))
      else None)"

fun hex_pairs :: "string \<Rightarrow> digest option" where
  "hex_pairs (h # l # rest) = Option.bind (hex_value h) (\<lambda>high. Option.bind (hex_value l) (\<lambda>low.
     map_option (Cons (push_bit 4 high OR low)) (hex_pairs rest)))"
| "hex_pairs _ = Some []"

definition from_hex :: "string \<Rightarrow> digest option" where
  "from_hex text = (if length text \<noteq> 64 then None else hex_pairs text)"

text \<open>The serde form: a map from hexadecimal digest to generation, and its checked inverse.\<close>

definition serialize_set :: "generation_set \<Rightarrow> (string \<times> generation) list" where
  "serialize_set s = bt_collect (map (apfst to_hex) s)"

fun deserialize_entries :: "(string \<times> generation) list \<Rightarrow> generation_set \<Rightarrow> generation_set option" where
  "deserialize_entries [] s = Some s"
| "deserialize_entries ((key, g) # rest) s =
     Option.bind (from_hex key) (\<lambda>d. deserialize_entries rest (bt_insert d g s))"

definition deserialize_set :: "(string \<times> generation) list \<Rightarrow> generation_set option" where
  "deserialize_set hex_keyed = deserialize_entries hex_keyed []"

subsection \<open>The in-memory ledger\<close>

record ledger_state =
  gl_generations :: generation_set
  gl_epoch :: u64

definition generation_ledger_new :: ledger_state where
  "generation_ledger_new = \<lparr>gl_generations = [], gl_epoch = 1\<rparr>"

definition ledger_advance_epoch :: "ledger_state \<Rightarrow> ledger_state option" where
  "ledger_advance_epoch L = map_option (\<lambda>e. L\<lparr>gl_epoch := e\<rparr>) (checked_add_u64 (gl_epoch L) 1)"

definition ledger_rewind_epoch :: "u64 \<Rightarrow> ledger_state \<Rightarrow> ledger_state" where
  "ledger_rewind_epoch to L = L\<lparr>gl_epoch := to\<rparr>"

fun current_into :: "ledger_state \<Rightarrow> digest list \<Rightarrow> generation_set \<Rightarrow> render_error + generation_set" where
  "current_into L [] s = Inr s"
| "current_into L (d # ds) s =
     and_then (insert_digest d (case map_of (gl_generations L) d of Some g \<Rightarrow> g | None \<Rightarrow> 0) s) (current_into L ds)"

definition ledger_current :: "digest list \<Rightarrow> ledger_state \<Rightarrow> render_error + generation_set" where
  "ledger_current ds L = current_into L ds []"

fun ledger_advance :: "(u8 list \<Rightarrow> digest) \<Rightarrow> dependency_identity list \<Rightarrow> ledger_state \<Rightarrow> ledger_state option" where
  "ledger_advance sha [] L = Some L"
| "ledger_advance sha (i # ids) L =
     (let d = identity_digest sha i; g = (case map_of (gl_generations L) d of Some g \<Rightarrow> g | None \<Rightarrow> 0) in
      Option.bind (checked_add_u64 g 1) (\<lambda>g'.
        ledger_advance sha ids (L\<lparr>gl_generations := bt_insert d g' (gl_generations L)\<rparr>)))"

definition ledger_epoch :: "ledger_state \<Rightarrow> u64" where
  "ledger_epoch L = gl_epoch L"

definition lift_epoch_above :: "u64 \<Rightarrow> ledger_state \<Rightarrow> u64 \<times> ledger_state" where
  "lift_epoch_above stamped L =
     (let L' = (if gl_epoch L \<le> stamped then L\<lparr>gl_epoch := saturating_add_u64 stamped 1\<rparr> else L) in (gl_epoch L', L'))"

definition current_with_epoch :: "digest list \<Rightarrow> ledger_state \<Rightarrow> render_error + generation_set \<times> u64" where
  "current_with_epoch ds L = and_then (ledger_current ds L) (\<lambda>current. Inr (current, ledger_epoch L))"

subsection \<open>Observation windows and the coherence check\<close>

record observation_window =
  ow_epoch :: u64
  ow_identities :: "dependency_identity list"

definition window_open :: "u64 \<Rightarrow> observation_window" where
  "window_open epoch = \<lparr>ow_epoch = epoch, ow_identities = [DiBroad]\<rparr>"

definition window_observe :: "dependency_identity \<Rightarrow> observation_window \<Rightarrow> render_error + observation_window" where
  "window_observe i w =
     (if max_observations \<le> length (ow_identities w) \<and> i \<notin> set (ow_identities w) then Inl VarianceInvalid
      else Inr (w\<lparr>ow_identities := bs_insert i (ow_identities w)\<rparr>))"

definition window_close ::
  "(u8 list \<Rightarrow> digest) \<Rightarrow> observation_window \<Rightarrow> ledger_state \<Rightarrow> render_error + generation_set" where
  "window_close sha w L = ledger_current (map (identity_digest sha) (ow_identities w)) L"

datatype coherence_check = Coherent | Moved "digest list" | Rewound u64 u64

definition coherence_compare ::
  "(u8 list \<Rightarrow> digest) \<Rightarrow> generation_set \<Rightarrow> generation_set \<Rightarrow> u64 \<Rightarrow> u64 \<Rightarrow> coherence_check" where
  "coherence_compare sha observed current epoch observed_epoch =
     (if epoch < observed_epoch then Rewound observed_epoch epoch
      else (let moved = (if epoch \<noteq> observed_epoch then [identity_digest sha DiBroad] else [])
                  @ filter (\<lambda>d. get_digest d observed \<noteq> get_digest d current) (set_digests observed)
            in if moved = [] then Coherent else Moved moved))"

end
