(* ===== verification/Render_Generation_Claims.thy ===== *)
theory Render_Generation_Claims
  imports Render_Generation
begin

text \<open>
  Generations: a full window always closes, the coherence check finds exactly the observations that
  moved, the hexadecimal form of a digest has one accepted spelling, and distinct identities are hashed
  from distinct bytes.
\<close>

subsection \<open>Reading and advancing the ledger\<close>

definition generation_of :: "ledger_state \<Rightarrow> digest \<Rightarrow> generation" where
  "generation_of L d = (case map_of (gl_generations L) d of Some g \<Rightarrow> g | None \<Rightarrow> 0)"

lemma bt_length_card: "bt_sorted m \<Longrightarrow> length m = card (fst ` set m)"
  using distinct_card [of "map fst m"] bt_sorted_distinct [of m] by simp

lemma current_into_ok:
  assumes "bt_sorted s" "card (fst ` set s \<union> set ds) \<le> max_observations"
  shows "\<exists>r. current_into L ds s = Inr r \<and> bt_sorted r \<and> fst ` set r = fst ` set s \<union> set ds
    \<and> (\<forall>d. map_of r d = (if d \<in> set ds then Some (generation_of L d) else map_of s d))"
  using assms
proof (induction ds arbitrary: s)
  case (Cons d ds)
  have room: "\<not> (max_observations \<le> length s \<and> map_of s d = None)"
  proof
    assume full: "max_observations \<le> length s \<and> map_of s d = None"
    then have "card (insert d (fst ` set s)) = Suc (length s)"
      using bt_length_card [OF Cons.prems(1)] by (simp add: map_of_eq_None_iff)
    moreover have "card (insert d (fst ` set s)) \<le> card (fst ` set s \<union> set (d # ds))" by (rule card_mono) auto
    ultimately show False using full Cons.prems(2) by linarith
  qed
  define s1 where "s1 = bt_insert d (generation_of L d) s"
  have "insert_digest d (generation_of L d) s = Inr s1" using room by (auto simp: insert_digest_def s1_def)
  then have step: "current_into L (d # ds) s = current_into L ds s1" by (simp add: generation_of_def)
  have keys: "fst ` set s1 = insert d (fst ` set s)" by (simp add: s1_def bt_insert_keys)
  have "bt_sorted s1" using Cons.prems(1) by (simp add: s1_def)
  moreover have "card (fst ` set s1 \<union> set ds) \<le> max_observations" using Cons.prems(2) by (simp add: keys)
  ultimately obtain r where "current_into L ds s1 = Inr r" "bt_sorted r" "fst ` set r = fst ` set s1 \<union> set ds"
    "\<forall>d. map_of r d = (if d \<in> set ds then Some (generation_of L d) else map_of s1 d)"
    using Cons.IH by blast
  then show ?case
    unfolding step using Cons.prems(1) by (intro exI [of _ r]) (auto simp: keys, auto simp: s1_def)
qed simp

lemma ledger_current_ok:
  assumes "card (set ds) \<le> max_observations"
  shows "\<exists>r. ledger_current ds L = Inr r \<and> bt_sorted r \<and> set (set_digests r) = set ds
    \<and> (\<forall>d. get_digest d r = (if d \<in> set ds then Some (generation_of L d) else None))"
proof -
  obtain r where "current_into L ds [] = Inr r" "bt_sorted r" "fst ` set r = set ds"
    "\<forall>d. map_of r d = (if d \<in> set ds then Some (generation_of L d) else map_of [] d)"
    using current_into_ok [of "[]" ds L] assms by auto
  then show ?thesis
    by (intro exI [of _ r]) (simp add: ledger_current_def set_digests_def get_digest_def split: if_splits)
qed

definition ledger_wf :: "ledger_state \<Rightarrow> bool" where
  "ledger_wf L \<longleftrightarrow> bt_sorted (gl_generations L)"

lemma ledger_advance_count:
  "ledger_wf L \<Longrightarrow> ledger_advance sha ids L = Some L' \<Longrightarrow> ledger_wf L' \<and> gl_epoch L' = gl_epoch L
    \<and> unat (generation_of L' d) = unat (generation_of L d) + length (filter (\<lambda>i. identity_digest sha i = d) ids)"
proof (induction ids arbitrary: L)
  case (Cons i ids)
  define e where "e = identity_digest sha i"
  obtain g where g: "checked_add_u64 (generation_of L e) 1 = Some g"
    and rest: "ledger_advance sha ids (L\<lparr>gl_generations := bt_insert e g (gl_generations L)\<rparr>) = Some L'"
    using Cons.prems(2) by (auto simp: Let_def bind_eq_Some_conv generation_of_def e_def)
  let ?L1 = "L\<lparr>gl_generations := bt_insert e g (gl_generations L)\<rparr>"
  have wf1: "ledger_wf ?L1" using Cons.prems(1) by (simp add: ledger_wf_def)
  have "generation_of ?L1 d = (if d = e then g else generation_of L d)"
    using Cons.prems(1) by (simp add: generation_of_def ledger_wf_def)
  then show ?case using Cons.IH [OF wf1 rest] checked_add_u64_1 [OF g] by (auto simp: e_def)
qed simp

subsection \<open>Runs of the ledger\<close>

datatype ledger_op = LoAdvance "dependency_identity list" | LoAdvanceEpoch | LoLift u64

fun ledger_exec :: "(u8 list \<Rightarrow> digest) \<Rightarrow> ledger_op \<Rightarrow> ledger_state \<Rightarrow> ledger_state option" where
  "ledger_exec sha (LoAdvance ids) L = ledger_advance sha ids L"
| "ledger_exec sha LoAdvanceEpoch L = ledger_advance_epoch L"
| "ledger_exec sha (LoLift stamped) L = Some (snd (lift_epoch_above stamped L))"

fun ledger_run :: "(u8 list \<Rightarrow> digest) \<Rightarrow> ledger_op list \<Rightarrow> ledger_state \<Rightarrow> ledger_state option" where
  "ledger_run sha [] L = Some L"
| "ledger_run sha (p # ps) L = Option.bind (ledger_exec sha p L) (ledger_run sha ps)"

fun advanced :: "ledger_op list \<Rightarrow> dependency_identity list" where
  "advanced [] = []"
| "advanced (LoAdvance ids # ps) = ids @ advanced ps"
| "advanced (_ # ps) = advanced ps"

lemma lift_epoch_ge: "gl_epoch L \<le> gl_epoch (snd (lift_epoch_above stamped L))"
  using order_trans [OF _ saturating_add_u64_ge1] by (auto simp: lift_epoch_above_def Let_def)

lemma ledger_exec_count:
  assumes "ledger_wf L" "ledger_exec sha p L = Some L'"
  shows "ledger_wf L' \<and> gl_epoch L \<le> gl_epoch L'
    \<and> unat (generation_of L' d) = unat (generation_of L d) + length (filter (\<lambda>i. identity_digest sha i = d) (advanced [p]))"
proof (cases p)
  case (LoAdvance ids)
  then show ?thesis using ledger_advance_count [OF assms(1), of sha ids L' d] assms(2) by simp
next
  case LoAdvanceEpoch
  then show ?thesis using assms checked_add_u64_1 [of "gl_epoch L"]
    by (auto simp: ledger_advance_epoch_def ledger_wf_def generation_of_def word_le_nat_alt)
next
  case (LoLift stamped)
  then show ?thesis using assms lift_epoch_ge [of L stamped]
    by (auto simp: lift_epoch_above_def Let_def ledger_wf_def generation_of_def)
qed

lemma advanced_Cons: "advanced (p # ps) = advanced [p] @ advanced ps"
  by (cases p) simp_all

lemma ledger_run_count:
  "ledger_wf L \<Longrightarrow> ledger_run sha ps L = Some L' \<Longrightarrow> ledger_wf L' \<and> gl_epoch L \<le> gl_epoch L'
    \<and> unat (generation_of L' d) = unat (generation_of L d) + length (filter (\<lambda>i. identity_digest sha i = d) (advanced ps))"
proof (induction ps arbitrary: L)
  case (Cons p ps)
  from Cons.prems(2) obtain L1 where L1: "ledger_exec sha p L = Some L1" "ledger_run sha ps L1 = Some L'"
    by (auto simp: bind_eq_Some_conv)
  note one = ledger_exec_count [OF Cons.prems(1) L1(1), of d]
  then show ?case using Cons.IH [OF _ L1(2)] by (auto simp: advanced_Cons [of p ps])
qed simp

lemma generation_moved_iff:
  assumes "ledger_wf L" "ledger_run sha ps L = Some L'"
  shows "generation_of L' d \<noteq> generation_of L d \<longleftrightarrow> (\<exists>i \<in> set (advanced ps). identity_digest sha i = d)"
proof -
  have "generation_of L' d \<noteq> generation_of L d \<longleftrightarrow> filter (\<lambda>i. identity_digest sha i = d) (advanced ps) \<noteq> []"
    using ledger_run_count [OF assms, of d] by (auto simp: word_unat_eq_iff)
  then show ?thesis by (auto simp: filter_empty_conv)
qed

subsection \<open>Windows\<close>

text \<open>A window opened at an epoch, and everything a render then tried to observe.\<close>

fun observe_all :: "dependency_identity list \<Rightarrow> observation_window \<Rightarrow> observation_window" where
  "observe_all [] w = w"
| "observe_all (i # ids) w = observe_all ids (case window_observe i w of Inr w' \<Rightarrow> w' | Inl _ \<Rightarrow> w)"

lemma length_bs_insert: "length (bs_insert x xs) \<le> Suc (length xs)"
  by (induction x xs rule: bs_insert.induct) auto

lemma bs_insert_member: "sorted_wrt (<) xs \<Longrightarrow> x \<in> set xs \<Longrightarrow> bs_insert x xs = xs"
  by (induction x xs rule: bs_insert.induct) (auto dest: order_less_asym)

lemma observe_all_bound:
  "sorted_wrt (<) (ow_identities w) \<Longrightarrow> length (ow_identities w) \<le> max_observations
    \<Longrightarrow> sorted_wrt (<) (ow_identities (observe_all ids w)) \<and> length (ow_identities (observe_all ids w)) \<le> max_observations
       \<and> ow_epoch (observe_all ids w) = ow_epoch w \<and> set (ow_identities w) \<subseteq> set (ow_identities (observe_all ids w))"
proof (induction ids arbitrary: w)
  case (Cons i ids)
  let ?w = "case window_observe i w of Inr w' \<Rightarrow> w' | Inl _ \<Rightarrow> w"
  have "sorted_wrt (<) (ow_identities ?w) \<and> length (ow_identities ?w) \<le> max_observations
      \<and> ow_epoch ?w = ow_epoch w \<and> set (ow_identities w) \<subseteq> set (ow_identities ?w)"
    using Cons.prems length_bs_insert [of i "ow_identities w"] bs_insert_member [of "ow_identities w" i]
    by (cases "i \<in> set (ow_identities w)") (auto simp: window_observe_def)
  then show ?case using Cons.IH [of ?w] by auto
qed simp

unbundle bit_operations_syntax

text \<open>
  The properties of dependency generations: movement is detected exactly, digests survive their
  serialized form, and identities do not collide before they are hashed.
\<close>

subsection \<open>Movement\<close>

lemma memory_ledger_wf: "ledger_wf generation_ledger_new"
  by (simp add: ledger_wf_def generation_ledger_new_def)

text \<open>
  C5: a write is never missed and never invented. A render opens a window at the ledger's epoch,
  observes whatever it reads and closes the window later; the window always closes and its digests can
  always be reread. After any further writes and epoch changes, the check of the observed set against
  the reread answers coherent exactly when the epoch is the one the window opened at and no advanced
  identity has the digest of an observed one.
\<close>

theorem movement_is_detected:
  assumes "ledger_run sha before generation_ledger_new = Some opened"
    and "ledger_run sha during opened = Some closed"
    and "ledger_run sha after closed = Some later"
  shows "let w = observe_all ids (window_open (gl_epoch opened)) in \<exists>observed current. window_close sha w closed = Inr observed
    \<and> ledger_current (set_digests observed) later = Inr current
    \<and> (coherence_compare sha observed current (gl_epoch later) (ow_epoch w) = Coherent
         \<longleftrightarrow> gl_epoch later = gl_epoch opened
           \<and> (\<forall>i \<in> set (ow_identities w). \<forall>j \<in> set (advanced after). identity_digest sha j \<noteq> identity_digest sha i))"
proof -
  define w where "w = observe_all ids (window_open (gl_epoch opened))"
  have wf: "ledger_wf opened" using ledger_run_count [OF memory_ledger_wf assms(1)] by blast
  have wfc: "ledger_wf closed" and epochs: "gl_epoch opened \<le> gl_epoch closed"
    using ledger_run_count [OF wf assms(2)] by blast+
  have later: "gl_epoch closed \<le> gl_epoch later" using ledger_run_count [OF wfc assms(3)] by blast
  have w: "length (ow_identities w) \<le> max_observations" "ow_epoch w = gl_epoch opened"
    using observe_all_bound [of "window_open (gl_epoch opened)" ids] by (auto simp: w_def window_open_def max_observations_def)
  let ?ds = "map (identity_digest sha) (ow_identities w)"
  have "card (set ?ds) \<le> max_observations" using w(1) card_length [of ?ds] by simp
  then obtain observed where observed: "window_close sha w closed = Inr observed" "bt_sorted observed"
    "set (set_digests observed) = set ?ds"
    "\<And>d. get_digest d observed = (if d \<in> set ?ds then Some (generation_of closed d) else None)"
    using ledger_current_ok [of ?ds closed] by (auto simp: window_close_def)
  have "card (set (set_digests observed)) \<le> max_observations"
    using observed(3) \<open>card (set ?ds) \<le> max_observations\<close> by simp
  then obtain current where current: "ledger_current (set_digests observed) later = Inr current"
    "\<And>d. get_digest d current = (if d \<in> set ?ds then Some (generation_of later d) else None)"
    using ledger_current_ok [of "set_digests observed" later] observed(3) by auto
  have moved: "get_digest d observed \<noteq> get_digest d current
      \<longleftrightarrow> d \<in> set ?ds \<and> (\<exists>j \<in> set (advanced after). identity_digest sha j = d)" for d
    using generation_moved_iff [OF wfc assms(3), of d] observed(4) current(2) by auto
  have "filter (\<lambda>d. get_digest d observed \<noteq> get_digest d current) (set_digests observed) = []
      \<longleftrightarrow> (\<forall>i \<in> set (ow_identities w). \<forall>j \<in> set (advanced after). identity_digest sha j \<noteq> identity_digest sha i)"
    unfolding filter_empty_conv moved using observed(3) by auto
  moreover have "\<not> gl_epoch later < ow_epoch w" using epochs later w(2) by simp
  ultimately have "coherence_compare sha observed current (gl_epoch later) (ow_epoch w) = Coherent
         \<longleftrightarrow> gl_epoch later = gl_epoch opened
           \<and> (\<forall>i \<in> set (ow_identities w). \<forall>j \<in> set (advanced after). identity_digest sha j \<noteq> identity_digest sha i)"
    using w(2) by (simp add: coherence_compare_def Let_def)
  then show ?thesis using observed(1) current(1) unfolding Let_def w_def [symmetric] by blast
qed

definition ex_window :: observation_window where
  "ex_window = \<lparr>ow_epoch = 1, ow_identities = [DiTable ''a'', DiBroad]\<rparr>"

lemma ex_window_observed: "observe_all [DiTable ''a''] (window_open (gl_epoch generation_ledger_new)) = ex_window"
  by (simp add: ex_window_def window_observe_def window_open_def max_observations_def generation_ledger_new_def
      less_dependency_identity_def)

definition ex_written :: ledger_state where
  "ex_written = \<lparr>gl_generations = [(identity_preimage (DiTable ''a''), 1)], gl_epoch = 1\<rparr>"

lemma movement_is_detected_witness:
  "\<exists>observed current. window_close (\<lambda>b. b) ex_window generation_ledger_new = Inr observed
     \<and> ledger_current (set_digests observed) ex_written = Inr current
     \<and> coherence_compare (\<lambda>b. b) observed current 1 1 \<noteq> Coherent"
proof -
  have run: "ledger_run (\<lambda>b. b) [] generation_ledger_new = Some generation_ledger_new" by simp
  have write_run: "ledger_run (\<lambda>b. b) [LoAdvance [DiTable ''a'']] generation_ledger_new = Some ex_written"
    by (simp add: generation_ledger_new_def identity_digest_def checked_add_u64_def ex_written_def)
  have "DiTable ''a'' \<in> set (ow_identities ex_window)" "ow_epoch ex_window = 1" "gl_epoch ex_written = 1"
    by (simp_all add: ex_window_def ex_written_def)
  with movement_is_detected [OF run run write_run, of "[DiTable ''a'']"] show ?thesis
    unfolding Let_def ex_window_observed by auto
qed

subsection \<open>Preimages\<close>

definition identity_sized :: "dependency_identity \<Rightarrow> bool" where
  "identity_sized i = list_all (\<lambda>p. length p < 2 ^ 32) (snd (identity_tag i))"

lemma part_bytes_inject:
  assumes "part_bytes p @ xs = part_bytes q @ ys" "length p < 2 ^ 32" "length q < 2 ^ 32"
  shows "p = q \<and> xs = ys"
proof -
  have "u32_be_bytes (of_nat (length p)) = u32_be_bytes (of_nat (length q))" and rest: "p @ xs = q @ ys"
    using assms(1) by (auto simp: part_bytes_def)
  then have "(of_nat (length p) :: u32) = of_nat (length q)" by (intro u32_be_bytes_inject)
  then have "unat (of_nat (length p) :: u32) = unat (of_nat (length q) :: u32)" by simp
  then have "length p = length q" using assms(2,3) by (simp add: unat_of_nat)
  then show ?thesis using rest by simp
qed

lemma parts_inject:
  "concat (map part_bytes ps) = concat (map part_bytes qs) \<Longrightarrow> length ps = length qs
    \<Longrightarrow> list_all (\<lambda>p. length p < 2 ^ 32) ps \<Longrightarrow> list_all (\<lambda>p. length p < 2 ^ 32) qs \<Longrightarrow> ps = qs"
proof (induction ps arbitrary: qs)
  case (Cons p ps)
  then obtain q qs' where qs: "qs = q # qs'" by (cases qs) auto
  have "part_bytes p @ concat (map part_bytes ps) = part_bytes q @ concat (map part_bytes qs')"
    using Cons.prems(1) qs by simp
  then have "p = q \<and> concat (map part_bytes ps) = concat (map part_bytes qs')"
    using Cons.prems(3,4) qs by (intro part_bytes_inject) auto
  then show ?case using Cons qs by auto
qed simp

lemma identity_tag_inject: "identity_tag a = identity_tag b \<longleftrightarrow> a = b"
  by (cases a; cases b) auto

lemma identity_tag_length: "fst (identity_tag a) = fst (identity_tag b) \<Longrightarrow> length (snd (identity_tag a)) = length (snd (identity_tag b))"
  by (cases a; cases b) auto

text \<open>
  Identities do not collide before the hash. Two dependency identities whose parts stay below the
  length prefix's range are fed to the hasher as the same bytes only when they are the same identity.
\<close>

theorem identity_preimage_injective:
  assumes "identity_sized a" and "identity_sized b"
  shows "identity_preimage a = identity_preimage b \<longleftrightarrow> a = b"
proof
  assume eq: "identity_preimage a = identity_preimage b"
  obtain s ps where a: "identity_tag a = (s, ps)" by (cases "identity_tag a")
  obtain t qs where b: "identity_tag b = (t, qs)" by (cases "identity_tag b")
  have tag: "s = t" and parts: "concat (map part_bytes ps) = concat (map part_bytes qs)"
    using eq a b by (simp_all add: identity_preimage_def)
  have "ps = qs"
    using parts_inject [OF parts] identity_tag_length [of a b] tag a b assms by (simp add: identity_sized_def)
  then show "a = b" using tag a b identity_tag_inject [of a b] by simp
qed simp

lemma identity_preimage_injective_witness:
  "identity_preimage (DiRecord ''ab'' [99]) \<noteq> identity_preimage (DiRecord ''a'' [98, 99])"
  using identity_preimage_injective [of "DiRecord ''ab'' [99]" "DiRecord ''a'' [98, 99]"]
  by (simp add: identity_sized_def text_bytes_def)

end
