(* ===== verification/Render_Hex.thy ===== *)
theory Render_Hex
  imports Render_Generation_Claims
begin

unbundle bit_operations_syntax

text \<open>
  The hexadecimal form of a digest: every digest has exactly one accepted spelling, and a generation set
  survives its serialized form.
\<close>

lemma hex_value_iff: "hex_value c = Some n \<longleftrightarrow> n < 16 \<and> c = hex_digit n"
proof
  assume "hex_value c = Some n"
  then obtain k where k: "n = of_nat k" "k < 10 \<and> char_code c = k + 48 \<or> 10 \<le> k \<and> k < 16 \<and> char_code c = k + 87"
    by (auto simp: hex_value_def Let_def split: if_splits intro: that [of "char_code c - 48"] that [of "char_code c - 87"])
  then have "unat n = k" by (auto simp: unat_of_nat)
  moreover have "c = char_of (char_code c)" by (simp add: char_code_def)
  ultimately show "n < 16 \<and> c = hex_digit n" using k(2)
    by (auto simp: hex_digit_def word_less_nat_alt)
next
  assume n: "n < 16 \<and> c = hex_digit n"
  then have "unat n < 16" by (simp add: word_less_nat_alt)
  then have "char_code c = (if n < 10 then unat n + 48 else unat n + 87)"
    using n by (simp add: hex_digit_def char_code_def)
  then show "hex_value c = Some n" using \<open>unat n < 16\<close>
    by (auto simp: hex_value_def Let_def word_less_nat_alt)
qed

lemma nibble_join:
  assumes "h < (16 :: u8)" "l < 16"
  shows "drop_bit 4 (push_bit 4 h OR l) = h" "(push_bit 4 h OR l) AND 15 = l"
proof -
  have "15 = (mask 4 :: u8)" by (simp add: mask_eq_exp_minus_1)
  then have low: "x AND 15 = take_bit 4 x" for x :: u8 by (simp add: take_bit_eq_mask)
  have "take_bit 4 h = h" "take_bit 4 l = l"
    using assms by (simp_all add: take_bit_eq_self_iff_drop_bit_eq_0 drop_bit_eq_div word_less_nat_alt div_word_less
      flip: word_less_nat_alt)
  then have bits: "bit h n \<Longrightarrow> n < 4" "bit l n \<Longrightarrow> n < 4" for n
    by (metis bit_take_bit_iff not_le)+
  show "drop_bit 4 (push_bit 4 h OR l) = h"
    by (rule bit_word_eqI) (use bits in \<open>fastforce simp: bit_simps\<close>)
  show "(push_bit 4 h OR l) AND 15 = l"
    unfolding low by (rule bit_word_eqI) (use bits in \<open>fastforce simp: bit_simps\<close>)
qed

lemma nibble_split: "push_bit 4 (drop_bit 4 b) OR (b AND 15) = (b :: u8)" "drop_bit 4 b < (16 :: u8)" "b AND 15 < (16 :: u8)"
proof -
  have "15 = (mask 4 :: u8)" by (simp add: mask_eq_exp_minus_1)
  then have low: "b AND 15 = take_bit 4 b" by (simp add: take_bit_eq_mask)
  show "push_bit 4 (drop_bit 4 b) OR (b AND 15) = b"
    unfolding low by (rule bit_word_eqI) (auto simp: bit_simps)
  have "unat b < 256" using unsigned_less [of b] by simp
  then have "unat b div 16 < 16" by linarith
  then show "drop_bit 4 b < (16 :: u8)" by (simp add: word_less_nat_alt drop_bit_eq_div unat_div)
  show "b AND 15 < (16 :: u8)"
    unfolding low by (simp add: word_less_nat_alt unsigned_take_bit_eq take_bit_eq_mod unat_mod)
qed

lemma to_hex_simps [simp]:
  "to_hex [] = []" "to_hex (b # d) = hex_digit (drop_bit 4 b) # hex_digit (b AND 15) # to_hex d"
  by (simp_all add: to_hex_def)

lemma hex_pairs_iff: "even (length s) \<Longrightarrow> hex_pairs s = Some d \<longleftrightarrow> s = to_hex d"
proof (induction s arbitrary: d rule: induct_list012)
  case (3 h l rest)
  show ?case
  proof
    assume "hex_pairs (h # l # rest) = Some d"
    then obtain high low ds where "hex_value h = Some high" "hex_value l = Some low" "hex_pairs rest = Some ds"
      "d = (push_bit 4 high OR low) # ds" by (auto simp: bind_eq_Some_conv)
    moreover from this have "rest = to_hex ds" using 3(1) [of ds] 3(3) by simp
    ultimately show "h # l # rest = to_hex d"
      using nibble_join [of high low] by (simp only: hex_value_iff to_hex_simps)
  next
    assume eq: "h # l # rest = to_hex d"
    then obtain b ds where d: "d = b # ds" by (cases d) auto
    then have "hex_pairs rest = Some ds" using 3 eq by simp
    moreover have "hex_value h = Some (drop_bit 4 b)" "hex_value l = Some (b AND 15)"
      using eq d nibble_split(2,3) [of b] by (simp_all add: hex_value_iff)
    ultimately show "hex_pairs (h # l # rest) = Some d" using d nibble_split(1) [of b] by simp
  qed
next
  case 1
  show ?case by (cases d) auto
next
  case (2 c)
  then show ?case by simp
qed

lemma to_hex_length [simp]: "length (to_hex d) = 2 * length d"
  by (induction d) simp_all

lemma from_hex_iff: "from_hex text = Some d \<longleftrightarrow> length d = 32 \<and> text = to_hex d"
  by (cases "length text = 64") (auto simp: from_hex_def hex_pairs_iff)

lemma to_hex_inject: "length d = 32 \<Longrightarrow> length e = 32 \<Longrightarrow> to_hex d = to_hex e \<longleftrightarrow> d = e"
  using from_hex_iff [of "to_hex d" d] from_hex_iff [of "to_hex d" e] by auto

subsection \<open>The serialized form of a generation set\<close>

lemma bt_collect_inserts: "bt_collect ms = foldl (\<lambda>m x. bt_insert (fst x) (snd x) m) [] ms"
  by (simp add: bt_collect_def case_prod_unfold)

lemma foldl_bt_insert:
  "bt_sorted acc \<Longrightarrow> distinct (map fst ms)
    \<Longrightarrow> bt_sorted (foldl (\<lambda>m x. bt_insert (fst x) (snd x) m) acc ms)
      \<and> (\<forall>k. map_of (foldl (\<lambda>m x. bt_insert (fst x) (snd x) m) acc ms) k
            = (case map_of ms k of None \<Rightarrow> map_of acc k | Some v \<Rightarrow> Some v))"
proof (induction ms arbitrary: acc)
  case (Cons x ms)
  have "map_of ms (fst x) = None" using Cons.prems(2) by (simp add: map_of_eq_None_iff)
  then show ?case using Cons.IH [of "bt_insert (fst x) (snd x) acc"] Cons.prems
    by (auto split: option.split)
qed simp

lemma bt_sorted_ext:
  assumes "bt_sorted m" "bt_sorted m'" "map_of m = map_of m'"
  shows "m = m'"
proof -
  have list: "map (\<lambda>k. (k, the (map_of n k))) (map fst n) = n" if "bt_sorted n" for n :: "('a \<times> 'b) list"
    using map_of_bt_iff [OF that] by (auto simp: comp_def intro!: map_idI) (metis option.sel)
  have "fst ` set m = fst ` set m'" using assms(3) by (metis dom_map_of_conv_image_fst)
  then have "map fst m = map fst m'"
    using assms(1,2) by (intro strict_sorted_equal) (auto simp: bt_sorted_def)
  then show ?thesis using list [OF assms(1)] list [OF assms(2)] assms(3) by metis
qed

lemma map_of_to_hex:
  assumes "\<forall>d \<in> fst ` set s. length d = 32" "length d = 32"
  shows "map_of (map (apfst to_hex) s) (to_hex d) = map_of s d"
  using assms by (induction s) (auto simp: to_hex_inject)

lemma deserialize_entries_ok:
  "bt_sorted acc \<Longrightarrow> distinct (map fst es) \<Longrightarrow> \<forall>k \<in> fst ` set es. \<exists>d. length d = 32 \<and> k = to_hex d
    \<Longrightarrow> \<exists>r. deserialize_entries es acc = Some r \<and> bt_sorted r
      \<and> (\<forall>d. map_of r d = (if length d = 32 \<and> map_of es (to_hex d) \<noteq> None then map_of es (to_hex d) else map_of acc d))"
proof (induction es arbitrary: acc)
  case (Cons x es)
  obtain k g where x: "x = (k, g)" by (cases x)
  obtain d where d: "length d = 32" "k = to_hex d" using Cons.prems(3) x by auto
  have none: "map_of es (to_hex d) = None" using Cons.prems(2) x d by (simp add: map_of_eq_None_iff)
  obtain r where "deserialize_entries es (bt_insert d g acc) = Some r" "bt_sorted r"
    "\<forall>e. map_of r e = (if length e = 32 \<and> map_of es (to_hex e) \<noteq> None then map_of es (to_hex e)
        else map_of (bt_insert d g acc) e)"
    using Cons.IH [of "bt_insert d g acc"] Cons.prems by auto
  then show ?case using Cons.prems(1) x d none from_hex_iff [of k d]
    by (intro exI [of _ r]) (auto simp: to_hex_inject)
qed simp

text \<open>
  Digests and generation sets survive their stored spelling. A text is accepted as a digest exactly
  when it is the 64 lower-case hexadecimal characters written for 32 bytes, so a digest has one spelling;
  and a generation set over 32-byte digests is read back from its serialized map as it was.
\<close>

theorem generation_set_round_trip:
  assumes "bt_sorted s" and "\<forall>d \<in> fst ` set s. length d = 32"
  shows "deserialize_set (serialize_set s) = Some s
    \<and> (\<forall>spelling d. from_hex spelling = Some d \<longleftrightarrow> length d = 32 \<and> spelling = to_hex d)"
proof -
  let ?ms = "map (apfst to_hex) s"
  have "inj_on to_hex (fst ` set s)" using assms(2) by (auto simp: inj_on_def to_hex_inject)
  then have "distinct (map to_hex (map fst s))"
    using bt_sorted_distinct [OF assms(1)] by (simp only: distinct_map set_map)
  moreover have "map fst ?ms = map to_hex (map fst s)" by simp
  ultimately have dist: "distinct (map fst ?ms)" by simp
  have ser: "bt_sorted (serialize_set s)" "\<And>k. map_of (serialize_set s) k = map_of ?ms k"
    using foldl_bt_insert [of "[]" ?ms] dist by (auto simp: serialize_set_def bt_collect_inserts split: option.split)
  have keys: "fst ` set (serialize_set s) = fst ` set ?ms"
    using ser(2) by (metis dom_map_of_conv_image_fst ext)
  then have "\<forall>k \<in> fst ` set (serialize_set s). \<exists>d. length d = 32 \<and> k = to_hex d" using assms(2) by force
  then obtain r where r: "deserialize_set (serialize_set s) = Some r" "bt_sorted r"
    "\<forall>d. map_of r d = (if length d = 32 \<and> map_of ?ms (to_hex d) \<noteq> None then map_of ?ms (to_hex d) else map_of [] d)"
    using deserialize_entries_ok [of "[]" "serialize_set s"] bt_sorted_distinct [OF ser(1)]
    by (auto simp: deserialize_set_def ser(2))
  have "map_of r = map_of s"
  proof
    fix d
    have "length d \<noteq> 32 \<Longrightarrow> map_of s d = None" using assms(2) by (auto simp: map_of_eq_None_iff)
    then show "map_of r d = map_of s d" using r(3) map_of_to_hex [OF assms(2), of d] by auto
  qed
  then have "r = s" by (rule bt_sorted_ext [OF r(2) assms(1)])
  then show ?thesis using r(1) from_hex_iff by blast
qed

definition ex_render_digest :: digest where "ex_render_digest = replicate 31 0 @ [171]"

lemma generation_set_round_trip_witness:
  "deserialize_set (serialize_set [(ex_render_digest, 7)]) = Some [(ex_render_digest, 7)]"
  using generation_set_round_trip [of "[(ex_render_digest, 7)]"] by (simp add: ex_render_digest_def)

end
