(* ===== verification/Render_Variance.thy ===== *)
theory Render_Variance
  imports Render_Generation
begin

text \<open>
  Variance: \<open>render_cache/variance.rs\<close>. Private material is the 32 bytes the key ring's MAC gave for
  it; a descriptor is the sorted map from dimension to value. \<open>classify\<close> narrows a declared class by
  what a render observed.
\<close>

definition max_dimension_value_bytes :: usize where "max_dimension_value_bytes = 256"
definition max_dimensions :: usize where "max_dimensions = 24"

subsection \<open>Classes\<close>

text \<open>\<open>RepresentationClass\<close> of \<open>render_cache/policy.rs\<close>, from the widest sharing to the narrowest.\<close>

datatype representation_class = PublicShared | PublicShellStitched | PrivateCached | Uncacheable

fun class_rank :: "representation_class \<Rightarrow> nat" where
  "class_rank PublicShared = 0"
| "class_rank PublicShellStitched = 1"
| "class_rank PrivateCached = 2"
| "class_rank Uncacheable = 3"

instantiation representation_class :: linorder
begin

definition less_eq_representation_class :: "representation_class \<Rightarrow> representation_class \<Rightarrow> bool" where
  "a \<le> b \<longleftrightarrow> class_rank a \<le> class_rank b"

definition less_representation_class :: "representation_class \<Rightarrow> representation_class \<Rightarrow> bool" where
  "a < b \<longleftrightarrow> class_rank a < class_rank b"

instance
proof
  fix a b c :: representation_class
  show "(a < b) = (a \<le> b \<and> \<not> b \<le> a)"
    by (auto simp: less_eq_representation_class_def less_representation_class_def)
  show "a \<le> a" by (simp add: less_eq_representation_class_def)
  show "a \<le> c" if "a \<le> b" "b \<le> c" using that by (simp add: less_eq_representation_class_def)
  show "a = b" if "a \<le> b" "b \<le> a"
    using that by (cases a; cases b) (simp_all add: less_eq_representation_class_def)
  show "a \<le> b \<or> b \<le> a" by (auto simp: less_eq_representation_class_def)
qed

end

definition narrowest :: "representation_class \<Rightarrow> representation_class \<Rightarrow> representation_class" where
  "narrowest a b = max a b"

subsection \<open>Dimensions\<close>

datatype variance_dimension =
    VdHost | VdLocale | VdMedia | VdEncoding | VdInertia | VdInertiaPartial | VdInertiaVersion
  | VdInertiaProtocol | VdTenant | VdPrincipal | VdFeatureVersion | VdConfigVersion | VdApplication string

fun vary_header :: "variance_dimension \<Rightarrow> string option" where
  "vary_header VdLocale = Some ''Accept-Language''"
| "vary_header VdMedia = Some ''Accept''"
| "vary_header VdEncoding = Some ''Accept-Encoding''"
| "vary_header VdInertia = Some ''X-Inertia''"
| "vary_header VdInertiaPartial =
     Some ''X-Inertia-Partial-Data, X-Inertia-Partial-Except, X-Inertia-Partial-Component''"
| "vary_header VdInertiaVersion = Some ''X-Inertia-Version''"
| "vary_header VdInertiaProtocol =
     Some ''X-Inertia-Except-Once-Props, X-Inertia-Reset, X-Inertia-Error-Bag, X-Inertia-Infinite-Scroll-Merge-Intent''"
| "vary_header _ = None"

fun canonical_name_pieces :: "variance_dimension \<Rightarrow> string \<times> string" where
  "canonical_name_pieces VdHost = (''host'', '''')"
| "canonical_name_pieces VdLocale = (''locale'', '''')"
| "canonical_name_pieces VdMedia = (''media'', '''')"
| "canonical_name_pieces VdEncoding = (''encoding'', '''')"
| "canonical_name_pieces VdInertia = (''inertia'', '''')"
| "canonical_name_pieces VdInertiaPartial = (''inertia_partial'', '''')"
| "canonical_name_pieces VdInertiaVersion = (''inertia_version'', '''')"
| "canonical_name_pieces VdInertiaProtocol = (''inertia_protocol'', '''')"
| "canonical_name_pieces VdTenant = (''tenant'', '''')"
| "canonical_name_pieces VdPrincipal = (''principal'', '''')"
| "canonical_name_pieces VdFeatureVersion = (''feature_version'', '''')"
| "canonical_name_pieces VdConfigVersion = (''config_version'', '''')"
| "canonical_name_pieces (VdApplication name) = (''app:'', name)"

definition dimension_name :: "variance_dimension \<Rightarrow> string" where
  "dimension_name d = fst (canonical_name_pieces d) @ snd (canonical_name_pieces d)"

text \<open>The \<open>Deserialize\<close> impl; \<open>Serialize\<close> writes \<open>dimension_name\<close>.\<close>

definition dimension_of_name :: "string \<Rightarrow> variance_dimension option" where
  "dimension_of_name s =
     (if s = ''host'' then Some VdHost
      else if s = ''locale'' then Some VdLocale
      else if s = ''media'' then Some VdMedia
      else if s = ''encoding'' then Some VdEncoding
      else if s = ''inertia'' then Some VdInertia
      else if s = ''inertia_partial'' then Some VdInertiaPartial
      else if s = ''inertia_version'' then Some VdInertiaVersion
      else if s = ''inertia_protocol'' then Some VdInertiaProtocol
      else if s = ''tenant'' then Some VdTenant
      else if s = ''principal'' then Some VdPrincipal
      else if s = ''feature_version'' then Some VdFeatureVersion
      else if s = ''config_version'' then Some VdConfigVersion
      else if take 4 s = ''app:'' \<and> drop 4 s \<noteq> [] then Some (VdApplication (drop 4 s))
      else None)"

text \<open>The derived order.\<close>

fun dimension_rank :: "variance_dimension \<Rightarrow> nat \<times> u8 list" where
  "dimension_rank VdHost = (0, [])"
| "dimension_rank VdLocale = (1, [])"
| "dimension_rank VdMedia = (2, [])"
| "dimension_rank VdEncoding = (3, [])"
| "dimension_rank VdInertia = (4, [])"
| "dimension_rank VdInertiaPartial = (5, [])"
| "dimension_rank VdInertiaVersion = (6, [])"
| "dimension_rank VdInertiaProtocol = (7, [])"
| "dimension_rank VdTenant = (8, [])"
| "dimension_rank VdPrincipal = (9, [])"
| "dimension_rank VdFeatureVersion = (10, [])"
| "dimension_rank VdConfigVersion = (11, [])"
| "dimension_rank (VdApplication n) = (12, text_bytes n)"

lemma dimension_rank_inject: "dimension_rank a = dimension_rank b \<longleftrightarrow> a = b"
  by (cases a; cases b; simp)

instantiation variance_dimension :: linorder
begin

definition less_eq_variance_dimension :: "variance_dimension \<Rightarrow> variance_dimension \<Rightarrow> bool" where
  "a \<le> b \<longleftrightarrow> dimension_rank a \<le> dimension_rank b"

definition less_variance_dimension :: "variance_dimension \<Rightarrow> variance_dimension \<Rightarrow> bool" where
  "a < b \<longleftrightarrow> dimension_rank a < dimension_rank b"

instance
proof
  fix a b c :: variance_dimension
  show "(a < b) = (a \<le> b \<and> \<not> b \<le> a)"
    by (simp add: less_eq_variance_dimension_def less_variance_dimension_def less_le_not_le)
  show "a \<le> a" by (simp add: less_eq_variance_dimension_def)
  show "a \<le> c" if "a \<le> b" "b \<le> c" using that unfolding less_eq_variance_dimension_def by (rule order_trans)
  show "a = b" if "a \<le> b" "b \<le> a"
  proof -
    have "dimension_rank a = dimension_rank b"
      using that unfolding less_eq_variance_dimension_def by (rule order_antisym)
    then show ?thesis by (simp only: dimension_rank_inject)
  qed
  show "a \<le> b \<or> b \<le> a" unfolding less_eq_variance_dimension_def by (rule linear)
qed

end

subsection \<open>Descriptors\<close>

datatype dimension_value = DvPublic string | DvPrivate "u8 list" | DvAnonymous

type_synonym variance_descriptor = "(variance_dimension \<times> dimension_value) list"

definition application_name_ok :: "string \<Rightarrow> bool" where
  "application_name_ok name \<longleftrightarrow> name \<noteq> [] \<and> length name \<le> 64
     \<and> list_all (\<lambda>b. is_ascii_lowercase b \<or> is_ascii_digit b \<or> b = CHR ''_'') name"

definition variance_declare ::
  "variance_dimension \<Rightarrow> dimension_value \<Rightarrow> variance_descriptor \<Rightarrow> render_error + variance_descriptor" where
  "variance_declare d v m =
     (if max_dimensions \<le> length m then Inl VarianceInvalid
      else if (case d of VdApplication name \<Rightarrow> \<not> application_name_ok name | _ \<Rightarrow> False) then Inl VarianceInvalid
      else if (case v of DvPublic s \<Rightarrow> max_dimension_value_bytes < length s \<or> list_ex is_ascii_control s | _ \<Rightarrow> False)
      then Inl VarianceInvalid
      else if map_of m d \<noteq> None then Inl VarianceInvalid
      else Inr (bt_insert d v m))"

text \<open>\<open>split(", ")\<close>, and \<open>dedup\<close> on a sorted list.\<close>

fun split_comma_space :: "string \<Rightarrow> string list" where
  "split_comma_space [] = [[]]"
| "split_comma_space [c] = [[c]]"
| "split_comma_space (c # d # s) =
     (if c = CHR '','' \<and> d = CHR '' '' then [] # split_comma_space s
      else case split_comma_space (d # s) of x # xs \<Rightarrow> (c # x) # xs | [] \<Rightarrow> [[c]])"

definition vary_headers :: "variance_descriptor \<Rightarrow> string list" where
  "vary_headers m = remdups_adj (sort (concat (map (\<lambda>(d, _).
     case vary_header d of Some h \<Rightarrow> split_comma_space h | None \<Rightarrow> []) m)))"

definition dimension_value_bytes :: "dimension_value \<Rightarrow> u8 list" where
  "dimension_value_bytes v = (case v of
     DvPublic s \<Rightarrow> [1] @ u32_be_bytes (of_nat (length s)) @ text_bytes s
   | DvPrivate material \<Rightarrow> [2] @ material
   | DvAnonymous \<Rightarrow> [3])"

definition dimension_bytes :: "variance_dimension \<times> dimension_value \<Rightarrow> u8 list" where
  "dimension_bytes x =
     u32_be_bytes (of_nat (length (dimension_name (fst x)))) @ text_bytes (dimension_name (fst x))
     @ dimension_value_bytes (snd x)"

definition canonical_bytes :: "variance_descriptor \<Rightarrow> u8 list" where
  "canonical_bytes m = concat (map dimension_bytes m)"

definition canonical_len :: "variance_descriptor \<Rightarrow> usize" where
  "canonical_len m = sum_list (map (\<lambda>(d, v). 4 + length (fst (canonical_name_pieces d))
       + length (snd (canonical_name_pieces d))
       + (case v of DvPublic s \<Rightarrow> 1 + 4 + length s | DvPrivate material \<Rightarrow> 1 + length material | DvAnonymous \<Rightarrow> 1)) m)"

subsection \<open>Private material\<close>

text \<open>
  The key ring's MAC over length-prefixed parts is the parameter \<open>mac\<close>; \<open>expect\<close> on it panics.
\<close>

definition derive_material :: "(u8 list list \<Rightarrow> u8 list option) \<Rightarrow> string \<Rightarrow> u8 list list \<Rightarrow> u8 list option" where
  "derive_material mac label parts = mac (text_bytes label # parts)"

definition principal_material :: "(u8 list list \<Rightarrow> u8 list option) \<Rightarrow> string \<Rightarrow> u64 \<Rightarrow> u8 list option" where
  "principal_material mac internal_id permission_version =
     derive_material mac ''suprnova-live/render-variance/principal/v1''
       [text_bytes internal_id, u64_be_bytes permission_version]"

definition tenant_material :: "(u8 list list \<Rightarrow> u8 list option) \<Rightarrow> string \<Rightarrow> u8 list option" where
  "tenant_material mac internal_id =
     derive_material mac ''suprnova-live/render-variance/tenant/v1'' [text_bytes internal_id]"

subsection \<open>Classification\<close>

datatype authorization_consult = AcNone | AcTenantOnly | AcPrincipal

fun consult_join :: "authorization_consult \<Rightarrow> authorization_consult \<Rightarrow> authorization_consult" where
  "consult_join AcPrincipal _ = AcPrincipal"
| "consult_join _ AcPrincipal = AcPrincipal"
| "consult_join AcTenantOnly _ = AcTenantOnly"
| "consult_join _ AcTenantOnly = AcTenantOnly"
| "consult_join AcNone AcNone = AcNone"

record observed_context =
  oc_principal :: "u8 list option"
  oc_tenant :: "u8 list option"
  oc_session_read :: bool
  oc_authorization :: authorization_consult
  oc_secret_context_read :: bool
  oc_undeclared_reads :: "string list"

datatype classification_reason =
    PrincipalObserved | TenantObserved | SessionValueRead | AuthorizationRead | AuthorizationTenantRead
  | SecretContextRead | UndeclaredContext

record classification_outcome =
  cl_class :: representation_class
  cl_reasons :: "classification_reason list"

text \<open>The \<open>narrow\<close> closure.\<close>

definition narrow_to ::
  "representation_class \<Rightarrow> classification_reason \<Rightarrow> classification_outcome \<Rightarrow> classification_outcome" where
  "narrow_to to reason out =
     (let next_class = narrowest (cl_class out) to in
      out\<lparr>cl_class := (if next_class \<noteq> cl_class out \<or> (to = Uncacheable \<and> cl_class out \<noteq> Uncacheable)
                      then next_class else cl_class out),
          cl_reasons := cl_reasons out @ [reason]\<rparr>)"

definition classify :: "representation_class \<Rightarrow> observed_context \<Rightarrow> classification_outcome" where
  "classify declared observed =
     (let o0 = \<lparr>cl_class = declared, cl_reasons = []\<rparr>;
          o1 = (if oc_principal observed \<noteq> None then narrow_to PrivateCached PrincipalObserved o0 else o0);
          o2 = (if oc_tenant observed \<noteq> None then narrow_to PrivateCached TenantObserved o1 else o1);
          o3 = (if oc_session_read observed then narrow_to Uncacheable SessionValueRead o2 else o2);
          o4 = (case oc_authorization observed of
                  AcNone \<Rightarrow> o3
                | AcTenantOnly \<Rightarrow> narrow_to PrivateCached AuthorizationTenantRead o3
                | AcPrincipal \<Rightarrow> narrow_to PrivateCached AuthorizationRead o3);
          o5 = (if oc_secret_context_read observed then narrow_to Uncacheable SecretContextRead o4 else o4)
      in (if oc_undeclared_reads observed \<noteq> [] then narrow_to Uncacheable UndeclaredContext o5 else o5))"

end
