(* ===== verification/Render_Policy.thy ===== *)
theory Render_Policy
  imports Render_Variance
begin

text \<open>
  Route policy, storage eligibility, freshness and cache metadata: \<open>render_cache/policy.rs\<close>,
  \<open>render_cache/coherence.rs\<close> and \<open>render_cache/http.rs\<close>. \<open>NegotiatedPolicy::negotiate\<close> reads a
  floating-point quality and is left out; its declared set is here.
\<close>

definition max_interval_ms :: u64 where "max_interval_ms = 2678400000"
definition max_declared_query :: usize where "max_declared_query = 32"
definition max_negotiated_values :: usize where "max_negotiated_values = 16"
definition max_negotiated_value_bytes :: usize where "max_negotiated_value_bytes = 128"

subsection \<open>Text of the standard library\<close>

text \<open>\<open>split(',')\<close>.\<close>

fun split_comma :: "string \<Rightarrow> string list" where
  "split_comma [] = [[]]"
| "split_comma (c # s) =
     (if c = CHR '','' then [] # split_comma s
      else case split_comma s of x # xs \<Rightarrow> (c # x) # xs | [] \<Rightarrow> [[c]])"

text \<open>The UTF-8 spellings of the characters with the \<open>White_Space\<close> property.\<close>

definition white_spaces :: "string list" where
  "white_spaces = map (map (char_of :: nat \<Rightarrow> char))
     ([[9], [10], [11], [12], [13], [32], [194, 133], [194, 160], [225, 154, 128]]
      @ map (\<lambda>n. [226, 128, n]) ([128, 129, 130, 131, 132, 133, 134, 135, 136, 137, 138] @ [168, 169, 175])
      @ [[226, 129, 159], [227, 128, 128]])"

text \<open>The text after a leading member of \<open>ws\<close>.\<close>

definition strip_one :: "string list \<Rightarrow> string \<Rightarrow> string option" where
  "strip_one ws s = map_option (\<lambda>w. drop (length w) s) (List.find (\<lambda>w. w \<noteq> [] \<and> take (length w) s = w) ws)"

lemma strip_one_length: "strip_one ws s = Some s' \<Longrightarrow> length s' < length s"
proof -
  assume "strip_one ws s = Some s'"
  then obtain w where "w \<noteq> []" "take (length w) s = w" "s' = drop (length w) s"
    by (auto simp: strip_one_def find_Some_iff)
  moreover from this have "length w \<le> length s" by (metis length_take min.cobounded1)
  moreover from calculation have "0 < length w" by simp
  moreover from calculation have "length s' = length s - length w" by simp
  ultimately show "length s' < length s" by linarith
qed

function trim_start :: "string list \<Rightarrow> string \<Rightarrow> string" where
  "trim_start ws s = (case strip_one ws s of None \<Rightarrow> s | Some s' \<Rightarrow> trim_start ws s')"
  by pat_completeness auto
termination
  by (relation "measure (length \<circ> snd)") (auto dest: strip_one_length)

declare trim_start.simps [simp del]

definition str_trim :: "string \<Rightarrow> string" where
  "str_trim s = rev (trim_start (map rev white_spaces) (rev (trim_start white_spaces s)))"

definition to_ascii_lowercase :: "string \<Rightarrow> string" where
  "to_ascii_lowercase s = map (\<lambda>c. if is_ascii_uppercase c then char_of (char_code c + 32) else c) s"

definition eq_ignore_ascii_case :: "string \<Rightarrow> string \<Rightarrow> bool" where
  "eq_ignore_ascii_case a b \<longleftrightarrow> to_ascii_lowercase a = to_ascii_lowercase b"

subsection \<open>Freshness\<close>

record freshness_policy =
  fp_fresh_ms :: u64
  fp_stale_servable_ms :: u64
  fp_stale_on_error_ms :: u64

definition freshness_policy_new :: "u64 \<Rightarrow> u64 \<Rightarrow> u64 \<Rightarrow> render_error + freshness_policy" where
  "freshness_policy_new fresh_ms stale_servable_ms stale_on_error_ms =
     (if list_ex (\<lambda>v. max_interval_ms < v) [fresh_ms, stale_servable_ms, stale_on_error_ms] then Inl PolicyInvalid
      else Inr \<lparr>fp_fresh_ms = fresh_ms, fp_stale_servable_ms = stale_servable_ms,
                fp_stale_on_error_ms = stale_on_error_ms\<rparr>)"

definition dead_after_ms :: "freshness_policy \<Rightarrow> representation_class \<Rightarrow> u64" where
  "dead_after_ms p c =
     (if c = PrivateCached then fp_fresh_ms p
      else saturating_add_u64 (fp_fresh_ms p)
        (if fp_stale_on_error_ms p < fp_stale_servable_ms p then fp_stale_servable_ms p else fp_stale_on_error_ms p))"

datatype freshness_state = Fresh | StaleServable | StaleOnError | Dead

text \<open>\<open>past_fresh\<close> is a plain subtraction; it is reached only when the age is at least the fresh interval.\<close>

definition evaluate_freshness ::
  "freshness_policy \<Rightarrow> representation_class \<Rightarrow> u64 \<Rightarrow> u64 \<Rightarrow> u64 option \<Rightarrow> freshness_state" where
  "evaluate_freshness p c published_at_ms now_ms seed_deadline_ms =
     (if (case seed_deadline_ms of Some deadline \<Rightarrow> deadline \<le> now_ms | None \<Rightarrow> False) then Dead
      else let age = saturating_sub_u64 now_ms published_at_ms in
        if age < fp_fresh_ms p then Fresh
        else if dead_after_ms p c \<le> age then Dead
        else if age - fp_fresh_ms p < fp_stale_servable_ms p then StaleServable
        else StaleOnError)"

definition age_seconds :: "u64 \<Rightarrow> u64 \<Rightarrow> u64" where
  "age_seconds published_at_ms now_ms = saturating_sub_u64 now_ms published_at_ms div 1000"

fun warning_header :: "freshness_state \<Rightarrow> string option" where
  "warning_header StaleServable = Some (''110 - '' @ [char_of (34 :: nat)] @ ''Response is Stale'' @ [char_of (34 :: nat)])"
| "warning_header StaleOnError = Some (''110 - '' @ [char_of (34 :: nat)] @ ''Response is Stale'' @ [char_of (34 :: nat)])"
| "warning_header Fresh = None"
| "warning_header Dead = None"

record validation_lease =
  vl_granted_at :: u64
  vl_expires_at :: u64

definition validation_lease_grant :: "u64 \<Rightarrow> u64 \<Rightarrow> validation_lease" where
  "validation_lease_grant now_ms max_age_ms =
     \<lparr>vl_granted_at = now_ms, vl_expires_at = saturating_add_u64 now_ms max_age_ms\<rparr>"

definition validation_lease_valid_at :: "validation_lease \<Rightarrow> u64 \<Rightarrow> bool" where
  "validation_lease_valid_at l now_ms \<longleftrightarrow> vl_granted_at l \<le> now_ms \<and> now_ms < vl_expires_at l"

definition hint_invalidate :: "u64 \<Rightarrow> validation_lease \<Rightarrow> validation_lease" where
  "hint_invalidate at_ms l = l\<lparr>vl_expires_at := min (vl_expires_at l) at_ms\<rparr>"

subsection \<open>Policies\<close>

record storage_layers =
  sy_l0 :: bool
  sy_l1 :: bool

definition l0_only :: storage_layers where "l0_only = \<lparr>sy_l0 = True, sy_l1 = False\<rparr>"
definition l0_and_l1 :: storage_layers where "l0_and_l1 = \<lparr>sy_l0 = True, sy_l1 = True\<rparr>"

datatype coherence_mode = CmAuthority | CmLease u64
datatype shared_cache_policy = SharedPrivate | SMaxAge u32
datatype failure_policy = FailOpen | FailClosed
datatype query_unknown = QueryBypass

record query_policy =
  qp_declared :: "string list"
  qp_unknown :: query_unknown

definition query_policy_declared :: "string list \<Rightarrow> query_policy" where
  "query_policy_declared names = \<lparr>qp_declared = fold bs_insert names [], qp_unknown = QueryBypass\<rparr>"

definition query_policy_none :: query_policy where
  "query_policy_none = query_policy_declared []"

record negotiated_policy =
  np_accepted :: "string list"
  np_default :: string

definition negotiated_value_ok :: "string \<Rightarrow> bool" where
  "negotiated_value_ok v \<longleftrightarrow> v \<noteq> [] \<and> length v \<le> max_negotiated_value_bytes
     \<and> list_all (\<lambda>b. char_code b < 128 \<and> \<not> is_ascii_control b \<and> \<not> is_ascii_uppercase b) v"

definition negotiated_policy_declared :: "string list \<Rightarrow> string \<Rightarrow> render_error + negotiated_policy" where
  "negotiated_policy_declared values default_value =
     (let accepted = fold bs_insert values [] in
      if accepted = [] \<or> max_negotiated_values < length accepted then Inl PolicyInvalid
      else if \<not> list_all negotiated_value_ok accepted then Inl PolicyInvalid
      else if default_value \<notin> set accepted then Inl PolicyInvalid
      else Inr \<lparr>np_accepted = accepted, np_default = default_value\<rparr>)"

record render_cache_policy =
  rp_class :: representation_class
  rp_freshness :: freshness_policy
  rp_layers :: storage_layers
  rp_coherence :: coherence_mode
  rp_shared :: shared_cache_policy
  rp_failure :: failure_policy
  rp_query :: query_policy
  rp_vary :: "variance_dimension list"
  rp_media :: "negotiated_policy option"
  rp_encoding :: "negotiated_policy option"

text \<open>The builder's defaults; a builder is the policy it holds.\<close>

definition policy_builder :: "representation_class \<Rightarrow> render_cache_policy" where
  "policy_builder c = \<lparr>rp_class = c,
     rp_freshness = \<lparr>fp_fresh_ms = 0, fp_stale_servable_ms = 0, fp_stale_on_error_ms = 0\<rparr>,
     rp_layers = l0_only, rp_coherence = CmAuthority, rp_shared = SharedPrivate, rp_failure = FailOpen,
     rp_query = query_policy_none, rp_vary = [], rp_media = None, rp_encoding = None\<rparr>"

definition builder_vary :: "variance_dimension \<Rightarrow> render_cache_policy \<Rightarrow> render_cache_policy" where
  "builder_vary d p = p\<lparr>rp_vary := bs_insert d (rp_vary p)\<rparr>"

definition builder_vary_media :: "negotiated_policy \<Rightarrow> render_cache_policy \<Rightarrow> render_cache_policy" where
  "builder_vary_media n p = p\<lparr>rp_vary := bs_insert VdMedia (rp_vary p), rp_media := Some n\<rparr>"

definition builder_vary_encoding :: "negotiated_policy \<Rightarrow> render_cache_policy \<Rightarrow> render_cache_policy" where
  "builder_vary_encoding n p = p\<lparr>rp_vary := bs_insert VdEncoding (rp_vary p), rp_encoding := Some n\<rparr>"

definition policy_validate :: "render_cache_policy \<Rightarrow> render_error + unit" where
  "policy_validate p =
     (if max_declared_query < length (qp_declared (rp_query p)) then Inl PolicyInvalid
      else if (case rp_coherence p of CmLease max_age_ms \<Rightarrow> max_interval_ms < max_age_ms | _ \<Rightarrow> False)
      then Inl PolicyInvalid
      else if rp_class p = PrivateCached \<and> \<not> list_ex (\<lambda>d. d = VdPrincipal \<or> d = VdTenant) (rp_vary p)
      then Inl PolicyInvalid
      else if rp_class p = PublicShellStitched \<and> (case rp_shared p of SMaxAge _ \<Rightarrow> True | _ \<Rightarrow> False)
      then Inl PolicyInvalid
      else if (VdMedia \<in> set (rp_vary p)) \<noteq> (rp_media p \<noteq> None) then Inl PolicyInvalid
      else if (VdEncoding \<in> set (rp_vary p)) \<noteq> (rp_encoding p \<noteq> None) then Inl PolicyInvalid
      else Inr ())"

definition policy_build :: "render_cache_policy \<Rightarrow> render_error + render_cache_policy" where
  "policy_build p = and_then (policy_validate p) (\<lambda>_. Inr p)"

record policy_patch =
  pp_class :: "representation_class option"
  pp_freshness :: "freshness_policy option"
  pp_layers :: "storage_layers option"
  pp_coherence :: "coherence_mode option"
  pp_shared :: "shared_cache_policy option"
  pp_failure :: "failure_policy option"
  pp_query :: "query_policy option"
  pp_vary :: "variance_dimension list option"
  pp_media :: "negotiated_policy option"
  pp_encoding :: "negotiated_policy option"

text \<open>A field the patch names replaces the group's.\<close>

fun named :: "'a option \<Rightarrow> 'a \<Rightarrow> 'a" where
  "named (Some x) _ = x"
| "named None y = y"

definition policy_apply :: "policy_patch \<Rightarrow> render_cache_policy \<Rightarrow> render_error + render_cache_policy" where
  "policy_apply patch p =
     (if (case pp_class patch of Some c \<Rightarrow> c < rp_class p | None \<Rightarrow> False) then Inl PolicyInvalid
      else let drop_absent = (\<lambda>d x. case pp_vary patch of Some v \<Rightarrow> if d \<in> set v then x else None | None \<Rightarrow> x);
               next_policy = \<lparr>rp_class = named (pp_class patch) (rp_class p),
                 rp_freshness = named (pp_freshness patch) (rp_freshness p),
                 rp_layers = named (pp_layers patch) (rp_layers p),
                 rp_coherence = named (pp_coherence patch) (rp_coherence p),
                 rp_shared = named (pp_shared patch) (rp_shared p),
                 rp_failure = named (pp_failure patch) (rp_failure p),
                 rp_query = named (pp_query patch) (rp_query p),
                 rp_vary = named (pp_vary patch) (rp_vary p),
                 rp_media = (case pp_media patch of Some n \<Rightarrow> Some n | None \<Rightarrow> drop_absent VdMedia (rp_media p)),
                 rp_encoding = (case pp_encoding patch of Some n \<Rightarrow> Some n | None \<Rightarrow> drop_absent VdEncoding (rp_encoding p))\<rparr>
           in and_then (policy_validate next_policy) (\<lambda>_. Inr next_policy))"

subsection \<open>Eligibility of one response\<close>

record response_signals =
  rg_method :: string
  rg_status :: u16
  rg_streaming :: bool
  rg_sets_cookie :: bool
  rg_content_type :: "string option"
  rg_cache_control :: "string option"
  rg_header_names :: "string list"
  rg_private_observed :: bool

datatype decline_reason =
    DeclinePolicyUncacheable | DeclineMethod | DeclineStatus | DeclineStreaming | DeclineSetsCookie
  | DeclineUnsafeHeader | DeclineNoStore

datatype eligibility = Store representation_class | Decline decline_reason

definition unsafe_response_headers :: "string list" where
  "unsafe_response_headers = [''connection'', ''keep-alive'', ''proxy-authenticate'', ''proxy-authorization'',
     ''te'', ''trailer'', ''transfer-encoding'', ''upgrade'', ''set-cookie'']"

definition policy_eligibility :: "render_cache_policy \<Rightarrow> response_signals \<Rightarrow> eligibility" where
  "policy_eligibility p sig =
     (if rp_class p = Uncacheable then Decline DeclinePolicyUncacheable
      else if rg_method sig \<noteq> ''GET'' \<and> rg_method sig \<noteq> ''HEAD'' then Decline DeclineMethod
      else if rg_status sig \<noteq> 200 then Decline DeclineStatus
      else if rg_streaming sig then Decline DeclineStreaming
      else if rg_sets_cookie sig then Decline DeclineSetsCookie
      else if list_ex (\<lambda>name. to_ascii_lowercase name \<in> set unsafe_response_headers) (rg_header_names sig)
      then Decline DeclineUnsafeHeader
      else if (case rg_cache_control sig of
                 Some v \<Rightarrow> list_ex (\<lambda>directive. eq_ignore_ascii_case (str_trim directive) ''no-store'') (split_comma v)
               | None \<Rightarrow> False)
      then Decline DeclineNoStore
      else Store (if rg_private_observed sig then narrowest (rp_class p) PrivateCached else rp_class p))"

subsection \<open>HTTP metadata\<close>

datatype conditional_outcome = NotModified | Full

definition conditional_matches :: "string option \<Rightarrow> string \<Rightarrow> conditional_outcome" where
  "conditional_matches if_none_match etag =
     (case if_none_match of
        None \<Rightarrow> Full
      | Some header \<Rightarrow>
          if str_trim header = ''*'' then NotModified
          else if list_ex (\<lambda>candidate. candidate = etag) (map str_trim (split_comma header)) then NotModified
          else Full)"

definition cache_control_value ::
  "representation_class \<Rightarrow> shared_cache_policy \<Rightarrow> freshness_policy \<Rightarrow> u64 option \<Rightarrow> string" where
  "cache_control_value c shared freshness seed_remaining_ms =
     (case (c, shared) of
        (PublicShared, SMaxAge seconds) \<Rightarrow>
          (let max_age = (case seed_remaining_ms of
                 Some remaining \<Rightarrow> min (fp_fresh_ms freshness div 1000) (remaining div 1000)
               | None \<Rightarrow> fp_fresh_ms freshness div 1000);
               s_maxage = (case seed_remaining_ms of
                 Some remaining \<Rightarrow> min (ucast seconds) (remaining div 1000)
               | None \<Rightarrow> ucast seconds)
           in ''public, max-age='' @ nat_to_dec (unat max_age) @ '', s-maxage='' @ nat_to_dec (unat s_maxage))
      | _ \<Rightarrow> ''private, no-cache'')"

text \<open>\<open>join(", ")\<close>.\<close>

fun join_comma_space :: "string list \<Rightarrow> string" where
  "join_comma_space [] = []"
| "join_comma_space [x] = x"
| "join_comma_space (x # y # ys) = x @ '', '' @ join_comma_space (y # ys)"

definition vary_value :: "variance_descriptor \<Rightarrow> string option" where
  "vary_value m = (if vary_headers m = [] then None else Some (join_comma_space (vary_headers m)))"

end
