(* ===== verification/Render_Policy_Props.thy ===== *)
theory Render_Policy_Props
  imports Render_Policy
begin

text \<open>
  Sharing only ever narrows, from the group policy through a route patch, the observed context and the
  concrete response to the header a downstream cache sees; and freshness only decays.
\<close>

subsection \<open>Freshness\<close>

fun freshness_rank :: "freshness_state \<Rightarrow> nat" where
  "freshness_rank Fresh = 0"
| "freshness_rank StaleServable = 1"
| "freshness_rank StaleOnError = 2"
| "freshness_rank Dead = 3"

text \<open>The state as a function of the age in unbounded numbers.\<close>

definition freshness_of_age :: "freshness_policy \<Rightarrow> representation_class \<Rightarrow> nat \<Rightarrow> freshness_state" where
  "freshness_of_age p c age =
     (if age < unat (fp_fresh_ms p) then Fresh
      else if unat (dead_after_ms p c) \<le> age then Dead
      else if age < unat (fp_fresh_ms p) + unat (fp_stale_servable_ms p) then StaleServable
      else StaleOnError)"

lemma evaluate_freshness_age:
  "evaluate_freshness p c published now deadline =
     (if (\<exists>d. deadline = Some d \<and> d \<le> now) then Dead else freshness_of_age p c (unat now - unat published))"
proof -
  define age where "age = saturating_sub_u64 now published"
  have age: "unat age = unat now - unat published" by (simp add: age_def unat_saturating_sub_u64)
  have "\<not> age < fp_fresh_ms p \<Longrightarrow> unat (age - fp_fresh_ms p) = unat age - unat (fp_fresh_ms p)"
    by (simp add: unat_sub not_less)
  then have "\<not> age < fp_fresh_ms p \<Longrightarrow> age - fp_fresh_ms p < fp_stale_servable_ms p
      \<longleftrightarrow> unat age < unat (fp_fresh_ms p) + unat (fp_stale_servable_ms p)"
    by (auto simp: word_less_nat_alt)
  then show ?thesis
    by (auto simp: evaluate_freshness_def freshness_of_age_def Let_def age word_less_nat_alt word_le_nat_alt
        simp flip: age_def split: option.splits)
qed

lemma freshness_of_age_mono: "age \<le> age' \<Longrightarrow> freshness_rank (freshness_of_age p c age) \<le> freshness_rank (freshness_of_age p c age')"
  by (auto simp: freshness_of_age_def)

lemma dead_after_bound:
  assumes "freshness_policy_new f s e = Inr p"
  shows "unat (dead_after_ms p c) = (if c = PrivateCached then unat f else unat f + max (unat s) (unat e))"
proof -
  have b: "unat f \<le> 2678400000" "unat s \<le> 2678400000" "unat e \<le> 2678400000"
    and p: "fp_fresh_ms p = f" "fp_stale_servable_ms p = s" "fp_stale_on_error_ms p = e"
    using assms by (auto simp: freshness_policy_new_def max_interval_ms_def word_le_nat_alt word_less_nat_alt not_less split: if_splits)
  then show ?thesis
    by (auto simp: dead_after_ms_def unat_saturating_add_u64 word_less_nat_alt)
qed

text \<open>
  C38: freshness only decays, within its declared windows. Under a policy the constructor accepted, the
  state at a later time is never fresher; a representation is fresh exactly while its age is below the
  fresh interval and no seed deadline has passed; it is dead exactly when the deadline has passed or its
  age has reached the fresh interval plus the wider of the two stale windows, and a private
  representation is dead as soon as it is no longer fresh.
\<close>

theorem freshness_only_decays:
  assumes policy: "freshness_policy_new f s e = Inr p" and later: "now \<le> later"
  shows "freshness_rank (evaluate_freshness p c published now deadline)
      \<le> freshness_rank (evaluate_freshness p c published later deadline)
    \<and> (evaluate_freshness p c published now deadline = Fresh
         \<longleftrightarrow> (\<forall>d. deadline = Some d \<longrightarrow> now < d) \<and> unat now - unat published < unat f)
    \<and> (evaluate_freshness p c published now deadline = Dead
         \<longleftrightarrow> (\<exists>d. deadline = Some d \<and> d \<le> now)
             \<or> unat f + (if c = PrivateCached then 0 else max (unat s) (unat e)) \<le> unat now - unat published)"
proof (intro conjI)
  have p: "fp_fresh_ms p = f" using policy by (auto simp: freshness_policy_new_def split: if_splits)
  have dead: "unat (dead_after_ms p c) = unat f + (if c = PrivateCached then 0 else max (unat s) (unat e))"
    using dead_after_bound [OF policy] by simp
  let ?a = "unat now - unat published"
  have "?a \<le> unat later - unat published" using later by (simp add: word_le_nat_alt)
  then have "freshness_rank (freshness_of_age p c ?a) \<le> freshness_rank (freshness_of_age p c (unat later - unat published))"
    by (rule freshness_of_age_mono)
  moreover have "freshness_rank x \<le> 3" for x by (cases x) simp_all
  ultimately show "freshness_rank (evaluate_freshness p c published now deadline)
      \<le> freshness_rank (evaluate_freshness p c published later deadline)"
    using later by (auto simp: evaluate_freshness_age intro: order_trans)
  have fresh: "freshness_of_age p c a = Fresh \<longleftrightarrow> a < unat f" for a
    by (auto simp: freshness_of_age_def p)
  show "evaluate_freshness p c published now deadline = Fresh
      \<longleftrightarrow> (\<forall>d. deadline = Some d \<longrightarrow> now < d) \<and> ?a < unat f"
    by (auto simp: evaluate_freshness_age fresh not_le)
  have dead_age: "freshness_of_age p c a = Dead
      \<longleftrightarrow> unat f + (if c = PrivateCached then 0 else max (unat s) (unat e)) \<le> a" for a
    using dead by (auto simp: freshness_of_age_def p)
  show "evaluate_freshness p c published now deadline = Dead
      \<longleftrightarrow> (\<exists>d. deadline = Some d \<and> d \<le> now)
          \<or> unat f + (if c = PrivateCached then 0 else max (unat s) (unat e)) \<le> ?a"
    unfolding evaluate_freshness_age dead_age [symmetric] by auto
qed

definition ex_freshness :: freshness_policy where
  "ex_freshness = \<lparr>fp_fresh_ms = 100, fp_stale_servable_ms = 50, fp_stale_on_error_ms = 20\<rparr>"

lemma freshness_only_decays_witness:
  "freshness_rank (evaluate_freshness ex_freshness PublicShared 10 60 None)
     \<le> freshness_rank (evaluate_freshness ex_freshness PublicShared 10 170 None)
   \<and> evaluate_freshness ex_freshness PublicShared 10 60 None = Fresh"
proof -
  have "freshness_policy_new 100 50 20 = Inr ex_freshness"
    by (simp add: freshness_policy_new_def ex_freshness_def max_interval_ms_def)
  moreover have "(60 :: u64) \<le> 170" by simp
  ultimately show ?thesis using freshness_only_decays [of 100 50 20 ex_freshness 60 170] by simp
qed

subsection \<open>Sharing\<close>

lemma narrow_to_class [simp]: "cl_class (narrow_to t r out) = max (cl_class out) t"
  by (auto simp: narrow_to_def narrowest_def Let_def)

lemma narrow_to_reasons [simp]: "cl_reasons (narrow_to t r out) = cl_reasons out @ [r]"
  by (simp add: narrow_to_def Let_def)

lemma class_le_simps [simp]: "PublicShared \<le> c" "c \<le> Uncacheable" "max c Uncacheable = Uncacheable" "max PublicShared c = c"
  "Uncacheable \<le> c \<longleftrightarrow> c = Uncacheable" "c \<le> PublicShared \<longleftrightarrow> c = PublicShared"
proof -
  show lo: "PublicShared \<le> c" for c by (simp add: less_eq_representation_class_def)
  show hi: "c \<le> Uncacheable" for c by (cases c) (simp_all add: less_eq_representation_class_def)
  show "max c Uncacheable = Uncacheable" by (rule max_absorb2) (rule hi)
  show "max PublicShared c = c" by (rule max_absorb2) (rule lo)
  show "Uncacheable \<le> c \<longleftrightarrow> c = Uncacheable" using hi [of c] by auto
  show "c \<le> PublicShared \<longleftrightarrow> c = PublicShared" using lo [of c] by auto
qed

definition observed_unstorable :: "observed_context \<Rightarrow> bool" where
  "observed_unstorable obs \<longleftrightarrow> oc_session_read obs \<or> oc_secret_context_read obs \<or> oc_undeclared_reads obs \<noteq> []"

definition observed_private :: "observed_context \<Rightarrow> bool" where
  "observed_private obs \<longleftrightarrow> oc_principal obs \<noteq> None \<or> oc_tenant obs \<noteq> None \<or> oc_authorization obs \<noteq> AcNone"

lemma classify_class:
  "cl_class (classify declared obs) = (if observed_unstorable obs then Uncacheable
     else if observed_private obs then max declared PrivateCached else declared)"
  by (cases "oc_authorization obs")
    (simp_all add: classify_def Let_def observed_unstorable_def observed_private_def max.assoc)

lemma classify_reasons:
  "cl_reasons (classify declared obs) = [] \<longleftrightarrow> \<not> observed_unstorable obs \<and> \<not> observed_private obs"
  by (cases "oc_authorization obs")
    (simp_all add: classify_def Let_def observed_unstorable_def observed_private_def)

lemma policy_apply_narrows:
  "policy_apply patch base = Inr p \<Longrightarrow> rp_class base \<le> rp_class p \<and> policy_validate p = Inr ()"
  by (cases "pp_class patch") (auto simp: policy_apply_def Let_def not_less split: if_splits)

lemma policy_eligibility_Store:
  "policy_eligibility p sig = Store c
    \<Longrightarrow> c = (if rg_private_observed sig then max (rp_class p) PrivateCached else rp_class p) \<and> rp_class p \<noteq> Uncacheable
       \<and> rg_status sig = 200 \<and> \<not> rg_sets_cookie sig \<and> \<not> rg_streaming sig"
  by (auto simp: policy_eligibility_def narrowest_def split: if_splits)

lemma cache_control_public:
  "cache_control_value c shared freshness remaining \<noteq> ''private, no-cache''
    \<Longrightarrow> c = PublicShared \<and> (\<exists>seconds. shared = SMaxAge seconds)"
  by (cases c; cases shared; simp add: cache_control_value_def)

text \<open>
  C8: sharing only narrows, and a public header means a public page. When a route's patch applies to a
  group policy and a response is eligible, the class never widens from the group to the route, to the
  response, to what the render observed. If the response then carries anything but a private
  Cache-Control, the group declared the page public and shared, the route allows a shared lifetime, the
  response set no cookie, and the render observed no principal, tenant, authorization, session, secret or
  undeclared context.
\<close>

theorem public_header_means_public:
  assumes "policy_apply patch base = Inr p" and "policy_eligibility p sig = Store c"
  shows "rp_class base \<le> rp_class p \<and> rp_class p \<le> c \<and> c \<le> cl_class (classify c obs)
    \<and> (cache_control_value (cl_class (classify c obs)) (rp_shared p) freshness remaining \<noteq> ''private, no-cache''
       \<longrightarrow> rp_class base = PublicShared \<and> (\<exists>seconds. rp_shared p = SMaxAge seconds)
         \<and> \<not> rg_sets_cookie sig \<and> \<not> rg_private_observed sig
         \<and> oc_principal obs = None \<and> oc_tenant obs = None \<and> oc_authorization obs = AcNone
         \<and> \<not> oc_session_read obs \<and> \<not> oc_secret_context_read obs \<and> oc_undeclared_reads obs = []
         \<and> cl_reasons (classify c obs) = [])"
proof -
  note base = policy_apply_narrows [OF assms(1)] and store = policy_eligibility_Store [OF assms(2)]
  have narrow: "rp_class p \<le> c" "c \<le> cl_class (classify c obs)"
    using store by (auto simp: classify_class)
  have chain: "rp_class base \<le> cl_class (classify c obs)"
    using base narrow by (blast intro: order_trans)
  have "rp_class base = PublicShared \<and> (\<exists>seconds. rp_shared p = SMaxAge seconds)
         \<and> \<not> rg_sets_cookie sig \<and> \<not> rg_private_observed sig \<and> \<not> observed_private obs \<and> \<not> observed_unstorable obs"
    if "cache_control_value (cl_class (classify c obs)) (rp_shared p) freshness remaining \<noteq> ''private, no-cache''"
  proof -
    from cache_control_public [OF that] have public: "cl_class (classify c obs) = PublicShared"
      and shared: "\<exists>seconds. rp_shared p = SMaxAge seconds" by auto
    have c: "c = PublicShared" "rp_class base = PublicShared" using narrow chain public by simp_all
    have "max (rp_class p) PrivateCached \<noteq> PublicShared" "max c PrivateCached \<noteq> PublicShared"
      by (auto simp: max_def less_eq_representation_class_def)
    then have "\<not> rg_private_observed sig" "\<not> observed_private obs" "\<not> observed_unstorable obs"
      using store c(1) public by (auto simp: classify_class split: if_splits)
    then show ?thesis using c(2) shared store by blast
  qed
  then show ?thesis
    using base narrow by (auto simp: classify_reasons observed_private_def observed_unstorable_def)
qed

definition ex_patch :: policy_patch where
  "ex_patch = \<lparr>pp_class = None, pp_freshness = Some ex_freshness, pp_layers = None, pp_coherence = None,
     pp_shared = Some (SMaxAge 60), pp_failure = None, pp_query = None, pp_vary = None, pp_media = None, pp_encoding = None\<rparr>"

definition ex_response :: response_signals where
  "ex_response = \<lparr>rg_method = ''GET'', rg_status = 200, rg_streaming = False, rg_sets_cookie = False,
     rg_content_type = None, rg_cache_control = None, rg_header_names = [], rg_private_observed = True\<rparr>"

definition ex_route_policy :: render_cache_policy where
  "ex_route_policy = (policy_builder PublicShared)\<lparr>rp_freshness := ex_freshness, rp_shared := SMaxAge 60\<rparr>"

lemma public_header_means_public_witness:
  "\<forall>obs. cache_control_value (cl_class (classify PrivateCached obs)) (SMaxAge 60) ex_freshness None = ''private, no-cache''"
proof
  fix obs
  have "policy_apply ex_patch (policy_builder PublicShared) = Inr ex_route_policy"
    by (simp add: policy_apply_def ex_patch_def policy_builder_def policy_validate_def ex_route_policy_def
        query_policy_none_def query_policy_declared_def max_declared_query_def)
  moreover have "policy_eligibility ex_route_policy ex_response = Store PrivateCached"
    by (simp add: policy_eligibility_def ex_route_policy_def ex_response_def policy_builder_def narrowest_def)
  ultimately show "cache_control_value (cl_class (classify PrivateCached obs)) (SMaxAge 60) ex_freshness None = ''private, no-cache''"
    using public_header_means_public [of ex_patch "policy_builder PublicShared" ex_route_policy ex_response
        PrivateCached obs ex_freshness None]
    by (auto simp: ex_response_def ex_route_policy_def)
qed

end
