(* ===== verification/Crypto_Keys.thy ===== *)
theory Crypto_Keys
  imports Big_Endian
begin

text \<open>
  Purpose-separated capability integrity: \<open>crypto/key.rs\<close>, \<open>crypto/key_ring.rs\<close> and
  \<open>crypto/signature.rs\<close>. HKDF and HMAC are third-party code: \<open>crypto_engine\<close> holds the 32-byte expansion
  of a salt, root key and purpose, and the tag of a derived key and a message. Both may refuse.
\<close>

subsection \<open>Purposes and errors\<close>

datatype snapshot_purpose =
    SeedV1 | InstanceV1 | ChildParametersV1 | ChildParametersV2 | UploadGrantV1 | AsyncSubscriptionV1
  | RenderVarianceV1 | RenderKeyV1 | RenderEntryV1

definition hkdf_salt_v1 :: string where "hkdf_salt_v1 = ''suprnova-live/snapshot-hkdf/v1''"

fun purpose_info :: "snapshot_purpose \<Rightarrow> string" where
  "purpose_info SeedV1 = ''suprnova-live/seed-signature/v1''"
| "purpose_info InstanceV1 = ''suprnova-live/instance-signature/v1''"
| "purpose_info ChildParametersV1 = ''suprnova-live/child-params-signature/v1''"
| "purpose_info ChildParametersV2 = ''suprnova-live/child-params-signature/v2''"
| "purpose_info UploadGrantV1 = ''suprnova-live/upload-grant/v1''"
| "purpose_info AsyncSubscriptionV1 = ''suprnova-live/async-subscription/v1''"
| "purpose_info RenderVarianceV1 = ''suprnova-live/render-variance/v1''"
| "purpose_info RenderKeyV1 = ''suprnova-live/render-key/v1''"
| "purpose_info RenderEntryV1 = ''suprnova-live/render-entry/v1''"

datatype key_error =
    WeakRootKey | InvalidKeyWindow | TooManyKeys | DuplicateKeyId | UnknownKey | KeyNotActive | KeyRetired
  | InvalidSignatureEncoding | SignatureMismatch | DerivationFailure

fun key_error_as_str :: "key_error \<Rightarrow> string" where
  "key_error_as_str WeakRootKey = ''weak_root_key''"
| "key_error_as_str InvalidKeyWindow = ''invalid_key_window''"
| "key_error_as_str TooManyKeys = ''too_many_keys''"
| "key_error_as_str DuplicateKeyId = ''duplicate_key_id''"
| "key_error_as_str UnknownKey = ''unknown_key''"
| "key_error_as_str KeyNotActive = ''key_not_active''"
| "key_error_as_str KeyRetired = ''key_retired''"
| "key_error_as_str InvalidSignatureEncoding = ''invalid_signature_encoding''"
| "key_error_as_str SignatureMismatch = ''signature_mismatch''"
| "key_error_as_str DerivationFailure = ''key_derivation_failure''"

subsection \<open>Keys\<close>

record crypto_engine =
  ce_hkdf :: "string \<Rightarrow> u8 list \<Rightarrow> string \<Rightarrow> u8 list option"
  ce_hmac :: "u8 list \<Rightarrow> u8 list \<Rightarrow> u8 list option"

definition minimum_root_key_bytes :: usize where "minimum_root_key_bytes = 32"
definition maximum_root_key_bytes :: usize where "maximum_root_key_bytes = 64"

definition root_key_new :: "u8 list \<Rightarrow> key_error + u8 list" where
  "root_key_new bytes =
     (if length bytes < minimum_root_key_bytes \<or> maximum_root_key_bytes < length bytes then Inl WeakRootKey
      else Inr bytes)"

definition root_key_derive :: "crypto_engine \<Rightarrow> snapshot_purpose \<Rightarrow> u8 list \<Rightarrow> key_error + u8 list" where
  "root_key_derive ce purpose root = ok_or DerivationFailure (ce_hkdf ce hkdf_salt_v1 root (purpose_info purpose))"

record key_record =
  kr_key_id :: string
  kr_root_key :: "u8 list"
  kr_active_from :: unix_millis
  kr_sign_until :: unix_millis
  kr_verify_until :: unix_millis

definition key_record_new ::
  "string \<Rightarrow> u8 list \<Rightarrow> unix_millis \<Rightarrow> unix_millis \<Rightarrow> unix_millis \<Rightarrow> key_error + key_record" where
  "key_record_new key_id root_key active_from sign_until verify_until =
     (if sign_until \<le> active_from \<or> verify_until < sign_until then Inl InvalidKeyWindow
      else Inr \<lparr>kr_key_id = key_id, kr_root_key = root_key, kr_active_from = active_from,
                kr_sign_until = sign_until, kr_verify_until = verify_until\<rparr>)"

definition ensure_can_sign :: "key_record \<Rightarrow> unix_millis \<Rightarrow> key_error + unit" where
  "ensure_can_sign k now =
     (if now < kr_active_from k then Inl KeyNotActive else if kr_sign_until k \<le> now then Inl KeyRetired else Inr ())"

definition ensure_can_verify :: "key_record \<Rightarrow> unix_millis \<Rightarrow> key_error + unit" where
  "ensure_can_verify k now =
     (if now < kr_active_from k then Inl KeyNotActive else if kr_verify_until k \<le> now then Inl KeyRetired else Inr ())"

definition key_record_derive :: "crypto_engine \<Rightarrow> snapshot_purpose \<Rightarrow> key_record \<Rightarrow> key_error + u8 list" where
  "key_record_derive ce purpose k = root_key_derive ce purpose (kr_root_key k)"

subsection \<open>Signatures\<close>

definition signature_bytes :: usize where "signature_bytes = 32"
definition signature_base64url_bytes :: usize where "signature_base64url_bytes = 43"

definition signature_parse :: "base64_engine \<Rightarrow> string \<Rightarrow> key_error + u8 list" where
  "signature_parse b64 encoded =
     (if length encoded \<noteq> signature_base64url_bytes \<or> CHR ''='' \<in> set encoded then Inl InvalidSignatureEncoding
      else and_then (ok_or InvalidSignatureEncoding (b64_decode b64 encoded)) (\<lambda>decoded.
        if length decoded \<noteq> signature_bytes then Inl InvalidSignatureEncoding
        else if b64_encode b64 decoded \<noteq> encoded then Inl InvalidSignatureEncoding
        else Inr decoded))"

definition signature_to_base64url :: "base64_engine \<Rightarrow> u8 list \<Rightarrow> string" where
  "signature_to_base64url b64 sig = b64_encode b64 sig"

record signed_mac =
  sm_key_id :: string
  sm_signature :: "u8 list"

subsection \<open>The ring\<close>

definition maximum_key_records :: usize where "maximum_key_records = 8"

record key_ring =
  ring_active :: key_record
  ring_verification :: "key_record list"

fun has_duplicate_key :: "key_record list \<Rightarrow> bool" where
  "has_duplicate_key [] = False"
| "has_duplicate_key (k # ks) = (list_ex (\<lambda>c. kr_key_id c = kr_key_id k) ks \<or> has_duplicate_key ks)"

definition key_ring_new :: "key_record \<Rightarrow> key_record list \<Rightarrow> key_error + key_ring" where
  "key_ring_new active verification =
     (if maximum_key_records < saturating_add_usize (length verification) 1 then Inl TooManyKeys
      else if list_ex (\<lambda>k. kr_key_id k = kr_key_id active) verification then Inl DuplicateKeyId
      else if has_duplicate_key verification then Inl DuplicateKeyId
      else Inr \<lparr>ring_active = active, ring_verification = verification\<rparr>)"

definition ring_find :: "string \<Rightarrow> key_ring \<Rightarrow> key_record option" where
  "ring_find key_id ring =
     (if kr_key_id (ring_active ring) = key_id then Some (ring_active ring)
      else List.find (\<lambda>k. kr_key_id k = key_id) (ring_verification ring))"

definition key_tag :: "crypto_engine \<Rightarrow> snapshot_purpose \<Rightarrow> u8 list \<Rightarrow> key_record \<Rightarrow> key_error + u8 list" where
  "key_tag ce purpose body k = and_then (key_record_derive ce purpose k) (\<lambda>derived.
     ok_or DerivationFailure (ce_hmac ce derived body))"

definition ring_sign ::
  "crypto_engine \<Rightarrow> key_ring \<Rightarrow> snapshot_purpose \<Rightarrow> u8 list \<Rightarrow> unix_millis \<Rightarrow> key_error + signed_mac" where
  "ring_sign ce ring purpose body now =
     and_then (ensure_can_sign (ring_active ring) now) (\<lambda>_.
     and_then (key_tag ce purpose body (ring_active ring)) (\<lambda>tag.
       Inr \<lparr>sm_key_id = kr_key_id (ring_active ring), sm_signature = tag\<rparr>))"

definition ring_verify ::
  "crypto_engine \<Rightarrow> key_ring \<Rightarrow> string \<Rightarrow> snapshot_purpose \<Rightarrow> u8 list \<Rightarrow> u8 list \<Rightarrow> unix_millis \<Rightarrow> key_error + unit" where
  "ring_verify ce ring key_id purpose body sig now =
     and_then (ok_or UnknownKey (ring_find key_id ring)) (\<lambda>k.
     and_then (ensure_can_verify k now) (\<lambda>_.
     and_then (key_tag ce purpose body k) (\<lambda>tag. if tag = sig then Inr () else Inl SignatureMismatch)))"

subsection \<open>Length-prefixed parts\<close>

definition frame_part :: "u8 list \<Rightarrow> u8 list" where
  "frame_part p = u64_be_bytes (of_nat (length p)) @ p"

text \<open>\<open>mac_with\<close>: the message of the parts it is given, under the active key.\<close>

definition framed_message :: "u8 list list \<Rightarrow> u8 list" where
  "framed_message ps = concat (map frame_part ps)"

definition ring_mac :: "crypto_engine \<Rightarrow> key_ring \<Rightarrow> snapshot_purpose \<Rightarrow> u8 list list \<Rightarrow> key_error + u8 list" where
  "ring_mac ce ring purpose ps = key_tag ce purpose (framed_message ps) (ring_active ring)"

text \<open>
  What rotation of the key ring promises, and that length-prefixed parts are never confused.
\<close>

subsection \<open>Parts\<close>

lemma frame_part_inject:
  assumes "frame_part p @ xs = frame_part q @ ys" "length p < 2 ^ 64" "length q < 2 ^ 64"
  shows "p = q \<and> xs = ys"
proof -
  have "u64_be_bytes (of_nat (length p)) = u64_be_bytes (of_nat (length q))" and rest: "p @ xs = q @ ys"
    using assms(1) by (auto simp: frame_part_def)
  then have "(of_nat (length p) :: u64) = of_nat (length q)" by (intro u64_be_bytes_inject)
  then have "unat (of_nat (length p) :: u64) = unat (of_nat (length q) :: u64)" by simp
  then have "length p = length q" using assms(2,3) by (simp add: unat_of_nat)
  then show ?thesis using rest by simp
qed

lemma framed_message_inject:
  "framed_message ps = framed_message qs \<Longrightarrow> \<forall>p \<in> set ps. length p < 2 ^ 64 \<Longrightarrow> \<forall>q \<in> set qs. length q < 2 ^ 64
    \<Longrightarrow> ps = qs"
proof (induction ps arbitrary: qs)
  case Nil
  then show ?case by (cases qs) (auto simp: framed_message_def frame_part_def u64_be_bytes_def)
next
  case (Cons p ps)
  show ?case
  proof (cases qs)
    case Nil
    then show ?thesis using Cons.prems(1) by (auto simp: framed_message_def frame_part_def u64_be_bytes_def)
  next
    case (Cons q qs')
    then have "frame_part p @ framed_message ps = frame_part q @ framed_message qs'"
      using Cons.prems(1) by (simp add: framed_message_def)
    then have "p = q \<and> framed_message ps = framed_message qs'"
      using Cons.prems(2,3) \<open>qs = q # qs'\<close> by (intro frame_part_inject) auto
    then show ?thesis using Cons.IH [of qs'] Cons.prems \<open>qs = q # qs'\<close> by auto
  qed
qed

subsection \<open>Rotation\<close>

lemma has_duplicate_key_distinct: "has_duplicate_key ks \<longleftrightarrow> \<not> distinct (map kr_key_id ks)"
  by (induction ks) (auto simp: list_ex_iff intro: rev_image_eqI)

lemma key_ring_new_distinct:
  assumes "key_ring_new active verification = Inr ring"
  shows "ring = \<lparr>ring_active = active, ring_verification = verification\<rparr>
    \<and> distinct (map kr_key_id (active # verification))"
  using assms by (auto simp: key_ring_new_def list_ex_iff has_duplicate_key_distinct split: if_splits)

lemma ring_find_member:
  assumes "key_ring_new active verification = Inr ring" "k \<in> set (active # verification)"
  shows "ring_find (kr_key_id k) ring = Some k"
proof -
  have ring: "ring = \<lparr>ring_active = active, ring_verification = verification\<rparr>"
    and dist: "distinct (map kr_key_id (active # verification))" using key_ring_new_distinct [OF assms(1)] by auto
  have "List.find (\<lambda>x. kr_key_id x = kr_key_id k) ks = Some k" if "k \<in> set ks" "distinct (map kr_key_id ks)" for ks
    using that by (induction ks) auto
  then show ?thesis using assms(2) dist by (auto simp: ring_find_def ring)
qed

text \<open>
  C31: a signature survives rotation exactly as long as its key may verify. What one ring signed, any ring
  that still carries the signing key, as its active key or for verification, accepts from the key's
  activation until its verification deadline, reports as not active or retired outside that window, and
  within it accepts for a body and purpose exactly the tag that key derives for them.
\<close>

theorem signature_survives_rotation:
  assumes old: "key_ring_new active verification = Inr ring"
    and signed: "ring_sign ce ring purpose body signed_at = Inr mac"
    and rotated: "key_ring_new active' verification' = Inr ring'"
    and carried: "active \<in> set (active' # verification')"
  shows "ring_verify ce ring' (sm_key_id mac) purpose body (sm_signature mac) now
      = (if now < kr_active_from active then Inl KeyNotActive
         else if kr_verify_until active \<le> now then Inl KeyRetired else Inr ())
    \<and> (ring_verify ce ring' (sm_key_id mac) purpose' body' sig now = Inr ()
         \<longleftrightarrow> kr_active_from active \<le> now \<and> now < kr_verify_until active \<and> key_tag ce purpose' body' active = Inr sig)"
proof -
  have "ring_active ring = active" using key_ring_new_distinct [OF old] by simp
  then have mac: "sm_key_id mac = kr_key_id active" "key_tag ce purpose body active = Inr (sm_signature mac)"
    using signed by (auto simp: ring_sign_def)
  have found: "ring_find (kr_key_id active) ring' = Some active" by (rule ring_find_member [OF rotated carried])
  have verify: "ring_verify ce ring' (kr_key_id active) pu bo si now =
      and_then (ensure_can_verify active now) (\<lambda>_. and_then (key_tag ce pu bo active)
        (\<lambda>tag. if tag = si then Inr () else Inl SignatureMismatch))" for pu bo si
    by (simp add: ring_verify_def found)
  have "ring_verify ce ring' (sm_key_id mac) purpose body (sm_signature mac) now
      = (if now < kr_active_from active then Inl KeyNotActive
         else if kr_verify_until active \<le> now then Inl KeyRetired else Inr ())"
    by (simp add: mac verify ensure_can_verify_def)
  moreover have "ring_verify ce ring' (sm_key_id mac) purpose' body' sig now = Inr ()
         \<longleftrightarrow> kr_active_from active \<le> now \<and> now < kr_verify_until active \<and> key_tag ce purpose' body' active = Inr sig"
    by (cases "key_tag ce purpose' body' active") (auto simp: mac verify ensure_can_verify_def)
  ultimately show ?thesis by blast
qed

definition ex_engine :: crypto_engine where
  "ex_engine = \<lparr>ce_hkdf = (\<lambda>salt root info. Some (root @ map (\<lambda>c. of_nat (char_code c)) info)),
     ce_hmac = (\<lambda>derived body. Some (derived @ body))\<rparr>"

definition ex_signing_key :: "string \<Rightarrow> unix_millis \<Rightarrow> key_record" where
  "ex_signing_key key_id from_ms = \<lparr>kr_key_id = key_id, kr_root_key = replicate 32 7, kr_active_from = from_ms,
     kr_sign_until = 100, kr_verify_until = 200\<rparr>"

lemma ex_rings:
  "key_ring_new (ex_signing_key ''a'' 5) [] = Inr \<lparr>ring_active = ex_signing_key ''a'' 5, ring_verification = []\<rparr>"
  "key_ring_new (ex_signing_key ''b'' 50) [ex_signing_key ''a'' 5]
     = Inr \<lparr>ring_active = ex_signing_key ''b'' 50, ring_verification = [ex_signing_key ''a'' 5]\<rparr>"
  by (simp_all add: key_ring_new_def ex_signing_key_def maximum_key_records_def saturating_add_usize_def)

lemma ex_signed:
  "\<exists>mac. ring_sign ex_engine \<lparr>ring_active = ex_signing_key ''a'' 5, ring_verification = []\<rparr> SeedV1 [1, 2] 10 = Inr mac
     \<and> sm_key_id mac = ''a''"
  by (simp add: ring_sign_def ensure_can_sign_def ex_signing_key_def key_tag_def key_record_derive_def root_key_derive_def
      ex_engine_def)

lemma signature_survives_rotation_witness:
  "\<exists>mac :: signed_mac. ring_verify ex_engine \<lparr>ring_active = ex_signing_key ''b'' 50, ring_verification = [ex_signing_key ''a'' 5]\<rparr> ''a'' SeedV1 [1, 2]
       (sm_signature mac) 150 = Inr ()
     \<and> ring_verify ex_engine \<lparr>ring_active = ex_signing_key ''b'' 50, ring_verification = [ex_signing_key ''a'' 5]\<rparr> ''a'' SeedV1 [1, 2]
       (sm_signature mac) 200 = Inl KeyRetired"
proof -
  obtain mac where signed:
    "ring_sign ex_engine \<lparr>ring_active = ex_signing_key ''a'' 5, ring_verification = []\<rparr> SeedV1 [1, 2] 10 = Inr mac"
    and key_id: "sm_key_id mac = ''a''" using ex_signed by blast
  have "ex_signing_key ''a'' 5 \<in> set (ex_signing_key ''b'' 50 # [ex_signing_key ''a'' 5])" by simp
  note rotated = signature_survives_rotation [OF ex_rings(1) signed ex_rings(2) this]
  show ?thesis
    using conjunct1 [OF rotated [of 150]] conjunct1 [OF rotated [of 200]] key_id by (intro exI [of _ mac]) (simp add: ex_signing_key_def)
qed

end
