(* ===== verification/Render_Key.thy ===== *)
theory Render_Key
  imports Render_Variance Crypto_Keys
begin

text \<open>
  Lookup keys: \<open>render_cache/key.rs\<close>. A key is the 32-byte MAC over the tagged, length-prefixed parts of
  the representation's identity. \<open>RenderKeyDimensions\<close>, which only describes an input for inspection, is
  left out.
\<close>

definition key_format_version :: u8 where "key_format_version = 1"
definition max_params :: usize where "max_params = 32"
definition max_param_bytes :: usize where "max_param_bytes = 512"
definition max_route_pattern_bytes :: usize where "max_route_pattern_bytes = 256"

record render_key_input =
  ki_route :: "u8 list"
  ki_route_pattern :: string
  ki_params :: "(string \<times> string) list"
  ki_query :: "(string \<times> string) list"
  ki_host :: "string option"
  ki_media :: string
  ki_encoding :: "string option"
  ki_build :: string
  ki_epoch :: u64
  ki_variance :: variance_descriptor
  ki_root :: string

definition option_text :: "string \<Rightarrow> string option \<Rightarrow> string" where
  "option_text d x = (case x of Some s \<Rightarrow> s | None \<Rightarrow> d)"

text \<open>The bounds \<open>derive\<close> checks before it touches the MAC.\<close>

definition key_bounds :: "render_key_input \<Rightarrow> render_error + unit" where
  "key_bounds k =
     (if max_params < length (ki_params k) + length (ki_query k) then Inl KeyInvalid
      else if list_ex (\<lambda>(name, value). name = [] \<or> 64 < length name \<or> max_param_bytes < length value)
                (ki_params k @ ki_query k) then Inl KeyInvalid
      else if 128 < length (ki_media k) \<or> (case ki_host k of Some host \<Rightarrow> 253 < length host | None \<Rightarrow> False)
      then Inl KeyInvalid
      else if ki_route_pattern k = [] \<or> max_route_pattern_bytes < length (ki_route_pattern k)
              \<or> list_ex is_ascii_control (ki_route_pattern k) then Inl KeyInvalid
      else Inr ())"

definition pair_parts :: "u8 \<Rightarrow> u8 \<Rightarrow> (string \<times> string) list \<Rightarrow> u8 list list" where
  "pair_parts name_tag value_tag ps =
     concat (map (\<lambda>(name, value). [name_tag # text_bytes name, value_tag # text_bytes value]) ps)"

text \<open>The parts in the order they are written, each behind its tag.\<close>

definition key_parts :: "render_key_input \<Rightarrow> u8 list list" where
  "key_parts k = [[0, key_format_version], 1 # ki_route k]
     @ pair_parts 2 3 (ki_params k) @ pair_parts 4 5 (ki_query k)
     @ [6 # text_bytes (option_text '''' (ki_host k)), 7 # text_bytes (ki_media k),
        8 # text_bytes (option_text ''identity'' (ki_encoding k)), 9 # text_bytes (ki_build k),
        10 # u64_be_bytes (ki_epoch k), 11 # canonical_bytes (ki_variance k)]
     @ (if ki_root k = [] then [] else [12 # text_bytes (ki_root k)])"

definition render_key_derive :: "crypto_engine \<Rightarrow> key_ring \<Rightarrow> render_key_input \<Rightarrow> render_error + u8 list" where
  "render_key_derive ce ring k = and_then (key_bounds k) (\<lambda>_.
     map_err (\<lambda>_. KeyInvalid) (ring_mac ce ring RenderKeyV1 (key_parts k)))"

definition render_key_to_base64url :: "base64_engine \<Rightarrow> u8 list \<Rightarrow> string" where
  "render_key_to_base64url b64 digest = ''rk1.'' @ b64_encode b64 digest"

definition render_key_from_base64url :: "base64_engine \<Rightarrow> string \<Rightarrow> render_error + u8 list" where
  "render_key_from_base64url b64 s =
     (if take 4 s \<noteq> ''rk1.'' then Inl KeyInvalid
      else and_then (ok_or KeyInvalid (b64_decode b64 (drop 4 s))) (\<lambda>decoded.
        if length decoded \<noteq> 32 then Inl KeyInvalid else Inr decoded))"

text \<open>
  Two inputs give the MAC the same message only when they name the same representation, and derivation
  refuses every input outside its bounds.
\<close>

subsection \<open>Dimensions\<close>

lemma dimension_name_inject: "dimension_name a = dimension_name b \<longleftrightarrow> a = b"
  by (cases a; cases b; simp add: dimension_name_def)

text \<open>What \<open>declare\<close> guarantees of a descriptor, as far as its encoding needs it.\<close>

definition dimension_sized :: "variance_dimension \<times> dimension_value \<Rightarrow> bool" where
  "dimension_sized x \<longleftrightarrow> length (dimension_name (fst x)) < 2 ^ 32
     \<and> (case snd x of DvPublic s \<Rightarrow> length s < 2 ^ 32 | DvPrivate material \<Rightarrow> length material = 32 | DvAnonymous \<Rightarrow> True)"

lemma length_text_bytes [simp]: "length (text_bytes s) = length s"
  by (simp add: text_bytes_def)

lemma u32_prefix_inject:
  assumes "u32_be_bytes (of_nat (length p)) @ p @ xs = u32_be_bytes (of_nat (length q)) @ q @ ys"
    "length p < 2 ^ 32" "length q < 2 ^ 32"
  shows "p = q \<and> xs = ys"
proof -
  have "u32_be_bytes (of_nat (length p)) = u32_be_bytes (of_nat (length q))" and rest: "p @ xs = q @ ys"
    using assms(1) by auto
  then have "(of_nat (length p) :: u32) = of_nat (length q)" by (intro u32_be_bytes_inject)
  then have "unat (of_nat (length p) :: u32) = unat (of_nat (length q) :: u32)" by simp
  then have "length p = length q" using assms(2,3) by (simp add: unat_of_nat)
  then show ?thesis using rest by simp
qed

lemma dimension_value_inject:
  assumes "dimension_value_bytes v @ xs = dimension_value_bytes w @ ys"
    "dimension_sized (d, v)" "dimension_sized (d, w)"
  shows "v = w \<and> xs = ys"
proof (cases v)
  case (DvPublic s)
  then obtain s' where w: "w = DvPublic s'" using assms(1) by (cases w) (auto simp: dimension_value_bytes_def)
  have "text_bytes s = text_bytes s' \<and> xs = ys"
    using assms DvPublic w by (intro u32_prefix_inject) (auto simp: dimension_value_bytes_def dimension_sized_def)
  then show ?thesis using DvPublic w by simp
next
  case (DvPrivate m)
  then obtain m' where "w = DvPrivate m'" using assms(1) by (cases w) (auto simp: dimension_value_bytes_def)
  then show ?thesis using assms DvPrivate by (auto simp: dimension_value_bytes_def dimension_sized_def)
next
  case DvAnonymous
  then show ?thesis using assms(1) by (cases w) (auto simp: dimension_value_bytes_def)
qed

lemma dimension_bytes_inject:
  assumes "dimension_bytes x @ xs = dimension_bytes y @ ys" "dimension_sized x" "dimension_sized y"
  shows "x = y \<and> xs = ys"
proof -
  obtain d v e w where x: "x = (d, v)" and y: "y = (e, w)" by (cases x; cases y)
  have "text_bytes (dimension_name d) = text_bytes (dimension_name e)
      \<and> dimension_value_bytes v @ xs = dimension_value_bytes w @ ys"
    using assms x y by (intro u32_prefix_inject) (auto simp: dimension_bytes_def dimension_sized_def)
  then have "d = e" and rest: "dimension_value_bytes v @ xs = dimension_value_bytes w @ ys"
    by (auto simp: dimension_name_inject)
  then have "v = w \<and> xs = ys" using dimension_value_inject [OF rest, of d] assms(2,3) x y by auto
  then show ?thesis using \<open>d = e\<close> x y by simp
qed

lemma dimension_bytes_nonempty: "dimension_bytes x \<noteq> []"
  by (simp add: dimension_bytes_def u32_be_bytes_def)

lemma canonical_bytes_inject:
  "canonical_bytes m = canonical_bytes n \<Longrightarrow> \<forall>x \<in> set m. dimension_sized x \<Longrightarrow> \<forall>x \<in> set n. dimension_sized x \<Longrightarrow> m = n"
proof (induction m arbitrary: n)
  case Nil
  then show ?case using dimension_bytes_nonempty by (cases n) (auto simp: canonical_bytes_def)
next
  case (Cons x m)
  show ?case
  proof (cases n)
    case Nil
    then show ?thesis using Cons.prems(1) dimension_bytes_nonempty by (auto simp: canonical_bytes_def)
  next
    case (Cons y n')
    then have "dimension_bytes x @ canonical_bytes m = dimension_bytes y @ canonical_bytes n'"
      using Cons.prems(1) by (simp add: canonical_bytes_def)
    then have "x = y \<and> canonical_bytes m = canonical_bytes n'"
      using Cons.prems(2,3) \<open>n = y # n'\<close> by (intro dimension_bytes_inject) auto
    then show ?thesis using Cons.IH [of n'] Cons.prems(2,3) \<open>n = y # n'\<close> by auto
  qed
qed

text \<open>The declared length is the length written, which the MAC's framing relies on.\<close>

lemma canonical_len_exact: "canonical_len m = length (canonical_bytes m)"
proof (induction m)
  case (Cons x m)
  obtain d v where x: "x = (d, v)" by (cases x)
  show ?case
    using Cons x
    by (cases v) (auto simp: canonical_len_def canonical_bytes_def dimension_bytes_def dimension_name_def
        dimension_value_bytes_def)
qed (simp add: canonical_len_def canonical_bytes_def)

subsection \<open>Parts\<close>

definition tagged :: "u8 \<Rightarrow> u8 list list \<Rightarrow> u8 list list" where
  "tagged t ps = map tl (filter (\<lambda>p. hd p = t) ps)"

lemma tagged_append [simp]: "tagged t (ps @ qs) = tagged t ps @ tagged t qs"
  by (simp add: tagged_def)

lemma tagged_Nil [simp]: "tagged t [] = []"
  by (simp add: tagged_def)

lemma tagged_Cons [simp]: "tagged t ((u # p) # ps) = (if u = t then p # tagged t ps else tagged t ps)"
  by (simp add: tagged_def)

lemma tagged_pairs [simp]:
  "a \<noteq> b \<Longrightarrow> tagged t (pair_parts a b ps)
     = (if t = a then map (text_bytes \<circ> fst) ps else if t = b then map (text_bytes \<circ> snd) ps else [])"
  by (induction ps) (auto simp: pair_parts_def)

lemma text_pairs_inject:
  assumes "map (text_bytes \<circ> fst) ps = map (text_bytes \<circ> fst) qs" "map (text_bytes \<circ> snd) ps = map (text_bytes \<circ> snd) qs"
  shows "ps = qs"
proof -
  have inj: "inj text_bytes" by (rule injI) simp
  have "map fst ps = map fst qs" "map snd ps = map snd qs"
    using assms inj_map_eq_map [OF inj, of "map fst ps" "map fst qs"] inj_map_eq_map [OF inj, of "map snd ps" "map snd qs"]
    by simp_all
  then show ?thesis by (metis zip_map_fst_snd)
qed

lemma key_parts_inject:
  assumes eq: "key_parts a = key_parts b"
  shows "ki_route a = ki_route b \<and> ki_params a = ki_params b \<and> ki_query a = ki_query b
    \<and> option_text '''' (ki_host a) = option_text '''' (ki_host b) \<and> ki_media a = ki_media b
    \<and> option_text ''identity'' (ki_encoding a) = option_text ''identity'' (ki_encoding b)
    \<and> ki_build a = ki_build b \<and> ki_epoch a = ki_epoch b
    \<and> canonical_bytes (ki_variance a) = canonical_bytes (ki_variance b) \<and> ki_root a = ki_root b"
proof -
  have parts: "tagged t (key_parts k) = (if t = 0 then [[key_format_version]] else if t = 1 then [ki_route k]
     else if t = 2 then map (text_bytes \<circ> fst) (ki_params k) else if t = 3 then map (text_bytes \<circ> snd) (ki_params k)
     else if t = 4 then map (text_bytes \<circ> fst) (ki_query k) else if t = 5 then map (text_bytes \<circ> snd) (ki_query k)
     else if t = 6 then [text_bytes (option_text '''' (ki_host k))] else if t = 7 then [text_bytes (ki_media k)]
     else if t = 8 then [text_bytes (option_text ''identity'' (ki_encoding k))] else if t = 9 then [text_bytes (ki_build k)]
     else if t = 10 then [u64_be_bytes (ki_epoch k)] else if t = 11 then [canonical_bytes (ki_variance k)]
     else if t = 12 \<and> ki_root k \<noteq> [] then [text_bytes (ki_root k)] else [])" for t k
    by (simp add: key_parts_def)
  have same: "tagged t (key_parts a) = tagged t (key_parts b)" for t using eq by simp
  have root: "ki_root a = ki_root b"
    using same [of 12] by (simp add: parts split: if_splits)
  show ?thesis
    using same [of 1] same [of 2] same [of 3] same [of 4] same [of 5] same [of 6] same [of 7] same [of 8] same [of 9]
      same [of 10] same [of 11] root
    by (simp add: parts text_pairs_inject) (blast dest: u64_be_bytes_inject)
qed

subsection \<open>Representations\<close>

text \<open>A declared dimension can be encoded: its name and its public value are bounded.\<close>

lemma variance_declare_sized:
  assumes "variance_declare d v m = Inr m'" "\<forall>x \<in> set m. dimension_sized x" "\<And>p. v = DvPrivate p \<Longrightarrow> length p = 32"
  shows "\<forall>x \<in> set m'. dimension_sized x"
proof -
  have m': "m' = bt_insert d v m" and name: "\<And>n. d = VdApplication n \<Longrightarrow> length n \<le> 64"
    and public: "\<And>s. v = DvPublic s \<Longrightarrow> length s \<le> 256"
    using assms(1)
    by (auto simp: variance_declare_def application_name_ok_def max_dimension_value_bytes_def split: if_splits)
  have "length (dimension_name d) \<le> 68" using name by (cases d) (auto simp: dimension_name_def)
  then have "dimension_sized (d, v)"
    using public assms(3) by (cases v) (auto simp: dimension_sized_def intro: le_less_trans)
  moreover have "set (bt_insert d v m) \<subseteq> insert (d, v) (set m)" by (induction d v m rule: bt_insert.induct) auto
  ultimately show ?thesis using assms(2) m' by auto
qed

definition key_input_sized :: "render_key_input \<Rightarrow> bool" where
  "key_input_sized k \<longleftrightarrow> list_all (\<lambda>p. length p < 2 ^ 64) (key_parts k) \<and> list_all dimension_sized (ki_variance k)"

text \<open>
  C22: distinct representations never share a key by encoding. The message a lookup key is the MAC of is
  the same for two inputs exactly when they agree on the route, the route and query parameters, the
  media type, the build, the epoch, every variance dimension and value, the public root, the host (an
  absent one read as empty) and the encoding (an absent one read as identity).
\<close>

theorem render_key_message_injective:
  assumes "key_input_sized a" and "key_input_sized b"
  shows "framed_message (key_parts a) = framed_message (key_parts b) \<longleftrightarrow>
    ki_route a = ki_route b \<and> ki_params a = ki_params b \<and> ki_query a = ki_query b
    \<and> option_text '''' (ki_host a) = option_text '''' (ki_host b) \<and> ki_media a = ki_media b
    \<and> option_text ''identity'' (ki_encoding a) = option_text ''identity'' (ki_encoding b)
    \<and> ki_build a = ki_build b \<and> ki_epoch a = ki_epoch b \<and> ki_variance a = ki_variance b \<and> ki_root a = ki_root b"
    (is "?message \<longleftrightarrow> ?fields")
proof
  assume ?message
  then have "key_parts a = key_parts b"
    using assms by (intro framed_message_inject) (auto simp: key_input_sized_def list_all_iff)
  from key_parts_inject [OF this] show ?fields
    using canonical_bytes_inject [of "ki_variance a" "ki_variance b"] assms
    by (simp add: key_input_sized_def list_all_iff)
next
  assume ?fields
  then show ?message by (simp add: key_parts_def)
qed

definition ex_input :: "(string \<times> string) list \<Rightarrow> variance_descriptor \<Rightarrow> render_key_input" where
  "ex_input params variance = \<lparr>ki_route = replicate 32 1, ki_route_pattern = ''/p'', ki_params = params, ki_query = [],
     ki_host = None, ki_media = ''text/html'', ki_encoding = None, ki_build = ''b1'', ki_epoch = 1,
     ki_variance = variance, ki_root = []\<rparr>"

lemma render_key_message_injective_witness:
  "framed_message (key_parts (ex_input [(''a'', ''bc'')] [(VdLocale, DvPublic ''en'')]))
     \<noteq> framed_message (key_parts (ex_input [(''ab'', ''c'')] [(VdLocale, DvPublic ''en'')]))"
proof -
  have "key_input_sized (ex_input [(s, s')] [(VdLocale, DvPublic ''en'')])" if "length s < 9" "length s' < 9" for s s'
    using that by (simp add: key_input_sized_def ex_input_def key_parts_def pair_parts_def option_text_def
        canonical_bytes_def dimension_bytes_def dimension_name_def dimension_value_bytes_def dimension_sized_def)
  then show ?thesis
    using render_key_message_injective [of "ex_input [(''a'', ''bc'')] [(VdLocale, DvPublic ''en'')]"
        "ex_input [(''ab'', ''c'')] [(VdLocale, DvPublic ''en'')]"]
    by (simp add: ex_input_def)
qed

end
