(* ===== verification/Hash_Map.thy ===== *)
theory Hash_Map
  imports Main "HOL-Library.AList"
begin

text \<open>
  Rust's \<open>HashMap\<close>, where the modelled code never depends on the iteration order, as an association
  list with distinct keys: \<open>get\<close> is \<open>map_of\<close>, \<open>insert\<close> is \<open>AList.update\<close>, \<open>remove\<close> is
  \<open>AList.delete\<close>, \<open>len\<close> is the length. The lemmas count the entries with a property.
\<close>

abbreviation hm_wf :: "('k \<times> 'v) list \<Rightarrow> bool" where
  "hm_wf m \<equiv> distinct (map fst m)"

definition hm_count :: "('k \<Rightarrow> 'v \<Rightarrow> bool) \<Rightarrow> ('k \<times> 'v) list \<Rightarrow> nat" where
  "hm_count P m = length (filter (\<lambda>(k, v). P k v) m)"

definition hm_hit :: "('k \<Rightarrow> 'v \<Rightarrow> bool) \<Rightarrow> 'k \<Rightarrow> 'v option \<Rightarrow> nat" where
  "hm_hit P k v = (case v of Some w \<Rightarrow> if P k w then 1 else 0 | None \<Rightarrow> 0)"

lemma hm_hit_simps [simp]:
  "hm_hit P k None = 0"
  "hm_hit P k (Some v) = (if P k v then 1 else 0)"
  by (simp_all add: hm_hit_def)

lemma hm_count_Nil [simp]: "hm_count P [] = 0"
  by (simp add: hm_count_def)

lemma hm_count_Cons [simp]: "hm_count P ((k, v) # m) = (if P k v then 1 else 0) + hm_count P m"
  by (simp add: hm_count_def)

lemma hm_count_le: "hm_count P m \<le> length m"
  by (simp add: hm_count_def)

lemma hm_count_mono: "(\<And>k v. P k v \<Longrightarrow> Q k v) \<Longrightarrow> hm_count P m \<le> hm_count Q m"
  by (induction m) auto

lemma hm_count_0_iff: "hm_count P m = 0 \<longleftrightarrow> (\<forall>(k, v) \<in> set m. \<not> P k v)"
  by (induction m) auto

lemma hm_count_pos: "hm_wf m \<Longrightarrow> map_of m k = Some v \<Longrightarrow> P k v \<Longrightarrow> 0 < hm_count P m"
  by (induction m) (auto split: if_splits)

lemma hm_insert_wf [simp]: "hm_wf m \<Longrightarrow> hm_wf (AList.update k v m)"
  by (rule distinct_update)

lemma hm_remove_wf [simp]: "hm_wf m \<Longrightarrow> hm_wf (AList.delete k m)"
  by (rule distinct_delete)

lemma hm_absent_delete: "map_of m k = None \<Longrightarrow> AList.delete k m = m"
  by (simp add: map_of_eq_None_iff)

lemma hm_count_insert:
  "hm_wf m \<Longrightarrow> hm_count P (AList.update k v m) + hm_hit P k (map_of m k) = hm_count P m + hm_hit P k (Some v)"
proof (induction m)
  case (Cons x m)
  obtain k' v' where "x = (k', v')" by (cases x)
  then show ?case using Cons by (cases "k' = k") (auto simp: map_of_eq_None_iff [THEN iffD2])
qed simp

lemma hm_count_remove:
  "hm_wf m \<Longrightarrow> hm_count P (AList.delete k m) + hm_hit P k (map_of m k) = hm_count P m"
proof (induction m)
  case (Cons x m)
  obtain k' v' where x: "x = (k', v')" by (cases x)
  have "k' = k \<Longrightarrow> AList.delete k m = m" using Cons.prems x by simp
  then show ?case using Cons x by (cases "k' = k") auto
qed simp

lemma hm_length_insert:
  "length (AList.update k v m) = (if map_of m k = None then Suc (length m) else length m)"
  by (induction m) auto

lemma hm_length_remove: "length (AList.delete k m) \<le> length m"
  by (simp add: length_delete_le)

end
