(* ===== verification/Promotion_Policy.thy ===== *)
theory Promotion_Policy
  imports Identity Canonical Hash_Map
begin

text \<open>
  Admission of promotions: \<open>crates/suprnova-live/src/promotion/policy.rs\<close> with the error kinds of
  \<open>promotion/error.rs\<close>. One state, kept under the service's lock, holds the reservations by scope and
  nonce, the fixed rate windows by scope, the deadlines of both in time order and the numbers of
  outstanding instances. A \<open>HashMap\<close> is an association list (\<open>Hash_Map\<close>), a \<open>BTreeMap\<close> a sorted one, a
  \<open>Vec\<close> a list whose last element \<open>pop\<close> takes. The counters are natural numbers: a bucket's count stays
  below its limit and an outstanding count below the number of reservations.
\<close>

subsection \<open>Errors and limits\<close>

datatype promotion_error =
  PromotionInvalidConfiguration | PromotionInputTooLarge | PromotionSnapshotRejected
| PromotionContextRejected | PromotionNonceConflict | PromotionInProgress
| PromotionAbandonedRetention | PromotionRateLimited | PromotionOutstandingLimit
| PromotionRouteComponentLimit | PromotionStorageLimit | PromotionRandomUnavailable
| PromotionLedgerUnavailable | PromotionProviderInvariant

fun promotion_error_as_str :: "promotion_error \<Rightarrow> string" where
  "promotion_error_as_str PromotionInvalidConfiguration = ''invalid_promotion_configuration''"
| "promotion_error_as_str PromotionInputTooLarge = ''promotion_input_too_large''"
| "promotion_error_as_str PromotionSnapshotRejected = ''promotion_snapshot_rejected''"
| "promotion_error_as_str PromotionContextRejected = ''promotion_context_rejected''"
| "promotion_error_as_str PromotionNonceConflict = ''promotion_nonce_conflict''"
| "promotion_error_as_str PromotionInProgress = ''promotion_in_progress''"
| "promotion_error_as_str PromotionAbandonedRetention = ''promotion_abandoned_retention''"
| "promotion_error_as_str PromotionRateLimited = ''promotion_rate_limited''"
| "promotion_error_as_str PromotionOutstandingLimit = ''promotion_outstanding_limit''"
| "promotion_error_as_str PromotionRouteComponentLimit = ''promotion_route_component_limit''"
| "promotion_error_as_str PromotionStorageLimit = ''promotion_storage_limit''"
| "promotion_error_as_str PromotionRandomUnavailable = ''promotion_random_unavailable''"
| "promotion_error_as_str PromotionLedgerUnavailable = ''promotion_ledger_unavailable''"
| "promotion_error_as_str PromotionProviderInvariant = ''promotion_provider_invariant''"

definition max_seed_bytes :: usize where "max_seed_bytes = hard_max_input_bytes"
definition max_window_ms :: u64 where "max_window_ms = 3600000"
definition max_promotions_per_window :: usize where "max_promotions_per_window = 100000"
definition max_outstanding :: usize where "max_outstanding = 100000"
definition max_promotion_lease_ms :: u64 where "max_promotion_lease_ms = 60000"
definition max_abandoned_retention_ms :: u64 where "max_abandoned_retention_ms = 86400000"
definition max_promoted_lifetime_ms :: u64 where "max_promoted_lifetime_ms = 604800000"
definition max_policy_entries :: usize where "max_policy_entries = 1000000"
definition max_expired_events_per_prune :: nat where "max_expired_events_per_prune = 64"

record promotion_limits =
  pl_max_seed_bytes :: usize
  pl_window_ms :: u64
  pl_max_promotions_per_window :: usize
  pl_max_outstanding_per_scope :: usize
  pl_max_outstanding_per_route_component :: usize
  pl_promotion_lease_ms :: u64
  pl_abandoned_retention_ms :: u64
  pl_instance_lifetime_ms :: u64
  pl_max_reservations :: usize
  pl_max_rate_buckets :: usize

definition promotion_limits_new :: "promotion_limits \<Rightarrow> promotion_error + promotion_limits" where
  "promotion_limits_new c =
     (if pl_max_seed_bytes c > 0 \<and> pl_max_seed_bytes c \<le> max_seed_bytes
         \<and> pl_window_ms c > 0 \<and> pl_window_ms c \<le> max_window_ms
         \<and> pl_max_promotions_per_window c > 0 \<and> pl_max_promotions_per_window c \<le> max_promotions_per_window
         \<and> pl_max_outstanding_per_scope c > 0 \<and> pl_max_outstanding_per_scope c \<le> max_outstanding
         \<and> pl_max_outstanding_per_route_component c > 0
         \<and> pl_max_outstanding_per_route_component c \<le> max_outstanding
         \<and> pl_promotion_lease_ms c > 0 \<and> pl_promotion_lease_ms c \<le> max_promotion_lease_ms
         \<and> pl_abandoned_retention_ms c > 0 \<and> pl_abandoned_retention_ms c \<le> max_abandoned_retention_ms
         \<and> pl_instance_lifetime_ms c > 0 \<and> pl_instance_lifetime_ms c \<le> max_promoted_lifetime_ms
         \<and> pl_max_reservations c > 0 \<and> pl_max_reservations c \<le> max_policy_entries
         \<and> pl_max_rate_buckets c > 0 \<and> pl_max_rate_buckets c \<le> max_policy_entries
      then Inr c else Inl PromotionInvalidConfiguration)"

definition checked_deadline :: "unix_millis \<Rightarrow> u64 \<Rightarrow> promotion_error + unix_millis" where
  "checked_deadline now duration_ms = ok_or PromotionInvalidConfiguration (checked_add_u64 now duration_ms)"

subsection \<open>Data\<close>

record reservation_key =
  rk_scope :: scope_fingerprint
  rk_idempotency_key :: idempotency_key

text \<open>The route and the component's name come from a verified seed; their text does not matter here.\<close>

record route_component_key =
  rc_scope :: scope_fingerprint
  rc_route :: "u8 list"
  rc_component :: string

record admission_request =
  aq_reservation_key :: reservation_key
  aq_route_component :: route_component_key
  aq_request_digest :: content_digest
  aq_proposed_instance_id :: instance_id
  aq_expires_at :: unix_millis
  aq_lease_expires_at :: unix_millis
  aq_abandon_expires_at :: unix_millis

record admission =
  ad_instance_id :: instance_id
  ad_expires_at :: unix_millis

datatype reservation_status =
  PendingUntil (st_lease_expires_at: unix_millis) (st_abandon_expires_at: unix_millis)
| AcceptedReservation
| AbandonedUntil (st_retain_until: unix_millis)

record reservation =
  rv_route_component :: route_component_key
  rv_request_digest :: content_digest
  rv_instance_id :: instance_id
  rv_expires_at :: unix_millis
  rv_status :: reservation_status

record rate_bucket =
  rb_window_expires_at :: unix_millis
  rb_count :: usize

datatype deadline_kind = PendingLease | AcceptedExpiry | AbandonedRetention

datatype deadline_action = IgnoreDeadline | AbandonReservation unix_millis | RemoveOutstanding | RemoveRetained

record promotion_state =
  pp_reservations :: "(reservation_key \<times> reservation) list"
  pp_rate_buckets :: "(scope_fingerprint \<times> rate_bucket) list"
  pp_reservation_deadlines :: "(unix_millis \<times> (reservation_key \<times> deadline_kind) list) list"
  pp_rate_deadlines :: "(unix_millis \<times> scope_fingerprint list) list"
  pp_outstanding_by_scope :: "(scope_fingerprint \<times> usize) list"
  pp_outstanding_by_route_component :: "(route_component_key \<times> usize) list"

definition promotion_state_new :: promotion_state where
  "promotion_state_new = \<lparr>pp_reservations = [], pp_rate_buckets = [], pp_reservation_deadlines = [],
     pp_rate_deadlines = [], pp_outstanding_by_scope = [], pp_outstanding_by_route_component = []\<rparr>"

subsection \<open>Deadlines\<close>

definition push_deadline ::
  "unix_millis \<Rightarrow> 'e \<Rightarrow> (unix_millis \<times> 'e list) list \<Rightarrow> (unix_millis \<times> 'e list) list" where
  "push_deadline deadline e m =
     bt_insert deadline ((case map_of m deadline of Some es \<Rightarrow> es | None \<Rightarrow> []) @ [e]) m"

definition schedule_reservation_deadline ::
  "unix_millis \<Rightarrow> reservation_key \<Rightarrow> deadline_kind \<Rightarrow> promotion_state \<Rightarrow> promotion_state" where
  "schedule_reservation_deadline deadline key kind s =
     s\<lparr>pp_reservation_deadlines := push_deadline deadline (key, kind) (pp_reservation_deadlines s)\<rparr>"

text \<open>The loop of both \<open>agenda_pop\<close> functions: the last event of the first entry, which goes when empty.\<close>

fun agenda_pop :: "unix_millis \<Rightarrow> (unix_millis \<times> 'e list) list
    \<Rightarrow> (unix_millis \<times> 'e) option \<times> (unix_millis \<times> 'e list) list" where
  "agenda_pop now [] = (None, [])"
| "agenda_pop now ((deadline, es) # m) =
     (if now < deadline then (None, (deadline, es) # m)
      else if es = [] then agenda_pop now m
      else (Some (deadline, List.last es),
            if butlast es = [] then m else (deadline, butlast es) # m))"

definition pop_due_rate_deadline ::
  "unix_millis \<Rightarrow> promotion_state \<Rightarrow> (unix_millis \<times> scope_fingerprint) option \<times> promotion_state" where
  "pop_due_rate_deadline now s =
     (let (due, m) = agenda_pop now (pp_rate_deadlines s) in (due, s\<lparr>pp_rate_deadlines := m\<rparr>))"

definition pop_due_reservation_deadline ::
  "unix_millis \<Rightarrow> promotion_state
     \<Rightarrow> (unix_millis \<times> reservation_key \<times> deadline_kind) option \<times> promotion_state" where
  "pop_due_reservation_deadline now s =
     (let (due, m) = agenda_pop now (pp_reservation_deadlines s) in (due, s\<lparr>pp_reservation_deadlines := m\<rparr>))"

subsection \<open>Outstanding instances\<close>

definition count_of :: "('k \<times> usize) list \<Rightarrow> 'k \<Rightarrow> usize" where
  "count_of m k = (case map_of m k of Some n \<Rightarrow> n | None \<Rightarrow> 0)"

definition outstanding_for_scope :: "promotion_state \<Rightarrow> scope_fingerprint \<Rightarrow> usize" where
  "outstanding_for_scope s scope = count_of (pp_outstanding_by_scope s) scope"

definition outstanding_for_route :: "promotion_state \<Rightarrow> route_component_key \<Rightarrow> usize" where
  "outstanding_for_route s route_component = count_of (pp_outstanding_by_route_component s) route_component"

definition increment_count :: "'k \<Rightarrow> ('k \<times> usize) list \<Rightarrow> ('k \<times> usize) list" where
  "increment_count k m = AList.update k (count_of m k + 1) m"

definition increment_outstanding ::
  "scope_fingerprint \<Rightarrow> route_component_key \<Rightarrow> promotion_state \<Rightarrow> promotion_state" where
  "increment_outstanding scope route_component s =
     s\<lparr>pp_outstanding_by_scope := increment_count scope (pp_outstanding_by_scope s),
       pp_outstanding_by_route_component := increment_count route_component (pp_outstanding_by_route_component s)\<rparr>"

definition decrement_count :: "'k \<Rightarrow> ('k \<times> usize) list \<Rightarrow> ('k \<times> usize) list" where
  "decrement_count k m =
     (case map_of m k of
        Some n \<Rightarrow> if 1 < n then AList.update k (n - 1) m else AList.delete k m
      | None \<Rightarrow> m)"

definition decrement_outstanding ::
  "scope_fingerprint \<Rightarrow> route_component_key \<Rightarrow> promotion_state \<Rightarrow> promotion_state" where
  "decrement_outstanding scope route_component s =
     s\<lparr>pp_outstanding_by_scope := decrement_count scope (pp_outstanding_by_scope s),
       pp_outstanding_by_route_component := decrement_count route_component (pp_outstanding_by_route_component s)\<rparr>"

subsection \<open>Pruning\<close>

definition deadline_disposition ::
  "promotion_state \<Rightarrow> reservation_key \<Rightarrow> deadline_kind \<Rightarrow> unix_millis \<Rightarrow> unix_millis \<Rightarrow> deadline_action" where
  "deadline_disposition s key kind deadline now =
     (case map_of (pp_reservations s) key of
        None \<Rightarrow> IgnoreDeadline
      | Some r \<Rightarrow>
         (case (rv_status r, kind) of
            (PendingUntil lease_expires_at abandon_expires_at, PendingLease) \<Rightarrow>
              if lease_expires_at = deadline
              then if abandon_expires_at \<le> now then RemoveOutstanding else AbandonReservation abandon_expires_at
              else IgnoreDeadline
          | (AcceptedReservation, AcceptedExpiry) \<Rightarrow> if rv_expires_at r = deadline then RemoveOutstanding else IgnoreDeadline
          | (AbandonedUntil retain_until, AbandonedRetention) \<Rightarrow>
              if retain_until = deadline then RemoveRetained else IgnoreDeadline
          | _ \<Rightarrow> IgnoreDeadline))"

text \<open>What \<open>prune_reservations\<close> and \<open>prune_requested_reservation\<close> do with a disposition.\<close>

definition apply_disposition :: "reservation_key \<Rightarrow> deadline_action \<Rightarrow> promotion_state \<Rightarrow> promotion_state" where
  "apply_disposition key disposition s =
     (case disposition of
        IgnoreDeadline \<Rightarrow> s
      | AbandonReservation retain_until \<Rightarrow>
         (case map_of (pp_reservations s) key of
            None \<Rightarrow> s
          | Some r \<Rightarrow>
             schedule_reservation_deadline retain_until key AbandonedRetention
               (decrement_outstanding (rk_scope key) (rv_route_component r)
                 (s\<lparr>pp_reservations := AList.update key (r\<lparr>rv_status := AbandonedUntil retain_until\<rparr>)
                      (pp_reservations s)\<rparr>)))
      | RemoveOutstanding \<Rightarrow>
         (case map_of (pp_reservations s) key of
            None \<Rightarrow> s
          | Some r \<Rightarrow>
             decrement_outstanding (rk_scope key) (rv_route_component r)
               (s\<lparr>pp_reservations := AList.delete key (pp_reservations s)\<rparr>))
      | RemoveRetained \<Rightarrow> s\<lparr>pp_reservations := AList.delete key (pp_reservations s)\<rparr>)"

fun prune_rate_buckets_loop :: "nat \<Rightarrow> unix_millis \<Rightarrow> promotion_state \<Rightarrow> promotion_state" where
  "prune_rate_buckets_loop 0 now s = s"
| "prune_rate_buckets_loop (Suc n) now s =
     (case pop_due_rate_deadline now s of
        (None, s) \<Rightarrow> s
      | (Some (deadline, scope), s) \<Rightarrow>
          prune_rate_buckets_loop n now
            (case map_of (pp_rate_buckets s) scope of
               Some bucket \<Rightarrow>
                 if rb_window_expires_at bucket = deadline
                 then s\<lparr>pp_rate_buckets := AList.delete scope (pp_rate_buckets s)\<rparr> else s
             | None \<Rightarrow> s))"

definition prune_rate_buckets :: "unix_millis \<Rightarrow> promotion_state \<Rightarrow> promotion_state" where
  "prune_rate_buckets = prune_rate_buckets_loop max_expired_events_per_prune"

fun prune_reservations_loop :: "nat \<Rightarrow> unix_millis \<Rightarrow> promotion_state \<Rightarrow> promotion_state" where
  "prune_reservations_loop 0 now s = s"
| "prune_reservations_loop (Suc n) now s =
     (case pop_due_reservation_deadline now s of
        (None, s) \<Rightarrow> s
      | (Some (deadline, key, kind), s) \<Rightarrow>
          prune_reservations_loop n now
            (apply_disposition key (deadline_disposition s key kind deadline now) s))"

definition prune_reservations :: "unix_millis \<Rightarrow> promotion_state \<Rightarrow> promotion_state" where
  "prune_reservations = prune_reservations_loop max_expired_events_per_prune"

definition promotion_prune :: "unix_millis \<Rightarrow> promotion_state \<Rightarrow> promotion_state" where
  "promotion_prune now s = prune_reservations now (prune_rate_buckets now s)"

definition requested_disposition :: "reservation_key \<Rightarrow> unix_millis \<Rightarrow> promotion_state \<Rightarrow> deadline_action" where
  "requested_disposition key now s =
     (case map_of (pp_reservations s) key of
        None \<Rightarrow> IgnoreDeadline
      | Some r \<Rightarrow>
         (case rv_status r of
            PendingUntil lease_expires_at abandon_expires_at \<Rightarrow>
              if lease_expires_at \<le> now
              then if abandon_expires_at \<le> now then RemoveOutstanding else AbandonReservation abandon_expires_at
              else IgnoreDeadline
          | AcceptedReservation \<Rightarrow> if rv_expires_at r \<le> now then RemoveOutstanding else IgnoreDeadline
          | AbandonedUntil retain_until \<Rightarrow> if retain_until \<le> now then RemoveRetained else IgnoreDeadline))"

definition prune_requested_reservation :: "reservation_key \<Rightarrow> unix_millis \<Rightarrow> promotion_state \<Rightarrow> promotion_state" where
  "prune_requested_reservation key now s = apply_disposition key (requested_disposition key now s) s"

definition prune_requested_rate_bucket :: "scope_fingerprint \<Rightarrow> unix_millis \<Rightarrow> promotion_state \<Rightarrow> promotion_state" where
  "prune_requested_rate_bucket scope now s =
     (case map_of (pp_rate_buckets s) scope of
        Some bucket \<Rightarrow>
          if rb_window_expires_at bucket \<le> now
          then s\<lparr>pp_rate_buckets := AList.delete scope (pp_rate_buckets s)\<rparr> else s
      | None \<Rightarrow> s)"

subsection \<open>Operations\<close>

definition consume_rate ::
  "scope_fingerprint \<Rightarrow> unix_millis \<Rightarrow> promotion_limits \<Rightarrow> promotion_state
     \<Rightarrow> (promotion_error + unit) \<times> promotion_state" where
  "consume_rate scope now limits s =
     (case map_of (pp_rate_buckets s) scope of
        Some bucket \<Rightarrow>
          if pl_max_promotions_per_window limits \<le> rb_count bucket then (Inl PromotionRateLimited, s)
          else (Inr (), s\<lparr>pp_rate_buckets :=
                  AList.update scope (bucket\<lparr>rb_count := rb_count bucket + 1\<rparr>) (pp_rate_buckets s)\<rparr>)
      | None \<Rightarrow>
          if pl_max_rate_buckets limits \<le> length (pp_rate_buckets s) then (Inl PromotionStorageLimit, s)
          else (case checked_deadline now (pl_window_ms limits) of
                  Inl e \<Rightarrow> (Inl e, s)
                | Inr window_expires_at \<Rightarrow>
                    (Inr (), s\<lparr>pp_rate_buckets := AList.update scope
                          \<lparr>rb_window_expires_at = window_expires_at, rb_count = 1\<rparr> (pp_rate_buckets s),
                        pp_rate_deadlines := push_deadline window_expires_at scope (pp_rate_deadlines s)\<rparr>)))"

definition reservation_answer :: "reservation \<Rightarrow> content_digest \<Rightarrow> promotion_error + admission" where
  "reservation_answer existing request_digest =
     (if rv_request_digest existing \<noteq> request_digest then Inl PromotionNonceConflict
      else case rv_status existing of
        PendingUntil _ _ \<Rightarrow> Inl PromotionInProgress
      | AcceptedReservation \<Rightarrow> Inr \<lparr>ad_instance_id = rv_instance_id existing, ad_expires_at = rv_expires_at existing\<rparr>
      | AbandonedUntil _ \<Rightarrow> Inl PromotionAbandonedRetention)"

text \<open>The insertion at the end of \<open>begin\<close>.\<close>

definition reserve :: "admission_request \<Rightarrow> promotion_state \<Rightarrow> promotion_state" where
  "reserve q s =
     (let key = aq_reservation_key q;
          s = increment_outstanding (rk_scope key) (aq_route_component q) s;
          s = s\<lparr>pp_reservations := AList.update key
                \<lparr>rv_route_component = aq_route_component q, rv_request_digest = aq_request_digest q,
                 rv_instance_id = aq_proposed_instance_id q, rv_expires_at = aq_expires_at q,
                 rv_status = PendingUntil (aq_lease_expires_at q) (aq_abandon_expires_at q)\<rparr>
                (pp_reservations s)\<rparr>
      in schedule_reservation_deadline (aq_lease_expires_at q) key PendingLease s)"

definition promotion_begin ::
  "admission_request \<Rightarrow> unix_millis \<Rightarrow> promotion_limits \<Rightarrow> promotion_state
     \<Rightarrow> (promotion_error + admission) \<times> promotion_state" where
  "promotion_begin q now limits s =
     (let key = aq_reservation_key q; scope = rk_scope key;
          s = promotion_prune now s;
          s = prune_requested_reservation key now s;
          s = prune_requested_rate_bucket scope now s
      in case map_of (pp_reservations s) key of
           Some existing \<Rightarrow> (reservation_answer existing (aq_request_digest q), s)
         | None \<Rightarrow>
             if pl_max_reservations limits \<le> length (pp_reservations s) then (Inl PromotionStorageLimit, s)
             else (case consume_rate scope now limits s of
                     (Inl e, s) \<Rightarrow> (Inl e, s)
                   | (Inr _, s) \<Rightarrow>
                       if pl_max_outstanding_per_scope limits \<le> outstanding_for_scope s scope
                       then (Inl PromotionOutstandingLimit, s)
                       else if pl_max_outstanding_per_route_component limits
                                 \<le> outstanding_for_route s (aq_route_component q)
                       then (Inl PromotionRouteComponentLimit, s)
                       else (Inr \<lparr>ad_instance_id = aq_proposed_instance_id q, ad_expires_at = aq_expires_at q\<rparr>,
                             reserve q s)))"

definition promotion_accept ::
  "reservation_key \<Rightarrow> content_digest \<Rightarrow> instance_id \<Rightarrow> unix_millis \<Rightarrow> unix_millis \<Rightarrow> promotion_state
     \<Rightarrow> bool \<times> promotion_state" where
  "promotion_accept key request_digest instance_id expires_at now s =
     (let s = prune_requested_reservation key now s in
      case map_of (pp_reservations s) key of
        None \<Rightarrow> (False, s)
      | Some r \<Rightarrow>
          if rv_request_digest r \<noteq> request_digest then (False, s)
          else (case rv_status r of
                  AcceptedReservation \<Rightarrow> (rv_instance_id r = instance_id \<and> rv_expires_at r = expires_at, s)
                | AbandonedUntil _ \<Rightarrow> (False, s)
                | PendingUntil _ _ \<Rightarrow>
                    (True, schedule_reservation_deadline expires_at key AcceptedExpiry
                       (s\<lparr>pp_reservations := AList.update key
                           (r\<lparr>rv_instance_id := instance_id, rv_expires_at := expires_at, rv_status := AcceptedReservation\<rparr>)
                           (pp_reservations s)\<rparr>))))"

definition promotion_abandon :: "reservation_key \<Rightarrow> content_digest \<Rightarrow> promotion_state \<Rightarrow> promotion_state" where
  "promotion_abandon key request_digest s =
     (case map_of (pp_reservations s) key of
        None \<Rightarrow> s
      | Some r \<Rightarrow>
          if rv_request_digest r \<noteq> request_digest then s
          else (case rv_status r of
                  PendingUntil _ abandon_expires_at \<Rightarrow>
                    schedule_reservation_deadline abandon_expires_at key AbandonedRetention
                      (decrement_outstanding (rk_scope key) (rv_route_component r)
                        (s\<lparr>pp_reservations := AList.update key
                             (r\<lparr>rv_status := AbandonedUntil abandon_expires_at\<rparr>) (pp_reservations s)\<rparr>))
                | _ \<Rightarrow> s))"

end
