(* ===== verification/Promotion_Inv.thy ===== *)
theory Promotion_Inv
  imports Promotion_Policy
begin

text \<open>
  The invariant of the admission state and its preservation: the outstanding counters are the numbers
  of pending and accepted reservations, every reservation has its deadline scheduled, every rate window
  too, and the tables stay within their limits.
\<close>

named_theorems promo_defs "definitions of the steps of admission"

declare schedule_reservation_deadline_def [promo_defs] decrement_outstanding_def [promo_defs]
  increment_outstanding_def [promo_defs]

declare map_of_eq_Some_iff [simp del]

subsection \<open>Scheduled events\<close>

definition on_agenda :: "unix_millis \<Rightarrow> 'e \<Rightarrow> (unix_millis \<times> 'e list) list \<Rightarrow> bool" where
  "on_agenda d e m \<longleftrightarrow> (\<exists>es. map_of m d = Some es \<and> e \<in> set es)"

definition agenda_wf :: "(unix_millis \<times> 'e list) list \<Rightarrow> bool" where
  "agenda_wf m \<longleftrightarrow> bt_sorted m \<and> (\<forall>(d, es) \<in> set m. es \<noteq> [])"

definition due_events :: "unix_millis \<Rightarrow> (unix_millis \<times> 'e list) list \<Rightarrow> nat" where
  "due_events now m = sum_list (map (\<lambda>(d, es). if d \<le> now then length es else 0) m)"

lemma agenda_wf_Nil [simp]: "agenda_wf []"
  by (simp add: agenda_wf_def)

lemma agenda_wf_Cons [simp]:
  "agenda_wf ((d, es) # m) \<longleftrightarrow> es \<noteq> [] \<and> (\<forall>d' \<in> fst ` set m. d < d') \<and> agenda_wf m"
  by (auto simp: agenda_wf_def)

lemma bt_insert_set: "set (bt_insert k v m) \<subseteq> insert (k, v) (set m)"
  by (induction k v m rule: bt_insert.induct) auto

lemma push_deadline_wf [simp]: "agenda_wf m \<Longrightarrow> agenda_wf (push_deadline d e m)"
  using bt_insert_set by (fastforce simp: agenda_wf_def push_deadline_def)

lemma scheduled_push [simp]:
  "agenda_wf m \<Longrightarrow> on_agenda d e (push_deadline d' e' m) \<longleftrightarrow> (d = d' \<and> e = e') \<or> on_agenda d e m"
  by (auto simp: agenda_wf_def on_agenda_def push_deadline_def split: option.splits)

lemma agenda_pop_wf: "agenda_wf m \<Longrightarrow> agenda_wf (snd (agenda_pop now m))"
  by (induction now m rule: agenda_pop.induct) auto

lemma map_of_less_None: "\<forall>d' \<in> fst ` set m. (d :: 'a :: linorder) < d' \<Longrightarrow> map_of m d = None"
  by (force simp: map_of_eq_None_iff)

lemma agenda_pop_None:
  "agenda_wf m \<Longrightarrow> fst (agenda_pop now m) = None \<Longrightarrow> snd (agenda_pop now m) = m \<and> (on_agenda d e m \<longrightarrow> now < d)"
proof (cases m)
  case (Cons x m')
  assume a: "agenda_wf m" "fst (agenda_pop now m) = None"
  obtain d' es where x: "x = (d', es)" by (cases x)
  have less: "now < d'" using a Cons x by (auto split: if_splits)
  have "now < d" if "on_agenda d e m"
  proof -
    have "d \<in> fst ` set m" using that by (force simp: on_agenda_def dest: map_of_SomeD)
    then show ?thesis using a(1) Cons x less by auto
  qed
  then show ?thesis using less Cons x by simp
qed (auto simp: on_agenda_def)

lemma agenda_pop_Some:
  assumes "agenda_wf m" "fst (agenda_pop now m) = Some (d, e)"
  shows "d \<le> now" "on_agenda d e m"
    "on_agenda d' e' m \<Longrightarrow> (d', e') \<noteq> (d, e) \<Longrightarrow> on_agenda d' e' (snd (agenda_pop now m))"
    "Suc (due_events now (snd (agenda_pop now m))) = due_events now m"
proof -
  obtain d0 es m' where m: "m = (d0, es) # m'" using assms by (cases m) auto
  have le: "\<not> now < d0" and ne: "es \<noteq> []" and de: "d = d0" "e = last es"
    using assms m by (auto split: if_splits)
  have no: "map_of m' d0 = None" using assms(1) m by (auto intro: map_of_less_None)
  have es: "es = butlast es @ [last es]" using ne by simp
  have split: "set es = insert (last es) (set (butlast es))"
    by (subst es, subst set_append) simp
  show "d \<le> now" using le de by simp
  show "on_agenda d e m" using m de ne by (simp add: on_agenda_def)
  show "on_agenda d' e' (snd (agenda_pop now m))" if "on_agenda d' e' m" "(d', e') \<noteq> (d, e)"
    using that m le ne no de split by (auto simp: on_agenda_def split: if_splits)
  have "length es = Suc (length (butlast es))" using es by (metis length_append_singleton)
  moreover have "length es = 1" if "butlast es = []" using es that by (metis append_Nil length_Cons list.size(3) One_nat_def)
  ultimately show "Suc (due_events now (snd (agenda_pop now m))) = due_events now m"
    using m le ne by (auto simp: due_events_def simp del: length_butlast)
qed

lemma due_events_push:
  "agenda_wf m \<Longrightarrow> due_events now (push_deadline d e m) = due_events now m + (if d \<le> now then 1 else 0)"
proof -
  have gen: "bt_sorted m \<Longrightarrow> due_events now (bt_insert d es m) + (if d \<le> now then length (case map_of m d of Some l \<Rightarrow> l | None \<Rightarrow> []) else 0)
     = due_events now m + (if d \<le> now then length es else 0)" for es
  proof (induction d es m rule: bt_insert.induct)
    case (2 d es d' es' m)
    have "d < d' \<Longrightarrow> map_of m d = None" using 2(2) by (force simp: map_of_eq_None_iff)
    then show ?case using 2 by (auto simp: due_events_def)
  qed (simp add: due_events_def)
  assume "agenda_wf m"
  then have "bt_sorted m" by (simp add: agenda_wf_def)
  from gen [OF this, of "(case map_of m d of Some es \<Rightarrow> es | None \<Rightarrow> []) @ [e]"]
  show ?thesis by (auto simp: push_deadline_def)
qed

lemma due_events_0: "agenda_wf m \<Longrightarrow> due_events now m = 0 \<Longrightarrow> on_agenda d e m \<Longrightarrow> now < d"
  by (auto simp: due_events_def on_agenda_def agenda_wf_def dest!: map_of_SomeD split: if_splits)

subsection \<open>Counters\<close>

definition holds_slot :: "reservation \<Rightarrow> bool" where
  "holds_slot r = (case rv_status r of AbandonedUntil _ \<Rightarrow> False | _ \<Rightarrow> True)"

definition counts_ok ::
  "(reservation_key \<Rightarrow> reservation \<Rightarrow> 'c) \<Rightarrow> ('c \<times> nat) list \<Rightarrow> (reservation_key \<times> reservation) list \<Rightarrow> bool" where
  "counts_ok c tbl res \<longleftrightarrow> hm_wf tbl \<and> (\<forall>x n. map_of tbl x = Some n \<longrightarrow> 0 < n)
     \<and> (\<forall>x. count_of tbl x = hm_count (\<lambda>k r. holds_slot r \<and> c k r = x) res)"

lemma count_of_increment: "count_of (increment_count k m) x = count_of m x + (if x = k then 1 else 0)"
  by (simp add: count_of_def increment_count_def update_conv')

lemma count_of_decrement:
  "(\<And>n. map_of m k = Some n \<Longrightarrow> 0 < n) \<Longrightarrow> count_of (decrement_count k m) x = count_of m x - (if x = k then 1 else 0)"
  by (auto simp: count_of_def decrement_count_def update_conv' delete_conv' split: option.splits)

lemma increment_wf: "hm_wf m \<Longrightarrow> hm_wf (increment_count k m)"
  by (simp add: increment_count_def)

lemma decrement_wf: "hm_wf m \<Longrightarrow> hm_wf (decrement_count k m)"
  by (simp add: decrement_count_def split: option.splits)

lemma decrement_pos:
  "(\<And>x n. map_of m x = Some n \<Longrightarrow> 0 < n) \<Longrightarrow> map_of (decrement_count k m) x = Some n \<Longrightarrow> 0 < n"
  by (auto simp: decrement_count_def update_conv' delete_conv' split: option.splits if_splits)

lemma counts_table:
  assumes "counts_ok c tbl res"
  shows "hm_wf tbl" "map_of tbl x = Some n \<Longrightarrow> 0 < n"
    "count_of tbl x = hm_count (\<lambda>k r. holds_slot r \<and> c k r = x) res"
  using assms by (auto simp: counts_ok_def)

lemma counts_incremented:
  assumes "counts_ok c tbl res"
    and "\<And>x. hm_count (\<lambda>k r. holds_slot r \<and> c k r = x) res'
           = hm_count (\<lambda>k r. holds_slot r \<and> c k r = x) res + (if x = y then 1 else 0)"
  shows "counts_ok c (increment_count y tbl) res'"
proof -
  have "map_of (increment_count y tbl) x = Some n \<Longrightarrow> 0 < n" for x n
    using counts_table(2) [OF assms(1)] by (auto simp: increment_count_def update_conv' split: if_splits)
  then show ?thesis
    using counts_table(1,3) [OF assms(1)] assms(2) by (simp add: counts_ok_def count_of_increment increment_wf)
qed

lemma counts_decremented:
  assumes "counts_ok c tbl res"
    and "\<And>x. hm_count (\<lambda>k r. holds_slot r \<and> c k r = x) res' + (if x = y then 1 else 0)
           = hm_count (\<lambda>k r. holds_slot r \<and> c k r = x) res"
  shows "counts_ok c (decrement_count y tbl) res'"
proof -
  have "hm_count (\<lambda>k r. holds_slot r \<and> c k r = x) res'
      = hm_count (\<lambda>k r. holds_slot r \<and> c k r = x) res - (if x = y then 1 else 0)" for x
    using assms(2) [of x] by auto
  moreover have "count_of (decrement_count y tbl) x = count_of tbl x - (if x = y then 1 else 0)" for x
    by (rule count_of_decrement) (rule counts_table(2) [OF assms(1)])
  moreover have "map_of (decrement_count y tbl) x = Some n \<Longrightarrow> 0 < n" for x n
    by (rule decrement_pos [of tbl y x]) (auto dest: counts_table(2) [OF assms(1)])
  ultimately show ?thesis
    using counts_table(1,3) [OF assms(1)] by (simp add: counts_ok_def decrement_wf)
qed

lemma counts_insert:
  assumes "counts_ok c tbl res" "hm_wf res" "map_of res key = None" "holds_slot r"
  shows "counts_ok c (increment_count (c key r) tbl) (AList.update key r res)"
proof (rule counts_incremented [OF assms(1)])
  fix x
  show "hm_count (\<lambda>k r. holds_slot r \<and> c k r = x) (AList.update key r res)
      = hm_count (\<lambda>k r. holds_slot r \<and> c k r = x) res + (if x = c key r then 1 else 0)"
    using hm_count_insert [OF assms(2), of "\<lambda>k r. holds_slot r \<and> c k r = x" key r] assms(3,4)
    by (auto split: if_splits)
qed

lemma counts_remove:
  assumes "counts_ok c tbl res" "hm_wf res" "map_of res key = Some r" "holds_slot r"
  shows "counts_ok c (decrement_count (c key r) tbl) (AList.delete key res)"
proof (rule counts_decremented [OF assms(1)])
  fix x
  show "hm_count (\<lambda>k r. holds_slot r \<and> c k r = x) (AList.delete key res) + (if x = c key r then 1 else 0)
      = hm_count (\<lambda>k r. holds_slot r \<and> c k r = x) res"
    using hm_count_remove [OF assms(2), of "\<lambda>k r. holds_slot r \<and> c k r = x" key] assms(3,4)
    by (auto split: if_splits)
qed

lemma counts_abandon:
  assumes "counts_ok c tbl res" "hm_wf res" "map_of res key = Some r" "holds_slot r" "\<not> holds_slot r'"
  shows "counts_ok c (decrement_count (c key r) tbl) (AList.update key r' res)"
proof (rule counts_decremented [OF assms(1)])
  fix x
  show "hm_count (\<lambda>k r. holds_slot r \<and> c k r = x) (AList.update key r' res) + (if x = c key r then 1 else 0)
      = hm_count (\<lambda>k r. holds_slot r \<and> c k r = x) res"
    using hm_count_insert [OF assms(2), of "\<lambda>k r. holds_slot r \<and> c k r = x" key r'] assms(3-5)
    by (auto split: if_splits)
qed

lemma counts_same:
  assumes "counts_ok c tbl res"
    and "\<And>x. hm_count (\<lambda>k r. holds_slot r \<and> c k r = x) res' = hm_count (\<lambda>k r. holds_slot r \<and> c k r = x) res"
  shows "counts_ok c tbl res'"
  using assms by (simp add: counts_ok_def)

lemma counts_drop:
  assumes "counts_ok c tbl res" "hm_wf res" "map_of res key = Some r" "\<not> holds_slot r"
  shows "counts_ok c tbl (AList.delete key res)"
proof (rule counts_same [OF assms(1)])
  fix x
  show "hm_count (\<lambda>k r. holds_slot r \<and> c k r = x) (AList.delete key res)
      = hm_count (\<lambda>k r. holds_slot r \<and> c k r = x) res"
    using hm_count_remove [OF assms(2), of "\<lambda>k r. holds_slot r \<and> c k r = x" key] assms(3,4)
    by (auto split: if_splits)
qed

lemma counts_keep:
  assumes "counts_ok c tbl res" "hm_wf res" "map_of res key = Some r" "holds_slot r" "holds_slot r'" "c key r' = c key r"
  shows "counts_ok c tbl (AList.update key r' res)"
proof (rule counts_same [OF assms(1)])
  fix x
  show "hm_count (\<lambda>k r. holds_slot r \<and> c k r = x) (AList.update key r' res)
      = hm_count (\<lambda>k r. holds_slot r \<and> c k r = x) res"
    using hm_count_insert [OF assms(2), of "\<lambda>k r. holds_slot r \<and> c k r = x" key r'] assms(3-6)
    by (auto split: if_splits)
qed

subsection \<open>The invariant\<close>

definition resolution_of :: "reservation \<Rightarrow> unix_millis \<times> deadline_kind" where
  "resolution_of r = (case rv_status r of
      PendingUntil lease_expires_at _ \<Rightarrow> (lease_expires_at, PendingLease)
    | AcceptedReservation \<Rightarrow> (rv_expires_at r, AcceptedExpiry)
    | AbandonedUntil retain_until \<Rightarrow> (retain_until, AbandonedRetention))"

text \<open>\<open>X\<close> holds the keys whose event has just been taken from the agenda.\<close>

definition all_scheduled ::
  "reservation_key set \<Rightarrow> (reservation_key \<times> reservation) list
     \<Rightarrow> (unix_millis \<times> (reservation_key \<times> deadline_kind) list) list \<Rightarrow> bool" where
  "all_scheduled X res agenda \<longleftrightarrow>
     (\<forall>k r. k \<notin> X \<longrightarrow> map_of res k = Some r \<longrightarrow> on_agenda (fst (resolution_of r)) (k, snd (resolution_of r)) agenda)"

definition windows_scheduled ::
  "scope_fingerprint set \<Rightarrow> (scope_fingerprint \<times> rate_bucket) list \<Rightarrow> (unix_millis \<times> scope_fingerprint list) list \<Rightarrow> bool" where
  "windows_scheduled X buckets agenda \<longleftrightarrow>
     (\<forall>scope b. scope \<notin> X \<longrightarrow> map_of buckets scope = Some b \<longrightarrow> on_agenda (rb_window_expires_at b) scope agenda)"

definition counters_exact :: "promotion_state \<Rightarrow> bool" where
  "counters_exact s \<longleftrightarrow> counts_ok (\<lambda>k r. rk_scope k) (pp_outstanding_by_scope s) (pp_reservations s)
     \<and> counts_ok (\<lambda>k r. rv_route_component r) (pp_outstanding_by_route_component s) (pp_reservations s)"

definition tables_wf :: "promotion_state \<Rightarrow> bool" where
  "tables_wf s \<longleftrightarrow> hm_wf (pp_reservations s) \<and> hm_wf (pp_rate_buckets s)
     \<and> agenda_wf (pp_reservation_deadlines s) \<and> agenda_wf (pp_rate_deadlines s)"

definition wf_except :: "reservation_key set \<Rightarrow> scope_fingerprint set \<Rightarrow> promotion_state \<Rightarrow> bool" where
  "wf_except X Y s \<longleftrightarrow> tables_wf s \<and> counters_exact s
     \<and> all_scheduled X (pp_reservations s) (pp_reservation_deadlines s)
     \<and> windows_scheduled Y (pp_rate_buckets s) (pp_rate_deadlines s)"

abbreviation promotion_wf :: "promotion_state \<Rightarrow> bool" where
  "promotion_wf \<equiv> wf_except {} {}"

lemma wf_exceptI:
  "tables_wf s \<Longrightarrow> counters_exact s \<Longrightarrow> all_scheduled X (pp_reservations s) (pp_reservation_deadlines s)
    \<Longrightarrow> windows_scheduled Y (pp_rate_buckets s) (pp_rate_deadlines s) \<Longrightarrow> wf_except X Y s"
  by (simp add: wf_except_def)

lemma wf_exceptD:
  assumes "wf_except X Y s"
  shows "tables_wf s" "counters_exact s" "all_scheduled X (pp_reservations s) (pp_reservation_deadlines s)"
    "windows_scheduled Y (pp_rate_buckets s) (pp_rate_deadlines s)"
  using assms by (simp_all add: wf_except_def)

lemma tables_wfD:
  assumes "tables_wf s"
  shows "hm_wf (pp_reservations s)" "hm_wf (pp_rate_buckets s)"
    "agenda_wf (pp_reservation_deadlines s)" "agenda_wf (pp_rate_deadlines s)"
  using assms by (simp_all add: tables_wf_def)

lemma wf_except_weaken: "wf_except X Y s \<Longrightarrow> X \<subseteq> X' \<Longrightarrow> Y \<subseteq> Y' \<Longrightarrow> wf_except X' Y' s"
  by (auto simp: wf_except_def all_scheduled_def windows_scheduled_def)

lemma promotion_new_wf: "promotion_wf promotion_state_new"
  by (simp add: wf_except_def tables_wf_def counters_exact_def counts_ok_def all_scheduled_def
      windows_scheduled_def promotion_state_new_def count_of_def)

subsection \<open>Changes of one reservation\<close>

lemma windows_scheduled_delete:
  "windows_scheduled {scope} b a \<Longrightarrow> windows_scheduled {} (AList.delete scope b) a"
  by (auto simp: windows_scheduled_def delete_conv' split: if_splits)

lemma all_scheduled_delete: "all_scheduled {key} res a \<Longrightarrow> all_scheduled {} (AList.delete key res) a"
  by (auto simp: all_scheduled_def delete_conv' split: if_splits)

lemma all_scheduled_update:
  "agenda_wf a \<Longrightarrow> all_scheduled {key} res a \<Longrightarrow> resolution_of r = (d, kind)
    \<Longrightarrow> all_scheduled {} (AList.update key r res) (push_deadline d (key, kind) a)"
  by (auto simp: all_scheduled_def update_conv' split: if_splits)

definition abandon_reservation ::
  "unix_millis \<Rightarrow> reservation_key \<Rightarrow> reservation \<Rightarrow> promotion_state \<Rightarrow> promotion_state" where
  [promo_defs]: "abandon_reservation t key r s = schedule_reservation_deadline t key AbandonedRetention
     (decrement_outstanding (rk_scope key) (rv_route_component r)
       (s\<lparr>pp_reservations := AList.update key (r\<lparr>rv_status := AbandonedUntil t\<rparr>) (pp_reservations s)\<rparr>))"

definition remove_outstanding :: "reservation_key \<Rightarrow> reservation \<Rightarrow> promotion_state \<Rightarrow> promotion_state" where
  [promo_defs]: "remove_outstanding key r s = decrement_outstanding (rk_scope key) (rv_route_component r)
     (s\<lparr>pp_reservations := AList.delete key (pp_reservations s)\<rparr>)"

definition remove_retained :: "reservation_key \<Rightarrow> promotion_state \<Rightarrow> promotion_state" where
  [promo_defs]: "remove_retained key s = s\<lparr>pp_reservations := AList.delete key (pp_reservations s)\<rparr>"

lemma abandon_reservation_wf:
  assumes "wf_except {key} {} s" "map_of (pp_reservations s) key = Some r" "holds_slot r"
  shows "promotion_wf (abandon_reservation t key r s)"
proof (rule wf_exceptI)
  note wf = wf_exceptD [OF assms(1)]
  note t = tables_wfD [OF wf(1)]
  let ?t = "abandon_reservation t key r s"
  have no: "\<not> holds_slot (r\<lparr>rv_status := AbandonedUntil t\<rparr>)" by (simp add: holds_slot_def)
  show "tables_wf ?t" using t by (simp add: tables_wf_def promo_defs)
  show "counters_exact ?t"
    using wf(2) counts_abandon [OF _ t(1) assms(2,3) no, of "\<lambda>k r. rk_scope k"]
      counts_abandon [OF _ t(1) assms(2,3) no, of "\<lambda>k r. rv_route_component r"]
    by (simp add: counters_exact_def promo_defs)
  show "all_scheduled {} (pp_reservations ?t) (pp_reservation_deadlines ?t)"
    using all_scheduled_update [OF t(3) wf(3), of "r\<lparr>rv_status := AbandonedUntil t\<rparr>" t AbandonedRetention]
    by (simp add: promo_defs resolution_of_def)
  show "windows_scheduled {} (pp_rate_buckets ?t) (pp_rate_deadlines ?t)"
    using wf(4) by (simp add: promo_defs)
qed

lemma remove_outstanding_wf:
  assumes "wf_except {key} {} s" "map_of (pp_reservations s) key = Some r" "holds_slot r"
  shows "promotion_wf (remove_outstanding key r s)"
proof (rule wf_exceptI)
  note wf = wf_exceptD [OF assms(1)]
  note t = tables_wfD [OF wf(1)]
  let ?t = "remove_outstanding key r s"
  show "tables_wf ?t" using t by (simp add: tables_wf_def promo_defs)
  show "counters_exact ?t"
    using wf(2) counts_remove [OF _ t(1) assms(2,3), of "\<lambda>k r. rk_scope k"]
      counts_remove [OF _ t(1) assms(2,3), of "\<lambda>k r. rv_route_component r"]
    by (simp add: counters_exact_def promo_defs)
  show "all_scheduled {} (pp_reservations ?t) (pp_reservation_deadlines ?t)"
    using all_scheduled_delete [OF wf(3)] by (simp add: promo_defs)
  show "windows_scheduled {} (pp_rate_buckets ?t) (pp_rate_deadlines ?t)"
    using wf(4) by (simp add: promo_defs)
qed

lemma remove_retained_wf:
  assumes "wf_except {key} {} s" "map_of (pp_reservations s) key = Some r" "\<not> holds_slot r"
  shows "promotion_wf (remove_retained key s)"
proof (rule wf_exceptI)
  note wf = wf_exceptD [OF assms(1)]
  note t = tables_wfD [OF wf(1)]
  let ?t = "remove_retained key s"
  show "tables_wf ?t" using t by (simp add: tables_wf_def promo_defs)
  show "counters_exact ?t"
    using wf(2) counts_drop [OF _ t(1) assms(2,3), of "\<lambda>k r. rk_scope k"]
      counts_drop [OF _ t(1) assms(2,3), of "\<lambda>k r. rv_route_component r"]
    by (simp add: counters_exact_def promo_defs)
  show "all_scheduled {} (pp_reservations ?t) (pp_reservation_deadlines ?t)"
    using all_scheduled_delete [OF wf(3)] by (simp add: promo_defs)
  show "windows_scheduled {} (pp_rate_buckets ?t) (pp_rate_deadlines ?t)"
    using wf(4) by (simp add: promo_defs)
qed

text \<open>What a disposition that fits its reservation amounts to.\<close>

definition disposition_fits :: "reservation option \<Rightarrow> deadline_action \<Rightarrow> bool" where
  "disposition_fits ro d = (case d of
      IgnoreDeadline \<Rightarrow> True
    | AbandonReservation t \<Rightarrow> \<exists>r. ro = Some r \<and> holds_slot r
    | RemoveOutstanding \<Rightarrow> \<exists>r. ro = Some r \<and> holds_slot r
    | RemoveRetained \<Rightarrow> \<exists>r. ro = Some r \<and> \<not> holds_slot r)"

lemma deadline_disposition_fits:
  "disposition_fits (map_of (pp_reservations s) key) (deadline_disposition s key kind deadline now)"
  by (auto simp: disposition_fits_def deadline_disposition_def holds_slot_def
      split: option.splits reservation_status.splits deadline_kind.splits)

lemma requested_disposition_fits:
  "disposition_fits (map_of (pp_reservations s) key) (requested_disposition key now s)"
  by (auto simp: disposition_fits_def requested_disposition_def holds_slot_def
      split: option.splits reservation_status.splits)

lemma apply_disposition_cases:
  "disposition_fits (Some r) d \<Longrightarrow> map_of (pp_reservations s) key = Some r \<Longrightarrow>
     apply_disposition key d s = (case d of
        IgnoreDeadline \<Rightarrow> s
      | AbandonReservation t \<Rightarrow> abandon_reservation t key r s
      | RemoveOutstanding \<Rightarrow> remove_outstanding key r s
      | RemoveRetained \<Rightarrow> remove_retained key s)"
  by (simp add: apply_disposition_def abandon_reservation_def remove_outstanding_def remove_retained_def
      split: deadline_action.splits)

lemma apply_disposition_wf:
  assumes "wf_except {key} {} s" "disposition_fits (map_of (pp_reservations s) key) d" "d \<noteq> IgnoreDeadline"
  shows "promotion_wf (apply_disposition key d s)"
proof -
  obtain r where r: "map_of (pp_reservations s) key = Some r"
    using assms(2,3) by (auto simp: disposition_fits_def split: deadline_action.splits)
  show ?thesis
    using assms(2,3) r abandon_reservation_wf [OF assms(1) r] remove_outstanding_wf [OF assms(1) r]
      remove_retained_wf [OF assms(1) r]
    by (auto simp: apply_disposition_cases [OF _ r] disposition_fits_def split: deadline_action.splits)
qed

text \<open>
  Every operation of the admission state keeps the invariant of \<open>Promotion_Inv\<close> and the limits, and
  pruning only removes.
\<close>

declare map_of_eq_Some_iff [simp del]

subsection \<open>Pruning\<close>

lemma pop_rate_wf:
  assumes "promotion_wf s" "pop_due_rate_deadline now s = (Some (d, scope), s')"
  shows "wf_except {} {scope} s'"
    "map_of (pp_rate_buckets s') scope = Some b \<Longrightarrow> rb_window_expires_at b \<noteq> d \<Longrightarrow> promotion_wf s'"
proof -
  note wf = wf_exceptD [OF assms(1)]
  note t = tables_wfD [OF wf(1)]
  have p: "fst (agenda_pop now (pp_rate_deadlines s)) = Some (d, scope)"
    and s': "s' = s\<lparr>pp_rate_deadlines := snd (agenda_pop now (pp_rate_deadlines s))\<rparr>"
    using assms(2) by (auto simp: pop_due_rate_deadline_def split: prod.splits)
  note keep = agenda_pop_Some(3) [OF t(4) p]
  have t': "tables_wf s'" "counters_exact s'" "all_scheduled {} (pp_reservations s') (pp_reservation_deadlines s')"
    using t wf agenda_pop_wf [OF t(4)] by (simp_all add: s' tables_wf_def counters_exact_def)
  show "wf_except {} {scope} s'"
    by (rule wf_exceptI [OF t']) (use wf(4) keep in \<open>auto simp: windows_scheduled_def s'\<close>)
  show "promotion_wf s'" if "map_of (pp_rate_buckets s') scope = Some b" "rb_window_expires_at b \<noteq> d"
    by (rule wf_exceptI [OF t']) (use wf(4) keep that in \<open>fastforce simp: windows_scheduled_def s'\<close>)
qed

lemma pop_reservation_wf:
  assumes "promotion_wf s" "pop_due_reservation_deadline now s = (Some (d, key, kind), s')"
  shows "wf_except {key} {} s'"
    "(\<And>r. map_of (pp_reservations s') key = Some r \<Longrightarrow> resolution_of r \<noteq> (d, kind)) \<Longrightarrow> promotion_wf s'"
proof -
  note wf = wf_exceptD [OF assms(1)]
  note t = tables_wfD [OF wf(1)]
  have p: "fst (agenda_pop now (pp_reservation_deadlines s)) = Some (d, key, kind)"
    and s': "s' = s\<lparr>pp_reservation_deadlines := snd (agenda_pop now (pp_reservation_deadlines s))\<rparr>"
    using assms(2) by (auto simp: pop_due_reservation_deadline_def split: prod.splits)
  note keep = agenda_pop_Some(3) [OF t(3) p]
  have t': "tables_wf s'" "counters_exact s'" "windows_scheduled {} (pp_rate_buckets s') (pp_rate_deadlines s')"
    using t wf agenda_pop_wf [OF t(3)] by (simp_all add: s' tables_wf_def counters_exact_def)
  show "wf_except {key} {} s'"
    by (rule wf_exceptI [OF t'(1,2) _ t'(3)]) (use wf(3) keep in \<open>auto simp: all_scheduled_def s'\<close>)
  show "promotion_wf s'" if other: "\<And>r. map_of (pp_reservations s') key = Some r \<Longrightarrow> resolution_of r \<noteq> (d, kind)"
  proof (rule wf_exceptI [OF t'(1,2) _ t'(3)])
    show "all_scheduled {} (pp_reservations s') (pp_reservation_deadlines s')"
      unfolding all_scheduled_def
    proof (intro allI impI)
      fix k r assume r: "map_of (pp_reservations s') k = Some r"
      then have "on_agenda (fst (resolution_of r)) (k, snd (resolution_of r)) (pp_reservation_deadlines s)"
        using wf(3) by (simp add: all_scheduled_def s')
      moreover have "(fst (resolution_of r), k, snd (resolution_of r)) \<noteq> (d, key, kind)"
        using other r by auto
      ultimately show "on_agenda (fst (resolution_of r)) (k, snd (resolution_of r)) (pp_reservation_deadlines s')"
        using keep by (simp add: s')
    qed
  qed
qed

lemma pop_none_same:
  "promotion_wf s \<Longrightarrow> pop_due_rate_deadline now s = (None, s') \<Longrightarrow> s' = s"
  "promotion_wf s \<Longrightarrow> pop_due_reservation_deadline now s = (None, t') \<Longrightarrow> t' = s"
proof -
  assume wf: "promotion_wf s"
  note t = tables_wfD [OF wf_exceptD(1) [OF wf]]
  show "s' = s" if "pop_due_rate_deadline now s = (None, s')"
    using that agenda_pop_None [OF t(4), of now] by (auto simp: pop_due_rate_deadline_def split: prod.splits)
  show "t' = s" if "pop_due_reservation_deadline now s = (None, t')"
    using that agenda_pop_None [OF t(3), of now] by (auto simp: pop_due_reservation_deadline_def split: prod.splits)
qed

lemma remove_bucket_wf:
  "wf_except {} {scope} s \<Longrightarrow> promotion_wf (s\<lparr>pp_rate_buckets := AList.delete scope (pp_rate_buckets s)\<rparr>)"
  using windows_scheduled_delete
  by (auto simp: wf_except_def tables_wf_def counters_exact_def)

lemma ignored_deadline:
  "deadline_disposition s key kind d now = IgnoreDeadline \<Longrightarrow> map_of (pp_reservations s) key = Some r
     \<Longrightarrow> resolution_of r \<noteq> (d, kind)"
  by (auto simp: deadline_disposition_def resolution_of_def split: reservation_status.splits if_splits)

lemma reservation_event_wf:
  assumes "promotion_wf s" "pop_due_reservation_deadline now s = (Some (d, key, kind), s')"
  shows "promotion_wf (apply_disposition key (deadline_disposition s' key kind d now) s')"
proof (cases "deadline_disposition s' key kind d now = IgnoreDeadline")
  case True
  then show ?thesis
    using pop_reservation_wf(2) [OF assms] ignored_deadline [OF True] by (auto simp: apply_disposition_def)
next
  case False
  then show ?thesis
    by (rule apply_disposition_wf [OF pop_reservation_wf(1) [OF assms] deadline_disposition_fits])
qed

lemma rate_event_wf:
  assumes "promotion_wf s" "pop_due_rate_deadline now s = (Some (d, scope), s')"
  shows "promotion_wf (case map_of (pp_rate_buckets s') scope of
      Some bucket \<Rightarrow> if rb_window_expires_at bucket = d
        then s'\<lparr>pp_rate_buckets := AList.delete scope (pp_rate_buckets s')\<rparr> else s'
    | None \<Rightarrow> s')"
proof (cases "map_of (pp_rate_buckets s') scope")
  case None
  have "promotion_wf (s'\<lparr>pp_rate_buckets := AList.delete scope (pp_rate_buckets s')\<rparr>)"
    by (rule remove_bucket_wf [OF pop_rate_wf(1) [OF assms]])
  then show ?thesis using None by (simp add: hm_absent_delete)
next
  case (Some b)
  then show ?thesis
    using pop_rate_wf(2) [OF assms Some] remove_bucket_wf [OF pop_rate_wf(1) [OF assms]] by simp
qed

lemma prune_rate_buckets_loop_wf: "promotion_wf s \<Longrightarrow> promotion_wf (prune_rate_buckets_loop n now s)"
proof (induction n arbitrary: s)
  case (Suc n)
  obtain due s' where p: "pop_due_rate_deadline now s = (due, s')" by fastforce
  show ?case
    using Suc p pop_none_same(1) [of s now s'] rate_event_wf [of s now _ _ s'] by (cases due) auto
qed simp

lemma prune_reservations_loop_wf: "promotion_wf s \<Longrightarrow> promotion_wf (prune_reservations_loop n now s)"
proof (induction n arbitrary: s)
  case (Suc n)
  obtain due s' where p: "pop_due_reservation_deadline now s = (due, s')" by fastforce
  show ?case
    using Suc p pop_none_same(2) [of s now s'] reservation_event_wf [of s now _ _ _ s'] by (cases due) auto
qed simp

lemma promotion_prune_wf: "promotion_wf s \<Longrightarrow> promotion_wf (promotion_prune now s)"
  by (simp add: promotion_prune_def prune_reservations_def prune_rate_buckets_def
      prune_rate_buckets_loop_wf prune_reservations_loop_wf)

lemma prune_requested_reservation_wf:
  assumes "promotion_wf s"
  shows "promotion_wf (prune_requested_reservation key now s)"
proof (cases "requested_disposition key now s = IgnoreDeadline")
  case True
  then show ?thesis using assms by (simp add: prune_requested_reservation_def apply_disposition_def)
next
  case False
  then show ?thesis
    unfolding prune_requested_reservation_def
    by (intro apply_disposition_wf requested_disposition_fits wf_except_weaken [OF assms]) auto
qed

lemma prune_requested_rate_bucket_wf:
  "promotion_wf s \<Longrightarrow> promotion_wf (prune_requested_rate_bucket scope now s)"
  using remove_bucket_wf [OF wf_except_weaken, of "{}" "{}" s scope]
  by (auto simp: prune_requested_rate_bucket_def split: option.splits)

definition pruned :: "reservation_key \<Rightarrow> unix_millis \<Rightarrow> promotion_state \<Rightarrow> promotion_state" where
  "pruned key now s = prune_requested_rate_bucket (rk_scope key) now
     (prune_requested_reservation key now (promotion_prune now s))"

lemma pruned_wf: "promotion_wf s \<Longrightarrow> promotion_wf (pruned key now s)"
  by (simp add: pruned_def promotion_prune_wf prune_requested_reservation_wf prune_requested_rate_bucket_wf)

subsection \<open>Operations\<close>

lemma promotion_begin_pruned:
  "promotion_begin q now limits s =
     (let key = aq_reservation_key q; scope = rk_scope key; s = pruned key now s in
      case map_of (pp_reservations s) key of
        Some existing \<Rightarrow> (reservation_answer existing (aq_request_digest q), s)
      | None \<Rightarrow>
          if pl_max_reservations limits \<le> length (pp_reservations s) then (Inl PromotionStorageLimit, s)
          else (case consume_rate scope now limits s of
                  (Inl e, s) \<Rightarrow> (Inl e, s)
                | (Inr _, s) \<Rightarrow>
                    if pl_max_outstanding_per_scope limits \<le> outstanding_for_scope s scope
                    then (Inl PromotionOutstandingLimit, s)
                    else if pl_max_outstanding_per_route_component limits \<le> outstanding_for_route s (aq_route_component q)
                    then (Inl PromotionRouteComponentLimit, s)
                    else (Inr \<lparr>ad_instance_id = aq_proposed_instance_id q, ad_expires_at = aq_expires_at q\<rparr>,
                          reserve q s)))"
  by (simp only: promotion_begin_def pruned_def Let_def)

lemma promotion_begin_at:
  assumes "pruned (aq_reservation_key q) now s = p"
    and "consume_rate (rk_scope (aq_reservation_key q)) now limits p = (a, c)"
  shows "promotion_begin q now limits s =
    (case map_of (pp_reservations p) (aq_reservation_key q) of
       Some existing \<Rightarrow> (reservation_answer existing (aq_request_digest q), p)
     | None \<Rightarrow>
         if pl_max_reservations limits \<le> length (pp_reservations p) then (Inl PromotionStorageLimit, p)
         else (case a of
                 Inl e \<Rightarrow> (Inl e, c)
               | Inr _ \<Rightarrow>
                   if pl_max_outstanding_per_scope limits \<le> outstanding_for_scope c (rk_scope (aq_reservation_key q))
                   then (Inl PromotionOutstandingLimit, c)
                   else if pl_max_outstanding_per_route_component limits \<le> outstanding_for_route c (aq_route_component q)
                   then (Inl PromotionRouteComponentLimit, c)
                   else (Inr \<lparr>ad_instance_id = aq_proposed_instance_id q, ad_expires_at = aq_expires_at q\<rparr>,
                         reserve q c)))"
  by (simp add: promotion_begin_pruned Let_def assms split: option.splits sum.splits)

lemma consume_rate_same:
  "consume_rate scope now limits s = (a, s') \<Longrightarrow> pp_reservations s' = pp_reservations s
     \<and> pp_reservation_deadlines s' = pp_reservation_deadlines s \<and> pp_outstanding_by_scope s' = pp_outstanding_by_scope s
     \<and> pp_outstanding_by_route_component s' = pp_outstanding_by_route_component s \<and> (is_ok a \<or> s' = s)"
  by (auto simp: consume_rate_def split: option.splits sum.splits if_splits)

lemma consume_rate_wf:
  assumes "promotion_wf s" "consume_rate scope now limits s = (a, s')"
  shows "promotion_wf s'"
proof -
  note wf = wf_exceptD [OF assms(1)]
  note t = tables_wfD [OF wf(1)]
  have "tables_wf s'" using t assms(2)
    by (auto simp: consume_rate_def tables_wf_def split: option.splits sum.splits if_splits)
  moreover have "windows_scheduled {} (pp_rate_buckets s') (pp_rate_deadlines s')"
    using wf(4) t(4) assms(2)
    by (auto simp: consume_rate_def windows_scheduled_def update_conv' split: option.splits sum.splits if_splits)
  ultimately show ?thesis
    using wf(2,3) consume_rate_same [OF assms(2)] by (simp add: wf_except_def counters_exact_def)
qed

lemma reserve_wf:
  assumes "promotion_wf s" "map_of (pp_reservations s) (aq_reservation_key q) = None"
  shows "promotion_wf (reserve q s)"
proof (rule wf_exceptI)
  note wf = wf_exceptD [OF assms(1)]
  note t = tables_wfD [OF wf(1)]
  let ?t = "reserve q s"
  let ?r = "\<lparr>rv_route_component = aq_route_component q, rv_request_digest = aq_request_digest q,
    rv_instance_id = aq_proposed_instance_id q, rv_expires_at = aq_expires_at q,
    rv_status = PendingUntil (aq_lease_expires_at q) (aq_abandon_expires_at q)\<rparr>"
  have holds: "holds_slot ?r" by (simp add: holds_slot_def)
  show "tables_wf ?t" using t by (simp add: tables_wf_def reserve_def Let_def promo_defs)
  show "counters_exact ?t"
    using wf(2) counts_insert [OF _ t(1) assms(2) holds, of "\<lambda>k r. rk_scope k"]
      counts_insert [OF _ t(1) assms(2) holds, of "\<lambda>k r. rv_route_component r"]
    by (simp add: counters_exact_def reserve_def Let_def promo_defs)
  have "all_scheduled {aq_reservation_key q} (pp_reservations s) (pp_reservation_deadlines s)"
    using wf(3) by (simp add: all_scheduled_def)
  from all_scheduled_update [OF t(3) this, of ?r "aq_lease_expires_at q" PendingLease]
  show "all_scheduled {} (pp_reservations ?t) (pp_reservation_deadlines ?t)"
    by (simp add: reserve_def Let_def promo_defs resolution_of_def)
  show "windows_scheduled {} (pp_rate_buckets ?t) (pp_rate_deadlines ?t)"
    using wf(4) by (simp add: reserve_def Let_def promo_defs)
qed

lemma promotion_begin_wf:
  assumes "promotion_wf s"
  shows "promotion_wf (snd (promotion_begin q now limits s))"
proof -
  let ?key = "aq_reservation_key q"
  define p where "p = pruned ?key now s"
  have wf: "promotion_wf p" using pruned_wf [OF assms] by (simp add: p_def)
  obtain a c where c: "consume_rate (rk_scope ?key) now limits p = (a, c)" by fastforce
  have "promotion_wf (reserve q c)" if "map_of (pp_reservations p) ?key = None"
    using reserve_wf [OF consume_rate_wf [OF wf c]] consume_rate_same [OF c] that by simp
  then show ?thesis
    using wf consume_rate_wf [OF wf c] c
    by (auto simp: promotion_begin_pruned Let_def p_def [symmetric] split: option.splits sum.splits)
qed

lemma accepted_reservation_wf:
  assumes "promotion_wf s" "map_of (pp_reservations s) key = Some r" "holds_slot r"
  shows "promotion_wf (schedule_reservation_deadline e key AcceptedExpiry (s\<lparr>pp_reservations :=
    AList.update key (r\<lparr>rv_instance_id := i, rv_expires_at := e, rv_status := AcceptedReservation\<rparr>) (pp_reservations s)\<rparr>))"
    (is "promotion_wf ?t")
proof (rule wf_exceptI)
  note wf = wf_exceptD [OF assms(1)]
  note t = tables_wfD [OF wf(1)]
  let ?r = "r\<lparr>rv_instance_id := i, rv_expires_at := e, rv_status := AcceptedReservation\<rparr>"
  have holds: "holds_slot ?r" by (simp add: holds_slot_def)
  show "tables_wf ?t" using t by (simp add: tables_wf_def promo_defs)
  show "counters_exact ?t"
    using wf(2) counts_keep [OF _ t(1) assms(2,3) holds, of "\<lambda>k r. rk_scope k"]
      counts_keep [OF _ t(1) assms(2,3) holds, of "\<lambda>k r. rv_route_component r"]
    by (simp add: counters_exact_def promo_defs)
  have "all_scheduled {key} (pp_reservations s) (pp_reservation_deadlines s)"
    using wf(3) by (simp add: all_scheduled_def)
  from all_scheduled_update [OF t(3) this, of ?r e AcceptedExpiry]
  show "all_scheduled {} (pp_reservations ?t) (pp_reservation_deadlines ?t)"
    by (simp add: promo_defs resolution_of_def)
  show "windows_scheduled {} (pp_rate_buckets ?t) (pp_rate_deadlines ?t)"
    using wf(4) by (simp add: promo_defs)
qed

lemma promotion_accept_wf:
  assumes "promotion_wf s"
  shows "promotion_wf (snd (promotion_accept key digest i e now s))"
proof -
  define p where "p = prune_requested_reservation key now s"
  have wf: "promotion_wf p" using prune_requested_reservation_wf [OF assms] by (simp add: p_def)
  show ?thesis
    using wf accepted_reservation_wf [OF wf, of key]
    by (auto simp: promotion_accept_def Let_def p_def [symmetric] holds_slot_def
        split: option.splits reservation_status.splits)
qed

lemma promotion_abandon_cases:
  "promotion_abandon key digest s = s \<or> (\<exists>r l t. map_of (pp_reservations s) key = Some r \<and> holds_slot r
      \<and> rv_status r = PendingUntil l t \<and> promotion_abandon key digest s = abandon_reservation t key r s)"
  by (auto simp: promotion_abandon_def abandon_reservation_def holds_slot_def
      split: option.splits reservation_status.splits)

lemma promotion_abandon_wf:
  assumes "promotion_wf s"
  shows "promotion_wf (promotion_abandon key digest s)"
  using promotion_abandon_cases [of key digest s] assms
    abandon_reservation_wf [OF wf_except_weaken [OF assms, of "{key}" "{}"]] by auto

end
