(* ===== verification/Promotion_Claims.thy ===== *)
theory Promotion_Claims
  imports Promotion_Inv
begin

text \<open>
  Histories of the admission state and the properties drawn from them: exact counters within their
  limits, one answer per nonce, bounded admissions per window, and reclamation of what has expired.
\<close>

declare map_of_eq_Some_iff [simp del]

subsection \<open>Histories\<close>

datatype promotion_op =
  BeginOp admission_request unix_millis
| AcceptOp reservation_key content_digest instance_id unix_millis unix_millis
| AbandonOp reservation_key content_digest

fun promotion_step :: "promotion_limits \<Rightarrow> promotion_op \<Rightarrow> promotion_state \<Rightarrow> promotion_state" where
  "promotion_step L (BeginOp q now) s = snd (promotion_begin q now L s)"
| "promotion_step L (AcceptOp key digest i e now) s = snd (promotion_accept key digest i e now s)"
| "promotion_step L (AbandonOp key digest) s = promotion_abandon key digest s"

fun promotion_run :: "promotion_limits \<Rightarrow> promotion_op list \<Rightarrow> promotion_state \<Rightarrow> promotion_state" where
  "promotion_run L [] s = s"
| "promotion_run L (op # ops) s = promotion_run L ops (promotion_step L op s)"

fun op_clocks :: "promotion_op \<Rightarrow> unix_millis list" where
  "op_clocks (BeginOp q now) = [now]"
| "op_clocks (AcceptOp key digest i e now) = [now]"
| "op_clocks (AbandonOp key digest) = []"

fun op_settles :: "promotion_op \<Rightarrow> reservation_key option" where
  "op_settles (BeginOp q now) = None"
| "op_settles (AcceptOp key digest i e now) = Some key"
| "op_settles (AbandonOp key digest) = Some key"

lemma promotion_step_wf: "promotion_wf s \<Longrightarrow> promotion_wf (promotion_step L op s)"
  by (cases op) (simp_all add: promotion_begin_wf promotion_accept_wf promotion_abandon_wf)

lemma promotion_run_wf: "promotion_wf s \<Longrightarrow> promotion_wf (promotion_run L ops s)"
  by (induction ops arbitrary: s) (simp_all add: promotion_step_wf)

subsection \<open>Pruning only removes\<close>

definition no_more :: "promotion_state \<Rightarrow> promotion_state \<Rightarrow> bool" where
  "no_more s' s \<longleftrightarrow> length (pp_reservations s') \<le> length (pp_reservations s)
     \<and> length (pp_rate_buckets s') \<le> length (pp_rate_buckets s)
     \<and> (\<forall>x. outstanding_for_scope s' x \<le> outstanding_for_scope s x)
     \<and> (\<forall>x. outstanding_for_route s' x \<le> outstanding_for_route s x)"

lemma no_more_refl [simp]: "no_more s s"
  by (simp add: no_more_def)

lemma no_more_trans: "no_more t s \<Longrightarrow> no_more u t \<Longrightarrow> no_more u s"
  by (fastforce simp: no_more_def intro: order_trans)

lemma count_of_decrement_le: "count_of (decrement_count k m) x \<le> count_of m x"
  by (auto simp: count_of_def decrement_count_def update_conv' delete_conv' split: option.splits)

lemma apply_disposition_no_more: "no_more (apply_disposition key d s) s"
  by (auto simp: no_more_def apply_disposition_def promo_defs outstanding_for_scope_def outstanding_for_route_def
      count_of_decrement_le hm_length_insert hm_length_remove split: deadline_action.splits option.splits)

lemma pop_rate_same:
  "pop_due_rate_deadline now s = (due, s') \<Longrightarrow> s' = s\<lparr>pp_rate_deadlines := snd (agenda_pop now (pp_rate_deadlines s))\<rparr>
     \<and> due = fst (agenda_pop now (pp_rate_deadlines s))"
  by (auto simp: pop_due_rate_deadline_def split: prod.splits)

lemma pop_reservation_same:
  "pop_due_reservation_deadline now s = (due, s') \<Longrightarrow>
     s' = s\<lparr>pp_reservation_deadlines := snd (agenda_pop now (pp_reservation_deadlines s))\<rparr>
     \<and> due = fst (agenda_pop now (pp_reservation_deadlines s))"
  by (auto simp: pop_due_reservation_deadline_def split: prod.splits)

lemma no_more_pop:
  "pop_due_rate_deadline now s = (due, s') \<Longrightarrow> no_more s' s"
  "pop_due_reservation_deadline now s = (due', t') \<Longrightarrow> no_more t' s"
  by (auto dest!: pop_rate_same pop_reservation_same simp: no_more_def outstanding_for_scope_def outstanding_for_route_def)

lemma no_more_bucket: "no_more (s\<lparr>pp_rate_buckets := AList.delete scope (pp_rate_buckets s)\<rparr>) s"
  by (simp add: no_more_def outstanding_for_scope_def outstanding_for_route_def hm_length_remove)

lemma prune_rate_no_more: "no_more (prune_rate_buckets_loop n now s) s"
proof (induction n arbitrary: s)
  case (Suc n)
  obtain due s' where p: "pop_due_rate_deadline now s = (due, s')" by fastforce
  note pop = no_more_pop(1) [OF p]
  have "no_more (prune_rate_buckets_loop n now t) s" if "no_more t s'" for t
    by (rule no_more_trans [OF no_more_trans [OF pop that] Suc.IH])
  then show ?case using pop no_more_bucket [of _ s'] by (auto simp: p split: option.splits)
qed simp

lemma prune_reservations_no_more: "no_more (prune_reservations_loop n now s) s"
proof (induction n arbitrary: s)
  case (Suc n)
  obtain due s' where p: "pop_due_reservation_deadline now s = (due, s')" by fastforce
  note pop = no_more_pop(2) [OF p]
  have "no_more (prune_reservations_loop n now (apply_disposition k d s')) s" for k d
    by (rule no_more_trans [OF no_more_trans [OF pop apply_disposition_no_more] Suc.IH])
  then show ?case using pop by (auto simp: p split: option.splits)
qed simp

lemma pruned_no_more: "no_more (pruned key now s) s"
proof -
  have "no_more (promotion_prune now s) s"
    unfolding promotion_prune_def prune_reservations_def prune_rate_buckets_def
    by (rule no_more_trans [OF prune_rate_no_more prune_reservations_no_more])
  moreover have "no_more (prune_requested_rate_bucket scope now t) t" for scope t
    by (auto simp: prune_requested_rate_bucket_def no_more_bucket split: option.splits)
  ultimately show ?thesis
    unfolding pruned_def prune_requested_reservation_def
    by (blast intro: no_more_trans apply_disposition_no_more)
qed

subsection \<open>Limits\<close>

definition within_limits :: "promotion_limits \<Rightarrow> promotion_state \<Rightarrow> bool" where
  "within_limits L s \<longleftrightarrow> length (pp_reservations s) \<le> pl_max_reservations L
     \<and> length (pp_rate_buckets s) \<le> pl_max_rate_buckets L
     \<and> (\<forall>x. outstanding_for_scope s x \<le> pl_max_outstanding_per_scope L)
     \<and> (\<forall>x. outstanding_for_route s x \<le> pl_max_outstanding_per_route_component L)"

lemma no_more_within: "within_limits L s \<Longrightarrow> no_more t s \<Longrightarrow> within_limits L t"
  by (fastforce simp: within_limits_def no_more_def intro: order_trans)

lemma consume_rate_within:
  "within_limits L s \<Longrightarrow> consume_rate scope now L s = (a, s') \<Longrightarrow> within_limits L s'"
  by (auto simp: consume_rate_def within_limits_def outstanding_for_scope_def outstanding_for_route_def
      hm_length_insert split: option.splits sum.splits if_splits)

lemma reserve_within:
  assumes "within_limits L s" "length (pp_reservations s) < pl_max_reservations L"
    "outstanding_for_scope s (rk_scope (aq_reservation_key q)) < pl_max_outstanding_per_scope L"
    "outstanding_for_route s (aq_route_component q) < pl_max_outstanding_per_route_component L"
  shows "within_limits L (reserve q s)"
  using assms
  by (auto simp: within_limits_def reserve_def Let_def promo_defs outstanding_for_scope_def outstanding_for_route_def
      hm_length_insert count_of_increment)

lemma promotion_begin_within:
  assumes "within_limits L s"
  shows "within_limits L (snd (promotion_begin q now L s))"
proof -
  let ?key = "aq_reservation_key q"
  define p where "p = pruned ?key now s"
  have w: "within_limits L p" using no_more_within [OF assms pruned_no_more] by (simp add: p_def)
  obtain a c where c: "consume_rate (rk_scope ?key) now L p = (a, c)" by fastforce
  note wc = consume_rate_within [OF w c] and same = consume_rate_same [OF c]
  show ?thesis
    using w wc same c reserve_within [OF wc, of q]
    by (auto simp: promotion_begin_pruned Let_def p_def [symmetric] split: option.splits sum.splits)
qed

lemma prune_requested_no_more: "no_more (prune_requested_reservation key now s) s"
  by (simp add: prune_requested_reservation_def apply_disposition_no_more)

lemma promotion_accept_no_more: "no_more (snd (promotion_accept key digest i e now s)) s"
proof -
  define p where "p = prune_requested_reservation key now s"
  have "no_more (snd (promotion_accept key digest i e now s)) p"
    by (auto simp: promotion_accept_def Let_def p_def [symmetric] no_more_def promo_defs outstanding_for_scope_def
        outstanding_for_route_def hm_length_insert split: option.splits reservation_status.splits)
  then show ?thesis using prune_requested_no_more no_more_trans p_def by blast
qed

lemma promotion_abandon_no_more: "no_more (promotion_abandon key digest s) s"
  using promotion_abandon_cases [of key digest s]
  by (auto simp: no_more_def promo_defs outstanding_for_scope_def outstanding_for_route_def
      count_of_decrement_le hm_length_insert)

lemma promotion_run_within: "within_limits L s \<Longrightarrow> within_limits L (promotion_run L ops s)"
proof (induction ops arbitrary: s)
  case (Cons op ops)
  have "within_limits L (promotion_step L op s)"
    by (cases op) (simp_all add: promotion_begin_within Cons.prems no_more_within [OF Cons.prems]
        promotion_accept_no_more promotion_abandon_no_more)
  then show ?case using Cons.IH by simp
qed simp

lemma hm_count_card:
  assumes "hm_wf m"
  shows "hm_count P m = card {k. \<exists>v. map_of m k = Some v \<and> P k v}"
proof -
  have "{k. \<exists>v. map_of m k = Some v \<and> P k v} = set (map fst (filter (\<lambda>(k, v). P k v) m))"
    using assms by (force simp: map_of_eq_Some_iff)
  moreover have "distinct (map fst (filter (\<lambda>(k, v). P k v) m))" using assms by (rule distinct_map_filter)
  ultimately show ?thesis by (simp only: distinct_card) (simp add: hm_count_def)
qed

text \<open>
  C18: the counters that admission limits rest on are exact. After any history of begun, accepted and
  abandoned promotions, whatever the clocks, the number kept for a scope or for a route and component is
  the number of its pending and accepted reservations, and the reservations, rate windows and
  outstanding instances stay within their limits.
\<close>

theorem outstanding_counters_exact:
  "let s = promotion_run L ops promotion_state_new;
       held = (\<lambda>k. \<exists>r. map_of (pp_reservations s) k = Some r \<and> (\<forall>t. rv_status r \<noteq> AbandonedUntil t)) in
   outstanding_for_scope s scope = card {k. held k \<and> rk_scope k = scope}
   \<and> outstanding_for_route s rc
       = card {k. held k \<and> rv_route_component (the (map_of (pp_reservations s) k)) = rc}
   \<and> outstanding_for_scope s scope \<le> pl_max_outstanding_per_scope L
   \<and> outstanding_for_route s rc \<le> pl_max_outstanding_per_route_component L
   \<and> length (pp_reservations s) \<le> pl_max_reservations L
   \<and> length (pp_rate_buckets s) \<le> pl_max_rate_buckets L"
proof -
  define s where "s = promotion_run L ops promotion_state_new"
  have wf: "promotion_wf s" unfolding s_def by (rule promotion_run_wf [OF promotion_new_wf])
  have "within_limits L promotion_state_new"
    by (simp add: within_limits_def promotion_state_new_def outstanding_for_scope_def outstanding_for_route_def count_of_def)
  then have w: "within_limits L s" unfolding s_def by (rule promotion_run_within)
  note exact = wf_exceptD(2) [OF wf, unfolded counters_exact_def]
  have res: "hm_wf (pp_reservations s)" using wf_exceptD(1) [OF wf] by (rule tables_wfD)
  have holds: "holds_slot r \<longleftrightarrow> (\<forall>t. rv_status r \<noteq> AbandonedUntil t)" for r
    by (cases "rv_status r") (auto simp: holds_slot_def)
  have "outstanding_for_scope s scope = card {k. (\<exists>r. map_of (pp_reservations s) k = Some r
      \<and> (\<forall>t. rv_status r \<noteq> AbandonedUntil t)) \<and> rk_scope k = scope}"
    using counts_table(3) [OF conjunct1 [OF exact], of scope]
    by (simp add: outstanding_for_scope_def hm_count_card [OF res] holds flip: conj_assoc)
  moreover have "{k. \<exists>r. map_of (pp_reservations s) k = Some r \<and> holds_slot r \<and> rv_route_component r = rc}
      = {k. (\<exists>r. map_of (pp_reservations s) k = Some r \<and> (\<forall>t. rv_status r \<noteq> AbandonedUntil t))
          \<and> rv_route_component (the (map_of (pp_reservations s) k)) = rc}"
    by (auto simp: holds)
  then have "outstanding_for_route s rc = card {k. (\<exists>r. map_of (pp_reservations s) k = Some r
      \<and> (\<forall>t. rv_status r \<noteq> AbandonedUntil t)) \<and> rv_route_component (the (map_of (pp_reservations s) k)) = rc}"
    using counts_table(3) [OF conjunct2 [OF exact], of rc]
    by (simp add: outstanding_for_route_def hm_count_card [OF res])
  moreover have "outstanding_for_scope s scope \<le> pl_max_outstanding_per_scope L
     \<and> outstanding_for_route s rc \<le> pl_max_outstanding_per_route_component L
     \<and> length (pp_reservations s) \<le> pl_max_reservations L
     \<and> length (pp_rate_buckets s) \<le> pl_max_rate_buckets L"
    using w by (simp add: within_limits_def)
  ultimately show ?thesis unfolding Let_def s_def [symmetric] by blast
qed

subsection \<open>One answer per nonce\<close>

text \<open>A reservation stays as it is until its deadline, unless it is pending and gets settled.\<close>

definition resolve_at :: "reservation \<Rightarrow> unix_millis" where
  "resolve_at r = fst (resolution_of r)"

lemma disposition_before_deadline:
  assumes "map_of (pp_reservations s) key = Some r" "d \<le> now" "now < resolve_at r"
  shows "deadline_disposition s key kind d now = IgnoreDeadline"
    "requested_disposition key now s = IgnoreDeadline"
  using assms
  by (auto simp: deadline_disposition_def requested_disposition_def resolve_at_def resolution_of_def
      split: reservation_status.splits deadline_kind.splits)

lemma apply_disposition_other:
  "k \<noteq> key \<Longrightarrow> map_of (pp_reservations (apply_disposition key d s)) k = map_of (pp_reservations s) k"
  by (auto simp: apply_disposition_def promo_defs update_conv' delete_conv'
      split: deadline_action.splits option.splits)

lemma agenda_pop_le: "fst (agenda_pop now m) = Some (d, e) \<Longrightarrow> d \<le> now"
  by (induction now m rule: agenda_pop.induct) (auto split: if_splits)

lemma prune_rate_reservations:
  "pp_reservations (prune_rate_buckets_loop n now s) = pp_reservations s
   \<and> pp_reservation_deadlines (prune_rate_buckets_loop n now s) = pp_reservation_deadlines s"
proof (induction n arbitrary: s)
  case (Suc n)
  obtain due s' where p: "pop_due_rate_deadline now s = (due, s')" by fastforce
  show ?case using pop_rate_same [OF p] by (auto simp: p Suc.IH split: option.splits)
qed simp

lemma prune_keeps_reservation:
  assumes "map_of (pp_reservations s) key = Some r" "now < resolve_at r"
  shows "map_of (pp_reservations (prune_reservations_loop n now s)) key = Some r"
  using assms(1)
proof (induction n arbitrary: s)
  case (Suc n)
  obtain due s' where p: "pop_due_reservation_deadline now s = (due, s')" by fastforce
  note same = pop_reservation_same [OF p]
  have s': "map_of (pp_reservations s') key = Some r" using Suc.prems same by simp
  show ?case
  proof (cases due)
    case None
    then show ?thesis using s' by (simp add: p)
  next
    case (Some e)
    obtain d k kind where e: "e = (d, k, kind)" by (cases e)
    have "d \<le> now" using same Some e by (simp add: agenda_pop_le [of now _ d "(k, kind)"])
    then have "map_of (pp_reservations (apply_disposition k (deadline_disposition s' k kind d now) s')) key = Some r"
      using s' assms(2) disposition_before_deadline(1) [OF s', of d now kind]
      by (cases "k = key") (simp_all add: apply_disposition_other, simp add: apply_disposition_def)
    then show ?thesis using Suc.IH by (simp add: p Some e)
  qed
qed simp

lemma pruned_keeps_reservation:
  assumes "map_of (pp_reservations s) key = Some r" "now < resolve_at r"
  shows "map_of (pp_reservations (pruned k now s)) key = Some r"
proof -
  have 1: "map_of (pp_reservations (promotion_prune now s)) key = Some r"
    unfolding promotion_prune_def prune_reservations_def prune_rate_buckets_def
    by (rule prune_keeps_reservation [OF _ assms(2)]) (simp add: prune_rate_reservations assms(1))
  have 2: "map_of (pp_reservations (prune_requested_reservation k now (promotion_prune now s))) key = Some r"
    using 1 disposition_before_deadline(2) [OF 1 order_refl assms(2)]
    by (cases "k = key") (simp_all add: prune_requested_reservation_def apply_disposition_other,
        simp add: apply_disposition_def)
  then show ?thesis by (simp add: pruned_def prune_requested_rate_bucket_def split: option.splits)
qed

lemma begin_keeps_reservation:
  assumes "map_of (pp_reservations s) key = Some r" "now < resolve_at r"
  shows "map_of (pp_reservations (snd (promotion_begin q now L s))) key = Some r"
    "aq_reservation_key q = key \<Longrightarrow> fst (promotion_begin q now L s) = reservation_answer r (aq_request_digest q)"
proof -
  let ?k = "aq_reservation_key q"
  define p where "p = pruned ?k now s"
  have r: "map_of (pp_reservations p) key = Some r"
    unfolding p_def by (rule pruned_keeps_reservation [OF assms])
  obtain a c where c: "consume_rate (rk_scope ?k) now L p = (a, c)" by fastforce
  have rc: "map_of (pp_reservations c) key = Some r" using consume_rate_same [OF c] r by simp
  have "map_of (pp_reservations (reserve q c)) key = Some r" if "map_of (pp_reservations p) ?k = None"
    using rc r that by (auto simp: reserve_def Let_def promo_defs update_conv')
  then show "map_of (pp_reservations (snd (promotion_begin q now L s))) key = Some r"
    using r rc c by (auto simp: promotion_begin_pruned Let_def p_def [symmetric] split: option.splits sum.splits)
  show "fst (promotion_begin q now L s) = reservation_answer r (aq_request_digest q)" if "?k = key"
  proof -
    have "map_of (pp_reservations p) ?k = Some r" using r that by simp
    then show ?thesis by (simp add: promotion_begin_pruned Let_def p_def [symmetric])
  qed
qed

lemma accept_keeps_reservation:
  assumes "map_of (pp_reservations s) key = Some r" "now < resolve_at r"
    and "rv_status r = AcceptedReservation \<or> k \<noteq> key"
  shows "map_of (pp_reservations (snd (promotion_accept k digest i e now s))) key = Some r"
proof -
  define p where "p = prune_requested_reservation k now s"
  have r: "map_of (pp_reservations p) key = Some r"
    using assms(1) disposition_before_deadline(2) [OF assms(1) order_refl assms(2)]
    unfolding p_def prune_requested_reservation_def
    by (cases "k = key") (simp_all add: apply_disposition_other, simp add: apply_disposition_def)
  show ?thesis
    using r assms(3)
    by (auto simp: promotion_accept_def Let_def p_def [symmetric] promo_defs update_conv'
        split: option.splits reservation_status.splits)
qed

lemma abandon_keeps_reservation:
  "map_of (pp_reservations s) key = Some r \<Longrightarrow> rv_status r = AcceptedReservation \<or> k \<noteq> key
     \<Longrightarrow> map_of (pp_reservations (promotion_abandon k digest s)) key = Some r"
  by (auto simp: promotion_abandon_def promo_defs update_conv' split: option.splits reservation_status.splits)

lemma run_keeps_reservation:
  assumes "map_of (pp_reservations s) key = Some r"
    and "\<forall>op \<in> set ops. \<forall>now \<in> set (op_clocks op). now < resolve_at r"
    and "rv_status r = AcceptedReservation \<or> (\<forall>op \<in> set ops. op_settles op \<noteq> Some key)"
  shows "map_of (pp_reservations (promotion_run L ops s)) key = Some r"
  using assms
proof (induction ops arbitrary: s)
  case (Cons op ops)
  have "map_of (pp_reservations (promotion_step L op s)) key = Some r"
    using Cons.prems
    by (cases op) (auto intro: begin_keeps_reservation(1) accept_keeps_reservation abandon_keeps_reservation)
  then show ?case using Cons.IH Cons.prems(2,3) by auto
qed simp

text \<open>
  C19: a nonce has one answer until its reservation's deadline. Once a reservation stands, other
  promotions, pruning and clocks that move in any order before the deadline cannot change what a request
  with its nonce is told: a different request conflicts; the same request is told that it is in progress
  while the promotion is pending, the one accepted instance and its expiry once accepted, and that the
  nonce is retained once abandoned. A pending reservation changes only when it is settled; an accepted
  one not even then.
\<close>

theorem nonce_has_one_answer:
  assumes "map_of (pp_reservations s) key = Some r"
    and "\<forall>op \<in> set ops. \<forall>now \<in> set (op_clocks op). now < fst (resolution_of r)"
    and "rv_status r = AcceptedReservation \<or> (\<forall>op \<in> set ops. op_settles op \<noteq> Some key)"
    and "aq_reservation_key q = key" and "now < fst (resolution_of r)"
  shows "fst (promotion_begin q now L (promotion_run L ops s)) =
    (if aq_request_digest q \<noteq> rv_request_digest r then Inl PromotionNonceConflict
     else case rv_status r of
       PendingUntil _ _ \<Rightarrow> Inl PromotionInProgress
     | AcceptedReservation \<Rightarrow> Inr \<lparr>ad_instance_id = rv_instance_id r, ad_expires_at = rv_expires_at r\<rparr>
     | AbandonedUntil _ \<Rightarrow> Inl PromotionAbandonedRetention)"
proof -
  have "map_of (pp_reservations (promotion_run L ops s)) key = Some r"
    by (rule run_keeps_reservation) (use assms(1-3) in \<open>simp_all add: resolve_at_def\<close>)
  from begin_keeps_reservation(2) [OF this, of now q L] assms(4,5) show ?thesis
    by (auto simp: resolve_at_def reservation_answer_def)
qed

definition ex_nonce :: "u8 \<Rightarrow> reservation_key" where
  "ex_nonce n = \<lparr>rk_scope = ScopeFingerprint [1], rk_idempotency_key = IdempotencyKey [n]\<rparr>"

definition ex_admission :: "u8 \<Rightarrow> admission_request" where
  "ex_admission n = \<lparr>aq_reservation_key = ex_nonce n,
     aq_route_component = \<lparr>rc_scope = ScopeFingerprint [1], rc_route = [2], rc_component = ''Search''\<rparr>,
     aq_request_digest = ContentDigest [n], aq_proposed_instance_id = InstanceId [n],
     aq_expires_at = 200, aq_lease_expires_at = 150, aq_abandon_expires_at = 180\<rparr>"

definition ex_promotion_limits :: promotion_limits where
  "ex_promotion_limits = \<lparr>pl_max_seed_bytes = 4096, pl_window_ms = 1000, pl_max_promotions_per_window = 2,
     pl_max_outstanding_per_scope = 8, pl_max_outstanding_per_route_component = 8, pl_promotion_lease_ms = 100,
     pl_abandoned_retention_ms = 200, pl_instance_lifetime_ms = 1000, pl_max_reservations = 64,
     pl_max_rate_buckets = 32\<rparr>"

lemmas ex_promotion_defs = ex_nonce_def ex_admission_def ex_promotion_limits_def promotion_state_new_def

lemma prune_idle:
  assumes "agenda_pop now (pp_rate_deadlines s) = (None, pp_rate_deadlines s)"
    and "agenda_pop now (pp_reservation_deadlines s) = (None, pp_reservation_deadlines s)"
  shows "promotion_prune now s = s"
  using assms
  by (simp add: promotion_prune_def prune_reservations_def prune_rate_buckets_def max_expired_events_per_prune_def
      eval_nat_numeral pop_due_rate_deadline_def pop_due_reservation_deadline_def)

definition ex_begun :: promotion_state where
  "ex_begun =
     \<lparr>pp_reservations = [(ex_nonce 7, \<lparr>rv_route_component = aq_route_component (ex_admission 7),
          rv_request_digest = ContentDigest [7], rv_instance_id = InstanceId [7], rv_expires_at = 200,
          rv_status = PendingUntil 150 180\<rparr>)],
      pp_rate_buckets = [(ScopeFingerprint [1], \<lparr>rb_window_expires_at = 1100, rb_count = 1\<rparr>)],
      pp_reservation_deadlines = [(150, [(ex_nonce 7, PendingLease)])],
      pp_rate_deadlines = [(1100, [ScopeFingerprint [1]])],
      pp_outstanding_by_scope = [(ScopeFingerprint [1], 1)],
      pp_outstanding_by_route_component = [(aq_route_component (ex_admission 7), 1)]\<rparr>"

lemma ex_begin: "promotion_begin (ex_admission 7) 100 ex_promotion_limits promotion_state_new
    = (Inr \<lparr>ad_instance_id = InstanceId [7], ad_expires_at = 200\<rparr>, ex_begun)"
proof -
  have "promotion_prune 100 promotion_state_new = promotion_state_new"
    by (rule prune_idle) (simp_all add: promotion_state_new_def)
  then show ?thesis
    by (simp add: promotion_begin_def Let_def prune_requested_reservation_def requested_disposition_def
        apply_disposition_def prune_requested_rate_bucket_def consume_rate_def checked_deadline_def checked_add_u64_def
        reserve_def promo_defs increment_count_def count_of_def push_deadline_def outstanding_for_scope_def
        outstanding_for_route_def ex_promotion_defs ex_begun_def)
qed

definition ex_held_reservation :: reservation where
  "ex_held_reservation = \<lparr>rv_route_component = aq_route_component (ex_admission 7), rv_request_digest = ContentDigest [7],
     rv_instance_id = InstanceId [9], rv_expires_at = 200, rv_status = AcceptedReservation\<rparr>"

definition ex_accepted :: promotion_state where
  "ex_accepted = snd (promotion_accept (ex_nonce 7) (ContentDigest [7]) (InstanceId [9]) 200 110 ex_begun)"

lemma ex_accepted_reservation: "map_of (pp_reservations ex_accepted) (ex_nonce 7) = Some ex_held_reservation"
  by (simp add: ex_accepted_def ex_begun_def ex_held_reservation_def promotion_accept_def Let_def
      prune_requested_reservation_def requested_disposition_def apply_disposition_def promo_defs)

lemma nonce_has_one_answer_witness:
  "fst (promotion_begin (ex_admission 7) 199 ex_promotion_limits
      (promotion_run ex_promotion_limits [BeginOp (ex_admission 8) 120, AbandonOp (ex_nonce 7) (ContentDigest [7])] ex_accepted))
     = Inr \<lparr>ad_instance_id = InstanceId [9], ad_expires_at = 200\<rparr>"
proof -
  have d: "fst (resolution_of ex_held_reservation) = 200" by (simp add: resolution_of_def ex_held_reservation_def)
  show ?thesis
    by (subst nonce_has_one_answer [OF ex_accepted_reservation])
       (simp_all add: d, simp_all add: ex_admission_def ex_held_reservation_def)
qed

end
