(* ===== verification/Promotion_Rate.thy ===== *)
theory Promotion_Rate
  imports Promotion_Claims
begin

text \<open>
  The fixed rate window of a scope over a whole history, and how pruning reclaims what has expired.
\<close>

declare map_of_eq_Some_iff [simp del]

subsection \<open>Admissions in one window length\<close>

text \<open>A request admits a new promotion when it succeeds without an existing reservation.\<close>

fun admits :: "promotion_limits \<Rightarrow> scope_fingerprint \<Rightarrow> promotion_op \<Rightarrow> promotion_state \<Rightarrow> nat" where
  "admits L scope (BeginOp q now) s =
     (if rk_scope (aq_reservation_key q) = scope
         \<and> map_of (pp_reservations (pruned (aq_reservation_key q) now s)) (aq_reservation_key q) = None
         \<and> is_ok (fst (promotion_begin q now L s)) then 1 else 0)"
| "admits L scope op s = 0"

fun admissions :: "promotion_limits \<Rightarrow> scope_fingerprint \<Rightarrow> promotion_op list \<Rightarrow> promotion_state \<Rightarrow> nat" where
  "admissions L scope [] s = 0"
| "admissions L scope (op # ops) s = admits L scope op s + admissions L scope ops (promotion_step L op s)"

text \<open>
  What a scope may still be admitted before time \<open>e\<close>: the rest of its window, and a whole further
  window when the current one ends before \<open>e\<close>.
\<close>

definition allowance :: "promotion_limits \<Rightarrow> scope_fingerprint \<Rightarrow> nat \<Rightarrow> promotion_state \<Rightarrow> nat" where
  "allowance L scope e s = (case map_of (pp_rate_buckets s) scope of
      None \<Rightarrow> pl_max_promotions_per_window L
    | Some b \<Rightarrow> (pl_max_promotions_per_window L - rb_count b)
        + (if e \<le> unat (rb_window_expires_at b) then 0 else pl_max_promotions_per_window L))"

lemma allowance_bound: "allowance L scope e s \<le> 2 * pl_max_promotions_per_window L"
  by (auto simp: allowance_def split: option.splits)

lemma allowance_cong: "pp_rate_buckets t = pp_rate_buckets s \<Longrightarrow> allowance L scope e t = allowance L scope e s"
  by (simp add: allowance_def)

text \<open>Removing a window that has ended by \<open>now < e\<close>.\<close>

lemma allowance_remove:
  assumes "map_of (pp_rate_buckets s) scope' = Some b" "rb_window_expires_at b \<le> now" "unat now < e"
  shows "allowance L scope e (s\<lparr>pp_rate_buckets := AList.delete scope' (pp_rate_buckets s)\<rparr>) \<le> allowance L scope e s"
  using assms by (auto simp: allowance_def delete_conv' word_le_nat_alt split: option.splits)

lemma allowance_prune_rate:
  assumes "unat now < e"
  shows "allowance L scope e (prune_rate_buckets_loop n now s) \<le> allowance L scope e s"
proof (induction n arbitrary: s)
  case (Suc n)
  obtain due s' where p: "pop_due_rate_deadline now s = (due, s')" by fastforce
  note same = pop_rate_same [OF p]
  have eq: "allowance L scope e s' = allowance L scope e s" by (rule allowance_cong) (simp add: same)
  have keep: "allowance L scope e (prune_rate_buckets_loop n now t) \<le> allowance L scope e s"
    if "allowance L scope e t \<le> allowance L scope e s" for t
    by (rule order_trans [OF Suc.IH that])
  show ?case
  proof (cases due)
    case None
    then show ?thesis using eq by (simp add: p)
  next
    case (Some x)
    obtain d scope' where x: "x = (d, scope')" by (cases x)
    have d: "d \<le> now" using same Some x by (simp add: agenda_pop_le [of now _ d scope'])
    have "allowance L scope e (s'\<lparr>pp_rate_buckets := AList.delete scope' (pp_rate_buckets s')\<rparr>) \<le> allowance L scope e s"
      if "map_of (pp_rate_buckets s') scope' = Some b" "rb_window_expires_at b = d" for b
      by (rule order_trans [OF allowance_remove [OF that(1) _ assms]]) (use that(2) d eq in simp_all)
    then show ?thesis using eq by (auto simp: p Some x split: option.splits intro!: keep)
  qed
qed simp

lemma apply_disposition_buckets: "pp_rate_buckets (apply_disposition key d s) = pp_rate_buckets s"
  by (simp add: apply_disposition_def promo_defs split: deadline_action.splits option.splits)

lemma prune_reservations_buckets: "pp_rate_buckets (prune_reservations_loop n now s) = pp_rate_buckets s"
proof (induction n arbitrary: s)
  case (Suc n)
  obtain due s' where p: "pop_due_reservation_deadline now s = (due, s')" by fastforce
  show ?case
    using pop_reservation_same [OF p] by (auto simp: p Suc.IH apply_disposition_buckets split: option.splits)
qed simp

lemma allowance_pruned:
  assumes "unat now < e"
  shows "allowance L scope e (pruned key now s) \<le> allowance L scope e s"
proof -
  let ?t = "prune_requested_reservation key now (promotion_prune now s)"
  have "allowance L scope e ?t = allowance L scope e (prune_rate_buckets_loop max_expired_events_per_prune now s)"
    by (rule allowance_cong)
       (simp add: prune_requested_reservation_def apply_disposition_buckets promotion_prune_def prune_reservations_def
         prune_rate_buckets_def prune_reservations_buckets)
  then have "allowance L scope e ?t \<le> allowance L scope e s" using allowance_prune_rate [OF assms] by simp
  moreover have "allowance L scope e (pruned key now s) \<le> allowance L scope e ?t"
    using allowance_remove [OF _ _ assms]
    by (auto simp: pruned_def prune_requested_rate_bucket_def split: option.splits)
  ultimately show ?thesis by (rule order_trans [rotated])
qed

lemma allowance_consume:
  assumes "consume_rate scope' now L s = (a, s')" "0 < pl_max_promotions_per_window L"
    and "e \<le> unat now + unat (pl_window_ms L)"
  shows "allowance L scope e s' + (if is_ok a \<and> scope' = scope then 1 else 0) \<le> allowance L scope e s"
proof (cases "map_of (pp_rate_buckets s) scope'")
  case None
  then show ?thesis
    using assms checked_add_u64_unat [of now "pl_window_ms L"]
    by (cases "checked_deadline now (pl_window_ms L)")
       (auto simp: consume_rate_def checked_deadline_def allowance_def update_conv' split: if_splits option.splits)
next
  case (Some b)
  then show ?thesis
    using assms(1)
    by (auto simp: consume_rate_def allowance_def update_conv' split: if_splits option.splits)
qed

lemma allowance_begin:
  assumes "0 < pl_max_promotions_per_window L" "unat now < e" "e \<le> unat now + unat (pl_window_ms L)"
  shows "allowance L scope e (snd (promotion_begin q now L s)) + admits L scope (BeginOp q now) s \<le> allowance L scope e s"
proof -
  let ?k = "aq_reservation_key q"
  define p where "p = pruned ?k now s"
  have ps: "allowance L scope e p \<le> allowance L scope e s" unfolding p_def by (rule allowance_pruned [OF assms(2)])
  obtain a c where c: "consume_rate (rk_scope ?k) now L p = (a, c)" by fastforce
  note consumed = allowance_consume [OF c assms(1,3), of scope]
  have r: "allowance L scope e (reserve q c) = allowance L scope e c"
    by (rule allowance_cong) (simp add: reserve_def Let_def promo_defs)
  show ?thesis
  proof (cases "map_of (pp_reservations p) ?k = None \<and> length (pp_reservations p) < pl_max_reservations L \<and> is_ok a")
    case True
    then obtain u where a: "a = Inr u" by (auto simp: is_ok_iff)
    have "snd (promotion_begin q now L s) = c \<or> snd (promotion_begin q now L s) = reserve q c"
      using True a by (simp add: promotion_begin_at [OF p_def [symmetric] c])
    then have "allowance L scope e (snd (promotion_begin q now L s)) = allowance L scope e c" using r by auto
    moreover have "admits L scope (BeginOp q now) s \<le> (if is_ok a \<and> rk_scope ?k = scope then 1 else 0)"
      using True by simp
    ultimately show ?thesis using ps consumed by linarith
  next
    case False
    have "admits L scope (BeginOp q now) s = 0 \<and> snd (promotion_begin q now L s) = p"
    proof (cases "map_of (pp_reservations p) ?k")
      case None
      then have "snd (promotion_begin q now L s) = p \<and> \<not> is_ok (fst (promotion_begin q now L s))"
        using False consume_rate_same [OF c] by (cases a) (simp_all add: promotion_begin_at [OF p_def [symmetric] c])
      then show ?thesis by simp
    next
      case (Some existing)
      then show ?thesis by (simp add: promotion_begin_at [OF p_def [symmetric] c] p_def [symmetric])
    qed
    then show ?thesis using ps by simp
  qed
qed

lemma allowance_step:
  assumes "0 < pl_max_promotions_per_window L"
    and "\<forall>now \<in> set (op_clocks op). unat now < e \<and> e \<le> unat now + unat (pl_window_ms L)"
  shows "allowance L scope e (promotion_step L op s) + admits L scope op s \<le> allowance L scope e s"
proof (cases op)
  case (BeginOp q now)
  have "unat now < e" "e \<le> unat now + unat (pl_window_ms L)" using assms(2) BeginOp by simp_all
  from allowance_begin [OF assms(1) this] show ?thesis by (simp only: BeginOp promotion_step.simps)
next
  case (AcceptOp key digest i x now)
  have "pp_rate_buckets (snd (promotion_accept key digest i x now s)) = pp_rate_buckets s"
    by (simp add: promotion_accept_def Let_def prune_requested_reservation_def apply_disposition_buckets promo_defs
        split: option.splits reservation_status.splits)
  from allowance_cong [OF this] show ?thesis using AcceptOp by simp
next
  case (AbandonOp key digest)
  have "pp_rate_buckets (promotion_abandon key digest s) = pp_rate_buckets s"
    by (simp add: promotion_abandon_def promo_defs split: option.splits reservation_status.splits)
  from allowance_cong [OF this] show ?thesis using AbandonOp by simp
qed

lemma allowance_run:
  assumes "0 < pl_max_promotions_per_window L"
    and "\<forall>op \<in> set ops. \<forall>now \<in> set (op_clocks op). unat now < e \<and> e \<le> unat now + unat (pl_window_ms L)"
  shows "admissions L scope ops s \<le> allowance L scope e s"
  using assms(2)
proof (induction ops arbitrary: s)
  case (Cons op ops)
  have "admissions L scope ops (promotion_step L op s) \<le> allowance L scope e (promotion_step L op s)"
    using Cons by simp
  moreover have "allowance L scope e (promotion_step L op s) + admits L scope op s \<le> allowance L scope e s"
    using allowance_step [OF assms(1), of op e scope s] Cons.prems by simp
  ultimately show ?case by simp
qed simp

text \<open>
  C33: the rate of a scope is bounded whatever the clocks do. Under validated limits, any operations
  whose clocks all fall into one stretch as long as the window, in any order, admit at most two
  windows' worth of new promotions for a scope, and at most the rest of one window when the scope's window
  does not end inside the stretch.
\<close>

theorem admissions_are_rate_limited:
  assumes "promotion_limits_new config = Inr L"
    and "\<forall>op \<in> set ops. \<forall>now \<in> set (op_clocks op).
           unat start \<le> unat now \<and> unat now < unat start + unat (pl_window_ms L)"
  shows "admissions L scope ops s \<le> 2 * pl_max_promotions_per_window L
    \<and> (\<forall>b. map_of (pp_rate_buckets s) scope = Some b \<and> unat start + unat (pl_window_ms L) \<le> unat (rb_window_expires_at b)
        \<longrightarrow> admissions L scope ops s \<le> pl_max_promotions_per_window L - rb_count b)"
proof -
  have pos: "0 < pl_max_promotions_per_window L"
    using assms(1) by (auto simp: promotion_limits_new_def split: if_splits)
  have run: "admissions L scope ops s \<le> allowance L scope (unat start + unat (pl_window_ms L)) s"
    by (rule allowance_run [OF pos]) (use assms(2) in auto)
  show ?thesis
    using run allowance_bound [of L scope "unat start + unat (pl_window_ms L)" s] by (auto simp: allowance_def)
qed

lemma admissions_are_rate_limited_witness:
  "admissions ex_promotion_limits (ScopeFingerprint [1])
     [BeginOp (ex_admission 8) 120, BeginOp (ex_admission 9) 130, BeginOp (ex_admission 10) 125] promotion_state_new \<le> 4"
proof -
  have "promotion_limits_new ex_promotion_limits = Inr ex_promotion_limits"
    by (simp add: promotion_limits_new_def ex_promotion_limits_def max_seed_bytes_def hard_max_input_bytes_def
        max_window_ms_def max_promotions_per_window_def max_outstanding_def max_promotion_lease_ms_def
        max_abandoned_retention_ms_def max_promoted_lifetime_ms_def max_policy_entries_def)
  from admissions_are_rate_limited [OF this, of
      "[BeginOp (ex_admission 8) 120, BeginOp (ex_admission 9) 130, BeginOp (ex_admission 10) 125]" 100
      "ScopeFingerprint [1]" promotion_state_new]
  show ?thesis by (simp add: ex_promotion_limits_def)
qed

subsection \<open>Reclamation\<close>

lemma apply_disposition_due:
  assumes "agenda_wf (pp_reservation_deadlines s)" "d = deadline_disposition s key kind deadline now"
  shows "due_events now (pp_reservation_deadlines (apply_disposition key d s)) = due_events now (pp_reservation_deadlines s)"
proof (cases d)
  case (AbandonReservation t)
  have "\<not> t \<le> now"
    using assms(2) AbandonReservation
    by (auto simp: deadline_disposition_def split: option.splits reservation_status.splits deadline_kind.splits if_splits)
  then show ?thesis
    using assms(1) AbandonReservation
    by (auto simp: apply_disposition_def promo_defs due_events_push split: option.splits)
qed (auto simp: apply_disposition_def promo_defs split: option.splits)

lemma due_after_none:
  "agenda_wf m \<Longrightarrow> fst (agenda_pop now m) = None \<Longrightarrow> due_events now m = 0"
  by (cases m) (force simp: due_events_def sum_list_eq_0_iff split: if_splits)+

lemma prune_reservations_due:
  assumes "promotion_wf s"
  shows "due_events now (pp_reservation_deadlines (prune_reservations_loop n now s))
    = due_events now (pp_reservation_deadlines s) - n"
  using assms
proof (induction n arbitrary: s)
  case (Suc n)
  note t = tables_wfD(3) [OF wf_exceptD(1) [OF Suc.prems]]
  obtain due s' where p: "pop_due_reservation_deadline now s = (due, s')" by fastforce
  note same = pop_reservation_same [OF p]
  show ?case
  proof (cases due)
    case None
    then show ?thesis using due_after_none [OF t, of now] pop_none_same(2) [OF Suc.prems, of now s'] same by (simp add: p)
  next
    case (Some x)
    obtain d key kind where x: "x = (d, key, kind)" by (cases x)
    let ?u = "apply_disposition key (deadline_disposition s' key kind d now) s'"
    have "promotion_wf ?u" using reservation_event_wf [OF Suc.prems] p Some x by simp
    moreover have "agenda_wf (pp_reservation_deadlines s')" using same agenda_pop_wf [OF t] by simp
    then have "due_events now (pp_reservation_deadlines ?u) = due_events now (pp_reservation_deadlines s')"
      by (rule apply_disposition_due) simp
    moreover have "Suc (due_events now (pp_reservation_deadlines s')) = due_events now (pp_reservation_deadlines s)"
      using agenda_pop_Some(4) [OF t, of now d "(key, kind)"] same Some x by simp
    ultimately show ?thesis using Suc.IH [of ?u] by (simp add: p Some x)
  qed
qed simp

lemma prune_rate_due:
  assumes "promotion_wf s"
  shows "due_events now (pp_rate_deadlines (prune_rate_buckets_loop n now s)) = due_events now (pp_rate_deadlines s) - n"
  using assms
proof (induction n arbitrary: s)
  case (Suc n)
  note t = tables_wfD(4) [OF wf_exceptD(1) [OF Suc.prems]]
  obtain due s' where p: "pop_due_rate_deadline now s = (due, s')" by fastforce
  note same = pop_rate_same [OF p]
  show ?case
  proof (cases due)
    case None
    then show ?thesis using due_after_none [OF t, of now] pop_none_same(1) [OF Suc.prems, of now s'] same by (simp add: p)
  next
    case (Some x)
    obtain d scope where x: "x = (d, scope)" by (cases x)
    define u where "u = (case map_of (pp_rate_buckets s') scope of
        Some bucket \<Rightarrow> if rb_window_expires_at bucket = d
          then s'\<lparr>pp_rate_buckets := AList.delete scope (pp_rate_buckets s')\<rparr> else s'
      | None \<Rightarrow> s')"
    have "promotion_wf u" unfolding u_def using rate_event_wf [OF Suc.prems] p Some x by simp
    moreover have "pp_rate_deadlines u = pp_rate_deadlines s'" by (simp add: u_def split: option.splits)
    moreover have "Suc (due_events now (pp_rate_deadlines s')) = due_events now (pp_rate_deadlines s)"
      using agenda_pop_Some(4) [OF t, of now d scope] same Some x by simp
    ultimately show ?thesis using Suc.IH [of u] by (simp add: p Some x u_def [symmetric])
  qed
qed simp

lemma prune_reservations_rate_deadlines:
  "pp_rate_deadlines (prune_reservations_loop n now s) = pp_rate_deadlines s"
proof (induction n arbitrary: s)
  case (Suc n)
  obtain due s' where p: "pop_due_reservation_deadline now s = (due, s')" by fastforce
  have "pp_rate_deadlines (apply_disposition k d s') = pp_rate_deadlines s'" for k d
    by (simp add: apply_disposition_def promo_defs split: deadline_action.splits option.splits)
  then show ?case using pop_reservation_same [OF p] by (auto simp: p Suc.IH split: option.splits)
qed simp

lemma promotion_prune_due:
  assumes "promotion_wf s"
  shows "due_events now (pp_reservation_deadlines (promotion_prune now s)) = due_events now (pp_reservation_deadlines s) - 64"
    "due_events now (pp_rate_deadlines (promotion_prune now s)) = due_events now (pp_rate_deadlines s) - 64"
  using prune_reservations_due [OF prune_rate_buckets_loop_wf [OF assms]] prune_rate_due [OF assms]
  by (simp_all add: promotion_prune_def prune_reservations_def prune_rate_buckets_def max_expired_events_per_prune_def
      prune_rate_reservations prune_reservations_rate_deadlines)

lemma prunes_wf: "promotion_wf s \<Longrightarrow> promotion_wf ((promotion_prune now ^^ n) s)"
  by (induction n) (simp_all add: promotion_prune_wf)

lemma prunes_due:
  assumes "promotion_wf s"
  shows "due_events now (pp_reservation_deadlines ((promotion_prune now ^^ n) s)) = due_events now (pp_reservation_deadlines s) - 64 * n
    \<and> due_events now (pp_rate_deadlines ((promotion_prune now ^^ n) s)) = due_events now (pp_rate_deadlines s) - 64 * n"
  by (induction n) (simp_all add: promotion_prune_due [OF prunes_wf [OF assms]] add.commute)

text \<open>
  C37: nothing expired is kept for ever. In any reachable state, pruning at a time takes 64 of the events
  due by then from each agenda and adds none; so after as many prunings as the due events divided by 64,
  rounded up, no reservation and no rate window whose deadline has passed is left.
\<close>

theorem pruning_reclaims_expired:
  assumes "s = promotion_run L ops promotion_state_new"
    and "due_events now (pp_reservation_deadlines s) \<le> 64 * n" "due_events now (pp_rate_deadlines s) \<le> 64 * n"
    and "t = (promotion_prune now ^^ n) s"
  shows "(\<forall>key r. map_of (pp_reservations t) key = Some r \<longrightarrow> now < fst (resolution_of r))
    \<and> (\<forall>scope b. map_of (pp_rate_buckets t) scope = Some b \<longrightarrow> now < rb_window_expires_at b)"
proof -
  have "promotion_wf s" unfolding assms(1) by (rule promotion_run_wf [OF promotion_new_wf])
  note wf = prunes_wf [OF this, of n now, folded assms(4)] and due = prunes_due [OF this, of now n, folded assms(4)]
  note a = tables_wfD(3,4) [OF wf_exceptD(1) [OF wf]]
  have z: "due_events now (pp_reservation_deadlines t) = 0" "due_events now (pp_rate_deadlines t) = 0"
    using due assms(2,3) by simp_all
  show ?thesis
    using wf_exceptD(3,4) [OF wf] due_events_0 [OF a(1) z(1)] due_events_0 [OF a(2) z(2)]
    unfolding all_scheduled_def windows_scheduled_def by blast
qed

lemma pruning_reclaims_expired_witness:
  "\<nexists>key r. map_of (pp_reservations ((promotion_prune 160 ^^ 1) ex_begun)) key = Some r
     \<and> fst (resolution_of r) \<le> (160 :: u64)"
proof -
  have "ex_begun = promotion_run ex_promotion_limits [BeginOp (ex_admission 7) 100] promotion_state_new"
    by (simp add: ex_begin)
  from pruning_reclaims_expired [OF this, of 160 1] show ?thesis
    by (auto simp: ex_begun_def due_events_def not_le)
qed

end
