(* ===== verification/Promotion_Service.thy ===== *)
theory Promotion_Service
  imports Promotion_Claims Big_Endian Ledger_Contract
begin

text \<open>
  What the promotion service does around the admission state:
  \<open>crates/suprnova-live/src/promotion/service.rs\<close>. The lock is taken once before the ledger is called
  and once after it, so a promotion is two steps of the shared state with anything in between:
  \<open>promote_admission\<close> up to the ledger call and \<open>promote_settlement\<close> after it. The ledger is a port of
  the host (\<open>None\<close> when it fails), a clock reading is \<open>None\<close> when the clock fails, the digest function is a
  parameter. The verification of the seed that comes first is not part of this model: the steps take the
  route, component and refresh flag it yields.
\<close>

declare map_of_eq_Some_iff [simp del]

definition promotion_digest_domain :: string where
  "promotion_digest_domain = ''suprnova-live/promotion-request/v1''"

definition promotion_digest :: "(u8 list \<Rightarrow> u8 list) \<Rightarrow> u8 list \<Rightarrow> u8 list \<Rightarrow> promotion_error + content_digest" where
  "promotion_digest sha encoded_seed browser_nonce =
     (if usize_max < length encoded_seed then Inl PromotionInputTooLarge
      else map_err (\<lambda>_. PromotionProviderInvariant)
        (map_ok ContentDigest (binary_from_bytes 32 32
          (sha (text_bytes promotion_digest_domain @ u64_be_bytes (of_nat (length encoded_seed))
                @ encoded_seed @ browser_nonce)))))"

text \<open>\<open>PromotionService::new\<close>, over the two limits of the snapshot layer that it compares with.\<close>

definition promotion_service_limits :: "usize \<Rightarrow> u64 \<Rightarrow> promotion_limits \<Rightarrow> promotion_error + promotion_limits" where
  "promotion_service_limits snapshot_max_bytes snapshot_max_lifetime L =
     (if snapshot_max_bytes < pl_max_seed_bytes L \<or> snapshot_max_lifetime < pl_instance_lifetime_ms L
      then Inl PromotionInvalidConfiguration else Inr L)"

definition promote_admission ::
  "scope_fingerprint \<Rightarrow> u8 list \<Rightarrow> string \<Rightarrow> idempotency_key \<Rightarrow> content_digest \<Rightarrow> instance_id
     \<Rightarrow> unix_millis \<Rightarrow> promotion_limits \<Rightarrow> promotion_state \<Rightarrow> (promotion_error + promotion_record) \<times> promotion_state" where
  "promote_admission scope route component key request_digest proposed now L s =
     (case and_then (checked_deadline now (pl_instance_lifetime_ms L)) (\<lambda>expires_at.
           and_then (checked_deadline now (pl_promotion_lease_ms L)) (\<lambda>lease_expires_at.
           and_then (checked_deadline lease_expires_at (pl_abandoned_retention_ms L)) (\<lambda>abandon_expires_at.
           Inr \<lparr>aq_reservation_key = \<lparr>rk_scope = scope, rk_idempotency_key = key\<rparr>,
                aq_route_component = \<lparr>rc_scope = scope, rc_route = route, rc_component = component\<rparr>,
                aq_request_digest = request_digest, aq_proposed_instance_id = proposed, aq_expires_at = expires_at,
                aq_lease_expires_at = lease_expires_at, aq_abandon_expires_at = abandon_expires_at\<rparr>))) of
        Inl e \<Rightarrow> (Inl e, s)
      | Inr q \<Rightarrow>
         (case promotion_begin q now L s of
            (Inl e, s) \<Rightarrow> (Inl e, s)
          | (Inr admission, s) \<Rightarrow>
              (Inr \<lparr>pr_scope = scope, pr_instance_id = ad_instance_id admission, pr_idempotency_key = key,
                    pr_request_digest = request_digest, pr_initial_revision = 0,
                    pr_expires_at = ad_expires_at admission\<rparr>, s)))"

text \<open>What the service checks of the authority a ledger returns.\<close>

definition authority_acceptable :: "promotion_limits \<Rightarrow> unix_millis \<Rightarrow> unix_millis \<Rightarrow> instance_authority \<Rightarrow> bool" where
  "authority_acceptable L now completed_at authority \<longleftrightarrow>
     \<not> (completed_at < now \<or> ia_revision authority \<noteq> 0 \<or> ia_expires_at authority \<le> completed_at
        \<or> pl_instance_lifetime_ms L < saturating_sub_u64 (ia_expires_at authority) completed_at)"

definition promote_settlement ::
  "reservation_key \<Rightarrow> content_digest \<Rightarrow> unix_millis \<Rightarrow> promotion_limits \<Rightarrow> promotion_outcome option
     \<Rightarrow> unix_millis option \<Rightarrow> promotion_state \<Rightarrow> (promotion_error + instance_authority) \<times> promotion_state" where
  "promote_settlement key request_digest now L ledger_outcome completion s =
     (let fail = (\<lambda>e s. (Inl e, promotion_abandon key request_digest s));
          settle = (\<lambda>authority. case completion of
              None \<Rightarrow> fail PromotionProviderInvariant s
            | Some completed_at \<Rightarrow>
                if \<not> authority_acceptable L now completed_at authority then fail PromotionProviderInvariant s
                else (case promotion_accept key request_digest (ia_instance_id authority) (ia_expires_at authority)
                             completed_at s of
                        (True, s) \<Rightarrow> (Inr authority, s)
                      | (False, s) \<Rightarrow> fail PromotionProviderInvariant s))
      in case ledger_outcome of
           Some (PromotionCreated authority) \<Rightarrow> settle authority
         | Some (PromotionExisting authority) \<Rightarrow> settle authority
         | Some PromotionConflict \<Rightarrow> fail PromotionNonceConflict s
         | None \<Rightarrow> fail PromotionLedgerUnavailable s)"

subsection \<open>Settlement\<close>

lemma abandon_not_pending:
  "map_of (pp_reservations (promotion_abandon key digest s)) key = Some r \<Longrightarrow> rv_request_digest r = digest
     \<Longrightarrow> rv_status r \<noteq> PendingUntil l t"
  by (auto simp: promotion_abandon_def promo_defs update_conv' split: option.splits reservation_status.splits if_splits)

lemma accept_accepts:
  "promotion_accept key digest i e now s = (True, s') \<Longrightarrow>
     \<exists>r. map_of (pp_reservations s') key = Some r \<and> rv_request_digest r = digest \<and> rv_instance_id r = i
       \<and> rv_expires_at r = e \<and> rv_status r = AcceptedReservation"
  by (auto simp: promotion_accept_def Let_def promo_defs update_conv' split: option.splits reservation_status.splits if_splits)

text \<open>
  C24: a promotion settles. Whatever the ledger and the clock answered and whatever happened to the shared
  state since admission, after settlement no reservation of this request is left pending; success returns
  the ledger's authority at its first revision, unexpired and within the lifetime, and from then on, under
  any further operations before that expiry, the same request is answered with exactly that instance and
  any other request with its nonce conflicts.
\<close>

theorem promotion_settles:
  assumes "promote_settlement key digest now L outcome completion s = (answer, s')"
  shows "(\<forall>r l t. map_of (pp_reservations s') key = Some r \<and> rv_request_digest r = digest \<longrightarrow> rv_status r \<noteq> PendingUntil l t)
    \<and> (\<forall>a. answer = Inr a \<longrightarrow>
         (outcome = Some (PromotionCreated a) \<or> outcome = Some (PromotionExisting a)) \<and> ia_revision a = 0
         \<and> (\<exists>moment. completion = Some moment \<and> now \<le> moment \<and> moment < ia_expires_at a
              \<and> unat (ia_expires_at a) \<le> unat moment + unat (pl_instance_lifetime_ms L))
         \<and> (\<forall>ops q later L'. (\<forall>op \<in> set ops. \<forall>t \<in> set (op_clocks op). t < ia_expires_at a)
              \<and> aq_reservation_key q = key \<and> later < ia_expires_at a \<longrightarrow>
              fst (promotion_begin q later L' (promotion_run L' ops s')) =
                (if aq_request_digest q = digest
                 then Inr \<lparr>ad_instance_id = ia_instance_id a, ad_expires_at = ia_expires_at a\<rparr>
                 else Inl PromotionNonceConflict)))"
proof (cases answer)
  case (Inl e)
  have "\<exists>u. s' = promotion_abandon key digest u"
    using assms Inl
    by (auto simp: promote_settlement_def Let_def split: option.splits promotion_outcome.splits if_splits prod.splits bool.splits)
  then show ?thesis using Inl abandon_not_pending by blast
next
  case (Inr a)
  have settled: "(outcome = Some (PromotionCreated a) \<or> outcome = Some (PromotionExisting a))
      \<and> (\<exists>moment. completion = Some moment \<and> authority_acceptable L now moment a
          \<and> promotion_accept key digest (ia_instance_id a) (ia_expires_at a) moment s = (True, s'))"
    using assms Inr
    by (auto simp: promote_settlement_def Let_def split: option.splits promotion_outcome.splits if_splits prod.splits bool.splits)
  then obtain moment where moment: "completion = Some moment" "authority_acceptable L now moment a"
    and acc: "promotion_accept key digest (ia_instance_id a) (ia_expires_at a) moment s = (True, s')" by blast
  from accept_accepts [OF acc] obtain r where r: "map_of (pp_reservations s') key = Some r"
    "rv_request_digest r = digest" "rv_instance_id r = ia_instance_id a" "rv_expires_at r = ia_expires_at a"
    "rv_status r = AcceptedReservation" by blast
  have d: "resolve_at r = ia_expires_at a" using r by (simp add: resolve_at_def resolution_of_def)
  have life: "ia_revision a = 0 \<and> now \<le> moment \<and> moment < ia_expires_at a
      \<and> unat (ia_expires_at a) \<le> unat moment + unat (pl_instance_lifetime_ms L)"
    using moment(2) unat_saturating_sub_u64 [of "ia_expires_at a" moment]
    by (auto simp: authority_acceptable_def not_less not_le word_le_nat_alt word_less_nat_alt)
  have answered: "fst (promotion_begin q later L' (promotion_run L' ops s')) =
      (if aq_request_digest q = digest
       then Inr \<lparr>ad_instance_id = ia_instance_id a, ad_expires_at = ia_expires_at a\<rparr>
       else Inl PromotionNonceConflict)"
    if q: "\<forall>op \<in> set ops. \<forall>t \<in> set (op_clocks op). t < ia_expires_at a" "aq_reservation_key q = key"
      "later < ia_expires_at a" for ops q later L'
  proof -
    have "map_of (pp_reservations (promotion_run L' ops s')) key = Some r"
      by (rule run_keeps_reservation [OF r(1)]) (use q(1) d r(5) in simp_all)
    from begin_keeps_reservation(2) [OF this _ q(2), of later L'] q(3) d r show ?thesis
      by (auto simp: reservation_answer_def)
  qed
  show ?thesis using settled moment(1) life answered r Inr by auto
qed

definition ex_authority :: instance_authority where
  "ex_authority = \<lparr>ia_instance_id = InstanceId [9], ia_revision = 0, ia_expires_at = 200\<rparr>"

lemma promotion_settles_witness:
  "fst (promotion_begin (ex_admission 7) 199 ex_promotion_limits ex_accepted)
     = Inr \<lparr>ad_instance_id = InstanceId [9], ad_expires_at = 200\<rparr>"
proof -
  have "fst (promotion_accept (ex_nonce 7) (ContentDigest [7]) (InstanceId [9]) 200 110 ex_begun)"
    by (simp add: ex_begun_def promotion_accept_def Let_def prune_requested_reservation_def
        requested_disposition_def apply_disposition_def promo_defs)
  then have acc: "promotion_accept (ex_nonce 7) (ContentDigest [7]) (InstanceId [9]) 200 110 ex_begun = (True, ex_accepted)"
    by (simp add: ex_accepted_def prod_eq_iff)
  have "authority_acceptable ex_promotion_limits 100 110 ex_authority"
    by (simp add: authority_acceptable_def ex_authority_def ex_promotion_limits_def saturating_sub_u64_def)
  then have s: "promote_settlement (ex_nonce 7) (ContentDigest [7]) 100 ex_promotion_limits
      (Some (PromotionCreated ex_authority)) (Some 110) ex_begun = (Inr ex_authority, ex_accepted)"
    using acc by (simp add: promote_settlement_def ex_authority_def)
  have "aq_reservation_key (ex_admission 7) = ex_nonce 7" "aq_request_digest (ex_admission 7) = ContentDigest [7]"
    by (simp_all add: ex_admission_def)
  moreover note promotion_settles [OF s, THEN conjunct2, THEN spec, of ex_authority, THEN mp, OF refl,
    THEN conjunct2, THEN conjunct2, THEN conjunct2, THEN spec, of "[]", THEN spec, of "ex_admission 7",
    THEN spec, of 199, THEN spec, of ex_promotion_limits, THEN mp]
  ultimately show ?thesis by (simp add: ex_authority_def)
qed

end
