(* ===== verification/Rate_Limiter.thy ===== *)
theory Rate_Limiter
  imports Main "HOL-Library.AList"
begin

text \<open>
  The sliding-window rate limiter of the framework: the bucket of
  \<open>framework/src/rate_limit/algorithm.rs\<close> and the in-memory driver of \<open>framework/src/rate_limit/memory.rs\<close>.
  An \<open>Instant\<close> is a number of nanoseconds and \<open>saturating_duration_since\<close> is subtraction on the natural
  numbers; a key's shard of the \<open>DashMap\<close> is locked for a whole request, which reads its clock under that
  lock, so a request is one step of the map from keys to buckets. The task that calls the sweep on a
  timer is not modelled: a sweep is a step that may come at any time.
\<close>

subsection \<open>Buckets\<close>

type_synonym instant = nat
type_synonym duration = nat

record bucket =
  bk_hits :: "instant list"
  bk_retention_window :: duration

definition bucket_new :: bucket where
  "bucket_new = \<lparr>bk_hits = [], bk_retention_window = 0\<rparr>"

fun evict_hits :: "duration \<Rightarrow> instant \<Rightarrow> instant list \<Rightarrow> instant list" where
  "evict_hits window now [] = []"
| "evict_hits window now (front # hits) =
     (if window \<le> now - front then evict_hits window now hits else front # hits)"

definition evict_old :: "duration \<Rightarrow> instant \<Rightarrow> bucket \<Rightarrow> bucket" where
  "evict_old window now b = b\<lparr>bk_hits := evict_hits window now (bk_hits b)\<rparr>"

text \<open>
  \<open>partition_point\<close> is the length of the prefix that satisfies the predicate, on a list that satisfies it
  on a prefix and nowhere after; hits in time order are such a list.
\<close>

definition active_count :: "duration \<Rightarrow> instant \<Rightarrow> bucket \<Rightarrow> nat" where
  "active_count window now b =
     length (bk_hits b) - length (takeWhile (\<lambda>hit. window \<le> now - hit) (bk_hits b))"

definition bucket_try_record :: "nat \<Rightarrow> duration \<Rightarrow> instant \<Rightarrow> bucket \<Rightarrow> bool \<times> bucket" where
  "bucket_try_record limit window now b =
     (let b = b\<lparr>bk_retention_window := max (bk_retention_window b) window\<rparr>;
          b = evict_old (bk_retention_window b) now b
      in if active_count window now b < limit then (True, b\<lparr>bk_hits := bk_hits b @ [now]\<rparr>)
         else (False, b))"

definition bucket_retry_after :: "nat \<Rightarrow> duration \<Rightarrow> instant \<Rightarrow> bucket \<Rightarrow> duration option" where
  "bucket_retry_after limit window now b =
     (if active_count window now b < limit then None
      else if length (bk_hits b) < limit then None
      else if length (bk_hits b) \<le> length (bk_hits b) - limit then None
      else Some (window - (now - bk_hits b ! (length (bk_hits b) - limit))))"

definition is_inactive :: "duration \<Rightarrow> instant \<Rightarrow> bucket \<Rightarrow> bool" where
  "is_inactive window now b =
     (bk_hits b = [] \<or> max window (bk_retention_window b) \<le> now - List.last (bk_hits b))"

subsection \<open>The in-memory driver\<close>

type_synonym limiter = "(string \<times> bucket) list"

definition limiter_bucket :: "string \<Rightarrow> limiter \<Rightarrow> bucket" where
  "limiter_bucket key m = (case map_of m key of Some b \<Rightarrow> b | None \<Rightarrow> bucket_new)"

definition try_acquire :: "string \<Rightarrow> nat \<Rightarrow> duration \<Rightarrow> instant \<Rightarrow> limiter \<Rightarrow> bool \<times> limiter" where
  "try_acquire key limit window now m =
     (let (granted, b) = bucket_try_record limit window now (limiter_bucket key m) in (granted, AList.update key b m))"

definition limiter_retry_after :: "string \<Rightarrow> nat \<Rightarrow> duration \<Rightarrow> instant \<Rightarrow> limiter \<Rightarrow> duration option" where
  "limiter_retry_after key limit window now m =
     (case map_of m key of None \<Rightarrow> None | Some b \<Rightarrow> bucket_retry_after limit window now b)"

definition limiter_sweep :: "duration \<Rightarrow> instant \<Rightarrow> limiter \<Rightarrow> nat \<times> limiter" where
  "limiter_sweep window now m =
     (length (filter (\<lambda>(_, b). is_inactive window now b) m), filter (\<lambda>(_, b). \<not> is_inactive window now b) m)"

definition bucket_count :: "limiter \<Rightarrow> nat" where
  "bucket_count m = length m"

subsection \<open>The reference\<close>


definition in_window :: "duration \<Rightarrow> instant \<Rightarrow> instant list \<Rightarrow> nat" where
  "in_window window now g = length (filter (\<lambda>t. now - t < window) g)"

datatype limiter_op =
  Acquire string nat duration instant
| RetryAfter string nat duration instant
| Sweep duration instant

datatype limiter_answer = Granted bool | Waits "duration option" | Swept

fun limiter_step :: "limiter_op \<Rightarrow> limiter \<Rightarrow> limiter_answer \<times> limiter" where
  "limiter_step (Acquire key limit window now) m =
     (let (granted, m) = try_acquire key limit window now m in (Granted granted, m))"
| "limiter_step (RetryAfter key limit window now) m = (Waits (limiter_retry_after key limit window now m), m)"
| "limiter_step (Sweep window now) m = (Swept, snd (limiter_sweep window now m))"


fun limiter_run :: "limiter_op list \<Rightarrow> limiter \<Rightarrow> limiter_answer list \<times> limiter" where
  "limiter_run [] m = ([], m)"
| "limiter_run (op # ops) m = (let (a, m) = limiter_step op m; (as, m) = limiter_run ops m in (a # as, m))"





subsection \<open>Windows of ordered hits\<close>









lemma in_window_later: "now \<le> t \<Longrightarrow> in_window w t h \<le> in_window w now h"
  unfolding in_window_def by (induction h) auto


subsection \<open>Simulation\<close>














subsection \<open>Two edges\<close>

text \<open>
  A limit of zero refuses every request, and the question when to come back is answered as if the next
  request would be granted.
\<close>

lemma zero_limit_refuses_without_wait:
  "\<not> fst (bucket_try_record 0 window now b) \<and> bucket_retry_after 0 window now b = None"
  by (simp add: bucket_try_record_def bucket_retry_after_def Let_def)

text \<open>
  A bucket that a sweep removes takes the longest window seen with it: when one key is used with two
  windows, hits that a later request with the longer window should count are evicted by the shorter one.
  Without the sweep the same requests are refused.
\<close>

lemma sweep_forgets_longer_window:
  "fst (limiter_run [Acquire ''a'' 2 100 0, Sweep 0 100, Acquire ''a'' 9 10 101, Acquire ''a'' 9 10 112,
      Acquire ''a'' 2 100 115] []) = [Granted True, Swept, Granted True, Granted True, Granted True]
   \<and> fst (limiter_run [Acquire ''a'' 2 100 0, Acquire ''a'' 9 10 101, Acquire ''a'' 9 10 112,
      Acquire ''a'' 2 100 115] []) = [Granted True, Granted True, Granted True, Granted False]"
  by (simp add: try_acquire_def bucket_try_record_def evict_old_def active_count_def limiter_bucket_def bucket_new_def
        limiter_sweep_def is_inactive_def)

end
