(* ===== verification/Cron.thy ===== *)
theory Cron
  imports Identity
begin

text \<open>
  Cron expressions of the scheduler: \<open>framework/src/schedule/expression.rs\<close>. A field keeps its parts and
  the text they were written as; a \<open>u32\<close> is a natural number below \<open>2 ^ 32\<close>. Where the code formats an error
  message, the error carries what the message names. Text is ASCII, and the whitespace of
  \<open>split_whitespace\<close> its six ASCII characters. The clock library is third-party: an instant is a minute
  count, and the wall clock that reads its fields in a time zone is the parameter \<open>wall\<close>.
\<close>

subsection \<open>Splitting and numbers\<close>

fun split_char :: "char \<Rightarrow> string \<Rightarrow> string list" where
  "split_char d [] = [[]]"
| "split_char d (c # s) =
     (if c = d then [] # split_char d s
      else case split_char d s of x # xs \<Rightarrow> (c # x) # xs | [] \<Rightarrow> [[c]])"

text \<open>\<open>split_once\<close>: before and after the first occurrence.\<close>

fun split_once :: "char \<Rightarrow> string \<Rightarrow> (string \<times> string) option" where
  "split_once d [] = None"
| "split_once d (c # s) =
     (if c = d then Some ([], s) else map_option (\<lambda>(a, b). (c # a, b)) (split_once d s))"

definition is_space :: "char \<Rightarrow> bool" where
  "is_space c \<longleftrightarrow> char_code c = 32 \<or> 9 \<le> char_code c \<and> char_code c \<le> 13"

fun split_whitespace :: "string \<Rightarrow> string list" where
  "split_whitespace [] = []"
| "split_whitespace (c # s) =
     (if is_space c then split_whitespace s
      else case s of
        [] \<Rightarrow> [[c]]
      | c' # _ \<Rightarrow> (if is_space c' then [c] # split_whitespace s
                  else (case split_whitespace s of x # xs \<Rightarrow> (c # x) # xs | [] \<Rightarrow> [[c]])))"

definition join_with :: "string \<Rightarrow> string list \<Rightarrow> string" where
  "join_with sep xs = (case xs of [] \<Rightarrow> [] | x # xs \<Rightarrow> x @ concat (map (\<lambda>y. sep @ y) xs))"

text \<open>\<open>str::parse::<u32>\<close>.\<close>

definition u32_max :: nat where "u32_max = 4294967295"

definition parse_u32_digits :: "string \<Rightarrow> nat option" where
  "parse_u32_digits s =
     (if s \<noteq> [] \<and> list_all is_ascii_digit s \<and> digits_value s \<le> u32_max then Some (digits_value s) else None)"

definition str_parse_u32 :: "string \<Rightarrow> nat option" where
  "str_parse_u32 s =
     (case s of c # cs \<Rightarrow> if c = CHR ''+'' then parse_u32_digits cs else parse_u32_digits s
      | [] \<Rightarrow> None)"

subsection \<open>Fields\<close>

datatype day_of_week = Sunday | Monday | Tuesday | Wednesday | Thursday | Friday | Saturday

fun day_number :: "day_of_week \<Rightarrow> nat" where
  "day_number Sunday = 0"
| "day_number Monday = 1"
| "day_number Tuesday = 2"
| "day_number Wednesday = 3"
| "day_number Thursday = 4"
| "day_number Friday = 5"
| "day_number Saturday = 6"

datatype cron_error =
  CronInvalid string string
| CronStepZero string string string
| CronBackwards string nat nat string
| CronOutOfRange string string nat string
| CronFieldCount nat
| CronTimeSegments string
| CronTimeNumber string string string
| CronEveryMinutes nat
| CronHourlyAt nat
| CronDailyHour nat
| CronDailyMinute nat
| CronMonthlyOn nat

record cron_part =
  part_first :: nat
  part_last :: nat
  part_step :: nat

definition part_matches :: "cron_part \<Rightarrow> nat \<Rightarrow> bool" where
  "part_matches p v \<longleftrightarrow> part_first p \<le> v \<and> v \<le> part_last p \<and> (v - part_first p) mod part_step p = 0"

record field_bounds =
  fb_min :: nat
  fb_max :: nat
  fb_name :: string

definition minute_bounds :: field_bounds where
  "minute_bounds = \<lparr>fb_min = 0, fb_max = 59, fb_name = ''minute''\<rparr>"
definition hour_bounds :: field_bounds where
  "hour_bounds = \<lparr>fb_min = 0, fb_max = 23, fb_name = ''hour''\<rparr>"
definition day_of_month_bounds :: field_bounds where
  "day_of_month_bounds = \<lparr>fb_min = 1, fb_max = 31, fb_name = ''day-of-month''\<rparr>"
definition month_bounds :: field_bounds where
  "month_bounds = \<lparr>fb_min = 1, fb_max = 12, fb_name = ''month''\<rparr>"
definition day_of_week_bounds :: field_bounds where
  "day_of_week_bounds = \<lparr>fb_min = 0, fb_max = 6, fb_name = ''day-of-week''\<rparr>"

definition bounds_check :: "field_bounds \<Rightarrow> nat \<Rightarrow> string \<Rightarrow> string \<Rightarrow> cron_error + unit" where
  "bounds_check b v label raw =
     (if v < fb_min b \<or> fb_max b < v then Inl (CronOutOfRange (fb_name b) label v raw) else Inr ())"

definition parse_number :: "string \<Rightarrow> string \<Rightarrow> string \<Rightarrow> cron_error + nat" where
  "parse_number field s what = ok_or (CronInvalid what field) (str_parse_u32 s)"

text \<open>The first and last value of a part, once its step is known.\<close>

definition part_range :: "string \<Rightarrow> string \<Rightarrow> nat option \<Rightarrow> bool \<Rightarrow> field_bounds \<Rightarrow> cron_error + nat \<times> nat" where
  "part_range head field step in_list b =
     (if head = ''*'' then Inr (fb_min b, fb_max b)
      else case split_once CHR ''-'' head of
        Some (from_text, to_text) \<Rightarrow>
          and_then (parse_number field from_text ''range start'') (\<lambda>range_start.
          and_then (parse_number field to_text ''range end'') (\<lambda>range_end.
            if range_end < range_start then Inl (CronBackwards (fb_name b) range_start range_end field)
            else and_then (bounds_check b range_start ''range start'' field) (\<lambda>_.
                 and_then (bounds_check b range_end ''range end'' field) (\<lambda>_. Inr (range_start, range_end)))))
      | None \<Rightarrow>
          if step \<noteq> None
          then and_then (parse_number field head ''start value'') (\<lambda>start.
               and_then (bounds_check b start ''start'' field) (\<lambda>_. Inr (start, fb_max b)))
          else (let (what, label) = (if in_list then (''list value'', ''list entry'') else (''value'', ''value''))
                in and_then (parse_number field head what) (\<lambda>v.
                   and_then (bounds_check b v label field) (\<lambda>_. Inr (v, v)))))"

definition cron_part_parse :: "string \<Rightarrow> string \<Rightarrow> bool \<Rightarrow> field_bounds \<Rightarrow> cron_error + cron_part" where
  "cron_part_parse part field in_list b =
     and_then (case split_once CHR ''/'' part of
                 Some (head, step) \<Rightarrow> and_then (parse_number field step ''step value'') (\<lambda>n. Inr (head, Some n))
               | None \<Rightarrow> Inr (part, None)) (\<lambda>(head, step).
       if step = Some 0 then Inl (CronStepZero (fb_name b) part field)
       else and_then (part_range head field step in_list b) (\<lambda>(first, last).
         Inr \<lparr>part_first = first, part_last = last, part_step = (case step of Some n \<Rightarrow> n | None \<Rightarrow> 1)\<rparr>))"

datatype cron_field = AnyValue | Parts "cron_part list" string

definition field_value :: "nat \<Rightarrow> cron_field" where
  "field_value v = Parts [\<lparr>part_first = v, part_last = v, part_step = 1\<rparr>] (nat_to_dec v)"

fun field_matches :: "cron_field \<Rightarrow> nat \<Rightarrow> bool" where
  "field_matches AnyValue v = True"
| "field_matches (Parts parts s) v = list_ex (\<lambda>p. part_matches p v) parts"

fun is_any :: "cron_field \<Rightarrow> bool" where
  "is_any AnyValue = True"
| "is_any (Parts parts s) = False"

definition cron_field_parse :: "string \<Rightarrow> field_bounds \<Rightarrow> cron_error + cron_field" where
  "cron_field_parse s b =
     (if s = ''*'' then Inr AnyValue
      else and_then (collect_ok (\<lambda>part. cron_part_parse part s (CHR '','' \<in> set s) b) (split_char CHR '','' s))
             (\<lambda>parts. Inr (Parts parts s)))"

fun field_display :: "cron_field \<Rightarrow> string" where
  "field_display AnyValue = ''*''"
| "field_display (Parts parts s) = s"

subsection \<open>Expressions\<close>

record cron_expression =
  ce_raw :: string
  ce_minute :: cron_field
  ce_hour :: cron_field
  ce_day_of_month :: cron_field
  ce_month :: cron_field
  ce_day_of_week :: cron_field

definition cron_parse :: "string \<Rightarrow> cron_error + cron_expression" where
  "cron_parse expression =
     (case split_whitespace expression of
        [p0, p1, p2, p3, p4] \<Rightarrow>
          and_then (cron_field_parse p0 minute_bounds) (\<lambda>mi.
          and_then (cron_field_parse p1 hour_bounds) (\<lambda>h.
          and_then (cron_field_parse p2 day_of_month_bounds) (\<lambda>dom.
          and_then (cron_field_parse p3 month_bounds) (\<lambda>mo.
          and_then (cron_field_parse p4 day_of_week_bounds) (\<lambda>dow.
            Inr \<lparr>ce_raw = expression, ce_minute = mi, ce_hour = h, ce_day_of_month = dom, ce_month = mo,
                 ce_day_of_week = dow\<rparr>)))))
      | parts \<Rightarrow> Inl (CronFieldCount (length parts)))"

record wall_clock =
  wc_minute :: nat
  wc_hour :: nat
  wc_day :: nat
  wc_month :: nat
  wc_weekday :: nat

definition is_due_at :: "cron_expression \<Rightarrow> wall_clock \<Rightarrow> bool" where
  "is_due_at e now =
     (let dom_match = field_matches (ce_day_of_month e) (wc_day now);
          dow_match = field_matches (ce_day_of_week e) (wc_weekday now);
          day_ok = (if \<not> is_any (ce_day_of_month e) \<and> \<not> is_any (ce_day_of_week e)
                    then dom_match \<or> dow_match else dom_match \<and> dow_match)
      in field_matches (ce_minute e) (wc_minute now) \<and> field_matches (ce_hour e) (wc_hour now)
         \<and> field_matches (ce_month e) (wc_month now) \<and> day_ok)"

definition next_run_scan_minutes :: nat where
  "next_run_scan_minutes = (8 * 366 + 2) * 24 * 60 + 1"

text \<open>
  The scan from the first whole minute after \<open>after\<close>, a count of seconds here; \<open>calendar_end\<close> is the last
  minute the clock library can represent.
\<close>

fun next_run_scan :: "(nat \<Rightarrow> wall_clock) \<Rightarrow> nat \<Rightarrow> cron_expression \<Rightarrow> nat \<Rightarrow> nat \<Rightarrow> nat option" where
  "next_run_scan wall calendar_end e 0 candidate = None"
| "next_run_scan wall calendar_end e (Suc n) candidate =
     (if is_due_at e (wall candidate) then Some candidate
      else if calendar_end < candidate + 1 then None
      else next_run_scan wall calendar_end e n (candidate + 1))"

definition next_run_after :: "(nat \<Rightarrow> wall_clock) \<Rightarrow> nat \<Rightarrow> cron_expression \<Rightarrow> nat \<Rightarrow> nat option" where
  "next_run_after wall calendar_end e after_seconds =
     (let candidate = after_seconds div 60 + 1 in
      if calendar_end < candidate then None
      else next_run_scan wall calendar_end e next_run_scan_minutes candidate)"

definition fields_text :: "cron_expression \<Rightarrow> string" where
  "fields_text e = join_with '' '' [field_display (ce_minute e), field_display (ce_hour e),
     field_display (ce_day_of_month e), field_display (ce_month e), field_display (ce_day_of_week e)]"

subsection \<open>Changing an expression\<close>

definition parse_hh_mm :: "string \<Rightarrow> cron_error + nat \<times> nat" where
  "parse_hh_mm time =
     (let parts = split_char CHR '':'' time;
          number = (\<lambda>index what. ok_or (CronTimeNumber what (parts ! index) time) (str_parse_u32 (parts ! index)))
      in if 3 < length parts then Inl (CronTimeSegments time)
         else and_then (number 0 ''hour'') (\<lambda>hour.
              and_then (if 1 < length parts then number 1 ''minute'' else Inr 0) (\<lambda>minute.
              and_then (if 2 < length parts then number 2 ''second'' else Inr 0) (\<lambda>_.
                Inr (hour, minute)))))"

definition set_time :: "nat \<Rightarrow> nat \<Rightarrow> cron_expression \<Rightarrow> cron_expression" where
  "set_time hour minute e =
     (let e = e\<lparr>ce_hour := field_value hour, ce_minute := field_value minute\<rparr> in e\<lparr>ce_raw := fields_text e\<rparr>)"

definition cron_at :: "string \<Rightarrow> cron_expression \<Rightarrow> cron_expression" where
  "cron_at time e = (case parse_hh_mm time of Inr (hour, minute) \<Rightarrow> set_time hour minute e | Inl _ \<Rightarrow> e)"

definition cron_try_at :: "string \<Rightarrow> cron_expression \<Rightarrow> cron_error + cron_expression" where
  "cron_try_at time e = and_then (parse_hh_mm time) (\<lambda>(hour, minute). Inr (set_time hour minute e))"

definition day_range_text :: "day_of_week \<times> day_of_week \<Rightarrow> string" where
  "day_range_text r = (if fst r = snd r then nat_to_dec (day_number (fst r))
     else nat_to_dec (day_number (fst r)) @ ''-'' @ nat_to_dec (day_number (snd r)))"

definition with_day_ranges :: "(day_of_week \<times> day_of_week) list \<Rightarrow> cron_expression \<Rightarrow> cron_expression" where
  "with_day_ranges ranges e =
     (if ranges = [] then e
      else let e = e\<lparr>ce_day_of_week := Parts
             (map (\<lambda>(first, last). \<lparr>part_first = day_number first, part_last = day_number last, part_step = 1\<rparr>) ranges)
             (join_with '','' (map day_range_text ranges))\<rparr>
           in e\<lparr>ce_raw := fields_text e\<rparr>)"

definition with_days_of_week :: "day_of_week list \<Rightarrow> cron_expression \<Rightarrow> cron_expression" where
  "with_days_of_week days e = with_day_ranges (map (\<lambda>d. (d, d)) days) e"

subsection \<open>Factories\<close>

text \<open>A factory that unwraps is an option: \<open>None\<close> is the panic.\<close>

definition unwrap_parse :: "string \<Rightarrow> cron_expression option" where
  "unwrap_parse s = (case cron_parse s of Inr e \<Rightarrow> Some e | Inl _ \<Rightarrow> None)"

definition every_minute :: "cron_expression option" where "every_minute = unwrap_parse ''* * * * *''"
definition hourly :: "cron_expression option" where "hourly = unwrap_parse ''0 * * * *''"
definition daily :: "cron_expression option" where "daily = unwrap_parse ''0 0 * * *''"
definition weekly :: "cron_expression option" where "weekly = unwrap_parse ''0 0 * * 0''"
definition monthly :: "cron_expression option" where "monthly = unwrap_parse ''0 0 1 * *''"
definition quarterly :: "cron_expression option" where "quarterly = unwrap_parse ''0 0 1 1,4,7,10 *''"
definition yearly :: "cron_expression option" where "yearly = unwrap_parse ''0 0 1 1 *''"
definition weekdays :: "cron_expression option" where "weekdays = unwrap_parse ''0 0 * * 1-5''"
definition weekends :: "cron_expression option" where "weekends = unwrap_parse ''0 0 * * 0,6''"

definition try_every_n_minutes :: "nat \<Rightarrow> cron_error + cron_expression" where
  "try_every_n_minutes n =
     (if \<not> (1 \<le> n \<and> n \<le> 59) then Inl (CronEveryMinutes n)
      else cron_parse (''*/'' @ nat_to_dec n @ '' * * * *''))"

definition try_hourly_at :: "nat \<Rightarrow> cron_error + cron_expression" where
  "try_hourly_at minute =
     (if 59 < minute then Inl (CronHourlyAt minute) else cron_parse (nat_to_dec minute @ '' * * * *''))"

definition try_daily_at :: "string \<Rightarrow> (cron_error + cron_expression) option" where
  "try_daily_at time =
     (let parts = split_char CHR '':'' time in
      if 3 < length parts then map_option Inr daily
      else let hour = (case str_parse_u32 (parts ! 0) of Some n \<Rightarrow> n | None \<Rightarrow> 0);
               minute = (if 1 < length parts
                         then (case str_parse_u32 (parts ! 1) of Some n \<Rightarrow> n | None \<Rightarrow> 0) else 0)
           in if 23 < hour then Some (Inl (CronDailyHour hour))
              else if 59 < minute then Some (Inl (CronDailyMinute minute))
              else Some (cron_parse (nat_to_dec minute @ '' '' @ nat_to_dec hour @ '' * * *'')))"

definition try_monthly_on :: "nat \<Rightarrow> cron_error + cron_expression" where
  "try_monthly_on day =
     (if \<not> (1 \<le> day \<and> day \<le> 31) then Inl (CronMonthlyOn day)
      else cron_parse (''0 0 '' @ nat_to_dec day @ '' * *''))"

definition weekly_on :: "day_of_week \<Rightarrow> cron_expression option" where
  "weekly_on day = unwrap_parse (''0 0 * * '' @ nat_to_dec (day_number day))"

definition on_days :: "day_of_week list \<Rightarrow> cron_expression option" where
  "on_days days = unwrap_parse (''0 0 * * '' @ join_with '','' (map (\<lambda>d. nat_to_dec (day_number d)) days))"

text \<open>\<open>expect\<close> on the fallible factories.\<close>

definition expect_ok :: "cron_error + cron_expression \<Rightarrow> cron_expression option" where
  "expect_ok r = (case r of Inr e \<Rightarrow> Some e | Inl _ \<Rightarrow> None)"

definition every_n_minutes :: "nat \<Rightarrow> cron_expression option" where
  "every_n_minutes n = expect_ok (try_every_n_minutes n)"

definition hourly_at :: "nat \<Rightarrow> cron_expression option" where
  "hourly_at minute = expect_ok (try_hourly_at minute)"

definition daily_at :: "string \<Rightarrow> cron_expression option" where
  "daily_at time = Option.bind (try_daily_at time) expect_ok"

definition monthly_on :: "nat \<Rightarrow> cron_expression option" where
  "monthly_on day = expect_ok (try_monthly_on day)"

end
