(* ===== verification/Cron_Props.thy ===== *)
theory Cron_Props
  imports Cron
begin

text \<open>
  What parsing guarantees of a cron expression, the round trip through its text, and what the factories
  mean.
\<close>

subsection \<open>Text\<close>

lemma split_once_absent: "d \<notin> set s \<Longrightarrow> split_once d s = None"
  by (induction s) auto

lemma split_once_at: "d \<notin> set a \<Longrightarrow> split_once d (a @ d # b) = Some (a, b)"
  by (induction a) auto

lemma split_char_nonempty [simp]: "split_char d s \<noteq> []"
  by (induction s) (auto split: list.splits)

lemma split_char_absent: "d \<notin> set s \<Longrightarrow> split_char d s = [s]"
  by (induction s) auto

lemma split_char_at: "d \<notin> set a \<Longrightarrow> split_char d (a @ d # b) = a # split_char d b"
  by (induction a) auto

lemma join_with_simps:
  "join_with sep [] = []"
  "join_with sep [x] = x"
  "join_with sep (x # y # ys) = x @ sep @ join_with sep (y # ys)"
  by (simp_all add: join_with_def)

lemma split_char_join:
  "xs \<noteq> [] \<Longrightarrow> \<forall>x \<in> set xs. d \<notin> set x \<Longrightarrow> split_char d (join_with [d] xs) = xs"
proof (induction xs)
  case (Cons x xs)
  then show ?case by (cases xs) (simp_all add: join_with_simps split_char_absent split_char_at)
qed simp

definition is_word :: "string \<Rightarrow> bool" where
  "is_word s \<longleftrightarrow> s \<noteq> [] \<and> list_all (\<lambda>c. \<not> is_space c) s"

lemma is_word_append [simp]: "is_word a \<Longrightarrow> is_word b \<Longrightarrow> is_word (a @ b)"
  by (simp add: is_word_def)

lemma is_word_Cons: "is_word (c # s) \<longleftrightarrow> \<not> is_space c \<and> (s = [] \<or> is_word s)"
  by (auto simp: is_word_def)

lemma split_whitespace_word: "is_word a \<Longrightarrow> split_whitespace a = [a]"
proof (induction a)
  case (Cons c a)
  then show ?case by (cases a) (auto simp: is_word_Cons split: list.splits)
qed (simp add: is_word_def)

lemma split_whitespace_space: "is_word a \<Longrightarrow> is_space c \<Longrightarrow> split_whitespace (a @ c # s) = a # split_whitespace s"
proof (induction a)
  case (Cons x a)
  then show ?case by (cases a) (auto simp: is_word_Cons split: list.splits)
qed (simp add: is_word_def)

lemma split_whitespace_words: "x \<in> set (split_whitespace s) \<Longrightarrow> is_word x"
proof (induction s arbitrary: x)
  case (Cons c s)
  show ?case
  proof (cases "is_space c")
    case True
    then show ?thesis using Cons by simp
  next
    case word: False
    show ?thesis
    proof (cases s)
      case Nil
      then show ?thesis using Cons.prems word by (simp add: is_word_def)
    next
      case (Cons c' t)
      show ?thesis
      proof (cases "is_space c' \<or> split_whitespace s = []")
        case True
        then have "x = [c] \<or> x \<in> set (split_whitespace s)" using Cons.prems word Cons by auto
        then show ?thesis using Cons.IH word by (auto simp: is_word_def)
      next
        case False
        then obtain y ys where ys: "split_whitespace s = y # ys" by (cases "split_whitespace s") auto
        then have "x = c # y \<or> x \<in> set (split_whitespace s)" using Cons.prems word Cons False by auto
        moreover have "is_word y" using Cons.IH [of y] ys by simp
        ultimately show ?thesis using Cons.IH [of x] word by (auto simp: is_word_Cons)
      qed
    qed
  qed
qed simp

lemma split_whitespace_fields:
  "is_word a \<Longrightarrow> is_word b \<Longrightarrow> is_word c \<Longrightarrow> is_word d \<Longrightarrow> is_word e \<Longrightarrow>
     split_whitespace (join_with '' '' [a, b, c, d, e]) = [a, b, c, d, e]"
proof -
  have sp: "is_space CHR '' ''" by (simp add: is_space_def char_code_def)
  show "is_word a \<Longrightarrow> is_word b \<Longrightarrow> is_word c \<Longrightarrow> is_word d \<Longrightarrow> is_word e \<Longrightarrow> ?thesis"
    by (simp add: join_with_def split_whitespace_space [OF _ sp] split_whitespace_word)
qed

subsection \<open>Numbers\<close>

lemma digit_not_space: "is_ascii_digit c \<Longrightarrow> \<not> is_space c"
  by (simp add: is_space_def is_ascii_digit_def char_code_def)

lemma nat_to_dec_chars:
  "CHR ''/'' \<notin> set (nat_to_dec n)" "CHR ''-'' \<notin> set (nat_to_dec n)" "CHR '','' \<notin> set (nat_to_dec n)"
  "CHR ''*'' \<notin> set (nat_to_dec n)" "CHR ''+'' \<notin> set (nat_to_dec n)"
  using nat_to_dec_digits [of n] by (auto simp: list_all_iff is_ascii_digit_def char_code_def)

lemma nat_to_dec_word [simp]: "is_word (nat_to_dec n)"
  using nat_to_dec_digits [of n] digit_not_space by (auto simp: is_word_def list_all_iff)

lemma str_parse_nat_to_dec: "n \<le> u32_max \<Longrightarrow> str_parse_u32 (nat_to_dec n) = Some n"
proof -
  assume n: "n \<le> u32_max"
  have "parse_u32_digits (nat_to_dec n) = Some n"
    using n nat_to_dec_digits [of n] by (simp add: parse_u32_digits_def)
  moreover have "hd (nat_to_dec n) \<noteq> CHR ''+''" using nat_to_dec_chars(5) [of n] hd_in_set [OF nat_to_dec_nonempty, of n] by metis
  ultimately show ?thesis by (cases "nat_to_dec n") (auto simp: str_parse_u32_def)
qed

lemma nat_to_dec_not_star: "nat_to_dec n \<noteq> ''*''"
  using nat_to_dec_chars(4) [of n] by auto

subsection \<open>What parsing guarantees\<close>

definition part_ok :: "field_bounds \<Rightarrow> cron_part \<Rightarrow> bool" where
  "part_ok b p \<longleftrightarrow> fb_min b \<le> part_first p \<and> part_first p \<le> part_last p \<and> part_last p \<le> fb_max b \<and> 0 < part_step p"

lemma bounds_check_ok: "bounds_check b v label raw = Inr () \<longleftrightarrow> fb_min b \<le> v \<and> v \<le> fb_max b"
  by (auto simp: bounds_check_def)

lemma part_range_ok:
  "part_range head field step in_list b = Inr (f, l) \<Longrightarrow> fb_min b \<le> fb_max b \<Longrightarrow> fb_min b \<le> f \<and> f \<le> l \<and> l \<le> fb_max b"
  by (auto simp: part_range_def bounds_check_ok split: if_splits option.splits)

lemma cron_part_parse_ok:
  assumes "cron_part_parse part field in_list b = Inr p" "fb_min b \<le> fb_max b"
  shows "part_ok b p"
proof -
  obtain head step where r: "part_range head field step in_list b = Inr (part_first p, part_last p)"
    "step \<noteq> Some 0" "part_step p = (case step of Some n \<Rightarrow> n | None \<Rightarrow> 1)"
    using assms(1) by (fastforce simp: cron_part_parse_def split: if_splits)
  have "0 < part_step p" using r(2,3) by (cases step) auto
  then show ?thesis using part_range_ok [OF r(1) assms(2)] by (simp add: part_ok_def)
qed

text \<open>A field that parsing or a builder may produce: its text is one word that parses back to it.\<close>

definition field_ok :: "field_bounds \<Rightarrow> cron_field \<Rightarrow> bool" where
  "field_ok b f \<longleftrightarrow> cron_field_parse (field_display f) b = Inr f \<and> is_word (field_display f)"

definition cron_ok :: "cron_expression \<Rightarrow> bool" where
  "cron_ok e \<longleftrightarrow> field_ok minute_bounds (ce_minute e) \<and> field_ok hour_bounds (ce_hour e)
     \<and> field_ok day_of_month_bounds (ce_day_of_month e) \<and> field_ok month_bounds (ce_month e)
     \<and> field_ok day_of_week_bounds (ce_day_of_week e)"

lemma cron_field_parse_display: "cron_field_parse s b = Inr f \<Longrightarrow> field_display f = s"
  by (auto simp: cron_field_parse_def split: if_splits)

lemma cron_field_parse_ok: "cron_field_parse s b = Inr f \<Longrightarrow> is_word s \<Longrightarrow> field_ok b f"
  by (simp add: field_ok_def cron_field_parse_display)

lemma cron_field_parse_parts:
  assumes "cron_field_parse s b = Inr (Parts ps t)" "fb_min b \<le> fb_max b"
  shows "ps \<noteq> [] \<and> (\<forall>p \<in> set ps. part_ok b p)"
proof -
  have c: "collect_ok (\<lambda>part. cron_part_parse part s (CHR '','' \<in> set s) b) (split_char CHR '','' s) = Inr ps"
    using assms(1) by (auto simp: cron_field_parse_def split: if_splits)
  have "ps \<noteq> []" using collect_ok_length [OF c] split_char_nonempty by (metis length_0_conv)
  moreover have "part_ok b p" if mem: "p \<in> set ps" for p
  proof -
    obtain i where i: "i < length ps" "ps ! i = p" using mem unfolding in_set_conv_nth by blast
    from list_all2_nthD2 [OF collect_ok_list_all2 [OF c] i(1)] i(2) show ?thesis
      using cron_part_parse_ok [OF _ assms(2)] by simp
  qed
  ultimately show ?thesis by blast
qed

lemma cron_parse_ok: "cron_parse s = Inr e \<Longrightarrow> cron_ok e \<and> ce_raw e = s"
proof -
  assume parsed: "cron_parse s = Inr e"
  then obtain p0 p1 p2 p3 p4 where p: "split_whitespace s = [p0, p1, p2, p3, p4]"
    by (auto simp: cron_parse_def split: list.splits)
  have words: "is_word p0" "is_word p1" "is_word p2" "is_word p3" "is_word p4"
    using split_whitespace_words [of _ s] by (simp_all add: p)
  have fields: "cron_field_parse p0 minute_bounds = Inr (ce_minute e)" "cron_field_parse p1 hour_bounds = Inr (ce_hour e)"
    "cron_field_parse p2 day_of_month_bounds = Inr (ce_day_of_month e)"
    "cron_field_parse p3 month_bounds = Inr (ce_month e)" "cron_field_parse p4 day_of_week_bounds = Inr (ce_day_of_week e)"
    and raw: "ce_raw e = s"
    using parsed p by (auto simp: cron_parse_def)
  show ?thesis
    using cron_field_parse_ok [OF fields(1) words(1)] cron_field_parse_ok [OF fields(2) words(2)]
      cron_field_parse_ok [OF fields(3) words(3)] cron_field_parse_ok [OF fields(4) words(4)]
      cron_field_parse_ok [OF fields(5) words(5)] raw by (simp add: cron_ok_def)
qed

lemma cron_parse_fields:
  assumes "is_word a" "is_word b" "is_word c" "is_word d" "is_word w"
  shows "cron_parse (join_with '' '' [a, b, c, d, w]) =
          and_then (cron_field_parse a minute_bounds) (\<lambda>mi.
          and_then (cron_field_parse b hour_bounds) (\<lambda>h.
          and_then (cron_field_parse c day_of_month_bounds) (\<lambda>dom.
          and_then (cron_field_parse d month_bounds) (\<lambda>mo.
          and_then (cron_field_parse w day_of_week_bounds) (\<lambda>dow.
            Inr \<lparr>ce_raw = join_with '' '' [a, b, c, d, w], ce_minute = mi, ce_hour = h, ce_day_of_month = dom,
                 ce_month = mo, ce_day_of_week = dow\<rparr>)))))"
  using split_whitespace_fields [OF assms] by (simp add: cron_parse_def)

lemma fields_text_parses: "cron_ok e \<Longrightarrow> cron_parse (fields_text e) = Inr (e\<lparr>ce_raw := fields_text e\<rparr>)"
  unfolding fields_text_def
  by (subst cron_parse_fields) (simp_all add: cron_ok_def field_ok_def)

subsection \<open>Builders keep the guarantee\<close>

lemma single_part_parse:
  assumes "fb_min b \<le> v" "v \<le> fb_max b" "fb_max b \<le> u32_max"
  shows "cron_part_parse (nat_to_dec v) field in_list b = Inr \<lparr>part_first = v, part_last = v, part_step = 1\<rparr>"
  using assms
  by (auto simp: cron_part_parse_def part_range_def split_once_absent nat_to_dec_chars nat_to_dec_not_star parse_number_def
      str_parse_nat_to_dec bounds_check_def)

lemma range_part_parse:
  assumes "fb_min b \<le> v" "v \<le> w" "w \<le> fb_max b" "fb_max b \<le> u32_max"
  shows "cron_part_parse (nat_to_dec v @ ''-'' @ nat_to_dec w) field in_list b
    = Inr \<lparr>part_first = v, part_last = w, part_step = 1\<rparr>"
proof -
  have "0 < length (nat_to_dec v)" by simp
  then have "length (nat_to_dec v @ ''-'' @ nat_to_dec w) \<noteq> length ''*''" by simp
  then have star: "nat_to_dec v @ ''-'' @ nat_to_dec w \<noteq> ''*''" by metis
  have "split_once CHR ''/'' (nat_to_dec v @ ''-'' @ nat_to_dec w) = None"
    by (rule split_once_absent) (simp add: nat_to_dec_chars)
  moreover have "split_once CHR ''-'' (nat_to_dec v @ ''-'' @ nat_to_dec w) = Some (nat_to_dec v, nat_to_dec w)"
    using split_once_at [of "CHR ''-''" "nat_to_dec v" "nat_to_dec w"] nat_to_dec_chars(2) by simp
  ultimately show ?thesis
    using assms star
    by (simp add: cron_part_parse_def part_range_def parse_number_def str_parse_nat_to_dec bounds_check_def)
qed

lemma star_step_parse:
  assumes "0 < n" "n \<le> u32_max"
  shows "cron_part_parse (''*/'' @ nat_to_dec n) field in_list b
    = Inr \<lparr>part_first = fb_min b, part_last = fb_max b, part_step = n\<rparr>"
  using assms split_once_at [of "CHR ''/''" "''*''" "nat_to_dec n"]
  by (simp add: cron_part_parse_def part_range_def parse_number_def str_parse_nat_to_dec)

lemma field_value_ok:
  "fb_min b \<le> v \<Longrightarrow> v \<le> fb_max b \<Longrightarrow> fb_max b \<le> u32_max \<Longrightarrow> field_ok b (field_value v)"
  by (simp add: field_ok_def field_value_def cron_field_parse_def nat_to_dec_not_star split_char_absent nat_to_dec_chars
      single_part_parse)

lemma bounds_u32: "fb_max minute_bounds \<le> u32_max" "fb_max hour_bounds \<le> u32_max" "fb_max day_of_month_bounds \<le> u32_max"
  "fb_max month_bounds \<le> u32_max" "fb_max day_of_week_bounds \<le> u32_max"
  by (simp_all add: minute_bounds_def hour_bounds_def day_of_month_bounds_def month_bounds_def day_of_week_bounds_def
      u32_max_def)

lemma set_time_ok: "cron_ok e \<Longrightarrow> hour \<le> 23 \<Longrightarrow> minute \<le> 59 \<Longrightarrow> cron_ok (set_time hour minute e)"
  using bounds_u32 by (simp add: cron_ok_def set_time_def Let_def field_value_ok minute_bounds_def hour_bounds_def)

lemma day_number_le: "day_number d \<le> 6"
  by (cases d) simp_all

definition range_part :: "day_of_week \<times> day_of_week \<Rightarrow> cron_part" where
  "range_part r = \<lparr>part_first = day_number (fst r), part_last = day_number (snd r), part_step = 1\<rparr>"

lemma day_range_parse:
  assumes "day_number (fst r) \<le> day_number (snd r)"
  shows "cron_part_parse (day_range_text r) field in_list day_of_week_bounds = Inr (range_part r)"
proof (cases "fst r = snd r")
  case True
  then show ?thesis
    using single_part_parse [of day_of_week_bounds "day_number (fst r)"] day_number_le [of "fst r"] bounds_u32(5)
    by (simp add: day_range_text_def range_part_def day_of_week_bounds_def)
next
  case False
  then show ?thesis
    using range_part_parse [of day_of_week_bounds "day_number (fst r)" "day_number (snd r)"] assms day_number_le [of "snd r"]
      bounds_u32(5) by (simp add: day_range_text_def range_part_def day_of_week_bounds_def)
qed

lemma day_range_text_chars: "CHR '','' \<notin> set (day_range_text r)" "is_word (day_range_text r)" "CHR ''*'' \<notin> set (day_range_text r)"
proof -
  have "is_word ''-''" by (simp add: is_word_def is_space_def char_code_def)
  then show "is_word (day_range_text r)" unfolding day_range_text_def by (simp del: append.simps)
qed (simp_all add: day_range_text_def nat_to_dec_chars)

lemma join_comma_word: "xs \<noteq> [] \<Longrightarrow> \<forall>x \<in> set xs. is_word x \<Longrightarrow> is_word (join_with '','' xs)"
proof (induction xs)
  case (Cons x xs)
  have "is_word '',''" by (simp add: is_word_def is_space_def char_code_def)
  then show ?case using Cons by (cases xs) (simp_all add: join_with_simps del: append.simps)
qed simp

lemma set_join: "set (join_with sep xs) \<subseteq> set sep \<union> (\<Union>x \<in> set xs. set x)"
  by (cases xs) (auto simp: join_with_def)

lemma collect_ok_all: "(\<And>x. x \<in> set xs \<Longrightarrow> f x = Inr (g x)) \<Longrightarrow> collect_ok f xs = Inr (map g xs)"
  by (induction xs) auto

lemma day_ranges_field_ok:
  assumes "ranges \<noteq> []" "\<forall>r \<in> set ranges. day_number (fst r) \<le> day_number (snd r)"
  shows "field_ok day_of_week_bounds (Parts (map range_part ranges) (join_with '','' (map day_range_text ranges)))"
proof -
  let ?s = "join_with '','' (map day_range_text ranges)"
  have split: "split_char CHR '','' ?s = map day_range_text ranges"
    by (rule split_char_join) (use assms(1) day_range_text_chars in auto)
  have "collect_ok (\<lambda>part. cron_part_parse part field in_list day_of_week_bounds) (map day_range_text rs)
      = Inr (map range_part rs)" if "set rs \<subseteq> set ranges" for field in_list rs
    using that assms(2) day_range_parse by (induction rs) auto
  then have "collect_ok (\<lambda>part. cron_part_parse part ?s (CHR '','' \<in> set ?s) day_of_week_bounds) (map day_range_text ranges)
      = Inr (map range_part ranges)" by simp
  moreover have "?s \<noteq> ''*''"
  proof
    assume "?s = ''*''"
    then have "CHR ''*'' \<in> set ?s" by simp
    then show False using set_join [of "'',''" "map day_range_text ranges"] day_range_text_chars(3) by auto
  qed
  moreover have "is_word ?s" by (rule join_comma_word) (use assms(1) day_range_text_chars(2) in auto)
  ultimately show ?thesis by (simp add: field_ok_def cron_field_parse_def split)
qed

lemma with_day_ranges_ok:
  "cron_ok e \<Longrightarrow> \<forall>r \<in> set ranges. day_number (fst r) \<le> day_number (snd r) \<Longrightarrow> cron_ok (with_day_ranges ranges e)"
proof -
  have "(\<lambda>(first, last). \<lparr>part_first = day_number first, part_last = day_number last, part_step = 1\<rparr>) = range_part"
    by (auto simp: range_part_def)
  then show "cron_ok e \<Longrightarrow> \<forall>r \<in> set ranges. day_number (fst r) \<le> day_number (snd r) \<Longrightarrow> ?thesis"
    using day_ranges_field_ok [of ranges] by (auto simp: with_day_ranges_def cron_ok_def Let_def)
qed

end
