(* ===== verification/Gregorian.thy ===== *)
theory Gregorian
  imports Cron
begin

text \<open>
  The wall clock of UTC: the Gregorian calendar day by day from 1 January 1970, a Thursday, and the facts
  that every date the calendar has comes back within eight years and every weekday of a month within two.
\<close>

subsection \<open>The calendar\<close>

definition leap_year :: "nat \<Rightarrow> bool" where
  "leap_year y \<longleftrightarrow> y mod 4 = 0 \<and> (y mod 100 \<noteq> 0 \<or> y mod 400 = 0)"

definition month_days :: "nat \<Rightarrow> nat \<Rightarrow> nat" where
  "month_days y m = (if m = 2 then if leap_year y then 29 else 28 else if m \<in> {4, 6, 9, 11} then 30 else 31)"

type_synonym date = "nat \<times> nat \<times> nat"

fun next_date :: "date \<Rightarrow> date" where
  "next_date (y, m, d) =
     (if d < month_days y m then (y, m, d + 1) else if m < 12 then (y, m + 1, 1) else (y + 1, 1, 1))"

definition date_of :: "nat \<Rightarrow> date" where
  "date_of n = (next_date ^^ n) (1970, 1, 1)"

definition weekday_of :: "nat \<Rightarrow> nat" where
  "weekday_of n = (n + 4) mod 7"

definition utc_wall :: "nat \<Rightarrow> wall_clock" where
  "utc_wall t = (let n = t div 1440; (y, m, d) = date_of n in
     \<lparr>wc_minute = t mod 60, wc_hour = t div 60 mod 24, wc_day = d, wc_month = m, wc_weekday = weekday_of n\<rparr>)"

subsection \<open>Numbers of days\<close>

fun valid_date :: "date \<Rightarrow> bool" where
  "valid_date (y, m, d) \<longleftrightarrow> 1 \<le> m \<and> m \<le> 12 \<and> 1 \<le> d \<and> d \<le> month_days y m"

primrec days_before_year :: "nat \<Rightarrow> nat" where
  "days_before_year 0 = 0"
| "days_before_year (Suc y) = days_before_year y + (if leap_year y then 366 else 365)"

definition days_before_month :: "nat \<Rightarrow> nat \<Rightarrow> nat" where
  "days_before_month y m = sum_list (map (month_days y) [1..<m])"

fun day_count :: "date \<Rightarrow> nat" where
  "day_count (y, m, d) = days_before_year y + days_before_month y m + d"

lemma days_before_month_Suc: "1 \<le> m \<Longrightarrow> days_before_month y (Suc m) = days_before_month y m + month_days y m"
  by (simp add: days_before_month_def)

lemma days_before_month_mono: "m \<le> m' \<Longrightarrow> days_before_month y m \<le> days_before_month y m'"
proof (induction m' rule: dec_induct)
  case (step n)
  then show ?case by (cases "1 \<le> n") (simp_all add: days_before_month_Suc, simp add: days_before_month_def)
qed simp

lemma days_of_year: "days_before_month y 13 = (if leap_year y then 366 else 365)"
  by (simp add: days_before_month_def upt_rec month_days_def)

lemma next_date_valid: "valid_date D \<Longrightarrow> valid_date (next_date D)"
  by (cases D) (auto simp: month_days_def)

lemma next_date_count: "valid_date D \<Longrightarrow> day_count (next_date D) = day_count D + 1"
proof (cases D)
  case (fields y m d)
  assume v: "valid_date D"
  have "days_before_month y 13 = days_before_month y 12 + month_days y 12"
    using days_before_month_Suc [of 12 y] by simp
  moreover have "days_before_month (Suc y) (Suc 0) = 0" by (simp add: days_before_month_def)
  moreover have "m < 12 \<or> m = 12" using v fields by auto
  ultimately show ?thesis
    using v fields days_before_month_Suc [of m y] days_of_year [of y] by auto
qed

lemma date_of_valid: "valid_date (date_of n)"
  by (induction n) (simp_all add: date_of_def month_days_def next_date_valid)

lemma date_of_count: "day_count (date_of n) = day_count (1970, 1, 1) + n"
proof (induction n)
  case (Suc n)
  have "date_of (Suc n) = next_date (date_of n)" by (simp add: date_of_def)
  then show ?case using next_date_count [OF date_of_valid [of n]] Suc by simp
qed (simp add: date_of_def)

lemma days_before_year_mono: "y \<le> y' \<Longrightarrow> days_before_year y + 365 * (y' - y) \<le> days_before_year y'"
  by (induction y' rule: dec_induct) (simp_all add: Suc_diff_le)

lemma days_before_year_le: "days_before_year (y + k) \<le> days_before_year y + 366 * k"
  by (induction k) simp_all

lemma day_in_year:
  assumes "valid_date (y, m, d)"
  shows "days_before_year y < day_count (y, m, d) \<and> day_count (y, m, d) \<le> days_before_year (Suc y)"
proof -
  have "days_before_month y m + d \<le> days_before_month y (Suc m)" using assms by (simp add: days_before_month_Suc)
  also have "\<dots> \<le> days_before_month y 13" by (rule days_before_month_mono) (use assms in simp)
  finally show ?thesis using assms days_of_year [of y] by simp
qed

lemma day_count_inject:
  assumes "valid_date (y, m, d)" "valid_date (y', m', d')" "day_count (y, m, d) = day_count (y', m', d')"
  shows "(y, m, d) = (y', m', d')"
proof -
  have year: False if "valid_date (a, m1, d1)" "valid_date (b, m2, d2)" "a < b" "day_count (a, m1, d1) = day_count (b, m2, d2)"
    for a m1 d1 b m2 d2
  proof -
    have "days_before_year (Suc a) \<le> days_before_year b" using days_before_year_mono [of "Suc a" b] that(3) by simp
    then show False using day_in_year [OF that(1)] day_in_year [OF that(2)] that(4) by linarith
  qed
  have y: "y = y'" using year [of y m d y' m' d'] year [of y' m' d' y m d] assms by (metis nat_neq_iff)
  have month: False if "valid_date (y, m1, d1)" "valid_date (y, m2, d2)" "m1 < m2" "day_count (y, m1, d1) = day_count (y, m2, d2)"
    for m1 d1 m2 d2
  proof -
    have "days_before_month y (Suc m1) \<le> days_before_month y m2" using that(3) by (intro days_before_month_mono) simp
    moreover have "1 \<le> m1" "d1 \<le> month_days y m1" "1 \<le> d2" using that(1,2) by simp_all
    ultimately show False using that(4) by (simp add: days_before_month_Suc)
  qed
  have "m = m'" using month [of m d m' d'] month [of m' d' m d] assms y by (metis nat_neq_iff)
  then show ?thesis using y assms(3) by simp
qed

lemma date_at_count:
  assumes "valid_date D" "day_count (1970, 1, 1) + n = day_count D"
  shows "date_of n = D"
proof -
  obtain y m d where D: "D = (y, m, d)" by (cases D)
  obtain y' m' d' where n: "date_of n = (y', m', d')" by (cases "date_of n")
  show ?thesis
    using day_count_inject [of y' m' d' y m d] date_of_valid [of n] date_of_count [of n] assms D n by simp
qed

subsection \<open>Recurrence\<close>

lemma leap_within:
  "\<exists>j. 1 \<le> j \<and> j \<le> 8 \<and> leap_year (y + j) \<and> (leap_year y \<or> j \<le> 7)"
proof -
  have "y mod 400 < 400" by simp
  define r where "r = y mod 400"
  let ?j = "4 - y mod 4"
  have base: "(y + ?j) mod 4 = 0" by presburger
  show ?thesis
  proof (cases "leap_year (y + ?j)")
    case True
    then show ?thesis by (intro exI [of _ ?j]) (auto simp: Suc_le_eq)
  next
    case False
    then have "(y + ?j) mod 100 = 0" using base by (simp add: leap_year_def)
    then have "(y + (?j + 4)) mod 100 \<noteq> 0" by presburger
    moreover have "(y + (?j + 4)) mod 4 = 0" by presburger
    ultimately have l: "leap_year (y + (?j + 4))" by (simp add: leap_year_def)
    show ?thesis
    proof (cases "y mod 4 = 0")
      case True
      have "leap_year y"
      proof -
        have "y mod 100 \<noteq> 0" using \<open>(y + ?j) mod 100 = 0\<close> True by presburger
        then show ?thesis using True by (simp add: leap_year_def)
      qed
      then show ?thesis using l by (intro exI [of _ "?j + 4"]) auto
    next
      case False
      then show ?thesis using l by (intro exI [of _ "?j + 4"]) auto
    qed
  qed
qed

lemma date_in_later_year:
  assumes "date_of n = (y, m, d)" "y < y'" "valid_date (y', m', d')"
  shows "\<exists>k > n. date_of k = (y', m', d') \<and> k \<le> n + (day_count (y', m', d') - day_count (y, m, d))"
proof -
  have valid: "valid_date (y, m, d)" using date_of_valid [of n] assms(1) by simp
  have count: "day_count (y, m, d) = day_count (1970, 1, 1) + n" using date_of_count [of n] assms(1) by simp
  have "days_before_year (Suc y) \<le> days_before_year y'" using days_before_year_mono [of "Suc y" y'] assms(2) by simp
  then have less: "day_count (y, m, d) < day_count (y', m', d')"
    using day_in_year [OF valid] day_in_year [OF assms(3)] by linarith
  let ?k = "n + (day_count (y', m', d') - day_count (y, m, d))"
  have "date_of ?k = (y', m', d')" by (rule date_at_count [OF assms(3)]) (use count less in simp)
  then show ?thesis using less by (intro exI [of _ ?k]) simp
qed

text \<open>Every date some year has comes back within 2928 days of any day.\<close>

lemma date_recurs:
  assumes "valid_date (y0, m, d)"
  shows "\<exists>k > n. k \<le> n + 2928 \<and> (\<exists>y. date_of k = (y, m, d))"
proof -
  obtain y m1 d1 where n: "date_of n = (y, m1, d1)" by (cases "date_of n")
  have valid: "valid_date (y, m1, d1)" using date_of_valid [of n] n by simp
  have count: "day_count (y, m1, d1) = day_count (1970, 1, 1) + n" using date_of_count [of n] n by simp
  have later: ?thesis if v: "valid_date (y + j, m, d)" "1 \<le> j" "day_count (y + j, m, d) \<le> day_count (y, m1, d1) + 2928" for j
    using date_in_later_year [OF n _ v(1)] v(2,3) by fastforce
  show ?thesis
  proof (cases "m = 2 \<and> d = 29")
    case False
    then have v: "valid_date (y + 1, m, d)" using assms by (auto simp: month_days_def split: if_splits)
    have "days_before_year (y + 2) \<le> days_before_year y + 732" using days_before_year_le [of y 2] by simp
    then show ?thesis using later [of 1] v day_in_year [OF v] day_in_year [OF valid] by simp
  next
    case True
    have feb: "day_count (y', 2, 29) = days_before_year y' + 60" for y'
      by (simp add: days_before_month_def month_days_def upt_rec)
    have vleap: "valid_date (y', 2, 29)" if "leap_year y'" for y' using that by (simp add: month_days_def)
    obtain j where j: "1 \<le> j" "j \<le> 8" "leap_year (y + j)" "leap_year y \<or> j \<le> 7" using leap_within by blast
    show ?thesis
    proof (cases "leap_year y \<and> day_count (y, m1, d1) < day_count (y, 2, 29)")
      case before: True
      let ?k = "n + (day_count (y, 2, 29) - day_count (y, m1, d1))"
      have "date_of ?k = (y, 2, 29)" by (rule date_at_count [OF vleap]) (use count before in simp_all)
      moreover have "day_count (y, 2, 29) \<le> day_count (y, m1, d1) + 2928" using day_in_year [OF valid] feb [of y] by linarith
      ultimately show ?thesis using before True by (intro exI [of _ ?k]) auto
    next
      case after: False
      have bound: "days_before_year (y + j) \<le> days_before_year y + 366 * j" by (rule days_before_year_le)
      have "day_count (y + j, 2, 29) \<le> day_count (y, m1, d1) + 2928"
      proof (cases "leap_year y")
        case True
        then have "days_before_year y + 60 \<le> day_count (y, m1, d1)" using after feb [of y] by simp
        moreover have "366 * j \<le> 2928" using j(2) by simp
        ultimately show ?thesis using bound feb [of "y + j"] by linarith
      next
        case False
        then have "366 * j \<le> 2562" using j(4) by simp
        then show ?thesis using bound feb [of "y + j"] day_in_year [OF valid] by linarith
      qed
      then show ?thesis using later [of j] vleap [OF j(3)] j(1) True by simp
    qed
  qed
qed

text \<open>So does every weekday of a month.\<close>

lemma weekday_recurs:
  assumes "1 \<le> m" "m \<le> 12" "w < 7"
  shows "\<exists>k > n. k \<le> n + 2928 \<and> weekday_of k = w \<and> (\<exists>y d. date_of k = (y, m, d))"
proof -
  obtain y m1 d1 where n: "date_of n = (y, m1, d1)" by (cases "date_of n")
  have valid: "valid_date (y, m1, d1)" using date_of_valid [of n] n by simp
  have first: "valid_date (y + 1, m, 1)" using assms by (simp add: month_days_def)
  obtain k where k: "n < k" "date_of k = (y + 1, m, 1)" "k \<le> n + (day_count (y + 1, m, 1) - day_count (y, m1, d1))"
    using date_in_later_year [OF n _ first] by auto
  define i where "i = (w + 7 - weekday_of k) mod 7"
  have i: "i < 7" by (simp add: i_def)
  have "weekday_of k < 7" by (simp add: weekday_of_def)
  then have "(weekday_of k + i) mod 7 = w" using assms(3) by (simp add: i_def mod_add_right_eq)
  moreover have "weekday_of (k + i) = (weekday_of k + i) mod 7"
    unfolding weekday_of_def mod_add_left_eq by (simp add: ac_simps)
  ultimately have "weekday_of (k + i) = w" by simp
  moreover have "valid_date (y + 1, m, 1 + i)" using first i by (auto simp: month_days_def)
  then have "date_of (k + i) = (y + 1, m, 1 + i)"
    by (rule date_at_count) (use date_of_count [of k] k(2) in simp)
  moreover have "days_before_year (y + 2) \<le> days_before_year y + 732" using days_before_year_le [of y 2] by simp
  then have "k \<le> n + 732" using k(3) day_in_year [OF first] day_in_year [OF valid] by simp
  ultimately show ?thesis using k(1) i by (intro exI [of _ "k + i"]) simp
qed

end
