(* ===== verification/Cron_Claims.thy ===== *)
theory Cron_Claims
  imports Cron_Props Gregorian
begin

text \<open>
  The properties of cron expressions: their text, their factories, and the next run.
\<close>

subsection \<open>The text of an expression\<close>

datatype cron_edit = AtTime string | OnDays "day_of_week list" | OnDayRanges "(day_of_week \<times> day_of_week) list"

fun cron_edit_apply :: "cron_edit \<Rightarrow> cron_expression \<Rightarrow> cron_expression" where
  "cron_edit_apply (AtTime time) e = cron_at time e"
| "cron_edit_apply (OnDays days) e = with_days_of_week days e"
| "cron_edit_apply (OnDayRanges ranges) e = with_day_ranges ranges e"

text \<open>An edit with a time of the day, if its text is a time at all, and with ranges that do not run backwards.\<close>

fun edit_in_range :: "cron_edit \<Rightarrow> bool" where
  "edit_in_range (AtTime time) = (case parse_hh_mm time of Inr (hour, minute) \<Rightarrow> hour \<le> 23 \<and> minute \<le> 59 | Inl _ \<Rightarrow> True)"
| "edit_in_range (OnDays days) = True"
| "edit_in_range (OnDayRanges ranges) = (\<forall>r \<in> set ranges. day_number (fst r) \<le> day_number (snd r))"

lemma fields_text_raw: "fields_text (e\<lparr>ce_raw := s\<rparr>) = fields_text e"
  by (simp add: fields_text_def)

lemma edit_ok:
  assumes "cron_ok e" "edit_in_range edit"
  shows "cron_ok (cron_edit_apply edit e)
    \<and> (cron_edit_apply edit e = e \<or> ce_raw (cron_edit_apply edit e) = fields_text (cron_edit_apply edit e))"
proof (cases edit)
  case (AtTime time)
  then show ?thesis
    using assms set_time_ok [OF assms(1)]
    by (auto simp: cron_at_def set_time_def Let_def fields_text_raw split: sum.splits)
next
  case (OnDays days)
  then show ?thesis
    using assms(1) with_day_ranges_ok [OF assms(1), of "map (\<lambda>d. (d, d)) days"]
    by (auto simp: with_days_of_week_def with_day_ranges_def Let_def fields_text_raw)
next
  case (OnDayRanges ranges)
  then show ?thesis
    using assms with_day_ranges_ok [OF assms(1), of ranges]
    by (auto simp: with_day_ranges_def Let_def fields_text_raw)
qed

text \<open>
  C29: what the schedule shows is what it runs. An expression that was parsed and then given times of the
  day within 23:59 and days of the week in ranges that do not run backwards, in any number and order, is
  exactly what its own text parses to, so it is due at the same instants as the text an operator reads. A
  time whose text is not a time changes nothing. (The builder takes a time such as 25:00 too, as it
  documents; its text parses to an error, \<open>late_time_is_no_expression\<close>.)
\<close>

theorem expression_is_its_text:
  assumes "cron_parse s = Inr e" and "\<forall>edit \<in> set edits. edit_in_range edit"
  shows "let e' = fold cron_edit_apply edits e in cron_parse (ce_raw e') = Inr e'"
proof -
  have "cron_ok e' \<and> cron_parse (ce_raw e') = Inr e' \<Longrightarrow> \<forall>edit \<in> set edits. edit_in_range edit \<Longrightarrow>
      cron_parse (ce_raw (fold cron_edit_apply edits e')) = Inr (fold cron_edit_apply edits e')" for e'
  proof (induction edits arbitrary: e')
    case (Cons edit edits)
    let ?f = "cron_edit_apply edit e'"
    have f: "cron_ok ?f \<and> (?f = e' \<or> ce_raw ?f = fields_text ?f)" using edit_ok Cons.prems by simp
    have "?f\<lparr>ce_raw := fields_text ?f\<rparr> = ?f" if "ce_raw ?f = fields_text ?f" using that by simp
    then have "cron_parse (ce_raw ?f) = Inr ?f" using f fields_text_parses [of ?f] Cons.prems(1) by auto
    then show ?case using Cons.IH [of ?f] f Cons.prems(2) by simp
  qed simp
  moreover have "cron_ok e \<and> cron_parse (ce_raw e) = Inr e" using cron_parse_ok [OF assms(1)] assms(1) by simp
  ultimately show ?thesis using assms(2) by (simp add: Let_def)
qed

subsection \<open>Fields and factories\<close>

lemma field_parse_star: "cron_field_parse ''*'' b = Inr AnyValue"
  by (simp add: cron_field_parse_def)



lemma star_word [simp]: "is_word ''*''" and step_word: "is_word (''*/'' @ nat_to_dec n)"
proof -
  have "is_word ''*''" "is_word ''*/''" by (simp_all add: is_word_def is_space_def char_code_def)
  then show "is_word ''*''" "is_word (''*/'' @ nat_to_dec n)" by (simp_all del: append.simps)
qed

lemma field_value_matches: "field_matches (field_value v) w \<longleftrightarrow> w = v"
  by (auto simp: field_value_def part_matches_def)


lemmas cron_bounds = minute_bounds_def hour_bounds_def day_of_month_bounds_def month_bounds_def day_of_week_bounds_def
  u32_max_def

lemma zero_text: "nat_to_dec 0 = ''0''"
  by (simp add: nat_to_dec.simps digit_char_def)










abbreviation cron_values :: "nat \<Rightarrow> nat \<Rightarrow> cron_part" where
  "cron_values lo hi \<equiv> \<lparr>part_first = lo, part_last = hi, part_step = 1\<rparr>"

lemma literal_fields:
  "is_word ''0''" "is_word ''1''" "is_word ''1,4,7,10''" "is_word ''1-5''" "is_word ''0,6''"
  "cron_field_parse ''*'' b = Inr AnyValue" "cron_field_parse ''0'' minute_bounds = Inr (Parts [cron_values 0 0] ''0'')"
  "cron_field_parse ''0'' hour_bounds = Inr (Parts [cron_values 0 0] ''0'')"
  "cron_field_parse ''0'' day_of_week_bounds = Inr (Parts [cron_values 0 0] ''0'')"
  "cron_field_parse ''1'' day_of_month_bounds = Inr (Parts [cron_values 1 1] ''1'')"
  "cron_field_parse ''1'' month_bounds = Inr (Parts [cron_values 1 1] ''1'')"
  "cron_field_parse ''1,4,7,10'' month_bounds
     = Inr (Parts [cron_values 1 1, cron_values 4 4, cron_values 7 7, cron_values 10 10] ''1,4,7,10'')"
  "cron_field_parse ''1-5'' day_of_week_bounds = Inr (Parts [cron_values 1 5] ''1-5'')"
  "cron_field_parse ''0,6'' day_of_week_bounds = Inr (Parts [cron_values 0 0, cron_values 6 6] ''0,6'')"
  by (simp_all add: is_word_def is_space_def char_code_def cron_field_parse_def cron_part_parse_def part_range_def
      parse_number_def str_parse_u32_def parse_u32_digits_def is_ascii_digit_def digits_value_def digit_value_def
      bounds_check_def cron_bounds)





text \<open>An empty list of days is no field at all: the factory panics, which its documentation does not say.\<close>

lemma on_no_days_panics: "on_days [] = None"
proof -
  have "split_whitespace ''0 0 * * '' = [''0'', ''0'', ''*'', ''*'']" by (simp add: is_space_def char_code_def)
  then show ?thesis by (simp add: on_days_def join_with_def unwrap_parse_def cron_parse_def)
qed


subsection \<open>The next run\<close>

lemma next_run_scan_Some:
  "next_run_scan wall calendar_end e n c = Some t \<Longrightarrow>
     c \<le> t \<and> t < c + n \<and> (c \<le> calendar_end \<longrightarrow> t \<le> calendar_end) \<and> is_due_at e (wall t) \<and> (\<forall>u. c \<le> u \<and> u < t \<longrightarrow> \<not> is_due_at e (wall u))"
proof (induction n arbitrary: c)
  case (Suc n)
  show ?case
  proof (cases "is_due_at e (wall c)")
    case True
    then show ?thesis using Suc.prems by auto
  next
    case False
    then have r: "next_run_scan wall calendar_end e n (c + 1) = Some t" "c + 1 \<le> calendar_end"
      using Suc.prems by (simp_all split: if_splits)
    have "u = c \<or> c + 1 \<le> u" if "c \<le> u" for u using that by linarith
    then show ?thesis using Suc.IH [OF r(1)] r(2) False by auto
  qed
qed simp

lemma next_run_scan_None:
  "next_run_scan wall calendar_end e n c = None \<Longrightarrow> c \<le> u \<Longrightarrow> u < c + n \<Longrightarrow> u \<le> calendar_end \<Longrightarrow> \<not> is_due_at e (wall u)"
proof (induction n arbitrary: c)
  case (Suc n)
  then show ?case by (cases "u = c") (auto split: if_splits)
qed simp

lemma seconds_after: "after_seconds < 60 * u \<longleftrightarrow> after_seconds div 60 + 1 \<le> (u :: nat)"
  by (simp add: Suc_le_eq div_less_iff_less_mult mult.commute)

lemma next_run_found:
  "next_run_after wall calendar_end e after_seconds = Some t \<Longrightarrow>
     after_seconds < 60 * t \<and> t \<le> calendar_end \<and> is_due_at e (wall t)
     \<and> (\<forall>u. after_seconds < 60 * u \<and> u < t \<longrightarrow> \<not> is_due_at e (wall u))"
  using next_run_scan_Some [of wall calendar_end e next_run_scan_minutes "after_seconds div 60 + 1" t]
  by (auto simp: next_run_after_def seconds_after Let_def split: if_splits)

lemma next_run_missed:
  "next_run_after wall calendar_end e after_seconds = None \<Longrightarrow> after_seconds < 60 * u
     \<Longrightarrow> u \<le> after_seconds div 60 + next_run_scan_minutes \<Longrightarrow> u \<le> calendar_end \<Longrightarrow> \<not> is_due_at e (wall u)"
  using next_run_scan_None [of wall calendar_end e next_run_scan_minutes "after_seconds div 60 + 1" u]
  by (auto simp: next_run_after_def seconds_after Let_def split: if_splits)

text \<open>
  C35: the next run is the first one, on any wall clock. An instant the scan returns is the first minute
  after the given instant at which the expression is due, within the calendar; when it returns none,
  the expression is due at no minute of the eight years it covers.
\<close>

theorem next_run_is_the_first:
  "case next_run_after wall calendar_end e after_seconds of
     Some t \<Rightarrow> after_seconds < 60 * t \<and> t \<le> calendar_end \<and> is_due_at e (wall t)
       \<and> (\<forall>u. after_seconds < 60 * u \<and> u < t \<longrightarrow> \<not> is_due_at e (wall u))
   | None \<Rightarrow> (\<forall>u. after_seconds < 60 * u \<and> u \<le> after_seconds div 60 + next_run_scan_minutes \<and> u \<le> calendar_end
       \<longrightarrow> \<not> is_due_at e (wall u))"
  using next_run_found [of wall calendar_end e after_seconds] next_run_missed [of wall calendar_end e after_seconds]
  by (cases "next_run_after wall calendar_end e after_seconds") simp_all

lemma next_run_is_the_first_witness:
  "next_run_after (\<lambda>t. \<lparr>wc_minute = t mod 60, wc_hour = 0, wc_day = 1, wc_month = 1, wc_weekday = 0\<rparr>) 100
     \<lparr>ce_raw = '''', ce_minute = field_value 7, ce_hour = AnyValue, ce_day_of_month = AnyValue, ce_month = AnyValue,
      ce_day_of_week = AnyValue\<rparr> 300 \<noteq> Some 8"
  using next_run_is_the_first [where wall = "\<lambda>t. \<lparr>wc_minute = t mod 60, wc_hour = 0, wc_day = 1, wc_month = 1, wc_weekday = 0\<rparr>"
      and calendar_end = 100 and e = "\<lparr>ce_raw = '''', ce_minute = field_value 7, ce_hour = AnyValue, ce_day_of_month = AnyValue, ce_month = AnyValue,
      ce_day_of_week = AnyValue\<rparr>" and after_seconds = 300]
  by (auto simp: is_due_at_def field_value_matches)

lemma utc_wall_at:
  assumes "date_of k = (y, m, d)" "p < 1440"
  shows "utc_wall (k * 1440 + p) =
    \<lparr>wc_minute = p mod 60, wc_hour = p div 60, wc_day = d, wc_month = m, wc_weekday = weekday_of k\<rparr>"
proof -
  have eq: "k * 1440 + p = p + 60 * (24 * k)" by simp
  have "(k * 1440 + p) div 1440 = k" using assms(2) by simp
  moreover have "(k * 1440 + p) mod 60 = p mod 60" unfolding eq by (rule mod_mult_self2)
  moreover have "(k * 1440 + p) div 60 = p div 60 + 24 * k" unfolding eq by simp
  moreover have "p div 60 < 24" using assms(2) by (simp add: div_less_iff_less_mult)
  ultimately show ?thesis using assms(1) by (simp add: utc_wall_def Let_def)
qed

text \<open>Whether an expression is due at a time of day depends on the month and either the day or the weekday.\<close>

lemma due_day:
  assumes "is_due_at e \<lparr>wc_minute = mi, wc_hour = h, wc_day = d, wc_month = m, wc_weekday = w\<rparr>"
  shows "(\<forall>w'. is_due_at e \<lparr>wc_minute = mi, wc_hour = h, wc_day = d, wc_month = m, wc_weekday = w'\<rparr>)
    \<or> (\<forall>d'. is_due_at e \<lparr>wc_minute = mi, wc_hour = h, wc_day = d', wc_month = m, wc_weekday = w\<rparr>)"
proof -
  have "is_any f \<Longrightarrow> field_matches f v" for f v by (cases f) simp_all
  then show ?thesis using assms by (auto simp: is_due_at_def Let_def split: if_splits)
qed

lemma due_again:
  assumes "is_due_at e (utc_wall t)"
  shows "\<exists>u > a. u \<le> a + next_run_scan_minutes \<and> is_due_at e (utc_wall u)"
proof -
  define k0 where "k0 = t div 1440"
  define p where "p = t mod 1440"
  obtain y0 m d where k0: "date_of k0 = (y0, m, d)" by (cases "date_of k0")
  have p: "p < 1440" by (simp add: p_def)
  have "t = k0 * 1440 + p" by (simp add: k0_def p_def)
  with utc_wall_at [OF k0 p] have due: "is_due_at e
      \<lparr>wc_minute = p mod 60, wc_hour = p div 60, wc_day = d, wc_month = m, wc_weekday = weekday_of k0\<rparr>"
    using assms by simp
  have valid: "valid_date (y0, m, d)" using date_of_valid [of k0] k0 by simp
  have found: ?thesis if "a div 1440 < k" "k \<le> a div 1440 + 2928" "is_due_at e (utc_wall (k * 1440 + p))" for k
  proof (intro exI conjI)
    show "a < k * 1440 + p" using that(1) by (simp add: div_less_iff_less_mult)
    have "k * 1440 \<le> (a div 1440) * 1440 + 2928 * 1440" using that(2) by simp
    moreover have "(a div 1440) * 1440 \<le> a" by simp
    ultimately show "k * 1440 + p \<le> a + next_run_scan_minutes" using p by (simp add: next_run_scan_minutes_def)
  qed (rule that(3))
  from due_day [OF due] show ?thesis
  proof
    assume any: "\<forall>w'. is_due_at e \<lparr>wc_minute = p mod 60, wc_hour = p div 60, wc_day = d, wc_month = m, wc_weekday = w'\<rparr>"
    obtain k y where k: "a div 1440 < k" "k \<le> a div 1440 + 2928" "date_of k = (y, m, d)"
      using date_recurs [OF valid] by blast
    show ?thesis by (rule found [OF k(1,2)]) (simp add: utc_wall_at [OF k(3) p] any)
  next
    assume any: "\<forall>d'. is_due_at e \<lparr>wc_minute = p mod 60, wc_hour = p div 60, wc_day = d', wc_month = m,
      wc_weekday = weekday_of k0\<rparr>"
    have "weekday_of k0 < 7" by (simp add: weekday_of_def)
    then obtain k y d' where k: "a div 1440 < k" "k \<le> a div 1440 + 2928" "weekday_of k = weekday_of k0" "date_of k = (y, m, d')"
      using weekday_recurs [of m "weekday_of k0" "a div 1440"] valid by auto
    show ?thesis by (rule found [OF k(1,2)]) (simp add: utc_wall_at [OF k(4) p] any k(3))
  qed
qed

text \<open>
  C28: no next run means never. In UTC, whatever the expression and the instant, if the scan finds no run
  although the calendar has room for it, then the expression is due at no instant at all; so the bound
  of eight years and two days never hides a run, leap days across a skipped century included.
\<close>

theorem no_next_run_means_never:
  assumes "after_seconds div 60 + next_run_scan_minutes \<le> calendar_end"
  shows "next_run_after utc_wall calendar_end e after_seconds = None \<longleftrightarrow> (\<forall>t. \<not> is_due_at e (utc_wall t))"
proof
  assume none: "next_run_after utc_wall calendar_end e after_seconds = None"
  show "\<forall>t. \<not> is_due_at e (utc_wall t)"
  proof (intro allI notI)
    fix t assume "is_due_at e (utc_wall t)"
    from due_again [OF this, of "after_seconds div 60"]
    obtain u where u: "after_seconds div 60 < u" "u \<le> after_seconds div 60 + next_run_scan_minutes"
      "is_due_at e (utc_wall u)" by blast
    then show False using next_run_missed [OF none, of u] assms seconds_after [of after_seconds u] by simp
  qed
next
  assume never: "\<forall>t. \<not> is_due_at e (utc_wall t)"
  then show "next_run_after utc_wall calendar_end e after_seconds = None"
    using next_run_found [of utc_wall calendar_end e after_seconds]
    by (cases "next_run_after utc_wall calendar_end e after_seconds") auto
qed

lemma no_next_run_means_never_witness:
  "next_run_after utc_wall 10000000 \<lparr>ce_raw = '''', ce_minute = field_value 60, ce_hour = AnyValue,
     ce_day_of_month = AnyValue, ce_month = AnyValue, ce_day_of_week = AnyValue\<rparr> 0 = None"
proof -
  have "wc_minute (utc_wall t) < 60" for t by (simp add: utc_wall_def Let_def split: prod.split)
  then have "\<not> is_due_at \<lparr>ce_raw = '''', ce_minute = field_value 60, ce_hour = AnyValue,
     ce_day_of_month = AnyValue, ce_month = AnyValue, ce_day_of_week = AnyValue\<rparr> (utc_wall t)" for t
    by (simp add: is_due_at_def field_value_matches) (metis less_irrefl)
  then show ?thesis by (subst no_next_run_means_never) (simp_all add: next_run_scan_minutes_def)
qed

lemma expression_is_its_text_witness:
  "cron_parse ''30 9 * * 1'' =
     Inr (fold cron_edit_apply [AtTime ''9:30'', OnDays [Monday]]
       \<lparr>ce_raw = ''* * * * *'', ce_minute = AnyValue, ce_hour = AnyValue, ce_day_of_month = AnyValue,
        ce_month = AnyValue, ce_day_of_week = AnyValue\<rparr>)"
proof -
  have "''* * * * *'' = join_with '' '' [''*'', ''*'', ''*'', ''*'', ''*'']" by (simp add: join_with_def)
  then have p: "cron_parse ''* * * * *'' = Inr \<lparr>ce_raw = ''* * * * *'', ce_minute = AnyValue, ce_hour = AnyValue,
      ce_day_of_month = AnyValue, ce_month = AnyValue, ce_day_of_week = AnyValue\<rparr>"
    using cron_parse_fields [of "''*''" "''*''" "''*''" "''*''" "''*''"] by (simp add: field_parse_star)
  have t: "parse_hh_mm ''9:30'' = Inr (9, 30)"
    by (simp add: parse_hh_mm_def Let_def str_parse_u32_def parse_u32_digits_def is_ascii_digit_def char_code_def
        digits_value_def digit_value_def u32_max_def)
  have n: "nat_to_dec 30 = ''30''" "nat_to_dec 9 = ''9''" "nat_to_dec (Suc 0) = ''1''"
    by (simp_all add: nat_to_dec.simps digit_char_def char_of_def bit_0)
  show ?thesis
    using expression_is_its_text [OF p, of "[AtTime ''9:30'', OnDays [Monday]]"] t
    by (simp add: Let_def cron_at_def set_time_def with_days_of_week_def with_day_ranges_def fields_text_def join_with_def
        field_value_def day_range_text_def n)
qed


text \<open>A late time, which the builder takes without a check of its range.\<close>

lemma late_time_is_no_expression:
  "\<exists>e x. cron_parse ''* * * * *'' = Inr e \<and> cron_parse (ce_raw (cron_at ''25:00'' e)) = Inl x"
proof -
  have "''* * * * *'' = join_with '' '' [''*'', ''*'', ''*'', ''*'', ''*'']" by (simp add: join_with_def)
  then have p: "cron_parse ''* * * * *'' = Inr \<lparr>ce_raw = ''* * * * *'', ce_minute = AnyValue, ce_hour = AnyValue,
      ce_day_of_month = AnyValue, ce_month = AnyValue, ce_day_of_week = AnyValue\<rparr>" (is "_ = Inr ?e")
    using cron_parse_fields [of "''*''" "''*''" "''*''" "''*''" "''*''"] by (simp add: literal_fields)
  have t: "parse_hh_mm ''25:00'' = Inr (25, 0)"
    by (simp add: parse_hh_mm_def Let_def str_parse_u32_def parse_u32_digits_def is_ascii_digit_def char_code_def
        digits_value_def digit_value_def u32_max_def)
  have n: "nat_to_dec 25 = ''25''" by (simp add: nat_to_dec.simps digit_char_def char_of_def bit_0)
  have "ce_raw (cron_at ''25:00'' ?e) = join_with '' '' [''0'', ''25'', ''*'', ''*'', ''*'']"
    by (simp add: cron_at_def t set_time_def fields_text_def field_value_def n zero_text)
  moreover have "is_word ''25''" "\<exists>x. cron_field_parse ''25'' hour_bounds = Inl x"
    by (simp_all add: is_word_def is_space_def char_code_def cron_field_parse_def cron_part_parse_def part_range_def
        parse_number_def str_parse_u32_def parse_u32_digits_def is_ascii_digit_def digits_value_def digit_value_def
        bounds_check_def cron_bounds)
  ultimately have "\<exists>x. cron_parse (ce_raw (cron_at ''25:00'' ?e)) = Inl x"
    using cron_parse_fields [of "''0''" "''25''" "''*''" "''*''" "''*''"] by (auto simp: literal_fields)
  with p show ?thesis by blast
qed

end
