(* ===== verification/Spec2Isabelle.thy ===== *)
theory Spec2Isabelle
  imports Ledger_Props Ledger_Record_Props Canonical_Props Identity_Props Kernel_Claims Store_Claims
    Resource_Claims Permit_Pool Delivery_Claims Continuity_Claims Codec_Claims
    Upload_Claims Render_Fenced Render_Hex Render_Generation_Claims Render_Policy_Props Render_Key
    Crypto_Keys Render_Store_Claims Render_Coordinator_Props
    Promotion_Rate Promotion_Service Rate_Limiter Cron_Claims
begin

text \<open>
  A verification library of suprnova: the core of its live engine, the crate \<open>crates/suprnova-live\<close>
  (paths below are relative to its \<open>src/\<close>), and parts of its web framework, the crate \<open>framework\<close> (paths
  that start with \<open>framework/\<close>).

  The engine keeps server-side component instances and the streams that refresh them. A browser
  may act on an instance only by claiming its current revision in the instance ledger, and every
  asynchronous update travels in a signed, registered envelope through a bounded delivery scope
  into the sequence machine of its subscription. The library follows those two paths.

  The instance ledger. \<open>Ledger_Contract\<close>, \<open>Ledger_State\<close>: requests, outcomes and the transitions over one
  record (\<open>ledger/contract.rs\<close>, \<open>ledger/state.rs\<close>: \<open>claim\<close>, \<open>commit\<close>, \<open>release\<close>, \<open>abandon\<close>, \<open>fence\<close>).
  \<open>Ledger_Invariant\<close>, \<open>Ledger_Life\<close>, \<open>Ledger_Props\<close>: the record invariant, histories of one record under
  any interleaving of operations, and the refinement to a three-state authority. \<open>Ledger_Record\<close> and
  \<open>Ledger_Record_Props\<close>: the byte codec of stored records (\<open>ledger/record.rs\<close>), with its round trip.
  \<open>Record_Store\<close>, \<open>Record_Store_Inv\<close>: the in-process store with its deadline order and bounded sweep.
  \<open>Store_Interface\<close> states what a store promises as locales; \<open>Memory_Store\<close> interprets them on the
  in-process store, where other nodes may make any calls of the port in between. \<open>Ledger_Kernel\<close> is the
  distributed ledger over such a store (\<open>ledger/distributed.rs\<close>: load, compute, compare-and-store,
  retry once, queue and drain retirements, evict); \<open>Kernel_Props\<close>, \<open>Kernel_Quiet\<close>,
  \<open>Kernel_Queue\<close> prove it inside those locales, and \<open>Kernel_Claims\<close>, \<open>Store_Claims\<close> draw the properties
  from the interpretations. A version is unique within one life of a record only, so what is proved of a
  grant or a commit excludes that others create the same instance again, as the code itself does.

  Identities and JSON. \<open>Identity\<close>, \<open>Identity_Props\<close>: the bounded text, binary and decimal identities.
  \<open>Canonical\<close>, \<open>Canonical_Props\<close>: the canonical JSON value, its bounded parser visitor, validation and
  writer (\<open>canonical.rs\<close>), over \<open>BTree_Map\<close>, an ordered association list. The text of JSON and the base64
  alphabet belong to third-party crates and are parameters (\<open>json_text\<close>, \<open>base64_engine\<close>); what the code
  relies on is \<open>json_lawful\<close>, \<open>codec_lawful\<close>, \<open>base64_lawful\<close>, and \<open>Json_Instance\<close>, \<open>Identity_Props\<close> show
  concrete functions that satisfy them.

  Bounded resources. \<open>Resource_Queue\<close>, \<open>Resource_Claims\<close>: the byte-accounted
  queue, its owner and its retirement (\<open>resource/queue.rs\<close>, \<open>resource/owner.rs\<close>), shown to refine a plain
  list and never to panic. \<open>Permit_Pool\<close>: the lock-free permit counter as interleaved loads and
  compare-and-exchange steps.

  Asynchronous updates (\<open>async_updates/\<close>). \<open>Async_Metadata\<close>: registered names, targets and contract sets.
  \<open>Async_Envelope\<close>, \<open>Async_Codec\<close>, \<open>Async_Decode\<close>: the payload union, the encoder, the preflight scanner and
  the strict decoder of \<open>envelope.rs\<close>; \<open>Decode_Props\<close>, \<open>Codec_Claims\<close> show that decoding returns, that what it
  returns is registered, that only the encoder's bytes are accepted, and that the sorted sets are
  searched correctly. \<open>Sequence\<close>, \<open>Sequence_Props\<close>: the sequence machine of \<open>sequence.rs\<close>. \<open>Pressure_Tracker\<close>,
  \<open>Async_Backpressure\<close>, \<open>Async_Delivery\<close>: the delivery scope of \<open>backpressure.rs\<close> (offers, coalescing, atomic
  replay admission, leases, loss and recovery, retirement). \<open>Delivery_Props\<close>,
  \<open>Delivery_Life\<close>, \<open>Delivery_Claims\<close>: histories of a scope, what it owes after a loss, exact accounts and
  progress, beside other scopes that draw on the same permits. \<open>Continuity\<close>, \<open>Continuity_Claims\<close>: a lane of dispatches, replays and baselines as its host
  sees it, and the recovery of a gap.

  Uploads. \<open>Upload_State\<close>: the state machine of one temporary upload (\<open>upload/state.rs\<close>: \<open>next_state\<close>,
  \<open>apply\<close>, the cleanup transitions), with the revisions, keys and persisted record it uses. \<open>Upload_Claims\<close>: histories of an upload, exact retries and the order of its states.

  The render cache (\<open>render_cache/\<close>). \<open>Render_Store\<close>, \<open>Render_Store_Claims\<close>: the in-process
  store (\<open>store.rs\<close>), shown to be a least-recently-used list under fenced publication. \<open>Render_Coordinator\<close>,
  \<open>Render_Coordinator_Props\<close>: the one rebuild per key in a process (\<open>singleflight.rs\<close>), with the completions
  and wakers its waiters share as an explicit store. \<open>Render_Lease\<close> states what a lease store promises as
  the locale \<open>lease_port_laws\<close> and models the in-memory reference (\<open>lease.rs\<close>); \<open>Render_Lease_Props\<close>
  interprets the locale on it and shows that a late publisher is fenced; \<open>Render_Fenced\<close> is the
  coordinator over any port, with other requests of the process running while it awaits the store. \<open>Render_Generation\<close>, \<open>Render_Generation_Claims\<close>,
  \<open>Render_Hex\<close>: dependency identities, generation sets, the ledger, observation windows and the coherence
  check (\<open>generation.rs\<close>, \<open>coherence.rs\<close>), over the digest function as a parameter. \<open>Render_Variance\<close>,
  \<open>Render_Policy\<close>, \<open>Render_Policy_Props\<close>: variance dimensions, classification, policies, eligibility, freshness
  and HTTP metadata (\<open>variance.rs\<close>, \<open>policy.rs\<close>, \<open>coherence.rs\<close>, \<open>http.rs\<close>). \<open>Render_Key\<close>:
  the lookup key (\<open>key.rs\<close>) and the injectivity of the message it is the MAC of.

  Promotion (\<open>promotion/\<close>). A page seed becomes an instance by a promotion, admitted once per nonce.
  \<open>Hash_Map\<close> is the map with one entry per key that \<open>HashMap\<close> and \<open>BTreeMap\<close> are modelled by here.
  \<open>Promotion_Policy\<close>: the policy state of \<open>policy.rs\<close> (reservations, rate buckets, outstanding counters, two
  deadline agendas) with \<open>begin\<close>, \<open>accept\<close>, \<open>abandon\<close> and the bounded pruning. \<open>Promotion_Inv\<close>: its invariant and that every step keeps it; \<open>Promotion_Claims\<close>: exact counters and one
  answer per nonce; \<open>Promotion_Rate\<close>: the admission rate and that pruning reclaims what expired, 64 events
  at a time; \<open>Promotion_Service\<close>: admission and settlement around the ledger call of \<open>service.rs\<close>.

  The rate limiter (\<open>framework/src/rate_limit\<close>). \<open>Rate_Limiter\<close>: the sliding-window bucket of \<open>algorithm.rs\<close>
  and the in-process driver of \<open>memory.rs\<close>; it shows that eviction and sweeps are
  invisible: the limiter answers as a reference that keeps every grant, for clocks that do not run
  backwards (the clock is read under the shard lock) and one window per key.

  The scheduler (\<open>framework/src/schedule/expression.rs\<close>). \<open>Cron\<close>: the field grammar, the builders, the
  factories, the due check and the next-run scan, over ASCII text, with the wall clock of the time zone
  library a parameter. \<open>Cron_Props\<close>: well-formed expressions and their text; \<open>Gregorian\<close>: the UTC wall clock
  on the Gregorian calendar and its 400-year cycle; \<open>Cron_Claims\<close>: an expression is its text, the
  factories fire as named, the next run is the first, and none found means never.

  Keys. \<open>Crypto_Keys\<close>: root keys, purposes, validity windows and the key ring (\<open>crypto/\<close>),
  over HKDF and HMAC as the parameter \<open>crypto_engine\<close>; \<open>Big_Endian\<close> holds the byte forms of words.

  Representation. A \<open>u64\<close> is a \<open>64 word\<close>, a \<open>u16\<close> a \<open>16 word\<close>, a \<open>usize\<close> a natural number with the bound
  \<open>usize_max\<close> written out where the code checks or saturates; an error is the left of a sum; a panic
  (an arithmetic check, an \<open>expect\<close>) is \<open>None\<close>, and theorems show it is never reached. A lock is held
  for one whole operation, so an operation is one state transformer; what may happen between two
  store calls is explicit in \<open>Memory_Store\<close> and \<open>Ledger_Kernel\<close>. Host code (dispatchers, revalidation,
  record stores of other nodes, clocks) is a parameter that answers anything.

  Bounds and fuel. The ledger's retry loop is the code's own two attempts, and the sweep the code's
  64 entries; the drain takes the queue's length at its start. Only the preflight scanner carries fuel
  of the model's own: a value at cursor \<open>c\<close> needs \<open>2 * (length - c) + 1\<close> and a member loop one more,
  because each step either descends into the next byte or passes one; \<open>decode_terminates\<close> shows it is
  enough, whatever the bytes. The scan for the next run has the code's own bound, eight years and two
  days of minutes, which \<open>no_next_run_means_never\<close> shows to be enough in UTC; pruning takes the code's
  64 events a call.

  Not modelled. Of this crate: HTTP handling and template rendering, the snapshot schema and its
  composition (with it the verification of a seed before its promotion), the signed subscription descriptor, the transports' I/O loops, upload storage and
  file-type validation, agent and browser tool exposure, the Redis record store; of the render cache
  the composite segment graph, the entry and hot codecs, the negotiation of 32-bit floating-point
  qualities (\<open>NegotiatedPolicy::negotiate\<close>), \<open>evaluate_conditional\<close> over an entry, and the inspection view
  \<open>RenderKeyDimensions\<close>. Of the repository: the rest of the web framework (\<open>framework\<close>; of the
  rate limiter the Redis driver and the named limiters, of the scheduler the runner and its locks), the macros, the command line,
  payments, push and the generated application, which are I/O, code generation or bindings around
  other libraries, or subsystems with their own state that this library has not reached.
\<close>

end
